(* ===== verification/Prelude.thy ===== *)
theory Prelude
  imports Main "HOL-Library.Word" "HOL-Library.Monad_Syntax"
begin

unbundle bit_operations_syntax

text \<open>
  The prelude of the development: the machine integers of the 32-bit kernel, little-endian
  access to byte buffers, and the list, option and word lemmas the components share.
  Buffers are byte lists; a C array access at a constant offset is \<open>xs ! i\<close>, and every
  operation that could leave its buffer is stated for buffers of the size the code declares.
\<close>

section \<open>Machine integers\<close>

type_synonym u8 = "8 word"
type_synonym u16 = "16 word"
type_synonym u32 = "32 word"
type_synonym u64 = "64 word"

named_theorems frame_simps "what an operation leaves unchanged"
named_theorems spec_simps "functional equations of operations on a drive that answers"

lemma unat_plus_small [simp]:
  fixes a :: "'a::len word"
  assumes "unat a + unat b < 2 ^ LENGTH('a)"
  shows "unat (a + b) = unat a + unat b"
  using assms by (rule unat_add_lem [THEN iffD1])

lemma word_less_Suc_unat:
  fixes a b :: "'a::len word"
  assumes "a < b"
  shows "unat (a + 1) = Suc (unat a)"
proof -
  have "unat a < unat b" using assms by (simp add: word_less_nat_alt)
  moreover have "unat b < 2 ^ LENGTH('a)" by (rule unsigned_less)
  ultimately have "Suc (unat a) < 2 ^ LENGTH('a)" by linarith
  then show ?thesis by (simp add: unat_word_ariths(1))
qed

lemma unat_u32_less: "unat (x :: u32) < 4294967296"
  using unsigned_less [where ?'a = nat, of x] by simp

lemma unat_ucast_u8 [simp]: "unat (ucast (x :: u8) :: u32) = unat x"
proof -
  have "unat x < 2 ^ 8" using unsigned_less [of x] by simp
  then show ?thesis by (simp add: unsigned_ucast_eq take_bit_nat_eq_self)
qed

lemma unat_ucast_u16 [simp]: "unat (ucast (x :: u16) :: u32) = unat x"
proof -
  have "unat x < 2 ^ 16" using unsigned_less [of x] by simp
  then show ?thesis by (simp add: unsigned_ucast_eq take_bit_nat_eq_self)
qed

lemma take_Suc_update: "n < length xs \<Longrightarrow> take (Suc n) (xs[n := y]) = take n xs @ [y]"
  by (simp add: take_Suc_conv_app_nth)

section \<open>Little-endian access to byte buffers\<close>

definition get_u16 :: "u8 list \<Rightarrow> nat \<Rightarrow> u16" where
  "get_u16 buf off = (ucast (buf ! off) OR push_bit 8 (ucast (buf ! (off + 1))) :: u16)"

definition get_u32 :: "u8 list \<Rightarrow> nat \<Rightarrow> u32" where
  "get_u32 buf off =
     (ucast (buf ! off) OR push_bit 8 (ucast (buf ! (off + 1)))
      OR push_bit 16 (ucast (buf ! (off + 2))) OR push_bit 24 (ucast (buf ! (off + 3))) :: u32)"

definition u16_bytes :: "u16 \<Rightarrow> u8 list" where
  "u16_bytes v = [ucast v, ucast (drop_bit 8 v)]"

definition u32_bytes :: "u32 \<Rightarrow> u8 list" where
  "u32_bytes v = [ucast v, ucast (drop_bit 8 v), ucast (drop_bit 16 v), ucast (drop_bit 24 v)]"

definition put_u32 :: "u8 list \<Rightarrow> nat \<Rightarrow> u32 \<Rightarrow> u8 list" where
  "put_u32 buf off v =
     buf[off := ucast v, off + 1 := ucast (drop_bit 8 v),
         off + 2 := ucast (drop_bit 16 v), off + 3 := ucast (drop_bit 24 v)]"

lemma length_put_u32 [simp]: "length (put_u32 buf off v) = length buf"
  by (simp add: put_u32_def)

lemma get_u32_put_same [simp]:
  assumes "off + 3 < length buf"
  shows "get_u32 (put_u32 buf off v) off = v"
proof -
  have "get_u32 (put_u32 buf off v) off =
      (ucast (ucast v :: u8) OR push_bit 8 (ucast (ucast (drop_bit 8 v) :: u8))
       OR push_bit 16 (ucast (ucast (drop_bit 16 v) :: u8))
       OR push_bit 24 (ucast (ucast (drop_bit 24 v) :: u8)) :: u32)"
    using assms by (simp add: get_u32_def put_u32_def)
  also have "\<dots> = v"
  proof (rule bit_word_eqI)
    fix n :: nat
    assume n: "n < LENGTH(32)"
    consider "n < 8" | "8 \<le> n \<and> n < 16" | "16 \<le> n \<and> n < 24" | "24 \<le> n" by linarith
    then show "bit (ucast (ucast v :: u8) OR push_bit 8 (ucast (ucast (drop_bit 8 v) :: u8))
       OR push_bit 16 (ucast (ucast (drop_bit 16 v) :: u8))
       OR push_bit 24 (ucast (ucast (drop_bit 24 v) :: u8)) :: u32) n = bit v n"
      using n by cases (auto simp: bit_simps)
  qed
  finally show ?thesis .
qed

lemma get_u32_put_other [simp]:
  assumes "off + 3 < off' \<or> off' + 3 < off"
  shows "get_u32 (put_u32 buf off v) off' = get_u32 buf off'"
  using assms by (auto simp: get_u32_def put_u32_def nth_list_update)

text \<open>A multi-byte value and its bytes determine each other.\<close>

lemma bit_u8_high [simp]: "8 \<le> n \<Longrightarrow> \<not> bit (x :: u8) n"
  by (auto dest: bit_imp_le_length)

lemma get_u16_bytes:
  "u16_bytes (get_u16 buf off) = [buf ! off, buf ! (off + 1)]"
  by (auto simp: u16_bytes_def get_u16_def intro!: bit_word_eqI) (auto simp: bit_simps)

lemma get_u16_of_bytes:
  assumes "buf ! off = ucast v" "buf ! (off + 1) = ucast (drop_bit 8 v)"
  shows "get_u16 buf off = v"
proof (rule bit_word_eqI)
  fix n :: nat
  assume n: "n < LENGTH(16)"
  consider "n < 8" | "8 \<le> n" by linarith
  then show "bit (get_u16 buf off) n = bit v n"
    using n by cases (auto simp: get_u16_def assms assms [simplified] bit_simps)
qed

lemma get_u32_bytes:
  "u32_bytes (get_u32 buf off) = [buf ! off, buf ! (off + 1), buf ! (off + 2), buf ! (off + 3)]"
  by (auto simp: u32_bytes_def get_u32_def intro!: bit_word_eqI) (auto simp: bit_simps)

lemma get_u32_of_bytes:
  assumes "buf ! off = ucast v" "buf ! (off + 1) = ucast (drop_bit 8 v)"
    and "buf ! (off + 2) = ucast (drop_bit 16 v)" "buf ! (off + 3) = ucast (drop_bit 24 v)"
  shows "get_u32 buf off = v"
proof (rule bit_word_eqI)
  fix n :: nat
  assume n: "n < LENGTH(32)"
  consider "n < 8" | "8 \<le> n \<and> n < 16" | "16 \<le> n \<and> n < 24" | "24 \<le> n" by linarith
  then show "bit (get_u32 buf off) n = bit v n"
    using n by cases (auto simp: get_u32_def assms assms [simplified] bit_simps)
qed

end
