(* ===== verification/CString.thy ===== *)
theory CString
  imports Prelude
begin

text \<open>
  The string library of the kernel, \<open>kernel/lib/string.c\<close>. A pointer into an array is
  modelled by the bytes from the pointed-to position to the end of the array, so advancing the
  pointer is taking the tail. A routine that would read or write past the end of the array it is
  given returns \<open>None\<close>: the value \<open>Some\<close> says that the loop stayed inside its buffers.
  Source and destination are distinct arrays, as they are at every call site. A \<open>size_t\<close> count
  is a natural number below \<open>2 ^ 32\<close>.

  \<open>cstr s\<close> is the array that holds the string \<open>s\<close> with its terminator; the file-system
  components keep their names as byte lists without terminator and compare them through
  \<open>str_eq\<close>, which is the call \<open>strcmp(a, b) == 0\<close>.
\<close>

section \<open>Memory blocks\<close>

fun memcpy :: "u8 list \<Rightarrow> u8 list \<Rightarrow> nat \<Rightarrow> u8 list option" where
  "memcpy d s 0 = Some d"
| "memcpy (x # d) (y # s) (Suc n) = map_option ((#) y) (memcpy d s n)"
| "memcpy _ _ (Suc n) = None"

fun memset :: "u8 list \<Rightarrow> u8 \<Rightarrow> nat \<Rightarrow> u8 list option" where
  "memset d v 0 = Some d"
| "memset (x # d) v (Suc n) = map_option ((#) v) (memset d v n)"
| "memset [] v (Suc n) = None"

fun memcmp :: "u8 list \<Rightarrow> u8 list \<Rightarrow> nat \<Rightarrow> int option" where
  "memcmp a b 0 = Some 0"
| "memcmp (x # a) (y # b) (Suc n) =
     (if x \<noteq> y then Some (uint x - uint y) else memcmp a b n)"
| "memcmp _ _ (Suc n) = None"

section \<open>Strings\<close>

fun strlen :: "u8 list \<Rightarrow> nat option" where
  "strlen [] = None"
| "strlen (c # str) = (if c \<noteq> 0 then map_option Suc (strlen str) else Some 0)"

fun strcmp :: "u8 list \<Rightarrow> u8 list \<Rightarrow> int option" where
  "strcmp (x # a) (y # b) =
     (if x \<noteq> 0 \<and> x = y then strcmp a b else Some (uint x - uint y))"
| "strcmp _ _ = None"

fun strcpy :: "u8 list \<Rightarrow> u8 list \<Rightarrow> u8 list option" where
  "strcpy (x # dest) (c # src) =
     (if c \<noteq> 0 then map_option ((#) c) (strcpy dest src) else Some (0 # dest))"
| "strcpy _ _ = None"

text \<open>\<open>strncpy\<close> has two loops: the copy, then the padding with NUL bytes.\<close>

fun strncpy :: "u8 list \<Rightarrow> u8 list \<Rightarrow> nat \<Rightarrow> u8 list option" where
  "strncpy dest src 0 = Some dest"
| "strncpy (x # dest) (c # src) (Suc n) =
     (if c \<noteq> 0 then map_option ((#) c) (strncpy dest src n) else memset (x # dest) 0 (Suc n))"
| "strncpy _ _ (Suc n) = None"

fun strncmp :: "u8 list \<Rightarrow> u8 list \<Rightarrow> nat \<Rightarrow> int option" where
  "strncmp a b 0 = Some 0"
| "strncmp (x # a) (y # b) (Suc n) =
     (if x \<noteq> 0 \<and> x = y then strncmp a b n else Some (uint x - uint y))"
| "strncmp _ _ (Suc n) = None"

fun strcat :: "u8 list \<Rightarrow> u8 list \<Rightarrow> u8 list option" where
  "strcat [] source = None"
| "strcat (x # dest) source =
     (if x \<noteq> 0 then map_option ((#) x) (strcat dest source) else strcpy (x # dest) source)"

text \<open>
  \<open>strrchr\<close> returns a pointer into its argument: the offset of the last occurrence, \<open>None\<close>
  inside for the null pointer. The position of the terminator is returned for the character NUL.
\<close>

fun strrchr_from :: "u8 list \<Rightarrow> u8 \<Rightarrow> nat \<Rightarrow> nat option \<Rightarrow> nat option option" where
  "strrchr_from [] ch i found = None"
| "strrchr_from (c # str) ch i found =
     (if c \<noteq> 0 then strrchr_from str ch (Suc i) (if c = ch then Some i else found)
      else if ch = 0 then Some (Some i) else Some found)"

definition strrchr :: "u8 list \<Rightarrow> u8 \<Rightarrow> nat option option" where
  "strrchr str ch = strrchr_from str ch 0 None"

section \<open>Strings held in arrays\<close>

definition cstr :: "u8 list \<Rightarrow> u8 list" where
  "cstr s = s @ [0]"

definition str_eq :: "u8 list \<Rightarrow> u8 list \<Rightarrow> bool" where
  "str_eq a b \<longleftrightarrow> strcmp (cstr a) (cstr b) = Some 0"

definition bytes :: "string \<Rightarrow> u8 list" where
  "bytes s = map of_char s"

section \<open>Lemmas\<close>

lemma uint_diff_zero [simp]: "uint x - uint y = 0 \<longleftrightarrow> x = y"
  by (simp add: word_uint_eq_iff)

lemma uint_eq_uint [simp]: "uint x = uint y \<longleftrightarrow> x = y"
  by (simp add: word_uint_eq_iff)

lemma uint_eq_zero [simp]: "uint x = 0 \<longleftrightarrow> x = 0"
  by (simp add: uint_0_iff)

lemma memcpy_spec:
  assumes "n \<le> length d" "n \<le> length s"
  shows "memcpy d s n = Some (take n s @ drop n d)"
  using assms by (induction d s n rule: memcpy.induct) auto

lemma memset_spec:
  assumes "n \<le> length d"
  shows "memset d v n = Some (replicate n v @ drop n d)"
  using assms by (induction d v n rule: memset.induct) auto

lemma memcmp_zero_iff:
  assumes "n \<le> length a" "n \<le> length b"
  shows "memcmp a b n = Some 0 \<longleftrightarrow> take n a = take n b"
  using assms by (induction a b n rule: memcmp.induct) auto

lemma memcmp_not_None:
  assumes "n \<le> length a" "n \<le> length b"
  shows "memcmp a b n \<noteq> None"
  using assms by (induction a b n rule: memcmp.induct) auto

lemma strlen_cstr:
  assumes "0 \<notin> set s"
  shows "strlen (s @ 0 # rest) = Some (length s)"
  using assms by (induction s) auto

lemma strcmp_cstr_zero_iff:
  assumes "0 \<notin> set a" "0 \<notin> set b"
  shows "strcmp (a @ 0 # r) (b @ 0 # t) = Some 0 \<longleftrightarrow> a = b"
  using assms
proof (induction a arbitrary: b)
  case Nil
  then show ?case by (cases b) auto
next
  case (Cons x a)
  then show ?case by (cases b) auto
qed

lemma str_eq_iff [simp]:
  assumes "0 \<notin> set a" "0 \<notin> set b"
  shows "str_eq a b \<longleftrightarrow> a = b"
  using strcmp_cstr_zero_iff [OF assms] by (simp add: str_eq_def cstr_def)

lemma str_eq_refl [simp]: "str_eq a a"
proof -
  have "strcmp (a @ [0]) (a @ [0]) = Some 0" by (induction a) auto
  then show ?thesis by (simp add: str_eq_def cstr_def)
qed

lemma strcpy_cstr:
  assumes "0 \<notin> set s"
  shows "strcpy dest (s @ 0 # rest) =
    (if length s < length dest then Some (s @ 0 # drop (Suc (length s)) dest) else None)"
  using assms
proof (induction s arbitrary: dest)
  case Nil
  then show ?case by (cases dest) auto
next
  case (Cons c s)
  then show ?case by (cases dest) auto
qed

lemma strncpy_cstr:
  assumes "0 \<notin> set s" "n \<le> length dest"
  shows "strncpy dest (s @ 0 # rest) n =
    Some (take n s @ replicate (n - length s) 0 @ drop n dest)"
  using assms
proof (induction s arbitrary: dest n)
  case Nil
  then show ?case by (cases dest; cases n) (auto simp: memset_spec)
next
  case (Cons c s)
  then show ?case by (cases dest; cases n) auto
qed

lemma strncmp_zero_iff:
  assumes "0 \<notin> set a" "0 \<notin> set b"
  shows "strncmp (a @ 0 # r) (b @ 0 # t) n = Some 0 \<longleftrightarrow> take n a = take n b"
  using assms
proof (induction a arbitrary: b n)
  case Nil
  then show ?case by (cases b; cases n) auto
next
  case (Cons x a)
  then show ?case by (cases b; cases n) auto
qed

lemma strcat_cstr:
  assumes "0 \<notin> set a" "0 \<notin> set b" "length b \<le> length spare"
  shows "strcat (a @ 0 # spare) (b @ 0 # rest) =
    Some (a @ b @ 0 # drop (length b) spare)"
  using assms by (induction a) (auto simp: strcpy_cstr)

lemma strrchr_from_absent:
  assumes "0 \<notin> set s" "ch \<noteq> 0" "ch \<notin> set s"
  shows "strrchr_from (s @ 0 # rest) ch i found = Some found"
  using assms by (induction s arbitrary: i) auto

lemma strrchr_from_last:
  assumes "0 \<notin> set p" "0 \<notin> set q" "ch \<noteq> 0" "ch \<notin> set q"
  shows "strrchr_from (p @ ch # q @ 0 # rest) ch i found = Some (Some (i + length p))"
  using assms by (induction p arbitrary: i found) (auto simp: strrchr_from_absent)

lemma strrchr_last:
  assumes "0 \<notin> set p" "0 \<notin> set q" "ch \<noteq> 0" "ch \<notin> set q"
  shows "strrchr (cstr (p @ ch # q)) ch = Some (Some (length p))"
  using strrchr_from_last [OF assms] by (simp add: strrchr_def cstr_def)

end
