(* ===== verification/Disk.thy ===== *)
theory Disk
  imports CString
begin

text \<open>
  The disk layer, \<open>kernel/drivers/disk.c\<close>, on top of the sector commands of the ATA driver
  \<open>kernel/drivers/ata.c\<close>. The hardware is not part of the repository and is a parameter of the
  model: \<open>medium\<close> is what each drive holds, and \<open>io_script\<close> is the sequence of outcomes of
  the sector commands, chosen by the environment. \<open>Io_Fault\<close> is a command whose first poll
  reports an error (nothing is transferred); \<open>Io_Flush_Fault\<close> is a write whose data were
  transferred but whose cache flush reports an error. Every theorem that does not assume
  \<open>healthy\<close> holds for every such sequence.

  A function that returns 0 or -1 is modelled by a Boolean (\<open>True\<close> for 0); a read returns the
  sector on success. The device table is filled at boot before \<open>disk_init\<close> takes its addresses
  and never changes afterwards, so a handle carries the device record it points to. A null
  pointer is \<open>None\<close>.
\<close>

section \<open>Devices and handles\<close>

datatype ata_channel = ATA_PRIMARY | ATA_SECONDARY
datatype ata_drive = ATA_MASTER | ATA_SLAVE

record ata_device =
  present :: bool
  channel :: ata_channel
  drive :: ata_drive
  model :: "u8 list"
  sector_count :: u32

record disk_t =
  device :: "ata_device option"

definition ata_get_device :: "ata_device list \<Rightarrow> u8 \<Rightarrow> ata_device option" where
  "ata_get_device devices index = (if index \<ge> 4 then None else Some (devices ! unat index))"

definition disk_init :: "ata_device list \<Rightarrow> disk_t list" where
  "disk_init devices = map (\<lambda>i. \<lparr>device = ata_get_device devices i\<rparr>) [0, 1, 2, 3]"

definition disk_get :: "disk_t list \<Rightarrow> u8 \<Rightarrow> disk_t option" where
  "disk_get disks index =
     (if index \<ge> 4 then None
      else case device (disks ! unat index) of
        None \<Rightarrow> None
      | Some dev \<Rightarrow> if \<not> present dev then None else Some (disks ! unat index))"

section \<open>The drives\<close>

datatype io_outcome = Io_Done | Io_Fault | Io_Flush_Fault

record hw =
  medium :: "ata_channel \<times> ata_drive \<Rightarrow> u32 \<Rightarrow> u8 list"
  io_script :: "nat \<Rightarrow> io_outcome"
  io_pos :: nat

definition tick :: "'a hw_scheme \<Rightarrow> 'a hw_scheme" where
  "tick w = w\<lparr>io_pos := Suc (io_pos w)\<rparr>"

definition put_sector :: "ata_device \<Rightarrow> u32 \<Rightarrow> u8 list \<Rightarrow> 'a hw_scheme \<Rightarrow> 'a hw_scheme" where
  "put_sector dev lba buf w =
     w\<lparr>medium := (medium w)((channel dev, drive dev) :=
        (medium w (channel dev, drive dev))(lba := buf))\<rparr>"

text \<open>
  The sector commands as their callers see them: the guards of the driver, then one command whose
  outcome the environment decides.
\<close>

definition ata_read_sector ::
  "ata_device option \<Rightarrow> u32 \<Rightarrow> 'a hw_scheme \<Rightarrow> u8 list option \<times> 'a hw_scheme" where
  "ata_read_sector d lba w =
     (case d of
        None \<Rightarrow> (None, w)
      | Some dev \<Rightarrow>
          if \<not> present dev then (None, w)
          else if lba \<ge> sector_count dev then (None, w)
          else if io_script w (io_pos w) = Io_Done
          then (Some (medium w (channel dev, drive dev) lba), tick w)
          else (None, tick w))"

definition ata_write_sector ::
  "ata_device option \<Rightarrow> u32 \<Rightarrow> u8 list \<Rightarrow> 'a hw_scheme \<Rightarrow> bool \<times> 'a hw_scheme" where
  "ata_write_sector d lba buf w =
     (case d of
        None \<Rightarrow> (False, w)
      | Some dev \<Rightarrow>
          if \<not> present dev then (False, w)
          else if lba \<ge> sector_count dev then (False, w)
          else (case io_script w (io_pos w) of
                  Io_Done \<Rightarrow> (True, tick (put_sector dev lba buf w))
                | Io_Fault \<Rightarrow> (False, tick w)
                | Io_Flush_Fault \<Rightarrow> (False, tick (put_sector dev lba buf w))))"

definition disk_read ::
  "disk_t option \<Rightarrow> u32 \<Rightarrow> 'a hw_scheme \<Rightarrow> u8 list option \<times> 'a hw_scheme" where
  "disk_read disk lba w =
     (case disk of None \<Rightarrow> (None, w) | Some d \<Rightarrow> ata_read_sector (device d) lba w)"

definition disk_write ::
  "disk_t option \<Rightarrow> u32 \<Rightarrow> u8 list \<Rightarrow> 'a hw_scheme \<Rightarrow> bool \<times> 'a hw_scheme" where
  "disk_write disk lba buf w =
     (case disk of None \<Rightarrow> (False, w) | Some d \<Rightarrow> ata_write_sector (device d) lba buf w)"

section \<open>The view of a handle\<close>

definition live_device :: "disk_t option \<Rightarrow> ata_device option" where
  "live_device disk =
     (case disk of None \<Rightarrow> None
      | Some d \<Rightarrow> (case device d of None \<Rightarrow> None
                  | Some dev \<Rightarrow> if present dev then Some dev else None))"

definition in_disk :: "disk_t option \<Rightarrow> u32 \<Rightarrow> bool" where
  "in_disk disk lba \<longleftrightarrow>
     (case live_device disk of None \<Rightarrow> False | Some dev \<Rightarrow> lba < sector_count dev)"

definition sec :: "disk_t option \<Rightarrow> 'a hw_scheme \<Rightarrow> u32 \<Rightarrow> u8 list" where
  "sec disk w lba =
     (case live_device disk of None \<Rightarrow> [] | Some dev \<Rightarrow> medium w (channel dev, drive dev) lba)"

definition healthy :: "'a hw_scheme \<Rightarrow> bool" where
  "healthy w \<longleftrightarrow> (\<forall>n. io_script w n = Io_Done)"

definition set_sec :: "disk_t option \<Rightarrow> u32 \<Rightarrow> u8 list \<Rightarrow> 'a hw_scheme \<Rightarrow> 'a hw_scheme" where
  "set_sec disk lba buf w =
     (case live_device disk of None \<Rightarrow> w | Some dev \<Rightarrow> put_sector dev lba buf w)"

lemma disk_read_None [simp]: "disk_read None lba w = (None, w)"
  by (simp add: disk_read_def)

lemma disk_write_None [simp]: "disk_write None lba buf w = (False, w)"
  by (simp add: disk_write_def)

lemma in_disk_None [simp]: "\<not> in_disk None lba"
  by (simp add: in_disk_def live_device_def)

lemma in_disk_handle [dest]: "in_disk disk lba \<Longrightarrow> \<exists>d. disk = Some d"
  by (cases disk) auto

lemma disk_read_ok [spec_simps]:
  "healthy w \<Longrightarrow> in_disk disk lba \<Longrightarrow> disk_read disk lba w = (Some (sec disk w lba), tick w)"
  by (auto simp: disk_read_def ata_read_sector_def in_disk_def sec_def live_device_def healthy_def
      split: option.splits if_splits)

lemma disk_write_ok [spec_simps]:
  "healthy w \<Longrightarrow> in_disk disk lba \<Longrightarrow>
   disk_write disk lba buf w = (True, tick (set_sec disk lba buf w))"
  by (auto simp: disk_write_def ata_write_sector_def in_disk_def set_sec_def live_device_def
      healthy_def split: option.splits if_splits)

lemma healthy_tick [simp]: "healthy (tick w) = healthy w"
  by (simp add: healthy_def tick_def)

lemma healthy_set_sec [simp]: "healthy (set_sec disk lba buf w) = healthy w"
  by (simp add: healthy_def set_sec_def put_sector_def split: option.splits)

lemma sec_tick [simp]: "sec disk (tick w) = sec disk w"
  by (simp add: sec_def tick_def fun_eq_iff split: option.splits)

lemma sec_set_sec [simp]:
  "in_disk disk lba \<Longrightarrow> sec disk (set_sec disk lba buf w) = (sec disk w)(lba := buf)"
  by (auto simp: sec_def set_sec_def put_sector_def in_disk_def fun_eq_iff split: option.splits)

text \<open>Without any assumption on the hardware: what a command can change at all.\<close>

lemma sec_disk_read [frame_simps, simp]: "sec disk (snd (disk_read disk' lba w)) = sec disk w"
  by (simp add: disk_read_def ata_read_sector_def split: option.splits)

lemma medium_disk_read [simp]: "medium (snd (disk_read disk lba w)) = medium w"
  by (simp add: disk_read_def ata_read_sector_def tick_def split: option.splits)

lemma healthy_disk_read [simp]: "healthy (snd (disk_read disk lba w)) = healthy w"
  by (simp add: disk_read_def ata_read_sector_def split: option.splits)

lemma healthy_disk_write [simp]: "healthy (snd (disk_write disk lba buf w)) = healthy w"
  by (simp add: disk_write_def ata_write_sector_def tick_def put_sector_def healthy_def
      split: option.splits io_outcome.splits)

lemma sec_disk_write_other [frame_simps]:
  "lba' \<noteq> lba \<Longrightarrow> sec disk (snd (disk_write disk lba buf w)) lba' = sec disk w lba'"
  by (auto simp: disk_write_def ata_write_sector_def sec_def live_device_def tick_def
      put_sector_def split: option.splits io_outcome.splits)

lemma sec_disk_write_same:
  "sec disk (snd (disk_write disk lba buf w)) lba \<in> {sec disk w lba, buf}"
  by (auto simp: disk_write_def ata_write_sector_def sec_def live_device_def tick_def
      put_sector_def split: option.splits io_outcome.splits)

section \<open>The block-device interface\<close>

text \<open>
  What the file system relies on: reads return the content and change nothing, a write replaces
  one sector, and no failing command touches another sector. The handle operations provide it.
\<close>

locale block_device =
  fixes rd :: "u32 \<Rightarrow> 's \<Rightarrow> u8 list option \<times> 's"
    and wr :: "u32 \<Rightarrow> u8 list \<Rightarrow> 's \<Rightarrow> bool \<times> 's"
    and content :: "'s \<Rightarrow> u32 \<Rightarrow> u8 list"
    and working :: "'s \<Rightarrow> bool"
    and in_range :: "u32 \<Rightarrow> bool"
  assumes rd_result: "working s \<Longrightarrow> in_range a \<Longrightarrow> fst (rd a s) = Some (content s a)"
    and rd_content: "content (snd (rd a s)) = content s"
    and rd_working: "working (snd (rd a s)) = working s"
    and wr_result: "working s \<Longrightarrow> in_range a \<Longrightarrow> fst (wr a v s)"
    and wr_content: "working s \<Longrightarrow> in_range a \<Longrightarrow> content (snd (wr a v s)) = (content s)(a := v)"
    and wr_working: "working (snd (wr a v s)) = working s"
    and wr_frame: "b \<noteq> a \<Longrightarrow> content (snd (wr a v s)) b = content s b"
begin

definition modify :: "u32 \<Rightarrow> (u8 list \<Rightarrow> u8 list) \<Rightarrow> 's \<Rightarrow> bool \<times> 's" where
  "modify a f s = (case rd a s of (None, s1) \<Rightarrow> (False, s1) | (Some v, s1) \<Rightarrow> wr a (f v) s1)"

lemma modify_result:
  "working s \<Longrightarrow> in_range a \<Longrightarrow> fst (modify a f s)"
  using rd_result [of s a] rd_working [of a s] wr_result [of "snd (rd a s)" a]
  by (cases "rd a s") (auto simp: modify_def)

lemma modify_content:
  "working s \<Longrightarrow> in_range a \<Longrightarrow> content (snd (modify a f s)) = (content s)(a := f (content s a))"
  using rd_result [of s a] rd_working [of a s] rd_content [of a s]
    wr_content [of "snd (rd a s)" a "f (content s a)"]
  by (cases "rd a s") (auto simp: modify_def)

lemma modify_frame: "b \<noteq> a \<Longrightarrow> content (snd (modify a f s)) b = content s b"
  using rd_content [of a s] wr_frame [of b a]
  by (simp add: modify_def split: prod.splits option.splits) (metis snd_conv)

lemma modify_working: "working (snd (modify a f s)) = working s"
  using rd_working [of a s] wr_working [of a]
  by (simp add: modify_def split: prod.splits option.splits) (metis snd_conv)

end

interpretation drive: block_device "disk_read disk" "disk_write disk" "sec disk" healthy "in_disk disk"
  for disk
  by unfold_locales (auto simp: spec_simps frame_simps)

section \<open>Handles\<close>

lemma disk_get_live:
  assumes "disk_get (disk_init devices) i = Some d"
  shows "\<exists>dev. live_device (Some d) = Some dev \<and> device d = Some dev \<and> present dev"
  using assms
  by (auto simp: disk_get_def live_device_def split: if_splits option.splits)

end
