(* ===== verification/Fat32.thy ===== *)
theory Fat32
  imports Disk
begin

text \<open>
  The FAT32 layer, \<open>kernel/fs/fat32.c\<close>: the geometry read from the boot sector, the entries of
  the file allocation table, cluster allocation and the cluster chains. The static
  \<open>fat32_fs\<close> extends the state of the drives. A cluster number is a 32-bit word and all
  arithmetic on it wraps as in the source. A loop that follows links of the table and has no
  counter of its own may not end on a damaged table; it is a \<open>partial_function (option)\<close>, whose
  \<open>None\<close> is not returning.
\<close>

section \<open>State and constants\<close>

record fat32_filesystem =
  bytes_per_sector :: u16
  sectors_per_cluster :: u8
  reserved_sector_count :: u16
  fat_count :: u8
  fat_size :: u32
  root_cluster :: u32
  first_data_sector :: u32
  fat_start_sector :: u32
  total_clusters :: u32

record fat_state = hw +
  fat32_fs :: fat32_filesystem

abbreviation FAT32_INVALID_CLUSTER :: u32 where "FAT32_INVALID_CLUSTER \<equiv> 0xFFFFFFFF"
abbreviation FAT32_CLUSTER_FREE :: u32 where "FAT32_CLUSTER_FREE \<equiv> 0x00000000"
abbreviation FAT32_CLUSTER_EOC :: u32 where "FAT32_CLUSTER_EOC \<equiv> 0x0FFFFFFF"
abbreviation FAT32_CLUSTER_LAST :: u32 where "FAT32_CLUSTER_LAST \<equiv> 0x0FFFFFF8"

section \<open>The boot sector\<close>

text \<open>The geometry that the packed \<open>fat32_boot_sector_t\<close> at the start of a sector describes.\<close>

definition boot_geometry :: "u8 list \<Rightarrow> fat32_filesystem" where
  "boot_geometry sector =
     (let spc = sector ! 13; reserved = get_u16 sector 14; fats = sector ! 16;
          size32 = get_u32 sector 36; total32 = get_u32 sector 32;
          first_data = ucast reserved + ucast fats * size32;
          data_sectors = total32 - first_data
      in \<lparr>bytes_per_sector = get_u16 sector 11, sectors_per_cluster = spc,
          reserved_sector_count = reserved, fat_count = fats, fat_size = size32,
          root_cluster = get_u32 sector 44, first_data_sector = first_data,
          fat_start_sector = ucast reserved, total_clusters = data_sectors div ucast spc\<rparr>)"

definition fat32_detect :: "disk_t option \<Rightarrow> 'a fat_state_scheme \<Rightarrow> bool \<times> 'a fat_state_scheme" where
  "fat32_detect disk w =
     (if disk = None then (False, w)
      else case disk_read disk 0 w of
        (None, w1) \<Rightarrow> (False, w1)
      | (Some sector, w1) \<Rightarrow>
          if sector ! 66 \<noteq> 0x28 \<and> sector ! 66 \<noteq> 0x29 then (False, w1)
          else if memcmp (drop 82 sector) (bytes ''FAT32   '') 8 \<noteq> Some 0 then (False, w1)
          else if get_u16 sector 11 \<noteq> 512 then (False, w1)
          else if sector ! 13 = 0 then (False, w1)
          else if sector ! 16 = 0 then (False, w1)
          else if get_u32 sector 36 = 0 then (False, w1)
          else (True, w1\<lparr>fat32_fs := boot_geometry sector\<rparr>))"

section \<open>Clusters and table entries\<close>

definition fat32_cluster_to_sector :: "u32 \<Rightarrow> 'a fat_state_scheme \<Rightarrow> u32" where
  "fat32_cluster_to_sector cluster w =
     (if cluster < 2 then 0
      else first_data_sector (fat32_fs w)
           + (cluster - 2) * ucast (sectors_per_cluster (fat32_fs w)))"

definition fat_sector_of :: "fat32_filesystem \<Rightarrow> u32 \<Rightarrow> u32" where
  "fat_sector_of fs cluster = fat_start_sector fs + (cluster * 4) div ucast (bytes_per_sector fs)"

definition fat_offset_of :: "fat32_filesystem \<Rightarrow> u32 \<Rightarrow> nat" where
  "fat_offset_of fs cluster = unat ((cluster * 4) mod ucast (bytes_per_sector fs))"

definition fat32_read_fat_entry ::
  "disk_t option \<Rightarrow> u32 \<Rightarrow> 'a fat_state_scheme \<Rightarrow> u32 \<times> 'a fat_state_scheme" where
  "fat32_read_fat_entry disk cluster w =
     (if disk = None then (FAT32_INVALID_CLUSTER, w)
      else if cluster < 2 \<or> cluster \<ge> total_clusters (fat32_fs w) + 2
      then (FAT32_INVALID_CLUSTER, w)
      else case disk_read disk (fat_sector_of (fat32_fs w) cluster) w of
        (None, w1) \<Rightarrow> (FAT32_INVALID_CLUSTER, w1)
      | (Some sector, w1) \<Rightarrow>
          (get_u32 sector (fat_offset_of (fat32_fs w) cluster) AND 0x0FFFFFFF, w1))"

definition fat32_next_cluster ::
  "disk_t option \<Rightarrow> u32 \<Rightarrow> 'a fat_state_scheme \<Rightarrow> u32 \<times> 'a fat_state_scheme" where
  "fat32_next_cluster disk cluster w =
     (if disk = None then (FAT32_INVALID_CLUSTER, w)
      else case fat32_read_fat_entry disk cluster w of
        (next, w1) \<Rightarrow>
          if next \<ge> FAT32_CLUSTER_LAST then (FAT32_INVALID_CLUSTER, w1) else (next, w1))"

function find_free_from ::
  "disk_t option \<Rightarrow> u32 \<Rightarrow> u32 \<Rightarrow> 'a fat_state_scheme \<Rightarrow> u32 \<times> 'a fat_state_scheme" where
  "find_free_from disk bound cluster w =
     (if cluster < bound
      then (case fat32_read_fat_entry disk cluster w of
              (entry, w1) \<Rightarrow>
                if entry = FAT32_CLUSTER_FREE then (cluster, w1)
                else find_free_from disk bound (cluster + 1) w1)
      else (0, w))"
  by pat_completeness auto
termination
  by (relation "measure (\<lambda>(disk, bound, cluster, w). unat bound - unat cluster)")
    (auto simp: word_less_Suc_unat word_less_nat_alt)

declare find_free_from.simps [simp del]

definition fat32_find_free_cluster ::
  "disk_t option \<Rightarrow> 'a fat_state_scheme \<Rightarrow> u32 \<times> 'a fat_state_scheme" where
  "fat32_find_free_cluster disk w =
     (if disk = None then (0, w) else find_free_from disk (total_clusters (fat32_fs w) + 2) 2 w)"

definition fat32_write_fat_entry ::
  "disk_t option \<Rightarrow> u32 \<Rightarrow> u32 \<Rightarrow> 'a fat_state_scheme \<Rightarrow> bool \<times> 'a fat_state_scheme" where
  "fat32_write_fat_entry disk cluster value w =
     (if disk = None then (False, w)
      else if cluster < 2 \<or> cluster \<ge> total_clusters (fat32_fs w) + 2 then (False, w)
      else case disk_read disk (fat_sector_of (fat32_fs w) cluster) w of
        (None, w1) \<Rightarrow> (False, w1)
      | (Some sector, w1) \<Rightarrow>
          let offset = fat_offset_of (fat32_fs w) cluster;
              old = get_u32 sector offset;
              new = put_u32 sector offset ((old AND 0xF0000000) OR (value AND 0x0FFFFFFF))
          in disk_write disk (fat_sector_of (fat32_fs w) cluster) new w1)"

fun zero_sectors ::
  "disk_t option \<Rightarrow> u32 \<Rightarrow> nat \<Rightarrow> 'a fat_state_scheme \<Rightarrow> bool \<times> 'a fat_state_scheme" where
  "zero_sectors disk sector 0 w = (True, w)"
| "zero_sectors disk sector (Suc n) w =
     (case disk_write disk sector (replicate 512 0) w of
        (False, w1) \<Rightarrow> (False, w1)
      | (True, w1) \<Rightarrow> zero_sectors disk (sector + 1) n w1)"

definition fat32_zero_cluster ::
  "disk_t option \<Rightarrow> u32 \<Rightarrow> 'a fat_state_scheme \<Rightarrow> bool \<times> 'a fat_state_scheme" where
  "fat32_zero_cluster disk cluster w =
     (if disk = None then (False, w)
      else let first_sector = fat32_cluster_to_sector cluster w
           in if first_sector = 0 then (False, w)
              else zero_sectors disk first_sector (unat (sectors_per_cluster (fat32_fs w))) w)"

definition fat32_allocate_cluster ::
  "disk_t option \<Rightarrow> 'a fat_state_scheme \<Rightarrow> u32 \<times> 'a fat_state_scheme" where
  "fat32_allocate_cluster disk w =
     (case fat32_find_free_cluster disk w of
        (cluster, w1) \<Rightarrow>
          if cluster = 0 then (0, w1)
          else case fat32_write_fat_entry disk cluster FAT32_CLUSTER_EOC w1 of
            (False, w2) \<Rightarrow> (0, w2)
          | (True, w2) \<Rightarrow>
              (case fat32_zero_cluster disk cluster w2 of
                 (False, w3) \<Rightarrow>
                   (0, snd (fat32_write_fat_entry disk cluster FAT32_CLUSTER_FREE w3))
               | (True, w3) \<Rightarrow> (cluster, w3)))"

text \<open>
  The counter \<open>freed\<close> never wraps: the loop runs at all only when \<open>total_clusters + 2\<close> does not
  wrap, and it leaves the loop when the counter passes \<open>total_clusters\<close>.
\<close>

function free_chain_loop ::
  "disk_t option \<Rightarrow> u32 \<Rightarrow> nat \<Rightarrow> 'a fat_state_scheme \<Rightarrow> nat \<Rightarrow> bool \<times> 'a fat_state_scheme" where
  "free_chain_loop disk cluster freed w limit =
     (if cluster \<ge> 2 \<and> cluster < total_clusters (fat32_fs w) + 2
      then if Suc freed > limit then (False, w)
           else case fat32_read_fat_entry disk cluster w of
             (next, w1) \<Rightarrow>
               if next = FAT32_INVALID_CLUSTER then (False, w1)
               else case fat32_write_fat_entry disk cluster FAT32_CLUSTER_FREE w1 of
                 (False, w2) \<Rightarrow> (False, w2)
               | (True, w2) \<Rightarrow>
                   if next \<ge> FAT32_CLUSTER_LAST then (True, w2)
                   else free_chain_loop disk next (Suc freed) w2 limit
      else (True, w))"
  by pat_completeness auto
termination
  by (relation "measure (\<lambda>(disk, cluster, freed, w, limit). limit - freed)") auto

declare free_chain_loop.simps [simp del]

definition fat32_free_cluster_chain ::
  "disk_t option \<Rightarrow> u32 \<Rightarrow> 'a fat_state_scheme \<Rightarrow> bool \<times> 'a fat_state_scheme" where
  "fat32_free_cluster_chain disk first_cluster w =
     free_chain_loop disk first_cluster 0 w (unat (total_clusters (fat32_fs w)))"

definition put_block :: "u8 list \<Rightarrow> nat \<Rightarrow> u8 list \<Rightarrow> u8 list" where
  "put_block buf off blk = take off buf @ blk @ drop (off + length blk) buf"

fun read_sectors ::
  "disk_t option \<Rightarrow> u32 \<Rightarrow> nat \<Rightarrow> nat \<Rightarrow> nat \<Rightarrow> u8 list \<Rightarrow> 'a fat_state_scheme
   \<Rightarrow> u8 list option \<times> 'a fat_state_scheme" where
  "read_sectors disk sector bps i 0 buf w = (Some buf, w)"
| "read_sectors disk sector bps i (Suc n) buf w =
     (case disk_read disk (sector + of_nat i) w of
        (None, w1) \<Rightarrow> (None, w1)
      | (Some s, w1) \<Rightarrow> read_sectors disk sector bps (Suc i) n (put_block buf (i * bps) s) w1)"

definition fat32_read_cluster ::
  "disk_t option \<Rightarrow> u32 \<Rightarrow> u8 list \<Rightarrow> 'a fat_state_scheme \<Rightarrow> u8 list option \<times> 'a fat_state_scheme" where
  "fat32_read_cluster disk cluster buf w =
     read_sectors disk (fat32_cluster_to_sector cluster w) (unat (bytes_per_sector (fat32_fs w))) 0
       (unat (sectors_per_cluster (fat32_fs w))) buf w"

partial_function (option) chain_last ::
  "disk_t option \<Rightarrow> u32 \<Rightarrow> 'a fat_state_scheme \<Rightarrow> (u32 \<times> 'a fat_state_scheme) option" where
  "chain_last disk current w =
     (case fat32_next_cluster disk current w of
        (next, w1) \<Rightarrow>
          if next = FAT32_INVALID_CLUSTER then Some (current, w1) else chain_last disk next w1)"

definition fat32_append_cluster ::
  "disk_t option \<Rightarrow> u32 \<Rightarrow> u32 \<Rightarrow> 'a fat_state_scheme \<Rightarrow> (bool \<times> 'a fat_state_scheme) option" where
  "fat32_append_cluster disk chain cluster w =
     (if disk = None then Some (False, w)
      else if chain < 2 \<or> cluster < 2 then Some (False, w)
      else do {
        (current, w1) \<leftarrow> chain_last disk chain w;
        Some (case fat32_write_fat_entry disk current cluster w1 of
            (False, w2) \<Rightarrow> (False, w2)
          | (True, w2) \<Rightarrow>
              (case fat32_write_fat_entry disk cluster FAT32_CLUSTER_EOC w2 of
                 (False, w3) \<Rightarrow> (False, w3)
               | (True, w3) \<Rightarrow> fat32_zero_cluster disk cluster w3))
      })"

end
