(* ===== verification/FatTable.thy ===== *)
theory FatTable
  imports Fat32
begin

text \<open>
  The allocation table as a function from clusters to values, and the entry operations of
  \<open>kernel/fs/fat32.c\<close> on it. \<open>fat_ok\<close> is what the operations need of the mounted volume:
  512-byte sectors, a table that lies before the data region, and both inside the drive.
\<close>

section \<open>A volume in order\<close>

definition cluster_bound :: "fat32_filesystem \<Rightarrow> nat" where
  "cluster_bound fs = unat (total_clusters fs) + 2"

definition geometry_ok :: "disk_t option \<Rightarrow> fat32_filesystem \<Rightarrow> bool" where
  "geometry_ok disk fs \<longleftrightarrow>
     bytes_per_sector fs = 512 \<and> 0 < sectors_per_cluster fs \<and>
     cluster_bound fs < 0x0FFFFFF0 \<and>
     unat (fat_start_sector fs) + (cluster_bound fs - 1) div 128 < unat (first_data_sector fs) \<and>
     (case live_device disk of
        None \<Rightarrow> False
      | Some dev \<Rightarrow>
          unat (first_data_sector fs) + unat (total_clusters fs) * unat (sectors_per_cluster fs)
          \<le> unat (sector_count dev))"

definition medium_wf :: "disk_t option \<Rightarrow> 'a hw_scheme \<Rightarrow> bool" where
  "medium_wf disk w \<longleftrightarrow> (\<forall>lba. length (sec disk w lba) = 512)"

definition fat_ok :: "disk_t option \<Rightarrow> 'a fat_state_scheme \<Rightarrow> bool" where
  "fat_ok disk w \<longleftrightarrow> geometry_ok disk (fat32_fs w) \<and> medium_wf disk w \<and> healthy w"

definition valid_cluster :: "fat32_filesystem \<Rightarrow> u32 \<Rightarrow> bool" where
  "valid_cluster fs c \<longleftrightarrow> 2 \<le> unat c \<and> unat c < cluster_bound fs"

definition fat :: "disk_t option \<Rightarrow> 'a fat_state_scheme \<Rightarrow> u32 \<Rightarrow> u32" where
  "fat disk w c =
     get_u32 (sec disk w (fat_sector_of (fat32_fs w) c)) (fat_offset_of (fat32_fs w) c)
     AND 0x0FFFFFFF"

lemma fat_ok_handle: "fat_ok disk w \<Longrightarrow> \<exists>d. disk = Some d"
  by (cases disk) (auto simp: fat_ok_def geometry_ok_def live_device_def)

lemma fat_ok_not_None: "fat_ok disk w \<Longrightarrow> (disk = None) = False"
  using fat_ok_handle by fastforce

lemma geometry_ok_dev:
  "geometry_ok disk fs \<Longrightarrow> \<exists>dev. live_device disk = Some dev \<and>
     unat (first_data_sector fs) + unat (total_clusters fs) * unat (sectors_per_cluster fs)
     \<le> unat (sector_count dev)"
  by (auto simp: geometry_ok_def split: option.splits)

lemma valid_guard:
  assumes "cluster_bound fs < 0x0FFFFFF0"
  shows "(c < 2 \<or> c \<ge> total_clusters fs + 2) \<longleftrightarrow> \<not> valid_cluster fs c"
proof -
  have "unat (total_clusters fs + 2) = cluster_bound fs"
    using assms by (subst unat_plus_small) (simp_all add: cluster_bound_def)
  then show ?thesis
    by (auto simp: valid_cluster_def word_less_nat_alt word_le_nat_alt)
qed

lemma geometry_valid_guard:
  "geometry_ok disk fs \<Longrightarrow> (c < 2 \<or> c \<ge> total_clusters fs + 2) \<longleftrightarrow> \<not> valid_cluster fs c"
  by (rule valid_guard) (simp add: geometry_ok_def)

lemma geometry_okD:
  assumes "geometry_ok disk fs"
  shows "bytes_per_sector fs = 512" "0 < unat (sectors_per_cluster fs)"
    "cluster_bound fs < 0x0FFFFFF0"
    "unat (fat_start_sector fs) + (cluster_bound fs - 1) div 128 < unat (first_data_sector fs)"
  using assms by (auto simp: geometry_ok_def word_less_nat_alt)

lemma unat_times_4:
  fixes c :: u32
  assumes "unat c < 0x10000000"
  shows "unat (c * 4) = 4 * unat c"
proof -
  have "unat c * unat (4 :: u32) < 2 ^ LENGTH(32)" using assms by simp
  then show ?thesis by (subst (asm) unat_mult_lem) simp
qed

lemma fat_index:
  assumes "geometry_ok disk fs" "valid_cluster fs c"
  shows "unat (fat_sector_of fs c) = unat (fat_start_sector fs) + unat c div 128"
    and "fat_offset_of fs c = 4 * (unat c mod 128)"
proof -
  have bps: "(ucast (bytes_per_sector fs) :: u32) = 512"
    using assms by (simp add: geometry_ok_def)
  have c4: "unat (c * 4) = 4 * unat c"
    using assms by (intro unat_times_4) (auto simp: geometry_ok_def valid_cluster_def)
  have d: "unat (c * 4 div 512) = unat c div 128"
    by (simp add: unat_div c4)
  have "unat c div 128 \<le> (cluster_bound fs - 1) div 128"
    using assms by (intro div_le_mono) (auto simp: valid_cluster_def)
  moreover have "unat (first_data_sector fs) < 2 ^ 32"
    using unsigned_less [of "first_data_sector fs"] by simp
  ultimately have "unat (fat_start_sector fs) + unat (c * 4 div 512) < 2 ^ 32"
    using assms d by (simp add: geometry_ok_def)
  then show "unat (fat_sector_of fs c) = unat (fat_start_sector fs) + unat c div 128"
    by (simp add: fat_sector_of_def bps d)
  show "fat_offset_of fs c = 4 * (unat c mod 128)"
    using mult_mod_right [of 4 "unat c" 128] by (simp add: fat_offset_of_def bps unat_mod c4)
qed

lemma fat_offset_bound:
  "geometry_ok disk fs \<Longrightarrow> valid_cluster fs c \<Longrightarrow> fat_offset_of fs c + 3 < 512"
  by (simp add: fat_index)

lemma fat_sector_before_data:
  assumes "geometry_ok disk fs" "valid_cluster fs c"
  shows "fat_sector_of fs c < first_data_sector fs"
proof -
  have "unat c div 128 \<le> (cluster_bound fs - 1) div 128"
    using assms by (intro div_le_mono) (auto simp: valid_cluster_def)
  then show ?thesis
    using geometry_okD(4) [OF assms(1)] by (simp add: word_less_nat_alt fat_index [OF assms])
qed

lemma before_data_in_disk:
  assumes "geometry_ok disk fs" "lba < first_data_sector fs"
  shows "in_disk disk lba"
  using assms by (auto simp: geometry_ok_def in_disk_def word_less_nat_alt split: option.splits)

lemma fat_sector_in_disk:
  "geometry_ok disk fs \<Longrightarrow> valid_cluster fs c \<Longrightarrow> in_disk disk (fat_sector_of fs c)"
  by (rule before_data_in_disk) (auto intro: fat_sector_before_data)

text \<open>Distinct clusters have distinct entries: another sector, or disjoint bytes of the same one.\<close>

lemma fat_entries_disjoint:
  assumes "geometry_ok disk fs" "valid_cluster fs c" "valid_cluster fs d" "c \<noteq> d"
    and "fat_sector_of fs c = fat_sector_of fs d"
  shows "fat_offset_of fs c + 3 < fat_offset_of fs d \<or> fat_offset_of fs d + 3 < fat_offset_of fs c"
proof -
  have "unat c div 128 = unat d div 128"
    using assms by (metis add_left_cancel fat_index(1))
  moreover have "unat c \<noteq> unat d" using assms(4) by (simp add: word_unat_eq_iff)
  ultimately have "unat c mod 128 \<noteq> unat d mod 128"
    by (metis div_mult_mod_eq)
  then show ?thesis using assms by (auto simp: fat_index)
qed

section \<open>The entry operations\<close>

lemma fat32_fs_tick [simp]: "fat32_fs (tick w) = fat32_fs w"
  by (simp add: tick_def)

lemma fat32_fs_set_sec [simp]: "fat32_fs (set_sec disk lba buf w) = fat32_fs w"
  by (simp add: set_sec_def put_sector_def split: option.splits)

lemma fat_tick [simp]: "fat disk (tick w) = fat disk w"
  by (simp add: fat_def fun_eq_iff)

lemma medium_wf_tick [simp]: "medium_wf disk (tick w) = medium_wf disk w"
  by (simp add: medium_wf_def)

lemma fat_ok_tick [simp]: "fat_ok disk (tick w) = fat_ok disk w"
  by (simp add: fat_ok_def)

lemma read_fat_entry_ok:
  assumes "fat_ok disk w"
  shows "fat32_read_fat_entry disk c w =
    (if valid_cluster (fat32_fs w) c then (fat disk w c, tick w) else (FAT32_INVALID_CLUSTER, w))"
proof -
  have g: "geometry_ok disk (fat32_fs w)" "healthy w" using assms by (auto simp: fat_ok_def)
  show ?thesis using g(2)
    by (simp add: fat_ok_not_None [OF assms] fat32_read_fat_entry_def geometry_valid_guard [OF g(1)] disk_read_ok
        fat_sector_in_disk [OF g(1)] fat_def)
qed

lemma fat_bound: "fat disk w c < 0x10000000"
proof -
  have "x AND 0x0FFFFFFF \<le> (0x0FFFFFFF :: u32)" for x by (rule word_and_le1)
  then show ?thesis unfolding fat_def
    by (rule order_le_less_trans) simp
qed

definition set_fat :: "disk_t option \<Rightarrow> u32 \<Rightarrow> u32 \<Rightarrow> 'a fat_state_scheme \<Rightarrow> 'a fat_state_scheme" where
  "set_fat disk c v w =
     (let s = fat_sector_of (fat32_fs w) c; off = fat_offset_of (fat32_fs w) c;
          old = get_u32 (sec disk w s) off
      in set_sec disk s
           (put_u32 (sec disk w s) off ((old AND 0xF0000000) OR (v AND 0x0FFFFFFF))) w)"

lemma write_fat_entry_ok:
  assumes "fat_ok disk w"
  shows "fat32_write_fat_entry disk c v w =
    (if valid_cluster (fat32_fs w) c then (True, tick (set_fat disk c v (tick w))) else (False, w))"
proof -
  have g: "geometry_ok disk (fat32_fs w)" "healthy w" using assms by (auto simp: fat_ok_def)
  show ?thesis using g(2)
    by (simp add: fat_ok_not_None [OF assms] fat32_write_fat_entry_def geometry_valid_guard [OF g(1)] disk_read_ok
        disk_write_ok fat_sector_in_disk [OF g(1)] set_fat_def Let_def)
qed

lemma mask_entry:
  fixes v old :: u32
  shows "((old AND 0xF0000000) OR (v AND 0x0FFFFFFF)) AND 0x0FFFFFFF = v AND 0x0FFFFFFF"
proof -
  have "0xF0000000 AND 0x0FFFFFFF = (0 :: u32)" by simp
  then show ?thesis by (simp add: bit.conj_disj_distrib2 and.assoc)
qed

lemma fat_set_fat:
  assumes "fat_ok disk w" "valid_cluster (fat32_fs w) c" "valid_cluster (fat32_fs w) d"
  shows "fat disk (set_fat disk c v w) d = (if d = c then v AND 0x0FFFFFFF else fat disk w d)"
proof -
  have g: "geometry_ok disk (fat32_fs w)" and l: "length (sec disk w lba) = 512" for lba
    using assms by (auto simp: fat_ok_def medium_wf_def)
  note in_d = fat_sector_in_disk [OF g assms(2)]
  show ?thesis
  proof (cases "d = c")
    case True
    then show ?thesis
      using in_d fat_offset_bound [OF g assms(2)]
      by (simp add: fat_def set_fat_def Let_def l mask_entry)
  next
    case False
    then show ?thesis
      using in_d fat_entries_disjoint [OF g assms(2,3)]
      by (auto simp: fat_def set_fat_def Let_def)
  qed
qed

lemma fat32_fs_set_fat [simp]: "fat32_fs (set_fat disk c v w) = fat32_fs w"
  by (simp add: set_fat_def Let_def)

lemma healthy_set_fat [simp]: "healthy (set_fat disk c v w) = healthy w"
  by (simp add: set_fat_def Let_def)

lemma sec_set_fat_other:
  assumes "geometry_ok disk (fat32_fs w)" "valid_cluster (fat32_fs w) c"
    and "lba \<noteq> fat_sector_of (fat32_fs w) c"
  shows "sec disk (set_fat disk c v w) lba = sec disk w lba"
  using assms by (simp add: set_fat_def Let_def fat_sector_in_disk)

lemma sec_set_fat_data:
  assumes "geometry_ok disk (fat32_fs w)" "valid_cluster (fat32_fs w) c"
    and "first_data_sector (fat32_fs w) \<le> lba"
  shows "sec disk (set_fat disk c v w) lba = sec disk w lba"
  using assms fat_sector_before_data [OF assms(1,2)] by (intro sec_set_fat_other) auto

lemma fat_ok_set_fat [simp]:
  assumes "fat_ok disk w" "valid_cluster (fat32_fs w) c"
  shows "fat_ok disk (set_fat disk c v w)"
  using assms by (auto simp: fat_ok_def medium_wf_def set_fat_def Let_def fat_sector_in_disk)

section \<open>The data region\<close>

lemma cluster_to_sector_ok:
  assumes "geometry_ok disk (fat32_fs w)" "valid_cluster (fat32_fs w) c"
  shows "unat (fat32_cluster_to_sector c w) =
    unat (first_data_sector (fat32_fs w)) + (unat c - 2) * unat (sectors_per_cluster (fat32_fs w))"
    and "unat (fat32_cluster_to_sector c w) + unat (sectors_per_cluster (fat32_fs w)) \<le>
      unat (first_data_sector (fat32_fs w)) +
      unat (total_clusters (fat32_fs w)) * unat (sectors_per_cluster (fat32_fs w))"
proof -
  let ?fs = "fat32_fs w"
  let ?spc = "unat (sectors_per_cluster ?fs)"
  have c: "2 \<le> unat c" "unat c - 2 + 1 \<le> unat (total_clusters ?fs)"
    using assms(2) by (auto simp: valid_cluster_def cluster_bound_def)
  have "(unat c - 2 + 1) * ?spc \<le> unat (total_clusters ?fs) * ?spc"
    using c(2) by (rule mult_le_mono1)
  then have fits: "unat (first_data_sector ?fs) + (unat c - 2) * ?spc + ?spc
      \<le> unat (first_data_sector ?fs) + unat (total_clusters ?fs) * ?spc"
    by (simp add: algebra_simps)
  obtain dev :: ata_device where "unat (first_data_sector ?fs) + unat (total_clusters ?fs) * ?spc
      \<le> unat (sector_count dev)"
    using geometry_ok_dev [OF assms(1)] by blast
  moreover have "unat (sector_count dev) < 2 ^ 32"
    using unsigned_less [of "sector_count dev"] by simp
  moreover have "0 < ?spc"
    using assms(1) by (simp add: geometry_ok_def word_less_nat_alt)
  ultimately have small: "unat (first_data_sector ?fs) + (unat c - 2) * ?spc < 2 ^ 32"
    using fits by linarith
  have sub: "unat (c - 2) = unat c - 2"
    using c(1) by (simp add: unat_sub word_le_nat_alt)
  have "unat (c - 2) * unat (ucast (sectors_per_cluster ?fs) :: u32) < 2 ^ LENGTH(32)"
    using small by (simp add: sub)
  then have mul: "unat ((c - 2) * ucast (sectors_per_cluster ?fs) :: u32) = (unat c - 2) * ?spc"
    by (subst (asm) unat_mult_lem) (simp add: sub)
  have "\<not> c < 2" using c(1) by (simp add: word_less_nat_alt)
  then show "unat (fat32_cluster_to_sector c w) =
      unat (first_data_sector ?fs) + (unat c - 2) * ?spc"
    using small by (simp add: fat32_cluster_to_sector_def mul)
  then show "unat (fat32_cluster_to_sector c w) + ?spc \<le>
      unat (first_data_sector ?fs) + unat (total_clusters ?fs) * ?spc"
    using fits by simp
qed

end
