(* ===== verification/FatChains.thy ===== *)
theory FatChains
  imports FatTable
begin

text \<open>
  Cluster chains and allocation, over the table as a function. The interface \<open>fat_table\<close> is what
  the chain operations of \<open>kernel/fs/fat32.c\<close> rely on when they store entries; the lemmas on
  chains are proved inside it and used through its interpretation on the entry operations.
\<close>

section \<open>Chains\<close>

fun fat_chain :: "(u32 \<Rightarrow> u32) \<Rightarrow> (u32 \<Rightarrow> bool) \<Rightarrow> u32 \<Rightarrow> u32 list \<Rightarrow> bool" where
  "fat_chain m V c [] = False"
| "fat_chain m V c (x # xs) =
     (c = x \<and> V x \<and>
      (if xs = [] then FAT32_CLUSTER_LAST \<le> m x
       else m x < FAT32_CLUSTER_LAST \<and> fat_chain m V (m x) xs))"

lemma fat_chain_valid: "fat_chain m V c xs \<Longrightarrow> x \<in> set xs \<Longrightarrow> V x"
  by (induction xs arbitrary: c) (auto split: if_splits)

lemma fat_chain_hd: "fat_chain m V c xs \<Longrightarrow> xs \<noteq> [] \<and> hd xs = c"
  by (cases xs) auto

lemma fat_chain_unique: "fat_chain m V c xs \<Longrightarrow> fat_chain m V c ys \<Longrightarrow> xs = ys"
proof (induction xs arbitrary: c ys)
  case Nil
  then show ?case by simp
next
  case (Cons x xs)
  then obtain ys' where ys: "ys = x # ys'" by (cases ys) auto
  have "xs = [] \<longleftrightarrow> ys' = []" using Cons.prems ys by (auto split: if_splits)
  then show ?case using Cons.prems Cons.IH [of "m x" ys'] ys by (auto split: if_splits)
qed

lemma fat_chain_suffix: "fat_chain m V c (xs @ y # ys) \<Longrightarrow> fat_chain m V y (y # ys)"
proof (induction xs arbitrary: c)
  case Nil
  then show ?case by simp
next
  case (Cons x xs)
  then have "fat_chain m V (m x) (xs @ y # ys)" by simp
  then show ?case by (rule Cons.IH)
qed

lemma fat_chain_distinct: "fat_chain m V c xs \<Longrightarrow> distinct xs"
proof (induction xs arbitrary: c)
  case Nil
  then show ?case by simp
next
  case (Cons x xs)
  have "x \<notin> set xs"
  proof
    assume "x \<in> set xs"
    then obtain p q where xs: "xs = p @ x # q" by (meson split_list)
    then have "fat_chain m V x (x # q)" using fat_chain_suffix [of m V c "x # p" x q] Cons.prems by simp
    moreover have "fat_chain m V x (x # xs)" using Cons.prems by simp
    ultimately have "q = xs" using fat_chain_unique by fastforce
    then show False using xs by simp
  qed
  moreover have "distinct xs" using Cons by (cases "xs = []") auto
  ultimately show ?case by simp
qed

lemma fat_chain_cong:
  "(\<And>x. x \<in> set xs \<Longrightarrow> m x = m' x) \<Longrightarrow> fat_chain m V c xs = fat_chain m' V c xs"
  by (induction xs arbitrary: c) auto

lemma fat_chain_snoc:
  assumes "fat_chain m V c xs" "V d" "d < FAT32_CLUSTER_LAST" "FAT32_CLUSTER_LAST \<le> m' d"
    and "m' (last xs) = d" "\<And>x. x \<in> set (butlast xs) \<Longrightarrow> m' x = m x"
  shows "fat_chain m' V c (xs @ [d])"
  using assms
proof (induction xs arbitrary: c)
  case Nil
  then show ?case by simp
next
  case (Cons x xs)
  show ?case
  proof (cases "xs = []")
    case True
    then show ?thesis using Cons.prems by simp
  next
    case False
    then have "fat_chain m' V (m x) (xs @ [d])"
      using Cons.prems by (intro Cons.IH) auto
    moreover have "m' x = m x" using Cons.prems(6) [of x] False by simp
    ultimately show ?thesis using Cons.prems False by simp
  qed
qed

lemma fat_chain_last_eoc: "fat_chain m V c xs \<Longrightarrow> FAT32_CLUSTER_LAST \<le> m (last xs)"
  by (induction xs arbitrary: c) (auto split: if_splits)

section \<open>The table interface\<close>

locale fat_table =
  fixes entry :: "'s \<Rightarrow> u32 \<Rightarrow> u32"
    and put :: "u32 \<Rightarrow> u32 \<Rightarrow> 's \<Rightarrow> 's"
    and ok :: "'s \<Rightarrow> bool"
    and valid :: "'s \<Rightarrow> u32 \<Rightarrow> bool"
  assumes put_ok: "ok s \<Longrightarrow> valid s c \<Longrightarrow> ok (put c v s)"
    and put_valid: "valid (put c v s) = valid s"
    and put_entry: "ok s \<Longrightarrow> valid s c \<Longrightarrow> valid s d \<Longrightarrow>
      entry (put c v s) d = (if d = c then v AND 0x0FFFFFFF else entry s d)"
begin

lemma chain_put_other:
  assumes "ok s" "valid s d" "d \<notin> set xs" "\<And>x. x \<in> set xs \<Longrightarrow> valid s x"
  shows "fat_chain (entry (put d v s)) (valid s) c xs = fat_chain (entry s) (valid s) c xs"
  using assms by (intro fat_chain_cong) (auto simp: put_entry)

lemma chain_append:
  assumes "ok s" "fat_chain (entry s) (valid s) c xs" "valid s d" "d \<notin> set xs"
    and "2 \<le> d" "d < FAT32_CLUSTER_LAST"
  shows "fat_chain (entry (put d FAT32_CLUSTER_EOC (put (last xs) d s))) (valid s) c (xs @ [d])"
proof (rule fat_chain_snoc [OF assms(2) assms(3) assms(6)])
  let ?s1 = "put (last xs) d s"
  have xs: "xs \<noteq> []" using fat_chain_hd [OF assms(2)] by simp
  have vl: "valid s (last xs)" using fat_chain_valid [OF assms(2)] xs by simp
  have ok1: "ok ?s1" using assms(1) vl by (rule put_ok)
  have dmask: "d AND 0x0FFFFFFF = d"
  proof -
    have "d < 2 ^ 28" using assms(6) by (auto intro: less_trans)
    then have "d AND mask 28 = d" by (simp add: less_mask_eq)
    then show ?thesis by (simp add: mask_eq_exp_minus_1)
  qed
  show "FAT32_CLUSTER_LAST \<le> entry (put d FAT32_CLUSTER_EOC ?s1) d"
    using ok1 assms(3) by (simp add: put_entry put_valid)
  have ld: "last xs \<noteq> d" using assms(4) xs by auto
  then show "entry (put d FAT32_CLUSTER_EOC ?s1) (last xs) = d"
    using ok1 assms(1,3) vl by (simp add: put_entry put_valid dmask)
  fix x assume x: "x \<in> set (butlast xs)"
  then have "x \<in> set xs" by (rule in_set_butlastD)
  then have "x \<noteq> d" "valid s x" using assms(4) fat_chain_valid [OF assms(2)] by auto
  moreover have "x \<noteq> last xs"
    using fat_chain_distinct [OF assms(2)] x xs
    by (metis append_butlast_last_id distinct_butlast not_distinct_conv_prefix)
  ultimately show "entry (put d FAT32_CLUSTER_EOC ?s1) x = entry s x"
    using ok1 assms(1,3) vl by (simp add: put_entry put_valid)
qed

primrec free_all :: "u32 list \<Rightarrow> 's \<Rightarrow> 's" where
  "free_all [] s = s"
| "free_all (x # xs) s = free_all xs (put x 0 s)"

lemma free_all_ok:
  "ok s \<Longrightarrow> (\<And>x. x \<in> set xs \<Longrightarrow> valid s x) \<Longrightarrow> ok (free_all xs s)"
  by (induction xs arbitrary: s) (auto simp: put_ok put_valid)

lemma free_all_entry:
  "ok s \<Longrightarrow> (\<And>x. x \<in> set xs \<Longrightarrow> valid s x) \<Longrightarrow> valid s d \<Longrightarrow>
   entry (free_all xs s) d = (if d \<in> set xs then 0 else entry s d)"
  by (induction xs arbitrary: s) (auto simp: put_ok put_valid put_entry)

end

definition fat_put :: "disk_t option \<Rightarrow> u32 \<Rightarrow> u32 \<Rightarrow> 'a fat_state_scheme \<Rightarrow> 'a fat_state_scheme" where
  "fat_put disk c v w = tick (set_fat disk c v (tick w))"

interpretation table: fat_table "fat disk" "fat_put disk" "fat_ok disk" "\<lambda>w. valid_cluster (fat32_fs w)"
  for disk
  by unfold_locales (auto simp: fat_put_def fat_set_fat)

lemma write_fat_put:
  "fat_ok disk w \<Longrightarrow> valid_cluster (fat32_fs w) c \<Longrightarrow>
   fat32_write_fat_entry disk c v w = (True, fat_put disk c v w)"
  by (simp add: write_fat_entry_ok fat_put_def)

lemma fat32_fs_fat_put [simp]: "fat32_fs (fat_put disk c v w) = fat32_fs w"
  by (simp add: fat_put_def)

lemma more_tick [simp]: "fat_state.more (tick w) = fat_state.more w"
  by (simp add: tick_def)

lemma more_set_sec [simp]: "fat_state.more (set_sec disk lba b w) = fat_state.more w"
  by (simp add: set_sec_def put_sector_def split: option.splits)

lemma more_fat_put [simp]: "fat_state.more (fat_put disk c v w) = fat_state.more w"
  by (simp add: fat_put_def set_fat_def Let_def)

lemma sec_fat_put_data:
  "fat_ok disk w \<Longrightarrow> valid_cluster (fat32_fs w) c \<Longrightarrow> first_data_sector (fat32_fs w) \<le> lba \<Longrightarrow>
   sec disk (fat_put disk c v w) lba = sec disk w lba"
  by (simp add: fat_put_def sec_set_fat_data fat_ok_def)

text \<open>Two states that differ only in the table: what the chain operations may change.\<close>

definition same_data :: "disk_t option \<Rightarrow> 'a fat_state_scheme \<Rightarrow> 'a fat_state_scheme \<Rightarrow> bool" where
  "same_data disk w w' \<longleftrightarrow>
     fat_ok disk w' \<and> fat32_fs w' = fat32_fs w \<and> fat_state.more w' = fat_state.more w \<and>
     (\<forall>lba. first_data_sector (fat32_fs w) \<le> lba \<longrightarrow> sec disk w' lba = sec disk w lba)"

lemma same_data_refl: "fat_ok disk w \<Longrightarrow> same_data disk w w"
  by (simp add: same_data_def)

lemma same_data_tick: "fat_ok disk w \<Longrightarrow> same_data disk w (tick w)"
  by (simp add: same_data_def)

lemma same_data_put:
  "fat_ok disk w \<Longrightarrow> valid_cluster (fat32_fs w) c \<Longrightarrow> same_data disk w (fat_put disk c v w)"
  by (simp add: same_data_def table.put_ok sec_fat_put_data)

lemma same_data_trans [trans]:
  "same_data disk u v \<Longrightarrow> same_data disk v w \<Longrightarrow> same_data disk u w"
  by (simp add: same_data_def)

lemma same_data_ok: "same_data disk w w' \<Longrightarrow> fat_ok disk w'"
  by (simp add: same_data_def)

lemma same_data_fs: "same_data disk w w' \<Longrightarrow> fat32_fs w' = fat32_fs w"
  by (simp add: same_data_def)

section \<open>Following a chain\<close>

lemma next_cluster_ok:
  assumes "fat_ok disk w"
  shows "fat32_next_cluster disk c w =
    (if valid_cluster (fat32_fs w) c
     then (if FAT32_CLUSTER_LAST \<le> fat disk w c then FAT32_INVALID_CLUSTER else fat disk w c, tick w)
     else (FAT32_INVALID_CLUSTER, w))"
  by (simp add: fat32_next_cluster_def read_fat_entry_ok [OF assms] fat_ok_not_None [OF assms])

lemma fat_chain_tick [simp]:
  "fat_chain (fat disk (tick w)) V c xs = fat_chain (fat disk w) V c xs"
  by simp

lemma fat_not_invalid: "fat disk w c \<noteq> FAT32_INVALID_CLUSTER"
  using fat_bound [of disk w c] by auto

lemma chain_last_ok:
  assumes "fat_ok disk w" "fat_chain (fat disk w) (valid_cluster (fat32_fs w)) c xs"
  shows "\<exists>w'. chain_last disk c w = Some (last xs, w') \<and> same_data disk w w' \<and>
    fat disk w' = fat disk w"
  using assms
proof (induction xs arbitrary: c w)
  case Nil
  then show ?case by simp
next
  case (Cons x xs)
  have c: "c = x" "valid_cluster (fat32_fs w) x" using Cons.prems by auto
  note unfold = chain_last.simps [of disk c w] next_cluster_ok [OF Cons.prems(1), of c]
  show ?case
  proof (cases "xs = []")
    case True
    then show ?thesis
      using Cons.prems c unfold by (auto simp: same_data_tick)
  next
    case False
    then have lt: "\<not> FAT32_CLUSTER_LAST \<le> fat disk w x"
      and tl: "fat_chain (fat disk w) (valid_cluster (fat32_fs w)) (fat disk w x) xs"
      using Cons.prems by (auto simp: not_le)
    obtain w' where w': "chain_last disk (fat disk w x) (tick w) = Some (last xs, w')"
      "same_data disk (tick w) w'" "fat disk w' = fat disk (tick w)"
      using Cons.IH [of "tick w" "fat disk w x"] Cons.prems(1) tl by auto
    have "chain_last disk c w = chain_last disk (fat disk w x) (tick w)"
      using unfold c lt fat_not_invalid [of disk w x] by simp
    then show ?thesis
      using w' False same_data_trans [OF same_data_tick [OF Cons.prems(1)] w'(2)] by auto
  qed
qed

section \<open>Freeing a chain\<close>

lemma valid_set_card: "card {c. valid_cluster fs c} \<le> unat (total_clusters fs)"
proof -
  have "inj_on unat {c. valid_cluster fs c}"
    by (rule inj_onI) (simp add: word_unat_eq_iff)
  then have "card {c. valid_cluster fs c} = card (unat ` {c. valid_cluster fs c})"
    by (simp add: card_image)
  also have "\<dots> \<le> card {2..<cluster_bound fs}"
    by (rule card_mono) (auto simp: valid_cluster_def)
  finally show ?thesis by (simp add: cluster_bound_def)
qed

lemma chain_length:
  assumes "fat_chain m (valid_cluster fs) c xs"
  shows "length xs \<le> unat (total_clusters fs)"
proof -
  have "length xs = card (set xs)"
    using fat_chain_distinct [OF assms] by (simp add: distinct_card)
  also have "\<dots> \<le> card {c. valid_cluster fs c}"
    using fat_chain_valid [OF assms] by (intro card_mono) auto
  finally show ?thesis using valid_set_card [of fs] by simp
qed

lemma fat_chain_put_tail:
  assumes "fat_ok disk w" "fat_chain (fat disk w) (valid_cluster (fat32_fs w)) c (x # xs)" "xs \<noteq> []"
  shows "fat_chain (fat disk (fat_put disk x v (tick w))) (valid_cluster (fat32_fs w)) (fat disk w x) xs"
proof -
  have "x \<notin> set xs" using fat_chain_distinct [OF assms(2)] by simp
  then have "fat_chain (fat disk (fat_put disk x v (tick w))) (valid_cluster (fat32_fs (tick w)))
      (fat disk w x) xs =
    fat_chain (fat disk (tick w)) (valid_cluster (fat32_fs (tick w))) (fat disk w x) xs"
    using assms fat_chain_valid [OF assms(2)] by (intro table.chain_put_other) auto
  then show ?thesis using assms by simp
qed

lemma free_chain_loop_ok:
  assumes "fat_ok disk w" "fat_chain (fat disk w) (valid_cluster (fat32_fs w)) c xs"
    and "freed + length xs \<le> limit"
  shows "\<exists>w'. free_chain_loop disk c freed w limit = (True, w') \<and> same_data disk w w' \<and>
    (\<forall>d. valid_cluster (fat32_fs w) d \<longrightarrow>
       fat disk w' d = (if d \<in> set xs then 0 else fat disk w d))"
  using assms
proof (induction xs arbitrary: c w freed)
  case Nil
  then show ?case by simp
next
  case (Cons x xs)
  note ok = Cons.prems(1)
  have x: "c = x" "valid_cluster (fat32_fs w) x" using Cons.prems by auto
  have guard: "2 \<le> x \<and> x < total_clusters (fat32_fs w) + 2"
    using geometry_valid_guard [of disk "fat32_fs w" x] ok x(2) by (auto simp: fat_ok_def)
  let ?w2 = "fat_put disk x 0 (tick w)"
  have w2: "fat_ok disk ?w2" "same_data disk w ?w2"
    using ok x(2) same_data_trans [OF same_data_tick [OF ok] same_data_put]
    by (auto simp: table.put_ok)
  have w2_fat: "fat disk ?w2 d = (if d = x then 0 else fat disk w d)"
    if "valid_cluster (fat32_fs w) d" for d
    using table.put_entry [of disk "tick w" x d 0] ok x(2) that by simp
  have step: "free_chain_loop disk c freed w limit =
    (if FAT32_CLUSTER_LAST \<le> fat disk w x then (True, ?w2)
     else free_chain_loop disk (fat disk w x) (Suc freed) ?w2 limit)"
    using Cons.prems x guard fat_not_invalid [of disk w x]
    by (simp add: free_chain_loop.simps [of disk x freed w limit] read_fat_entry_ok [OF ok]
        write_fat_put)
  show ?case
  proof (cases "xs = []")
    case True
    then show ?thesis using step Cons.prems x w2 w2_fat by auto
  next
    case False
    then obtain w' where w': "free_chain_loop disk (fat disk w x) (Suc freed) ?w2 limit = (True, w')"
      "same_data disk ?w2 w'"
      "\<forall>d. valid_cluster (fat32_fs w) d \<longrightarrow>
         fat disk w' d = (if d \<in> set xs then 0 else fat disk ?w2 d)"
      using Cons.IH [OF w2(1), of "fat disk w x" "Suc freed"]
        fat_chain_put_tail [OF ok Cons.prems(2)] Cons.prems(3) by auto
    show ?thesis
      using w' step False Cons.prems(2) w2_fat same_data_trans [OF w2(2) w'(2)] by (auto simp: not_le)
  qed
qed

lemma free_cluster_chain_ok:
  assumes "fat_ok disk w" "fat_chain (fat disk w) (valid_cluster (fat32_fs w)) c xs"
  shows "\<exists>w'. fat32_free_cluster_chain disk c w = (True, w') \<and> same_data disk w w' \<and>
    (\<forall>d. valid_cluster (fat32_fs w) d \<longrightarrow>
       fat disk w' d = (if d \<in> set xs then 0 else fat disk w d))"
  unfolding fat32_free_cluster_chain_def
  using free_chain_loop_ok [OF assms, of 0] chain_length [OF assms(2)] by simp

end
