(* ===== verification/FatAlloc.thy ===== *)
theory FatAlloc
  imports FatChains
begin

text \<open>
  Cluster allocation of \<open>kernel/fs/fat32.c\<close>: the search for a free entry, zeroing a cluster,
  allocating one and appending it to a chain.
\<close>

section \<open>The search for a free cluster\<close>

text \<open>Two states that differ only in how many commands the drive has been given.\<close>

definition quiet :: "'a hw_scheme \<Rightarrow> 'a hw_scheme \<Rightarrow> bool" where
  "quiet w w' \<longleftrightarrow> (\<exists>n. w' = w\<lparr>io_pos := n\<rparr>)"

lemma quiet_refl [simp]: "quiet w w"
  by (auto simp: quiet_def intro: exI [of _ "io_pos w"])

lemma quiet_tick [simp]: "quiet w (tick w)"
  by (auto simp: quiet_def tick_def)

lemma quiet_trans [trans]: "quiet u v \<Longrightarrow> quiet v w \<Longrightarrow> quiet u w"
  by (auto simp: quiet_def)

lemma quiet_tickI: "quiet (tick w) w' \<Longrightarrow> quiet w w'"
  by (rule quiet_trans [OF quiet_tick])

lemma quiet_sec: "quiet w w' \<Longrightarrow> sec disk w' = sec disk w"
  by (auto simp: quiet_def sec_def fun_eq_iff split: option.splits)

lemma quiet_fields:
  fixes w :: "'a fat_state_scheme"
  assumes "quiet w w'"
  shows "fat32_fs w' = fat32_fs w" "fat_state.more w' = fat_state.more w"
    "healthy w' = healthy w" "medium w' = medium w"
  using assms by (auto simp: quiet_def healthy_def)

lemma quiet_fat: "quiet w w' \<Longrightarrow> fat disk w' = fat disk w"
  by (simp add: fat_def fun_eq_iff quiet_sec quiet_fields)

lemma quiet_fat_ok: "quiet w w' \<Longrightarrow> fat_ok disk w' = fat_ok disk w"
  by (simp add: fat_ok_def medium_wf_def quiet_sec quiet_fields)

lemma quiet_same_data: "fat_ok disk w \<Longrightarrow> quiet w w' \<Longrightarrow> same_data disk w w'"
  by (simp add: same_data_def quiet_fat_ok quiet_sec quiet_fields)

lemma find_free_from_ok:
  assumes "fat_ok disk w" "2 \<le> cluster" "bound = total_clusters (fat32_fs w) + 2"
  shows "\<exists>w'. quiet w w' \<and> (case find_free_from disk bound cluster w of (c, w1) \<Rightarrow> w1 = w' \<and>
    (if c = 0 then \<forall>d. valid_cluster (fat32_fs w) d \<longrightarrow> cluster \<le> d \<longrightarrow> fat disk w d \<noteq> 0
     else valid_cluster (fat32_fs w) c \<and> cluster \<le> c \<and> fat disk w c = 0 \<and>
       (\<forall>d. cluster \<le> d \<longrightarrow> d < c \<longrightarrow> fat disk w d \<noteq> 0)))"
  using assms
proof (induction disk bound cluster w rule: find_free_from.induct)
  case (1 disk bound cluster w)
  note ok = "1.prems"(1)
  have g: "(c < 2 \<or> c \<ge> bound) = (\<not> valid_cluster (fat32_fs w) c)" for c
    using ok "1.prems"(3) geometry_valid_guard [of disk "fat32_fs w" c] by (simp add: fat_ok_def)
  show ?case
  proof (cases "cluster < bound")
    case False
    have "\<not> valid_cluster (fat32_fs w) d" if "cluster \<le> d" for d
      using g [of d] False that by auto
    then show ?thesis using False
      by (auto simp: find_free_from.simps [of disk bound cluster w] intro: exI [of _ w])
  next
    case True
    have v: "valid_cluster (fat32_fs w) cluster" using g [of cluster] True "1.prems"(2) by auto
    have read: "fat32_read_fat_entry disk cluster w = (fat disk w cluster, tick w)"
      using read_fat_entry_ok [OF ok, of cluster] v by simp
    show ?thesis
    proof (cases "fat disk w cluster = 0")
      case zero: True
      have "cluster \<noteq> 0" using "1.prems"(2) by auto
      then show ?thesis using True v read zero
        by (auto simp: find_free_from.simps [of disk bound cluster w] intro: exI [of _ "tick w"])
    next
      case nz: False
      have le: "cluster \<le> d \<longleftrightarrow> d = cluster \<or> cluster + 1 \<le> d" for d
        using True word_less_Suc_unat [OF True]
        by (auto simp: word_le_nat_alt word_unat_eq_iff)
      have "2 \<le> cluster + 1" using "1.prems"(2) word_less_Suc_unat [OF True]
        by (simp add: word_le_nat_alt)
      then obtain w' where w': "quiet (tick w) w'"
        "case find_free_from disk bound (cluster + 1) (tick w) of (c, w1) \<Rightarrow> w1 = w' \<and>
          (if c = 0 then \<forall>d. valid_cluster (fat32_fs w) d \<longrightarrow> cluster + 1 \<le> d \<longrightarrow> fat disk w d \<noteq> 0
           else valid_cluster (fat32_fs w) c \<and> cluster + 1 \<le> c \<and> fat disk w c = 0 \<and>
             (\<forall>d. cluster + 1 \<le> d \<longrightarrow> d < c \<longrightarrow> fat disk w d \<noteq> 0))"
        using "1.IH" [OF True read [symmetric] nz] ok "1.prems"(3) by (auto cong: if_cong)
      have "find_free_from disk bound cluster w = find_free_from disk bound (cluster + 1) (tick w)"
        using True nz v read by (simp add: find_free_from.simps [of disk bound cluster w])
      then show ?thesis
        using w' quiet_tickI [OF w'(1)] nz by (auto simp: le split: if_splits)
    qed
  qed
qed

lemma find_free_cluster_ok:
  assumes "fat_ok disk w"
  shows "\<exists>c w'. fat32_find_free_cluster disk w = (c, w') \<and> quiet w w' \<and>
    (if c = 0 then \<forall>d. valid_cluster (fat32_fs w) d \<longrightarrow> fat disk w d \<noteq> 0
     else valid_cluster (fat32_fs w) c \<and> fat disk w c = 0 \<and>
       (\<forall>d. valid_cluster (fat32_fs w) d \<longrightarrow> d < c \<longrightarrow> fat disk w d \<noteq> 0))"
proof -
  have v2: "2 \<le> d" if "valid_cluster (fat32_fs w) d" for d
    using that by (simp add: valid_cluster_def word_le_nat_alt)
  obtain w' where "quiet w w'" and
    "case find_free_from disk (total_clusters (fat32_fs w) + 2) 2 w of (c, w1) \<Rightarrow> w1 = w' \<and>
    (if c = 0 then \<forall>d. valid_cluster (fat32_fs w) d \<longrightarrow> 2 \<le> d \<longrightarrow> fat disk w d \<noteq> 0
     else valid_cluster (fat32_fs w) c \<and> 2 \<le> c \<and> fat disk w c = 0 \<and>
       (\<forall>d. 2 \<le> d \<longrightarrow> d < c \<longrightarrow> fat disk w d \<noteq> 0))"
    using find_free_from_ok [OF assms _ refl, of 2] by auto
  then show ?thesis
    using v2 by (auto simp: fat32_find_free_cluster_def fat_ok_not_None [OF assms]
        split: prod.splits if_splits)
qed

section \<open>Zeroing a cluster\<close>

definition in_cluster :: "u32 \<Rightarrow> 'a fat_state_scheme \<Rightarrow> u32 \<Rightarrow> bool" where
  "in_cluster c w lba \<longleftrightarrow>
     unat (fat32_cluster_to_sector c w) \<le> unat lba \<and>
     unat lba < unat (fat32_cluster_to_sector c w) + unat (sectors_per_cluster (fat32_fs w))"

lemma zero_sectors_ok:
  assumes "healthy w" "\<And>i. i < n \<Longrightarrow> in_disk disk (s + of_nat i)" "unat s + n \<le> 2 ^ 32 - 1"
  shows "\<exists>w'. zero_sectors disk s n w = (True, w') \<and> healthy w' \<and> fat32_fs w' = fat32_fs w \<and>
    fat_state.more w' = fat_state.more w \<and>
    (\<forall>lba. sec disk w' lba =
       (if unat s \<le> unat lba \<and> unat lba < unat s + n then replicate 512 0 else sec disk w lba))"
  using assms
proof (induction n arbitrary: s w)
  case 0
  then show ?case by auto
next
  case (Suc n)
  let ?w1 = "tick (set_sec disk s (replicate 512 0) w)"
  have s: "in_disk disk s" using Suc.prems(2) [of 0] by simp
  have us: "unat (s + 1) = Suc (unat s)"
    using Suc.prems(3) by (subst unat_plus_small) simp_all
  have "in_disk disk (s + 1 + of_nat i)" if "i < n" for i
    using Suc.prems(2) [of "Suc i"] that by (simp add: add.assoc)
  then obtain w' where w': "zero_sectors disk (s + 1) n ?w1 = (True, w')" "healthy w'"
    "fat32_fs w' = fat32_fs w" "fat_state.more w' = fat_state.more w"
    "\<forall>lba. sec disk w' lba = (if unat (s + 1) \<le> unat lba \<and> unat lba < unat (s + 1) + n
       then replicate 512 0 else sec disk ?w1 lba)"
    using Suc.IH [of ?w1 "s + 1"] Suc.prems(1,3) us by auto
  have "unat s \<le> unat lba \<and> unat lba < unat s + Suc n \<longleftrightarrow>
      lba = s \<or> (unat (s + 1) \<le> unat lba \<and> unat lba < unat (s + 1) + n)" for lba
    using us by (auto simp: word_unat_eq_iff)
  then show ?case
    using w' s Suc.prems(1) by (auto simp: disk_write_ok)
qed

lemma cluster_in_disk:
  assumes "geometry_ok disk (fat32_fs w)" "valid_cluster (fat32_fs w) c"
    and "i < unat (sectors_per_cluster (fat32_fs w))"
  shows "in_disk disk (fat32_cluster_to_sector c w + of_nat i)"
    and "unat (fat32_cluster_to_sector c w + of_nat i) = unat (fat32_cluster_to_sector c w) + i"
proof -
  obtain dev :: ata_device where dev: "live_device disk = Some dev"
    "unat (first_data_sector (fat32_fs w)) +
     unat (total_clusters (fat32_fs w)) * unat (sectors_per_cluster (fat32_fs w))
     \<le> unat (sector_count dev)"
    using geometry_ok_dev [OF assms(1)] by blast
  note c = cluster_to_sector_ok(2) [OF assms(1,2)]
  have b: "unat (fat32_cluster_to_sector c w) + i < unat (sector_count dev)"
    using c dev(2) assms(3) by linarith
  also have "unat (sector_count dev) < 2 ^ 32" using unat_u32_less [of "sector_count dev"] by simp
  finally have i32: "unat (fat32_cluster_to_sector c w) + i < 2 ^ 32" .
  then have "unat (of_nat i :: u32) = i" by (simp add: unat_of_nat)
  then show u: "unat (fat32_cluster_to_sector c w + of_nat i) = unat (fat32_cluster_to_sector c w) + i"
    using i32 by simp
  show "in_disk disk (fat32_cluster_to_sector c w + of_nat i)"
    using b dev(1) u by (simp add: in_disk_def word_less_nat_alt)
qed

lemma cluster_sector_pos:
  assumes "geometry_ok disk (fat32_fs w)" "valid_cluster (fat32_fs w) c"
  shows "first_data_sector (fat32_fs w) \<le> fat32_cluster_to_sector c w"
    and "fat32_cluster_to_sector c w \<noteq> 0"
proof -
  show "first_data_sector (fat32_fs w) \<le> fat32_cluster_to_sector c w"
    using cluster_to_sector_ok(1) [OF assms] by (simp add: word_le_nat_alt)
  have "0 < unat (fat32_cluster_to_sector c w)"
    using cluster_to_sector_ok(1) [OF assms] geometry_okD(4) [OF assms(1)] by linarith
  then show "fat32_cluster_to_sector c w \<noteq> 0" by auto
qed

lemma fat_ok_data_change:
  assumes "fat_ok disk w" "healthy w'" "fat32_fs w' = fat32_fs w"
    and "\<And>lba. length (sec disk w' lba) = 512"
  shows "fat_ok disk w'"
  using assms by (simp add: fat_ok_def medium_wf_def)

lemma fat_data_change:
  assumes "fat_ok disk w" "fat32_fs w' = fat32_fs w" "valid_cluster (fat32_fs w) d"
    and "\<And>lba. lba < first_data_sector (fat32_fs w) \<Longrightarrow> sec disk w' lba = sec disk w lba"
  shows "fat disk w' d = fat disk w d"
proof -
  have "fat_sector_of (fat32_fs w) d < first_data_sector (fat32_fs w)"
    using assms by (intro fat_sector_before_data) (auto simp: fat_ok_def)
  then show ?thesis using assms(2,4) by (simp add: fat_def)
qed

lemma zero_cluster_ok:
  assumes ok: "fat_ok disk w" and v: "valid_cluster (fat32_fs w) c"
  shows "\<exists>w'. fat32_zero_cluster disk c w = (True, w') \<and> fat_ok disk w' \<and>
    fat32_fs w' = fat32_fs w \<and> fat_state.more w' = fat_state.more w \<and>
    (\<forall>d. valid_cluster (fat32_fs w) d \<longrightarrow> fat disk w' d = fat disk w d) \<and>
    (\<forall>lba. sec disk w' lba = (if in_cluster c w lba then replicate 512 0 else sec disk w lba))"
proof -
  let ?s = "fat32_cluster_to_sector c w" and ?n = "unat (sectors_per_cluster (fat32_fs w))"
  have g: "geometry_ok disk (fat32_fs w)" and h: "healthy w" using ok by (auto simp: fat_ok_def)
  have n: "0 < ?n" using geometry_okD(2) [OF g] by simp
  have "unat (?s + of_nat (?n - 1)) = unat ?s + (?n - 1)"
    using cluster_in_disk(2) [OF g v, of "?n - 1"] n by simp
  then have "unat ?s + (?n - 1) < 2 ^ 32" using unat_u32_less [of "?s + of_nat (?n - 1)"] by simp
  moreover have "unat ?s + ?n \<noteq> 2 ^ 32"
  proof -
    obtain dev :: ata_device where "unat (first_data_sector (fat32_fs w)) +
      unat (total_clusters (fat32_fs w)) * ?n \<le> unat (sector_count dev)"
      using geometry_ok_dev [OF g] by blast
    moreover have "unat (sector_count dev) < 2 ^ 32" using unat_u32_less [of "sector_count dev"] by simp
    ultimately show ?thesis using cluster_to_sector_ok(2) [OF g v] by linarith
  qed
  ultimately have "unat ?s + ?n \<le> 2 ^ 32 - 1" using n by linarith
  then obtain w' where w': "zero_sectors disk ?s ?n w = (True, w')" "healthy w'"
    "fat32_fs w' = fat32_fs w" "fat_state.more w' = fat_state.more w"
    "\<forall>lba. sec disk w' lba = (if unat ?s \<le> unat lba \<and> unat lba < unat ?s + ?n
       then replicate 512 0 else sec disk w lba)"
    using zero_sectors_ok [OF h cluster_in_disk(1) [OF g v]] by blast
  have pos: "unat (first_data_sector (fat32_fs w)) \<le> unat ?s"
    using cluster_sector_pos(1) [OF g v] by (simp add: word_le_nat_alt)
  have "fat_ok disk w'"
    using w' ok by (intro fat_ok_data_change [OF ok w'(2,3)]) (auto simp: fat_ok_def medium_wf_def)
  moreover have "fat disk w' d = fat disk w d" if "valid_cluster (fat32_fs w) d" for d
    using w'(5) pos by (intro fat_data_change [OF ok w'(3) that]) (auto simp: word_less_nat_alt)
  ultimately show ?thesis
    using w' cluster_sector_pos(2) [OF g v]
    by (auto simp: fat32_zero_cluster_def fat_ok_not_None [OF ok] in_cluster_def Let_def)
qed

section \<open>Allocation\<close>

lemma in_cluster_same: "fat32_fs w' = fat32_fs w \<Longrightarrow> in_cluster c w' = in_cluster c w"
  by (simp add: in_cluster_def fat32_cluster_to_sector_def fun_eq_iff)

lemma allocate_cluster_ok:
  assumes ok: "fat_ok disk w"
  shows "\<exists>c w'. fat32_allocate_cluster disk w = (c, w') \<and> fat_ok disk w' \<and>
    fat32_fs w' = fat32_fs w \<and> fat_state.more w' = fat_state.more w \<and>
    (if c = 0
     then (\<forall>d. valid_cluster (fat32_fs w) d \<longrightarrow> fat disk w d \<noteq> 0) \<and> quiet w w'
     else valid_cluster (fat32_fs w) c \<and> fat disk w c = 0 \<and>
       (\<forall>d. valid_cluster (fat32_fs w) d \<longrightarrow> d < c \<longrightarrow> fat disk w d \<noteq> 0) \<and>
       (\<forall>d. valid_cluster (fat32_fs w) d \<longrightarrow>
          fat disk w' d = (if d = c then FAT32_CLUSTER_EOC else fat disk w d)) \<and>
       (\<forall>lba. first_data_sector (fat32_fs w) \<le> lba \<longrightarrow>
          sec disk w' lba = (if in_cluster c w lba then replicate 512 0 else sec disk w lba)))"
proof -
  obtain c w1 where find: "fat32_find_free_cluster disk w = (c, w1)" "quiet w w1"
    "if c = 0 then \<forall>d. valid_cluster (fat32_fs w) d \<longrightarrow> fat disk w d \<noteq> 0
     else valid_cluster (fat32_fs w) c \<and> fat disk w c = 0 \<and>
       (\<forall>d. valid_cluster (fat32_fs w) d \<longrightarrow> d < c \<longrightarrow> fat disk w d \<noteq> 0)"
    using find_free_cluster_ok [OF ok] by blast
  note q = quiet_fields [OF find(2)] quiet_fat [OF find(2)] quiet_sec [OF find(2)]
  have ok1: "fat_ok disk w1" using ok quiet_fat_ok [OF find(2)] by simp
  show ?thesis
  proof (cases "c = 0")
    case True
    then show ?thesis using find q ok1 by (simp add: fat32_allocate_cluster_def)
  next
    case False
    then have v: "valid_cluster (fat32_fs w) c" "fat disk w c = 0"
      "\<forall>d. valid_cluster (fat32_fs w) d \<longrightarrow> d < c \<longrightarrow> fat disk w d \<noteq> 0" using find(3) by auto
    let ?w2 = "fat_put disk c FAT32_CLUSTER_EOC w1"
    have v1: "valid_cluster (fat32_fs w1) c" using v q by simp
    have ok2: "fat_ok disk ?w2" using table.put_ok [OF ok1 v1] .
    have fs2: "fat32_fs ?w2 = fat32_fs w" using q by simp
    obtain w3 where w3: "fat32_zero_cluster disk c ?w2 = (True, w3)" "fat_ok disk w3"
      "fat32_fs w3 = fat32_fs ?w2" "fat_state.more w3 = fat_state.more ?w2"
      "\<forall>d. valid_cluster (fat32_fs ?w2) d \<longrightarrow> fat disk w3 d = fat disk ?w2 d"
      "\<forall>lba. sec disk w3 lba = (if in_cluster c ?w2 lba then replicate 512 0 else sec disk ?w2 lba)"
      using zero_cluster_ok [OF ok2, of c] v1 by auto
    have fat3: "fat disk w3 d = (if d = c then FAT32_CLUSTER_EOC else fat disk w d)"
      if "valid_cluster (fat32_fs w) d" for d
      using w3(5) that table.put_entry [OF ok1 v1, of d FAT32_CLUSTER_EOC] q by simp
    have sec3: "sec disk w3 lba = (if in_cluster c w lba then replicate 512 0 else sec disk w lba)"
      if "first_data_sector (fat32_fs w) \<le> lba" for lba
      using w3(6) that sec_fat_put_data [OF ok1 v1] q in_cluster_same [OF fs2] by auto
    have "fat32_allocate_cluster disk w = (c, w3)"
      using find(1) False w3(1) by (simp add: fat32_allocate_cluster_def write_fat_put [OF ok1 v1])
    then show ?thesis using False v w3 fat3 sec3 q by auto
  qed
qed

text \<open>
  Appending: the chain gets the new cluster at its end and the cluster is zeroed. The new cluster
  is any valid cluster outside the chain.
\<close>

lemma append_cluster_ok:
  assumes ok: "fat_ok disk w" and chain: "fat_chain (fat disk w) (valid_cluster (fat32_fs w)) c xs"
    and v: "valid_cluster (fat32_fs w) d" and fresh: "d \<notin> set xs"
  shows "\<exists>w'. fat32_append_cluster disk c d w = Some (True, w') \<and> fat_ok disk w' \<and>
    fat32_fs w' = fat32_fs w \<and> fat_state.more w' = fat_state.more w \<and>
    fat_chain (fat disk w') (valid_cluster (fat32_fs w)) c (xs @ [d]) \<and>
    (\<forall>e. valid_cluster (fat32_fs w) e \<longrightarrow> e \<notin> insert d (set xs) \<longrightarrow> fat disk w' e = fat disk w e) \<and>
    (\<forall>lba. first_data_sector (fat32_fs w) \<le> lba \<longrightarrow>
       sec disk w' lba = (if in_cluster d w lba then replicate 512 0 else sec disk w lba))"
proof -
  obtain w1 where w1: "chain_last disk c w = Some (last xs, w1)" "same_data disk w w1"
    "fat disk w1 = fat disk w"
    using chain_last_ok [OF ok chain] by blast
  have ok1: "fat_ok disk w1" and fs1: "fat32_fs w1 = fat32_fs w"
    and more1: "fat_state.more w1 = fat_state.more w"
    and sec1: "\<And>lba. first_data_sector (fat32_fs w) \<le> lba \<Longrightarrow> sec disk w1 lba = sec disk w lba"
    using w1(2) by (auto simp: same_data_def)
  have xs: "xs \<noteq> []" "hd xs = c" using fat_chain_hd [OF chain] by auto
  have vl: "valid_cluster (fat32_fs w1) (last xs)"
    using fat_chain_valid [OF chain] xs fs1 by simp
  have v1: "valid_cluster (fat32_fs w1) d" using v fs1 by simp
  let ?w2 = "fat_put disk (last xs) d w1"
  let ?w3 = "fat_put disk d FAT32_CLUSTER_EOC ?w2"
  have ok2: "fat_ok disk ?w2" using table.put_ok [OF ok1 vl] .
  have ok3: "fat_ok disk ?w3" using table.put_ok [OF ok2, of d] v1 by simp
  obtain w4 where w4: "fat32_zero_cluster disk d ?w3 = (True, w4)" "fat_ok disk w4"
    "fat32_fs w4 = fat32_fs ?w3" "fat_state.more w4 = fat_state.more ?w3"
    "\<forall>e. valid_cluster (fat32_fs ?w3) e \<longrightarrow> fat disk w4 e = fat disk ?w3 e"
    "\<forall>lba. sec disk w4 lba = (if in_cluster d ?w3 lba then replicate 512 0 else sec disk ?w3 lba)"
    using zero_cluster_ok [OF ok3, of d] v1 by auto
  have bounds: "2 \<le> e \<and> e < FAT32_CLUSTER_LAST" if "valid_cluster (fat32_fs w) e" for e
    using that ok by (auto simp: valid_cluster_def fat_ok_def geometry_ok_def
        word_le_nat_alt word_less_nat_alt)
  have "fat_chain (fat disk ?w3) (valid_cluster (fat32_fs w1)) c (xs @ [d])"
    using chain fresh v1 bounds [OF v] fs1 w1(3) by (intro table.chain_append [OF ok1]) auto
  moreover have "fat_chain (fat disk w4) (valid_cluster (fat32_fs w)) c (xs @ [d]) =
      fat_chain (fat disk ?w3) (valid_cluster (fat32_fs w)) c (xs @ [d])"
    using w4(5) v fat_chain_valid [OF chain] fs1 by (intro fat_chain_cong) auto
  ultimately have "fat_chain (fat disk w4) (valid_cluster (fat32_fs w)) c (xs @ [d])"
    using fs1 by simp
  moreover have "fat disk w4 e = fat disk w e"
    if "valid_cluster (fat32_fs w) e" "e \<notin> insert d (set xs)" for e
  proof -
    have "e \<noteq> last xs" using that xs by auto
    then show ?thesis
      using that w4(5) table.put_entry [OF ok2, of d e] table.put_entry [OF ok1 vl, of e] v1 fs1 w1(3)
      by auto
  qed
  moreover have "sec disk w4 lba = (if in_cluster d w lba then replicate 512 0 else sec disk w lba)"
    if "first_data_sector (fat32_fs w) \<le> lba" for lba
    using w4(6) that sec_fat_put_data [OF ok1 vl] sec_fat_put_data [OF ok2, of d] v1 fs1 sec1
      in_cluster_same [of ?w3 w] by auto
  moreover have "fat32_append_cluster disk c d w = Some (True, w4)"
  proof -
    have "\<not> c < 2" "\<not> d < 2"
      using bounds [OF v] bounds [of c] fat_chain_valid [OF chain, of c] xs hd_in_set [OF xs(1)]
      by auto
    then show ?thesis
      using w1(1) w4(1) v1 by (simp add: fat32_append_cluster_def fat_ok_not_None [OF ok]
          write_fat_put [OF ok1 vl] write_fat_put [OF ok2])
  qed
  ultimately show ?thesis using w4 fs1 more1 by auto
qed

end
