(* ===== verification/DemoVolume.thy ===== *)
theory DemoVolume
  imports FatAlloc
begin

text \<open>
  A small mounted volume, the concrete input of the witnesses of the file-system properties: 16
  sectors, one reserved sector, a table of one sector, one sector per cluster, eight clusters
  numbered 2 to 9, with the boot sector that describes it. Cluster 2 is the root directory, clusters 4 and 6 form a chain, the others
  are free.
\<close>

definition demo_dev :: ata_device where
  "demo_dev = \<lparr>present = True, channel = ATA_PRIMARY, drive = ATA_MASTER,
     model = replicate 41 0, sector_count = 16\<rparr>"

definition demo_disk :: "disk_t option" where
  "demo_disk = Some \<lparr>device = Some demo_dev\<rparr>"

definition demo_fs :: fat32_filesystem where
  "demo_fs = \<lparr>bytes_per_sector = 512, sectors_per_cluster = 1, reserved_sector_count = 1,
     fat_count = 1, fat_size = 1, root_cluster = 2, first_data_sector = 2,
     fat_start_sector = 1, total_clusters = 8\<rparr>"

definition demo_table :: "u8 list" where
  "demo_table =
     put_u32 (put_u32 (put_u32 (replicate 512 0) 8 0x0FFFFFFF) 16 6) 24 0x0FFFFFFF"

definition demo_boot :: "u8 list" where
  "demo_boot =
     ((replicate 512 0) [11 := 0x00, 12 := 0x02, 13 := 1, 14 := 1, 16 := 1, 32 := 10, 36 := 1,
        44 := 2, 66 := 0x29, 82 := 0x46, 83 := 0x41, 84 := 0x54, 85 := 0x33, 86 := 0x32,
        87 := 0x20, 88 := 0x20, 89 := 0x20])"

definition demo_medium :: "u32 \<Rightarrow> u8 list" where
  "demo_medium lba =
     (if lba = 0 then demo_boot else if lba = 1 then demo_table else replicate 512 0)"

definition demo_fat :: fat_state where
  "demo_fat = \<lparr>medium = (\<lambda>_. demo_medium), io_script = (\<lambda>_. Io_Done), io_pos = 0,
     fat32_fs = demo_fs\<rparr>"

lemma demo_live [simp]: "live_device demo_disk = Some demo_dev"
  by (simp add: live_device_def demo_disk_def demo_dev_def)

lemma demo_sec [simp]: "sec demo_disk demo_fat lba = demo_medium lba"
  by (simp add: sec_def demo_fat_def)

lemma demo_fs_of [simp]: "fat32_fs demo_fat = demo_fs"
  by (simp add: demo_fat_def)

lemma demo_bound [simp]: "cluster_bound demo_fs = 10"
  by (simp add: cluster_bound_def demo_fs_def)

lemma demo_geometry [simp]: "geometry_ok demo_disk demo_fs"
  by (simp add: geometry_ok_def) (simp add: demo_fs_def demo_dev_def)

lemma length_demo_medium [simp]: "length (demo_medium lba) = 512"
  by (simp add: demo_medium_def demo_table_def demo_boot_def)

lemma demo_healthy [simp]: "healthy demo_fat"
  by (simp add: healthy_def demo_fat_def)

lemma demo_ok [simp]: "fat_ok demo_disk demo_fat"
  by (simp add: fat_ok_def medium_wf_def)

lemma demo_valid: "valid_cluster demo_fs c \<longleftrightarrow> 2 \<le> unat c \<and> unat c < 10"
  by (simp add: valid_cluster_def)

lemma demo_entry:
  assumes "valid_cluster demo_fs c"
  shows "fat demo_disk demo_fat c = get_u32 demo_table (4 * unat c) AND 0x0FFFFFFF"
proof -
  have "unat c < 10" using assms by (simp add: valid_cluster_def)
  then have "unat (fat_sector_of demo_fs c) = 1" "fat_offset_of demo_fs c = 4 * unat c"
    using assms by (simp_all add: fat_index [OF demo_geometry]) (simp add: demo_fs_def)
  then have "fat_sector_of demo_fs c = 1" "fat_offset_of demo_fs c = 4 * unat c"
    by (simp_all add: word_unat_eq_iff)
  then show ?thesis by (simp add: fat_def demo_medium_def)
qed

lemma get_u32_zeros [simp]: "off + 3 < n \<Longrightarrow> get_u32 (replicate n 0) off = 0"
  by (simp add: get_u32_def)

lemma demo_entries [simp]:
  "fat demo_disk demo_fat 2 = 0x0FFFFFFF" "fat demo_disk demo_fat 3 = 0"
  "fat demo_disk demo_fat 4 = 6" "fat demo_disk demo_fat 5 = 0"
  "fat demo_disk demo_fat 6 = 0x0FFFFFFF" "fat demo_disk demo_fat 7 = 0"
  by (simp_all add: demo_entry demo_valid demo_table_def)

lemma demo_chain: "fat_chain (fat demo_disk demo_fat) (valid_cluster demo_fs) 4 [4, 6]"
  by (simp add: demo_valid)

lemma demo_root_chain: "fat_chain (fat demo_disk demo_fat) (valid_cluster demo_fs) 2 [2]"
  by (simp add: demo_valid)

end
