(* ===== verification/FatProps.thy ===== *)
theory FatProps
  imports DemoVolume
begin

text \<open>
  The properties of the FAT32 layer, each a few steps over the lemmas of the three theories below
  it, with the demonstration volume as the concrete input of its witness.
\<close>

section \<open>Mounting\<close>

text \<open>
  The volume that a boot sector describes, in natural numbers. A sector that meets
  \<open>sound_boot_sector\<close> describes a volume that fits its own table and the drive.
\<close>

definition fat32_signature :: "u8 list \<Rightarrow> bool" where
  "fat32_signature s \<longleftrightarrow>
     (s ! 66 = 0x28 \<or> s ! 66 = 0x29) \<and> take 8 (drop 82 s) = bytes ''FAT32   '' \<and>
     get_u16 s 11 = 512 \<and> s ! 13 \<noteq> 0 \<and> s ! 16 \<noteq> 0 \<and> get_u32 s 36 \<noteq> 0"

definition first_data_nat :: "u8 list \<Rightarrow> nat" where
  "first_data_nat s = unat (get_u16 s 14) + unat (s ! 16) * unat (get_u32 s 36)"

definition cluster_count_nat :: "u8 list \<Rightarrow> nat" where
  "cluster_count_nat s = (unat (get_u32 s 32) - first_data_nat s) div unat (s ! 13)"

definition sound_boot_sector :: "u32 \<Rightarrow> u8 list \<Rightarrow> bool" where
  "sound_boot_sector sectors s \<longleftrightarrow>
     first_data_nat s \<le> unat (get_u32 s 32) \<and> get_u32 s 32 \<le> sectors \<and>
     cluster_count_nat s + 2 \<le> 128 * unat (get_u32 s 36) \<and>
     cluster_count_nat s + 2 < 0x0FFFFFF0"

lemma detect_eq:
  assumes "healthy w" "in_disk disk 0" "length (sec disk w 0) = 512"
  shows "fat32_detect disk w =
    (if fat32_signature (sec disk w 0)
     then (True, (tick w)\<lparr>fat32_fs := boot_geometry (sec disk w 0)\<rparr>) else (False, tick w))"
proof -
  have "disk \<noteq> None" using assms(2) by auto
  moreover have "memcmp (drop 82 (sec disk w 0)) (bytes ''FAT32   '') 8 = Some 0 \<longleftrightarrow>
      take 8 (drop 82 (sec disk w 0)) = bytes ''FAT32   ''"
    using assms(3) memcmp_zero_iff [of 8 "drop 82 (sec disk w 0)" "bytes ''FAT32   ''"]
    by (simp add: bytes_def)
  ultimately show ?thesis
    using assms by (auto simp: fat32_detect_def fat32_signature_def spec_simps)
qed

lemma sound_geometry:
  assumes "fat32_signature s" "sound_boot_sector sectors s"
  shows "bytes_per_sector (boot_geometry s) = 512" "0 < sectors_per_cluster (boot_geometry s)"
    and "unat (first_data_sector (boot_geometry s)) = first_data_nat s"
    and "unat (total_clusters (boot_geometry s)) = cluster_count_nat s"
    and "unat (fat_start_sector (boot_geometry s)) = unat (get_u16 s 14)"
proof -
  show "bytes_per_sector (boot_geometry s) = 512" "0 < sectors_per_cluster (boot_geometry s)"
    "unat (fat_start_sector (boot_geometry s)) = unat (get_u16 s 14)"
    using assms(1) by (auto simp: fat32_signature_def boot_geometry_def Let_def word_gt_0)
  have le: "first_data_nat s \<le> unat (get_u32 s 32)"
    using assms(2) by (simp add: sound_boot_sector_def)
  then have small: "first_data_nat s < 2 ^ 32" using unat_u32_less [of "get_u32 s 32"] by simp
  have mul: "unat ((ucast (s ! 16) :: u32) * get_u32 s 36) = unat (s ! 16) * unat (get_u32 s 36)"
    using small unat_mult_lem [of "ucast (s ! 16) :: u32" "get_u32 s 36"]
    by (simp add: first_data_nat_def)
  then have first: "unat (ucast (get_u16 s 14) + (ucast (s ! 16) :: u32) * get_u32 s 36) = first_data_nat s"
    using small by (simp add: first_data_nat_def)
  then show "unat (first_data_sector (boot_geometry s)) = first_data_nat s"
    by (simp add: boot_geometry_def Let_def)
  show "unat (total_clusters (boot_geometry s)) = cluster_count_nat s"
    using le first
    by (simp add: boot_geometry_def Let_def cluster_count_nat_def unat_div unat_sub word_le_nat_alt)
qed

lemma sound_geometry_ok:
  assumes "live_device disk = Some dev" "fat32_signature s" "sound_boot_sector (sector_count dev) s"
  shows "geometry_ok disk (boot_geometry s)"
proof -
  note g = sound_geometry [OF assms(2,3)]
  have fats: "1 \<le> unat (s ! 16)" using assms(2) by (simp add: fat32_signature_def unat_gt_0 Suc_le_eq)
  have "(cluster_count_nat s + 1) div 128 < unat (get_u32 s 36)"
    using assms(3) by (intro div_less_iff_less_mult [THEN iffD2]) (auto simp: sound_boot_sector_def)
  also have "\<dots> \<le> unat (s ! 16) * unat (get_u32 s 36)" using fats by simp
  finally have table: "unat (get_u16 s 14) + (cluster_count_nat s + 1) div 128 < first_data_nat s"
    by (simp add: first_data_nat_def)
  have "cluster_count_nat s * unat (s ! 13) \<le> unat (get_u32 s 32) - first_data_nat s"
    by (simp add: cluster_count_nat_def)
  then have "first_data_nat s + cluster_count_nat s * unat (s ! 13) \<le> unat (get_u32 s 32)"
    using assms(3) unfolding sound_boot_sector_def by linarith
  moreover have "unat (get_u32 s 32) \<le> unat (sector_count dev)"
    using assms(3) by (simp add: sound_boot_sector_def word_le_nat_alt)
  moreover have "sectors_per_cluster (boot_geometry s) = s ! 13"
    by (simp add: boot_geometry_def Let_def)
  ultimately show ?thesis
    using assms(1,3) g table
    by (simp add: geometry_ok_def cluster_bound_def sound_boot_sector_def)
qed

text \<open>C37. When the first sector of a drive carries the FAT32 signature and describes, in natural
  numbers, a volume that fits its table and the drive, \<open>fat32_detect\<close> accepts it, and the geometry
  it stores (32-bit arithmetic) is one on which no cluster number reaches a sector outside the
  drive; a sector without the signature is refused and the mounted geometry is kept.\<close>

theorem fat32_detect_mounts:
  assumes "healthy w" "live_device disk = Some dev" "0 < sector_count dev"
    and "length (sec disk w 0) = 512"
  shows "(fat32_signature (sec disk w 0) \<and> sound_boot_sector (sector_count dev) (sec disk w 0) \<longrightarrow>
      fst (fat32_detect disk w) \<and> geometry_ok disk (fat32_fs (snd (fat32_detect disk w))))
    \<and> (\<not> fat32_signature (sec disk w 0) \<longrightarrow>
      \<not> fst (fat32_detect disk w) \<and> fat32_fs (snd (fat32_detect disk w)) = fat32_fs w)"
proof -
  have "in_disk disk 0" using assms(2,3) by (simp add: in_disk_def)
  then show ?thesis
    using assms sound_geometry_ok [OF assms(2)] by (auto simp: detect_eq)
qed

lemma demo_boot_ok [simp]: "fat32_signature demo_boot" "sound_boot_sector 16 demo_boot"
  by (simp_all add: fat32_signature_def demo_boot_def sound_boot_sector_def first_data_nat_def
      cluster_count_nat_def get_u16_def get_u32_def bytes_def nth_list_update drop_update_swap
      take_update_swap) (simp add: numeral_eq_Suc)

theorem fat32_detect_mounts_witness:
  "fst (fat32_detect demo_disk demo_fat) \<and>
   geometry_ok demo_disk (fat32_fs (snd (fat32_detect demo_disk demo_fat)))"
  using fat32_detect_mounts [of demo_fat demo_disk demo_dev]
  by (simp add: demo_medium_def demo_dev_def) (simp add: demo_boot_def)

section \<open>Entries\<close>

text \<open>Writing a table entry and reading any entry afterwards: the written one reads back as the
  low 28 bits of the value, every other entry of the table as before, and no sector but the one
  that holds the entry has changed.\<close>

theorem fat_entry_write_read:
  assumes "fat_ok disk w" "valid_cluster (fat32_fs w) c" "valid_cluster (fat32_fs w) d"
    and "lba \<noteq> fat_sector_of (fat32_fs w) c"
  shows "fst (fat32_write_fat_entry disk c v w) \<and>
    fst (fat32_read_fat_entry disk d (snd (fat32_write_fat_entry disk c v w))) =
      (if d = c then v AND 0x0FFFFFFF else fst (fat32_read_fat_entry disk d w)) \<and>
    sec disk (snd (fat32_write_fat_entry disk c v w)) lba = sec disk w lba"
proof -
  have g: "geometry_ok disk (fat32_fs w)" using assms(1) by (simp add: fat_ok_def)
  have "fat_ok disk (fat_put disk c v w)" using assms by (auto intro: table.put_ok)
  moreover have "fat disk (fat_put disk c v w) d = (if d = c then v AND 0x0FFFFFFF else fat disk w d)"
    using assms by (simp add: table.put_entry)
  moreover have "sec disk (fat_put disk c v w) lba = sec disk w lba"
    using sec_set_fat_other [of disk "tick w" c lba v] g assms by (simp add: fat_put_def)
  ultimately show ?thesis using assms by (simp add: write_fat_put read_fat_entry_ok)
qed

theorem fat_entry_write_read_witness:
  "fst (fat32_write_fat_entry demo_disk 5 9 demo_fat) \<and>
   fst (fat32_read_fat_entry demo_disk 5 (snd (fat32_write_fat_entry demo_disk 5 9 demo_fat))) = 9"
  using fat_entry_write_read [of demo_disk demo_fat 5 5 0 9]
  by (simp add: demo_valid fat_sector_of_def) (simp add: demo_fs_def)

section \<open>Chains\<close>

text \<open>C27. \<open>fat32_free_cluster_chain\<close> on a well-formed chain: it succeeds (its counter never stops
  it), sets exactly the entries of the chain to free and leaves every sector of the data region
  as it was.\<close>

theorem free_chain_frees:
  assumes "fat_ok disk w" "fat_chain (fat disk w) (valid_cluster (fat32_fs w)) c xs"
    and "valid_cluster (fat32_fs w) d" "first_data_sector (fat32_fs w) \<le> lba"
  shows "fst (fat32_free_cluster_chain disk c w) \<and>
    fat disk (snd (fat32_free_cluster_chain disk c w)) d =
      (if d \<in> set xs then FAT32_CLUSTER_FREE else fat disk w d) \<and>
    sec disk (snd (fat32_free_cluster_chain disk c w)) lba = sec disk w lba"
  using free_cluster_chain_ok [OF assms(1,2)] assms(3,4) by (auto simp: same_data_def)

theorem free_chain_frees_witness:
  "fst (fat32_free_cluster_chain demo_disk 4 demo_fat) \<and>
   fat demo_disk (snd (fat32_free_cluster_chain demo_disk 4 demo_fat)) 6 = 0"
  using free_chain_frees [OF demo_ok, of 4 "[4, 6]" 6 "2"] demo_chain
  by (simp add: demo_valid) (simp add: demo_fs_def)

text \<open>\<open>fat32_allocate_cluster\<close> returns the smallest free cluster, marks it as the end of a
  chain, fills its sectors with zeros and changes nothing else in the table and the data region;
  it returns 0 only when no cluster is free, and then changes nothing.\<close>

theorem allocate_cluster_first_fit:
  assumes "fat_ok disk w" "fst (fat32_allocate_cluster disk w) = c"
    and "snd (fat32_allocate_cluster disk w) = w'"
    and "valid_cluster (fat32_fs w) d" "first_data_sector (fat32_fs w) \<le> lba"
  shows "fat_ok disk w' \<and>
    (if c = 0 then fat disk w d \<noteq> FAT32_CLUSTER_FREE \<and> medium w' = medium w
     else valid_cluster (fat32_fs w) c \<and> fat disk w c = FAT32_CLUSTER_FREE \<and>
       (d < c \<longrightarrow> fat disk w d \<noteq> FAT32_CLUSTER_FREE) \<and>
       fat disk w' d = (if d = c then FAT32_CLUSTER_EOC else fat disk w d) \<and>
       sec disk w' lba = (if in_cluster c w lba then replicate 512 0 else sec disk w lba))"
  using allocate_cluster_ok [OF assms(1)] assms(2-5) quiet_fields(4) [of w w']
  by (auto split: if_splits)

theorem allocate_cluster_first_fit_witness:
  "fst (fat32_allocate_cluster demo_disk demo_fat) = 3 \<and>
   fat demo_disk (snd (fat32_allocate_cluster demo_disk demo_fat)) 3 = FAT32_CLUSTER_EOC"
proof -
  note t = allocate_cluster_first_fit [OF demo_ok refl refl, of 3 2]
  note t2 = allocate_cluster_first_fit [OF demo_ok refl refl, of 2 2]
  let ?c = "fst (fat32_allocate_cluster demo_disk demo_fat)"
  have d: "first_data_sector demo_fs \<le> 2" by (simp add: demo_fs_def)
  have "?c \<noteq> 0" using t d by (auto simp: demo_valid)
  moreover from this have "?c \<le> 3" using t d by (auto simp: demo_valid not_le [symmetric])
  moreover have "2 \<le> unat ?c" "?c \<noteq> 2" using t d \<open>?c \<noteq> 0\<close> by (auto simp: demo_valid)
  ultimately have "?c = 3"
    by (auto simp: word_unat_eq_iff word_le_nat_alt)
  then show ?thesis using t d by (simp add: demo_valid)
qed

text \<open>\<open>fat32_append_cluster\<close> on a well-formed chain returns, links the cluster behind the last
  one, so that the chain is longer by exactly this cluster, and leaves the entries of all other
  chains alone.\<close>

theorem append_cluster_extends:
  assumes "fat_ok disk w" "fat_chain (fat disk w) (valid_cluster (fat32_fs w)) c xs"
    and "valid_cluster (fat32_fs w) d" "d \<notin> set xs"
    and "valid_cluster (fat32_fs w) e" "e \<noteq> d" "e \<notin> set xs"
  shows "map_option fst (fat32_append_cluster disk c d w) = Some True \<and>
    fat_chain (fat disk (snd (the (fat32_append_cluster disk c d w))))
      (valid_cluster (fat32_fs w)) c (xs @ [d]) \<and>
    fat disk (snd (the (fat32_append_cluster disk c d w))) e = fat disk w e"
  using append_cluster_ok [OF assms(1-4)] assms(5-7) by auto

theorem append_cluster_extends_witness:
  "fat_chain (fat demo_disk (snd (the (fat32_append_cluster demo_disk 4 3 demo_fat))))
     (valid_cluster demo_fs) 4 [4, 6, 3]"
  using append_cluster_extends [OF demo_ok, of 4 "[4, 6]" 3 5] demo_chain
  by (simp add: demo_valid del: fat_chain.simps)

section \<open>Damaged tables\<close>

lemma chain_last_cycle:
  assumes "chain_last disk c w = Some r"
  shows "\<not> (fat_ok disk w \<and> c \<in> S \<and>
    (\<forall>x \<in> S. valid_cluster (fat32_fs w) x \<and> fat disk w x \<in> S \<and> fat disk w x < FAT32_CLUSTER_LAST))"
proof (induction rule: chain_last.raw_induct [OF _ assms])
  case (1 chain_last disk c w r)
  show ?case
  proof
    assume a: "fat_ok disk w \<and> c \<in> S \<and>
      (\<forall>x \<in> S. valid_cluster (fat32_fs w) x \<and> fat disk w x \<in> S \<and> fat disk w x < FAT32_CLUSTER_LAST)"
    then have "fat32_next_cluster disk c w = (fat disk w c, tick w)"
      by (auto simp: next_cluster_ok not_le [symmetric])
    then have "chain_last disk (fat disk w c) (tick w) = Some r"
      using 1(2) fat_not_invalid [of disk w c] by simp
    from 1(1) [OF this] a show False by simp
  qed
qed

text \<open>\<open>fat32_append_cluster\<close> follows links without a counter: started on a cluster from which
  the table only leads round a set of clusters without an end mark, it never returns.\<close>

theorem append_cluster_cycle_diverges:
  assumes "fat_ok disk w" "c \<in> S" "2 \<le> d"
    and "\<And>x. x \<in> S \<Longrightarrow> valid_cluster (fat32_fs w) x \<and> fat disk w x \<in> S \<and>
      fat disk w x < FAT32_CLUSTER_LAST"
  shows "fat32_append_cluster disk c d w = None"
proof -
  have "chain_last disk c w = None"
    using chain_last_cycle [of disk c w _ S] assms by (cases "chain_last disk c w") auto
  moreover have "2 \<le> c" using assms(2,4) by (auto simp: valid_cluster_def word_le_nat_alt)
  ultimately show ?thesis
    using assms fat_ok_not_None [OF assms(1)]
    by (auto simp: fat32_append_cluster_def not_less [symmetric])
qed

definition demo_cycle :: fat_state where
  "demo_cycle = fat_put demo_disk 6 4 demo_fat"

theorem append_cluster_cycle_diverges_witness:
  "fat32_append_cluster demo_disk 4 3 demo_cycle = None"
proof (rule append_cluster_cycle_diverges [where S = "{4, 6}"])
  show "fat_ok demo_disk demo_cycle"
    by (auto simp: demo_cycle_def demo_valid intro!: table.put_ok)
  fix x :: u32
  assume "x \<in> {4, 6}"
  then show "valid_cluster (fat32_fs demo_cycle) x \<and> fat demo_disk demo_cycle x \<in> {4, 6} \<and>
      fat demo_disk demo_cycle x < FAT32_CLUSTER_LAST"
    by (auto simp: demo_cycle_def demo_valid table.put_entry)
qed simp_all

end
