(* ===== verification/FsCore.thy ===== *)
theory FsCore
  imports Fat32
begin

text \<open>
  The mount state of \<open>kernel/fs/fs.c\<close>: the static \<open>filesystem\<close> beside \<open>fat32_fs\<close>. The buffer
  \<open>current_path\<close> is the string it holds.
\<close>

datatype filesystem_type = FS_UNKNOWN | FS_FAT32

record filesystem_t =
  fs_disk :: "disk_t option"
  fs_type :: filesystem_type
  current_directory_cluster :: u32
  current_path :: "u8 list"
  mounted :: bool

record fs_state = fat_state +
  filesystem :: filesystem_t

abbreviation root_path :: "u8 list" where "root_path \<equiv> [0x2F]"

definition fs_init :: "'a fs_state_scheme \<Rightarrow> 'a fs_state_scheme" where
  "fs_init w = w\<lparr>filesystem := \<lparr>fs_disk = None, fs_type = FS_UNKNOWN,
     current_directory_cluster = 0, current_path = root_path, mounted = False\<rparr>\<rparr>"

definition fs_get :: "'a fs_state_scheme \<Rightarrow> filesystem_t" where
  "fs_get w = filesystem w"

definition fs_current_directory :: "'a fs_state_scheme \<Rightarrow> u32" where
  "fs_current_directory w = current_directory_cluster (filesystem w)"

definition fs_get_current_path :: "'a fs_state_scheme \<Rightarrow> u8 list" where
  "fs_get_current_path w = current_path (filesystem w)"

definition fs_set_current_directory ::
  "u32 \<Rightarrow> u8 list option \<Rightarrow> 'a fs_state_scheme \<Rightarrow> bool \<times> 'a fs_state_scheme" where
  "fs_set_current_directory cluster path w =
     (case path of
        None \<Rightarrow> (False, w)
      | Some p \<Rightarrow> (True, w\<lparr>filesystem := (filesystem w)
          \<lparr>current_directory_cluster := cluster, current_path := p\<rparr>\<rparr>))"

definition fs_mount :: "disk_t option \<Rightarrow> 'a fs_state_scheme \<Rightarrow> bool \<times> 'a fs_state_scheme" where
  "fs_mount disk w =
     (if disk = None then (False, w)
      else case fat32_detect disk w of
        (True, w1) \<Rightarrow>
          (True, w1\<lparr>filesystem := (filesystem w1)
             \<lparr>fs_disk := disk, fs_type := FS_FAT32, mounted := True,
              current_directory_cluster := root_cluster (fat32_fs w1),
              current_path := root_path\<rparr>\<rparr>)
      | (False, w1) \<Rightarrow>
          (False, w1\<lparr>filesystem := (filesystem w1)
             \<lparr>fs_disk := None, fs_type := FS_UNKNOWN, mounted := False\<rparr>\<rparr>))"

end
