(* ===== verification/DirEntry.thy ===== *)
theory DirEntry
  imports Fat32
begin

text \<open>
  The 32-byte directory entry of \<open>kernel/include/fs/directory.h\<close> and the functions of
  \<open>kernel/fs/directory.c\<close> that work on one entry: its cluster number, its 8.3 name as a string,
  and the conversion of a string into an 8.3 name. A name is a byte list without terminator.
  Pointers to an entry or a name that every caller passes as the address of a local are values;
  the null tests on them have no branch here.
\<close>

section \<open>The packed structure\<close>

record dirent =
  de_name :: "u8 list"
  de_attributes :: u8
  de_reserved :: u8
  de_creation_time_tenths :: u8
  de_creation_time :: u16
  de_creation_date :: u16
  de_last_access_date :: u16
  de_first_cluster_high :: u16
  de_write_time :: u16
  de_write_date :: u16
  de_first_cluster_low :: u16
  de_file_size :: u32

abbreviation FAT32_ATTR_VOLUME_ID :: u8 where "FAT32_ATTR_VOLUME_ID \<equiv> 0x08"
abbreviation FAT32_ATTR_DIRECTORY :: u8 where "FAT32_ATTR_DIRECTORY \<equiv> 0x10"
abbreviation FAT32_ATTR_ARCHIVE :: u8 where "FAT32_ATTR_ARCHIVE \<equiv> 0x20"
abbreviation FAT32_ATTR_LFN :: u8 where "FAT32_ATTR_LFN \<equiv> 0x0F"

definition decode_dirent :: "u8 list \<Rightarrow> dirent" where
  "decode_dirent b =
     \<lparr>de_name = take 11 b, de_attributes = b ! 11, de_reserved = b ! 12,
      de_creation_time_tenths = b ! 13, de_creation_time = get_u16 b 14,
      de_creation_date = get_u16 b 16, de_last_access_date = get_u16 b 18,
      de_first_cluster_high = get_u16 b 20, de_write_time = get_u16 b 22,
      de_write_date = get_u16 b 24, de_first_cluster_low = get_u16 b 26,
      de_file_size = get_u32 b 28\<rparr>"

definition encode_dirent :: "dirent \<Rightarrow> u8 list" where
  "encode_dirent e =
     de_name e @ [de_attributes e, de_reserved e, de_creation_time_tenths e]
     @ u16_bytes (de_creation_time e) @ u16_bytes (de_creation_date e)
     @ u16_bytes (de_last_access_date e) @ u16_bytes (de_first_cluster_high e)
     @ u16_bytes (de_write_time e) @ u16_bytes (de_write_date e)
     @ u16_bytes (de_first_cluster_low e) @ u32_bytes (de_file_size e)"

text \<open>\<open>memset(&entry, 0, sizeof(entry))\<close>\<close>

definition zero_dirent :: dirent where
  "zero_dirent = decode_dirent (replicate 32 0)"

section \<open>Cluster numbers\<close>

definition directory_entry_cluster :: "dirent \<Rightarrow> u32" where
  "directory_entry_cluster e =
     (push_bit 16 (ucast (de_first_cluster_high e)) OR ucast (de_first_cluster_low e))"

definition directory_set_entry_cluster :: "dirent \<Rightarrow> u32 \<Rightarrow> dirent" where
  "directory_set_entry_cluster e cluster =
     e\<lparr>de_first_cluster_low := ucast (cluster AND 0xFFFF),
       de_first_cluster_high := ucast (drop_bit 16 cluster AND 0xFFFF)\<rparr>"

section \<open>Names\<close>

fun copy_until_space :: "u8 list \<Rightarrow> u8 list" where
  "copy_until_space [] = []"
| "copy_until_space (c # cs) = (if c = 0x20 then [] else c # copy_until_space cs)"

definition directory_get_name :: "dirent \<Rightarrow> u8 list" where
  "directory_get_name e =
     (let base = copy_until_space (take 8 (de_name e))
      in if de_name e ! 8 \<noteq> 0x20
         then base @ 0x2E # copy_until_space (take 3 (drop 8 (de_name e)))
         else base)"

text \<open>
  A \<open>char\<close> is signed, so a byte above 127 is below \<open>'a'\<close>; the unsigned comparison with both
  bounds gives the same answer.
\<close>

definition to_upper :: "u8 \<Rightarrow> u8" where
  "to_upper c = (if 0x61 \<le> c \<and> c \<le> 0x7A then c - 32 else c)"

fun set_name_loop :: "u8 list \<Rightarrow> u8 list \<Rightarrow> nat \<Rightarrow> nat \<Rightarrow> bool \<Rightarrow> (u8 list \<times> nat \<times> nat \<times> bool) option" where
  "set_name_loop [] short base_length extension_length in_extension =
     Some (short, base_length, extension_length, in_extension)"
| "set_name_loop (c # cs) short base_length extension_length in_extension =
     (if c = 0x2E
      then if in_extension \<or> base_length = 0 then None
           else set_name_loop cs short base_length extension_length True
      else if in_extension
      then if extension_length \<ge> 3 then None
           else set_name_loop cs (short[8 + extension_length := to_upper c])
                  base_length (Suc extension_length) in_extension
      else if base_length \<ge> 8 then None
           else set_name_loop cs (short[base_length := to_upper c])
                  (Suc base_length) extension_length in_extension)"

definition directory_set_name :: "dirent \<Rightarrow> u8 list \<Rightarrow> dirent option" where
  "directory_set_name e name =
     (case set_name_loop name (replicate 11 0x20) 0 0 False of
        None \<Rightarrow> None
      | Some (short, base_length, extension_length, in_extension) \<Rightarrow>
          if base_length = 0 \<or> (in_extension \<and> extension_length = 0) then None
          else Some (e\<lparr>de_name := short\<rparr>))"

section \<open>Round trips\<close>

lemma length_encode_dirent: "length (de_name e) = 11 \<Longrightarrow> length (encode_dirent e) = 32"
  by (simp add: encode_dirent_def u16_bytes_def u32_bytes_def)

lemma encode_nth:
  assumes "length (de_name e) = 11"
  shows "k < 11 \<Longrightarrow> encode_dirent e ! k = de_name e ! k"
    and "11 \<le> k \<Longrightarrow> encode_dirent e ! k = drop 11 (encode_dirent e) ! (k - 11)"
  using assms by (simp_all add: encode_dirent_def nth_append)

lemma decode_encode:
  assumes "length (de_name e) = 11"
  shows "decode_dirent (encode_dirent e) = e"
proof -
  have "take 11 (encode_dirent e) = de_name e"
    using assms by (simp add: encode_dirent_def)
  moreover have "get_u16 (encode_dirent e) 14 = de_creation_time e"
    "get_u16 (encode_dirent e) 16 = de_creation_date e"
    "get_u16 (encode_dirent e) 18 = de_last_access_date e"
    "get_u16 (encode_dirent e) 20 = de_first_cluster_high e"
    "get_u16 (encode_dirent e) 22 = de_write_time e"
    "get_u16 (encode_dirent e) 24 = de_write_date e"
    "get_u16 (encode_dirent e) 26 = de_first_cluster_low e"
    "get_u32 (encode_dirent e) 28 = de_file_size e"
    using assms
    by (auto intro!: get_u16_of_bytes get_u32_of_bytes
        simp: encode_dirent_def u16_bytes_def u32_bytes_def nth_append)
  moreover have "encode_dirent e ! 11 = de_attributes e" "encode_dirent e ! 12 = de_reserved e"
    "encode_dirent e ! 13 = de_creation_time_tenths e"
    using assms by (simp_all add: encode_dirent_def nth_append)
  ultimately show ?thesis by (simp add: decode_dirent_def)
qed

lemma take_11_drop:
  assumes "length b = 32"
  shows "b = take 11 b @ [b ! 11, b ! 12, b ! 13] @ [b ! 14, b ! 15] @ [b ! 16, b ! 17]
    @ [b ! 18, b ! 19] @ [b ! 20, b ! 21] @ [b ! 22, b ! 23] @ [b ! 24, b ! 25]
    @ [b ! 26, b ! 27] @ [b ! 28, b ! 29, b ! 30, b ! 31]" (is "b = ?r")
proof -
  have split: "drop k b = b ! k # drop (Suc k) b" if "k < 32" for k
    using that assms by (simp add: Cons_nth_drop_Suc)
  have "drop 11 b = [b ! 11, b ! 12, b ! 13, b ! 14, b ! 15, b ! 16, b ! 17, b ! 18, b ! 19,
     b ! 20, b ! 21, b ! 22, b ! 23, b ! 24, b ! 25, b ! 26, b ! 27, b ! 28, b ! 29, b ! 30, b ! 31]"
    using assms by (simp add: split [of 11] split [of 12] split [of 13] split [of 14] split [of 15]
        split [of 16] split [of 17] split [of 18] split [of 19] split [of 20] split [of 21]
        split [of 22] split [of 23] split [of 24] split [of 25] split [of 26] split [of 27]
        split [of 28] split [of 29] split [of 30] split [of 31])
  then show ?thesis using append_take_drop_id [of 11 b] by simp
qed

lemma encode_decode:
  assumes "length b = 32"
  shows "encode_dirent (decode_dirent b) = b"
proof -
  have "encode_dirent (decode_dirent b) =
    take 11 b @ [b ! 11, b ! 12, b ! 13] @ [b ! 14, b ! 15] @ [b ! 16, b ! 17]
    @ [b ! 18, b ! 19] @ [b ! 20, b ! 21] @ [b ! 22, b ! 23] @ [b ! 24, b ! 25]
    @ [b ! 26, b ! 27] @ [b ! 28, b ! 29, b ! 30, b ! 31]"
    by (simp add: encode_dirent_def decode_dirent_def get_u16_bytes get_u32_bytes)
  also have "\<dots> = b" by (rule take_11_drop [OF assms, symmetric])
  finally show ?thesis .
qed

lemma entry_cluster_set [simp]:
  "directory_entry_cluster (directory_set_entry_cluster e c) = c"
proof (rule bit_word_eqI)
  fix n :: nat
  assume n: "n < LENGTH(32)"
  have mask: "(0xFFFF :: u32) = mask 16" by (simp add: mask_eq_exp_minus_1)
  consider "n < 16" | "16 \<le> n" by linarith
  then show "bit (directory_entry_cluster (directory_set_entry_cluster e c)) n = bit c n"
    using n by cases
      (auto simp: directory_entry_cluster_def directory_set_entry_cluster_def mask bit_simps
        dest: bit_imp_le_length)
qed

section \<open>What a name becomes\<close>

text \<open>
  The reference: the part before the first dot, up to eight bytes, and the part after it, up to
  three, both in upper case and padded with spaces.
\<close>

definition base_part :: "u8 list \<Rightarrow> u8 list" where
  "base_part name = takeWhile (\<lambda>c. c \<noteq> 0x2E) name"

definition ext_part :: "u8 list \<Rightarrow> u8 list" where
  "ext_part name = tl (dropWhile (\<lambda>c. c \<noteq> 0x2E) name)"

definition valid_name :: "u8 list \<Rightarrow> bool" where
  "valid_name name \<longleftrightarrow>
     1 \<le> length (base_part name) \<and> length (base_part name) \<le> 8 \<and>
     (0x2E \<in> set name \<longrightarrow>
        0x2E \<notin> set (ext_part name) \<and> 1 \<le> length (ext_part name) \<and> length (ext_part name) \<le> 3)"

definition short_name :: "u8 list \<Rightarrow> u8 list" where
  "short_name name =
     map to_upper (base_part name) @ replicate (8 - length (base_part name)) 0x20
     @ map to_upper (ext_part name) @ replicate (3 - length (ext_part name)) 0x20"

lemma set_name_ext:
  assumes "length short = 11" "e \<le> 3"
  shows "set_name_loop cs short b e True =
    (if 0x2E \<in> set cs \<or> e + length cs > 3 then None
     else Some (take (8 + e) short @ map to_upper cs @ drop (8 + e + length cs) short,
                b, e + length cs, True))"
  using assms
proof (induction cs arbitrary: short e)
  case Nil
  then show ?case by simp
next
  case (Cons c cs)
  have t: "take (9 + e) (short[8 + e := to_upper c]) = take (8 + e) short @ [to_upper c]"
    if "e < 3"
    using take_Suc_update [of "8 + e" short] that Cons.prems(1) by simp
  show ?case
    using Cons.prems Cons.IH [of "short[8 + e := to_upper c]" "Suc e"] t
    by (auto simp: not_le add.assoc)
qed

lemma set_name_base:
  assumes "length short = 11" "b + length cs \<le> 8" "0x2E \<notin> set cs"
  shows "set_name_loop (cs @ rest) short b 0 False =
    set_name_loop rest (take b short @ map to_upper cs @ drop (b + length cs) short)
      (b + length cs) 0 False"
  using assms
proof (induction cs arbitrary: short b)
  case Nil
  then show ?case by simp
next
  case (Cons c cs)
  have "take (Suc b) (short[b := to_upper c]) = take b short @ [to_upper c]"
    using Cons.prems by (simp add: take_Suc_update)
  then show ?case
    using Cons.prems Cons.IH [of "short[b := to_upper c]" "Suc b"] by auto
qed

lemma set_name_base_long:
  assumes "b \<le> 8" "8 < b + length cs" "0x2E \<notin> set cs"
  shows "set_name_loop (cs @ rest) short b 0 False = None"
  using assms
proof (induction cs arbitrary: short b)
  case Nil
  then show ?case by simp
next
  case (Cons c cs)
  then show ?case by (cases "b = 8") auto
qed

lemma name_split:
  "name = base_part name @ (if 0x2E \<in> set name then 0x2E # ext_part name else [])"
proof (cases "0x2E \<in> set name")
  case True
  then have "dropWhile (\<lambda>c. c \<noteq> 0x2E) name \<noteq> []" by (auto simp: dropWhile_eq_Nil_conv)
  then have "dropWhile (\<lambda>c. c \<noteq> 0x2E) name = 0x2E # ext_part name"
    using hd_dropWhile [of "\<lambda>c. c \<noteq> 0x2E" name]
    by (cases "dropWhile (\<lambda>c. c \<noteq> 0x2E) name") (auto simp: ext_part_def)
  then show ?thesis
    using True takeWhile_dropWhile_id [of "\<lambda>c. c \<noteq> 0x2E" name] by (simp add: base_part_def)
next
  case False
  then have "base_part name = name" unfolding base_part_def by (induction name) auto
  then show ?thesis using False by simp
qed

lemma base_part_no_dot: "0x2E \<notin> set (base_part name)"
  by (auto simp: base_part_def dest: set_takeWhileD)

lemma ext_part_empty:
  assumes "0x2E \<notin> set name"
  shows "ext_part name = []"
  using assms unfolding ext_part_def by (induction name) auto

lemma set_parts: "set (base_part name) \<subseteq> set name" "set (ext_part name) \<subseteq> set name"
proof -
  show "set (base_part name) \<subseteq> set name"
    by (auto simp: base_part_def dest: set_takeWhileD)
  show "set (ext_part name) \<subseteq> set name"
  proof
    fix x assume "x \<in> set (ext_part name)"
    then have "x \<in> set (dropWhile (\<lambda>c. c \<noteq> 0x2E) name)"
      unfolding ext_part_def by (cases "dropWhile (\<lambda>c. c \<noteq> 0x2E) name") simp_all
    then show "x \<in> set name" by (rule set_dropWhileD)
  qed
qed

lemma set_name_eq:
  "directory_set_name e name =
     (if valid_name name then Some (e\<lparr>de_name := short_name name\<rparr>) else None)"
proof (cases "length (base_part name) \<le> 8")
  case False
  then have "set_name_loop name (replicate 11 0x20) 0 0 False = None"
    using set_name_base_long [of 0 "base_part name"] base_part_no_dot
    by (subst name_split) simp
  then show ?thesis using False by (simp add: directory_set_name_def valid_name_def)
next
  case True
  let ?short = "map to_upper (base_part name) @ replicate (11 - length (base_part name)) 0x20"
  have pad: "replicate (11 - length (base_part name)) (0x20 :: u8) =
      replicate (8 - length (base_part name)) 0x20 @ replicate 3 0x20"
    using True by (simp add: replicate_add [symmetric] del: replicate_add)
  have "set_name_loop name (replicate 11 0x20) 0 0 False =
      set_name_loop (if 0x2E \<in> set name then 0x2E # ext_part name else []) ?short
        (length (base_part name)) 0 False"
    using set_name_base [of "replicate 11 0x20" 0 "base_part name"] True base_part_no_dot
    by (subst name_split) (simp add: drop_replicate)
  also have "\<dots> = (if 0x2E \<in> set name then
        (if base_part name = [] \<or> 0x2E \<in> set (ext_part name) \<or> length (ext_part name) > 3 then None
         else Some (take 8 ?short @ map to_upper (ext_part name)
                    @ drop (8 + length (ext_part name)) ?short,
                    length (base_part name), length (ext_part name), True))
      else Some (?short, length (base_part name), 0, False))"
    using set_name_ext [of ?short 0 "ext_part name" "length (base_part name)"] True by simp
  finally show ?thesis
    using True ext_part_empty [of name]
    by (auto simp: directory_set_name_def valid_name_def short_name_def pad not_less
        Suc_le_eq drop_replicate)
qed

lemma copy_until_space_eq: "copy_until_space cs = takeWhile (\<lambda>c. c \<noteq> 0x20) cs"
  by (induction cs) auto

lemma length_get_name: "length (directory_get_name e) \<le> 12"
proof -
  have "length (copy_until_space (take n cs)) \<le> n" for n cs
    using length_takeWhile_le [of "\<lambda>c. c \<noteq> 0x20" "take n cs"]
    by (simp add: copy_until_space_eq)
  from this [of 8 "de_name e"] this [of 3 "drop 8 (de_name e)"] show ?thesis
    by (simp add: directory_get_name_def Let_def)
qed

lemma to_upper_space [simp]: "to_upper c = 0x20 \<longleftrightarrow> c = 0x20"
proof -
  have "c - 32 \<noteq> 0x20" if "0x61 \<le> c" "c \<le> 0x7A"
  proof
    assume "c - 32 = 0x20"
    then have "c = 0x40" by (simp add: diff_eq_eq)
    then show False using that by simp
  qed
  then show ?thesis by (auto simp: to_upper_def)
qed

lemma to_upper_dot [simp]: "to_upper 0x2E = 0x2E"
  by (simp add: to_upper_def)

lemma takeWhile_upper:
  "0x20 \<notin> set cs \<Longrightarrow> takeWhile (\<lambda>c. c \<noteq> 0x20) (map to_upper cs @ replicate n 0x20) = map to_upper cs"
  by (subst takeWhile_append2) (auto simp: takeWhile_replicate)

lemma get_set_name:
  assumes "valid_name name" "0x20 \<notin> set name"
  shows "directory_get_name (e\<lparr>de_name := short_name name\<rparr>) = map to_upper name"
proof -
  let ?b = "base_part name" and ?x = "ext_part name"
  have len: "length ?b \<le> 8" "length ?x \<le> 3"
    using assms(1) ext_part_empty [of name] by (auto simp: valid_name_def)
  have nb: "0x20 \<notin> set ?b" "0x20 \<notin> set ?x"
    using assms(2) set_parts [of name] by auto
  have t8: "take 8 (short_name name) = map to_upper ?b @ replicate (8 - length ?b) 0x20"
    and d8: "drop 8 (short_name name) = map to_upper ?x @ replicate (3 - length ?x) 0x20"
    using len by (simp_all add: short_name_def)
  have hd8: "short_name name ! 8 = (map to_upper ?x @ replicate (3 - length ?x) 0x20) ! 0"
    using d8 nth_drop [of 8 "short_name name" 0] len by (simp add: short_name_def)
  show ?thesis
  proof (cases "0x2E \<in> set name")
    case True
    then have "?x \<noteq> []" using assms(1) by (auto simp: valid_name_def)
    then have "short_name name ! 8 \<noteq> 0x20"
      using hd8 nb(2) by (cases ?x) auto
    then have "directory_get_name (e\<lparr>de_name := short_name name\<rparr>)
        = map to_upper ?b @ 0x2E # map to_upper ?x"
      using len nb by (simp add: directory_get_name_def copy_until_space_eq t8 d8 takeWhile_upper)
    also have "\<dots> = map to_upper (?b @ 0x2E # ?x)" by simp
    also have "?b @ 0x2E # ?x = name" using True name_split [of name] by simp
    finally show ?thesis .
  next
    case False
    then have "?x = []" by (rule ext_part_empty)
    then have "short_name name ! 8 = 0x20" using hd8 by simp
    then show ?thesis
      using len nb False name_split [of name]
      by (simp add: directory_get_name_def copy_until_space_eq t8 takeWhile_upper)
  qed
qed

end
