(* ===== verification/Directory.thy ===== *)
theory Directory
  imports FsCore DirEntry
begin

text \<open>
  The loops of \<open>kernel/fs/directory.c\<close> over the entries of one directory. Reading goes through an
  open directory (\<open>directory_t\<close>, \<open>directory_next\<close>); the functions that create, delete, update and
  rename an entry and the test for emptiness each have the same three nested loops - clusters of
  the chain, sectors of the cluster, the 16 slots of the sector - around a body of their own. The
  nest is written once, and each function is the nest with its own body. The cluster loop has no
  counter, so it is a partial function: \<open>None\<close> is not returning.
\<close>

section \<open>Slots\<close>

abbreviation DIRECTORY_ENTRIES_PER_SECTOR :: nat where "DIRECTORY_ENTRIES_PER_SECTOR \<equiv> 16"

definition slot_at :: "u8 list \<Rightarrow> nat \<Rightarrow> u8 list" where
  "slot_at sector i = take 32 (drop (32 * i) sector)"

definition put_slot :: "u8 list \<Rightarrow> nat \<Rightarrow> u8 list \<Rightarrow> u8 list" where
  "put_slot sector i slot = put_block sector (32 * i) slot"

section \<open>Open directories\<close>

record directory_t =
  dir_disk :: "disk_t option"
  dir_cluster :: u32
  dir_current_cluster :: u32
  dir_sector :: "u8 list"
  dir_sector_index :: u32
  dir_entry_index :: nat

text \<open>On failure the caller drops the directory, so no value is given for it.\<close>

definition directory_open ::
  "disk_t option \<Rightarrow> u32 \<Rightarrow> 'a fat_state_scheme \<Rightarrow> directory_t option \<times> 'a fat_state_scheme" where
  "directory_open disk cluster w =
     (if disk = None then (None, w)
      else case disk_read disk (fat32_cluster_to_sector cluster w) w of
        (None, w1) \<Rightarrow> (None, w1)
      | (Some sector, w1) \<Rightarrow>
          (Some \<lparr>dir_disk = disk, dir_cluster = cluster, dir_current_cluster = cluster,
             dir_sector = sector, dir_sector_index = 0, dir_entry_index = 0\<rparr>, w1))"

definition directory_open_root ::
  "disk_t option \<Rightarrow> 'a fat_state_scheme \<Rightarrow> directory_t option \<times> 'a fat_state_scheme" where
  "directory_open_root disk w = directory_open disk (root_cluster (fat32_fs w)) w"

datatype next_slot = End_Mark | Entry dirent nat | Sector_Done

text \<open>The inner loop of \<open>directory_next\<close>: the next entry of the sector and the index after it.\<close>

function next_in_sector :: "u8 list \<Rightarrow> nat \<Rightarrow> next_slot" where
  "next_in_sector sector i =
     (if i < DIRECTORY_ENTRIES_PER_SECTOR
      then let current = decode_dirent (slot_at sector i)
           in if de_name current ! 0 = 0x00 then End_Mark
              else if de_name current ! 0 = 0xE5 then next_in_sector sector (Suc i)
              else if de_attributes current = FAT32_ATTR_LFN then next_in_sector sector (Suc i)
              else if de_attributes current AND FAT32_ATTR_VOLUME_ID \<noteq> 0
              then next_in_sector sector (Suc i)
              else Entry current (Suc i)
      else Sector_Done)"
  by pat_completeness auto
termination by (relation "measure (\<lambda>(sector, i). 16 - i)") auto

declare next_in_sector.simps [simp del]

partial_function (option) directory_next ::
  "directory_t \<Rightarrow> 'a fat_state_scheme \<Rightarrow> (dirent option \<times> directory_t \<times> 'a fat_state_scheme) option" where
  "directory_next dir w =
     (case next_in_sector (dir_sector dir) (dir_entry_index dir) of
        End_Mark \<Rightarrow> Some (None, dir, w)
      | Entry e i \<Rightarrow> Some (Some e, dir\<lparr>dir_entry_index := i\<rparr>, w)
      | Sector_Done \<Rightarrow>
          let dir1 = dir\<lparr>dir_entry_index := 0, dir_sector_index := dir_sector_index dir + 1\<rparr>
          in if dir_sector_index dir1 < ucast (sectors_per_cluster (fat32_fs w))
             then (case disk_read (dir_disk dir1)
                      (fat32_cluster_to_sector (dir_current_cluster dir1) w + dir_sector_index dir1) w of
                     (None, w1) \<Rightarrow> Some (None, dir1, w1)
                   | (Some s, w1) \<Rightarrow> directory_next (dir1\<lparr>dir_sector := s\<rparr>) w1)
             else (case fat32_next_cluster (dir_disk dir1) (dir_current_cluster dir1) w of
                (next, w1) \<Rightarrow>
                  if next = FAT32_INVALID_CLUSTER then Some (None, dir1, w1)
                  else let dir2 = dir1\<lparr>dir_current_cluster := next, dir_sector_index := 0,
                              dir_entry_index := 0\<rparr>
                       in (case disk_read (dir_disk dir2) (fat32_cluster_to_sector next w1) w1 of
                             (None, w2) \<Rightarrow> Some (None, dir2, w2)
                           | (Some s, w2) \<Rightarrow> directory_next (dir2\<lparr>dir_sector := s\<rparr>) w2)))"

partial_function (option) find_loop ::
  "u8 list \<Rightarrow> directory_t \<Rightarrow> 'a fat_state_scheme \<Rightarrow> (dirent option \<times> 'a fat_state_scheme) option" where
  "find_loop name dir w =
     do {
       (current, dir1, w1) \<leftarrow> directory_next dir w;
       (case current of
          None \<Rightarrow> Some (None, w1)
        | Some e \<Rightarrow>
            if str_eq (directory_get_name e) name then Some (Some e, w1)
            else find_loop name dir1 w1)
     }"

definition directory_find_in_cluster ::
  "disk_t option \<Rightarrow> u32 \<Rightarrow> u8 list \<Rightarrow> 'a fat_state_scheme \<Rightarrow> (dirent option \<times> 'a fat_state_scheme) option" where
  "directory_find_in_cluster disk cluster name w =
     (if disk = None then Some (None, w)
      else case directory_open disk cluster w of
        (None, w1) \<Rightarrow> Some (None, w1)
      | (Some dir, w1) \<Rightarrow> find_loop name dir w1)"

definition directory_find ::
  "disk_t option \<Rightarrow> u8 list \<Rightarrow> 'a fs_state_scheme \<Rightarrow> (dirent option \<times> 'a fs_state_scheme) option" where
  "directory_find disk name w = directory_find_in_cluster disk (fs_current_directory w) name w"

text \<open>\<open>directory_read_root\<close> with the names it writes to the terminal.\<close>

partial_function (option) read_names ::
  "directory_t \<Rightarrow> u8 list list \<Rightarrow> 'a fat_state_scheme \<Rightarrow> (u8 list list \<times> 'a fat_state_scheme) option" where
  "read_names dir out w =
     do {
       (current, dir1, w1) \<leftarrow> directory_next dir w;
       (case current of
          None \<Rightarrow> Some (out, w1)
        | Some e \<Rightarrow> read_names dir1
            (out @ [bytes ''Entry: '', directory_get_name e, [0x0A]]) w1)
     }"

definition directory_read_root ::
  "disk_t option \<Rightarrow> 'a fat_state_scheme \<Rightarrow> (bool \<times> u8 list list \<times> 'a fat_state_scheme) option" where
  "directory_read_root disk w =
     (case directory_open_root disk w of
        (None, w1) \<Rightarrow> Some (False, [], w1)
      | (Some dir, w1) \<Rightarrow> do { (out, w2) \<leftarrow> read_names dir [] w1; Some (True, out, w2) })"

section \<open>The loop nest\<close>

text \<open>What the body of a loop does with one slot: go on, return, or store the slot and return.\<close>

datatype slot_action = Go_On | Return bool | Store "u8 list"

datatype sector_action = Sector_Go_On | Sector_Return bool | Sector_Write "u8 list"

function scan_slots :: "(u8 list \<Rightarrow> slot_action) \<Rightarrow> u8 list \<Rightarrow> nat \<Rightarrow> sector_action" where
  "scan_slots body sector i =
     (if i < DIRECTORY_ENTRIES_PER_SECTOR
      then (case body (slot_at sector i) of
              Go_On \<Rightarrow> scan_slots body sector (Suc i)
            | Return b \<Rightarrow> Sector_Return b
            | Store slot \<Rightarrow> Sector_Write (put_slot sector i slot))
      else Sector_Go_On)"
  by pat_completeness auto
termination by (relation "measure (\<lambda>(body, sector, i). 16 - i)") auto

declare scan_slots.simps [simp del]

fun scan_sectors ::
  "(u8 list \<Rightarrow> slot_action) \<Rightarrow> disk_t option \<Rightarrow> u32 \<Rightarrow> nat \<Rightarrow> nat \<Rightarrow> 'a fat_state_scheme
   \<Rightarrow> bool option \<times> 'a fat_state_scheme" where
  "scan_sectors body disk first_sector s 0 w = (None, w)"
| "scan_sectors body disk first_sector s (Suc n) w =
     (case disk_read disk (first_sector + of_nat s) w of
        (None, w1) \<Rightarrow> (Some False, w1)
      | (Some sector, w1) \<Rightarrow>
          (case scan_slots body sector 0 of
             Sector_Go_On \<Rightarrow> scan_sectors body disk first_sector (Suc s) n w1
           | Sector_Return b \<Rightarrow> (Some b, w1)
           | Sector_Write sector' \<Rightarrow>
               (case disk_write disk (first_sector + of_nat s) sector' w1 of
                  (ok, w2) \<Rightarrow> (Some ok, w2))))"

definition scan_cluster ::
  "(u8 list \<Rightarrow> slot_action) \<Rightarrow> disk_t option \<Rightarrow> u32 \<Rightarrow> 'a fat_state_scheme
   \<Rightarrow> bool option \<times> 'a fat_state_scheme" where
  "scan_cluster body disk cluster w =
     scan_sectors body disk (fat32_cluster_to_sector cluster w) 0
       (unat (sectors_per_cluster (fat32_fs w))) w"

partial_function (option) scan_chain ::
  "(u8 list \<Rightarrow> slot_action) \<Rightarrow> disk_t option \<Rightarrow> u32 \<Rightarrow> 'a fat_state_scheme
   \<Rightarrow> (bool option \<times> 'a fat_state_scheme) option" where
  "scan_chain body disk cluster w =
     (if cluster < FAT32_CLUSTER_LAST
      then (case scan_cluster body disk cluster w of
              (Some b, w1) \<Rightarrow> Some (Some b, w1)
            | (None, w1) \<Rightarrow>
                (case fat32_next_cluster disk cluster w1 of (next, w2) \<Rightarrow> scan_chain body disk next w2))
      else Some (None, w))"

section \<open>Creating an entry\<close>

definition create_body :: "dirent \<Rightarrow> u8 list \<Rightarrow> slot_action" where
  "create_body entry slot =
     (if slot ! 0 = 0x00 \<or> slot ! 0 = 0xE5 then Store (encode_dirent entry) else Go_On)"

definition directory_write_entry ::
  "disk_t option \<Rightarrow> u32 \<Rightarrow> dirent \<Rightarrow> 'a fat_state_scheme \<Rightarrow> bool \<times> 'a fat_state_scheme" where
  "directory_write_entry disk cluster entry w =
     (case scan_cluster (create_body entry) disk cluster w of
        (Some b, w1) \<Rightarrow> (b, w1)
      | (None, w1) \<Rightarrow> (False, w1))"

definition directory_create_entry_in_cluster ::
  "disk_t option \<Rightarrow> u32 \<Rightarrow> dirent \<Rightarrow> 'a fat_state_scheme \<Rightarrow> (bool \<times> 'a fat_state_scheme) option" where
  "directory_create_entry_in_cluster disk cluster entry w =
     (if disk = None then Some (False, w)
      else if cluster < 2 then Some (False, w)
      else do {
        (found, w1) \<leftarrow> scan_chain (create_body entry) disk cluster w;
        (case found of
           Some b \<Rightarrow> Some (b, w1)
         | None \<Rightarrow>
             (case fat32_allocate_cluster disk w1 of
                (new_cluster, w2) \<Rightarrow>
                  if new_cluster = 0 then Some (False, w2)
                  else do {
                    (appended, w3) \<leftarrow> fat32_append_cluster disk cluster new_cluster w2;
                    Some (if \<not> appended
                          then (False, snd (fat32_free_cluster_chain disk new_cluster w3))
                          else directory_write_entry disk new_cluster entry w3)
                  }))
      })"

definition directory_create_entry ::
  "disk_t option \<Rightarrow> dirent \<Rightarrow> 'a fs_state_scheme \<Rightarrow> (bool \<times> 'a fs_state_scheme) option" where
  "directory_create_entry disk entry w =
     directory_create_entry_in_cluster disk (fs_current_directory w) entry w"

section \<open>Deleting, updating and renaming an entry\<close>

text \<open>The guards these loops have in common: the end mark returns, deleted entries, long-name
  entries and the volume label are passed over.\<close>

definition guarded :: "bool \<Rightarrow> (u8 list \<Rightarrow> slot_action) \<Rightarrow> u8 list \<Rightarrow> slot_action" where
  "guarded at_end body slot =
     (if slot ! 0 = 0x00 then Return at_end
      else if slot ! 0 = 0xE5 then Go_On
      else if de_attributes (decode_dirent slot) = FAT32_ATTR_LFN then Go_On
      else if de_attributes (decode_dirent slot) = FAT32_ATTR_VOLUME_ID then Go_On
      else body slot)"

definition delete_body :: "u8 list \<Rightarrow> u8 list \<Rightarrow> slot_action" where
  "delete_body name = guarded False (\<lambda>slot.
     if str_eq (directory_get_name (decode_dirent slot)) name then Store (slot[0 := 0xE5])
     else Go_On)"

definition directory_delete_in_cluster ::
  "disk_t option \<Rightarrow> u32 \<Rightarrow> u8 list \<Rightarrow> 'a fat_state_scheme \<Rightarrow> (bool \<times> 'a fat_state_scheme) option" where
  "directory_delete_in_cluster disk cluster name w =
     (if disk = None then Some (False, w)
      else do {
        (r, w1) \<leftarrow> scan_chain (delete_body name) disk cluster w;
        Some (case r of Some b \<Rightarrow> b | None \<Rightarrow> False, w1)
      })"

definition empty_body :: "u8 list \<Rightarrow> slot_action" where
  "empty_body = guarded True (\<lambda>slot.
     if str_eq (directory_get_name (decode_dirent slot)) [0x2E] then Go_On
     else if str_eq (directory_get_name (decode_dirent slot)) [0x2E, 0x2E] then Go_On
     else Return False)"

definition directory_is_empty ::
  "disk_t option \<Rightarrow> u32 \<Rightarrow> 'a fat_state_scheme \<Rightarrow> (bool \<times> 'a fat_state_scheme) option" where
  "directory_is_empty disk cluster w =
     (if disk = None then Some (False, w)
      else do {
        (r, w1) \<leftarrow> scan_chain empty_body disk cluster w;
        Some (case r of Some b \<Rightarrow> b | None \<Rightarrow> True, w1)
      })"

definition update_body :: "dirent \<Rightarrow> u8 list \<Rightarrow> slot_action" where
  "update_body entry = guarded False (\<lambda>slot.
     if memcmp (de_name (decode_dirent slot)) (de_name entry) 11 = Some 0
     then Store (encode_dirent entry) else Go_On)"

definition directory_update_entry ::
  "disk_t option \<Rightarrow> u32 \<Rightarrow> dirent \<Rightarrow> 'a fat_state_scheme \<Rightarrow> (bool \<times> 'a fat_state_scheme) option" where
  "directory_update_entry disk parent_cluster entry w =
     (if disk = None then Some (False, w)
      else do {
        (r, w1) \<leftarrow> scan_chain (update_body entry) disk parent_cluster w;
        Some (case r of Some b \<Rightarrow> b | None \<Rightarrow> False, w1)
      })"

definition rename_body :: "u8 list \<Rightarrow> dirent \<Rightarrow> u8 list \<Rightarrow> slot_action" where
  "rename_body old_name entry = guarded False (\<lambda>slot.
     if str_eq (directory_get_name (decode_dirent slot)) old_name then Store (encode_dirent entry)
     else Go_On)"

definition directory_rename_entry ::
  "disk_t option \<Rightarrow> u32 \<Rightarrow> u8 list \<Rightarrow> dirent \<Rightarrow> 'a fat_state_scheme \<Rightarrow> (bool \<times> 'a fat_state_scheme) option" where
  "directory_rename_entry disk parent_cluster old_name entry w =
     (if disk = None then Some (False, w)
      else do {
        (r, w1) \<leftarrow> scan_chain (rename_body old_name entry) disk parent_cluster w;
        Some (case r of Some b \<Rightarrow> b | None \<Rightarrow> False, w1)
      })"

definition directory_move_entry ::
  "disk_t option \<Rightarrow> u32 \<Rightarrow> u32 \<Rightarrow> u8 list \<Rightarrow> dirent \<Rightarrow> 'a fat_state_scheme
   \<Rightarrow> (bool \<times> 'a fat_state_scheme) option" where
  "directory_move_entry disk source_cluster destination_cluster old_name entry w =
     (if disk = None then Some (False, w)
      else do {
        (created, w1) \<leftarrow> directory_create_entry_in_cluster disk destination_cluster entry w;
        if \<not> created then Some (False, w1)
        else do {
          (deleted, w2) \<leftarrow> directory_delete_in_cluster disk source_cluster old_name w1;
          if \<not> deleted
          then do {
            (_, w3) \<leftarrow> directory_delete_in_cluster disk destination_cluster (directory_get_name entry) w2;
            Some (False, w3)
          }
          else Some (True, w2)
        }
      })"

end
