(* ===== verification/Path.thy ===== *)
theory Path
  imports Directory
begin

text \<open>
  Paths, \<open>kernel/fs/path.c\<close>: splitting at slashes, normalising in place, building the absolute
  path of the new working directory, and following a path through the directories. A component
  array is a list of names; the part of the C array beyond \<open>count\<close> is never read.
\<close>

abbreviation PATH_MAX_COMPONENTS :: nat where "PATH_MAX_COMPONENTS \<equiv> 16"
abbreviation PATH_MAX_NAME :: nat where "PATH_MAX_NAME \<equiv> 64"
abbreviation slash :: u8 where "slash \<equiv> 0x2F"
abbreviation dot_name :: "u8 list" where "dot_name \<equiv> [0x2E]"
abbreviation dotdot_name :: "u8 list" where "dotdot_name \<equiv> [0x2E, 0x2E]"

record path_t =
  components :: "u8 list list"
  path_count :: nat
  absolute :: bool

section \<open>Splitting\<close>

fun take_component :: "u8 list \<Rightarrow> u8 list \<Rightarrow> (u8 list \<times> u8 list) option" where
  "take_component [] component = Some (component, [])"
| "take_component (c # path) component =
     (if c = slash then Some (component, c # path)
      else if length component \<ge> PATH_MAX_NAME - 1 then None
      else take_component path (component @ [c]))"

lemma take_component_rest:
  "take_component path acc = Some (component, rest) \<Longrightarrow>
   length rest \<le> length path \<and> (path \<noteq> [] \<longrightarrow> hd path \<noteq> slash \<longrightarrow> length rest < length path)"
proof (induction path arbitrary: acc)
  case Nil
  then show ?case by simp
next
  case (Cons c path)
  show ?case
  proof (cases "c = slash")
    case True
    then show ?thesis using Cons.prems by auto
  next
    case False
    then show ?thesis using Cons.prems Cons.IH by (fastforce split: if_splits)
  qed
qed

function split_loop :: "u8 list \<Rightarrow> u8 list list \<Rightarrow> u8 list list option" where
  "split_loop path comps =
     (if path = [] then Some comps
      else if length comps \<ge> PATH_MAX_COMPONENTS then None
      else case take_component path [] of
        None \<Rightarrow> None
      | Some (component, rest) \<Rightarrow>
          split_loop (if rest \<noteq> [] \<and> hd rest = slash then tl rest else rest) (comps @ [component]))"
  by pat_completeness auto
termination
proof (relation "measure (\<lambda>(path, comps). length path)")
  show "wf (measure (\<lambda>(path :: u8 list, comps :: u8 list list). length path))" by simp
  fix path :: "u8 list" and comps x component rest
  assume ne: "path \<noteq> []" and t: "take_component path [] = Some x" and x: "(component, rest) = x"
  have le: "length rest \<le> length path"
    and less: "hd path \<noteq> slash \<Longrightarrow> length rest < length path"
    using take_component_rest [of path "[]" component rest] t x ne by auto
  have "hd path = slash \<Longrightarrow> rest = path"
    using t x ne by (cases path) auto
  then have "length (if rest \<noteq> [] \<and> hd rest = slash then tl rest else rest) < length path"
    using le less ne by (cases rest; cases "hd path = slash") auto
  then show "((if rest \<noteq> [] \<and> hd rest = slash then tl rest else rest, comps @ [component]), path, comps)
      \<in> measure (\<lambda>(path, comps). length path)" by simp
qed

declare split_loop.simps [simp del]

definition path_split :: "u8 list \<Rightarrow> path_t option" where
  "path_split path =
     (let is_abs = path \<noteq> [] \<and> hd path = slash
      in case split_loop (if is_abs then tl path else path) [] of
           None \<Rightarrow> None
         | Some comps \<Rightarrow> Some \<lparr>components = comps, path_count = length comps, absolute = is_abs\<rparr>)"

section \<open>Normalising\<close>

fun normalize_step :: "bool \<Rightarrow> nat \<Rightarrow> u8 list list \<times> nat \<Rightarrow> u8 list list \<times> nat" where
  "normalize_step is_abs rd (comps, wr) =
     (let component = comps ! rd in
      if str_eq component dot_name then (comps, wr)
      else if str_eq component dotdot_name
      then if wr > 0 \<and> \<not> str_eq (comps ! (wr - 1)) dotdot_name then (comps, wr - 1)
           else if \<not> is_abs then (if wr \<noteq> rd then comps[wr := component] else comps, Suc wr)
           else (comps, wr)
      else (if wr \<noteq> rd then comps[wr := component] else comps, Suc wr))"

definition path_normalize :: "path_t \<Rightarrow> path_t" where
  "path_normalize path =
     (case fold (normalize_step (absolute path)) [0..<path_count path] (components path, 0) of
        (comps, wr) \<Rightarrow> path\<lparr>components := comps, path_count := wr\<rparr>)"

section \<open>The absolute path\<close>

definition join_paths :: "path_t \<Rightarrow> path_t \<Rightarrow> path_t option" where
  "join_paths base_path input_path =
     (if path_count base_path + path_count input_path > PATH_MAX_COMPONENTS then None
      else Some \<lparr>components = take (path_count base_path) (components base_path)
                   @ take (path_count input_path) (components input_path),
                 path_count = path_count base_path + path_count input_path,
                 absolute = absolute base_path\<rparr>)"

fun output_loop :: "u8 list list \<Rightarrow> nat \<Rightarrow> u8 list \<Rightarrow> u8 list option" where
  "output_loop [] i output = Some output"
| "output_loop (c # cs) i output =
     (let separator_length = (if i \<noteq> 0 then 1 else 0)
      in if length output + separator_length + length c \<ge> 256 then None
         else output_loop cs (Suc i) ((if i \<noteq> 0 then output @ [slash] else output) @ c))"

definition path_build_absolute :: "u8 list \<Rightarrow> u8 list \<Rightarrow> u8 list option" where
  "path_build_absolute current input =
     do {
       path \<leftarrow> (if input \<noteq> [] \<and> hd input = slash then path_split input
               else do {
                 base_path \<leftarrow> path_split current;
                 input_path \<leftarrow> path_split input;
                 join_paths base_path input_path
               });
       let path = path_normalize path;
       output_loop (take (path_count path) (components path)) 0 [slash]
     }"

section \<open>Following a path\<close>

text \<open>
  The entry found, if any, and what has been stored through the two output pointers by then.
\<close>

record lookup =
  lk_entry :: "dirent option"
  lk_parent :: "u32 option"
  lk_leaf :: "u8 list option"

fun lookup_loop ::
  "disk_t option \<Rightarrow> u8 list list \<Rightarrow> u32 \<Rightarrow> 'a fs_state_scheme
   \<Rightarrow> ((dirent option \<times> u32 option) \<times> 'a fs_state_scheme) option" where
  "lookup_loop disk [] cluster w = Some ((None, None), w)"
| "lookup_loop disk (c # cs) cluster w =
     do {
       (current, w1) \<leftarrow> directory_find_in_cluster disk cluster c w;
       let parent = (if cs = [] then Some cluster else None);
       (case current of
          None \<Rightarrow> Some ((None, parent), w1)
        | Some e \<Rightarrow>
            if cs = [] then Some ((Some e, parent), w1)
            else if de_attributes e AND FAT32_ATTR_DIRECTORY = 0 then Some ((None, parent), w1)
            else lookup_loop disk cs (directory_entry_cluster e) w1)
     }"

definition root_entry :: "'a fat_state_scheme \<Rightarrow> dirent" where
  "root_entry w =
     directory_set_entry_cluster (zero_dirent\<lparr>de_attributes := FAT32_ATTR_DIRECTORY\<rparr>)
       (root_cluster (fat32_fs w))"

definition path_lookup ::
  "disk_t option \<Rightarrow> u8 list \<Rightarrow> 'a fs_state_scheme \<Rightarrow> (lookup \<times> 'a fs_state_scheme) option" where
  "path_lookup disk path w =
     (let fail = \<lparr>lk_entry = None, lk_parent = None, lk_leaf = None\<rparr>;
          root = root_cluster (fat32_fs w)
      in if disk = None then Some (fail, w)
         else case path_split path of
           None \<Rightarrow> Some (fail, w)
         | Some p \<Rightarrow>
             let parsed = path_normalize p;
                 comps = take (path_count parsed) (components parsed)
             in if \<not> absolute parsed \<and> path_count parsed = 1 \<and> str_eq (comps ! 0) dotdot_name
                   \<and> fs_current_directory w = root
                then Some (\<lparr>lk_entry = Some (root_entry w), lk_parent = Some root,
                            lk_leaf = Some dotdot_name\<rparr>, w)
                else if path_count parsed = 0
                then if \<not> absolute parsed then Some (fail, w)
                     else Some (\<lparr>lk_entry = Some (root_entry w), lk_parent = Some root,
                                 lk_leaf = Some []\<rparr>, w)
                else do {
                  ((e, parent), w1) \<leftarrow> lookup_loop disk comps
                    (if absolute parsed then root else fs_current_directory w) w;
                  Some (\<lparr>lk_entry = e, lk_parent = parent, lk_leaf = Some (last comps)\<rparr>, w1)
                })"

definition path_resolve ::
  "disk_t option \<Rightarrow> u8 list \<Rightarrow> 'a fs_state_scheme \<Rightarrow> (dirent option \<times> 'a fs_state_scheme) option" where
  "path_resolve disk path w =
     do { (l, w1) \<leftarrow> path_lookup disk path w; Some (lk_entry l, w1) }"

end
