(* ===== verification/DirOps.thy ===== *)
theory DirOps
  imports Path
begin

text \<open>
  The operations of \<open>kernel/fs/directory.c\<close> that take a path: creating, deleting and renaming a
  directory and changing the working directory. Local variables that a failed lookup leaves
  untouched have the value they are initialised with.
\<close>

definition lookup_parent :: "lookup \<Rightarrow> u32" where
  "lookup_parent l = (case lk_parent l of None \<Rightarrow> 0 | Some p \<Rightarrow> p)"

definition lookup_leaf :: "lookup \<Rightarrow> u8 list" where
  "lookup_leaf l = (case lk_leaf l of None \<Rightarrow> [] | Some n \<Rightarrow> n)"

definition is_directory :: "dirent \<Rightarrow> bool" where
  "is_directory e \<longleftrightarrow> de_attributes e AND FAT32_ATTR_DIRECTORY \<noteq> 0"

definition dot_entry :: "u8 list \<Rightarrow> u32 \<Rightarrow> dirent" where
  "dot_entry name cluster =
     directory_set_entry_cluster
       (zero_dirent\<lparr>de_name := name, de_attributes := FAT32_ATTR_DIRECTORY\<rparr>) cluster"

definition directory_create ::
  "disk_t option \<Rightarrow> u8 list \<Rightarrow> 'a fs_state_scheme \<Rightarrow> (bool \<times> 'a fs_state_scheme) option" where
  "directory_create disk name w =
     (if disk = None then Some (False, w)
      else do {
        (l, w1) \<leftarrow> path_lookup disk name w;
        let parent_cluster = lookup_parent l;
        let leaf_name = lookup_leaf l;
        if lk_entry l \<noteq> None then Some (False, w1)
        else if parent_cluster < 2 \<or> leaf_name = [] then Some (False, w1)
        else let (cluster, w2) = fat32_allocate_cluster disk w1
             in if cluster = 0 then Some (False, w2)
                else case directory_set_name zero_dirent leaf_name of
                  None \<Rightarrow> Some (False, snd (fat32_free_cluster_chain disk cluster w2))
                | Some e \<Rightarrow>
                    let entry = directory_set_entry_cluster
                          (e\<lparr>de_attributes := FAT32_ATTR_DIRECTORY\<rparr>) cluster
                    in do {
                      (created, w3) \<leftarrow> directory_create_entry_in_cluster disk parent_cluster entry w2;
                      if \<not> created
                      then Some (False, snd (fat32_free_cluster_chain disk cluster w3))
                      else let (ok1, w4) = directory_write_entry disk cluster
                                 (dot_entry (bytes ''.          '') cluster) w3
                           in if \<not> ok1 then Some (False, w4)
                              else let (ok2, w5) = directory_write_entry disk cluster
                                         (dot_entry (bytes ''..         '') parent_cluster) w4
                                   in Some (ok2, w5)
                    }
      })"

text \<open>\<open>parent_cluster\<close> and \<open>leaf_name\<close> are not initialised here, but read only after a successful
  lookup, which has stored both.\<close>

definition directory_delete ::
  "disk_t option \<Rightarrow> u8 list \<Rightarrow> 'a fs_state_scheme \<Rightarrow> (bool \<times> 'a fs_state_scheme) option" where
  "directory_delete disk name w =
     (if disk = None then Some (False, w)
      else do {
        (l, w1) \<leftarrow> path_lookup disk name w;
        (case lk_entry l of
           None \<Rightarrow> Some (False, w1)
         | Some entry \<Rightarrow>
             if \<not> is_directory entry then Some (False, w1)
             else let cluster = directory_entry_cluster entry
                  in do {
                    (empty, w2) \<leftarrow> directory_is_empty disk cluster w1;
                    if \<not> empty then Some (False, w2)
                    else let (freed, w3) = fat32_free_cluster_chain disk cluster w2
                         in if \<not> freed then Some (False, w3)
                            else directory_delete_in_cluster disk (lookup_parent l) (lookup_leaf l) w3
                  })
      })"

definition directory_remove ::
  "disk_t option \<Rightarrow> u8 list \<Rightarrow> 'a fs_state_scheme \<Rightarrow> (bool \<times> 'a fs_state_scheme) option" where
  "directory_remove disk name w =
     (if disk = None then Some (False, w)
      else do {
        (found, w1) \<leftarrow> directory_find disk name w;
        (case found of
           None \<Rightarrow> Some (False, w1)
         | Some entry \<Rightarrow>
             if \<not> is_directory entry then Some (False, w1)
             else do {
               (empty, w2) \<leftarrow> directory_is_empty disk (directory_entry_cluster entry) w1;
               if \<not> empty then Some (False, w2)
               else let first_cluster = directory_entry_cluster entry;
                        (freed, w3) = (if first_cluster \<noteq> 0
                          then fat32_free_cluster_chain disk first_cluster w2 else (True, w2))
                    in if \<not> freed then Some (False, w3) else directory_delete disk name w3
             })
      })"

definition directory_rename ::
  "disk_t option \<Rightarrow> u8 list \<Rightarrow> u8 list \<Rightarrow> 'a fs_state_scheme \<Rightarrow> (bool \<times> 'a fs_state_scheme) option" where
  "directory_rename disk old_name new_name w =
     (if disk = None then Some (False, w)
      else do {
        (found, w1) \<leftarrow> path_resolve disk old_name w;
        (case found of
           None \<Rightarrow> Some (False, w1)
         | Some entry \<Rightarrow> do {
             (existing, w2) \<leftarrow> path_resolve disk new_name w1;
             if existing \<noteq> None then Some (False, w2)
             else case directory_set_name entry new_name of
               None \<Rightarrow> Some (False, w2)
             | Some entry' \<Rightarrow> directory_rename_entry disk (fs_current_directory w2) old_name entry' w2
           })
      })"

definition directory_change ::
  "disk_t option \<Rightarrow> u8 list \<Rightarrow> 'a fs_state_scheme \<Rightarrow> (bool \<times> 'a fs_state_scheme) option" where
  "directory_change disk name w =
     (if disk = None then Some (False, w)
      else do {
        (found, w1) \<leftarrow> path_resolve disk name w;
        (case found of
           None \<Rightarrow> Some (False, w1)
         | Some entry \<Rightarrow>
             if \<not> is_directory entry then Some (False, w1)
             else case path_build_absolute (fs_get_current_path w1) name of
               None \<Rightarrow> Some (False, w1)
             | Some path \<Rightarrow> Some (fs_set_current_directory (directory_entry_cluster entry) (Some path) w1))
      })"

end
