(* ===== verification/FileOps.thy ===== *)
theory FileOps
  imports DirOps
begin

text \<open>
  Files, \<open>kernel/fs/file.c\<close>. A \<open>file_t\<close> is a value that the operations return updated, the caller's
  buffer likewise. \<open>cluster_buffer\<close> and \<open>buffer\<close> are local arrays of 4096 bytes without initial
  value; here they start as zeros, and only bytes that were read from the disk are used. The loops
  run over clusters and are partial functions because the operations they call are.
\<close>

section \<open>Open files\<close>

record file_t =
  f_disk :: "disk_t option"
  f_first_cluster :: u32
  f_current_cluster :: u32
  f_size :: u32
  f_position :: u32
  f_parent_cluster :: u32
  f_entry :: dirent

definition file_open :: "disk_t option \<Rightarrow> u32 \<Rightarrow> dirent \<Rightarrow> file_t option" where
  "file_open disk parent_cluster entry =
     (if disk = None then None
      else Some \<lparr>f_disk = disk, f_first_cluster = directory_entry_cluster entry,
        f_current_cluster = directory_entry_cluster entry, f_size = de_file_size entry,
        f_position = 0, f_parent_cluster = parent_cluster, f_entry = entry\<rparr>)"

definition cluster_bytes :: "'a fat_state_scheme \<Rightarrow> u32" where
  "cluster_bytes w =
     ucast (bytes_per_sector (fat32_fs w)) * ucast (sectors_per_cluster (fat32_fs w))"

definition file_read_cluster ::
  "disk_t option \<Rightarrow> u32 \<Rightarrow> u8 list \<Rightarrow> 'a fat_state_scheme \<Rightarrow> u8 list option \<times> 'a fat_state_scheme" where
  "file_read_cluster disk cluster buffer w =
     (if disk = None then (None, w)
      else read_sectors disk (fat32_cluster_to_sector cluster w)
             (unat (bytes_per_sector (fat32_fs w))) 0 (unat (sectors_per_cluster (fat32_fs w))) buffer w)"

fun write_sectors ::
  "disk_t option \<Rightarrow> u32 \<Rightarrow> nat \<Rightarrow> nat \<Rightarrow> nat \<Rightarrow> u8 list \<Rightarrow> 'a fat_state_scheme \<Rightarrow> bool \<times> 'a fat_state_scheme" where
  "write_sectors disk sector bps i 0 buffer w = (True, w)"
| "write_sectors disk sector bps i (Suc n) buffer w =
     (case disk_write disk (sector + of_nat i) (take 512 (drop (i * bps) buffer)) w of
        (False, w1) \<Rightarrow> (False, w1)
      | (True, w1) \<Rightarrow> write_sectors disk sector bps (Suc i) n buffer w1)"

definition file_write_cluster ::
  "disk_t option \<Rightarrow> u32 \<Rightarrow> u8 list \<Rightarrow> 'a fat_state_scheme \<Rightarrow> bool \<times> 'a fat_state_scheme" where
  "file_write_cluster disk cluster buffer w =
     (if disk = None then (False, w)
      else write_sectors disk (fat32_cluster_to_sector cluster w)
             (unat (bytes_per_sector (fat32_fs w))) 0 (unat (sectors_per_cluster (fat32_fs w))) buffer w)"

section \<open>Reading\<close>

partial_function (option) read_loop ::
  "file_t \<Rightarrow> u8 list \<Rightarrow> u32 \<Rightarrow> u32 \<Rightarrow> u32 \<Rightarrow> 'a fat_state_scheme
   \<Rightarrow> (int \<times> file_t \<times> u8 list \<times> 'a fat_state_scheme) option" where
  "read_loop file destination bytes_read nbytes cluster_size w =
     (if bytes_read < nbytes
      then (case fat32_read_cluster (f_disk file) (f_current_cluster file) (replicate 4096 0) w of
              (None, w1) \<Rightarrow>
                Some (if bytes_read > 0 then sint bytes_read else -1, file, destination, w1)
            | (Some cluster_buffer, w1) \<Rightarrow>
                let offset = f_position file mod cluster_size;
                    available = cluster_size - offset;
                    to_copy = (if nbytes - bytes_read > available then available else nbytes - bytes_read);
                    destination' = put_block destination (unat bytes_read)
                      (take (unat to_copy) (drop (unat offset) cluster_buffer));
                    bytes_read' = bytes_read + to_copy;
                    file' = file\<lparr>f_position := f_position file + to_copy\<rparr>
                in if f_position file' mod cluster_size = 0 \<and> bytes_read' < nbytes
                   then (case fat32_next_cluster (f_disk file') (f_current_cluster file') w1 of
                           (next, w2) \<Rightarrow>
                             if next \<ge> FAT32_INVALID_CLUSTER
                             then Some (sint bytes_read', file', destination', w2)
                             else read_loop (file'\<lparr>f_current_cluster := next\<rparr>) destination'
                                    bytes_read' nbytes cluster_size w2)
                   else read_loop file' destination' bytes_read' nbytes cluster_size w1)
      else Some (sint bytes_read, file, destination, w))"

definition file_read ::
  "file_t \<Rightarrow> u8 list \<Rightarrow> u32 \<Rightarrow> 'a fat_state_scheme \<Rightarrow> (int \<times> file_t \<times> u8 list \<times> 'a fat_state_scheme) option" where
  "file_read file buffer nbytes w =
     (if f_position file \<ge> f_size file then Some (0, file, buffer, w)
      else let remaining = f_size file - f_position file;
               nbytes' = (if nbytes > remaining then remaining else nbytes);
               cluster_size = cluster_bytes w
           in if cluster_size = 0 \<or> cluster_size > 4096 then Some (-1, file, buffer, w)
              else read_loop file buffer 0 nbytes' cluster_size w)"

section \<open>Creating and deleting\<close>

definition file_create ::
  "disk_t option \<Rightarrow> u8 list \<Rightarrow> 'a fs_state_scheme \<Rightarrow> (bool \<times> 'a fs_state_scheme) option" where
  "file_create disk name w =
     (if disk = None then Some (False, w)
      else do {
        (l, w1) \<leftarrow> path_lookup disk name w;
        if lk_entry l \<noteq> None then Some (False, w1)
        else if lookup_parent l < 2 \<or> lookup_leaf l = [] then Some (False, w1)
        else case directory_set_name zero_dirent (lookup_leaf l) of
          None \<Rightarrow> Some (False, w1)
        | Some e \<Rightarrow>
            directory_create_entry_in_cluster disk (lookup_parent l)
              (e\<lparr>de_attributes := 0x20, de_first_cluster_high := 0, de_first_cluster_low := 0,
                 de_file_size := 0\<rparr>) w1
      })"

definition file_delete ::
  "disk_t option \<Rightarrow> u8 list \<Rightarrow> 'a fs_state_scheme \<Rightarrow> (bool \<times> 'a fs_state_scheme) option" where
  "file_delete disk name w =
     (if disk = None then Some (False, w)
      else do {
        (l, w1) \<leftarrow> path_lookup disk name w;
        (case lk_entry l of
           None \<Rightarrow> Some (False, w1)
         | Some entry \<Rightarrow>
             if is_directory entry then Some (False, w1)
             else let first_cluster = directory_entry_cluster entry;
                      (freed, w2) = (if first_cluster \<noteq> 0
                        then fat32_free_cluster_chain disk first_cluster w1 else (True, w1))
                  in if \<not> freed then Some (False, w2)
                     else directory_delete_in_cluster disk (lookup_parent l) (lookup_leaf l) w2)
      })"

section \<open>Writing\<close>

text \<open>The cluster to go on with: the next one of the chain, or a new one appended to it.\<close>

definition next_or_append ::
  "disk_t option \<Rightarrow> u32 \<Rightarrow> 'a fat_state_scheme \<Rightarrow> (u32 option \<times> 'a fat_state_scheme) option" where
  "next_or_append disk current w =
     (case fat32_next_cluster disk current w of
        (next, w1) \<Rightarrow>
          if next = FAT32_INVALID_CLUSTER
          then (case fat32_allocate_cluster disk w1 of
                  (new, w2) \<Rightarrow>
                    if new = 0 then Some (None, w2)
                    else do {
                      (appended, w3) \<leftarrow> fat32_append_cluster disk current new w2;
                      Some (if appended then Some new else None, w3)
                    })
          else Some (Some next, w1))"

datatype write_stop = Write_Done | Write_Return int

partial_function (option) write_loop ::
  "file_t \<Rightarrow> u8 list \<Rightarrow> u32 \<Rightarrow> u32 \<Rightarrow> u32 \<Rightarrow> 'a fat_state_scheme
   \<Rightarrow> (write_stop \<times> u32 \<times> file_t \<times> 'a fat_state_scheme) option" where
  "write_loop file source bytes_written nbytes cluster_size w =
     (if bytes_written < nbytes
      then (case file_read_cluster (f_disk file) (f_current_cluster file) (replicate 4096 0) w of
              (None, w1) \<Rightarrow>
                Some (Write_Return (if bytes_written > 0 then sint bytes_written else -103),
                      bytes_written, file, w1)
            | (Some cluster_buffer, w1) \<Rightarrow>
                let offset = f_position file mod cluster_size;
                    available = cluster_size - offset;
                    to_copy = (if nbytes - bytes_written > available then available else nbytes - bytes_written);
                    cluster_buffer' = put_block cluster_buffer (unat offset)
                      (take (unat to_copy) (drop (unat bytes_written) source))
                in case file_write_cluster (f_disk file) (f_current_cluster file) cluster_buffer' w1 of
                     (written, w2) \<Rightarrow>
                       if \<not> written
                       then Some (Write_Return (if bytes_written > 0 then sint bytes_written else -104),
                              bytes_written, file, w2)
                       else
                       let bytes_written' = bytes_written + to_copy;
                           file' = file\<lparr>f_position := f_position file + to_copy\<rparr>
                       in if bytes_written' = nbytes then Some (Write_Done, bytes_written', file', w2)
                          else do {
                            (next, w3) \<leftarrow> next_or_append (f_disk file') (f_current_cluster file') w2;
                            (case next of
                               None \<Rightarrow> Some (Write_Return (sint bytes_written'), bytes_written', file', w3)
                             | Some c \<Rightarrow> write_loop (file'\<lparr>f_current_cluster := c\<rparr>) source
                                 bytes_written' nbytes cluster_size w3)
                          })
      else Some (Write_Done, bytes_written, file, w))"

definition file_write_internal ::
  "file_t \<Rightarrow> u8 list \<Rightarrow> u32 \<Rightarrow> 'a fat_state_scheme \<Rightarrow> (int \<times> file_t \<times> 'a fat_state_scheme) option" where
  "file_write_internal file buffer nbytes w =
     (let cluster_size = cluster_bytes w;
          (cluster, w1) = (if f_first_cluster file = 0 then fat32_allocate_cluster (f_disk file) w
                           else (f_first_cluster file, w))
      in if cluster = 0 then Some (-101, file, w1)
         else let file1 = (if f_first_cluster file = 0
                  then file\<lparr>f_first_cluster := cluster, f_current_cluster := cluster,
                    f_entry := directory_set_entry_cluster (f_entry file) cluster\<rparr>
                  else file)
              in if cluster_size > 4096 then Some (-102, file1, w1)
                 else do {
                   (stop, bytes_written, file2, w2) \<leftarrow> write_loop file1 buffer 0 nbytes cluster_size w1;
                   (case stop of
                      Write_Return n \<Rightarrow> Some (n, file2, w2)
                    | Write_Done \<Rightarrow>
                        let file3 = (if f_position file2 > f_size file2
                              then file2\<lparr>f_size := f_position file2\<rparr> else file2);
                            file4 = file3\<lparr>f_entry := (f_entry file3)\<lparr>de_file_size := f_size file3\<rparr>\<rparr>
                        in do {
                          (updated, w3) \<leftarrow> directory_update_entry (f_disk file4)
                            (f_parent_cluster file4) (f_entry file4) w2;
                          Some (if \<not> updated then -105 else sint bytes_written, file4, w3)
                        })
                 })"

definition file_write ::
  "file_t \<Rightarrow> u8 list \<Rightarrow> u32 \<Rightarrow> 'a fat_state_scheme \<Rightarrow> (int \<times> file_t \<times> 'a fat_state_scheme) option" where
  "file_write file buffer nbytes w =
     (let file1 = file\<lparr>f_position := 0, f_size := 0, f_current_cluster := f_first_cluster file,
            f_entry := (f_entry file)\<lparr>de_file_size := 0\<rparr>\<rparr>
      in do {
        (updated, w1) \<leftarrow> directory_update_entry (f_disk file1) (f_parent_cluster file1) (f_entry file1) w;
        if \<not> updated then Some (-1, file1, w1) else file_write_internal file1 buffer nbytes w1
      })"

definition file_append ::
  "file_t \<Rightarrow> u8 list \<Rightarrow> u32 \<Rightarrow> 'a fat_state_scheme \<Rightarrow> (int \<times> file_t \<times> 'a fat_state_scheme) option" where
  "file_append file buffer nbytes w =
     do {
       (current, w1) \<leftarrow> chain_last (f_disk file) (f_first_cluster file) w;
       file_write_internal (file\<lparr>f_position := f_size file, f_current_cluster := current\<rparr>) buffer nbytes w1
     }"

section \<open>Copying and moving\<close>

partial_function (option) copy_loop ::
  "file_t \<Rightarrow> file_t \<Rightarrow> u32 \<Rightarrow> u8 list \<Rightarrow> 'a fat_state_scheme \<Rightarrow> (bool \<times> 'a fat_state_scheme) option" where
  "copy_loop source_file destination_file cluster_size buffer w =
     do {
       (n, source_file', buffer', w1) \<leftarrow> file_read source_file buffer cluster_size w;
       if n > 0
       then do {
         (m, destination_file', w2) \<leftarrow> file_append destination_file buffer' (of_int n) w1;
         if m \<noteq> n then Some (False, w2)
         else copy_loop source_file' destination_file' cluster_size buffer' w2
       }
       else Some (n \<ge> 0, w1)
     }"

definition file_copy ::
  "disk_t option \<Rightarrow> u8 list \<Rightarrow> u8 list \<Rightarrow> 'a fs_state_scheme \<Rightarrow> (bool \<times> 'a fs_state_scheme) option" where
  "file_copy disk source destination w =
     (if disk = None then Some (False, w)
      else do {
        (sl, w1) \<leftarrow> path_lookup disk source w;
        (case lk_entry sl of
           None \<Rightarrow> Some (False, w1)
         | Some source_entry \<Rightarrow>
             if is_directory source_entry then Some (False, w1)
             else do {
               (created, w2) \<leftarrow> file_create disk destination w1;
               if \<not> created then Some (False, w2)
               else do {
                 (dl, w3) \<leftarrow> path_lookup disk destination w2;
                 (case lk_entry dl of
                    None \<Rightarrow> Some (False, w3)
                  | Some destination_entry \<Rightarrow>
                      (case (file_open disk (lookup_parent sl) source_entry,
                             file_open disk (lookup_parent dl) destination_entry) of
                         (Some source_file, Some destination_file) \<Rightarrow>
                           if cluster_bytes w3 > 4096 then Some (False, w3)
                           else copy_loop source_file destination_file (cluster_bytes w3)
                                  (replicate 4096 0) w3
                       | _ \<Rightarrow> Some (False, w3)))
               }
             })
      })"

fun parent_path_loop :: "u8 list list \<Rightarrow> nat \<Rightarrow> bool \<Rightarrow> u8 list \<Rightarrow> u8 list option" where
  "parent_path_loop [] i is_abs parent_path = Some parent_path"
| "parent_path_loop (c # cs) i is_abs parent_path =
     (let p = (if i > 0 \<or> is_abs then parent_path @ [slash] else parent_path)
      in if length p + length c \<ge> 256 then None else parent_path_loop cs (Suc i) is_abs (p @ c))"

text \<open>The result is the parent cluster and the leaf name, or \<open>None\<close>.\<close>

definition file_resolve_destination ::
  "disk_t option \<Rightarrow> u8 list \<Rightarrow> 'a fs_state_scheme \<Rightarrow> ((u32 \<times> u8 list) option \<times> 'a fs_state_scheme) option" where
  "file_resolve_destination disk new_name w =
     (if disk = None then Some (None, w)
      else case path_split new_name of
        None \<Rightarrow> Some (None, w)
      | Some p \<Rightarrow>
          let parsed = path_normalize p; comps = take (path_count parsed) (components parsed)
          in if path_count parsed = 0 then Some (None, w)
             else if path_count parsed = 1 then Some (Some (fs_current_directory w, comps ! 0), w)
             else case parent_path_loop (butlast comps) 0 (absolute parsed)
                         (if absolute parsed then [slash] else []) of
               None \<Rightarrow> Some (None, w)
             | Some parent_path \<Rightarrow>
                 let parent_path' = (if parent_path = [] then dot_name else parent_path)
                 in do {
                   (l, w1) \<leftarrow> path_lookup disk parent_path' w;
                   (case lk_entry l of
                      None \<Rightarrow> Some (None, w1)
                    | Some _ \<Rightarrow> Some (Some (lookup_parent l, last comps), w1))
                 })"

definition file_move ::
  "disk_t option \<Rightarrow> u8 list \<Rightarrow> u8 list \<Rightarrow> 'a fs_state_scheme \<Rightarrow> (bool \<times> 'a fs_state_scheme) option" where
  "file_move disk old_name new_name w =
     (if disk = None then Some (False, w)
      else do {
        (sl, w1) \<leftarrow> path_lookup disk old_name w;
        (case lk_entry sl of
           None \<Rightarrow> Some (False, w1)
         | Some entry \<Rightarrow> do {
             (dest, w2) \<leftarrow> file_resolve_destination disk new_name w1;
             (case dest of
                None \<Rightarrow> Some (False, w2)
              | Some (destination_parent, destination_leaf) \<Rightarrow> do {
                  (existing, w3) \<leftarrow> path_resolve disk new_name w2;
                  if existing \<noteq> None then Some (False, w3)
                  else if lookup_leaf sl = [] \<or> destination_leaf = [] then Some (False, w3)
                  else if destination_parent < 2 then Some (False, w3)
                  else case directory_set_name entry destination_leaf of
                    None \<Rightarrow> Some (False, w3)
                  | Some entry' \<Rightarrow>
                      if lookup_parent sl = destination_parent
                      then directory_rename_entry disk (lookup_parent sl) (lookup_leaf sl) entry' w3
                      else directory_move_entry disk (lookup_parent sl) destination_parent
                             (lookup_leaf sl) entry' w3
                })
           })
      })"

end
