(* ===== verification/DirScan.thy ===== *)
theory DirScan
  imports Directory FatAlloc
begin

text \<open>
  What the loop nest of \<open>Directory\<close> does on a directory whose cluster chain is well formed: it runs
  over the slots of the directory, in order, until the body acts, and either changes nothing or
  replaces one slot. The directory is seen as the list of its slots.
\<close>

section \<open>Slots of a sector\<close>

definition slots :: "u8 list \<Rightarrow> u8 list list" where
  "slots sector = map (slot_at sector) [0..<DIRECTORY_ENTRIES_PER_SECTOR]"

lemma length_slots [simp]: "length (slots s) = 16"
  by (simp add: slots_def)

lemma nth_slots [simp]: "i < 16 \<Longrightarrow> slots s ! i = slot_at s i"
  by (simp add: slots_def)

lemma length_slot_at [simp]:
  assumes "length s = 512" "i < 16"
  shows "length (slot_at s i) = 32"
  using assms by (simp add: slot_at_def)

lemma length_put_block [simp]:
  "off + length b \<le> length buf \<Longrightarrow> length (put_block buf off b) = length buf"
  by (simp add: put_block_def)

lemma take_put_block_same:
  "off + length b \<le> length buf \<Longrightarrow> take (length b) (drop off (put_block buf off b)) = b"
  by (simp add: put_block_def)

lemma take_put_block_other:
  assumes "off + length b \<le> length buf" "off' + n \<le> off \<or> off + length b \<le> off'"
  shows "take n (drop off' (put_block buf off b)) = take n (drop off' buf)"
  using assms(2)
proof
  assume "off' + n \<le> off"
  then show ?thesis using assms(1) by (simp add: put_block_def min_def) (simp add: take_drop)
next
  assume "off + length b \<le> off'"
  then show ?thesis using assms(1) by (simp add: put_block_def)
qed

lemma slots_put_slot:
  assumes "length s = 512" "i < 16" "length x = 32"
  shows "slots (put_slot s i x) = (slots s)[i := x]" and "length (put_slot s i x) = 512"
proof -
  show "length (put_slot s i x) = 512"
    using assms by (simp add: put_slot_def)
  have "slot_at (put_slot s i x) j = (if j = i then x else slot_at s j)" if "j < 16" for j
  proof (cases "j = i")
    case True
    then show ?thesis
      using assms take_put_block_same [of "32 * i" x s] by (simp add: slot_at_def put_slot_def)
  next
    case False
    then have "32 * j + 32 \<le> 32 * i \<or> 32 * i + length x \<le> 32 * j" using assms(3) by linarith
    then show ?thesis
      using assms False by (simp add: slot_at_def put_slot_def take_put_block_other)
  qed
  then show "slots (put_slot s i x) = (slots s)[i := x]"
    by (intro nth_equalityI [of "slots (put_slot s i x)"]) (simp_all add: nth_list_update)
qed

section \<open>The first slot on which a body acts\<close>

fun first_hit :: "(u8 list \<Rightarrow> slot_action) \<Rightarrow> u8 list list \<Rightarrow> (nat \<times> slot_action) option" where
  "first_hit body [] = None"
| "first_hit body (s # ss) =
     (if body s = Go_On then map_option (apfst Suc) (first_hit body ss) else Some (0, body s))"

lemma first_hit_None: "first_hit body ss = None \<longleftrightarrow> (\<forall>s \<in> set ss. body s = Go_On)"
  by (induction ss) auto

lemma first_hit_Some:
  "first_hit body ss = Some (i, a) \<longleftrightarrow>
     i < length ss \<and> body (ss ! i) = a \<and> a \<noteq> Go_On \<and> (\<forall>j < i. body (ss ! j) = Go_On)"
proof (induction ss arbitrary: i)
  case Nil
  then show ?case by simp
next
  case (Cons s ss)
  then show ?case
    by (cases i) (auto simp: nth_Cons less_Suc_eq_0_disj split: nat.splits)
qed

lemma first_hit_append:
  "first_hit body (xs @ ys) =
     (case first_hit body xs of
        Some r \<Rightarrow> Some r
      | None \<Rightarrow> map_option (apfst ((+) (length xs))) (first_hit body ys))"
  by (induction xs)
    (auto split: option.splits simp: option.map_comp comp_def apfst_def map_prod_def option.map_id0
      case_prod_unfold option.map_ident)

definition sector_result :: "u8 list \<Rightarrow> (nat \<times> slot_action) option \<Rightarrow> sector_action" where
  "sector_result sector r =
     (case r of
        None \<Rightarrow> Sector_Go_On
      | Some (i, Return b) \<Rightarrow> Sector_Return b
      | Some (i, Store x) \<Rightarrow> Sector_Write (put_slot sector i x)
      | Some (i, Go_On) \<Rightarrow> Sector_Go_On)"

lemma scan_slots_from:
  "i \<le> 16 \<Longrightarrow> scan_slots body sector i =
     sector_result sector (map_option (apfst ((+) i)) (first_hit body (drop i (slots sector))))"
proof (induction "16 - i" arbitrary: i)
  case 0
  then have "i = 16" by simp
  then show ?case by (subst scan_slots.simps) (simp add: sector_result_def)
next
  case (Suc n)
  then have d: "drop i (slots sector) = slot_at sector i # drop (Suc i) (slots sector)"
    by (subst Cons_nth_drop_Suc [symmetric]) auto
  have i: "i < 16" using Suc.hyps(2) by simp
  have eq: "apfst ((+) i) (apfst Suc r) = apfst ((+) (Suc i)) r" for r :: "nat \<times> slot_action"
    by (cases r) simp
  have IH: "scan_slots body sector (Suc i) =
      sector_result sector (map_option (apfst ((+) (Suc i))) (first_hit body (drop (Suc i) (slots sector))))"
    using Suc.hyps(1) [of "Suc i"] Suc.hyps(2) i by simp
  show ?case
  proof (cases "body (slot_at sector i)")
    case Go_On
    then show ?thesis
      using IH i by (simp add: scan_slots.simps [of body sector i] d option.map_comp comp_def eq)
  qed (use i in \<open>simp_all add: scan_slots.simps [of body sector i] d sector_result_def\<close>)
qed

lemma scan_slots_0: "scan_slots body sector 0 = sector_result sector (first_hit body (slots sector))"
proof -
  have "apfst ((+) 0) = (id :: nat \<times> slot_action \<Rightarrow> _)" by (auto simp: apfst_def)
  then show ?thesis using scan_slots_from [of 0 body sector] by (simp add: option.map_id)
qed

section \<open>The slots of a list of sectors\<close>

definition slots_at :: "disk_t option \<Rightarrow> 'a hw_scheme \<Rightarrow> u32 list \<Rightarrow> u8 list list" where
  "slots_at disk w lbas = concat (map (\<lambda>l. slots (sec disk w l)) lbas)"

definition set_slot :: "disk_t option \<Rightarrow> u32 list \<Rightarrow> nat \<Rightarrow> u8 list \<Rightarrow> 'a hw_scheme \<Rightarrow> 'a hw_scheme" where
  "set_slot disk lbas i x w =
     (let l = lbas ! (i div 16) in set_sec disk l (put_slot (sec disk w l) (i mod 16) x) w)"

lemma length_slots_at [simp]: "length (slots_at disk w lbas) = 16 * length lbas"
  by (induction lbas) (simp_all add: slots_at_def)

lemma slots_at_Nil [simp]: "slots_at disk w [] = []"
  by (simp add: slots_at_def)

lemma slots_at_Cons: "slots_at disk w (l # ls) = slots (sec disk w l) @ slots_at disk w ls"
  by (simp add: slots_at_def)

lemma slots_at_append: "slots_at disk w (xs @ ys) = slots_at disk w xs @ slots_at disk w ys"
  by (simp add: slots_at_def)

lemma slots_at_cong:
  "(\<And>l. l \<in> set ls \<Longrightarrow> sec disk w l = sec disk w' l) \<Longrightarrow> slots_at disk w ls = slots_at disk w' ls"
  by (simp add: slots_at_def cong: map_cong)

lemma nth_slots_at:
  "i < 16 * length lbas \<Longrightarrow>
   slots_at disk w lbas ! i = slot_at (sec disk w (lbas ! (i div 16))) (i mod 16)"
proof (induction lbas arbitrary: i)
  case Nil
  then show ?case by simp
next
  case (Cons l ls)
  show ?case
  proof (cases "i < 16")
    case True
    then show ?thesis by (simp add: slots_at_Cons nth_append)
  next
    case False
    then have "i div 16 = Suc ((i - 16) div 16)" "i mod 16 = (i - 16) mod 16"
      by (simp_all add: le_div_geq le_mod_geq)
    then show ?thesis using False Cons by (simp add: slots_at_Cons nth_append)
  qed
qed

lemma set_slot_Cons:
  "set_slot disk (l # ls) (16 + i) x w = set_slot disk ls i x w"
proof -
  have "(16 + i) div 16 = Suc (i div 16)" by simp
  then show ?thesis by (simp add: set_slot_def del: div_add_self1)
qed

lemma slots_at_set_slot:
  assumes "distinct lbas" "i < 16 * length lbas" "\<And>l. l \<in> set lbas \<Longrightarrow> in_disk disk l"
    and "medium_wf disk w" "length x = 32"
  shows "slots_at disk (set_slot disk lbas i x w) lbas = (slots_at disk w lbas)[i := x]"
proof (rule nth_equalityI)
  show "length (slots_at disk (set_slot disk lbas i x w) lbas) = length ((slots_at disk w lbas)[i := x])"
    by simp
  fix j
  assume "j < length (slots_at disk (set_slot disk lbas i x w) lbas)"
  then have j: "j < 16 * length lbas" by simp
  have d: "i div 16 < length lbas" "j div 16 < length lbas" using assms(2) j by auto
  have l: "length (sec disk w (lbas ! (i div 16))) = 512" using assms(4) by (simp add: medium_wf_def)
  have in_i: "in_disk disk (lbas ! (i div 16))" using assms(3) d by simp
  have "slots (put_slot (sec disk w (lbas ! (i div 16))) (i mod 16) x) ! (j mod 16) =
      (slots (sec disk w (lbas ! (i div 16))))[i mod 16 := x] ! (j mod 16)"
    using slots_put_slot(1) [OF l _ assms(5), of "i mod 16"] by simp
  then have put: "slot_at (put_slot (sec disk w (lbas ! (i div 16))) (i mod 16) x) (j mod 16) =
      (if j mod 16 = i mod 16 then x else slot_at (sec disk w (lbas ! (i div 16))) (j mod 16))"
    by (simp add: nth_list_update)
  have "i = j \<longleftrightarrow> lbas ! (i div 16) = lbas ! (j div 16) \<and> j mod 16 = i mod 16"
    using assms(1) d nth_eq_iff_index_eq [of lbas "i div 16" "j div 16"]
    by (metis div_mult_mod_eq)
  then show "slots_at disk (set_slot disk lbas i x w) lbas ! j = (slots_at disk w lbas)[i := x] ! j"
    using in_i j put assms(2) by (auto simp: nth_slots_at nth_list_update set_slot_def Let_def)
qed

lemma set_slot_append:
  "i < 16 * length xs \<Longrightarrow> set_slot disk (xs @ ys) i x w = set_slot disk xs i x w"
  "set_slot disk (xs @ ys) (16 * length xs + i) x w = set_slot disk ys i x w"
  by (simp_all add: set_slot_def nth_append less_mult_imp_div_less mult.commute)

section \<open>The loop nest on a well-formed directory\<close>

definition hit_result :: "(nat \<times> slot_action) option \<Rightarrow> bool option" where
  "hit_result r =
     (case r of Some (i, Return b) \<Rightarrow> Some b | Some (i, Store x) \<Rightarrow> Some True | _ \<Rightarrow> None)"

definition apply_hit ::
  "disk_t option \<Rightarrow> u32 list \<Rightarrow> (nat \<times> slot_action) option \<Rightarrow> 'a hw_scheme \<Rightarrow> 'a hw_scheme" where
  "apply_hit disk lbas r w =
     (case r of Some (i, Store x) \<Rightarrow> set_slot disk lbas i x w | _ \<Rightarrow> w)"

lemma hit_simps [simp]:
  "hit_result None = None" "hit_result (Some (i, Return b)) = Some b"
  "hit_result (Some (i, Store x)) = Some True"
  "apply_hit disk lbas None w = w" "apply_hit disk lbas (Some (i, Return b)) w = w"
  "apply_hit disk lbas (Some (i, Store x)) w = set_slot disk lbas i x w"
  by (simp_all add: hit_result_def apply_hit_def)

lemma quiet_set_sec: "quiet w w' \<Longrightarrow> quiet (set_sec disk l b w) (set_sec disk l b w')"
proof -
  assume "quiet w w'"
  then obtain n where "w' = w\<lparr>io_pos := n\<rparr>" by (auto simp: quiet_def)
  then show ?thesis
    unfolding quiet_def by (intro exI [of _ n]) (simp add: set_sec_def put_sector_def split: option.splits)
qed

lemma quiet_set_slot: "quiet w w' \<Longrightarrow> quiet (set_slot disk lbas i x w) (set_slot disk lbas i x w')"
  using quiet_sec [of w w' disk] by (auto simp: set_slot_def Let_def intro: quiet_set_sec)

lemma quiet_apply_hit:
  "quiet w w' \<Longrightarrow> quiet (apply_hit disk lbas r w) (apply_hit disk lbas r w')"
  by (auto simp: apply_hit_def intro: quiet_set_slot split: option.splits slot_action.splits)

lemma quiet_slots_at: "quiet w w' \<Longrightarrow> slots_at disk w' lbas = slots_at disk w lbas"
  by (simp add: slots_at_def quiet_sec)

text \<open>The result and the effect on a directory in two parts.\<close>

lemma hit_append:
  assumes "length ss = 16 * length xs"
  shows "hit_result (first_hit body (ss @ ts)) =
      (case first_hit body ss of None \<Rightarrow> hit_result (first_hit body ts) | r \<Rightarrow> hit_result r)"
    and "apply_hit disk (xs @ ys) (first_hit body (ss @ ts)) w =
      (case first_hit body ss of None \<Rightarrow> apply_hit disk ys (first_hit body ts) w
       | r \<Rightarrow> apply_hit disk xs r w)"
proof -
  show "hit_result (first_hit body (ss @ ts)) =
      (case first_hit body ss of None \<Rightarrow> hit_result (first_hit body ts) | r \<Rightarrow> hit_result r)"
    by (auto simp: first_hit_append hit_result_def split: option.splits slot_action.splits)
  have "i < 16 * length xs" if "first_hit body ss = Some (i, a)" for i a
    using that assms by (simp add: first_hit_Some)
  then show "apply_hit disk (xs @ ys) (first_hit body (ss @ ts)) w =
      (case first_hit body ss of None \<Rightarrow> apply_hit disk ys (first_hit body ts) w
       | r \<Rightarrow> apply_hit disk xs r w)"
    using assms by (auto simp: first_hit_append apply_hit_def set_slot_append
        split: option.splits slot_action.splits)
qed

lemma first_hit_Some_not_Go_On: "first_hit body ss = Some (i, a) \<Longrightarrow> a \<noteq> Go_On"
  by (simp add: first_hit_Some)

lemma scan_sectors_ok:
  assumes "healthy w" "lbas = map (\<lambda>k. first + of_nat k) [s..<s + n]"
    and "\<And>l. l \<in> set lbas \<Longrightarrow> in_disk disk l"
    and "r = first_hit body (slots_at disk w lbas)"
  shows "\<exists>w'. scan_sectors body disk first s n w = (hit_result r, w') \<and>
    quiet (apply_hit disk lbas r w) w'"
  using assms
proof (induction n arbitrary: s lbas w r)
  case 0
  then show ?case by auto
next
  case (Suc n)
  let ?l = "first + of_nat s :: u32"
  let ?ls = "map (\<lambda>k. first + of_nat k) [Suc s..<Suc s + n] :: u32 list"
  have lbas: "lbas = [?l] @ ?ls" using Suc.prems(2) by (simp add: upt_conv_Cons del: upt_Suc)
  have in_l: "in_disk disk ?l" using Suc.prems(3) lbas by simp
  have rd: "disk_read disk ?l w = (Some (sec disk w ?l), tick w)"
    using disk_read_ok [OF Suc.prems(1) in_l] .
  let ?r1 = "first_hit body (slots (sec disk w ?l))"
  have sl: "slots_at disk w lbas = slots (sec disk w ?l) @ slots_at disk w ?ls"
    by (simp add: lbas slots_at_Cons)
  have l16: "length (slots (sec disk w ?l)) = 16 * length [?l]" by simp
  note parts = hit_append(1) [where ss = "slots (sec disk w ?l)" and xs = "[?l]" and body = body
      and ts = "slots_at disk w ?ls", OF l16]
    hit_append(2) [where ss = "slots (sec disk w ?l)" and xs = "[?l]" and ys = ?ls and body = body
      and ts = "slots_at disk w ?ls" and disk = disk and w = w, OF l16]
  have r0: "r = first_hit body (slots (sec disk w ?l) @ slots_at disk w ?ls)"
    using Suc.prems(4) sl by simp
  show ?case
  proof (cases ?r1)
    case None
    obtain w' where w': "scan_sectors body disk first (Suc s) n (tick w) =
        (hit_result (first_hit body (slots_at disk (tick w) ?ls)), w')"
      "quiet (apply_hit disk ?ls (first_hit body (slots_at disk (tick w) ?ls)) (tick w)) w'"
      using Suc.IH [of "tick w" ?ls "Suc s"] Suc.prems(1,3) lbas by auto
    have t: "slots_at disk (tick w) ?ls = slots_at disk w ?ls"
      by (rule quiet_slots_at) simp
    have "quiet (apply_hit disk ?ls (first_hit body (slots_at disk w ?ls)) w) w'"
      using quiet_trans [OF quiet_apply_hit [OF quiet_tick] w'(2) [unfolded t]] .
    then show ?thesis
      using rd None w'(1) [unfolded t] parts
      by (simp add: scan_slots_0 sector_result_def r0 lbas del: upt_Suc)
  next
    case (Some ia)
    then obtain i a where ia: "?r1 = Some (i, a)" by (cases ia) auto
    then have i: "i < 16" using first_hit_Some [of body "slots (sec disk w ?l)"] by simp
    have r: "r = Some (i, a)"
      using Suc.prems(4) ia by (simp add: sl first_hit_append)
    show ?thesis
    proof (cases a)
      case Go_On
      then show ?thesis using ia first_hit_Some_not_Go_On by blast
    next
      case (Return b)
      then show ?thesis
        using rd ia r by (auto simp: scan_slots_0 sector_result_def)
    next
      case (Store x)
      have "disk_write disk ?l (put_slot (sec disk w ?l) i x) (tick w) =
          (True, tick (set_sec disk ?l (put_slot (sec disk w ?l) i x) (tick w)))"
        using disk_write_ok [of "tick w" disk ?l] Suc.prems(1) in_l by simp
      moreover have "set_slot disk lbas i x w = set_sec disk ?l (put_slot (sec disk w ?l) i x) w"
        using i lbas by (simp add: set_slot_def Let_def)
      moreover have "quiet (set_sec disk ?l (put_slot (sec disk w ?l) i x) w)
          (tick (set_sec disk ?l (put_slot (sec disk w ?l) i x) (tick w)))"
        by (meson quiet_set_sec quiet_tick quiet_trans)
      ultimately show ?thesis
        using rd ia r Store by (simp add: scan_slots_0 sector_result_def)
    qed
  qed
qed

definition cluster_lbas :: "'a fat_state_scheme \<Rightarrow> u32 \<Rightarrow> u32 list" where
  "cluster_lbas w c =
     map (\<lambda>k. fat32_cluster_to_sector c w + of_nat k) [0..<unat (sectors_per_cluster (fat32_fs w))]"

definition dir_lbas :: "'a fat_state_scheme \<Rightarrow> u32 list \<Rightarrow> u32 list" where
  "dir_lbas w xs = concat (map (cluster_lbas w) xs)"

lemma dir_lbas_Nil [simp]: "dir_lbas w [] = []"
  by (simp add: dir_lbas_def)

lemma dir_lbas_Cons: "dir_lbas w (x # xs) = cluster_lbas w x @ dir_lbas w xs"
  by (simp add: dir_lbas_def)

lemma dir_lbas_append: "dir_lbas w (xs @ ys) = dir_lbas w xs @ dir_lbas w ys"
  by (simp add: dir_lbas_def)

lemma cluster_lbas_cong: "fat32_fs w' = fat32_fs w \<Longrightarrow> cluster_lbas w' c = cluster_lbas w c"
  by (simp add: cluster_lbas_def fat32_cluster_to_sector_def)

lemma dir_lbas_cong: "fat32_fs w' = fat32_fs w \<Longrightarrow> dir_lbas w' xs = dir_lbas w xs"
  by (metis cluster_lbas_cong dir_lbas_def ext)

lemma cluster_lbas_ok:
  assumes "geometry_ok disk (fat32_fs w)" "valid_cluster (fat32_fs w) c" "l \<in> set (cluster_lbas w c)"
  shows "in_disk disk l" "in_cluster c w l" "first_data_sector (fat32_fs w) \<le> l"
proof -
  obtain k where k: "l = fat32_cluster_to_sector c w + of_nat k"
    "k < unat (sectors_per_cluster (fat32_fs w))"
    using assms(3) by (auto simp: cluster_lbas_def)
  note c = cluster_in_disk [OF assms(1,2) k(2)]
  show "in_disk disk l" using c(1) k(1) by simp
  show "in_cluster c w l" using c(2) k by (simp add: in_cluster_def)
  show "first_data_sector (fat32_fs w) \<le> l"
    using cluster_sector_pos(1) [OF assms(1,2)] c(2) k(1) by (simp add: word_le_nat_alt)
qed

lemma scan_cluster_ok:
  assumes "fat_ok disk w" "valid_cluster (fat32_fs w) c"
    and "r = first_hit body (slots_at disk w (cluster_lbas w c))"
  shows "\<exists>w'. scan_cluster body disk c w = (hit_result r, w') \<and>
    quiet (apply_hit disk (cluster_lbas w c) r w) w'"
  unfolding scan_cluster_def
proof (rule scan_sectors_ok)
  have g: "geometry_ok disk (fat32_fs w)" "healthy w" using assms(1) by (simp_all add: fat_ok_def)
  then show "healthy w" by simp
  fix l assume "l \<in> set (cluster_lbas w c)"
  then show "in_disk disk l" using cluster_lbas_ok(1) [OF g(1) assms(2)] by simp
qed (simp_all add: cluster_lbas_def assms(3))

lemma valid_below_last:
  "geometry_ok disk fs \<Longrightarrow> valid_cluster fs c \<Longrightarrow> c < FAT32_CLUSTER_LAST"
  using geometry_okD(3) [of disk fs] by (auto simp: valid_cluster_def word_less_nat_alt)

lemma scan_chain_ok:
  assumes "fat_ok disk w" "fat_chain (fat disk w) (valid_cluster (fat32_fs w)) c xs"
    and "r = first_hit body (slots_at disk w (dir_lbas w xs))"
  shows "\<exists>w'. scan_chain body disk c w = Some (hit_result r, w') \<and>
    quiet (apply_hit disk (dir_lbas w xs) r w) w'"
  using assms
proof (induction xs arbitrary: c w r)
  case Nil
  then show ?case by simp
next
  case (Cons x xs)
  have c: "c = x" "valid_cluster (fat32_fs w) x" using Cons.prems(2) by simp_all
  have g: "geometry_ok disk (fat32_fs w)" using Cons.prems(1) by (simp add: fat_ok_def)
  have lt: "c < FAT32_CLUSTER_LAST" using valid_below_last [OF g] c by simp
  let ?r1 = "first_hit body (slots_at disk w (cluster_lbas w x))"
  obtain w1 where w1: "scan_cluster body disk x w = (hit_result ?r1, w1)"
    "quiet (apply_hit disk (cluster_lbas w x) ?r1 w) w1"
    using scan_cluster_ok [OF Cons.prems(1) c(2) refl] by blast
  have sl: "slots_at disk w (dir_lbas w (x # xs)) =
      slots_at disk w (cluster_lbas w x) @ slots_at disk w (dir_lbas w xs)"
    by (simp add: dir_lbas_Cons slots_at_append)
  note parts = hit_append(1) [where ss = "slots_at disk w (cluster_lbas w x)" and xs = "cluster_lbas w x"
      and body = body and ts = "slots_at disk w (dir_lbas w xs)", OF length_slots_at]
    hit_append(2) [where ss = "slots_at disk w (cluster_lbas w x)" and xs = "cluster_lbas w x"
      and body = body and ts = "slots_at disk w (dir_lbas w xs)" and ys = "dir_lbas w xs"
      and disk = disk and w = w, OF length_slots_at]
  have r0: "r = first_hit body (slots_at disk w (cluster_lbas w x) @ slots_at disk w (dir_lbas w xs))"
    using Cons.prems(3) sl by simp
  show ?case
  proof (cases ?r1)
    case (Some ia)
    then obtain b where "hit_result ?r1 = Some b"
      using first_hit_Some_not_Go_On by (cases ia; cases "snd ia") (auto simp: hit_result_def)
    then show ?thesis
      using Some w1 lt c(1) parts
      by (auto simp: scan_chain.simps [of body disk x w] r0 dir_lbas_Cons)
  next
    case None
    then have q1: "quiet w w1" using w1(2) by simp
    note f1 = quiet_fields [OF q1] quiet_fat [OF q1]
    have ok1: "fat_ok disk w1" using Cons.prems(1) quiet_fat_ok [OF q1] by simp
    let ?next = "if FAT32_CLUSTER_LAST \<le> fat disk w x then FAT32_INVALID_CLUSTER else fat disk w x"
    have nx: "fat32_next_cluster disk x w1 = (?next, tick w1)"
      using next_cluster_ok [OF ok1] c(2) f1 by simp
    have q2: "quiet w (tick w1)" using q1 quiet_trans quiet_tick by blast
    show ?thesis
    proof (cases "xs = []")
      case True
      then have "?next = FAT32_INVALID_CLUSTER" using Cons.prems(2) by simp
      then have "scan_chain body disk c w = Some (None, tick w1)"
        using w1(1) None lt c(1) nx
        by (simp add: scan_chain.simps [of body disk x w]
            scan_chain.simps [of body disk FAT32_INVALID_CLUSTER])
      then show ?thesis
        using True None parts q2 by (simp add: r0 dir_lbas_Cons)
    next
      case False
      then have ch: "fat32_next_cluster disk x w1 = (fat disk w x, tick w1)"
        "fat_chain (fat disk w) (valid_cluster (fat32_fs w)) (fat disk w x) xs"
        using Cons.prems(2) nx by (auto simp: not_le [symmetric])
      have ok2: "fat_ok disk (tick w1)" using ok1 by simp
      have fs2: "fat32_fs (tick w1) = fat32_fs w" using f1 by simp
      note cong2 = quiet_slots_at [OF q2] dir_lbas_cong [OF fs2]
      obtain w' where w': "scan_chain body disk (fat disk w x) (tick w1) =
          Some (hit_result (first_hit body (slots_at disk w (dir_lbas w xs))), w')"
        "quiet (apply_hit disk (dir_lbas w xs) (first_hit body (slots_at disk w (dir_lbas w xs))) (tick w1)) w'"
        using Cons.IH [OF ok2, of "fat disk w x"] ch(2) f1 cong2 by auto
      have "quiet (apply_hit disk (dir_lbas w xs) (first_hit body (slots_at disk w (dir_lbas w xs))) w) w'"
        using quiet_trans [OF quiet_apply_hit [OF q2] w'(2)] .
      then show ?thesis
        using w1(1) None lt c(1) ch(1) w'(1) parts
        by (simp add: scan_chain.simps [of body disk x w] r0 dir_lbas_Cons)
    qed
  qed
qed

end
