(* ===== verification/DirFind.thy ===== *)
theory DirFind
  imports DirScan
begin

text \<open>
  The abstract directory: the entries a reader sees, which are the slots up to the end mark that
  are neither deleted nor long-name or volume entries. \<open>directory_next\<close> enumerates exactly these,
  in order, across sectors and clusters, and \<open>directory_find_in_cluster\<close> is a search in this list.
\<close>

section \<open>Visible slots\<close>

definition live_slot :: "u8 list \<Rightarrow> bool" where
  "live_slot s \<longleftrightarrow> s ! 0 \<noteq> 0xE5 \<and> de_attributes (decode_dirent s) \<noteq> FAT32_ATTR_LFN \<and>
     de_attributes (decode_dirent s) AND FAT32_ATTR_VOLUME_ID = 0"

definition visible :: "u8 list list \<Rightarrow> u8 list list" where
  "visible ss = filter live_slot (takeWhile (\<lambda>s. s ! 0 \<noteq> 0) ss)"

definition dir_entries :: "u8 list list \<Rightarrow> dirent list" where
  "dir_entries ss = map decode_dirent (visible ss)"

lemma visible_simps [simp]:
  "visible [] = []"
  "visible (s # ss) = (if s ! 0 = 0 then [] else if live_slot s then s # visible ss else visible ss)"
  by (simp_all add: visible_def)

lemma visible_append:
  "visible (xs @ ys) = visible xs @ (if \<forall>s \<in> set xs. s ! 0 \<noteq> 0 then visible ys else [])"
  by (induction xs) auto

lemma first_byte [simp]: "de_name (decode_dirent s) ! 0 = s ! 0"
  by (simp add: decode_dirent_def)

section \<open>The inner loop\<close>

fun next_of :: "u8 list list \<Rightarrow> nat \<Rightarrow> next_slot" where
  "next_of [] i = Sector_Done"
| "next_of (s # ss) i =
     (if s ! 0 = 0 then End_Mark
      else if live_slot s then Entry (decode_dirent s) (Suc i)
      else next_of ss (Suc i))"

lemma next_in_sector_eq: "i \<le> 16 \<Longrightarrow> next_in_sector sector i = next_of (drop i (slots sector)) i"
proof (induction "16 - i" arbitrary: i)
  case 0
  then have "i = 16" by simp
  then show ?case by (subst next_in_sector.simps) simp
next
  case (Suc n)
  then have i: "i < 16" by simp
  then have d: "drop i (slots sector) = slot_at sector i # drop (Suc i) (slots sector)"
    by (subst Cons_nth_drop_Suc [symmetric]) auto
  have "next_in_sector sector (Suc i) = next_of (drop (Suc i) (slots sector)) (Suc i)"
    using Suc.hyps(1) [of "Suc i"] Suc.hyps(2) i by simp
  then show ?case
    using i by (simp add: next_in_sector.simps [of sector i] d live_slot_def Let_def)
qed

lemma next_of_End: "next_of ss i = End_Mark \<Longrightarrow> visible (ss @ rest) = []"
  by (induction ss arbitrary: i) (auto split: if_splits)

lemma next_of_Done: "next_of ss i = Sector_Done \<Longrightarrow> visible (ss @ rest) = visible rest"
  by (induction ss arbitrary: i) (auto split: if_splits)

lemma next_of_Entry:
  "next_of ss i = Entry e j \<Longrightarrow>
   \<exists>s. e = decode_dirent s \<and> i < j \<and> j \<le> i + length ss \<and>
     visible (ss @ rest) = s # visible (drop (j - i) ss @ rest)"
proof (induction ss arbitrary: i)
  case Nil
  then show ?case by simp
next
  case (Cons s ss)
  show ?case
  proof (cases "live_slot s")
    case True
    then show ?thesis using Cons.prems by (auto split: if_splits)
  next
    case False
    then have n: "next_of ss (Suc i) = Entry e j" "s ! 0 \<noteq> 0"
      using Cons.prems by (auto split: if_splits)
    obtain t where t: "e = decode_dirent t" "Suc i < j" "j \<le> Suc i + length ss"
      "visible (ss @ rest) = t # visible (drop (j - Suc i) ss @ rest)"
      using Cons.IH [OF n(1)] by blast
    have "drop (j - i) (s # ss) = drop (j - Suc i) ss"
      using t(2) by (simp add: drop_Cons' Suc_diff_Suc)
    then show ?thesis using t n False by auto
  qed
qed

section \<open>Where an open directory stands\<close>

text \<open>The slots that an open directory has still to deliver, and the sectors it has still to read.\<close>

definition dir_at ::
  "disk_t option \<Rightarrow> 'a fat_state_scheme \<Rightarrow> directory_t \<Rightarrow> u32 list \<Rightarrow> u8 list list \<Rightarrow> bool" where
  "dir_at disk w dir ls ss \<longleftrightarrow>
     (\<exists>x xs k. dir_disk dir = disk \<and> dir_current_cluster dir = x \<and> dir_sector_index dir = of_nat k \<and>
        fat_chain (fat disk w) (valid_cluster (fat32_fs w)) x (x # xs) \<and>
        k < unat (sectors_per_cluster (fat32_fs w)) \<and>
        dir_entry_index dir \<le> 16 \<and>
        ls = drop (Suc k) (cluster_lbas w x) @ dir_lbas w xs \<and>
        ss = drop (dir_entry_index dir) (slots (dir_sector dir)) @ slots_at disk w ls)"

lemma dir_atI:
  assumes "dir_disk dir = disk" "dir_sector_index dir = of_nat k"
    and "fat_chain (fat disk w) (valid_cluster (fat32_fs w)) (dir_current_cluster dir)
      (dir_current_cluster dir # xs)"
    and "k < unat (sectors_per_cluster (fat32_fs w))" "dir_entry_index dir \<le> 16"
    and "ls = drop (Suc k) (cluster_lbas w (dir_current_cluster dir)) @ dir_lbas w xs"
    and "ss = drop (dir_entry_index dir) (slots (dir_sector dir)) @ slots_at disk w ls"
  shows "dir_at disk w dir ls ss"
  unfolding dir_at_def using assms by blast

lemma unat_spc_less: "unat (sectors_per_cluster fs) < 256"
  using unsigned_less [where ?'a = nat, of "sectors_per_cluster fs"] by simp

lemma length_cluster_lbas [simp]:
  "length (cluster_lbas w c) = unat (sectors_per_cluster (fat32_fs w))"
  by (simp add: cluster_lbas_def)

lemma nth_cluster_lbas [simp]:
  "k < unat (sectors_per_cluster (fat32_fs w)) \<Longrightarrow>
   cluster_lbas w c ! k = fat32_cluster_to_sector c w + of_nat k"
  by (simp add: cluster_lbas_def)

lemma dir_at_quiet:
  assumes "quiet w w'" "dir_at disk w dir ls ss"
  shows "dir_at disk w' dir ls ss"
proof -
  have "cluster_lbas w' = cluster_lbas w" "dir_lbas w' = dir_lbas w"
    using cluster_lbas_cong dir_lbas_cong quiet_fields(1) [OF assms(1)] by blast+
  then show ?thesis
    using assms(2) quiet_fields(1) [OF assms(1)] quiet_fat [OF assms(1)] quiet_slots_at [OF assms(1)]
    by (simp add: dir_at_def)
qed

lemma quiet_fat_okI: "quiet w w' \<Longrightarrow> fat_ok disk w \<Longrightarrow> fat_ok disk w'"
  by (simp add: quiet_fat_ok)

lemma dir_at_skip:
  assumes "dir_at disk w dir ls ss" "dir_entry_index dir \<le> j" "j \<le> 16"
  shows "dir_at disk w (dir\<lparr>dir_entry_index := j\<rparr>) ls (drop (j - dir_entry_index dir) ss)"
proof -
  let ?i = "dir_entry_index dir"
  obtain x xs k where a: "dir_disk dir = disk" "dir_current_cluster dir = x"
    "dir_sector_index dir = of_nat k" "fat_chain (fat disk w) (valid_cluster (fat32_fs w)) x (x # xs)"
    "k < unat (sectors_per_cluster (fat32_fs w))" "?i \<le> 16"
    "ls = drop (Suc k) (cluster_lbas w x) @ dir_lbas w xs"
    "ss = drop ?i (slots (dir_sector dir)) @ slots_at disk w ls"
    using assms(1) unfolding dir_at_def by blast
  have "j - ?i - (16 - ?i) = 0" using assms(3) by simp
  then have "drop (j - ?i) ss = drop j (slots (dir_sector dir)) @ slots_at disk w ls"
    using assms(2) unfolding a(8) drop_append by simp
  then show ?thesis
    using a assms(3) by (intro dir_atI [where k = k and xs = xs]) simp_all
qed

text \<open>The step to the next sector, in the same cluster or in the next one.\<close>

lemma dir_at_done:
  assumes ok: "fat_ok disk w" and at: "dir_at disk w dir ls ss"
    and fin: "next_in_sector (dir_sector dir) (dir_entry_index dir) = Sector_Done"
  shows "(ls = [] \<longrightarrow> (\<exists>dir' w'. directory_next dir w = Some (None, dir', w') \<and> quiet w w')) \<and>
    (\<forall>l ls'. ls = l # ls' \<longrightarrow> (\<exists>dir' w'. directory_next dir w = directory_next dir' w' \<and>
       quiet w w' \<and> dir_at disk w' dir' ls' (slots_at disk w ls)))"
proof -
  have g: "geometry_ok disk (fat32_fs w)" "healthy w" using ok by (simp_all add: fat_ok_def)
  let ?spc = "unat (sectors_per_cluster (fat32_fs w))"
  obtain x xs k where a: "dir_disk dir = disk" "dir_current_cluster dir = x"
    "dir_sector_index dir = of_nat k" "fat_chain (fat disk w) (valid_cluster (fat32_fs w)) x (x # xs)"
    "k < ?spc" "ls = drop (Suc k) (cluster_lbas w x) @ dir_lbas w xs"
    using at by (auto simp: dir_at_def)
  have vx: "valid_cluster (fat32_fs w) x" using a(4) by simp
  have kk: "dir_sector_index dir + 1 = of_nat (Suc k)" using a(3) by simp
  have less: "(of_nat (Suc k) :: u32) < ucast (sectors_per_cluster (fat32_fs w)) \<longleftrightarrow> Suc k < ?spc"
  proof -
    have "unat (of_nat (Suc k) :: u32) = Suc k"
      using a(5) unat_spc_less [of "fat32_fs w"] by (simp add: unat_of_nat del: of_nat_Suc)
    then show ?thesis by (simp add: word_less_nat_alt del: of_nat_Suc)
  qed
  show ?thesis
  proof (cases "Suc k < ?spc")
    case True
    let ?l = "fat32_cluster_to_sector x w + of_nat (Suc k)"
    have ls: "ls = ?l # drop (Suc (Suc k)) (cluster_lbas w x) @ dir_lbas w xs"
      using True by (simp add: a(6) Cons_nth_drop_Suc [symmetric] del: of_nat_Suc)
    have "?l \<in> set (cluster_lbas w x)" using True nth_mem [of "Suc k" "cluster_lbas w x"] by simp
    then have "disk_read disk ?l w = (Some (sec disk w ?l), tick w)"
      using cluster_lbas_ok(1) [OF g(1) vx] g(2) by (simp add: disk_read_ok)
    then have "directory_next dir w = directory_next (dir\<lparr>dir_entry_index := 0,
        dir_sector_index := of_nat (Suc k), dir_sector := sec disk w ?l\<rparr>) (tick w)"
      using fin True less a(1,2) kk
      by (subst directory_next.simps) (simp add: Let_def del: of_nat_Suc)
    moreover have "dir_at disk (tick w) (dir\<lparr>dir_entry_index := 0,
        dir_sector_index := of_nat (Suc k), dir_sector := sec disk w ?l\<rparr>)
        (drop (Suc (Suc k)) (cluster_lbas w x) @ dir_lbas w xs) (slots_at disk w ls)"
      using True a ls
      by (intro dir_at_quiet [OF quiet_tick] dir_atI [where k = "Suc k" and xs = xs])
        (simp_all add: slots_at_Cons del: of_nat_Suc fat_chain.simps)
    ultimately have "\<exists>dir' w'. directory_next dir w = directory_next dir' w' \<and> quiet w w' \<and>
        dir_at disk w' dir' (drop (Suc (Suc k)) (cluster_lbas w x) @ dir_lbas w xs) (slots_at disk w ls)"
      using quiet_tick by blast
    then show ?thesis unfolding ls by (simp del: of_nat_Suc)
  next
    case False
    then have last: "drop (Suc k) (cluster_lbas w x) = []" by simp
    show ?thesis
    proof (cases "xs = []")
      case True
      then have "fat32_next_cluster disk x w = (FAT32_INVALID_CLUSTER, tick w)"
        using a(4) vx next_cluster_ok [OF ok] by simp
      then have "\<exists>dir' w'. directory_next dir w = Some (None, dir', w') \<and> quiet w w'"
        using fin False less a(1,2) kk
        by (subst directory_next.simps) (simp add: Let_def quiet_tick del: of_nat_Suc)
      then show ?thesis using a(6) last True by simp
    next
      case f: False
      let ?y = "fat disk w x"
      have ch: "fat_chain (fat disk w) (valid_cluster (fat32_fs w)) ?y xs" "?y < FAT32_CLUSTER_LAST"
        using a(4) f by simp_all
      then obtain ys where ys: "xs = ?y # ys" by (cases xs) auto
      then have vy: "valid_cluster (fat32_fs w) ?y" using ch(1) by simp
      have nx: "fat32_next_cluster disk x w = (?y, tick w)"
        using ch(2) vx by (simp add: next_cluster_ok [OF ok] not_le [symmetric])
      have ne: "?y \<noteq> FAT32_INVALID_CLUSTER" by (rule fat_not_invalid)
      let ?l = "fat32_cluster_to_sector ?y w"
      have spc: "0 < ?spc" using a(5) by simp
      have cl: "cluster_lbas w ?y = ?l # drop 1 (cluster_lbas w ?y)"
        using spc Cons_nth_drop_Suc [of 0 "cluster_lbas w ?y"] by simp
      then have "?l \<in> set (cluster_lbas w ?y)" by (metis list.set_intros(1))
      then have rd: "disk_read disk ?l (tick w) = (Some (sec disk w ?l), tick (tick w))"
        using cluster_lbas_ok(1) [OF g(1) vy] g(2) disk_read_ok [of "tick w" disk ?l] by simp
      have cs: "fat32_cluster_to_sector ?y (tick w) = ?l" by (simp add: fat32_cluster_to_sector_def)
      have ls: "ls = ?l # drop 1 (cluster_lbas w ?y) @ dir_lbas w ys"
        using a(6) last ys cl dir_lbas_Cons [of w ?y ys] by (metis append_Cons append_Nil)
      have sla: "slots_at disk w ls = slots (sec disk w ?l)
          @ slots_at disk w (drop 1 (cluster_lbas w ?y) @ dir_lbas w ys)"
        unfolding ls by (simp add: slots_at_Cons)
      let ?d = "dir\<lparr>dir_current_cluster := ?y, dir_sector_index := 0, dir_entry_index := 0,
          dir_sector := sec disk w ?l\<rparr>"
      have "directory_next dir w = directory_next ?d (tick (tick w))"
        using fin False less a(1,2) kk nx ne rd cs
        by (subst directory_next.simps) (simp add: Let_def del: of_nat_Suc)
      moreover have "dir_at disk (tick (tick w)) ?d (drop 1 (cluster_lbas w ?y) @ dir_lbas w ys)
          (slots_at disk w ls)"
        using a(1) ch ys spc sla
        by (intro dir_at_quiet [of w "tick (tick w)"] quiet_trans [OF quiet_tick quiet_tick]
            dir_atI [where k = 0 and xs = ys])
          (simp_all del: fat_chain.simps)
      ultimately have "\<exists>dir' w'. directory_next dir w = directory_next dir' w' \<and> quiet w w' \<and>
          dir_at disk w' dir' (drop 1 (cluster_lbas w ?y) @ dir_lbas w ys) (slots_at disk w ls)"
        using quiet_trans [OF quiet_tick quiet_tick] by blast
      then show ?thesis unfolding ls by simp
    qed
  qed
qed

section \<open>What the iteration delivers\<close>

definition delivers ::
  "disk_t option \<Rightarrow> 'a fat_state_scheme \<Rightarrow> directory_t \<Rightarrow> u8 list list \<Rightarrow> bool" where
  "delivers disk w dir vs \<longleftrightarrow>
     (\<exists>dir' w'. quiet w w' \<and>
       (case vs of
          [] \<Rightarrow> directory_next dir w = Some (None, dir', w')
        | s # rest \<Rightarrow> directory_next dir w = Some (Some (decode_dirent s), dir', w') \<and>
            (\<exists>ls' ss'. dir_at disk w' dir' ls' ss' \<and> visible ss' = rest)))"

lemma delivers_in_sector:
  assumes "dir_at disk w dir ls ss"
    and "next_in_sector (dir_sector dir) (dir_entry_index dir) \<noteq> Sector_Done"
  shows "delivers disk w dir (visible ss)"
proof -
  let ?i = "dir_entry_index dir"
  let ?s = "drop ?i (slots (dir_sector dir))"
  have i: "?i \<le> 16" and ss: "ss = ?s @ slots_at disk w ls"
    using assms(1) unfolding dir_at_def by blast+
  note nx = next_in_sector_eq [OF i, of "dir_sector dir"]
  show ?thesis
  proof (cases "next_in_sector (dir_sector dir) ?i")
    case End_Mark
    then have "directory_next dir w = Some (None, dir, w)" by (simp add: directory_next.simps)
    moreover have "visible ss = []" using next_of_End [of ?s ?i] End_Mark nx ss by simp
    ultimately show ?thesis by (auto simp: delivers_def)
  next
    case (Entry e j)
    then obtain s where s: "e = decode_dirent s" "?i < j" "j \<le> ?i + length ?s"
      "visible ss = s # visible (drop (j - ?i) ?s @ slots_at disk w ls)"
      using next_of_Entry [of ?s ?i e j "slots_at disk w ls"] nx ss by auto
    have j: "j \<le> 16" using s(3) i by simp
    have "drop (j - ?i) ss = drop (j - ?i) ?s @ slots_at disk w ls"
      using s(3) unfolding ss drop_append by simp
    moreover have "dir_at disk w (dir\<lparr>dir_entry_index := j\<rparr>) ls (drop (j - ?i) ss)"
      using dir_at_skip [OF assms(1), of j] s(2) j by simp
    moreover have "directory_next dir w = Some (Some e, dir\<lparr>dir_entry_index := j\<rparr>, w)"
      using Entry by (simp add: directory_next.simps)
    ultimately show ?thesis
      using s by (fastforce simp: delivers_def)
  qed (use assms(2) in simp)
qed

lemma visible_done:
  assumes "dir_at disk w dir ls ss"
    and "next_in_sector (dir_sector dir) (dir_entry_index dir) = Sector_Done"
  shows "visible ss = visible (slots_at disk w ls)"
proof -
  have i: "dir_entry_index dir \<le> 16"
    and ss: "ss = drop (dir_entry_index dir) (slots (dir_sector dir)) @ slots_at disk w ls"
    using assms(1) unfolding dir_at_def by blast+
  show ?thesis
    using next_of_Done [of "drop (dir_entry_index dir) (slots (dir_sector dir))" "dir_entry_index dir"]
      assms(2) next_in_sector_eq [OF i] ss by simp
qed

lemma directory_next_ok:
  assumes "fat_ok disk w" "dir_at disk w dir ls ss"
  shows "delivers disk w dir (visible ss)"
  using assms
proof (induction ls arbitrary: w dir ss)
  case Nil
  then show ?case
    using delivers_in_sector [OF Nil.prems(2)] visible_done [OF Nil.prems(2)]
      dir_at_done [OF Nil.prems]
    by (cases "next_in_sector (dir_sector dir) (dir_entry_index dir) = Sector_Done")
      (auto simp: delivers_def)
next
  case (Cons l ls)
  show ?case
  proof (cases "next_in_sector (dir_sector dir) (dir_entry_index dir) = Sector_Done")
    case False
    then show ?thesis using delivers_in_sector [OF Cons.prems(2)] by simp
  next
    case True
    obtain dir' w' where d: "directory_next dir w = directory_next dir' w'" "quiet w w'"
      "dir_at disk w' dir' ls (slots_at disk w (l # ls))"
      using dir_at_done [OF Cons.prems True] by blast
    have "delivers disk w' dir' (visible ss)"
      using Cons.IH [OF quiet_fat_okI [OF d(2) Cons.prems(1)] d(3)]
        visible_done [OF Cons.prems(2) True] by simp
    then show ?thesis
      unfolding delivers_def d(1) by (meson quiet_trans [OF d(2)])
  qed
qed

lemma find_loop_ok:
  assumes "fat_ok disk w" "dir_at disk w dir ls ss"
  shows "\<exists>w'. quiet w w' \<and>
    find_loop name dir w = Some (find (\<lambda>e. str_eq (directory_get_name e) name) (dir_entries ss), w')"
  using assms
proof (induction "visible ss" arbitrary: w dir ls ss)
  case Nil
  then show ?case
    using directory_next_ok [OF Nil.prems]
    by (auto simp: delivers_def dir_entries_def find_loop.simps [of name dir w] split: list.splits)
next
  case (Cons s rest)
  obtain dir' w' ls' ss' where d: "quiet w w'"
    "directory_next dir w = Some (Some (decode_dirent s), dir', w')"
    "dir_at disk w' dir' ls' ss'" "visible ss' = rest"
    using directory_next_ok [OF Cons.prems] unfolding delivers_def Cons.hyps(2) [symmetric]
    by auto
  obtain w'' where "quiet w' w''"
    "find_loop name dir' w' = Some (find (\<lambda>e. str_eq (directory_get_name e) name) (dir_entries ss'), w'')"
    using Cons.hyps(1) [OF _ quiet_fat_okI [OF d(1) Cons.prems(1)] d(3)] d(4) by blast
  then show ?case
    using d quiet_trans [OF d(1)] Cons.hyps(2) [symmetric]
    by (auto simp: find_loop.simps [of name dir w] dir_entries_def)
qed

definition dir_slots :: "disk_t option \<Rightarrow> 'a fat_state_scheme \<Rightarrow> u32 list \<Rightarrow> u8 list list" where
  "dir_slots disk w xs = slots_at disk w (dir_lbas w xs)"

lemma open_ok:
  assumes "fat_ok disk w" "fat_chain (fat disk w) (valid_cluster (fat32_fs w)) c xs"
  shows "\<exists>dir w' ls. directory_open disk c w = (Some dir, w') \<and> quiet w w' \<and>
    dir_at disk w' dir ls (dir_slots disk w xs)"
proof -
  have g: "geometry_ok disk (fat32_fs w)" "healthy w" using assms(1) by (simp_all add: fat_ok_def)
  obtain ys where ys: "xs = c # ys" using assms(2) by (cases xs) auto
  then have v: "valid_cluster (fat32_fs w) c" using assms(2) by simp
  have spc: "0 < unat (sectors_per_cluster (fat32_fs w))" using geometry_okD(2) [OF g(1)] .
  let ?l = "fat32_cluster_to_sector c w"
  have cl: "cluster_lbas w c = ?l # drop 1 (cluster_lbas w c)"
    using spc Cons_nth_drop_Suc [of 0 "cluster_lbas w c"] by simp
  then have "?l \<in> set (cluster_lbas w c)" by (metis list.set_intros(1))
  then have rd: "disk_read disk ?l w = (Some (sec disk w ?l), tick w)"
    using cluster_lbas_ok(1) [OF g(1) v] g(2) by (simp add: disk_read_ok)
  have sl: "dir_slots disk w xs =
      slots (sec disk w ?l) @ slots_at disk w (drop 1 (cluster_lbas w c) @ dir_lbas w ys)"
    unfolding dir_slots_def ys dir_lbas_Cons by (subst cl) (simp add: slots_at_Cons)
  let ?d = "\<lparr>dir_disk = disk, dir_cluster = c, dir_current_cluster = c,
     dir_sector = sec disk w ?l, dir_sector_index = 0, dir_entry_index = 0\<rparr>"
  have "dir_at disk w ?d (drop 1 (cluster_lbas w c) @ dir_lbas w ys) (dir_slots disk w xs)"
    using assms(2) ys spc by (intro dir_atI [where k = 0 and xs = ys]) (simp_all add: sl [unfolded ys])
  then have "dir_at disk (tick w) ?d (drop 1 (cluster_lbas w c) @ dir_lbas w ys) (dir_slots disk w xs)"
    by (rule dir_at_quiet [OF quiet_tick])
  moreover have "directory_open disk c w = (Some ?d, tick w)"
    using rd fat_ok_not_None [OF assms(1)] by (simp add: directory_open_def)
  ultimately show ?thesis using quiet_tick by blast
qed

lemma find_in_cluster_ok:
  assumes "fat_ok disk w" "fat_chain (fat disk w) (valid_cluster (fat32_fs w)) c xs"
  shows "\<exists>w'. quiet w w' \<and> directory_find_in_cluster disk c name w =
    Some (find (\<lambda>e. str_eq (directory_get_name e) name) (dir_entries (dir_slots disk w xs)), w')"
proof -
  obtain dir w1 ls where o: "directory_open disk c w = (Some dir, w1)" "quiet w w1"
    "dir_at disk w1 dir ls (dir_slots disk w xs)"
    using open_ok [OF assms] by blast
  obtain w2 where "quiet w1 w2" "find_loop name dir w1 =
      Some (find (\<lambda>e. str_eq (directory_get_name e) name) (dir_entries (dir_slots disk w xs)), w2)"
    using find_loop_ok [OF quiet_fat_okI [OF o(2) assms(1)] o(3)] by blast
  then show ?thesis
    using o quiet_trans [OF o(2)] fat_ok_not_None [OF assms(1)]
    by (auto simp: directory_find_in_cluster_def)
qed

end
