(* ===== verification/DirList.thy ===== *)
theory DirList
  imports DirFind "HOL-Library.Multiset"
begin

text \<open>
  Directories as lists of slots, without the disk: which slot each loop body acts on first and what
  that does to the visible entries. \<open>DirSpec\<close> lifts these facts to the disk.
\<close>

section \<open>Well-formed lists of slots\<close>

text \<open>
  \<open>plain_slot\<close>: the volume bit only occurs in volume labels and long-name entries. On other slots
  \<open>directory_next\<close>, which tests the bit, and the other loops, which compare the whole byte,
  disagree. \<open>clean_tail\<close>: behind an end mark there are only end marks.
\<close>

definition plain_slot :: "u8 list \<Rightarrow> bool" where
  "plain_slot s \<longleftrightarrow> length s = 32 \<and>
     (de_attributes (decode_dirent s) AND FAT32_ATTR_VOLUME_ID \<noteq> 0 \<longrightarrow>
        de_attributes (decode_dirent s) \<in> {FAT32_ATTR_VOLUME_ID, FAT32_ATTR_LFN})"

fun clean_tail :: "u8 list list \<Rightarrow> bool" where
  "clean_tail [] \<longleftrightarrow> True"
| "clean_tail (s # ss) \<longleftrightarrow> (if s ! 0 = 0 then \<forall>t \<in> set ss. t ! 0 = 0 else clean_tail ss)"

definition dir_wf :: "u8 list list \<Rightarrow> bool" where
  "dir_wf ss \<longleftrightarrow> (\<forall>s \<in> set ss. plain_slot s) \<and> clean_tail ss"

definition entry_wf :: "dirent \<Rightarrow> bool" where
  "entry_wf e \<longleftrightarrow> length (de_name e) = 11 \<and> de_name e ! 0 \<noteq> 0 \<and> de_name e ! 0 \<noteq> 0xE5 \<and>
     de_attributes e AND FAT32_ATTR_VOLUME_ID = 0"

lemma lfn_volume: "(FAT32_ATTR_LFN AND FAT32_ATTR_VOLUME_ID :: u8) \<noteq> 0" by simp

lemma entry_slot:
  assumes "entry_wf e"
  shows "length (encode_dirent e) = 32" "decode_dirent (encode_dirent e) = e"
    "encode_dirent e ! 0 = de_name e ! 0" "live_slot (encode_dirent e)" "plain_slot (encode_dirent e)"
proof -
  show l: "length (encode_dirent e) = 32" "decode_dirent (encode_dirent e) = e"
    "encode_dirent e ! 0 = de_name e ! 0"
    using assms by (simp_all add: entry_wf_def length_encode_dirent decode_encode encode_nth(1))
  show "live_slot (encode_dirent e)" "plain_slot (encode_dirent e)"
    using assms l lfn_volume by (auto simp: live_slot_def plain_slot_def entry_wf_def)
qed

lemma live_plain:
  assumes "plain_slot s"
  shows "live_slot s \<longleftrightarrow> s ! 0 \<noteq> 0xE5 \<and> de_attributes (decode_dirent s) \<noteq> FAT32_ATTR_LFN \<and>
    de_attributes (decode_dirent s) \<noteq> FAT32_ATTR_VOLUME_ID"
  using assms by (auto simp: live_slot_def plain_slot_def)

lemma dir_wf_Cons: "dir_wf (s # ss) \<Longrightarrow> plain_slot s"
  by (simp add: dir_wf_def)

lemma clean_tail_zero: "\<forall>t \<in> set ss. t ! 0 = 0 \<Longrightarrow> clean_tail ss \<and> visible ss = []"
  by (cases ss) auto

lemma visible_update:
  assumes "i < length ss" "\<And>j. j < i \<Longrightarrow> ss ! j ! 0 \<noteq> 0"
  shows "visible ss = visible (take i ss) @ visible (drop i ss)"
    and "visible (ss[i := x]) = visible (take i ss) @ visible (x # drop (Suc i) ss)"
proof -
  have nz: "\<forall>s \<in> set (take i ss). s ! 0 \<noteq> 0"
    using assms by (auto simp: in_set_conv_nth)
  show "visible ss = visible (take i ss) @ visible (drop i ss)"
    using visible_append [of "take i ss" "drop i ss"] nz by simp
  show "visible (ss[i := x]) = visible (take i ss) @ visible (x # drop (Suc i) ss)"
    using visible_append [of "take i ss" "x # drop (Suc i) ss"] nz assms(1)
    by (simp add: upd_conv_take_nth_drop)
qed

lemma clean_tail_update:
  assumes "clean_tail ss" "i < length ss" "\<And>j. j < i \<Longrightarrow> ss ! j ! 0 \<noteq> 0" "x ! 0 \<noteq> 0"
  shows "clean_tail (ss[i := x])"
  using assms
proof (induction ss arbitrary: i)
  case Nil
  then show ?case by simp
next
  case (Cons s ss)
  show ?case
  proof (cases i)
    case 0
    then show ?thesis using Cons.prems clean_tail_zero [of ss] by (auto split: if_splits)
  next
    case (Suc k)
    then have "s ! 0 \<noteq> 0" using Cons.prems(3) [of 0] by simp
    moreover have "clean_tail (ss[k := x])"
      using Cons.prems Cons.IH [of k] Suc \<open>s ! 0 \<noteq> 0\<close> by fastforce
    ultimately show ?thesis using Suc by simp
  qed
qed

lemma dir_wf_update:
  assumes "dir_wf ss" "i < length ss" "\<And>j. j < i \<Longrightarrow> ss ! j ! 0 \<noteq> 0" "x ! 0 \<noteq> 0" "plain_slot x"
  shows "dir_wf (ss[i := x])"
  using assms clean_tail_update [of ss i x] set_update_subset_insert [of ss i x]
  by (auto simp: dir_wf_def)

section \<open>The loops with the common guards\<close>

lemma guarded_hit:
  assumes "\<forall>s \<in> set ss. plain_slot s" "find (\<lambda>s. body s \<noteq> Go_On) (visible ss) = Some s"
  shows "\<exists>i < length ss. first_hit (guarded at_end body) ss = Some (i, body s) \<and> ss ! i = s \<and>
    live_slot s \<and> body s \<noteq> Go_On \<and> (\<forall>j \<le> i. ss ! j ! 0 \<noteq> 0) \<and>
    (\<forall>t \<in> set (visible (take i ss)). body t = Go_On)"
  using assms
proof (induction ss)
  case Nil
  then show ?case by simp
next
  case (Cons t ss)
  have nz: "t ! 0 \<noteq> 0" using Cons.prems(2) by (auto split: if_splits)
  have live: "live_slot t \<longleftrightarrow> t ! 0 \<noteq> 0xE5 \<and> de_attributes (decode_dirent t) \<noteq> FAT32_ATTR_LFN \<and>
    de_attributes (decode_dirent t) \<noteq> FAT32_ATTR_VOLUME_ID"
    using Cons.prems(1) live_plain by simp
  show ?case
  proof (cases "live_slot t \<and> body t \<noteq> Go_On")
    case True
    then show ?thesis
      using Cons.prems nz live by (intro exI [of _ 0]) (simp add: guarded_def)
  next
    case False
    then have "find (\<lambda>s. body s \<noteq> Go_On) (visible ss) = Some s"
      using Cons.prems(2) nz by (auto split: if_splits)
    then obtain i where i: "i < length ss" "first_hit (guarded at_end body) ss = Some (i, body s)"
      "ss ! i = s" "live_slot s" "body s \<noteq> Go_On" "\<forall>j \<le> i. ss ! j ! 0 \<noteq> 0"
      "\<forall>t \<in> set (visible (take i ss)). body t = Go_On"
      using Cons.IH Cons.prems(1) by auto
    have "guarded at_end body t = Go_On" using False nz live by (auto simp: guarded_def)
    moreover have "\<forall>j \<le> Suc i. (t # ss) ! j ! 0 \<noteq> 0"
      using i(6) nz by (auto simp: nth_Cons split: nat.splits)
    ultimately show ?thesis using i nz False by (intro exI [of _ "Suc i"]) auto
  qed
qed

lemma guarded_miss:
  assumes "\<forall>s \<in> set ss. plain_slot s" "find (\<lambda>s. body s \<noteq> Go_On) (visible ss) = None"
  shows "first_hit (guarded at_end body) ss = None \<or>
    (\<exists>i. first_hit (guarded at_end body) ss = Some (i, Return at_end))"
  using assms
proof (induction ss)
  case Nil
  then show ?case by simp
next
  case (Cons t ss)
  have live: "live_slot t \<longleftrightarrow> t ! 0 \<noteq> 0xE5 \<and> de_attributes (decode_dirent t) \<noteq> FAT32_ATTR_LFN \<and>
    de_attributes (decode_dirent t) \<noteq> FAT32_ATTR_VOLUME_ID"
    using Cons.prems(1) live_plain by simp
  show ?case
  proof (cases "t ! 0 = 0")
    case True
    then show ?thesis by (simp add: guarded_def)
  next
    case False
    then have "find (\<lambda>s. body s \<noteq> Go_On) (visible ss) = None" "guarded at_end body t = Go_On"
      using Cons.prems(2) live by (auto simp: guarded_def split: if_splits)
    then show ?thesis using Cons.IH Cons.prems(1) by auto
  qed
qed

section \<open>Effects on the entries\<close>

fun replace_first :: "('a \<Rightarrow> bool) \<Rightarrow> 'a list \<Rightarrow> 'a list \<Rightarrow> 'a list" where
  "replace_first P ys [] = []"
| "replace_first P ys (x # xs) = (if P x then ys @ xs else x # replace_first P ys xs)"

lemma replace_first_append:
  "\<forall>x \<in> set xs. \<not> P x \<Longrightarrow> P z \<Longrightarrow> replace_first P ys (xs @ z # zs) = xs @ ys @ zs"
  by (induction xs) auto

lemma replace_first_absent: "\<forall>x \<in> set xs. \<not> P x \<Longrightarrow> replace_first P ys xs = xs"
  by (induction xs) auto

lemma find_map: "find P (map f xs) = map_option f (find (P \<circ> f) xs)"
  by (induction xs) auto

lemma find_None_all: "find P xs = None \<longleftrightarrow> (\<forall>x \<in> set xs. \<not> P x)"
  by (auto simp: find_None_iff)

text \<open>
  A loop whose body stores \<open>g\<close> of the first visible slot whose entry satisfies \<open>P\<close>: if there is
  such an entry it succeeds and the entries change in this one place, otherwise it fails.
\<close>

lemma store_first:
  assumes wf: "dir_wf ss"
    and body: "\<And>s. s \<in> set ss \<Longrightarrow> body s = (if P (decode_dirent s) then Store (g s) else Go_On)"
    and g: "\<And>s. plain_slot s \<Longrightarrow> live_slot s \<Longrightarrow> s ! 0 \<noteq> 0 \<Longrightarrow> g s ! 0 \<noteq> 0 \<and> plain_slot (g s) \<and>
      map decode_dirent (visible [g s]) = new"
  shows "case find P (dir_entries ss) of
      None \<Rightarrow> hit_result (first_hit (guarded False body) ss) \<in> {None, Some False} \<and>
        (\<forall>disk lbas. apply_hit disk lbas (first_hit (guarded False body) ss) (w :: 'a hw_scheme) = w)
    | Some e \<Rightarrow> \<exists>i < length ss. first_hit (guarded False body) ss = Some (i, Store (g (ss ! i))) \<and>
        decode_dirent (ss ! i) = e \<and> length (g (ss ! i)) = 32 \<and>
        dir_wf (ss[i := g (ss ! i)]) \<and>
        dir_entries (ss[i := g (ss ! i)]) = replace_first P new (dir_entries ss)"
proof (cases "find P (dir_entries ss)")
  case None
  have "s \<in> set ss" if "s \<in> set (visible ss)" for s
    using that by (auto simp: visible_def dest: set_takeWhileD)
  then have "find (\<lambda>s. body s \<noteq> Go_On) (visible ss) = None"
    using None body by (auto simp: find_None_all dir_entries_def)
  then have "first_hit (guarded False body) ss = None \<or>
      (\<exists>i. first_hit (guarded False body) ss = Some (i, Return False))"
    using wf guarded_miss [of ss body False] by (simp add: dir_wf_def)
  then show ?thesis using None by auto
next
  case (Some e)
  have sub: "s \<in> set ss" if "s \<in> set (visible ss)" for s
    using that by (auto simp: visible_def dest: set_takeWhileD)
  obtain s where s: "find (P \<circ> decode_dirent) (visible ss) = Some s" "decode_dirent s = e"
    using Some by (auto simp: dir_entries_def find_map)
  have "find (\<lambda>s. body s \<noteq> Go_On) (visible ss) = find (P \<circ> decode_dirent) (visible ss)"
    using sub body by (intro find_cong) auto
  then obtain i where i: "i < length ss" "first_hit (guarded False body) ss = Some (i, body s)"
    "ss ! i = s" "live_slot s" "body s \<noteq> Go_On" "\<forall>j \<le> i. ss ! j ! 0 \<noteq> 0"
    "\<forall>t \<in> set (visible (take i ss)). body t = Go_On"
    using guarded_hit [of ss body s False] wf s by (auto simp: dir_wf_def)
  have in_ss: "s \<in> set ss" using i by auto
  then have P: "P (decode_dirent s)" "body s = Store (g s)" using body i(5) by (auto split: if_splits)
  have ps: "plain_slot s" using wf in_ss by (simp add: dir_wf_def)
  have g': "g s ! 0 \<noteq> 0" "plain_slot (g s)" "map decode_dirent (visible [g s]) = new"
    using g [OF ps i(4)] i(3,6) by auto
  have nz: "ss ! j ! 0 \<noteq> 0" if "j < i" for j using that i(6) by simp
  have v: "visible ss = visible (take i ss) @ s # visible (drop (Suc i) ss)"
    using visible_update(1) [OF i(1) nz] Cons_nth_drop_Suc [OF i(1)] i(3,4,6)
    by (metis order_refl visible_simps(2))
  have "visible (ss[i := g s]) = visible (take i ss) @ visible [g s] @ visible (drop (Suc i) ss)"
    using visible_update(2) [OF i(1) nz, of "g s"] g'(1) by auto
  moreover have "\<not> P (decode_dirent t)" if "t \<in> set (visible (take i ss))" for t
  proof -
    have "t \<in> set ss" using that sub v by auto
    then show ?thesis using i(7) that body by (auto split: if_splits)
  qed
  ultimately have "dir_entries (ss[i := g s]) = replace_first P new (dir_entries ss)"
    using P g'(3) unfolding dir_entries_def v
    by (simp add: replace_first_append)
  moreover have "dir_wf (ss[i := g s])" using dir_wf_update [OF wf i(1) nz g'(1,2)] .
  moreover have "length (g s) = 32" using g'(2) by (simp add: plain_slot_def)
  ultimately show ?thesis using Some s i P by auto
qed

section \<open>Creating\<close>

lemma create_hit:
  assumes wf: "dir_wf ss" and e: "entry_wf e"
  shows "(first_hit (create_body e) ss = None \<and> (\<forall>s \<in> set ss. s ! 0 \<noteq> 0 \<and> s ! 0 \<noteq> 0xE5)) \<or>
    (\<exists>i < length ss. first_hit (create_body e) ss = Some (i, Store (encode_dirent e)) \<and>
       dir_wf (ss[i := encode_dirent e]) \<and>
       mset (dir_entries (ss[i := encode_dirent e])) = add_mset e (mset (dir_entries ss)))"
proof (cases "first_hit (create_body e) ss")
  case None
  then show ?thesis by (auto simp: first_hit_None create_body_def split: if_splits)
next
  case (Some ia)
  then obtain i a where ia: "first_hit (create_body e) ss = Some (i, a)" by (cases ia) auto
  then have i: "i < length ss" "create_body e (ss ! i) = a" "a \<noteq> Go_On"
    "\<forall>j < i. create_body e (ss ! j) = Go_On"
    by (auto simp: first_hit_Some)
  then have a: "a = Store (encode_dirent e)" and free: "ss ! i ! 0 = 0 \<or> ss ! i ! 0 = 0xE5"
    by (auto simp: create_body_def split: if_splits)
  have nz: "ss ! j ! 0 \<noteq> 0" if "j < i" for j
    using i(4) that by (auto simp: create_body_def split: if_splits)
  note slot = entry_slot [OF e]
  have e0: "encode_dirent e ! 0 \<noteq> 0" using slot(3) e by (simp add: entry_wf_def)
  have v': "visible (ss[i := encode_dirent e]) =
      visible (take i ss) @ encode_dirent e # visible (drop (Suc i) ss)"
    using visible_update(2) [OF i(1) nz, of "encode_dirent e"] e0 slot(4) by simp
  have d: "drop i ss = ss ! i # drop (Suc i) ss" using i(1) by (simp add: Cons_nth_drop_Suc)
  have v: "visible ss = visible (take i ss) @ visible (drop (Suc i) ss)"
  proof (cases "ss ! i ! 0 = 0")
    case True
    have "clean_tail (drop i ss)"
      using wf nz i(1) unfolding dir_wf_def
    proof (induction ss arbitrary: i)
      case (Cons s ss)
      then show ?case
      proof (cases i)
        case (Suc k)
        moreover have "s ! 0 \<noteq> 0" using Cons.prems(2) [of 0] Suc by simp
        ultimately show ?thesis
          using Cons.prems Cons.IH [of k] by fastforce
      qed simp
    qed simp
    then have "visible (drop (Suc i) ss) = []"
      using True clean_tail_zero [of "drop (Suc i) ss"] by (simp add: d)
    then show ?thesis using visible_update(1) [OF i(1) nz] True by (simp add: d)
  next
    case False
    then have "\<not> live_slot (ss ! i)" using free by (simp add: live_slot_def)
    then show ?thesis using visible_update(1) [OF i(1) nz] False by (simp add: d)
  qed
  have "mset (dir_entries (ss[i := encode_dirent e])) = add_mset e (mset (dir_entries ss))"
    using slot(2) by (simp add: dir_entries_def v v')
  moreover have "dir_wf (ss[i := encode_dirent e])"
    using dir_wf_update [OF wf i(1) nz e0 slot(5)] .
  ultimately show ?thesis using ia a i(1) by auto
qed

section \<open>Emptiness\<close>

definition empty_listing :: "dirent list \<Rightarrow> bool" where
  "empty_listing es \<longleftrightarrow>
     (\<forall>e \<in> set es. str_eq (directory_get_name e) [0x2E] \<or> str_eq (directory_get_name e) [0x2E, 0x2E])"

lemma empty_hit:
  assumes "dir_wf ss"
  shows "(case hit_result (first_hit empty_body ss) of None \<Rightarrow> True | Some b \<Rightarrow> b)
      = empty_listing (dir_entries ss)"
    and "apply_hit disk lbas (first_hit empty_body ss) w = w"
proof -
  let ?body = "\<lambda>slot. if str_eq (directory_get_name (decode_dirent slot)) [0x2E] then Go_On
     else if str_eq (directory_get_name (decode_dirent slot)) [0x2E, 0x2E] then Go_On
     else Return False"
  have ps: "\<forall>s \<in> set ss. plain_slot s" using assms by (simp add: dir_wf_def)
  have eb: "empty_body = guarded True ?body" by (simp add: empty_body_def)
  have "(case hit_result (first_hit empty_body ss) of None \<Rightarrow> True | Some b \<Rightarrow> b)
      = empty_listing (dir_entries ss) \<and> apply_hit disk lbas (first_hit empty_body ss) w = w"
  proof (cases "find (\<lambda>s. ?body s \<noteq> Go_On) (visible ss)")
    case None
    then have "empty_listing (dir_entries ss)"
      by (auto simp: empty_listing_def dir_entries_def find_None_all split: if_splits)
    then show ?thesis using guarded_miss [OF ps None, of True] unfolding eb by auto
  next
    case (Some s)
    obtain i where i: "first_hit (guarded True ?body) ss = Some (i, ?body s)" "?body s \<noteq> Go_On"
      using guarded_hit [OF ps Some, of True] by blast
    moreover have "s \<in> set (visible ss)" using Some by (auto simp: find_Some_iff)
    ultimately have "\<not> empty_listing (dir_entries ss)"
      by (auto simp: empty_listing_def dir_entries_def split: if_splits)
    then show ?thesis using i unfolding eb by (auto split: if_splits)
  qed
  then show "(case hit_result (first_hit empty_body ss) of None \<Rightarrow> True | Some b \<Rightarrow> b)
      = empty_listing (dir_entries ss)"
    and "apply_hit disk lbas (first_hit empty_body ss) w = w" by simp_all
qed

end
