(* ===== verification/DirSpec.thy ===== *)
theory DirSpec
  imports DirList
begin

text \<open>
  The directory operations of \<open>Directory\<close> against the abstract directory: on a mounted volume whose
  drive answers, and a directory whose cluster chain is well formed, each operation computes the
  list operation of \<open>DirList\<close>, and changes nothing outside the sectors of the directory (and the
  cluster it allocates).
\<close>

section \<open>The sectors of a directory\<close>

lemma in_cluster_disjoint:
  assumes "geometry_ok disk (fat32_fs w)" "valid_cluster (fat32_fs w) c" "valid_cluster (fat32_fs w) d"
    and "in_cluster c w l" "in_cluster d w l"
  shows "c = d"
proof (rule ccontr)
  assume "c \<noteq> d"
  let ?spc = "unat (sectors_per_cluster (fat32_fs w))"
  have 2: "2 \<le> unat c" "2 \<le> unat d" using assms(2,3) by (simp_all add: valid_cluster_def)
  have "unat c - 2 \<noteq> unat d - 2" using \<open>c \<noteq> d\<close> 2 by (auto simp: word_unat_eq_iff)
  then consider "unat c - 2 + 1 \<le> unat d - 2" | "unat d - 2 + 1 \<le> unat c - 2" by linarith
  then have "(unat c - 2 + 1) * ?spc \<le> (unat d - 2) * ?spc \<or> (unat d - 2 + 1) * ?spc \<le> (unat c - 2) * ?spc"
    by (meson mult_le_mono1)
  then show False
    using assms(4,5) cluster_to_sector_ok(1) [OF assms(1,2)] cluster_to_sector_ok(1) [OF assms(1,3)]
    by (simp add: in_cluster_def algebra_simps)
qed

lemma cluster_lbas_distinct:
  assumes "geometry_ok disk (fat32_fs w)" "valid_cluster (fat32_fs w) c"
  shows "distinct (cluster_lbas w c)"
proof -
  have "inj_on (\<lambda>k. fat32_cluster_to_sector c w + of_nat k) {0..<unat (sectors_per_cluster (fat32_fs w))}"
  proof (rule inj_onI)
    fix i j
    assume ij: "i \<in> {0..<unat (sectors_per_cluster (fat32_fs w))}"
      "j \<in> {0..<unat (sectors_per_cluster (fat32_fs w))}"
      and eq: "fat32_cluster_to_sector c w + of_nat i = fat32_cluster_to_sector c w + of_nat j"
    have "unat (fat32_cluster_to_sector c w + of_nat i) = unat (fat32_cluster_to_sector c w) + i"
      "unat (fat32_cluster_to_sector c w + of_nat j) = unat (fat32_cluster_to_sector c w) + j"
      using ij cluster_in_disk(2) [OF assms, of i] cluster_in_disk(2) [OF assms, of j] by simp_all
    then show "i = j" unfolding eq by simp
  qed
  then show ?thesis by (simp add: cluster_lbas_def distinct_map)
qed

lemma dir_lbas_mem:
  assumes "geometry_ok disk (fat32_fs w)" "\<forall>x \<in> set xs. valid_cluster (fat32_fs w) x"
    and "l \<in> set (dir_lbas w xs)"
  shows "in_disk disk l" "first_data_sector (fat32_fs w) \<le> l" "\<exists>x \<in> set xs. in_cluster x w l"
proof -
  obtain x where x: "x \<in> set xs" "l \<in> set (cluster_lbas w x)"
    using assms(3) by (auto simp: dir_lbas_def)
  then show "in_disk disk l" "first_data_sector (fat32_fs w) \<le> l" "\<exists>x \<in> set xs. in_cluster x w l"
    using cluster_lbas_ok [OF assms(1), of x l] assms(2) by blast+
qed

lemma dir_lbas_distinct:
  assumes "geometry_ok disk (fat32_fs w)" "\<forall>x \<in> set xs. valid_cluster (fat32_fs w) x" "distinct xs"
  shows "distinct (dir_lbas w xs)"
  using assms(2,3)
proof (induction xs)
  case Nil
  then show ?case by simp
next
  case (Cons x xs)
  have "l \<notin> set (dir_lbas w xs)" if "l \<in> set (cluster_lbas w x)" for l
  proof
    assume "l \<in> set (dir_lbas w xs)"
    then obtain y where y: "y \<in> set xs" "in_cluster y w l"
      using dir_lbas_mem(3) [OF assms(1), of xs l] Cons.prems(1) by auto
    have "in_cluster x w l" using cluster_lbas_ok(2) [OF assms(1), of x l] that Cons.prems(1) by simp
    then have "x = y" using in_cluster_disjoint [OF assms(1), of x y l] y Cons.prems(1) by simp
    then show False using y(1) Cons.prems(2) by simp
  qed
  then show ?case
    using Cons cluster_lbas_distinct [OF assms(1)] by (auto simp: dir_lbas_Cons)
qed

lemma in_cluster_lbas:
  assumes "in_cluster c w l"
  shows "l \<in> set (cluster_lbas w c)"
proof -
  let ?s = "fat32_cluster_to_sector c w"
  have "l = ?s + of_nat (unat l - unat ?s)" "unat l - unat ?s < unat (sectors_per_cluster (fat32_fs w))"
    using assms by (auto simp: in_cluster_def of_nat_diff)
  then show ?thesis unfolding cluster_lbas_def by (auto intro!: image_eqI)
qed

section \<open>Replacing one slot\<close>

text \<open>What an operation on the directory with these sectors may change.\<close>

definition dir_frame ::
  "disk_t option \<Rightarrow> 'a fat_state_scheme \<Rightarrow> 'a fat_state_scheme \<Rightarrow> u32 list \<Rightarrow> bool" where
  "dir_frame disk w w' lbas \<longleftrightarrow>
     fat_ok disk w' \<and> fat32_fs w' = fat32_fs w \<and> fat_state.more w' = fat_state.more w \<and>
     (\<forall>d. valid_cluster (fat32_fs w) d \<longrightarrow> fat disk w' d = fat disk w d) \<and>
     (\<forall>l. l \<notin> set lbas \<longrightarrow> sec disk w' l = sec disk w l)"

lemma quiet_dir_frame: "fat_ok disk w \<Longrightarrow> quiet w w' \<Longrightarrow> dir_frame disk w w' lbas"
  by (simp add: dir_frame_def quiet_fat_ok quiet_fields quiet_fat quiet_sec)

lemma dir_frame_chain:
  assumes "dir_frame disk w w' lbas"
  shows "fat_chain (fat disk w') (valid_cluster (fat32_fs w)) c xs =
    fat_chain (fat disk w) (valid_cluster (fat32_fs w)) c xs"
proof -
  have imp: "fat_chain m' V c xs" if "fat_chain m V c xs" "\<forall>d. V d \<longrightarrow> m' d = m d" for m m' V
    using that fat_chain_cong [of xs m' m V c] fat_chain_valid [of m V c xs] by simp
  show ?thesis using assms imp unfolding dir_frame_def by metis
qed

lemma dir_frame_quiet:
  assumes "dir_frame disk w w1 lbas" "quiet w1 w2"
  shows "dir_frame disk w w2 lbas"
  using assms by (simp add: dir_frame_def quiet_fat_ok quiet_fields quiet_fat quiet_sec)

lemma set_slot_fs [simp]: "fat32_fs (set_slot disk lbas i x w) = fat32_fs w"
  by (simp add: set_slot_def Let_def)

lemma dir_lbas_set_slot [simp]: "dir_lbas (set_slot disk lbas i x w) xs = dir_lbas w xs"
  by (rule dir_lbas_cong) simp

lemma set_slot_more [simp]: "fat_state.more (set_slot disk lbas i x w) = fat_state.more w"
  by (simp add: set_slot_def Let_def)

lemma set_slot_frame:
  assumes ok: "fat_ok disk w" and v: "\<forall>x \<in> set xs. valid_cluster (fat32_fs w) x"
    and i: "i < length (dir_slots disk w xs)" and x: "length x = 32"
  shows "dir_frame disk w (set_slot disk (dir_lbas w xs) i x w) (dir_lbas w xs)"
proof -
  let ?ls = "dir_lbas w xs"
  let ?l = "?ls ! (i div 16)"
  let ?w = "set_slot disk ?ls i x w"
  have g: "geometry_ok disk (fat32_fs w)" "medium_wf disk w" "healthy w"
    using ok by (simp_all add: fat_ok_def)
  have mem: "?l \<in> set ?ls" using i by (simp add: dir_slots_def less_mult_imp_div_less mult.commute)
  note l = dir_lbas_mem(1,2) [OF g(1) v mem]
  have len: "length (sec disk w l) = 512" for l using g(2) by (simp add: medium_wf_def)
  have sec: "sec disk ?w = (sec disk w)(?l := put_slot (sec disk w ?l) (i mod 16) x)"
    using l(1) by (simp add: set_slot_def Let_def)
  have len': "length (sec disk ?w l) = 512" for l
    using len sec slots_put_slot(2) [OF len _ x, of "i mod 16" ?l] by simp
  have ok': "fat_ok disk ?w"
    using len' g by (intro fat_ok_data_change [OF ok]) (simp_all add: set_slot_def Let_def)
  have "fat disk ?w d = fat disk w d" if "valid_cluster (fat32_fs w) d" for d
    using that l(2) sec by (intro fat_data_change [OF ok]) auto
  then show ?thesis using ok' sec mem by (auto simp: dir_frame_def)
qed

lemma set_slot_slots:
  assumes ok: "fat_ok disk w" and ch: "fat_chain (fat disk w) (valid_cluster (fat32_fs w)) c xs"
    and i: "i < length (dir_slots disk w xs)" and x: "length x = 32"
  shows "dir_slots disk (set_slot disk (dir_lbas w xs) i x w) xs = (dir_slots disk w xs)[i := x]"
proof -
  have g: "geometry_ok disk (fat32_fs w)" "medium_wf disk w" using ok by (simp_all add: fat_ok_def)
  have v: "\<forall>y \<in> set xs. valid_cluster (fat32_fs w) y" using fat_chain_valid [OF ch] by blast
  have "distinct (dir_lbas w xs)" using dir_lbas_distinct [OF g(1) v] fat_chain_distinct [OF ch] by simp
  then show ?thesis
    using slots_at_set_slot [of "dir_lbas w xs" i disk w x] dir_lbas_mem(1) [OF g(1) v] g(2) i x
    by (simp add: dir_slots_def)
qed

lemma dir_slots_quiet: "quiet w w' \<Longrightarrow> dir_slots disk w' xs = dir_slots disk w xs"
  using dir_lbas_cong [OF quiet_fields(1), of w w' xs] by (simp add: dir_slots_def quiet_slots_at)

lemma scan_chain_dir:
  assumes "fat_ok disk w" "fat_chain (fat disk w) (valid_cluster (fat32_fs w)) c xs"
  shows "\<exists>w'. scan_chain body disk c w = Some (hit_result (first_hit body (dir_slots disk w xs)), w') \<and>
    quiet (apply_hit disk (dir_lbas w xs) (first_hit body (dir_slots disk w xs)) w) w'"
  using scan_chain_ok [OF assms refl, of body] by (simp add: dir_slots_def)

section \<open>Loops that replace the first matching entry\<close>

lemma store_first_disk:
  assumes ok: "fat_ok disk w" and ch: "fat_chain (fat disk w) (valid_cluster (fat32_fs w)) c xs"
    and wf: "dir_wf (dir_slots disk w xs)"
    and body: "\<And>s. length s = 32 \<Longrightarrow> body s = (if P (decode_dirent s) then Store (g s) else Go_On)"
    and g: "\<And>s. plain_slot s \<Longrightarrow> live_slot s \<Longrightarrow> s ! 0 \<noteq> 0 \<Longrightarrow> g s ! 0 \<noteq> 0 \<and> plain_slot (g s) \<and>
      map decode_dirent (visible [g s]) = new"
  shows "\<exists>w' r. scan_chain (guarded False body) disk c w = Some (r, w') \<and>
    dir_frame disk w w' (dir_lbas w xs) \<and> dir_wf (dir_slots disk w' xs) \<and>
    dir_entries (dir_slots disk w' xs) = replace_first P new (dir_entries (dir_slots disk w xs)) \<and>
    (case r of Some b \<Rightarrow> b | None \<Rightarrow> False) = (\<exists>e \<in> set (dir_entries (dir_slots disk w xs)). P e)"
proof -
  let ?ss = "dir_slots disk w xs"
  have v: "\<forall>y \<in> set xs. valid_cluster (fat32_fs w) y" using fat_chain_valid [OF ch] by blast
  have ps: "length s = 32" if "s \<in> set ?ss" for s
    using wf that by (simp add: dir_wf_def plain_slot_def)
  obtain w' where w': "scan_chain (guarded False body) disk c w =
      Some (hit_result (first_hit (guarded False body) ?ss), w')"
    "quiet (apply_hit disk (dir_lbas w xs) (first_hit (guarded False body) ?ss) w) w'"
    using scan_chain_dir [OF ok ch] by blast
  have body': "body s = (if P (decode_dirent s) then Store (g s) else Go_On)" if "s \<in> set ?ss" for s
    using body ps that by blast
  note sf = store_first [where ss = ?ss and body = body and P = P and g = g and new = new and w = w,
      OF wf body' g]
  show ?thesis
  proof (cases "find P (dir_entries ?ss)")
    case None
    then have q: "quiet w w'" "(case hit_result (first_hit (guarded False body) ?ss) of Some b \<Rightarrow> b | None \<Rightarrow> False) = False"
      using sf w'(2) by (auto split: option.splits)
    have "\<forall>e \<in> set (dir_entries ?ss). \<not> P e" using None by (simp add: find_None_all)
    then show ?thesis
      using w'(1) q quiet_dir_frame [OF ok q(1)] dir_slots_quiet [OF q(1)] wf
      by (auto simp: replace_first_absent)
  next
    case (Some e)
    then obtain i where i: "i < length ?ss" "first_hit (guarded False body) ?ss = Some (i, Store (g (?ss ! i)))"
      "length (g (?ss ! i)) = 32" "dir_wf (?ss[i := g (?ss ! i)])"
      "dir_entries (?ss[i := g (?ss ! i)]) = replace_first P new (dir_entries ?ss)"
      using sf by auto
    have q: "quiet (set_slot disk (dir_lbas w xs) i (g (?ss ! i)) w) w'" using w'(2) i(2) by simp
    have "dir_frame disk w w' (dir_lbas w xs)"
      using dir_frame_quiet [OF set_slot_frame [OF ok v i(1,3)] q] .
    moreover have "dir_slots disk w' xs = ?ss[i := g (?ss ! i)]"
      using set_slot_slots [OF ok ch i(1,3)] dir_slots_quiet [OF q] by simp
    moreover have "\<exists>e \<in> set (dir_entries ?ss). P e"
      using Some by (metis find_None_all not_None_eq)
    ultimately show ?thesis using w'(1) i by simp
  qed
qed

lemma delete_in_cluster_ok:
  assumes ok: "fat_ok disk w" and ch: "fat_chain (fat disk w) (valid_cluster (fat32_fs w)) c xs"
    and wf: "dir_wf (dir_slots disk w xs)"
  shows "\<exists>w'. directory_delete_in_cluster disk c name w =
      Some (\<exists>e \<in> set (dir_entries (dir_slots disk w xs)). str_eq (directory_get_name e) name, w') \<and>
    dir_frame disk w w' (dir_lbas w xs) \<and> dir_wf (dir_slots disk w' xs) \<and>
    dir_entries (dir_slots disk w' xs) =
      replace_first (\<lambda>e. str_eq (directory_get_name e) name) [] (dir_entries (dir_slots disk w xs))"
proof -
  have g: "(s[0 := 0xE5]) ! 0 \<noteq> 0 \<and> plain_slot (s[0 := 0xE5]) \<and>
      map decode_dirent (visible [s[0 := 0xE5]]) = []" if "plain_slot s" for s :: "u8 list"
    using that by (auto simp: plain_slot_def live_slot_def decode_dirent_def)
  obtain w' r where "scan_chain (delete_body name) disk c w = Some (r, w')"
    "dir_frame disk w w' (dir_lbas w xs)" "dir_wf (dir_slots disk w' xs)"
    "dir_entries (dir_slots disk w' xs) =
      replace_first (\<lambda>e. str_eq (directory_get_name e) name) [] (dir_entries (dir_slots disk w xs))"
    "(case r of Some b \<Rightarrow> b | None \<Rightarrow> False) =
      (\<exists>e \<in> set (dir_entries (dir_slots disk w xs)). str_eq (directory_get_name e) name)"
    using store_first_disk [where P = "\<lambda>e. str_eq (directory_get_name e) name" and g = "\<lambda>s. s[0 := 0xE5]"
        and new = "[]", OF ok ch wf refl g]
    unfolding delete_body_def by blast
  then show ?thesis
    by (simp add: directory_delete_in_cluster_def fat_ok_not_None [OF ok])
qed

lemma rename_entry_ok:
  assumes ok: "fat_ok disk w" and ch: "fat_chain (fat disk w) (valid_cluster (fat32_fs w)) c xs"
    and wf: "dir_wf (dir_slots disk w xs)" and e: "entry_wf entry"
  shows "\<exists>w'. directory_rename_entry disk c name entry w =
      Some (\<exists>e \<in> set (dir_entries (dir_slots disk w xs)). str_eq (directory_get_name e) name, w') \<and>
    dir_frame disk w w' (dir_lbas w xs) \<and> dir_wf (dir_slots disk w' xs) \<and>
    dir_entries (dir_slots disk w' xs) =
      replace_first (\<lambda>e. str_eq (directory_get_name e) name) [entry] (dir_entries (dir_slots disk w xs))"
proof -
  have g: "encode_dirent entry ! 0 \<noteq> 0 \<and> plain_slot (encode_dirent entry) \<and>
      map decode_dirent (visible [encode_dirent entry]) = [entry]"
    using entry_slot [OF e] e by (simp add: entry_wf_def)
  obtain w' r where "scan_chain (rename_body name entry) disk c w = Some (r, w')"
    "dir_frame disk w w' (dir_lbas w xs)" "dir_wf (dir_slots disk w' xs)"
    "dir_entries (dir_slots disk w' xs) =
      replace_first (\<lambda>e. str_eq (directory_get_name e) name) [entry] (dir_entries (dir_slots disk w xs))"
    "(case r of Some b \<Rightarrow> b | None \<Rightarrow> False) =
      (\<exists>e \<in> set (dir_entries (dir_slots disk w xs)). str_eq (directory_get_name e) name)"
    using store_first_disk [where P = "\<lambda>e. str_eq (directory_get_name e) name"
        and g = "\<lambda>s. encode_dirent entry" and new = "[entry]", OF ok ch wf refl g]
    unfolding rename_body_def by blast
  then show ?thesis
    by (simp add: directory_rename_entry_def fat_ok_not_None [OF ok])
qed

lemma update_entry_ok:
  assumes ok: "fat_ok disk w" and ch: "fat_chain (fat disk w) (valid_cluster (fat32_fs w)) c xs"
    and wf: "dir_wf (dir_slots disk w xs)" and e: "entry_wf entry"
  shows "\<exists>w'. directory_update_entry disk c entry w =
      Some (\<exists>e \<in> set (dir_entries (dir_slots disk w xs)). de_name e = de_name entry, w') \<and>
    dir_frame disk w w' (dir_lbas w xs) \<and> dir_wf (dir_slots disk w' xs) \<and>
    dir_entries (dir_slots disk w' xs) =
      replace_first (\<lambda>e. de_name e = de_name entry) [entry] (dir_entries (dir_slots disk w xs))"
proof -
  have g: "encode_dirent entry ! 0 \<noteq> 0 \<and> plain_slot (encode_dirent entry) \<and>
      map decode_dirent (visible [encode_dirent entry]) = [entry]"
    using entry_slot [OF e] e by (simp add: entry_wf_def)
  have cmp: "(if memcmp (de_name (decode_dirent s)) (de_name entry) 11 = Some 0
       then Store (encode_dirent entry) else Go_On) =
     (if de_name (decode_dirent s) = de_name entry then Store (encode_dirent entry) else Go_On)"
    if "length s = 32" for s :: "u8 list"
    using that e memcmp_zero_iff [of 11 "de_name (decode_dirent s)" "de_name entry"]
    by (simp add: decode_dirent_def entry_wf_def)
  obtain w' r where "scan_chain (update_body entry) disk c w = Some (r, w')"
    "dir_frame disk w w' (dir_lbas w xs)" "dir_wf (dir_slots disk w' xs)"
    "dir_entries (dir_slots disk w' xs) =
      replace_first (\<lambda>e. de_name e = de_name entry) [entry] (dir_entries (dir_slots disk w xs))"
    "(case r of Some b \<Rightarrow> b | None \<Rightarrow> False) =
      (\<exists>e \<in> set (dir_entries (dir_slots disk w xs)). de_name e = de_name entry)"
    using store_first_disk [where P = "\<lambda>e. de_name e = de_name entry"
        and g = "\<lambda>s. encode_dirent entry" and new = "[entry]", OF ok ch wf cmp g]
    unfolding update_body_def by blast
  then show ?thesis
    by (simp add: directory_update_entry_def fat_ok_not_None [OF ok])
qed

lemma is_empty_ok:
  assumes ok: "fat_ok disk w" and ch: "fat_chain (fat disk w) (valid_cluster (fat32_fs w)) c xs"
    and wf: "dir_wf (dir_slots disk w xs)"
  shows "\<exists>w'. quiet w w' \<and> directory_is_empty disk c w =
    Some (empty_listing (dir_entries (dir_slots disk w xs)), w')"
proof -
  obtain w' where "scan_chain empty_body disk c w =
      Some (hit_result (first_hit empty_body (dir_slots disk w xs)), w')"
    "quiet (apply_hit disk (dir_lbas w xs) (first_hit empty_body (dir_slots disk w xs)) w) w'"
    using scan_chain_dir [OF ok ch] by blast
  then show ?thesis
    using empty_hit(1) [OF wf] empty_hit(2) [OF wf, of disk "dir_lbas w xs" w]
    by (simp add: directory_is_empty_def fat_ok_not_None [OF ok])
qed

section \<open>Creating an entry\<close>

lemma chain_entry_nonzero:
  "fat_chain m V c xs \<Longrightarrow> \<not> V 0 \<Longrightarrow> x \<in> set xs \<Longrightarrow> m x \<noteq> 0"
proof (induction xs arbitrary: c)
  case Nil
  then show ?case by simp
next
  case (Cons y ys)
  show ?case
  proof (cases "x = y")
    case True
    then show ?thesis
      using Cons.prems fat_chain_hd [of m V "m y" ys] by (cases ys) (auto split: if_splits)
  next
    case False
    then show ?thesis using Cons.prems Cons.IH [of "m y"] by (auto split: if_splits)
  qed
qed

definition zero_slot :: "u8 list" where
  "zero_slot = replicate 32 0"

lemma zero_slot_props [simp]: "zero_slot ! 0 = 0" "plain_slot zero_slot" "length zero_slot = 32"
  by (simp_all add: zero_slot_def plain_slot_def decode_dirent_def)

lemma slots_zero [simp]: "slots (replicate 512 0) = replicate 16 zero_slot"
proof (rule nth_equalityI)
  show "length (slots (replicate 512 0)) = length (replicate 16 zero_slot)" by simp
  fix i assume "i < length (slots (replicate 512 0))"
  then have "i < 16" by simp
  then show "slots (replicate 512 0) ! i = replicate 16 zero_slot ! i"
    by (simp add: slot_at_def zero_slot_def min_def)
qed

lemma slots_at_zero:
  "(\<And>l. l \<in> set lbas \<Longrightarrow> sec disk w l = replicate 512 0) \<Longrightarrow>
   slots_at disk w lbas = replicate (16 * length lbas) zero_slot"
  by (induction lbas) (simp_all add: slots_at_Cons replicate_add [symmetric])

lemma clean_tail_append_zero:
  "\<forall>s \<in> set ss. s ! 0 \<noteq> 0 \<Longrightarrow> clean_tail (ss @ replicate n zero_slot)"
  using clean_tail_zero [of "replicate n zero_slot"] by (induction ss) auto

lemma visible_append_zero: "visible (ss @ replicate n zero_slot) = visible ss"
  using clean_tail_zero [of "replicate n zero_slot"] by (induction ss) auto

text \<open>What a successful creation does; \<open>ys\<close> is the chain afterwards.\<close>

definition created ::
  "disk_t option \<Rightarrow> 'a fat_state_scheme \<Rightarrow> 'a fat_state_scheme \<Rightarrow> u32 \<Rightarrow> u32 list \<Rightarrow> u32 list \<Rightarrow> dirent \<Rightarrow> bool"
  where
  "created disk w w' c xs ys e \<longleftrightarrow>
     fat_ok disk w' \<and> fat32_fs w' = fat32_fs w \<and> fat_state.more w' = fat_state.more w \<and>
     fat_chain (fat disk w') (valid_cluster (fat32_fs w)) c ys \<and>
     (ys = xs \<or> (\<exists>d. ys = xs @ [d] \<and> fat disk w d = 0 \<and> valid_cluster (fat32_fs w) d)) \<and>
     dir_wf (dir_slots disk w' ys) \<and>
     mset (dir_entries (dir_slots disk w' ys)) = add_mset e (mset (dir_entries (dir_slots disk w xs))) \<and>
     (\<forall>d. valid_cluster (fat32_fs w) d \<longrightarrow> d \<notin> set ys \<longrightarrow> fat disk w' d = fat disk w d) \<and>
     (\<forall>l. first_data_sector (fat32_fs w) \<le> l \<longrightarrow> l \<notin> set (dir_lbas w ys) \<longrightarrow> sec disk w' l = sec disk w l)"

lemma create_in_place:
  assumes ok: "fat_ok disk w" and ch: "fat_chain (fat disk w) (valid_cluster (fat32_fs w)) c xs"
    and i: "i < length (dir_slots disk w xs)" and e: "entry_wf e"
    and wf: "dir_wf ((dir_slots disk w xs)[i := encode_dirent e])"
    and ms: "mset (dir_entries ((dir_slots disk w xs)[i := encode_dirent e])) =
      add_mset e (mset (dir_entries (dir_slots disk w xs)))"
    and q: "quiet (set_slot disk (dir_lbas w xs) i (encode_dirent e) w) w'"
  shows "created disk w w' c xs xs e"
proof -
  have v: "\<forall>y \<in> set xs. valid_cluster (fat32_fs w) y" using fat_chain_valid [OF ch] by blast
  note l = entry_slot(1) [OF e]
  have fr: "dir_frame disk w w' (dir_lbas w xs)"
    using dir_frame_quiet [OF set_slot_frame [OF ok v i l] q] .
  have sl: "dir_slots disk w' xs = (dir_slots disk w xs)[i := encode_dirent e]"
    using set_slot_slots [OF ok ch i l] dir_slots_quiet [OF q] by simp
  show ?thesis
    using fr ch wf ms dir_frame_chain [OF fr] by (simp add: created_def sl) (simp add: dir_frame_def)
qed

text \<open>The state after a new, zeroed cluster has been linked to the directory.\<close>

lemma grown_directory:
  assumes ok: "fat_ok disk w" and ch: "fat_chain (fat disk w) (valid_cluster (fat32_fs w)) c xs"
    and d: "valid_cluster (fat32_fs w) d" "fat disk w d = 0"
    and w': "fat32_fs w' = fat32_fs w"
      "\<And>l. first_data_sector (fat32_fs w) \<le> l \<Longrightarrow>
        sec disk w' l = (if in_cluster d w l then replicate 512 0 else sec disk w l)"
  shows "dir_slots disk w' (xs @ [d]) =
    dir_slots disk w xs @ replicate (16 * unat (sectors_per_cluster (fat32_fs w))) zero_slot"
proof -
  have g: "geometry_ok disk (fat32_fs w)" using ok by (simp add: fat_ok_def)
  have v: "\<forall>y \<in> set xs. valid_cluster (fat32_fs w) y" using fat_chain_valid [OF ch] by blast
  have "d \<notin> set xs"
    using chain_entry_nonzero [OF ch] d by (auto simp: valid_cluster_def)
  have "sec disk w' l = sec disk w l" if l: "l \<in> set (dir_lbas w xs)" for l
  proof -
    obtain x where "x \<in> set xs" "in_cluster x w l" using dir_lbas_mem(3) [OF g v l] by blast
    then have "\<not> in_cluster d w l"
      using in_cluster_disjoint [OF g d(1), of x l] v \<open>d \<notin> set xs\<close> by blast
    then show ?thesis using w'(2) dir_lbas_mem(2) [OF g v l] by simp
  qed
  then have "slots_at disk w' (dir_lbas w xs) = slots_at disk w (dir_lbas w xs)"
    by (rule slots_at_cong)
  moreover have "slots_at disk w' (cluster_lbas w d) =
      replicate (16 * unat (sectors_per_cluster (fat32_fs w))) zero_slot"
    using slots_at_zero [of "cluster_lbas w d" disk w'] cluster_lbas_ok(2,3) [OF g d(1)] w'(2) by simp
  ultimately show ?thesis
    using dir_lbas_cong [OF w'(1), of "xs @ [d]"]
    by (simp add: dir_slots_def dir_lbas_append dir_lbas_Cons slots_at_append)
qed

lemma create_entry_in_cluster_ok:
  assumes ok: "fat_ok disk w" and ch: "fat_chain (fat disk w) (valid_cluster (fat32_fs w)) c xs"
    and wf: "dir_wf (dir_slots disk w xs)" and e: "entry_wf e"
  shows "\<exists>w'. (\<exists>ys. directory_create_entry_in_cluster disk c e w = Some (True, w') \<and>
      created disk w w' c xs ys e) \<or>
    (directory_create_entry_in_cluster disk c e w = Some (False, w') \<and> quiet w w' \<and>
      (\<forall>d. valid_cluster (fat32_fs w) d \<longrightarrow> fat disk w d \<noteq> 0) \<and>
      (\<forall>s \<in> set (dir_slots disk w xs). s ! 0 \<noteq> 0 \<and> s ! 0 \<noteq> 0xE5))"
proof -
  let ?ss = "dir_slots disk w xs"
  have hdc: "xs \<noteq> []" "hd xs = c" using fat_chain_hd [OF ch] by simp_all
  have c2: "\<not> c < 2"
    using fat_chain_valid [OF ch, of c] hdc by (auto simp: valid_cluster_def word_less_nat_alt)
  obtain w1 where w1: "scan_chain (create_body e) disk c w = Some (hit_result (first_hit (create_body e) ?ss), w1)"
    "quiet (apply_hit disk (dir_lbas w xs) (first_hit (create_body e) ?ss) w) w1"
    using scan_chain_dir [OF ok ch] by blast
  note def = directory_create_entry_in_cluster_def [of disk c e w] fat_ok_not_None [OF ok]
  consider i where "i < length ?ss" "first_hit (create_body e) ?ss = Some (i, Store (encode_dirent e))"
      "dir_wf (?ss[i := encode_dirent e])"
      "mset (dir_entries (?ss[i := encode_dirent e])) = add_mset e (mset (dir_entries ?ss))"
    | "first_hit (create_body e) ?ss = None" "\<forall>s \<in> set ?ss. s ! 0 \<noteq> 0 \<and> s ! 0 \<noteq> 0xE5"
    using create_hit [OF wf e] by metis
  then show ?thesis
  proof cases
    case 1
    have "directory_create_entry_in_cluster disk c e w = Some (True, w1)"
      using w1(1) 1(2) c2 by (simp add: def)
    moreover have "quiet (set_slot disk (dir_lbas w xs) i (encode_dirent e) w) w1"
      using w1(2) 1(2) by simp
    ultimately show ?thesis using create_in_place [OF ok ch 1(1) e 1(3,4)] by blast
  next
    case 2
    then have q1: "quiet w w1" and s1: "scan_chain (create_body e) disk c w = Some (None, w1)"
      using w1 by simp_all
    note f1 = quiet_fields [OF q1] quiet_fat [OF q1] quiet_sec [OF q1]
    have ok1: "fat_ok disk w1" using quiet_fat_okI [OF q1 ok] .
    obtain d w2 where a: "fat32_allocate_cluster disk w1 = (d, w2)" "fat_ok disk w2"
      "fat32_fs w2 = fat32_fs w1" "fat_state.more w2 = fat_state.more w1"
      and alloc: "if d = 0
       then (\<forall>d. valid_cluster (fat32_fs w1) d \<longrightarrow> fat disk w1 d \<noteq> 0) \<and> quiet w1 w2
       else valid_cluster (fat32_fs w1) d \<and> fat disk w1 d = 0 \<and>
         (\<forall>d'. valid_cluster (fat32_fs w1) d' \<longrightarrow> d' < d \<longrightarrow> fat disk w1 d' \<noteq> 0) \<and>
         (\<forall>d'. valid_cluster (fat32_fs w1) d' \<longrightarrow>
            fat disk w2 d' = (if d' = d then FAT32_CLUSTER_EOC else fat disk w1 d')) \<and>
         (\<forall>lba. first_data_sector (fat32_fs w1) \<le> lba \<longrightarrow>
            sec disk w2 lba = (if in_cluster d w1 lba then replicate 512 0 else sec disk w1 lba))"
      using allocate_cluster_ok [OF ok1] by auto
    show ?thesis
    proof (cases "d = 0")
      case True
      then have "quiet w w2" using alloc quiet_trans [OF q1] by simp
      moreover have "directory_create_entry_in_cluster disk c e w = Some (False, w2)"
        using s1 a(1) True c2 by (simp add: def)
      ultimately show ?thesis using 2(2) True alloc f1 by auto
    next
      case False
      have ic: "in_cluster d w1 = in_cluster d w" using in_cluster_same f1(1) by blast
      have d: "valid_cluster (fat32_fs w) d" "fat disk w d = 0"
        "\<And>x. valid_cluster (fat32_fs w) x \<Longrightarrow>
          fat disk w2 x = (if x = d then FAT32_CLUSTER_EOC else fat disk w x)"
        "\<And>l. first_data_sector (fat32_fs w) \<le> l \<Longrightarrow>
          sec disk w2 l = (if in_cluster d w l then replicate 512 0 else sec disk w l)"
        using alloc False f1 ic by auto
      have nd: "d \<notin> set xs" using chain_entry_nonzero [OF ch] d by (auto simp: valid_cluster_def)
      have v: "\<And>y. y \<in> set xs \<Longrightarrow> valid_cluster (fat32_fs w) y" using fat_chain_valid [OF ch] by blast
      have fs2: "fat32_fs w2 = fat32_fs w" using a(3) f1 by simp
      have "fat_chain (fat disk w2) (valid_cluster (fat32_fs w)) c xs"
      proof -
        have "fat disk w2 x = fat disk w x" if "x \<in> set xs" for x
          using d(3) [OF v [OF that]] nd that by auto
        then show ?thesis using ch fat_chain_cong by metis
      qed
      then obtain w3 where w3: "fat32_append_cluster disk c d w2 = Some (True, w3)" "fat_ok disk w3"
        "fat32_fs w3 = fat32_fs w" "fat_state.more w3 = fat_state.more w2"
        "fat_chain (fat disk w3) (valid_cluster (fat32_fs w)) c (xs @ [d])"
        "\<forall>x. valid_cluster (fat32_fs w) x \<longrightarrow> x \<notin> insert d (set xs) \<longrightarrow> fat disk w3 x = fat disk w2 x"
        "\<forall>l. first_data_sector (fat32_fs w) \<le> l \<longrightarrow>
          sec disk w3 l = (if in_cluster d w2 l then replicate 512 0 else sec disk w2 l)"
        using append_cluster_ok [OF a(2), of c xs d] fs2 d(1) nd by auto
      have sec3: "sec disk w3 l = (if in_cluster d w l then replicate 512 0 else sec disk w l)"
        if "first_data_sector (fat32_fs w) \<le> l" for l
        using w3(7) d(4) that in_cluster_same [OF fs2] by simp
      let ?n = "16 * unat (sectors_per_cluster (fat32_fs w))"
      let ?i = "length ?ss"
      have sl3: "dir_slots disk w3 (xs @ [d]) = ?ss @ replicate ?n zero_slot"
        using grown_directory [OF ok ch d(1,2) w3(3) sec3] .
      have n: "0 < ?n" using geometry_okD(2) [of disk "fat32_fs w"] ok by (simp add: fat_ok_def)
      have wf3: "dir_wf (dir_slots disk w3 (xs @ [d]))"
        using wf 2(2) clean_tail_append_zero [of ?ss ?n] by (auto simp: sl3 dir_wf_def)
      have hit3: "first_hit (create_body e) (dir_slots disk w3 (xs @ [d])) = Some (?i, Store (encode_dirent e))"
        unfolding sl3 first_hit_append 2(1) using n by (cases ?n) (simp_all add: create_body_def)
      then have hit: "dir_wf ((dir_slots disk w3 (xs @ [d]))[?i := encode_dirent e])"
        "mset (dir_entries ((dir_slots disk w3 (xs @ [d]))[?i := encode_dirent e])) =
          add_mset e (mset (dir_entries (dir_slots disk w3 (xs @ [d]))))"
        "?i < length (dir_slots disk w3 (xs @ [d]))"
        using create_hit [OF wf3 e] by auto
      have lb: "slots_at disk w3 (cluster_lbas w3 d) = replicate ?n zero_slot"
      proof -
        have "?ss @ slots_at disk w3 (cluster_lbas w3 d) = ?ss @ replicate ?n zero_slot"
        proof -
          have "dir_slots disk w3 (xs @ [d]) =
              slots_at disk w3 (dir_lbas w3 xs) @ slots_at disk w3 (cluster_lbas w3 d)"
            by (simp add: dir_slots_def dir_lbas_append dir_lbas_Cons slots_at_append)
          moreover have "length (slots_at disk w3 (dir_lbas w3 xs)) = length ?ss"
            using dir_lbas_cong [OF w3(3), of xs] by (simp add: dir_slots_def)
          ultimately show ?thesis using sl3 by (metis append_eq_append_conv)
        qed
        then show ?thesis by simp
      qed
      then have hc: "first_hit (create_body e) (slots_at disk w3 (cluster_lbas w3 d)) =
          Some (0, Store (encode_dirent e))"
        using n by (cases ?n) (simp_all add: create_body_def)
      obtain w4 where w4: "scan_cluster (create_body e) disk d w3 = (Some True, w4)"
        "quiet (set_slot disk (cluster_lbas w3 d) 0 (encode_dirent e) w3) w4"
        using scan_cluster_ok [OF w3(2), of d _ "create_body e", OF _ refl] d(1) w3(3) hc by auto
      have "set_slot disk (dir_lbas w3 (xs @ [d])) ?i (encode_dirent e) w3 =
          set_slot disk (cluster_lbas w3 d) 0 (encode_dirent e) w3"
        using set_slot_append(2) [of disk "dir_lbas w3 xs" "cluster_lbas w3 d" 0]
          dir_lbas_cong [OF w3(3), of xs]
        by (simp add: dir_lbas_append dir_lbas_Cons dir_slots_def)
      then have q4: "quiet (set_slot disk (dir_lbas w3 (xs @ [d])) ?i (encode_dirent e) w3) w4"
        using w4(2) by simp
      have "created disk w3 w4 c (xs @ [d]) (xs @ [d]) e"
        using create_in_place [OF w3(2) _ hit(3) e hit(1,2) q4] w3(3,5) by simp
      moreover have "dir_entries (dir_slots disk w3 (xs @ [d])) = dir_entries ?ss"
        by (simp add: sl3 dir_entries_def visible_append_zero)
      moreover have "fat disk w3 x = fat disk w x"
        if "valid_cluster (fat32_fs w) x" "x \<notin> insert d (set xs)" for x
        using w3(6) d(3) that by auto
      moreover have "sec disk w3 l = sec disk w l"
        if "first_data_sector (fat32_fs w) \<le> l" "l \<notin> set (dir_lbas w (xs @ [d]))" for l
      proof -
        have "\<not> in_cluster d w l"
          using that(2) in_cluster_lbas [of d w l] by (auto simp: dir_lbas_append dir_lbas_Cons)
        then show ?thesis using sec3 that by simp
      qed
      ultimately have "created disk w w4 c xs (xs @ [d]) e"
        using w3(3,4) a(4) f1 d dir_lbas_cong [OF w3(3), of "xs @ [d]"]
        by (simp add: created_def)
      moreover have "directory_create_entry_in_cluster disk c e w = Some (True, w4)"
        using s1 a(1) False c2 w3(1) w4(1) by (simp add: def directory_write_entry_def)
      ultimately show ?thesis by blast
    qed
  qed
qed

end
