(* ===== verification/DirProps.thy ===== *)
theory DirProps
  imports DirSpec DemoVolume
begin

text \<open>
  The properties of names, directory entries and directories. The concrete directory of the
  witnesses is the root of the demonstration volume, empty or with one entry.
\<close>

definition demo_entry :: dirent where
  "demo_entry = zero_dirent\<lparr>de_name := bytes ''FOO     TXT'', de_attributes := FAT32_ATTR_ARCHIVE\<rparr>"

definition demo_dir :: fat_state where
  "demo_dir = set_slot demo_disk (dir_lbas demo_fat [2]) 0 (encode_dirent demo_entry) demo_fat"

lemma demo_name: "de_name demo_entry =
    [0x46, 0x4F, 0x4F, 0x20, 0x20, 0x20, 0x20, 0x20, 0x54, 0x58, 0x54]"
  by (simp add: demo_entry_def bytes_def)

lemma demo_entry_wf [simp]: "entry_wf demo_entry"
  by (simp add: entry_wf_def demo_name) (simp add: demo_entry_def)

lemma demo_get_name [simp]: "directory_get_name demo_entry = bytes ''FOO.TXT''"
  by (simp add: directory_get_name_def demo_name bytes_def)

lemma demo_root_chain' [simp]:
  "fat_chain (fat demo_disk demo_fat) (valid_cluster (fat32_fs demo_fat)) 2 [2]"
  using demo_root_chain by (simp only: demo_fs_of)

lemma demo_lbas [simp]: "dir_lbas demo_fat [2] = [2]"
  by (simp add: dir_lbas_Cons cluster_lbas_def fat32_cluster_to_sector_def) (simp add: demo_fs_def)

lemma demo_slots [simp]: "dir_slots demo_disk demo_fat [2] = replicate 16 zero_slot"
  by (simp add: dir_slots_def slots_at_Cons demo_medium_def del: replicate.simps)

lemma demo_slots_wf [simp]: "dir_wf (replicate 16 zero_slot)" "dir_entries (replicate 16 zero_slot) = []"
  using clean_tail_append_zero [of "[]" 16] visible_append_zero [of "[]" 16]
  by (auto simp: dir_wf_def dir_entries_def simp del: replicate.simps)

lemma demo_dir_ok [simp]:
  "fat_ok demo_disk demo_dir" "fat32_fs demo_dir = demo_fs"
  "fat_chain (fat demo_disk demo_dir) (valid_cluster demo_fs) 2 [2]"
  "dir_wf (dir_slots demo_disk demo_dir [2])"
  "dir_entries (dir_slots demo_disk demo_dir [2]) = [demo_entry]"
proof -
  note e = entry_slot [OF demo_entry_wf]
  have fr: "dir_frame demo_disk demo_fat demo_dir (dir_lbas demo_fat [2])"
    unfolding demo_dir_def
    by (rule set_slot_frame) (simp_all add: e demo_valid del: demo_lbas replicate.simps)
  then show "fat_ok demo_disk demo_dir" "fat32_fs demo_dir = demo_fs" by (simp_all add: dir_frame_def)
  show "fat_chain (fat demo_disk demo_dir) (valid_cluster demo_fs) 2 [2]"
    using dir_frame_chain [OF fr, of 2 "[2]"] demo_root_chain by (simp only: demo_fs_of)
  have sl: "dir_slots demo_disk demo_dir [2] = (replicate 16 zero_slot)[0 := encode_dirent demo_entry]"
    using set_slot_slots [OF demo_ok demo_root_chain', of 0 "encode_dirent demo_entry"] e(1)
    unfolding demo_dir_def by (simp del: demo_lbas replicate.simps)
  have hit: "first_hit (create_body demo_entry) (replicate 16 zero_slot) =
      Some (0, Store (encode_dirent demo_entry))"
    by (simp add: numeral_eq_Suc create_body_def)
  show "dir_wf (dir_slots demo_disk demo_dir [2])"
    "dir_entries (dir_slots demo_disk demo_dir [2]) = [demo_entry]"
    using create_hit [OF demo_slots_wf(1) demo_entry_wf] hit unfolding sl by auto
qed

section \<open>Names and entries\<close>

text \<open>\<open>directory_set_name\<close> accepts exactly the names whose part before the first dot has one to
  eight bytes and whose part after it, if there is a dot, has one to three bytes and no further
  dot; \<open>directory_get_name\<close> then gives the name back in upper case, if it contains no space.\<close>

theorem directory_name_roundtrip:
  "(directory_set_name e name \<noteq> None \<longleftrightarrow> valid_name name) \<and>
   (valid_name name \<longrightarrow> 0x20 \<notin> set name \<longrightarrow>
      directory_get_name (the (directory_set_name e name)) = map to_upper name)"
  using get_set_name [of name e] by (simp add: set_name_eq)

theorem directory_name_roundtrip_witness:
  "directory_get_name (the (directory_set_name zero_dirent (bytes ''foo.txt''))) = bytes ''FOO.TXT''"
proof -
  have "valid_name (bytes ''foo.txt'')" by (simp add: valid_name_def base_part_def ext_part_def bytes_def)
  then show ?thesis
    using directory_name_roundtrip [of zero_dirent "bytes ''foo.txt''"]
    by (simp add: bytes_def to_upper_def)
qed

text \<open>The packed 32-byte entry and its fields determine each other, and the first cluster that
  is stored in two halves reads back.\<close>

theorem directory_entry_roundtrip:
  assumes "length (de_name e) = 11" "length b = 32"
  shows "decode_dirent (encode_dirent e) = e \<and> encode_dirent (decode_dirent b) = b \<and>
    directory_entry_cluster (directory_set_entry_cluster e c) = c"
  using decode_encode [OF assms(1)] encode_decode [OF assms(2)] by simp

theorem directory_entry_roundtrip_witness:
  "decode_dirent (encode_dirent demo_entry) = demo_entry \<and>
   encode_dirent (decode_dirent zero_slot) = zero_slot \<and>
   directory_entry_cluster (directory_set_entry_cluster demo_entry 0x12345) = 0x12345"
  using directory_entry_roundtrip [of demo_entry zero_slot] demo_entry_wf
  by (simp add: entry_wf_def zero_slot_def)

section \<open>Searching\<close>

text \<open>\<open>directory_find_in_cluster\<close> returns on every well-formed directory, with the first visible
  entry that has the name - or no entry when there is none - and leaves the disk alone.\<close>

theorem directory_find_searches:
  assumes "fat_ok disk w" "fat_chain (fat disk w) (valid_cluster (fat32_fs w)) c xs"
  shows "map_option fst (directory_find_in_cluster disk c name w) =
      Some (find (\<lambda>e. str_eq (directory_get_name e) name) (dir_entries (dir_slots disk w xs))) \<and>
    medium (snd (the (directory_find_in_cluster disk c name w))) = medium w"
  using find_in_cluster_ok [OF assms, of name] quiet_fields(4) by auto

theorem directory_find_searches_witness:
  "map_option fst (directory_find_in_cluster demo_disk 2 (bytes ''FOO.TXT'') demo_dir) = Some (Some demo_entry)"
  using directory_find_searches [of demo_disk demo_dir 2 "[2]" "bytes ''FOO.TXT''"]
  by (simp add: bytes_def del: fat_chain.simps)

section \<open>Changing a directory\<close>

text \<open>C29. \<open>directory_create_entry_in_cluster\<close> adds exactly the given entry to a well-formed
  directory, growing the chain by one zeroed free cluster if it must, keeps the directory well
  formed and touches neither the table entries of other chains nor any other data sector; it
  fails only when the directory and the volume are full, and then the disk is unchanged.\<close>

theorem directory_create_adds:
  assumes "fat_ok disk w" "fat_chain (fat disk w) (valid_cluster (fat32_fs w)) c xs"
    and "dir_wf (dir_slots disk w xs)" "entry_wf e"
  shows "\<exists>w'. (\<exists>ys. directory_create_entry_in_cluster disk c e w = Some (True, w') \<and>
      created disk w w' c xs ys e) \<or>
    (directory_create_entry_in_cluster disk c e w = Some (False, w') \<and> medium w' = medium w \<and>
      (\<forall>d. valid_cluster (fat32_fs w) d \<longrightarrow> fat disk w d \<noteq> FAT32_CLUSTER_FREE) \<and>
      (\<forall>s \<in> set (dir_slots disk w xs). s ! 0 \<noteq> 0 \<and> s ! 0 \<noteq> 0xE5))"
  using create_entry_in_cluster_ok [OF assms] quiet_fields(4) [of w] by blast

theorem directory_create_adds_witness:
  "\<exists>w' ys. directory_create_entry_in_cluster demo_disk 2 demo_entry demo_fat = Some (True, w') \<and>
    created demo_disk demo_fat w' 2 [2] ys demo_entry"
proof -
  have "zero_slot \<in> set (dir_slots demo_disk demo_fat [2])" by (simp del: replicate.simps)
  then show ?thesis
    using directory_create_adds [of demo_disk demo_fat 2 "[2]" demo_entry, OF demo_ok demo_root_chain']
    by (fastforce simp del: replicate.simps fat_chain.simps)
qed

text \<open>An entry whose name was not in the directory is found under its name after it has been
  created.\<close>

theorem create_then_find:
  assumes "fat_ok disk w" "fat_chain (fat disk w) (valid_cluster (fat32_fs w)) c xs"
    and "dir_wf (dir_slots disk w xs)" "entry_wf e"
    and "directory_create_entry_in_cluster disk c e w = Some (True, w')"
    and "directory_find_in_cluster disk c (directory_get_name e) w = Some (None, w0)"
  shows "map_option fst (directory_find_in_cluster disk c (directory_get_name e) w') = Some (Some e)"
proof -
  let ?P = "\<lambda>x. str_eq (directory_get_name x) (directory_get_name e)"
  obtain ys where ys: "created disk w w' c xs ys e"
    using create_entry_in_cluster_ok [OF assms(1-4)] assms(5) by auto
  then have w': "fat_ok disk w'" "fat_chain (fat disk w') (valid_cluster (fat32_fs w')) c ys"
    "mset (dir_entries (dir_slots disk w' ys)) = add_mset e (mset (dir_entries (dir_slots disk w xs)))"
    by (simp_all add: created_def)
  have old: "find ?P (dir_entries (dir_slots disk w xs)) = None"
    using find_in_cluster_ok [OF assms(1,2), of "directory_get_name e"] assms(6) by auto
  have set: "set (dir_entries (dir_slots disk w' ys)) = insert e (set (dir_entries (dir_slots disk w xs)))"
    using w'(3) by (metis set_mset_add_mset_insert set_mset_mset)
  have "find ?P (dir_entries (dir_slots disk w' ys)) = Some e"
  proof (cases "find ?P (dir_entries (dir_slots disk w' ys))")
    case None
    then show ?thesis using set by (auto simp: find_None_all)
  next
    case (Some x)
    then have "x \<in> set (dir_entries (dir_slots disk w' ys))" "?P x"
      by (auto simp: find_Some_iff)
    then show ?thesis using Some old set by (auto simp: find_None_all)
  qed
  then show ?thesis
    using find_in_cluster_ok [OF w'(1,2), of "directory_get_name e"] by auto
qed

theorem create_then_find_witness:
  "\<exists>w'. directory_create_entry_in_cluster demo_disk 2 demo_entry demo_fat = Some (True, w') \<and>
    map_option fst (directory_find_in_cluster demo_disk 2 (bytes ''FOO.TXT'') w') = Some (Some demo_entry)"
proof -
  have "zero_slot \<in> set (dir_slots demo_disk demo_fat [2])" by (simp del: replicate.simps)
  then obtain w' where w': "directory_create_entry_in_cluster demo_disk 2 demo_entry demo_fat = Some (True, w')"
    using create_entry_in_cluster_ok [of demo_disk demo_fat 2 "[2]" demo_entry, OF demo_ok demo_root_chain']
    by (fastforce simp del: replicate.simps fat_chain.simps)
  obtain w0 where "directory_find_in_cluster demo_disk 2 (bytes ''FOO.TXT'') demo_fat = Some (None, w0)"
    using find_in_cluster_ok [OF demo_ok demo_root_chain', of "bytes ''FOO.TXT''"]
    by (auto simp del: replicate.simps fat_chain.simps)
  then show ?thesis
    using w' create_then_find [of demo_disk demo_fat 2 "[2]" demo_entry w' w0, OF demo_ok demo_root_chain']
    by (simp add: bytes_def del: replicate.simps fat_chain.simps)
qed

text \<open>C32. \<open>directory_delete_in_cluster\<close> removes the first entry with the name and nothing else: it
  reports whether there was one, the other entries stay in their order, the directory stays well
  formed, and neither the table nor a sector outside the directory changes.\<close>

theorem directory_delete_removes:
  assumes "fat_ok disk w" "fat_chain (fat disk w) (valid_cluster (fat32_fs w)) c xs"
    and "dir_wf (dir_slots disk w xs)"
  shows "\<exists>w'. directory_delete_in_cluster disk c name w =
      Some (\<exists>e \<in> set (dir_entries (dir_slots disk w xs)). str_eq (directory_get_name e) name, w') \<and>
    dir_frame disk w w' (dir_lbas w xs) \<and> dir_wf (dir_slots disk w' xs) \<and>
    dir_entries (dir_slots disk w' xs) =
      replace_first (\<lambda>e. str_eq (directory_get_name e) name) [] (dir_entries (dir_slots disk w xs))"
  by (rule delete_in_cluster_ok [OF assms])

theorem directory_delete_removes_witness:
  "\<exists>w'. directory_delete_in_cluster demo_disk 2 (bytes ''FOO.TXT'') demo_dir = Some (True, w') \<and>
    dir_entries (dir_slots demo_disk w' [2]) = []"
  using directory_delete_removes [of demo_disk demo_dir 2 "[2]" "bytes ''FOO.TXT''"]
  by (auto simp: bytes_def simp del: fat_chain.simps)

text \<open>\<open>directory_rename_entry\<close> and \<open>directory_update_entry\<close> replace the first entry with the old
  name, respectively with the same eleven name bytes, in its place, and fail without a change
  when there is none.\<close>

theorem directory_rename_update_replace:
  assumes "fat_ok disk w" "fat_chain (fat disk w) (valid_cluster (fat32_fs w)) c xs"
    and "dir_wf (dir_slots disk w xs)" "entry_wf entry"
  shows "(\<exists>w'. directory_rename_entry disk c name entry w =
      Some (\<exists>e \<in> set (dir_entries (dir_slots disk w xs)). str_eq (directory_get_name e) name, w') \<and>
    dir_frame disk w w' (dir_lbas w xs) \<and> dir_wf (dir_slots disk w' xs) \<and>
    dir_entries (dir_slots disk w' xs) =
      replace_first (\<lambda>e. str_eq (directory_get_name e) name) [entry] (dir_entries (dir_slots disk w xs))) \<and>
   (\<exists>w'. directory_update_entry disk c entry w =
      Some (\<exists>e \<in> set (dir_entries (dir_slots disk w xs)). de_name e = de_name entry, w') \<and>
    dir_frame disk w w' (dir_lbas w xs) \<and> dir_wf (dir_slots disk w' xs) \<and>
    dir_entries (dir_slots disk w' xs) =
      replace_first (\<lambda>e. de_name e = de_name entry) [entry] (dir_entries (dir_slots disk w xs)))"
  using rename_entry_ok [OF assms, of name] update_entry_ok [OF assms] by simp

theorem directory_rename_update_replace_witness:
  "\<exists>w'. directory_update_entry demo_disk 2 (demo_entry\<lparr>de_file_size := 5\<rparr>) demo_dir = Some (True, w') \<and>
    dir_entries (dir_slots demo_disk w' [2]) = [demo_entry\<lparr>de_file_size := 5\<rparr>]"
proof -
  have "entry_wf (demo_entry\<lparr>de_file_size := 5\<rparr>)"
    using demo_entry_wf by (simp add: entry_wf_def)
  then show ?thesis
    using directory_rename_update_replace [of demo_disk demo_dir 2 "[2]" "demo_entry\<lparr>de_file_size := 5\<rparr>" "[]"]
    by (auto simp del: fat_chain.simps)
qed

text \<open>\<open>directory_is_empty\<close> answers whether every visible entry is one of the two dot entries and
  writes nothing.\<close>

theorem directory_is_empty_correct:
  assumes "fat_ok disk w" "fat_chain (fat disk w) (valid_cluster (fat32_fs w)) c xs"
    and "dir_wf (dir_slots disk w xs)"
  shows "map_option fst (directory_is_empty disk c w) =
      Some (\<forall>e \<in> set (dir_entries (dir_slots disk w xs)).
        str_eq (directory_get_name e) (bytes ''.'') \<or> str_eq (directory_get_name e) (bytes ''..'')) \<and>
    medium (snd (the (directory_is_empty disk c w))) = medium w"
  using is_empty_ok [OF assms] quiet_fields(4) by (auto simp: empty_listing_def bytes_def)

theorem directory_is_empty_correct_witness:
  "map_option fst (directory_is_empty demo_disk 2 demo_fat) = Some True \<and>
   map_option fst (directory_is_empty demo_disk 2 demo_dir) = Some False"
  using directory_is_empty_correct [OF demo_ok demo_root_chain']
    directory_is_empty_correct [of demo_disk demo_dir 2 "[2]"]
  by (simp add: bytes_def del: fat_chain.simps replicate.simps)

end
