(* ===== verification/PathProps.thy ===== *)
theory PathProps
  imports Path DirProps
begin

text \<open>
  Paths against their reference meaning: splitting against the fields between slashes, the
  in-place normalisation against a walk over a stack of names, the absolute path against the
  position such a walk reaches, and lookup against the resolution of names through well-formed
  directories.
\<close>

section \<open>Splitting\<close>

function fields :: "u8 list \<Rightarrow> u8 list list" where
  "fields path =
     (if path = [] then []
      else takeWhile (\<lambda>c. c \<noteq> slash) path # fields (tl (dropWhile (\<lambda>c. c \<noteq> slash) path)))"
  by pat_completeness auto
termination
proof (relation "measure length")
  fix path :: "u8 list"
  assume "path \<noteq> []"
  then have "0 < length path" by simp
  then have "length (tl (dropWhile (\<lambda>c. c \<noteq> slash) path)) < length path"
    using length_dropWhile_le [of "\<lambda>c. c \<noteq> slash" path] unfolding length_tl by linarith
  then show "(tl (dropWhile (\<lambda>c. c \<noteq> slash) path), path) \<in> measure length" by simp
qed simp

declare fields.simps [simp del]

lemma fields_Nil [simp]: "fields [] = []"
  by (simp add: fields.simps)

lemma take_component_eq:
  assumes "length acc \<le> 63"
  shows "take_component path acc =
    (if length acc + length (takeWhile (\<lambda>c. c \<noteq> slash) path) \<le> 63
     then Some (acc @ takeWhile (\<lambda>c. c \<noteq> slash) path, dropWhile (\<lambda>c. c \<noteq> slash) path) else None)"
  using assms by (induction path arbitrary: acc) auto

definition fields_ok :: "u8 list list \<Rightarrow> bool" where
  "fields_ok cs \<longleftrightarrow> length cs \<le> PATH_MAX_COMPONENTS \<and> (\<forall>c \<in> set cs. length c < PATH_MAX_NAME)"

lemma split_loop_eq:
  "length acc \<le> 16 \<Longrightarrow> split_loop path acc =
     (if length acc + length (fields path) \<le> 16 \<and> (\<forall>c \<in> set (fields path). length c < 64)
      then Some (acc @ fields path) else None)"
proof (induction path arbitrary: acc rule: fields.induct)
  case (1 path)
  show ?case
  proof (cases "path = []")
    case True
    then show ?thesis using "1.prems" by (simp add: split_loop.simps [of "[]"])
  next
    case False
    let ?c = "takeWhile (\<lambda>c. c \<noteq> slash) path" and ?r = "dropWhile (\<lambda>c. c \<noteq> slash) path"
    have r: "(if ?r \<noteq> [] \<and> hd ?r = slash then tl ?r else ?r) = tl ?r"
    proof (cases ?r)
      case (Cons a b)
      then show ?thesis using hd_dropWhile [of "\<lambda>c. c \<noteq> slash" path] by simp
    next
      case Nil
      show ?thesis unfolding Nil by simp
    qed
    have f: "fields path = ?c # fields (tl ?r)" using False by (simp add: fields.simps [of path])
    show ?thesis
    proof (cases "length acc < 16 \<and> length ?c < 64")
      case True
      then have "take_component path [] = Some (?c, ?r)"
        by (simp add: take_component_eq)
      then have "split_loop path acc = split_loop (tl ?r) (acc @ [?c])"
        using False True r by (simp add: split_loop.simps [of path])
      then show ?thesis using "1.IH" [OF False, of "acc @ [?c]"] True f by simp
    next
      case long: False
      then have "split_loop path acc = None"
        using False by (auto simp: split_loop.simps [of path] take_component_eq)
      then show ?thesis using long f by auto
    qed
  qed
qed

definition path_abs :: "u8 list \<Rightarrow> bool" where
  "path_abs path \<longleftrightarrow> path \<noteq> [] \<and> hd path = slash"

definition path_fields :: "u8 list \<Rightarrow> u8 list list" where
  "path_fields path = fields (if path_abs path then tl path else path)"

lemma path_split_eq:
  "path_split path =
     (if fields_ok (path_fields path)
      then Some \<lparr>components = path_fields path, path_count = length (path_fields path),
                 absolute = path_abs path\<rparr>
      else None)"
  unfolding path_split_def Let_def path_fields_def path_abs_def
  by (simp add: split_loop_eq fields_ok_def)

fun join_slash :: "u8 list list \<Rightarrow> u8 list" where
  "join_slash [] = []"
| "join_slash [c] = c"
| "join_slash (c # cs) = c @ slash # join_slash cs"

definition render :: "u8 list list \<Rightarrow> u8 list" where
  "render cs = slash # join_slash cs"

lemma takeWhile_field: "slash \<notin> set c \<Longrightarrow> takeWhile (\<lambda>c. c \<noteq> slash) c = c \<and> dropWhile (\<lambda>c. c \<noteq> slash) c = []"
  by (induction c) auto

lemma fields_join:
  "\<forall>c \<in> set cs. c \<noteq> [] \<and> slash \<notin> set c \<Longrightarrow> fields (join_slash cs) = cs"
proof (induction cs rule: join_slash.induct)
  case 1
  then show ?case by (simp add: fields.simps)
next
  case (2 c)
  then have "c \<noteq> []" "takeWhile (\<lambda>x. x \<noteq> slash) c = c" "dropWhile (\<lambda>x. x \<noteq> slash) c = []"
    using takeWhile_field [of c] by auto
  then show ?case unfolding join_slash.simps by (subst fields.simps) (simp only: list.sel fields_Nil if_False)
next
  case (3 c d cs)
  have "takeWhile (\<lambda>c. c \<noteq> slash) (c @ slash # join_slash (d # cs)) = c"
    "dropWhile (\<lambda>c. c \<noteq> slash) (c @ slash # join_slash (d # cs)) = slash # join_slash (d # cs)"
    using 3 takeWhile_field [of c] by (auto simp: takeWhile_append dropWhile_append)
  then show ?case
    using 3 by (subst fields.simps) simp
qed

text \<open>\<open>path_split\<close> takes a path apart at its slashes: it fails exactly when there are more than
  16 fields or a field of more than 63 bytes, and an absolute path written from names that are
  not empty and contain no slash splits into these names.\<close>

theorem path_split_fields:
  "(path_split path =
     (if fields_ok (path_fields path)
      then Some \<lparr>components = path_fields path, path_count = length (path_fields path),
                 absolute = path_abs path\<rparr>
      else None)) \<and>
   (fields_ok cs \<and> (\<forall>c \<in> set cs. c \<noteq> [] \<and> slash \<notin> set c) \<longrightarrow>
      path_split (render cs) = Some \<lparr>components = cs, path_count = length cs, absolute = True\<rparr>)"
  using fields_join [of cs] path_split_eq [of "render cs"]
  by (auto simp: path_split_eq [of path] path_fields_def path_abs_def render_def)

theorem path_split_fields_witness:
  "path_split (bytes ''/usr/bin'') =
     Some \<lparr>components = [bytes ''usr'', bytes ''bin''], path_count = 2, absolute = True\<rparr>"
  using path_split_fields [of "[]" "[bytes ''usr'', bytes ''bin'']"]
  by (simp add: fields_ok_def bytes_def render_def)

section \<open>Normalising\<close>

definition push :: "bool \<Rightarrow> u8 list list \<Rightarrow> u8 list \<Rightarrow> u8 list list" where
  "push is_abs st c =
     (if c = dot_name then st
      else if c = dotdot_name
      then if st \<noteq> [] \<and> last st \<noteq> dotdot_name then butlast st
           else if is_abs then st else st @ [c]
      else st @ [c])"

definition nul_free :: "u8 list list \<Rightarrow> bool" where
  "nul_free cs \<longleftrightarrow> (\<forall>c \<in> set cs. 0 \<notin> set c)"

lemma normalize_fold:
  assumes "nul_free cs" "n \<le> length cs"
  shows "\<exists>comps wr. fold (normalize_step is_abs) [0..<n] (cs, 0) = (comps, wr) \<and> wr \<le> n \<and>
    length comps = length cs \<and> drop n comps = drop n cs \<and>
    take wr comps = foldl (push is_abs) [] (take n cs)"
  using assms(2)
proof (induction n)
  case 0
  then show ?case by simp
next
  case (Suc n)
  then obtain comps wr where IH: "fold (normalize_step is_abs) [0..<n] (cs, 0) = (comps, wr)" "wr \<le> n"
    "length comps = length cs" "drop n comps = drop n cs"
    "take wr comps = foldl (push is_abs) [] (take n cs)"
    by auto
  let ?c = "cs ! n"
  have n: "n < length cs" using Suc.prems by simp
  have c: "comps ! n = ?c"
    using IH(3,4) n by (metis hd_drop_conv_nth)
  have dn: "drop (Suc n) comps = drop (Suc n) cs"
    using IH(4) by (metis drop_Suc tl_drop)
  have wl: "wr < length comps" using IH(2,3) n by simp
  have nf: "0 \<notin> set ?c" using assms(1) n by (simp add: nul_free_def)
  have st: "foldl (push is_abs) [] (take (Suc n) cs) = push is_abs (take wr comps) ?c"
    using n IH(5) by (simp add: take_Suc_conv_app_nth)
  have mem: "0 \<notin> set (last (take wr comps))" if "wr > 0"
  proof -
    have sub: "set (foldl (push is_abs) [] xs) \<subseteq> set xs" for xs
    proof (induction xs rule: rev_induct)
      case (snoc x xs)
      then show ?case by (auto simp: push_def dest!: in_set_butlastD)
    qed simp
    have "last (take wr comps) \<in> set (take n cs)"
      using sub [of "take n cs"] IH(5) that wl by (metis last_in_set less_numeral_extra(3) list.size(3)
        length_take min.absorb4 subsetD)
    then show ?thesis using assms(1) by (auto simp: nul_free_def dest: in_set_takeD)
  qed
  have last: "comps ! (wr - 1) = last (take wr comps)" if "wr > 0"
    using that wl by (subst last_conv_nth) auto
  have store: "fst (let s = (if wr \<noteq> n then comps[wr := ?c] else comps) in (s, Suc wr)) = comps[wr := ?c]"
    using c list_update_id [of comps n] by (auto simp: Let_def)
  have tk: "take (Suc wr) (comps[wr := ?c]) = take wr comps @ [?c]"
    using wl by (rule take_Suc_update)
  have dk: "drop (Suc n) (comps[wr := ?c]) = drop (Suc n) cs"
    using IH(2) dn by simp
  have step: "normalize_step is_abs n (comps, wr) =
     (if ?c = dot_name then (comps, wr)
      else if ?c = dotdot_name
      then if wr > 0 \<and> last (take wr comps) \<noteq> dotdot_name then (comps, wr - 1)
           else if is_abs then (comps, wr) else (comps[wr := ?c], Suc wr)
      else (comps[wr := ?c], Suc wr))"
    using c nf mem last store by (auto simp: Let_def)
  have bl: "take (wr - 1) comps = butlast (take wr comps)"
    using wl by (simp add: butlast_take)
  have f: "fold (normalize_step is_abs) [0..<Suc n] (cs, 0) = normalize_step is_abs n (comps, wr)"
    using IH(1) by simp
  show ?case
    unfolding f step st
    using IH(2,3) dn dk tk bl wl by (auto simp: push_def)
qed

lemma normalize_ok:
  assumes "nul_free (components p)" "path_count p = length (components p)"
  shows "take (path_count (path_normalize p)) (components (path_normalize p)) =
      foldl (push (absolute p)) [] (components p)"
    and "absolute (path_normalize p) = absolute p"
    and "path_count (path_normalize p) = length (foldl (push (absolute p)) [] (components p))"
proof -
  obtain comps wr where n: "fold (normalize_step (absolute p)) [0..<path_count p] (components p, 0) = (comps, wr)"
    "wr \<le> path_count p" "length comps = length (components p)"
    "take wr comps = foldl (push (absolute p)) [] (components p)"
    using normalize_fold [OF assms(1), of "path_count p" "absolute p"] assms(2) by auto
  then show "take (path_count (path_normalize p)) (components (path_normalize p)) =
      foldl (push (absolute p)) [] (components p)"
    and "absolute (path_normalize p) = absolute p"
    by (simp_all add: path_normalize_def)
  have "length (take wr comps) = wr" using n(2,3) assms(2) by simp
  then show "path_count (path_normalize p) = length (foldl (push (absolute p)) [] (components p))"
    using n(1,4) by (simp add: path_normalize_def)
qed

text \<open>The walk: a position in a tree of directories is the list of names from the root.\<close>

definition walk_step :: "u8 list list \<Rightarrow> u8 list \<Rightarrow> u8 list list" where
  "walk_step pos c = (if c = dot_name then pos else if c = dotdot_name then butlast pos else pos @ [c])"

definition walk :: "u8 list list \<Rightarrow> u8 list list \<Rightarrow> u8 list list" where
  "walk pos cs = foldl walk_step pos cs"

definition proper :: "u8 list \<Rightarrow> bool" where
  "proper c \<longleftrightarrow> c \<noteq> dot_name \<and> c \<noteq> dotdot_name"

lemma push_absolute:
  "\<forall>c \<in> set st. proper c \<Longrightarrow>
   foldl (push True) st cs = walk st cs \<and> (\<forall>c \<in> set (walk st cs). proper c)"
proof (induction cs arbitrary: st)
  case Nil
  then show ?case by (simp add: walk_def)
next
  case (Cons c cs)
  have "push True st c = walk_step st c"
    using Cons.prems by (cases "st = []") (auto simp: push_def walk_step_def proper_def)
  moreover have "\<forall>x \<in> set (walk_step st c). proper x"
    using Cons.prems by (auto simp: walk_step_def proper_def dest: in_set_butlastD)
  ultimately show ?case using Cons.IH [of "walk_step st c"] by (simp add: walk_def)
qed

lemma walk_append: "walk pos (xs @ ys) = walk (walk pos xs) ys"
  by (simp add: walk_def)

lemma walk_push: "dot_name \<notin> set st \<Longrightarrow> walk pos (push False st c) = walk pos (st @ [c])"
proof (cases "c = dotdot_name \<and> st \<noteq> [] \<and> last st \<noteq> dotdot_name")
  case True
  assume "dot_name \<notin> set st"
  then have l: "last st \<noteq> dot_name" using True by (metis last_in_set)
  have "walk pos (st @ [c]) = walk pos (butlast st @ [last st] @ [c])"
    using True by (metis append_butlast_last_id append.assoc)
  also have "\<dots> = butlast (walk pos (butlast st) @ [last st])"
    using True l by (simp add: walk_def walk_step_def)
  finally show ?thesis using True by (simp add: push_def)
qed (auto simp: push_def walk_def walk_step_def)

lemma push_no_dot: "dot_name \<notin> set st \<Longrightarrow> dot_name \<notin> set (push is_abs st c)"
  by (auto simp: push_def dest: in_set_butlastD)

lemma push_relative: "dot_name \<notin> set st \<Longrightarrow> walk pos (foldl (push False) st cs) = walk pos (st @ cs)"
proof (induction cs arbitrary: st)
  case Nil
  then show ?case by simp
next
  case (Cons c cs)
  have "walk pos (foldl (push False) st (c # cs)) = walk pos (push False st c @ cs)"
    using Cons.IH [of "push False st c"] push_no_dot [OF Cons.prems] by simp
  also have "\<dots> = walk pos (st @ c # cs)"
    using walk_push [OF Cons.prems, of pos c] by (simp add: walk_append) (simp add: walk_def)
  finally show ?case .
qed

text \<open>C31. \<open>path_normalize\<close>, which overwrites the component array while it reads it, keeps the meaning
  of the path: from every directory the normalised components lead where the given ones lead, and
  an absolute path becomes exactly the list of names of that place, with no dot entries left.\<close>

theorem path_normalize_meaning:
  assumes "nul_free (components p)" "path_count p = length (components p)"
    and "path_normalize p = q" "take (path_count q) (components q) = cs"
  shows "absolute q = absolute p \<and> path_count q \<le> path_count p \<and>
    (if absolute p then cs = walk [] (components p) \<and> (\<forall>c \<in> set cs. proper c)
     else walk pos cs = walk pos (components p))"
proof -
  have len: "length (foldl (push b) st xs) \<le> length st + length xs" for b st xs
  proof (induction xs arbitrary: st)
    case (Cons x xs)
    have "length (push b st x) \<le> Suc (length st)" by (auto simp: push_def)
    then show ?case using Cons [of "push b st x"] by simp
  qed simp
  have cs: "cs = foldl (push (absolute p)) [] (components p)"
    using normalize_ok(1) [OF assms(1,2)] assms(3,4) by simp
  moreover have "path_count q \<le> path_count p"
    using normalize_ok(3) [OF assms(1,2)] assms(2,3) len [of "absolute p" "[]" "components p"] by simp
  moreover have "absolute q = absolute p" using normalize_ok(2) [OF assms(1,2)] assms(3) by simp
  ultimately show ?thesis
    using push_absolute [of "[]" "components p"] push_relative [of "[]" pos "components p"]
    by (cases "absolute p") auto
qed

theorem path_normalize_meaning_witness:
  "walk [bytes ''home'']
     (take (path_count (path_normalize \<lparr>components = [bytes ''a'', bytes ''..'', bytes ''b''], path_count = 3, absolute = False\<rparr>))
        (components (path_normalize \<lparr>components = [bytes ''a'', bytes ''..'', bytes ''b''], path_count = 3, absolute = False\<rparr>)))
   = [bytes ''home'', bytes ''b'']"
  using path_normalize_meaning [of "\<lparr>components = [bytes ''a'', bytes ''..'', bytes ''b''], path_count = 3, absolute = False\<rparr>",
      OF _ _ refl refl, of "[bytes ''home'']"]
  by (simp add: nul_free_def bytes_def walk_def walk_step_def)

section \<open>The path of the working directory\<close>

lemma output_loop_eq:
  "output_loop cs i out =
     (if cs = [] then Some out
      else let r = (if i = 0 then out else out @ [slash]) @ join_slash cs
           in if length r < 256 then Some r else None)"
proof (induction cs arbitrary: i out)
  case Nil
  then show ?case by simp
next
  case (Cons c cs)
  have step: "output_loop (c # cs) i out =
      (if length out + (if i \<noteq> 0 then 1 else 0) + length c \<ge> 256 then None
       else output_loop cs (Suc i) ((if i \<noteq> 0 then out @ [slash] else out) @ c))"
    by (simp add: Let_def)
  show ?case
    unfolding step Cons.IH by (cases cs) (auto simp: Let_def)
qed

lemma output_render:
  "output_loop cs 0 [slash] = (if cs = [] \<or> length (render cs) < 256 then Some (render cs) else None)"
  by (simp add: output_loop_eq render_def Let_def)

lemma path_fields_render:
  "\<forall>c \<in> set cs. c \<noteq> [] \<and> slash \<notin> set c \<Longrightarrow> path_fields (render cs) = cs"
  using fields_join by (simp add: path_fields_def path_abs_def render_def)

lemma nul_free_Nil [simp]: "nul_free []"
  by (simp add: nul_free_def)

lemma nul_free_fields:
  "0 \<notin> set path \<Longrightarrow> nul_free (fields path)"
proof (induction path rule: fields.induct)
  case (1 path)
  show ?case
  proof (cases "path = []")
    case True
    then show ?thesis by simp
  next
    case False
    have "0 \<notin> set (tl (dropWhile (\<lambda>c. c \<noteq> slash) path))"
      using "1.prems" by (metis list.set_sel(2) set_dropWhileD tl_Nil)
    moreover have "0 \<notin> set (takeWhile (\<lambda>c. c \<noteq> slash) path)"
      using "1.prems" set_takeWhileD by fastforce
    ultimately show ?thesis
      using "1.IH" [OF False] by (subst fields.simps) (simp add: nul_free_def)
  qed
qed

lemma nul_free_path_fields: "0 \<notin> set path \<Longrightarrow> nul_free (path_fields path)"
  unfolding path_fields_def by (cases path) (auto intro: nul_free_fields)

text \<open>C33. \<open>path_build_absolute\<close> computes where \<open>cd input\<close> leads: with the current path written from the
  names \<open>ns\<close>, the result is the path of the place that the fields of the input lead to from there,
  or from the root when the input starts with a slash, as long as the limits on the number of
  components, their length and the length of the result are kept.\<close>

theorem path_build_absolute_meaning:
  assumes "\<forall>c \<in> set ns. c \<noteq> [] \<and> slash \<notin> set c \<and> 0 \<notin> set c \<and> proper c" "fields_ok ns"
    and "0 \<notin> set input" "fields_ok (path_fields input)"
    and "\<not> path_abs input \<longrightarrow> length ns + length (path_fields input) \<le> PATH_MAX_COMPONENTS"
    and "target = walk (if path_abs input then [] else ns) (path_fields input)"
  shows "path_build_absolute (render ns) input =
    (if target = [] \<or> length (render target) < 256 then Some (render target) else None)"
proof -
  have r: "path_fields (render ns) = ns" "path_abs (render ns)"
    using assms(1) path_fields_render [of ns] by (auto simp: path_abs_def render_def)
  obtain cs where cs: "cs = (if path_abs input then path_fields input else ns @ path_fields input)"
    by simp
  let ?p = "\<lparr>components = cs, path_count = length cs, absolute = True\<rparr>"
  have path: "(if input \<noteq> [] \<and> hd input = slash then path_split input
               else do { base_path \<leftarrow> path_split (render ns); input_path \<leftarrow> path_split input;
                         join_paths base_path input_path }) = Some ?p"
    using assms(2,4,5) r cs
    by (auto simp: path_split_eq join_paths_def path_abs_def)
  have nf: "nul_free (components ?p)" "path_count ?p = length (components ?p)"
    using nul_free_path_fields [OF assms(3)] assms(1) cs by (auto simp: nul_free_def)
  have ns: "walk [] ns = ns"
  proof -
    have "walk st ns = st @ ns" for st
      using assms(1) by (induction ns arbitrary: st) (auto simp: walk_def walk_step_def proper_def)
    from this [of "[]"] show ?thesis by simp
  qed
  have tk: "take (path_count (path_normalize ?p)) (components (path_normalize ?p)) = target"
    using normalize_ok(1) [OF nf] push_absolute [of "[]" cs] assms(6) ns cs
    by (simp add: walk_append)
  show ?thesis
    unfolding path_build_absolute_def path Let_def Option.bind.simps(2) tk output_render ..
qed

theorem path_build_absolute_meaning_witness:
  "path_build_absolute (bytes ''/usr/bin'') (bytes ''../lib'') = Some (bytes ''/usr/lib'')"
proof -
  have "path_fields (bytes ''../lib'') = [bytes ''..'', bytes ''lib'']"
    by (simp add: path_fields_def path_abs_def bytes_def fields.simps)
  then show ?thesis
    using path_build_absolute_meaning [of "[bytes ''usr'', bytes ''bin'']" "bytes ''../lib''", OF _ _ _ _ _ refl]
    by (simp add: fields_ok_def bytes_def render_def proper_def path_abs_def walk_def walk_step_def)
qed

end
