(* ===== verification/PathLookup.thy ===== *)
theory PathLookup
  imports PathProps
begin

text \<open>
  Lookup of a path against the resolution of its names: \<open>resolves\<close> is the relation between a start
  directory, a list of names, the directory that holds the last name, and what that directory has
  under it.
\<close>

definition norm_fields :: "u8 list \<Rightarrow> u8 list list" where
  "norm_fields path = foldl (push (path_abs path)) [] (path_fields path)"

definition dir_chain :: "disk_t option \<Rightarrow> 'a fat_state_scheme \<Rightarrow> u32 \<Rightarrow> u32 list \<Rightarrow> bool" where
  "dir_chain disk w c xs \<longleftrightarrow> fat_chain (fat disk w) (valid_cluster (fat32_fs w)) c xs"

definition dir_find :: "disk_t option \<Rightarrow> 'a fat_state_scheme \<Rightarrow> u32 list \<Rightarrow> u8 list \<Rightarrow> dirent option" where
  "dir_find disk w xs name =
     find (\<lambda>e. str_eq (directory_get_name e) name) (dir_entries (dir_slots disk w xs))"

inductive resolves ::
  "disk_t option \<Rightarrow> 'a fat_state_scheme \<Rightarrow> u32 \<Rightarrow> u8 list list \<Rightarrow> u32 \<Rightarrow> dirent option \<Rightarrow> bool"
  for disk w where
  resolves_leaf: "dir_chain disk w c xs \<Longrightarrow> resolves disk w c [name] c (dir_find disk w xs name)"
| resolves_step: "dir_chain disk w c xs \<Longrightarrow> dir_find disk w xs name = Some d \<Longrightarrow>
    de_attributes d AND FAT32_ATTR_DIRECTORY \<noteq> 0 \<Longrightarrow>
    resolves disk w (directory_entry_cluster d) names p r \<Longrightarrow>
    resolves disk w c (name # names) p r"

inductive_cases resolves_NilE: "resolves disk w c [] p r"
inductive_cases resolves_ConsE: "resolves disk w c (name # names) p r"

lemma resolves_nonempty: "resolves disk w c names p r \<Longrightarrow> names \<noteq> []"
  by (auto elim: resolves.cases)

lemma resolves_fun:
  "resolves disk w c names p r \<Longrightarrow> resolves disk w c names p' r' \<Longrightarrow> p = p' \<and> r = r'"
proof (induction arbitrary: p' r' rule: resolves.induct)
  case (resolves_leaf c xs name)
  from resolves_leaf.prems show ?case
  proof (rule resolves_ConsE)
    fix ys assume "r' = dir_find disk w ys name" "p' = c" "dir_chain disk w c ys"
    then show ?thesis using resolves_leaf.hyps fat_chain_unique by (metis dir_chain_def)
  qed (auto dest: resolves_nonempty)
next
  case (resolves_step c xs name d names p r)
  from resolves_step.prems show ?case
  proof (rule resolves_ConsE)
    assume "names = []"
    then show ?thesis using resolves_step.hyps(4) resolves_nonempty by blast
  next
    fix ys e assume "dir_chain disk w c ys" "dir_find disk w ys name = Some e"
      "resolves disk w (directory_entry_cluster e) names p' r'"
    moreover from this have "ys = xs" using resolves_step.hyps(1) fat_chain_unique by (metis dir_chain_def)
    ultimately show ?thesis using resolves_step by simp
  qed
qed

lemma dir_chain_quiet: "quiet w w' \<Longrightarrow> dir_chain disk w' c xs = dir_chain disk w c xs"
  by (simp add: dir_chain_def quiet_fat quiet_fields)

lemma dir_find_quiet: "quiet w w' \<Longrightarrow> dir_find disk w' xs name = dir_find disk w xs name"
  by (simp add: dir_find_def dir_slots_quiet)

lemma resolves_quiet: "resolves disk w c names p r \<Longrightarrow> quiet w w' \<Longrightarrow> resolves disk w' c names p r"
proof (induction rule: resolves.induct)
  case (resolves_leaf c xs name)
  then show ?case
    using resolves.resolves_leaf [of disk w' c xs name] by (simp add: dir_chain_quiet dir_find_quiet)
next
  case (resolves_step c xs name d names p r)
  then show ?case
    by (auto simp: dir_chain_quiet dir_find_quiet intro!: resolves.resolves_step [of disk w' c xs name d])
qed

lemma lookup_loop_ok:
  fixes w :: "'a fs_state_scheme"
  assumes "resolves disk w c names p r" "fat_ok disk w"
  shows "\<exists>w'. lookup_loop disk names c w = Some ((r, Some p), w') \<and> quiet w w'"
  using assms
proof (induction names arbitrary: c w)
  case Nil
  then show ?case using resolves_nonempty by blast
next
  case (Cons name names)
  from Cons.prems(1) show ?case
  proof (rule resolves_ConsE)
    fix xs assume a: "names = []" "p = c" "r = dir_find disk w xs name" "dir_chain disk w c xs"
    then obtain w' where x: "quiet w w'" "directory_find_in_cluster disk c name w = Some (r, w')"
      using find_in_cluster_ok [OF Cons.prems(2), of c xs name] by (auto simp: dir_chain_def dir_find_def)
    then show ?thesis using x a(1,2) by (cases r) (auto simp: Let_def)
  next
    fix xs d
    assume a: "dir_chain disk w c xs" "dir_find disk w xs name = Some d"
      "de_attributes d AND FAT32_ATTR_DIRECTORY \<noteq> 0"
      "resolves disk w (directory_entry_cluster d) names p r"
    obtain w1 where w1: "quiet w w1" "directory_find_in_cluster disk c name w = Some (Some d, w1)"
      using find_in_cluster_ok [OF Cons.prems(2), of c xs name] a(1,2) by (auto simp: dir_chain_def dir_find_def)
    obtain w2 where "lookup_loop disk names (directory_entry_cluster d) w1 = Some ((r, Some p), w2)" "quiet w1 w2"
      using Cons.IH [OF resolves_quiet [OF a(4) w1(1)] quiet_fat_okI [OF w1(1) Cons.prems(2)]] by blast
    moreover have "names \<noteq> []" using a(4) resolves_nonempty by blast
    ultimately show ?thesis
      using w1 a(3) quiet_trans [OF w1(1)] by auto
  qed
qed

lemma dotdot_nul_free: "0 \<notin> set dotdot_name"
  by simp

definition start_dir :: "u8 list \<Rightarrow> 'a fs_state_scheme \<Rightarrow> u32" where
  "start_dir path w = (if path_abs path then root_cluster (fat32_fs w) else fs_current_directory w)"

lemma path_lookup_ok:
  fixes w :: "'a fs_state_scheme"
  assumes "fat_ok disk w" "0 \<notin> set path" "fields_ok (path_fields path)"
    and "resolves disk w (start_dir path w) (norm_fields path) p r"
    and "\<not> (\<not> path_abs path \<and> norm_fields path = [dotdot_name] \<and>
      fs_current_directory w = root_cluster (fat32_fs w))"
  shows "\<exists>w'. path_lookup disk path w =
    Some (\<lparr>lk_entry = r, lk_parent = Some p, lk_leaf = Some (last (norm_fields path))\<rparr>, w') \<and> quiet w w'"
proof -
  let ?p = "\<lparr>components = path_fields path, path_count = length (path_fields path), absolute = path_abs path\<rparr>"
  let ?q = "path_normalize ?p"
  have nf: "nul_free (components ?p)" using nul_free_path_fields [OF assms(2)] by simp
  note q = normalize_ok [OF nf, simplified]
  have cs: "take (path_count ?q) (components ?q) = norm_fields path" "path_count ?q = length (norm_fields path)"
    "absolute ?q = path_abs path"
    using q by (simp_all add: norm_fields_def)
  have ne: "norm_fields path \<noteq> []" using assms(4) resolves_nonempty by blast
  obtain w' where w': "lookup_loop disk (norm_fields path) (start_dir path w) w = Some ((r, Some p), w')"
    "quiet w w'"
    using lookup_loop_ok [OF assms(4,1)] by blast
  have nul: "0 \<notin> set (norm_fields path ! 0)"
  proof -
    have sub: "set (foldl (push b) [] xs) \<subseteq> set xs" for b xs
    proof (induction xs rule: rev_induct)
      case (snoc x xs)
      then show ?case by (auto simp: push_def dest!: in_set_butlastD)
    qed simp
    have "norm_fields path ! 0 \<in> set (norm_fields path)" using ne by simp
    then show ?thesis using sub nf by (auto simp: norm_fields_def nul_free_def)
  qed
  have special: "(\<not> path_abs path \<and> length (norm_fields path) = 1 \<and>
      str_eq (norm_fields path ! 0) dotdot_name \<and> fs_current_directory w = root_cluster (fat32_fs w)) = False"
  proof -
    have "norm_fields path = [norm_fields path ! 0]" if "length (norm_fields path) = 1"
      using that by (cases "norm_fields path") auto
    then show ?thesis using assms(5) nul by (metis str_eq_iff dotdot_nul_free)
  qed
  have split: "path_split path = Some ?p" using assms(3) by (simp add: path_split_eq)
  have root: "(if path_abs path then root_cluster (fat32_fs w) else fs_current_directory w) = start_dir path w"
    by (simp add: start_dir_def)
  show ?thesis
    unfolding path_lookup_def Let_def split option.case fat_ok_not_None [OF assms(1)] if_False
    unfolding cs(1)
    unfolding cs(2,3) special root if_False
    using ne w' by simp
qed

text \<open>C34. \<open>path_lookup\<close> resolves a path: it returns, with the entry that the last name of the
  normalised path has in the directory reached through the names before it (or none, if that
  directory has no such name), with this directory as the parent and the last name as the leaf,
  and it writes nothing. The path that is the single component \<open>..\<close> is left out: the code treats it apart.\<close>

theorem path_lookup_resolves:
  fixes w :: "'a fs_state_scheme"
  assumes "fat_ok disk w" "0 \<notin> set path" "fields_ok (path_fields path)"
    and "resolves disk w (start_dir path w) (norm_fields path) p r"
    and "norm_fields path \<noteq> [dotdot_name]"
  shows "map_option fst (path_lookup disk path w) =
      Some \<lparr>lk_entry = r, lk_parent = Some p, lk_leaf = Some (last (norm_fields path))\<rparr> \<and>
    medium (snd (the (path_lookup disk path w))) = medium w"
  using path_lookup_ok [OF assms(1-4)] assms(5) quiet_fields(4) by auto

section \<open>A mounted demonstration volume\<close>

text \<open>What a state says about the volume depends on the drives and the geometry alone.\<close>

lemma same_view:
  fixes w :: "'a fat_state_scheme" and w' :: "'b fat_state_scheme"
  assumes "medium w' = medium w" "io_script w' = io_script w" "fat32_fs w' = fat32_fs w"
  shows "fat_ok disk w' = fat_ok disk w" "fat disk w' = fat disk w"
    "dir_slots disk w' xs = dir_slots disk w xs" "dir_chain disk w' c xs = dir_chain disk w c xs"
proof -
  have sec: "sec disk w' = sec disk w" for disk
    using assms(1) by (intro ext) (simp add: sec_def split: option.splits)
  then show "fat_ok disk w' = fat_ok disk w" "fat disk w' = fat disk w"
    using assms by (auto simp: fat_ok_def medium_wf_def healthy_def fat_def fun_eq_iff)
  moreover have "cluster_lbas w' = cluster_lbas w"
    using assms(3) by (intro ext) (simp add: cluster_lbas_def fat32_cluster_to_sector_def)
  ultimately show "dir_slots disk w' xs = dir_slots disk w xs" "dir_chain disk w' c xs = dir_chain disk w c xs"
    using assms(3) by (simp_all add: dir_slots_def slots_at_def dir_lbas_def dir_chain_def sec)
qed

definition mount_demo :: "fat_state \<Rightarrow> fs_state" where
  "mount_demo w = \<lparr>medium = medium w, io_script = io_script w, io_pos = io_pos w,
     fat32_fs = fat32_fs w,
     filesystem = \<lparr>fs_disk = demo_disk, fs_type = FS_FAT32, current_directory_cluster = 2,
       current_path = root_path, mounted = True\<rparr>\<rparr>"

lemma mount_demo_view [simp]:
  "fat_ok disk (mount_demo w) = fat_ok disk w" "fat disk (mount_demo w) = fat disk w"
  "dir_slots disk (mount_demo w) xs = dir_slots disk w xs"
  "dir_chain disk (mount_demo w) c xs = dir_chain disk w c xs"
  "fat32_fs (mount_demo w) = fat32_fs w"
  by (rule same_view; simp add: mount_demo_def)+ (simp add: mount_demo_def)

lemma mount_demo_dir [simp]: "fs_current_directory (mount_demo w) = 2"
  by (simp add: fs_current_directory_def mount_demo_def)

lemma demo_norm_fields [simp]: "norm_fields (bytes ''FOO.TXT'') = [bytes ''FOO.TXT'']"
  "path_fields (bytes ''FOO.TXT'') = [bytes ''FOO.TXT'']" "\<not> path_abs (bytes ''FOO.TXT'')"
  by (simp_all add: norm_fields_def path_fields_def path_abs_def bytes_def fields.simps push_def)

lemma demo_dir_chain: "dir_chain demo_disk demo_fat 2 [2]" "dir_chain demo_disk demo_dir 2 [2]"
  using demo_root_chain' demo_dir_ok(3) by (simp_all add: dir_chain_def del: fat_chain.simps)

lemma demo_resolves:
  "resolves demo_disk (mount_demo demo_dir) 2 [bytes ''FOO.TXT''] 2 (Some demo_entry)"
  "resolves demo_disk (mount_demo demo_fat) 2 [bytes ''FOO.TXT''] 2 None"
proof -
  have "dir_find demo_disk (mount_demo demo_dir) [2] (bytes ''FOO.TXT'') = Some demo_entry"
    "dir_find demo_disk (mount_demo demo_fat) [2] (bytes ''FOO.TXT'') = None"
    by (simp_all add: dir_find_def del: replicate.simps)
  then show "resolves demo_disk (mount_demo demo_dir) 2 [bytes ''FOO.TXT''] 2 (Some demo_entry)"
    "resolves demo_disk (mount_demo demo_fat) 2 [bytes ''FOO.TXT''] 2 None"
    using resolves_leaf [of demo_disk "mount_demo demo_dir" 2 "[2]" "bytes ''FOO.TXT''"]
      resolves_leaf [of demo_disk "mount_demo demo_fat" 2 "[2]" "bytes ''FOO.TXT''"] demo_dir_chain
    by simp_all
qed

theorem path_lookup_resolves_witness:
  "map_option fst (path_lookup demo_disk (bytes ''FOO.TXT'') (mount_demo demo_dir)) =
     Some \<lparr>lk_entry = Some demo_entry, lk_parent = Some 2, lk_leaf = Some (bytes ''FOO.TXT'')\<rparr>"
proof -
  have "0 \<notin> set (bytes ''FOO.TXT'')" "fields_ok [bytes ''FOO.TXT'']"
    "[bytes ''FOO.TXT''] \<noteq> [dotdot_name]"
    by (simp_all add: bytes_def fields_ok_def)
  then show ?thesis
    using path_lookup_resolves [of demo_disk "mount_demo demo_dir" "bytes ''FOO.TXT''" 2 "Some demo_entry"]
      demo_resolves(1)
    by (simp add: start_dir_def)
qed

end
