(* ===== verification/FileRead.thy ===== *)
theory FileRead
  imports FileOps PathLookup
begin

text \<open>
  Reading a file whose cluster chain is well formed. The bytes of a chain are those of its
  clusters in order; \<open>file_read\<close> delivers a slice of them that starts in the file's current cluster.
\<close>

section \<open>The bytes of clusters and chains\<close>

abbreviation cluster_size_of :: "'a fat_state_scheme \<Rightarrow> nat" where
  "cluster_size_of w \<equiv> 512 * unat (sectors_per_cluster (fat32_fs w))"

definition cluster_data :: "disk_t option \<Rightarrow> 'a fat_state_scheme \<Rightarrow> u32 \<Rightarrow> u8 list" where
  "cluster_data disk w c = concat (map (sec disk w) (cluster_lbas w c))"

definition chain_data :: "disk_t option \<Rightarrow> 'a fat_state_scheme \<Rightarrow> u32 list \<Rightarrow> u8 list" where
  "chain_data disk w xs = concat (map (cluster_data disk w) xs)"

lemma length_concat_const: "\<forall>x \<in> set xs. length (f x) = n \<Longrightarrow> length (concat (map f xs)) = n * length xs"
  by (induction xs) auto

lemma length_cluster_data [simp]:
  "medium_wf disk w \<Longrightarrow> length (cluster_data disk w c) = cluster_size_of w"
  unfolding cluster_data_def by (subst length_concat_const [where n = 512]) (auto simp: medium_wf_def)

lemma length_chain_data:
  "medium_wf disk w \<Longrightarrow> length (chain_data disk w xs) = cluster_size_of w * length xs"
  unfolding chain_data_def by (rule length_concat_const) simp

lemma cluster_data_quiet: "quiet w w' \<Longrightarrow> cluster_data disk w' c = cluster_data disk w c"
  using cluster_lbas_cong [OF quiet_fields(1), of w w' c] by (simp add: cluster_data_def quiet_sec)

lemma chain_data_quiet: "quiet w w' \<Longrightarrow> chain_data disk w' xs = chain_data disk w xs"
proof -
  assume "quiet w w'"
  then have "cluster_data disk w' = cluster_data disk w" by (intro ext cluster_data_quiet)
  then show ?thesis by (simp add: chain_data_def)
qed

lemma concat_slice:
  assumes "\<forall>x \<in> set xs. length x = n" "j < length xs" "off + m \<le> n"
  shows "take m (drop (j * n + off) (concat xs)) = take m (drop off (xs ! j))"
  using assms
proof (induction xs arbitrary: j)
  case Nil
  then show ?case by simp
next
  case (Cons x xs)
  show ?case
  proof (cases j)
    case 0
    then show ?thesis using Cons.prems by simp
  next
    case (Suc k)
    have "drop (j * n + off) (concat (x # xs)) = drop (k * n + off) (concat xs)"
      using Cons.prems(1) Suc by (simp add: add.assoc)
    then show ?thesis using Cons Suc by simp
  qed
qed

lemma read_sectors_ok:
  assumes "healthy w" "medium_wf disk w" "\<And>k. k < i + n \<Longrightarrow> in_disk disk (s + of_nat k)"
    and "512 * (i + n) \<le> length buf"
  shows "\<exists>w'. read_sectors disk s 512 i n buf w =
    (Some (take (512 * i) buf @ concat (map (\<lambda>k. sec disk w (s + of_nat k)) [i..<i + n])
       @ drop (512 * (i + n)) buf), w') \<and> quiet w w'"
  using assms
proof (induction n arbitrary: i buf w)
  case 0
  then show ?case by simp
next
  case (Suc n)
  let ?b = "sec disk w (s + of_nat i)"
  let ?buf = "put_block buf (i * 512) ?b"
  have lb: "length ?b = 512" using Suc.prems(2) by (simp add: medium_wf_def)
  have fit: "i * 512 + length ?b \<le> length buf" using Suc.prems(4) lb by simp
  have rd: "disk_read disk (s + of_nat i) w = (Some ?b, tick w)"
    using Suc.prems by (intro disk_read_ok) auto
  have sec: "sec disk (tick w) = sec disk w" by simp
  obtain w' where w': "read_sectors disk s 512 (Suc i) n ?buf (tick w) =
    (Some (take (512 * Suc i) ?buf @ concat (map (\<lambda>k. sec disk (tick w) (s + of_nat k)) [Suc i..<Suc i + n])
       @ drop (512 * (Suc i + n)) ?buf), w')" "quiet (tick w) w'"
    using Suc.IH [of "tick w" "Suc i" ?buf] Suc.prems fit by auto
  have "take (512 * Suc i) ?buf = take (512 * i) buf @ ?b"
    using fit lb by (simp add: put_block_def mult.commute)
  moreover have "drop (512 * (Suc i + n)) ?buf = drop (512 * (i + Suc n)) buf"
    using fit lb by (simp add: put_block_def algebra_simps)
  moreover have "[i..<i + Suc n] = i # [Suc i..<Suc i + n]"
    by (simp add: upt_conv_Cons del: upt_Suc)
  ultimately show ?case
    using rd w' quiet_tickI [OF w'(2)] by (simp del: upt_Suc)
qed

lemma read_cluster_ok:
  assumes "fat_ok disk w" "valid_cluster (fat32_fs w) c" "cluster_size_of w \<le> length buf"
  shows "\<exists>w'. fat32_read_cluster disk c buf w =
    (Some (cluster_data disk w c @ drop (cluster_size_of w) buf), w') \<and> quiet w w'"
proof -
  have g: "geometry_ok disk (fat32_fs w)" "healthy w" "medium_wf disk w"
    using assms(1) by (simp_all add: fat_ok_def)
  have bps: "unat (bytes_per_sector (fat32_fs w)) = 512" using geometry_okD(1) [OF g(1)] by simp
  have "map (\<lambda>k. sec disk w (fat32_cluster_to_sector c w + of_nat k)) [0..<unat (sectors_per_cluster (fat32_fs w))]
      = map (sec disk w) (cluster_lbas w c)"
    by (simp add: cluster_lbas_def)
  then show ?thesis
    using read_sectors_ok [OF g(2,3), of 0 "unat (sectors_per_cluster (fat32_fs w))"
        "fat32_cluster_to_sector c w" buf] cluster_in_disk(1) [OF g(1) assms(2)] assms(3)
    by (simp add: fat32_read_cluster_def bps cluster_data_def)
qed

lemma chain_next:
  assumes "fat_chain m V c xs" "Suc j < length xs"
  shows "m (xs ! j) = xs ! Suc j \<and> m (xs ! j) < FAT32_CLUSTER_LAST"
  using assms
proof (induction xs arbitrary: c j)
  case Nil
  then show ?case by simp
next
  case (Cons x xs)
  then have ne: "xs \<noteq> []" by auto
  then have ch: "fat_chain m V (m x) xs" "m x < FAT32_CLUSTER_LAST" using Cons.prems(1) by auto
  show ?case
  proof (cases j)
    case 0
    have "xs ! 0 = m x" using fat_chain_hd [OF ch(1)] by (metis hd_conv_nth)
    then show ?thesis using 0 ch(2) by simp
  next
    case (Suc k)
    then show ?thesis using Cons.IH [OF ch(1), of k] Cons.prems(2) by (metis Suc_less_eq length_Cons nth_Cons_Suc)
  qed
qed

section \<open>The read loop\<close>

text \<open>Both sizes of a cluster: the word the code computes and the number.\<close>

lemma cluster_bytes_unat:
  assumes "fat_ok disk w"
  shows "unat (cluster_bytes w) = cluster_size_of w" "0 < cluster_size_of w"
proof -
  have g: "geometry_ok disk (fat32_fs w)" using assms by (simp add: fat_ok_def)
  have "unat (ucast (512 :: u16) :: u32) * unat (ucast (sectors_per_cluster (fat32_fs w)) :: u32) < 2 ^ LENGTH(32)"
    using unat_spc_less [of "fat32_fs w"] by simp
  then show "unat (cluster_bytes w) = cluster_size_of w"
    using geometry_okD(1) [OF g] by (simp add: cluster_bytes_def unat_mult_lem [THEN iffD1])
  show "0 < cluster_size_of w" using geometry_okD(2) [OF g] by simp
qed

text \<open>
  The loop started in the \<open>j\<close>-th cluster of the chain delivers the bytes from there on, at the
  offset that the position has within a cluster. In a file that is in step, \<open>j\<close> is the position
  divided by the cluster size.
\<close>

lemma read_loop_step:
  assumes "k < n"
    and "fat32_read_cluster (f_disk f) (f_current_cluster f) (replicate 4096 0) w = (Some cb, w1)"
    and "t = (if n - k > cs - f_position f mod cs then cs - f_position f mod cs else n - k)"
    and "d = put_block dest (unat k) (take (unat t) (drop (unat (f_position f mod cs)) cb))"
    and "f1 = f\<lparr>f_position := f_position f + t\<rparr>"
  shows "read_loop f dest k n cs w =
    (if (f_position f + t) mod cs = 0 \<and> k + t < n
     then (case fat32_next_cluster (f_disk f) (f_current_cluster f) w1 of
             (next, w2) \<Rightarrow> if next \<ge> FAT32_INVALID_CLUSTER then Some (sint (k + t), f1, d, w2)
               else read_loop (f1\<lparr>f_current_cluster := next\<rparr>) d (k + t) n cs w2)
     else read_loop f1 d (k + t) n cs w1)"
  unfolding assms(3-5) by (subst read_loop.simps) (simp add: Let_def assms(1,2))

lemma read_loop_ok:
  assumes "fat_ok disk w" "dir_chain disk w c xs" "f_disk f = disk"
    and "cluster_size_of w \<le> 4096" "j < length xs" "f_current_cluster f = xs ! j"
    and "off = unat (f_position f) mod cluster_size_of w"
    and "unat k < unat n" "unat n \<le> length dest"
    and "j * cluster_size_of w + off + (unat n - unat k) \<le> length (chain_data disk w xs)"
    and "unat (f_position f) + (unat n - unat k) < 2 ^ 32"
  shows "\<exists>w' cur. read_loop f dest k n (cluster_bytes w) w =
    Some (sint n, f\<lparr>f_position := f_position f + (n - k), f_current_cluster := cur\<rparr>,
      put_block dest (unat k)
        (take (unat n - unat k) (drop (j * cluster_size_of w + off) (chain_data disk w xs))), w') \<and>
    quiet w w' \<and>
    cur = xs ! (j + (off + (unat n - unat k) - 1) div cluster_size_of w)"
  using assms
proof (induction "unat n - unat k" arbitrary: w f dest k j off rule: less_induct)
  case less
  let ?cs = "cluster_size_of w"
  note ok = less.prems(1)
  have cs: "unat (cluster_bytes w) = ?cs" "0 < ?cs" using cluster_bytes_unat [OF ok] by simp_all
  have g: "geometry_ok disk (fat32_fs w)" "medium_wf disk w" using ok by (simp_all add: fat_ok_def)
  have ch: "fat_chain (fat disk w) (valid_cluster (fat32_fs w)) c xs"
    using less.prems(2) by (simp add: dir_chain_def)
  have v: "valid_cluster (fat32_fs w) (xs ! j)" using fat_chain_valid [OF ch] less.prems(5) by simp
  let ?d = "cluster_data disk w (xs ! j)"
  obtain w1 where w1: "fat32_read_cluster disk (xs ! j) (replicate 4096 0) w =
      (Some (?d @ drop ?cs (replicate 4096 0)), w1)" "quiet w w1"
    using read_cluster_ok [OF ok v, of "replicate 4096 0"] less.prems(4) by auto
  have ld: "length ?d = ?cs" using g(2) by simp
  have off: "unat (f_position f mod cluster_bytes w) = off"
    using less.prems(7) cs by (simp add: unat_mod)
  have off_lt: "off < ?cs" using less.prems(7) cs by simp
  let ?pos = "f_position f"
  let ?offset = "?pos mod cluster_bytes w"
  let ?avail = "cluster_bytes w - ?offset"
  let ?t = "if n - k > ?avail then ?avail else n - k"
  have le: "k \<le> n" "?offset \<le> cluster_bytes w"
    using less.prems(8) off off_lt cs by (simp_all add: word_le_nat_alt)
  have av: "unat ?avail = ?cs - off" and nk: "unat (n - k) = unat n - unat k"
    using le off cs by (simp_all add: unat_sub)
  have t: "unat ?t = min (unat n - unat k) (?cs - off)"
    by (auto simp: word_less_nat_alt av nk min_def)
  have tle: "unat ?t \<le> unat n - unat k" using t by simp
  have t0: "0 < unat ?t" using t off_lt less.prems(8) by auto
  have kt: "unat (k + ?t) = unat k + unat ?t"
    using t less.prems(8) unat_u32_less [of n] by (intro unat_plus_small) simp
  have pt: "unat (?pos + ?t) = unat ?pos + unat ?t"
    using t less.prems(11) by (intro unat_plus_small) simp
  let ?k = "k + ?t"
  have take_eq: "take (unat ?t) (drop (unat ?offset) (?d @ drop ?cs (replicate 4096 0)))
      = take (unat ?t) (drop (j * ?cs + off) (chain_data disk w xs))"
  proof -
    have "take (unat ?t) (drop (j * ?cs + off) (chain_data disk w xs)) = take (unat ?t) (drop off ?d)"
      unfolding chain_data_def using less.prems(5) g(2) t off_lt
      by (subst concat_slice [where n = ?cs]) auto
    then show ?thesis using off t off_lt ld by simp
  qed
  let ?f = "f\<lparr>f_position := ?pos + ?t\<rparr>"
  let ?dest = "put_block dest (unat k) (take (unat ?t) (drop (j * ?cs + off) (chain_data disk w xs)))"
  have step: "read_loop f dest k n (cluster_bytes w) w =
    (if (?pos + ?t) mod cluster_bytes w = 0 \<and> ?k < n
     then (case fat32_next_cluster disk (xs ! j) w1 of
             (next, w2) \<Rightarrow> if next \<ge> FAT32_INVALID_CLUSTER then Some (sint ?k, ?f, ?dest, w2)
               else read_loop (?f\<lparr>f_current_cluster := next\<rparr>) ?dest ?k n (cluster_bytes w) w2)
     else read_loop ?f ?dest ?k n (cluster_bytes w) w1)"
    using read_loop_step [of k n f w _ w1 ?t "cluster_bytes w" ?dest dest ?f]
      less.prems(3,6,8) w1(1) take_eq [symmetric]
    by (simp only: word_less_nat_alt)
  have slice: "length (take m (drop (j * ?cs + off) (chain_data disk w xs))) = m"
    if "m \<le> unat n - unat k" for m
    using that less.prems(10) by simp
  show ?case
  proof (cases "unat ?k < unat n")
    case False
    then have kn: "unat ?t = unat n - unat k" using kt t by auto
    then have eq: "?t = n - k" "?k = n" using nk kt less.prems(8) by (simp_all add: word_unat_eq_iff)
    have fin: "read_loop f dest k n (cluster_bytes w) w = Some (sint n, ?f, ?dest, w1)"
      unfolding step using eq by (simp add: read_loop.simps)
    have "(off + (unat n - unat k) - 1) div ?cs = 0"
      using t kn off_lt by (intro div_less) simp
    moreover have "?f = f\<lparr>f_position := ?pos + (n - k), f_current_cluster := xs ! j\<rparr>"
      using eq(1) less.prems(6) by simp
    ultimately show ?thesis using fin w1(2) kn by auto
  next
    case True
    then have tt: "unat ?t = ?cs - off" using kt t by auto
    have pm: "unat ?pos + unat ?t = ?cs * Suc (unat ?pos div ?cs)"
    proof -
      have "unat ?pos = ?cs * (unat ?pos div ?cs) + off"
        using less.prems(7) mult_div_mod_eq [of ?cs "unat ?pos"] by simp
      then show ?thesis using tt off_lt by (simp only: mult_Suc_right)
    qed
    have m0: "(?pos + ?t) mod cluster_bytes w = 0"
      using pm cs pt by (simp add: word_unat_eq_iff unat_mod)
    have len: "length (chain_data disk w xs) = ?cs * length xs" using length_chain_data [OF g(2)] .
    have "j * ?cs + off + unat ?t < ?cs * length xs"
      using less.prems(10) True kt len by simp
    then have "?cs * Suc j < ?cs * length xs" using tt off_lt by (simp add: algebra_simps)
    then have sj: "Suc j < length xs" by (simp only: mult_less_cancel1)
    have cn: "fat disk w (xs ! j) = xs ! Suc j" "\<not> FAT32_CLUSTER_LAST \<le> xs ! Suc j"
      using chain_next [OF ch sj] by (auto simp: not_le)
    have nx: "fat32_next_cluster disk (xs ! j) w1 = (xs ! Suc j, tick w1)"
      using cn v quiet_fields(1) [OF w1(2)] quiet_fat [OF w1(2)]
        next_cluster_ok [OF quiet_fat_okI [OF w1(2) ok]]
      by simp
    have ni: "\<not> xs ! Suc j \<ge> FAT32_INVALID_CLUSTER"
      using cn(2) by (auto simp: not_le intro: less_trans)
    let ?f' = "?f\<lparr>f_current_cluster := xs ! Suc j\<rparr>"
    have q: "quiet w (tick w1)" using quiet_trans [OF w1(2) quiet_tick] .
    have fsq: "fat32_fs w1 = fat32_fs w" using quiet_fields(1) [OF w1(2)] .
    have cb: "cluster_bytes (tick w1) = cluster_bytes w" by (simp add: cluster_bytes_def fsq)
    have lt: "unat n - unat ?k < unat n - unat k" using True kt t0 by simp
    have "\<exists>w' cur. read_loop ?f' ?dest ?k n (cluster_bytes (tick w1)) (tick w1) =
      Some (sint n, ?f'\<lparr>f_position := f_position ?f' + (n - ?k), f_current_cluster := cur\<rparr>,
        put_block ?dest (unat ?k) (take (unat n - unat ?k)
          (drop (Suc j * cluster_size_of (tick w1) + 0) (chain_data disk (tick w1) xs))), w') \<and>
      quiet (tick w1) w' \<and>
      cur = xs ! (Suc j + (0 + (unat n - unat ?k) - 1) div cluster_size_of (tick w1))"
    proof (rule less.hyps [OF lt quiet_fat_okI [OF q ok]])
      show "dir_chain disk (tick w1) c xs" using less.prems(2) dir_chain_quiet [OF q] by simp
      show "0 = unat (f_position ?f') mod cluster_size_of (tick w1)"
        using pm pt by (simp add: fsq)
      show "Suc j * cluster_size_of (tick w1) + 0 + (unat n - unat ?k) \<le> length (chain_data disk (tick w1) xs)"
      proof -
        have "Suc j * ?cs + (unat n - unat ?k) = j * ?cs + off + (unat n - unat k)"
          using kt tt off_lt True by simp
        then show ?thesis using less.prems(10) by (simp add: fsq chain_data_quiet [OF q])
      qed
      show "unat (f_position ?f') + (unat n - unat ?k) < 2 ^ 32"
        using less.prems(11) pt kt True by simp
      have fit: "unat k + length (take (unat ?t) (drop (j * ?cs + off) (chain_data disk w xs))) \<le> length dest"
        unfolding slice [OF tle] using tle less.prems(8,9) by linarith
      show "unat n \<le> length ?dest" using less.prems(9) length_put_block [OF fit] by simp
    qed (use less.prems(3,4) True sj fsq in simp_all)
    then obtain w' where w': "read_loop ?f' ?dest ?k n (cluster_bytes w) (tick w1) =
      Some (sint n, ?f'\<lparr>f_position := ?pos + ?t + (n - ?k),
          f_current_cluster := xs ! (Suc j + (unat n - unat ?k - 1) div ?cs)\<rparr>,
        put_block ?dest (unat ?k) (take (unat n - unat ?k)
          (drop (Suc j * ?cs) (chain_data disk w xs))), w')" "quiet (tick w1) w'"
      by (auto simp: cb fsq chain_data_quiet [OF q])
    have app: "put_block ?dest (unat ?k) (take (unat n - unat ?k) (drop (Suc j * ?cs) (chain_data disk w xs)))
        = put_block dest (unat k) (take (unat n - unat k) (drop (j * ?cs + off) (chain_data disk w xs)))"
    proof -
      let ?D = "drop (j * ?cs + off) (chain_data disk w xs)"
      have "drop (Suc j * ?cs) (chain_data disk w xs) = drop (unat ?t) ?D"
        using tt off_lt by (simp add: algebra_simps)
      moreover have "take (unat n - unat k) ?D = take (unat ?t) ?D @ take (unat n - unat ?k) (drop (unat ?t) ?D)"
      proof -
        have e: "unat n - unat k = unat ?t + (unat n - unat ?k)" using kt tle True by linarith
        show ?thesis by (subst e) (rule take_add)
      qed
      ultimately show ?thesis
        using slice [OF tle] slice [of "unat n - unat k"] tle kt less.prems(8,9)
        by (simp add: put_block_def add.assoc)
    qed
    have pos: "?pos + ?t + (n - ?k) = ?pos + (n - k)" by simp
    have idx: "Suc j + (unat n - unat ?k - 1) div ?cs = j + (off + (unat n - unat k) - 1) div ?cs"
    proof -
      have "off + (unat n - unat k) - 1 = ?cs + (unat n - unat ?k - 1)"
        using kt tt off_lt True by simp
      moreover have ne: "?cs \<noteq> 0" using cs(2) by simp
      ultimately show ?thesis by (simp only: div_add_self1 [OF ne])
    qed
    have "read_loop f dest k n (cluster_bytes w) w =
        read_loop ?f' ?dest ?k n (cluster_bytes w) (tick w1)"
      unfolding step nx using m0 True ni by (simp add: word_less_nat_alt)
    moreover have "?f'\<lparr>f_position := x, f_current_cluster := y\<rparr> = f\<lparr>f_position := x, f_current_cluster := y\<rparr>"
      for x y by simp
    ultimately have "read_loop f dest k n (cluster_bytes w) w =
      Some (sint n, f\<lparr>f_position := ?pos + (n - k),
          f_current_cluster := xs ! (j + (off + (unat n - unat k) - 1) div ?cs)\<rparr>,
        put_block dest (unat k)
          (take (unat n - unat k) (drop (j * ?cs + off) (chain_data disk w xs))), w')"
      by (simp only: w'(1) app pos idx)
    then show ?thesis using quiet_trans [OF q w'(2)] by blast
  qed
qed

text \<open>Reading the bytes of a file from its position on.\<close>

lemma file_read_ok:
  assumes "fat_ok disk w" "dir_chain disk w c xs" "f_disk f = disk" "cluster_size_of w \<le> 4096"
    and "f_position f < f_size f" "unat (f_size f) \<le> length (chain_data disk w xs)"
    and "f_current_cluster f = xs ! (unat (f_position f) div cluster_size_of w)"
    and "n = (if nbytes > f_size f - f_position f then f_size f - f_position f else nbytes)"
    and "0 < nbytes" "unat n \<le> length dest"
  shows "\<exists>w' cur. file_read f dest nbytes w =
    Some (sint n, f\<lparr>f_position := f_position f + n, f_current_cluster := cur\<rparr>,
      take (unat n) (drop (unat (f_position f)) (chain_data disk w xs)) @ drop (unat n) dest, w') \<and>
    quiet w w' \<and>
    cur = xs ! ((unat (f_position f) + unat n - 1) div cluster_size_of w)"
proof -
  let ?p = "unat (f_position f)" and ?cs = "cluster_size_of w"
  have g: "medium_wf disk w" using assms(1) by (simp add: fat_ok_def)
  have cs: "unat (cluster_bytes w) = ?cs" "0 < ?cs" using cluster_bytes_unat [OF assms(1)] by simp_all
  have left: "unat (f_size f - f_position f) = unat (f_size f) - ?p"
    using assms(5) by (simp add: unat_sub order_less_imp_le)
  have n: "0 < unat n" "?p + unat n \<le> unat (f_size f)"
    using assms(5,8,9) left by (auto simp: word_less_nat_alt unat_gt_0 not_less word_le_nat_alt)
  have len: "length (chain_data disk w xs) = ?cs * length xs" using length_chain_data [OF g] .
  have j: "?p div ?cs < length xs"
    using n assms(6) len cs(2) by (simp add: div_less_iff_less_mult mult.commute)
  have pos: "?p div ?cs * ?cs + ?p mod ?cs = ?p" by (rule div_mult_mod_eq)
  have sz: "unat (f_size f) < 2 ^ 32" using unat_u32_less [of "f_size f"] by simp
  obtain w' cur where r: "read_loop f dest 0 n (cluster_bytes w) w =
    Some (sint n, f\<lparr>f_position := f_position f + (n - 0), f_current_cluster := cur\<rparr>,
      put_block dest 0 (take (unat n - 0) (drop (?p div ?cs * ?cs + ?p mod ?cs) (chain_data disk w xs))), w')"
    "quiet w w'" "cur = xs ! (?p div ?cs + (?p mod ?cs + (unat n - 0) - 1) div ?cs)"
    using read_loop_ok [OF assms(1-4) j assms(7) refl, of 0 n dest] n assms(6,10) pos sz by auto
  have "(?p mod ?cs + unat n - 1) div ?cs + ?p div ?cs = (?p + unat n - 1) div ?cs"
  proof -
    have "?p + unat n - 1 = (?p mod ?cs + unat n - 1) + ?p div ?cs * ?cs" using n(1) pos by linarith
    moreover have ne: "?cs \<noteq> 0" using cs(2) by simp
    ultimately show ?thesis by (simp only: div_mult_self1 [OF ne] add.commute)
  qed
  moreover have "file_read f dest nbytes w = read_loop f dest 0 n (cluster_bytes w) w"
  proof -
    have "(f_position f \<ge> f_size f) = False" using assms(5) by (simp add: not_le)
    moreover have "(cluster_bytes w = 0 \<or> cluster_bytes w > 4096) = False"
      using assms(4) cs by (auto simp: word_less_nat_alt word_unat_eq_iff [of "cluster_bytes w" 0])
    ultimately show ?thesis unfolding file_read_def Let_def assms(8) by (simp only: if_False)
  qed
  moreover have "length (take (unat n) (drop ?p (chain_data disk w xs))) = unat n"
    using n(2) assms(6) by simp
  ultimately show ?thesis
    using r pos assms(10) by (simp add: put_block_def add.commute)
qed

end
