(* ===== verification/FileProps.thy ===== *)
theory FileProps
  imports FileRead
begin

text \<open>
  The properties of files: what a read delivers, and what creating a file does for a later lookup.
  Two of them state what the code does where it differs from what its callers expect.
\<close>

section \<open>Reading\<close>

text \<open>C30. \<open>file_read\<close> on a file whose chain holds its size and whose current cluster is the one of its
  position: it returns the number of bytes left, at most the number asked for, delivers exactly
  the bytes of the chain from the position on, across clusters, and moves the position past them.\<close>

theorem file_read_slice:
  assumes "fat_ok disk w" "dir_chain disk w c xs" "f_disk f = disk" "cluster_size_of w \<le> 4096"
    and "f_position f < f_size f" "unat (f_size f) \<le> length (chain_data disk w xs)"
    and "f_current_cluster f = xs ! (unat (f_position f) div cluster_size_of w)"
    and "n = (if nbytes > f_size f - f_position f then f_size f - f_position f else nbytes)"
    and "0 < nbytes" "unat n \<le> length dest"
  shows "\<exists>w' cur. file_read f dest nbytes w =
    Some (sint n, f\<lparr>f_position := f_position f + n, f_current_cluster := cur\<rparr>,
      take (unat n) (drop (unat (f_position f)) (chain_data disk w xs)) @ drop (unat n) dest, w') \<and>
    medium w' = medium w \<and>
    cur = xs ! ((unat (f_position f) + unat n - 1) div cluster_size_of w)"
  using file_read_ok [OF assms] quiet_fields(4) by blast

definition demo_file :: file_t where
  "demo_file = \<lparr>f_disk = demo_disk, f_first_cluster = 4, f_current_cluster = 4, f_size = 1024,
     f_position = 0, f_parent_cluster = 2, f_entry = demo_entry\<rparr>"

lemma demo_file_ok:
  "dir_chain demo_disk demo_fat 4 [4, 6]" "cluster_size_of demo_fat = 512"
  "length (chain_data demo_disk demo_fat [4, 6]) = 1024"
proof -
  show "dir_chain demo_disk demo_fat 4 [4, 6]" using demo_chain by (simp only: dir_chain_def demo_fs_of)
  show cs: "cluster_size_of demo_fat = 512" by (simp add: demo_fs_def)
  have "medium_wf demo_disk demo_fat" using demo_ok by (simp add: fat_ok_def)
  then show "length (chain_data demo_disk demo_fat [4, 6]) = 1024"
    unfolding length_chain_data [OF \<open>medium_wf demo_disk demo_fat\<close>] cs by simp
qed

theorem file_read_slice_witness:
  "\<exists>w' g. file_read demo_file (replicate 600 1) 600 demo_fat =
     Some (600, g, take 600 (chain_data demo_disk demo_fat [4, 6]), w') \<and> f_position g = 600"
  using file_read_slice [OF demo_ok demo_file_ok(1), of demo_file 600 600 "replicate 600 1"] demo_file_ok(2,3)
  by (auto simp: demo_file_def simp del: demo_fs_of)

text \<open>C38. After a read of exactly one cluster the position has reached the next cluster and the
  current cluster has not: the next read of a cluster delivers the first cluster again, in place
  of the second. (\<open>file_copy\<close> reads in this way, so it copies the first cluster over and over.)\<close>

theorem file_read_rereads_cluster:
  assumes "fat_ok disk w" "dir_chain disk w c xs" "f_disk f = disk" "cluster_size_of w \<le> 4096"
    and "f_position f = 0" "f_current_cluster f = c" "2 \<le> length xs"
    and "2 * cluster_size_of w \<le> unat (f_size f)" "unat (f_size f) \<le> length (chain_data disk w xs)"
    and "length dest = cluster_size_of w" "length dest' = cluster_size_of w"
  shows "\<exists>w1 w2 g g'. file_read f dest (cluster_bytes w) w =
      Some (sint (cluster_bytes w), g, cluster_data disk w c, w1) \<and>
    file_read g dest' (cluster_bytes w) w1 =
      Some (sint (cluster_bytes w), g', cluster_data disk w c, w2)"
proof -
  let ?cs = "cluster_size_of w" and ?n = "cluster_bytes w"
  have g: "medium_wf disk w" using assms(1) by (simp add: fat_ok_def)
  have cs: "unat ?n = ?cs" "0 < ?cs" using cluster_bytes_unat [OF assms(1)] by simp_all
  have ch: "fat_chain (fat disk w) (valid_cluster (fat32_fs w)) c xs" using assms(2) by (simp add: dir_chain_def)
  then have c0: "xs ! 0 = c" using fat_chain_hd by (metis hd_conv_nth)
  have len: "length (chain_data disk w xs) = ?cs * length xs" using length_chain_data [OF g] .
  have first: "take ?cs (chain_data disk w xs) = cluster_data disk w c"
  proof -
    obtain ys where "xs = c # ys" using c0 assms(7) by (cases xs) auto
    then show ?thesis using g by (simp add: chain_data_def)
  qed
  have ld: "length (cluster_data disk w c) = ?cs" "xs \<noteq> []" using g assms(7) by auto
  have n0: "?n \<noteq> 0" "\<not> ?n > 4096" using cs assms(4) by (auto simp: word_unat_eq_iff word_less_nat_alt)
  note loop = read_loop_ok [OF assms(1,2) _ assms(4), of _ 0 0 0 ?n]
  have sz: "unat (f_size f) < 2 ^ 32" using unat_u32_less [of "f_size f"] by simp
  let ?g = "f\<lparr>f_position := ?n, f_current_cluster := c\<rparr>"
  have fits: "\<not> ?n > f_size f" "\<not> ?n > f_size f - ?n" "\<not> ?n \<ge> f_size f" "\<not> f_size f = 0"
  proof -
    show "\<not> ?n > f_size f" "\<not> ?n \<ge> f_size f" "\<not> f_size f = 0"
      using assms(8) cs by (auto simp: word_less_nat_alt word_le_nat_alt)
    have "unat (f_size f - ?n) = unat (f_size f) - ?cs"
      using assms(8) cs by (subst unat_sub) (simp_all add: word_le_nat_alt)
    then show "\<not> ?n > f_size f - ?n" using assms(8) cs by (simp add: word_less_nat_alt)
  qed
  obtain w1 where w1: "read_loop f dest 0 ?n ?n w =
      Some (sint ?n, ?g, cluster_data disk w c, w1)" "quiet w w1"
    using loop [of f "dest"] assms c0 cs first len sz ld by (auto simp: put_block_def)
  have r1: "file_read f dest ?n w = Some (sint ?n, ?g, cluster_data disk w c, w1)"
    using w1(1) assms(5) n0 fits by (simp add: file_read_def Let_def not_le [symmetric])
  have q: "fat32_fs w1 = fat32_fs w" "cluster_bytes w1 = ?n"
    "chain_data disk w1 xs = chain_data disk w xs"
    using quiet_fields(1) [OF w1(2)] chain_data_quiet [OF w1(2)] by (simp_all add: cluster_bytes_def)
  have "dir_chain disk w1 c xs" using assms(2) dir_chain_quiet [OF w1(2)] by simp
  then obtain w2 g' where w2: "read_loop ?g dest' 0 ?n ?n w1 = Some (sint ?n, g', cluster_data disk w c, w2)"
    using read_loop_ok [OF quiet_fat_okI [OF w1(2) assms(1)], of c xs ?g 0 0 0 ?n dest']
      assms c0 cs first len sz ld q by (auto simp: put_block_def)
  have "file_read ?g dest' ?n w1 = Some (sint ?n, g', cluster_data disk w c, w2)"
    using w2 n0 fits q by (simp add: file_read_def Let_def not_le [symmetric])
  then show ?thesis using r1 by blast
qed

theorem file_read_rereads_cluster_witness:
  "\<exists>w1 w2 g g'. file_read demo_file (replicate 512 0) 512 demo_fat =
      Some (512, g, cluster_data demo_disk demo_fat 4, w1) \<and>
    file_read g (replicate 512 0) 512 w1 = Some (512, g', cluster_data demo_disk demo_fat 4, w2)"
proof -
  have cb: "cluster_bytes demo_fat = 512" by (simp add: cluster_bytes_def) (simp add: demo_fs_def)
  show ?thesis
    using file_read_rereads_cluster [OF demo_ok demo_file_ok(1), of demo_file "replicate 512 0" "replicate 512 0"]
      demo_file_ok(2,3) by (simp add: cb demo_file_def del: demo_fs_of)
qed

section \<open>Creating a file\<close>

definition file_entry :: "u8 list \<Rightarrow> dirent" where
  "file_entry leaf =
     zero_dirent\<lparr>de_name := short_name leaf, de_attributes := FAT32_ATTR_ARCHIVE\<rparr>"

lemma zero_dirent_fields [simp]:
  "de_first_cluster_high zero_dirent = 0" "de_first_cluster_low zero_dirent = 0"
  "de_file_size zero_dirent = 0"
  by (simp_all add: zero_dirent_def decode_dirent_def get_u16_def)

lemma zero_dirent_update:
  "(zero_dirent\<lparr>de_name := n\<rparr>)\<lparr>de_attributes := a, de_first_cluster_high := 0,
     de_first_cluster_low := 0, de_file_size := 0\<rparr> = zero_dirent\<lparr>de_name := n, de_attributes := a\<rparr>"
  by (simp add: zero_dirent_def decode_dirent_def get_u16_def)

lemma file_entry_fields:
  "directory_entry_cluster (file_entry leaf) = 0" "de_file_size (file_entry leaf) = 0"
  "\<not> is_directory (file_entry leaf)"
  by (simp_all add: file_entry_def directory_entry_cluster_def is_directory_def)

lemma file_entry_wf:
  assumes "valid_name leaf" "hd leaf \<noteq> 0xE5" "0 \<notin> set leaf"
  shows "entry_wf (file_entry leaf)"
proof -
  have ne: "base_part leaf \<noteq> []" using assms(1) by (auto simp: valid_name_def)
  have hd: "hd (base_part leaf) = hd leaf"
    using ne name_split [of leaf] by (metis hd_append2)
  have len: "length (base_part leaf) \<le> 8" "length (ext_part leaf) \<le> 3"
    using assms(1) ext_part_empty [of leaf] by (auto simp: valid_name_def)
  have first: "short_name leaf ! 0 = to_upper (hd leaf)"
    using ne hd by (cases "base_part leaf") (auto simp: short_name_def)
  have "hd leaf \<in> set leaf" using ne set_parts(1) [of leaf] hd by (metis hd_in_set subsetD)
  then have "to_upper (hd leaf) \<noteq> 0 \<and> to_upper (hd leaf) \<noteq> 0xE5"
    using assms(2,3) by (auto simp: to_upper_def diff_eq_eq)
  then show ?thesis
    using len first by (simp add: entry_wf_def file_entry_def short_name_def)
qed

lemma get_name_cong: "de_name e = de_name e' \<Longrightarrow> directory_get_name e = directory_get_name e'"
  unfolding directory_get_name_def by (simp only:)

lemma more_filesystem:
  fixes w w' :: "'a fs_state_scheme"
  shows "fat_state.more w' = fat_state.more w \<Longrightarrow> filesystem w' = filesystem w"
  by (cases w; cases w') simp

text \<open>What \<open>file_create\<close> does with a path that names something in the start directory itself.\<close>

lemma file_create_ok:
  fixes w :: "'a fs_state_scheme"
  assumes ok: "fat_ok disk w" and path: "0 \<notin> set path" "fields_ok (path_fields path)"
    "norm_fields path = [leaf]" "leaf \<noteq> dotdot_name"
    and dir: "dir_chain disk w (start_dir path w) xs" "dir_wf (dir_slots disk w xs)"
    and new: "dir_find disk w xs leaf = None"
    and name: "valid_name leaf" "hd leaf \<noteq> 0xE5" "0 \<notin> set leaf"
  shows "\<exists>w'. (\<exists>ys. file_create disk path w = Some (True, w') \<and>
      created disk w w' (start_dir path w) xs ys (file_entry leaf)) \<or>
    (file_create disk path w = Some (False, w') \<and> medium w' = medium w \<and>
      (\<forall>d. valid_cluster (fat32_fs w) d \<longrightarrow> fat disk w d \<noteq> FAT32_CLUSTER_FREE))"
proof -
  let ?c = "start_dir path w"
  have ch: "fat_chain (fat disk w) (valid_cluster (fat32_fs w)) ?c xs" using dir(1) by (simp add: dir_chain_def)
  obtain w1 where w1: "path_lookup disk path w =
      Some (\<lparr>lk_entry = None, lk_parent = Some ?c, lk_leaf = Some leaf\<rparr>, w1)" "quiet w w1"
    using path_lookup_ok [OF ok path(1,2), of ?c None] resolves_leaf [OF dir(1), of leaf] path(3,4) new by auto
  have c2: "\<not> ?c < 2"
  proof -
    have "?c \<in> set xs" using fat_chain_hd [OF ch] by (metis hd_in_set)
    then show ?thesis
      using fat_chain_valid [OF ch, of ?c] by (auto simp: valid_cluster_def word_less_nat_alt)
  qed
  have ne: "leaf \<noteq> []" using name(1) by (auto simp: valid_name_def base_part_def)
  have create: "file_create disk path w = directory_create_entry_in_cluster disk ?c (file_entry leaf) w1"
    using w1(1) c2 ne name(1)
    by (simp add: zero_dirent_update file_create_def fat_ok_not_None [OF ok] lookup_parent_def lookup_leaf_def set_name_eq file_entry_def)
  note f1 = quiet_fields [OF w1(2)] quiet_fat [OF w1(2)] quiet_sec [OF w1(2)] dir_slots_quiet [OF w1(2)]
  have ch1: "fat_chain (fat disk w1) (valid_cluster (fat32_fs w1)) ?c xs" using ch f1 by simp
  have wf1: "dir_wf (dir_slots disk w1 xs)" using dir(2) f1 by simp
  obtain w' where w': "(\<exists>ys. directory_create_entry_in_cluster disk ?c (file_entry leaf) w1 = Some (True, w') \<and>
      created disk w1 w' ?c xs ys (file_entry leaf)) \<or>
    (directory_create_entry_in_cluster disk ?c (file_entry leaf) w1 = Some (False, w') \<and> quiet w1 w' \<and>
      (\<forall>d. valid_cluster (fat32_fs w1) d \<longrightarrow> fat disk w1 d \<noteq> 0))"
    using create_entry_in_cluster_ok [OF quiet_fat_okI [OF w1(2) ok] ch1 wf1 file_entry_wf [OF name]] by blast
  have "created disk w w' ?c xs ys e" if "created disk w1 w' ?c xs ys e" for ys e
    using that f1 dir_lbas_cong [OF f1(1), of ys] by (simp add: created_def)
  moreover have "medium w' = medium w" if "quiet w1 w'"
    using quiet_fields(4) [OF that] quiet_fields(4) [OF w1(2)] by simp
  ultimately show ?thesis using w' create f1 by auto
qed

lemma created_found:
  fixes w w' :: "'a fs_state_scheme"
  assumes cr: "created disk w w' (start_dir path w) xs ys (file_entry leaf)" and new: "dir_find disk w xs leaf = None"
    and name: "valid_name leaf" "0x20 \<notin> set leaf" "map to_upper leaf = leaf"
  shows "fat_ok disk w'" "start_dir path w' = start_dir path w" "dir_chain disk w' (start_dir path w') ys"
    "directory_get_name (file_entry leaf) = leaf" "dir_find disk w' ys leaf = Some (file_entry leaf)"
proof -
  show ok: "fat_ok disk w'" and start: "start_dir path w' = start_dir path w"
    using cr more_filesystem [of w' w] by (simp_all add: created_def start_dir_def fs_current_directory_def)
  show "dir_chain disk w' (start_dir path w') ys" using cr start by (simp add: created_def dir_chain_def)
  show nm: "directory_get_name (file_entry leaf) = leaf"
    using get_set_name [OF name(1,2), of zero_dirent] name(3)
      get_name_cong [of "file_entry leaf" "zero_dirent\<lparr>de_name := short_name leaf\<rparr>"]
    by (simp add: file_entry_def)
  have set: "set (dir_entries (dir_slots disk w' ys)) = insert (file_entry leaf) (set (dir_entries (dir_slots disk w xs)))"
    using cr by (metis created_def set_mset_add_mset_insert set_mset_mset)
  show "dir_find disk w' ys leaf = Some (file_entry leaf)"
  proof (cases "dir_find disk w' ys leaf")
    case None
    then show ?thesis using set nm by (auto simp: dir_find_def find_None_all)
  next
    case (Some x)
    then have "x \<in> set (dir_entries (dir_slots disk w' ys))" "str_eq (directory_get_name x) leaf"
      by (auto simp: dir_find_def find_Some_iff)
    then show ?thesis using Some new set by (auto simp: dir_find_def find_None_all)
  qed
qed

text \<open>A lookup of a name in the start directory.\<close>

lemma lookup_found:
  assumes "fat_ok disk w" "0 \<notin> set path" "fields_ok (path_fields path)" "norm_fields path = [leaf]" "leaf \<noteq> dotdot_name"
    and "dir_chain disk w (start_dir path w) ys" "dir_find disk w ys leaf = r"
  shows "\<exists>w'. path_lookup disk path w =
    Some (\<lparr>lk_entry = r, lk_parent = Some (start_dir path w), lk_leaf = Some leaf\<rparr>, w') \<and> quiet w w'"
  using path_lookup_ok [OF assms(1-3), of "start_dir path w" r] resolves_leaf [OF assms(6), of leaf] assms(4,5,7) by auto

text \<open>Creating a file in the working directory (or the root, for an absolute path) under a new
  name of upper-case letters adds an empty file, unless the volume is full: a lookup of the same
  path then finds an entry of exactly this name, with no cluster and size 0.\<close>

theorem file_create_then_lookup:
  fixes w :: "'a fs_state_scheme"
  assumes "fat_ok disk w" "0 \<notin> set path" "fields_ok (path_fields path)"
    and "norm_fields path = [leaf]" "leaf \<noteq> dotdot_name"
    and "dir_chain disk w (start_dir path w) xs" "dir_wf (dir_slots disk w xs)"
    and "dir_find disk w xs leaf = None"
    and "valid_name leaf" "hd leaf \<noteq> 0xE5" "0 \<notin> set leaf"
    and "0x20 \<notin> set leaf" "map to_upper leaf = leaf"
    and "valid_cluster (fat32_fs w) d" "fat disk w d = FAT32_CLUSTER_FREE"
  shows "\<exists>w' e. file_create disk path w = Some (True, w') \<and>
    map_option fst (path_lookup disk path w') =
      Some \<lparr>lk_entry = Some e, lk_parent = Some (start_dir path w), lk_leaf = Some leaf\<rparr> \<and>
    directory_get_name e = leaf \<and> de_file_size e = 0 \<and> directory_entry_cluster e = 0 \<and> \<not> is_directory e"
proof -
  obtain w' ys where w': "file_create disk path w = Some (True, w')"
    "created disk w w' (start_dir path w) xs ys (file_entry leaf)"
    using file_create_ok [OF assms(1-11)] assms(14,15) by auto
  note f = created_found [OF w'(2) assms(8,9,12,13)]
  have "map_option fst (path_lookup disk path w') =
      Some \<lparr>lk_entry = Some (file_entry leaf), lk_parent = Some (start_dir path w), lk_leaf = Some leaf\<rparr>"
    using lookup_found [OF f(1) assms(2-5) f(3,5)] f(2) by auto
  then show ?thesis using w'(1) f(4) file_entry_fields by blast
qed

theorem file_create_then_lookup_witness:
  "\<exists>w' e. file_create demo_disk (bytes ''FOO.TXT'') (mount_demo demo_fat) = Some (True, w') \<and>
    map_option fst (path_lookup demo_disk (bytes ''FOO.TXT'') w') =
      Some \<lparr>lk_entry = Some e, lk_parent = Some 2, lk_leaf = Some (bytes ''FOO.TXT'')\<rparr> \<and>
    de_file_size e = 0"
proof -
  have name: "valid_name (bytes ''FOO.TXT'')" "hd (bytes ''FOO.TXT'') \<noteq> 0xE5" "0 \<notin> set (bytes ''FOO.TXT'')"
    "0x20 \<notin> set (bytes ''FOO.TXT'')" "map to_upper (bytes ''FOO.TXT'') = bytes ''FOO.TXT''"
    "bytes ''FOO.TXT'' \<noteq> dotdot_name" "fields_ok [bytes ''FOO.TXT'']"
    by (simp_all add: valid_name_def base_part_def ext_part_def bytes_def to_upper_def fields_ok_def)
  have start: "start_dir (bytes ''FOO.TXT'') (mount_demo demo_fat) = 2" by (simp add: start_dir_def)
  have dir: "dir_find demo_disk (mount_demo demo_fat) [2] (bytes ''FOO.TXT'') = None"
    "dir_wf (dir_slots demo_disk (mount_demo demo_fat) [2])"
    by (simp_all add: dir_find_def del: replicate.simps)
  show ?thesis
    using file_create_then_lookup [of demo_disk "mount_demo demo_fat" "bytes ''FOO.TXT''"
        "bytes ''FOO.TXT''" "[2]" 3] name start dir demo_dir_chain(1)
    by (auto simp: demo_valid)
qed

text \<open>C40. A name with a lower-case letter is stored in upper case but looked up as it is written: the
  file that has just been created under it is not found, and creating it again succeeds again
  while a cluster is free.\<close>

theorem file_create_lower_case_lost:
  fixes w :: "'a fs_state_scheme"
  assumes "fat_ok disk w" "0 \<notin> set path" "fields_ok (path_fields path)"
    and "norm_fields path = [leaf]" "leaf \<noteq> dotdot_name"
    and "dir_chain disk w (start_dir path w) xs" "dir_wf (dir_slots disk w xs)"
    and "dir_find disk w xs leaf = None"
    and "valid_name leaf" "hd leaf \<noteq> 0xE5" "0 \<notin> set leaf"
    and "0x20 \<notin> set leaf" "map to_upper leaf \<noteq> leaf"
    and "file_create disk path w = Some (True, w')"
  shows "map_option (lk_entry \<circ> fst) (path_lookup disk path w') = Some None \<and>
    (valid_cluster (fat32_fs w') d \<and> fat disk w' d = FAT32_CLUSTER_FREE \<longrightarrow>
       (\<exists>w''. file_create disk path w' = Some (True, w'')))"
proof -
  obtain ys where ys: "created disk w w' (start_dir path w) xs ys (file_entry leaf)"
    using file_create_ok [OF assms(1-11)] assms(14) by auto
  have start: "start_dir path w' = start_dir path w"
    using ys more_filesystem [of w' w] by (simp add: created_def start_dir_def fs_current_directory_def)
  have name: "directory_get_name (file_entry leaf) = map to_upper leaf"
    using get_set_name [OF assms(9,12), of zero_dirent]
      get_name_cong [of "file_entry leaf" "zero_dirent\<lparr>de_name := short_name leaf\<rparr>"]
    by (simp add: file_entry_def)
  have chain: "dir_chain disk w' (start_dir path w') ys" and ok': "fat_ok disk w'"
    and wf': "dir_wf (dir_slots disk w' ys)"
    using ys start by (simp_all add: created_def dir_chain_def)
  have none: "dir_find disk w' ys leaf = None"
  proof -
    have set: "set (dir_entries (dir_slots disk w' ys)) = insert (file_entry leaf) (set (dir_entries (dir_slots disk w xs)))"
      using ys by (metis created_def set_mset_add_mset_insert set_mset_mset)
    have "0 \<notin> set (map to_upper leaf)"
      using assms(11) by (auto simp: to_upper_def diff_eq_eq split: if_splits)
    then have "\<not> str_eq (map to_upper leaf) leaf" using assms(11,13) by simp
    then show ?thesis using assms(8) set name by (auto simp: dir_find_def find_None_all)
  qed
  then have "map_option (lk_entry \<circ> fst) (path_lookup disk path w') = Some None"
    using path_lookup_ok [OF ok' assms(2,3), of "start_dir path w'" None]
      resolves_leaf [OF chain, of leaf] assms(4,5) start by auto
  moreover have "valid_cluster (fat32_fs w') d \<and> fat disk w' d = FAT32_CLUSTER_FREE \<longrightarrow>
      (\<exists>w''. file_create disk path w' = Some (True, w''))"
    using file_create_ok [OF ok' assms(2-5) chain wf' none assms(9-11)] by auto
  ultimately show ?thesis by blast
qed

theorem file_create_lower_case_lost_witness:
  "\<exists>w'. file_create demo_disk (bytes ''foo.txt'') (mount_demo demo_fat) = Some (True, w') \<and>
    map_option (lk_entry \<circ> fst) (path_lookup demo_disk (bytes ''foo.txt'') w') = Some None"
proof -
  have path: "norm_fields (bytes ''foo.txt'') = [bytes ''foo.txt'']"
    "path_fields (bytes ''foo.txt'') = [bytes ''foo.txt'']" "\<not> path_abs (bytes ''foo.txt'')"
    by (simp_all add: norm_fields_def path_fields_def path_abs_def bytes_def fields.simps push_def)
  have name: "valid_name (bytes ''foo.txt'')" "hd (bytes ''foo.txt'') \<noteq> 0xE5" "0 \<notin> set (bytes ''foo.txt'')"
    "0x20 \<notin> set (bytes ''foo.txt'')" "map to_upper (bytes ''foo.txt'') \<noteq> bytes ''foo.txt''"
    "bytes ''foo.txt'' \<noteq> dotdot_name" "fields_ok [bytes ''foo.txt'']"
    by (simp_all add: valid_name_def base_part_def ext_part_def bytes_def to_upper_def fields_ok_def)
  have start: "start_dir (bytes ''foo.txt'') (mount_demo demo_fat) = 2" using path by (simp add: start_dir_def)
  have dir: "dir_find demo_disk (mount_demo demo_fat) [2] (bytes ''foo.txt'') = None"
    "dir_wf (dir_slots demo_disk (mount_demo demo_fat) [2])"
    by (simp_all add: dir_find_def del: replicate.simps)
  obtain w' where w': "file_create demo_disk (bytes ''foo.txt'') (mount_demo demo_fat) = Some (True, w')"
    using file_create_ok [of demo_disk "mount_demo demo_fat" "bytes ''foo.txt''"
        "bytes ''foo.txt''" "[2]"] name start dir demo_dir_chain(1) path
    by (auto simp: demo_valid dest: spec [of _ 3])
  then show ?thesis
    using file_create_lower_case_lost [of demo_disk "mount_demo demo_fat" "bytes ''foo.txt''"
        "bytes ''foo.txt''" "[2]" w'] name start dir demo_dir_chain(1) path
    by auto
qed

end
