(* ===== verification/Alloc.thy ===== *)
theory Alloc
  imports Prelude
begin

text \<open>
  The interface of a memory allocator: what its clients (processes, threads, page tables, cluster
  chains) rely on, whichever of the two allocators serves them. The heap and the frame allocator
  interpret it on their own operations. The outer option is the run of the code: \<open>None\<close> means that it
  does not return or leaves its arrays. The inner option is the null pointer.
\<close>

fun alloc_all :: "('r \<Rightarrow> 's \<Rightarrow> ('p option \<times> 's) option) \<Rightarrow> 'r list \<Rightarrow> 's \<Rightarrow> ('p option list \<times> 's) option" where
  "alloc_all alloc [] s = Some ([], s)"
| "alloc_all alloc (r # rs) s =
     do { (p, s1) \<leftarrow> alloc r s; (ps, s2) \<leftarrow> alloc_all alloc rs s1; Some (p # ps, s2) }"

fun free_all :: "('p \<Rightarrow> 's \<Rightarrow> 's option) \<Rightarrow> 'p list \<Rightarrow> 's \<Rightarrow> 's option" where
  "free_all free [] s = Some s"
| "free_all free (p # ps) s = do { s1 \<leftarrow> free p s; free_all free ps s1 }"

fun somes :: "'p option list \<Rightarrow> 'p list" where
  "somes [] = []"
| "somes (None # xs) = somes xs"
| "somes (Some x # xs) = x # somes xs"

locale allocator =
  fixes alloc :: "'r \<Rightarrow> 's \<Rightarrow> ('p option \<times> 's) option"
    and free :: "'p \<Rightarrow> 's \<Rightarrow> 's option"
    and live :: "'s \<Rightarrow> 'p set"
    and ok :: "'s \<Rightarrow> bool"
    and req_ok :: "'r \<Rightarrow> bool"
  assumes alloc_returns: "ok s \<Longrightarrow> req_ok r \<Longrightarrow> \<exists>p s'. alloc r s = Some (p, s')"
    and alloc_some: "ok s \<Longrightarrow> req_ok r \<Longrightarrow> alloc r s = Some (Some p, s') \<Longrightarrow>
      p \<notin> live s \<and> live s' = insert p (live s) \<and> ok s'"
    and alloc_none: "ok s \<Longrightarrow> req_ok r \<Longrightarrow> alloc r s = Some (None, s') \<Longrightarrow> live s' = live s \<and> ok s'"
    and free_live: "ok s \<Longrightarrow> p \<in> live s \<Longrightarrow> \<exists>s'. free p s = Some s' \<and> live s' = live s - {p} \<and> ok s'"
begin

lemma alloc_all_fresh:
  assumes "ok s" "\<forall>r \<in> set rs. req_ok r"
  shows "\<exists>ps s'. alloc_all alloc rs s = Some (ps, s') \<and> length ps = length rs \<and> ok s' \<and>
    distinct (somes ps) \<and> set (somes ps) \<inter> live s = {} \<and> live s' = live s \<union> set (somes ps)"
  using assms
proof (induction rs arbitrary: s)
  case Nil
  then show ?case by simp
next
  case (Cons r rs)
  have r: "req_ok r" using Cons.prems(2) by simp
  obtain p s1 where p: "alloc r s = Some (p, s1)" using alloc_returns [OF Cons.prems(1) r] by blast
  have s1: "ok s1 \<and> (case p of None \<Rightarrow> live s1 = live s | Some q \<Rightarrow> q \<notin> live s \<and> live s1 = insert q (live s))"
    using alloc_some [OF Cons.prems(1) r] alloc_none [OF Cons.prems(1) r] p by (cases p) auto
  obtain ps s2 where ps: "alloc_all alloc rs s1 = Some (ps, s2)" "length ps = length rs" "ok s2"
    "distinct (somes ps)" "set (somes ps) \<inter> live s1 = {}" "live s2 = live s1 \<union> set (somes ps)"
    using Cons.IH [of s1] s1 Cons.prems(2) by auto
  show ?case using p ps s1 by (cases p) auto
qed

lemma free_all_live:
  assumes "ok s" "set ps \<subseteq> live s" "distinct ps"
  shows "\<exists>s'. free_all free ps s = Some s' \<and> live s' = live s - set ps \<and> ok s'"
  using assms
proof (induction ps arbitrary: s)
  case (Cons p ps)
  obtain s1 where s1: "free p s = Some s1" "live s1 = live s - {p}" "ok s1"
    using free_live [OF Cons.prems(1), of p] Cons.prems(2) by auto
  have "set ps \<subseteq> live s1" "distinct ps" using s1(2) Cons.prems(2,3) by auto
  from Cons.IH [OF s1(3) this] show ?case using s1 by auto
qed simp

lemma alloc_free_all:
  assumes "ok s" "\<forall>r \<in> set rs. req_ok r"
  shows "\<exists>ps s' s''. alloc_all alloc rs s = Some (ps, s') \<and> free_all free (somes ps) s' = Some s'' \<and>
    live s'' = live s \<and> ok s''"
proof -
  obtain ps s' where a: "alloc_all alloc rs s = Some (ps, s')" "ok s'" "distinct (somes ps)"
    "set (somes ps) \<inter> live s = {}" "live s' = live s \<union> set (somes ps)"
    using alloc_all_fresh [OF assms] by blast
  obtain s'' where "free_all free (somes ps) s' = Some s''" "live s'' = live s' - set (somes ps)" "ok s''"
    using free_all_live [OF a(2) _ a(3)] a(5) by blast
  with a show ?thesis by auto
qed

end

end
