(* ===== verification/Heap.thy ===== *)
theory Heap
  imports Alloc
begin

text \<open>
  The kernel heap, \<open>kernel/memory/heap.c\<close>: a bump allocator with first-fit reuse of freed blocks.
  A pointer into \<open>kernel_heap\<close> is its byte offset. The block headers lie in the array itself, a word
  with the size at the block's offset and a word with the free flag behind it; \<open>heap_words\<close> gives the
  word at an offset. \<open>size_t\<close> is 32 bits and all sums wrap. The search for a free block is a partial
  function, because nothing bounds it when a header holds a size that wraps.
\<close>

section \<open>The allocator\<close>

abbreviation HEAP_SIZE :: u32 where "HEAP_SIZE \<equiv> 0x100000"
abbreviation HEADER_SIZE :: u32 where "HEADER_SIZE \<equiv> 8"

record heap_t =
  heap_words :: "u32 \<Rightarrow> u32"
  heap_offset :: u32

definition block_size :: "heap_t \<Rightarrow> u32 \<Rightarrow> u32" where
  "block_size h block = heap_words h block"

definition block_free :: "heap_t \<Rightarrow> u32 \<Rightarrow> u32" where
  "block_free h block = heap_words h (block + 4)"

definition put_word :: "u32 \<Rightarrow> u32 \<Rightarrow> heap_t \<Rightarrow> heap_t" where
  "put_word addr v h = h\<lparr>heap_words := (heap_words h)(addr := v)\<rparr>"

definition heap_init :: "heap_t \<Rightarrow> heap_t" where
  "heap_init h = h\<lparr>heap_offset := 0\<rparr>"

partial_function (option) find_free_block :: "heap_t \<Rightarrow> u32 \<Rightarrow> u32 \<Rightarrow> u32 option option" where
  "find_free_block h nbytes block =
     (if block < heap_offset h
      then if block_free h block \<noteq> 0 \<and> block_size h block \<ge> nbytes then Some (Some block)
           else find_free_block h nbytes (block + HEADER_SIZE + block_size h block)
      else Some None)"

definition round_size :: "u32 \<Rightarrow> u32" where
  "round_size nbytes = ((nbytes + 7) AND NOT 7)"

definition kmalloc :: "u32 \<Rightarrow> heap_t \<Rightarrow> (u32 option \<times> heap_t) option" where
  "kmalloc request h =
     (if request = 0 then Some (None, h)
      else let nbytes = round_size request
           in do {
             found \<leftarrow> find_free_block h nbytes 0;
             Some (case found of
                 Some block \<Rightarrow> (Some (block + HEADER_SIZE), put_word (block + 4) 0 h)
               | None \<Rightarrow>
                   if heap_offset h + HEADER_SIZE + nbytes > HEAP_SIZE then (None, h)
                   else let new_block = heap_offset h
                        in (Some (new_block + HEADER_SIZE),
                            (put_word (new_block + 4) 0 (put_word new_block nbytes h))
                              \<lparr>heap_offset := heap_offset h + HEADER_SIZE + nbytes\<rparr>))
           })"

definition kfree :: "u32 option \<Rightarrow> heap_t \<Rightarrow> heap_t" where
  "kfree ptr h =
     (case ptr of None \<Rightarrow> h | Some p \<Rightarrow> put_word (p - HEADER_SIZE + 4) 1 h)"

section \<open>The blocks of a well-formed heap\<close>

text \<open>
  The heap as the list of its blocks in address order: offset of the header, payload size, and
  whether the block is free. \<open>blocks_from h a bs\<close>: from offset \<open>a\<close> to the end of the used part the
  headers are those of \<open>bs\<close>.
\<close>

type_synonym block = "nat \<times> nat \<times> bool"

fun blocks_from :: "heap_t \<Rightarrow> nat \<Rightarrow> block list \<Rightarrow> bool" where
  "blocks_from h a [] \<longleftrightarrow> a = unat (heap_offset h)"
| "blocks_from h a ((off, sz, fr) # bs) \<longleftrightarrow>
     off = a \<and> a mod 8 = 0 \<and> sz mod 8 = 0 \<and> a + 8 + sz \<le> unat (heap_offset h) \<and>
     unat (block_size h (of_nat a)) = sz \<and> (block_free h (of_nat a) \<noteq> 0) = fr \<and>
     blocks_from h (a + 8 + sz) bs"

definition heap_ok :: "heap_t \<Rightarrow> block list \<Rightarrow> bool" where
  "heap_ok h bs \<longleftrightarrow> unat (heap_offset h) \<le> 0x100000 \<and> unat (heap_offset h) mod 8 = 0 \<and> blocks_from h 0 bs"

fun first_fit :: "nat \<Rightarrow> block list \<Rightarrow> nat option" where
  "first_fit n [] = None"
| "first_fit n ((off, sz, fr) # bs) = (if fr \<and> n \<le> sz then Some off else first_fit n bs)"

definition set_free :: "nat \<Rightarrow> bool \<Rightarrow> block list \<Rightarrow> block list" where
  "set_free off fr bs = map (\<lambda>(o', sz, f). (o', sz, if o' = off then fr else f)) bs"

lemma blocks_from_bound: "blocks_from h a bs \<Longrightarrow> a \<le> unat (heap_offset h)"
  by (cases bs) auto

lemma blocks_from_mem:
  "blocks_from h a bs \<Longrightarrow> (off, sz, fr) \<in> set bs \<Longrightarrow>
   a \<le> off \<and> off mod 8 = 0 \<and> off + 8 + sz \<le> unat (heap_offset h)"
  by (induction h a bs rule: blocks_from.induct) (auto dest: blocks_from_bound)

lemma blocks_from_mem_size: "blocks_from h a bs \<Longrightarrow> (off, sz, fr) \<in> set bs \<Longrightarrow> sz mod 8 = 0"
  by (induction h a bs rule: blocks_from.induct) auto

lemma blocks_from_disjoint:
  "blocks_from h a bs \<Longrightarrow> (o1, s1, f1) \<in> set bs \<Longrightarrow> (o2, s2, f2) \<in> set bs \<Longrightarrow>
   (o1, s1, f1) = (o2, s2, f2) \<or> o1 + 8 + s1 \<le> o2 \<or> o2 + 8 + s2 \<le> o1"
proof (induction h a bs rule: blocks_from.induct)
  case (2 h a off sz fr bs)
  then have bs: "blocks_from h (a + 8 + sz) bs" "off = a" by simp_all
  show ?case
    using 2 blocks_from_mem [OF bs(1), of o1 s1 f1] blocks_from_mem [OF bs(1), of o2 s2 f2] by auto
qed simp

lemma find_free_block_ok:
  assumes "blocks_from h a bs" "unat (heap_offset h) \<le> 0x100000"
  shows "find_free_block h n (of_nat a) = Some (map_option of_nat (first_fit (unat n) bs))"
  using assms
proof (induction h a bs rule: blocks_from.induct)
  case (1 h a)
  then have "\<not> (of_nat a :: u32) < heap_offset h" by simp
  then show ?case by (simp add: find_free_block.simps [of h n "of_nat a"])
next
  case (2 h a off sz fr bs)
  have b: "off = a" "a + 8 + sz \<le> unat (heap_offset h)" "unat (block_size h (of_nat a)) = sz"
    "(block_free h (of_nat a) \<noteq> 0) = fr" "blocks_from h (a + 8 + sz) bs"
    using "2.prems"(1) by simp_all
  have ua: "unat (of_nat a :: u32) = a"
    using b(2) "2.prems"(2) by (simp add: unat_of_nat)
  have lt: "(of_nat a :: u32) < heap_offset h"
    using b(2) ua by (simp add: word_less_nat_alt)
  have adv: "of_nat a + HEADER_SIZE + block_size h (of_nat a) = (of_nat (a + 8 + sz) :: u32)"
    using b(3) by (simp flip: b(3))
  show ?case
    using "2.IH" [OF b(5) "2.prems"(2)] lt adv b
    by (subst find_free_block.simps) (auto simp: word_le_nat_alt)
qed

lemma first_fit_mem:
  "first_fit n bs = Some off \<Longrightarrow> \<exists>sz. (off, sz, True) \<in> set bs \<and> n \<le> sz"
  by (induction bs) (auto split: if_splits)

lemma word_offset_eq:
  fixes c d :: u32
  assumes "x + unat c < 2 ^ 32" "y + unat d < 2 ^ 32"
  shows "(of_nat x + c = of_nat y + d) \<longleftrightarrow> x + unat c = y + unat d"
proof -
  have "unat (of_nat x + c) = x + unat c" "unat (of_nat y + d) = y + unat d"
    using assms by (simp_all add: unat_word_ariths unat_of_nat)
  then show ?thesis by (simp add: word_unat_eq_iff)
qed

lemma blocks_from_put_free:
  assumes "blocks_from h a bs" "unat (heap_offset h) \<le> 0x100000" "off mod 8 = 0" "off \<le> 0x100000"
  shows "blocks_from (put_word (of_nat off + 4) v h) a (set_free off (v \<noteq> 0) bs)"
  using assms
proof (induction h a bs rule: blocks_from.induct)
  case (1 h a)
  then show ?case by (simp add: put_word_def set_free_def)
next
  case (2 h a off' sz' fr' bs)
  have b: "a mod 8 = 0" "a + 8 + sz' \<le> unat (heap_offset h)" "blocks_from h (a + 8 + sz') bs"
    using "2.prems"(1) by simp_all
  have small: "a + 8 \<le> 0x100000" using b(2) "2.prems"(2) by linarith
  have "off + 4 \<noteq> a" using "2.prems"(3) b(1) by presburger
  then have "(of_nat off + 4 :: u32) \<noteq> of_nat a"
    using word_offset_eq [of off 4 a 0] small "2.prems"(4) by simp
  then have sz: "block_size (put_word (of_nat off + 4) v h) (of_nat a) = block_size h (of_nat a)"
    by (simp add: block_size_def put_word_def)
  have fr: "block_free (put_word (of_nat off + 4) v h) (of_nat a) =
      (if a = off then v else block_free h (of_nat a))"
    using word_offset_eq [of off 4 a 4] small "2.prems"(4) by (auto simp: block_free_def put_word_def)
  have same: "heap_offset (put_word (of_nat off + 4) v h) = heap_offset h" by (simp add: put_word_def)
  show ?case
    using "2.prems"(1) "2.IH" [OF b(3) "2.prems"(2-4)] sz fr same by (auto simp: set_free_def)
qed

section \<open>Allocation on the list of blocks\<close>

text \<open>What \<open>kmalloc\<close> promises: the first free block that is large enough, else a new block behind the last one.\<close>

definition rounded :: "nat \<Rightarrow> nat" where
  "rounded n = (n + 7) div 8 * 8"

definition end_of :: "block list \<Rightarrow> nat" where
  "end_of bs = (if bs = [] then 0 else case last bs of (off, sz, fr) \<Rightarrow> off + 8 + sz)"

definition alloc_blocks :: "nat \<Rightarrow> block list \<Rightarrow> nat option \<times> block list" where
  "alloc_blocks n bs =
     (case first_fit n bs of
        Some off \<Rightarrow> (Some off, set_free off False bs)
      | None \<Rightarrow> if end_of bs + 8 + n > 0x100000 then (None, bs)
                else (Some (end_of bs), bs @ [(end_of bs, n, False)]))"

definition payload :: "nat \<Rightarrow> u32" where
  "payload off = of_nat off + HEADER_SIZE"

lemma unat_round_size:
  assumes "unat r \<le> 0x100000"
  shows "unat (round_size r) = rounded (unat r)"
proof -
  have r7: "unat (r + 7) = unat r + 7" using assms by simp
  have "(x :: u32) AND NOT 7 = push_bit 3 (drop_bit 3 x)" for x
  proof (rule bit_word_eqI)
    fix n :: nat
    assume n: "n < LENGTH(32)"
    have "(7 :: u32) = mask 3" by (simp add: mask_numeral)
    then have "bit (7 :: u32) n \<longleftrightarrow> n < 3" using n by (simp only: bit_mask_iff) simp
    then show "bit (x AND NOT 7) n = bit (push_bit 3 (drop_bit 3 x)) n"
      using n by (auto simp: bit_simps)
  qed
  then have "round_size r = push_bit 3 (drop_bit 3 (r + 7))" by (simp add: round_size_def)
  also have "\<dots> = drop_bit 3 (r + 7) * 8" by (simp add: push_bit_eq_mult)
  finally have *: "round_size r = drop_bit 3 (r + 7) * 8" .
  have d: "unat (drop_bit 3 (r + 7)) = (unat r + 7) div 8"
    using r7 by (simp add: drop_bit_eq_div unat_div)
  have "(unat r + 7) div 8 * 8 < 2 ^ 32" using assms by simp
  then show ?thesis unfolding * rounded_def by (simp add: unat_word_ariths(2) d)
qed

lemma blocks_from_end:
  "blocks_from h a bs \<Longrightarrow> (if bs = [] then a else case last bs of (off, sz, fr) \<Rightarrow> off + 8 + sz)
     = unat (heap_offset h)"
  by (induction h a bs rule: blocks_from.induct) (auto split: if_splits)

lemma heap_ok_end: "heap_ok h bs \<Longrightarrow> end_of bs = unat (heap_offset h)"
  using blocks_from_end [of h 0 bs] by (simp add: heap_ok_def end_of_def)

lemma blocks_from_append:
  assumes "blocks_from h a bs" "heap_words h' = heap_words h"
    and "unat (heap_offset h') = unat (heap_offset h) + 8 + n" "n mod 8 = 0" "unat (heap_offset h) mod 8 = 0"
    and "unat (block_size h (heap_offset h)) = n" "block_free h (heap_offset h) = 0"
  shows "blocks_from h' a (bs @ [(unat (heap_offset h), n, False)])"
  using assms
proof (induction h a bs rule: blocks_from.induct)
  case (1 h a)
  then show ?case by (simp add: block_size_def block_free_def)
next
  case (2 h a off sz fr bs)
  then show ?case by (simp add: block_size_def block_free_def)
qed

lemma blocks_from_put_above:
  assumes "blocks_from h a bs" "unat (heap_offset h) \<le> 0x100000"
    and "unat (heap_offset h) \<le> x" "x < 2 ^ 32"
  shows "blocks_from (put_word (of_nat x) v h) a bs"
  using assms
proof (induction h a bs rule: blocks_from.induct)
  case (1 h a)
  then show ?case by (simp add: put_word_def)
next
  case (2 h a off sz fr bs)
  have b: "a + 8 + sz \<le> unat (heap_offset h)" using "2.prems"(1) by simp
  have "(of_nat x :: u32) \<noteq> of_nat a" "(of_nat x :: u32) \<noteq> of_nat a + 4"
    using word_offset_eq [of x 0 a 0] word_offset_eq [of x 0 a 4] b "2.prems"(2-4) by simp_all
  then show ?case using 2 by (auto simp: put_word_def block_size_def block_free_def)
qed

lemma kmalloc_found:
  "req \<noteq> 0 \<Longrightarrow> find_free_block h (round_size req) 0 = Some (Some b) \<Longrightarrow>
   kmalloc req h = Some (Some (b + HEADER_SIZE), put_word (b + 4) 0 h)"
  by (simp add: kmalloc_def Let_def)

lemma kmalloc_full:
  "req \<noteq> 0 \<Longrightarrow> find_free_block h (round_size req) 0 = Some None \<Longrightarrow>
   heap_offset h + HEADER_SIZE + round_size req > HEAP_SIZE \<Longrightarrow> kmalloc req h = Some (None, h)"
  by (simp add: kmalloc_def Let_def)

lemma kmalloc_new:
  "req \<noteq> 0 \<Longrightarrow> find_free_block h (round_size req) 0 = Some None \<Longrightarrow>
   \<not> heap_offset h + HEADER_SIZE + round_size req > HEAP_SIZE \<Longrightarrow>
   kmalloc req h = Some (Some (heap_offset h + HEADER_SIZE),
     (put_word (heap_offset h + 4) 0 (put_word (heap_offset h) (round_size req) h))
       \<lparr>heap_offset := heap_offset h + HEADER_SIZE + round_size req\<rparr>)"
  by (simp add: kmalloc_def Let_def)

lemma kmalloc_refines:
  assumes ok: "heap_ok h bs" and r: "0 < unat req" "unat req \<le> 0x100000"
    and spec: "alloc_blocks (rounded (unat req)) bs = (got, bs')"
  shows "\<exists>h'. kmalloc req h = Some (map_option payload got, h') \<and> heap_ok h' bs'"
proof -
  let ?n = "rounded (unat req)"
  have bf: "blocks_from h 0 bs" and small: "unat (heap_offset h) \<le> 0x100000"
    and al: "unat (heap_offset h) mod 8 = 0" using ok by (simp_all add: heap_ok_def)
  have n: "unat (round_size req) = ?n" "?n mod 8 = 0" "?n \<le> 0x100007"
    using r unat_round_size [of req] by (simp_all add: rounded_def)
  have found: "find_free_block h (round_size req) 0 = Some (map_option of_nat (first_fit ?n bs))"
    using find_free_block_ok [OF bf small, of "round_size req"] n(1) by simp
  have nz: "req \<noteq> 0" using r(1) by auto
  show ?thesis
  proof (cases "first_fit ?n bs")
    case (Some off)
    obtain sz where "(off, sz, True) \<in> set bs" using first_fit_mem [OF Some] by blast
    then have "off mod 8 = 0" "off \<le> 0x100000" using blocks_from_mem [OF bf] small by fastforce+
    from blocks_from_put_free [OF bf small this, of 0]
    have "heap_ok (put_word (of_nat off + 4) 0 h) (set_free off False bs)"
      using ok by (simp add: heap_ok_def put_word_def)
    moreover have "got = Some off" "bs' = set_free off False bs"
      using spec Some by (simp_all add: alloc_blocks_def)
    ultimately show ?thesis
      using kmalloc_found [OF nz, of h "of_nat off"] found Some by (simp add: payload_def)
  next
    case None
    let ?o = "unat (heap_offset h)"
    have o': "unat (heap_offset h + HEADER_SIZE + round_size req) = ?o + 8 + ?n"
      using small n by (simp add: unat_word_ariths)
    have e: "end_of bs = ?o" using heap_ok_end [OF ok] .
    let ?h = "put_word (heap_offset h + 4) 0 (put_word (heap_offset h) (round_size req) h)"
    let ?h' = "?h\<lparr>heap_offset := heap_offset h + HEADER_SIZE + round_size req\<rparr>"
    show ?thesis
    proof (cases "?o + 8 + ?n > 0x100000")
      case True
      then have "heap_offset h + HEADER_SIZE + round_size req > HEAP_SIZE"
        using o' by (simp add: word_less_nat_alt)
      moreover have "got = None" "bs' = bs" using None True spec e by (simp_all add: alloc_blocks_def)
      ultimately show ?thesis using kmalloc_full [OF nz, of h] found None ok by simp
    next
      case False
      have w4: "heap_offset h + 4 = of_nat (?o + 4)" "heap_offset h = of_nat ?o" by simp_all
      have b1: "blocks_from (put_word (heap_offset h) (round_size req) h) 0 bs"
        using blocks_from_put_above [OF bf small, of ?o] small by simp
      have b2: "blocks_from ?h 0 bs"
        using blocks_from_put_above [OF b1, of "?o + 4"] small by (simp add: put_word_def)
      have oo: "heap_offset ?h = heap_offset h" by (simp add: put_word_def)
      have "(heap_offset h + 4 :: u32) \<noteq> heap_offset h" by simp
      then have "blocks_from ?h' 0 (bs @ [(unat (heap_offset ?h), ?n, False)])"
        using o' n al by (intro blocks_from_append [OF b2])
          (simp_all add: block_size_def block_free_def put_word_def)
      then have "heap_ok ?h' (bs @ [(?o, ?n, False)])"
        using False o' n al oo by (simp add: heap_ok_def mod_add_eq) presburger
      moreover have "\<not> heap_offset h + HEADER_SIZE + round_size req > HEAP_SIZE"
        using o' False by (simp add: word_less_nat_alt)
      moreover have "got = Some ?o" "bs' = bs @ [(?o, ?n, False)]"
        using None False spec e by (simp_all add: alloc_blocks_def)
      ultimately show ?thesis using kmalloc_new [OF nz, of h] found None by (simp add: payload_def)
    qed
  qed
qed

lemma kfree_refines:
  assumes ok: "heap_ok h bs" and b: "(off, sz, fr) \<in> set bs"
  shows "heap_ok (kfree (Some (payload off)) h) (set_free off True bs)"
proof -
  have bf: "blocks_from h 0 bs" and small: "unat (heap_offset h) \<le> 0x100000"
    using ok by (simp_all add: heap_ok_def)
  have "off mod 8 = 0" "off \<le> 0x100000" using blocks_from_mem [OF bf b] small by auto
  from blocks_from_put_free [OF bf small this, of 1] ok show ?thesis
    by (simp add: kfree_def heap_ok_def payload_def put_word_def)
qed

end
