(* ===== verification/Pmm.thy ===== *)
theory Pmm
  imports Alloc
begin

text \<open>
  The physical memory manager, \<open>kernel/memory/pmm.c\<close>, and the memory map it is initialised from,
  \<open>kernel/memory/memory_map.c\<close>. A frame is a page of 4096 bytes; the bitmap has a bit per frame, set
  when the frame is taken. The bitmap is the function from byte index to byte; an access behind its
  131072 bytes has no value (\<open>None\<close>). The addresses of the linker symbols \<open>_kernel_start\<close> and
  \<open>_kernel_end\<close> are parameters.
\<close>

section \<open>The memory map\<close>

abbreviation MAX_MEMORY_REGIONS :: u32 where "MAX_MEMORY_REGIONS \<equiv> 32"

record memory_region =
  region_base :: u64
  region_length :: u64
  region_type :: u64

record memory_map =
  memory_regions :: "memory_region list"
  memory_region_count :: u32

definition known_regions :: "memory_map \<Rightarrow> memory_region list" where
  "known_regions m = take (unat (memory_region_count m)) (memory_regions m)"

section \<open>The bitmap\<close>

abbreviation PAGE_SIZE :: "'a::len word" where "PAGE_SIZE \<equiv> 4096"
abbreviation MAX_FRAMES :: nat where "MAX_FRAMES \<equiv> 1048576"

record pmm_t =
  total_frames :: u32
  total_memory :: u64
  usable_memory :: u64
  frame_bitmap :: "u32 \<Rightarrow> u8"

fun for_each :: "('a \<Rightarrow> 's \<Rightarrow> 's option) \<Rightarrow> 'a list \<Rightarrow> 's \<Rightarrow> 's option" where
  "for_each f [] s = Some s"
| "for_each f (x # xs) s = do { s' \<leftarrow> f x s; for_each f xs s' }"

definition frames :: "u32 \<Rightarrow> u32 \<Rightarrow> u32 list" where
  "frames a b = map of_nat [unat a..<unat b]"

definition in_bitmap :: "u32 \<Rightarrow> bool" where
  "in_bitmap frame \<longleftrightarrow> frame div 8 < 131072"

definition bitmap_clear :: "pmm_t \<Rightarrow> pmm_t" where
  "bitmap_clear s = s\<lparr>frame_bitmap := (\<lambda>i. if i < 131072 then 0 else frame_bitmap s i)\<rparr>"

definition bitmap_set :: "u32 \<Rightarrow> pmm_t \<Rightarrow> pmm_t option" where
  "bitmap_set frame s =
     (if in_bitmap frame
      then Some (s\<lparr>frame_bitmap := (frame_bitmap s)(frame div 8 :=
                    frame_bitmap s (frame div 8) OR push_bit (unat (frame mod 8)) 1)\<rparr>)
      else None)"

definition bitmap_reset :: "u32 \<Rightarrow> pmm_t \<Rightarrow> pmm_t option" where
  "bitmap_reset frame s =
     (if in_bitmap frame
      then Some (s\<lparr>frame_bitmap := (frame_bitmap s)(frame div 8 :=
                    frame_bitmap s (frame div 8) AND NOT (push_bit (unat (frame mod 8)) 1))\<rparr>)
      else None)"

definition bitmap_test :: "u32 \<Rightarrow> pmm_t \<Rightarrow> bool option" where
  "bitmap_test frame s =
     (if in_bitmap frame
      then Some (frame_bitmap s (frame div 8) AND push_bit (unat (frame mod 8)) 1 \<noteq> 0)
      else None)"

section \<open>Operations\<close>

definition reserve_region :: "u64 \<Rightarrow> u64 \<Rightarrow> pmm_t \<Rightarrow> pmm_t option" where
  "reserve_region base len s =
     (let first_frame = ucast (base div PAGE_SIZE);
          last_frame = ucast ((base + len + PAGE_SIZE - 1) div PAGE_SIZE);
          last_frame = (if last_frame > total_frames s then total_frames s else last_frame)
      in for_each bitmap_set (frames first_frame last_frame) s)"

definition count_region :: "memory_region \<Rightarrow> pmm_t \<times> u64 \<Rightarrow> pmm_t \<times> u64" where
  "count_region r = (\<lambda>(s, highest).
     let end_address = region_base r + region_length r;
         s = s\<lparr>total_memory := total_memory s + region_length r\<rparr>;
         s = (if region_type r = 1 then s\<lparr>usable_memory := usable_memory s + region_length r\<rparr> else s)
     in (s, if end_address > highest then end_address else highest))"

definition free_region :: "memory_region \<Rightarrow> pmm_t \<Rightarrow> pmm_t option" where
  "free_region r s =
     (if region_type r = 1
      then let first_frame = ucast (region_base r div PAGE_SIZE);
               last_frame = ucast ((region_base r + region_length r + PAGE_SIZE - 1) div PAGE_SIZE)
           in for_each bitmap_reset (frames first_frame (min last_frame (total_frames s))) s
      else Some s)"

definition pmm_init :: "u32 \<Rightarrow> u32 \<Rightarrow> memory_map \<Rightarrow> pmm_t \<Rightarrow> pmm_t option" where
  "pmm_init kernel_start kernel_end m s =
     (let s = (bitmap_clear s)\<lparr>total_memory := 0, usable_memory := 0, total_frames := 0\<rparr>;
          (s, highest_address) = fold count_region (known_regions m) (s, 0);
          s = s\<lparr>total_frames := ucast ((highest_address + PAGE_SIZE - 1) div PAGE_SIZE)\<rparr>
      in do {
        s \<leftarrow> for_each bitmap_set (frames 0 (total_frames s)) s;
        s \<leftarrow> for_each free_region (known_regions m) s;
        s \<leftarrow> reserve_region (ucast kernel_start) (ucast (kernel_end - kernel_start)) s;
        bitmap_set 0 s
      })"

fun alloc_scan :: "u32 list \<Rightarrow> pmm_t \<Rightarrow> (u32 option \<times> pmm_t) option" where
  "alloc_scan [] s = Some (None, s)"
| "alloc_scan (frame # fs) s =
     do {
       taken \<leftarrow> bitmap_test frame s;
       if \<not> taken then do { s' \<leftarrow> bitmap_set frame s; Some (Some (frame * PAGE_SIZE), s') }
       else alloc_scan fs s
     }"

definition pmm_alloc_frame :: "pmm_t \<Rightarrow> (u32 option \<times> pmm_t) option" where
  "pmm_alloc_frame s =
     do {
       (r, s') \<leftarrow> alloc_scan (frames 0 (total_frames s)) s;
       Some (if r = Some 0 then None else r, s')
     }"

definition pmm_free_frame :: "u32 \<Rightarrow> pmm_t \<Rightarrow> pmm_t option" where
  "pmm_free_frame frame s =
     (if frame = 0 then Some s
      else if frame mod PAGE_SIZE \<noteq> 0 then Some s
      else let frame_number = frame div PAGE_SIZE
           in if frame_number \<ge> total_frames s then Some s
              else bitmap_reset frame_number s)"

fun count_free :: "u32 list \<Rightarrow> u32 \<Rightarrow> pmm_t \<Rightarrow> u32 option" where
  "count_free [] n s = Some n"
| "count_free (frame # fs) n s =
     do { taken \<leftarrow> bitmap_test frame s; count_free fs (if \<not> taken then n + 1 else n) s }"

definition pmm_free_frames :: "pmm_t \<Rightarrow> u32 option" where
  "pmm_free_frames s = count_free (frames 0 (total_frames s)) 0 s"

definition pmm_total_memory :: "pmm_t \<Rightarrow> u64" where
  "pmm_total_memory s = total_memory s"

definition pmm_usable_memory :: "pmm_t \<Rightarrow> u64" where
  "pmm_usable_memory s = usable_memory s"

definition pmm_total_frames :: "pmm_t \<Rightarrow> u32" where
  "pmm_total_frames s = total_frames s"

section \<open>The bitmap as a set of frames\<close>

definition frame_used :: "pmm_t \<Rightarrow> nat \<Rightarrow> bool" where
  "frame_used s f = bit (frame_bitmap s (of_nat (f div 8))) (f mod 8)"

lemma frame_split:
  assumes "f < MAX_FRAMES"
  shows "(of_nat f :: u32) div 8 = of_nat (f div 8)" "unat ((of_nat f :: u32) mod 8) = f mod 8"
    "in_bitmap (of_nat f)"
proof -
  have "f < 2 ^ 32" using assms by simp
  then have u: "unat (of_nat f :: u32) = f" by (simp add: unat_of_nat)
  have "unat ((of_nat f :: u32) div 8) = f div 8" using u by (simp add: unat_div)
  moreover have "unat (of_nat (f div 8) :: u32) = f div 8" using assms by (simp add: unat_of_nat)
  ultimately show d: "(of_nat f :: u32) div 8 = of_nat (f div 8)" by (simp add: word_unat_eq_iff)
  show "unat ((of_nat f :: u32) mod 8) = f mod 8" using u by (simp add: unat_mod)
  have "f div 8 < 131072" using assms by linarith
  then show "in_bitmap (of_nat f)"
    unfolding in_bitmap_def d using assms by (simp add: word_less_nat_alt unat_of_nat)
qed

lemma frame_byte_eq:
  "f < MAX_FRAMES \<Longrightarrow> g < MAX_FRAMES \<Longrightarrow> (of_nat (f div 8) :: u32) = of_nat (g div 8) \<longleftrightarrow> f div 8 = g div 8"
proof -
  assume "f < MAX_FRAMES" "g < MAX_FRAMES"
  then have "unat (of_nat (f div 8) :: u32) = f div 8" "unat (of_nat (g div 8) :: u32) = g div 8"
    by (simp_all add: unat_of_nat)
  then show ?thesis by (metis word_unat_eq_iff)
qed

lemma bit_one_shift: "k < 8 \<Longrightarrow> m < 8 \<Longrightarrow> bit (push_bit k (1 :: u8)) m \<longleftrightarrow> m = k"
  by (auto simp: bit_simps)

lemma bitmap_test_used:
  assumes "f < MAX_FRAMES"
  shows "bitmap_test (of_nat f) s = Some (frame_used s f)"
proof -
  have "(w AND push_bit k 1 \<noteq> 0) = bit w k" if "k < 8" for w :: u8 and k
  proof -
    have "bit (w AND push_bit k 1) m \<longleftrightarrow> m = k \<and> bit w k" for m
      using that by (auto simp: bit_and_iff bit_exp_iff dest: bit_imp_le_length)
    then show ?thesis by (metis bit_0_eq bit_eq_iff bot_apply bot_bool_def)
  qed
  then show ?thesis
    by (simp add: bitmap_test_def frame_split [OF assms] frame_used_def)
qed

lemma bitmap_set_used:
  assumes "f < MAX_FRAMES"
  shows "\<exists>s'. bitmap_set (of_nat f) s = Some s' \<and> total_frames s' = total_frames s \<and>
    total_memory s' = total_memory s \<and> usable_memory s' = usable_memory s \<and>
    (\<forall>g < MAX_FRAMES. frame_used s' g \<longleftrightarrow> g = f \<or> frame_used s g)"
proof -
  have "g = f \<longleftrightarrow> g div 8 = f div 8 \<and> g mod 8 = f mod 8" for g
    by (metis div_mult_mod_eq)
  then show ?thesis
    by (auto simp: bitmap_set_def frame_split [OF assms] frame_used_def frame_byte_eq [OF _ assms]
        bit_or_iff bit_exp_iff)
qed

lemma bitmap_reset_used:
  assumes "f < MAX_FRAMES"
  shows "\<exists>s'. bitmap_reset (of_nat f) s = Some s' \<and> total_frames s' = total_frames s \<and>
    total_memory s' = total_memory s \<and> usable_memory s' = usable_memory s \<and>
    (\<forall>g < MAX_FRAMES. frame_used s' g \<longleftrightarrow> g \<noteq> f \<and> frame_used s g)"
proof -
  have "g = f \<longleftrightarrow> g div 8 = f div 8 \<and> g mod 8 = f mod 8" for g
    by (metis div_mult_mod_eq)
  then show ?thesis
    by (auto simp: bitmap_reset_def frame_split [OF assms] frame_used_def frame_byte_eq [OF _ assms]
        bit_and_iff bit_not_iff bit_exp_iff)
qed

text \<open>A loop over a range of frames sets or clears exactly their bits.\<close>

definition same_counts :: "pmm_t \<Rightarrow> pmm_t \<Rightarrow> bool" where
  "same_counts s s' \<longleftrightarrow> total_frames s' = total_frames s \<and> total_memory s' = total_memory s \<and>
     usable_memory s' = usable_memory s"

lemma set_each_used:
  assumes "\<forall>f \<in> set fs. f < MAX_FRAMES"
  shows "\<exists>s'. for_each bitmap_set (map of_nat fs) s = Some s' \<and> same_counts s s' \<and>
    (\<forall>g < MAX_FRAMES. frame_used s' g \<longleftrightarrow> g \<in> set fs \<or> frame_used s g)"
  using assms
proof (induction fs arbitrary: s)
  case (Cons f fs)
  obtain s1 where s1: "bitmap_set (of_nat f) s = Some s1" "same_counts s s1"
    "\<forall>g < MAX_FRAMES. frame_used s1 g \<longleftrightarrow> g = f \<or> frame_used s g"
    using bitmap_set_used [of f s] Cons.prems by (auto simp: same_counts_def)
  obtain s2 where "for_each bitmap_set (map of_nat fs) s1 = Some s2" "same_counts s1 s2"
    "\<forall>g < MAX_FRAMES. frame_used s2 g \<longleftrightarrow> g \<in> set fs \<or> frame_used s1 g"
    using Cons.IH [of s1] Cons.prems by auto
  with s1 show ?case by (auto simp: same_counts_def)
qed (simp add: same_counts_def)

lemma reset_each_used:
  assumes "\<forall>f \<in> set fs. f < MAX_FRAMES"
  shows "\<exists>s'. for_each bitmap_reset (map of_nat fs) s = Some s' \<and> same_counts s s' \<and>
    (\<forall>g < MAX_FRAMES. frame_used s' g \<longleftrightarrow> g \<notin> set fs \<and> frame_used s g)"
  using assms
proof (induction fs arbitrary: s)
  case (Cons f fs)
  obtain s1 where s1: "bitmap_reset (of_nat f) s = Some s1" "same_counts s s1"
    "\<forall>g < MAX_FRAMES. frame_used s1 g \<longleftrightarrow> g \<noteq> f \<and> frame_used s g"
    using bitmap_reset_used [of f s] Cons.prems by (auto simp: same_counts_def)
  obtain s2 where "for_each bitmap_reset (map of_nat fs) s1 = Some s2" "same_counts s1 s2"
    "\<forall>g < MAX_FRAMES. frame_used s2 g \<longleftrightarrow> g \<notin> set fs \<and> frame_used s1 g"
    using Cons.IH [of s1] Cons.prems by auto
  with s1 show ?case by (auto simp: same_counts_def)
qed (simp add: same_counts_def)

section \<open>Allocation\<close>

lemma alloc_scan_used:
  assumes "\<forall>f \<in> set fs. f < MAX_FRAMES"
  shows "case List.find (\<lambda>f. \<not> frame_used s f) fs of
      None \<Rightarrow> alloc_scan (map of_nat fs) s = Some (None, s)
    | Some f \<Rightarrow> f < MAX_FRAMES \<and> (\<exists>s'. alloc_scan (map of_nat fs) s = Some (Some (of_nat f * PAGE_SIZE), s') \<and>
        same_counts s s' \<and> (\<forall>g < MAX_FRAMES. frame_used s' g \<longleftrightarrow> g = f \<or> frame_used s g))"
  using assms
proof (induction fs)
  case (Cons f fs)
  then have f: "f < MAX_FRAMES" by simp
  show ?case
  proof (cases "frame_used s f")
    case True
    then show ?thesis using Cons bitmap_test_used [OF f, of s] by (auto split: option.splits)
  next
    case False
    then show ?thesis using bitmap_test_used [OF f, of s] bitmap_set_used [OF f, of s] f
      by (auto simp: same_counts_def)
  qed
qed simp

text \<open>The manager is usable once its bitmap covers all frames and frame 0 is taken.\<close>

definition pmm_ok :: "pmm_t \<Rightarrow> bool" where
  "pmm_ok s \<longleftrightarrow> unat (total_frames s) \<le> MAX_FRAMES \<and> (0 < unat (total_frames s) \<longrightarrow> frame_used s 0)"

definition first_free :: "pmm_t \<Rightarrow> nat option" where
  "first_free s = List.find (\<lambda>f. \<not> frame_used s f) [0..<unat (total_frames s)]"

definition frame_addr :: "nat \<Rightarrow> u32" where
  "frame_addr f = of_nat f * PAGE_SIZE"

lemma unat_frame_addr: "f < MAX_FRAMES \<Longrightarrow> unat (frame_addr f) = f * 4096"
  by (simp add: frame_addr_def unat_word_ariths unat_of_nat)

lemma frame_addr_eq: "f < MAX_FRAMES \<Longrightarrow> g < MAX_FRAMES \<Longrightarrow> frame_addr f = frame_addr g \<longleftrightarrow> f = g"
  by (auto simp: word_unat_eq_iff unat_frame_addr)

lemma first_free_Some:
  "first_free s = Some f \<Longrightarrow> f < unat (total_frames s) \<and> \<not> frame_used s f \<and> (\<forall>g < f. frame_used s g)"
proof -
  assume "first_free s = Some f"
  then obtain i where i: "i < unat (total_frames s)" "\<not> frame_used s i" "f = i" "\<forall>j < i. frame_used s j"
    by (auto simp: first_free_def find_Some_iff)
  then show ?thesis by simp
qed

lemma first_free_None: "first_free s = None \<longleftrightarrow> (\<forall>f < unat (total_frames s). frame_used s f)"
  by (auto simp: first_free_def find_None_iff)

lemma pmm_alloc_frame_ok:
  assumes "pmm_ok s"
  shows "case first_free s of
      None \<Rightarrow> pmm_alloc_frame s = Some (None, s)
    | Some f \<Rightarrow> 0 < f \<and> f < unat (total_frames s) \<and>
        (\<exists>s'. pmm_alloc_frame s = Some (Some (frame_addr f), s') \<and> same_counts s s' \<and> pmm_ok s' \<and>
          (\<forall>g < MAX_FRAMES. frame_used s' g \<longleftrightarrow> g = f \<or> frame_used s g))"
proof -
  have b: "unat (total_frames s) \<le> MAX_FRAMES" using assms by (simp add: pmm_ok_def)
  have fr: "frames 0 (total_frames s) = map of_nat [0..<unat (total_frames s)]" by (simp add: frames_def)
  note scan = alloc_scan_used [of "[0..<unat (total_frames s)]" s, folded first_free_def]
  show ?thesis
  proof (cases "first_free s")
    case None
    then show ?thesis using scan b by (simp add: pmm_alloc_frame_def fr)
  next
    case (Some f)
    note f = first_free_Some [OF Some]
    have "0 < f" using f assms by (cases f) (auto simp: pmm_ok_def)
    have fb: "f < MAX_FRAMES" using f b by simp
    have "frame_addr f \<noteq> 0"
      using \<open>0 < f\<close> unat_frame_addr [OF fb] by auto
    then show ?thesis using scan b Some f \<open>0 < f\<close> assms fb
      by (auto simp: pmm_alloc_frame_def fr frame_addr_def same_counts_def pmm_ok_def)
  qed
qed

lemma pmm_free_frame_ok:
  assumes "pmm_ok s" "0 < f" "f < unat (total_frames s)"
  shows "\<exists>s'. pmm_free_frame (frame_addr f) s = Some s' \<and> same_counts s s' \<and> pmm_ok s' \<and>
    (\<forall>g < MAX_FRAMES. frame_used s' g \<longleftrightarrow> g \<noteq> f \<and> frame_used s g)"
proof -
  have fb: "f < MAX_FRAMES" using assms by (simp add: pmm_ok_def)
  have u: "unat (frame_addr f) = f * 4096" using unat_frame_addr [OF fb] .
  have n: "frame_addr f div PAGE_SIZE = of_nat f"
    using u fb by (simp add: word_unat_eq_iff unat_div unat_of_nat)
  have m: "frame_addr f mod PAGE_SIZE = 0" using u by (simp add: word_unat_eq_iff unat_mod)
  have z: "frame_addr f \<noteq> 0" using u assms(2) by auto
  have lt: "\<not> of_nat f \<ge> total_frames s" using assms(3) fb by (simp add: word_le_nat_alt unat_of_nat)
  obtain s' where "bitmap_reset (of_nat f) s = Some s'" "same_counts s s'"
    "\<forall>g < MAX_FRAMES. frame_used s' g \<longleftrightarrow> g \<noteq> f \<and> frame_used s g"
    using bitmap_reset_used [OF fb, of s] by (auto simp: same_counts_def)
  then show ?thesis using n m z lt assms by (auto simp: pmm_free_frame_def pmm_ok_def same_counts_def)
qed

end
