(* ===== verification/Paging.thy ===== *)
theory Paging
  imports Heap Pmm
begin

text \<open>
  The state of the kernel's memory management and the boot-time page tables of
  \<open>kernel/memory/paging.c\<close>. A reference to an object that is a static variable of its file or comes
  from an allocator is \<open>Static\<close> or \<open>Dyn a\<close> with its address. Page directories and page tables are
  arrays of words in physical memory, which the kernel reaches through the identity mapping of the
  first 4 MiB; an access behind it has no value. The places the linker gives the kernel image
  (\<open>src/linker.ld\<close>) and the two arrays of \<open>paging.c\<close> are a parameter.
\<close>

section \<open>State\<close>

datatype ref = Static | Dyn u32

record address_space_t =
  page_directory :: u32
  page_tables :: "ref option"

record kmem =
  heap :: heap_t
  pmm :: pmm_t
  phys :: "u32 \<Rightarrow> u32"
  spaces :: "ref \<Rightarrow> address_space_t"
  table_ptrs :: "ref \<Rightarrow> u32 \<Rightarrow> u32"
  current_address_space :: "ref option"
  cr0 :: u32
  cr3 :: u32
  invalidated :: "u32 list"
  messages :: "string list"

record layout =
  lk_kernel_start :: u32
  lk_kernel_end :: u32
  lk_page_directory :: u32
  lk_first_page_table :: u32

abbreviation PAGE_PRESENT :: u32 where "PAGE_PRESENT \<equiv> 1"
abbreviation PAGE_WRITABLE :: u32 where "PAGE_WRITABLE \<equiv> 2"
abbreviation PAGE_USER :: u32 where "PAGE_USER \<equiv> 4"

definition word_at :: "u32 \<Rightarrow> u32 \<Rightarrow> u32" where
  "word_at base i = base + 4 * i"

definition get_word :: "u32 \<Rightarrow> u32 \<Rightarrow> kmem \<Rightarrow> u32" where
  "get_word base i s = phys s (word_at base i)"

definition set_word :: "u32 \<Rightarrow> u32 \<Rightarrow> u32 \<Rightarrow> kmem \<Rightarrow> kmem" where
  "set_word base i v s = s\<lparr>phys := (phys s)(word_at base i := v)\<rparr>"

definition set_words :: "u32 \<Rightarrow> (u32 \<Rightarrow> u32) \<Rightarrow> u32 list \<Rightarrow> kmem \<Rightarrow> kmem" where
  "set_words base f is s = fold (\<lambda>i. set_word base i (f i)) is s"

definition mapped :: "u32 \<Rightarrow> bool" where
  "mapped a \<longleftrightarrow> a < 0x400000"

definition say :: "string \<Rightarrow> kmem \<Rightarrow> kmem" where
  "say msg s = s\<lparr>messages := messages s @ [msg]\<rparr>"

section \<open>Boot-time page tables\<close>

definition protect_page :: "u32 \<Rightarrow> u32 \<Rightarrow> kmem \<Rightarrow> kmem option" where
  "protect_page table i s =
     (if i < 1024 then Some (set_word table i (get_word table i s AND NOT PAGE_WRITABLE) s) else None)"

definition paging_init :: "layout \<Rightarrow> kmem \<Rightarrow> kmem option" where
  "paging_init lay s =
     (let table = lk_first_page_table lay;
          s = set_words table (\<lambda>i. (i * 0x1000) OR PAGE_PRESENT OR PAGE_WRITABLE) (frames 0 1024) s;
          start_page = lk_kernel_start lay div 0x1000;
          end_page = (lk_kernel_end lay + 0xFFF) div 0x1000
      in do {
        s \<leftarrow> for_each (protect_page table) (frames start_page end_page) s;
        let s = set_word table 0 0 s;
            s = set_word (lk_page_directory lay) 0 (table OR PAGE_PRESENT OR PAGE_WRITABLE) s;
            s = set_words (lk_page_directory lay) (\<lambda>_. 0) (frames 1 1024) s
        in Some (s\<lparr>cr3 := lk_page_directory lay, cr0 := cr0 s OR 0x80000000\<rparr>)
      })"

definition paging_get_directory :: "layout \<Rightarrow> u32" where
  "paging_get_directory lay = lk_page_directory lay"

definition paging_get_first_table :: "layout \<Rightarrow> u32" where
  "paging_get_first_table lay = lk_first_page_table lay"

end
