(* ===== verification/AddressSpace.thy ===== *)
theory AddressSpace
  imports Paging
begin

text \<open>
  Address spaces, \<open>kernel/memory/address_space.c\<close>: a frame that holds the \<open>address_space_t\<close>, a frame
  that holds the page directory, and a heap block with the 1024 pointers to the page tables. The first
  page table is the boot-time one in every address space.
\<close>

definition lift_pmm :: "(pmm_t \<Rightarrow> ('a \<times> pmm_t) option) \<Rightarrow> kmem \<Rightarrow> ('a \<times> kmem) option" where
  "lift_pmm f s = do { (x, p) \<leftarrow> f (pmm s); Some (x, s\<lparr>pmm := p\<rparr>) }"

definition free_frame :: "u32 \<Rightarrow> kmem \<Rightarrow> kmem option" where
  "free_frame p s = do { pm \<leftarrow> pmm_free_frame p (pmm s); Some (s\<lparr>pmm := pm\<rparr>) }"

definition lift_heap :: "(heap_t \<Rightarrow> ('a \<times> heap_t) option) \<Rightarrow> kmem \<Rightarrow> ('a \<times> kmem) option" where
  "lift_heap f s = do { (x, h) \<leftarrow> f (heap s); Some (x, s\<lparr>heap := h\<rparr>) }"

definition free_tables :: "ref \<Rightarrow> kmem \<Rightarrow> kmem option" where
  "free_tables r s =
     (case r of Static \<Rightarrow> None | Dyn p \<Rightarrow> Some (s\<lparr>heap := kfree (Some p) (heap s)\<rparr>))"

definition reachable_ref :: "ref \<Rightarrow> bool" where
  "reachable_ref r = (case r of Static \<Rightarrow> True | Dyn p \<Rightarrow> mapped p)"

definition set_tables :: "ref \<Rightarrow> ref option \<Rightarrow> kmem \<Rightarrow> kmem" where
  "set_tables r t s = s\<lparr>spaces := (spaces s)(r := (spaces s r)\<lparr>page_tables := t\<rparr>)\<rparr>"

definition set_directory :: "ref \<Rightarrow> u32 \<Rightarrow> kmem \<Rightarrow> kmem" where
  "set_directory r d s = s\<lparr>spaces := (spaces s)(r := (spaces s r)\<lparr>page_directory := d\<rparr>)\<rparr>"

definition set_table_ptr :: "ref \<Rightarrow> u32 \<Rightarrow> u32 \<Rightarrow> kmem \<Rightarrow> kmem" where
  "set_table_ptr t i v s = s\<lparr>table_ptrs := (table_ptrs s)(t := (table_ptrs s t)(i := v))\<rparr>"

definition clear_table_ptrs :: "ref \<Rightarrow> kmem \<Rightarrow> kmem" where
  "clear_table_ptrs t s = fold (\<lambda>i. set_table_ptr t i 0) (frames 0 1024) s"

definition address_space_create :: "layout \<Rightarrow> kmem \<Rightarrow> (ref option \<times> kmem) option" where
  "address_space_create lay s = do {
     (frame, s) \<leftarrow> lift_pmm pmm_alloc_frame s;
     (case frame of
        None \<Rightarrow> Some (None, say ''address_space_create: FAILED to allocate frame for address space.'' s)
      | Some as \<Rightarrow> do {
          (block, s) \<leftarrow> lift_heap (kmalloc (4 * 1024)) s;
          (if \<not> mapped as then None
           else let s = set_tables (Dyn as) (map_option Dyn block) s
           in case block of
             None \<Rightarrow> do {
               s \<leftarrow> free_frame as (say ''address_space_create: memory allocation failed.'' s);
               Some (None, s)
             }
           | Some tables \<Rightarrow> do {
               let s = clear_table_ptrs (Dyn tables) s;
               (directory, s) \<leftarrow> lift_pmm pmm_alloc_frame s;
               (case directory of
                  None \<Rightarrow> do {
                    let s = say ''address_space_create: page directory frame FAILED.'' s;
                    s \<leftarrow> free_tables (Dyn tables) s;
                    s \<leftarrow> free_frame as s;
                    Some (None, s)
                  }
                | Some dir \<Rightarrow>
                    if \<not> mapped dir then None
                    else let kernel_page_directory = paging_get_directory lay;
                             s = set_words dir (\<lambda>_. 0) (frames 0 1024) s;
                             s = set_word dir 0 (get_word kernel_page_directory 0 s) s;
                             s = set_table_ptr (Dyn tables) 0 (paging_get_first_table lay) s;
                             s = set_directory (Dyn as) dir s
                         in Some (Some (Dyn as), s))
             })
        })
   }"

definition free_table_at :: "ref \<Rightarrow> u32 \<Rightarrow> kmem \<Rightarrow> kmem option" where
  "free_table_at tables i s =
     (if table_ptrs s tables i \<noteq> 0
      then do {
        s \<leftarrow> free_frame (table_ptrs s tables i) s;
        Some (set_table_ptr tables i 0 s)
      }
      else Some s)"

definition address_space_destroy :: "ref option \<Rightarrow> kmem \<Rightarrow> kmem option" where
  "address_space_destroy address_space s =
     (case address_space of
        None \<Rightarrow> Some s
      | Some Static \<Rightarrow> Some s
      | Some (Dyn as) \<Rightarrow>
          if address_space = current_address_space s then Some s
          else if \<not> mapped as then None
          else do {
            s \<leftarrow> (case page_tables (spaces s (Dyn as)) of
                    None \<Rightarrow> Some s
                  | Some tables \<Rightarrow> do {
                      s \<leftarrow> for_each (free_table_at tables) (frames 1 1024) s;
                      s \<leftarrow> free_tables tables s;
                      Some (set_tables (Dyn as) None s)
                    });
            s \<leftarrow> (if page_directory (spaces s (Dyn as)) \<noteq> 0
                  then do {
                    s \<leftarrow> free_frame (page_directory (spaces s (Dyn as))) s;
                    Some (set_directory (Dyn as) 0 s)
                  }
                  else Some s);
            free_frame as s
          })"

definition address_space_current :: "kmem \<Rightarrow> ref option" where
  "address_space_current s = current_address_space s"

definition address_space_activate :: "ref option \<Rightarrow> kmem \<Rightarrow> kmem option" where
  "address_space_activate address_space s =
     (case address_space of
        None \<Rightarrow> Some s
      | Some r \<Rightarrow>
          if \<not> reachable_ref r then None
          else Some (s\<lparr>cr3 := page_directory (spaces s r), current_address_space := address_space\<rparr>))"

definition address_space_init :: "layout \<Rightarrow> kmem \<Rightarrow> kmem" where
  "address_space_init lay s =
     (let s = set_directory Static (paging_get_directory lay) s;
          s = set_tables Static (Some Static) s;
          s = clear_table_ptrs Static s;
          s = set_table_ptr Static 0 (paging_get_first_table lay) s
      in s\<lparr>current_address_space := Some Static\<rparr>)"

definition address_space_kernel :: "ref option" where
  "address_space_kernel = Some Static"

end
