(* ===== verification/Kernel.thy ===== *)
theory Kernel
  imports AddressSpace
begin

text \<open>
  The state of the kernel that processes and threads share (\<open>kernel/process/process.c\<close>,
  \<open>kernel/process/thread.c\<close>): the structs in memory by their address, the static variables of the two
  files, the memory management, the stack pointer and the interrupt flag. Threads other than the static
  \<open>bootstrap_thread\<close> and all processes lie in blocks of the kernel heap. A struct in a block keeps what the
  last use of the block left in it until its fields are set.
\<close>

datatype thread_state_t = THREAD_READY | THREAD_RUNNING | THREAD_BLOCKED | THREAD_TERMINATED

datatype process_state_t = PROCESS_RUNNING | PROCESS_TERMINATED

abbreviation PROCESS_NAME_MAX :: nat where "PROCESS_NAME_MAX \<equiv> 32"
abbreviation THREAD_NAME_MAX :: nat where "THREAD_NAME_MAX \<equiv> 32"
abbreviation THREAD_STACK_SIZE :: u32 where "THREAD_STACK_SIZE \<equiv> 4096"

record process_t =
  pid :: u32
  p_name :: "u8 list"
  p_address_space :: "ref option"
  p_parent :: "u32 option"
  thread_count :: u32
  p_next :: "u32 option"
  p_state :: process_state_t

record x86_thread_frame_t =
  fr_gs :: u32
  fr_fs :: u32
  fr_es :: u32
  fr_ds :: u32
  fr_edi :: u32
  fr_esi :: u32
  fr_ebp :: u32
  fr_esp :: u32
  fr_ebx :: u32
  fr_edx :: u32
  fr_ecx :: u32
  fr_eax :: u32
  fr_int_no :: u32
  fr_err_code :: u32
  fr_eip :: u32
  fr_cs :: u32
  fr_eflags :: u32

record thread_t =
  tid :: u32
  t_state :: thread_state_t
  kernel_stack :: u32
  kernel_stack_top :: u32
  saved_esp :: u32
  t_frame :: u32
  t_process :: "u32 option"
  t_entry :: u32
  t_name :: "u8 list"
  t_next :: "ref option"

record kstate =
  mm :: kmem
  threads :: "ref \<Rightarrow> thread_t"
  processes :: "u32 \<Rightarrow> process_t"
  stack_frames :: "u32 \<Rightarrow> x86_thread_frame_t"
  next_tid :: u32
  current_thread :: "ref option"
  ready_queue_head :: "ref option"
  ready_queue_tail :: "ref option"
  idle_thread_instance :: "ref option"
  terminated_queue_head :: "ref option"
  terminated_queue_tail :: "ref option"
  next_pid :: u32
  current_process :: "u32 option"
  kernel_process :: "u32 option"
  process_list_head :: "u32 option"
  process_list_tail :: "u32 option"
  cpu_esp :: u32
  interrupts :: bool

definition upd_thread :: "ref \<Rightarrow> (thread_t \<Rightarrow> thread_t) \<Rightarrow> kstate \<Rightarrow> kstate" where
  "upd_thread t f s = s\<lparr>threads := (threads s)(t := f (threads s t))\<rparr>"

definition upd_process :: "u32 \<Rightarrow> (process_t \<Rightarrow> process_t) \<Rightarrow> kstate \<Rightarrow> kstate" where
  "upd_process p f s = s\<lparr>processes := (processes s)(p := f (processes s p))\<rparr>"

definition cli :: "kstate \<Rightarrow> kstate" where
  "cli s = s\<lparr>interrupts := False\<rparr>"

definition sti :: "kstate \<Rightarrow> kstate" where
  "sti s = s\<lparr>interrupts := True\<rparr>"

definition k_alloc :: "u32 \<Rightarrow> kstate \<Rightarrow> (u32 option \<times> kstate) option" where
  "k_alloc n s = do { (p, m) \<leftarrow> lift_heap (kmalloc n) (mm s); Some (p, s\<lparr>mm := m\<rparr>) }"

definition k_free :: "u32 option \<Rightarrow> kstate \<Rightarrow> kstate" where
  "k_free p s = s\<lparr>mm := (mm s)\<lparr>heap := kfree p (heap (mm s))\<rparr>\<rparr>"

definition k_say :: "string \<Rightarrow> kstate \<Rightarrow> kstate" where
  "k_say msg s = s\<lparr>mm := say msg (mm s)\<rparr>"

definition k_activate :: "ref option \<Rightarrow> kstate \<Rightarrow> kstate option" where
  "k_activate r s = do { m \<leftarrow> address_space_activate r (mm s); Some (s\<lparr>mm := m\<rparr>) }"

definition process_current :: "kstate \<Rightarrow> u32 option" where
  "process_current s = current_process s"

definition process_set_current :: "u32 option \<Rightarrow> kstate \<Rightarrow> kstate" where
  "process_set_current p s = (case p of None \<Rightarrow> s | Some _ \<Rightarrow> s\<lparr>current_process := p\<rparr>)"

section \<open>Linked lists\<close>

text \<open>The elements of a linked list from its head pointer on, and the queue with a head and a tail pointer.\<close>

fun linked :: "('a \<Rightarrow> 'a option) \<Rightarrow> 'a option \<Rightarrow> 'a list \<Rightarrow> bool" where
  "linked nxt p [] \<longleftrightarrow> p = None"
| "linked nxt p (x # xs) \<longleftrightarrow> p = Some x \<and> linked nxt (nxt x) xs"

definition last_of :: "'a list \<Rightarrow> 'a option" where
  "last_of xs = (if xs = [] then None else Some (last xs))"

definition queue_of :: "('a \<Rightarrow> 'a option) \<Rightarrow> 'a option \<Rightarrow> 'a option \<Rightarrow> 'a list \<Rightarrow> bool" where
  "queue_of nxt h t xs \<longleftrightarrow> linked nxt h xs \<and> distinct xs \<and> t = last_of xs"

lemma linked_None [simp]: "linked nxt None xs \<longleftrightarrow> xs = []"
  by (cases xs) auto

lemma linked_Some: "linked nxt (Some x) xs \<longleftrightarrow> (\<exists>ys. xs = x # ys \<and> linked nxt (nxt x) ys)"
  by (cases xs) auto

lemma linked_upd_other: "x \<notin> set xs \<Longrightarrow> linked (nxt(x := y)) p xs = linked nxt p xs"
  by (induction xs arbitrary: p) auto

lemma linked_cong: "(\<And>x. x \<in> set xs \<Longrightarrow> nxt' x = nxt x) \<Longrightarrow> linked nxt' p xs = linked nxt p xs"
  by (induction xs arbitrary: p) auto

lemma linked_append:
  "linked nxt p (xs @ [z]) \<Longrightarrow> distinct (xs @ [z]) \<Longrightarrow> y \<notin> set (xs @ [z]) \<Longrightarrow> nxt' y = None \<Longrightarrow> nxt' z = Some y \<Longrightarrow>
   (\<And>x. x \<in> set xs \<Longrightarrow> nxt' x = nxt x) \<Longrightarrow> linked nxt' p (xs @ [z, y])"
  by (induction xs arbitrary: p) auto

lemma queue_of_Nil [simp]: "queue_of nxt h t [] \<longleftrightarrow> h = None \<and> t = None"
  by (auto simp: queue_of_def last_of_def)

lemma queue_of_tail: "queue_of nxt h t xs \<Longrightarrow> t = None \<longleftrightarrow> xs = []"
  by (simp add: queue_of_def last_of_def)

lemma queue_of_cong:
  assumes "\<And>x. x \<in> set xs \<Longrightarrow> nxt' x = nxt x"
  shows "queue_of nxt' h t xs = queue_of nxt h t xs"
  using linked_cong [of xs nxt' nxt h] assms by (simp add: queue_of_def)

lemma queue_of_enq:
  assumes "queue_of nxt h t xs" "y \<notin> set xs" "nxt' y = None"
    and "\<And>x. x \<in> set xs \<Longrightarrow> nxt' x = (if Some x = t then Some y else nxt x)"
  shows "queue_of nxt' (if t = None then Some y else h) (Some y) (xs @ [y])"
proof (cases "xs = []")
  case True
  then show ?thesis using assms by (simp add: queue_of_def last_of_def)
next
  case False
  then obtain ys z where xs: "xs = ys @ [z]" by (metis rev_exhaust)
  then have t: "t = Some z" using assms(1) by (simp add: queue_of_def last_of_def)
  have ld: "linked nxt h xs" "distinct xs" using assms(1) by (simp_all add: queue_of_def)
  have nx: "nxt' x = (if x = z then Some y else nxt x)" if "x \<in> set xs" for x
    using assms(4) [OF that] t by simp
  have "linked nxt' h (ys @ [z, y])"
    by (rule linked_append [of nxt h ys z y nxt']) (use ld assms(2,3) xs nx in auto)
  then show ?thesis using assms(1,2) xs t by (auto simp: queue_of_def last_of_def)
qed

lemma queue_of_deq:
  assumes "queue_of nxt h t (x # xs)" "\<And>y. y \<in> set xs \<Longrightarrow> nxt' y = nxt y"
  shows "h = Some x" "queue_of nxt' (nxt x) (if nxt x = None then None else t) xs" "nxt x = None \<longleftrightarrow> xs = []"
proof -
  have l: "linked nxt (nxt x) xs" "distinct xs" "h = Some x" "t = Some (last (x # xs))"
    using assms(1) by (simp_all add: queue_of_def last_of_def)
  show "h = Some x" by (rule l(3))
  show e: "nxt x = None \<longleftrightarrow> xs = []" using l(1) by (cases xs) auto
  show "queue_of nxt' (nxt x) (if nxt x = None then None else t) xs"
    using l linked_cong [of xs nxt' nxt "nxt x"] assms(2) e by (auto simp: queue_of_def last_of_def)
qed

text \<open>Unlinking the element behind \<open>prev\<close>, as the loops that filter a queue do.\<close>

lemma linked_remove:
  "linked nxt p (xs @ z # x # ys) \<Longrightarrow> distinct (xs @ z # x # ys) \<Longrightarrow> nxt' z = nxt x \<Longrightarrow>
   (\<And>y. y \<in> set xs \<union> set ys \<Longrightarrow> nxt' y = nxt y) \<Longrightarrow> linked nxt' p (xs @ z # ys)"
proof (induction xs arbitrary: p)
  case Nil
  then show ?case using linked_cong [of ys nxt' nxt "nxt x"] by simp
qed auto

lemma last_of_append: "last_of (xs @ ys) = (if ys = [] then last_of xs else last_of ys)"
  by (simp add: last_of_def)

lemma queue_of_unlink:
  assumes q: "queue_of nxt h t (kept @ x # us)"
    and n: "\<And>y. y \<in> set kept \<union> set us \<Longrightarrow> nxt' y = (if Some y = last_of kept then nxt x else nxt y)"
  shows "queue_of nxt' (if kept = [] then nxt x else h) (if t = Some x then last_of kept else t) (kept @ us)"
proof -
  have l: "linked nxt h (kept @ x # us)" and d: "distinct (kept @ x # us)" and t: "t = last_of (kept @ x # us)"
    using q by (simp_all add: queue_of_def)
  have t': "(if t = Some x then last_of kept else t) = last_of (kept @ us)"
  proof (cases "us = []")
    case False
    then have "last us \<noteq> x" using d by auto
    then show ?thesis using False t by (auto simp: last_of_def)
  qed (simp add: t last_of_def)
  show ?thesis
  proof (cases "kept = []")
    case True
    then have "linked nxt' (nxt x) us"
      using l n linked_cong [of us nxt' nxt "nxt x"] by (simp add: last_of_def)
    then show ?thesis using True d t' by (simp add: queue_of_def)
  next
    case False
    then obtain ks z where k: "kept = ks @ [z]" by (metis rev_exhaust)
    have lz: "last_of kept = Some z" by (simp add: k last_of_def)
    have nz: "nxt' z = nxt x" using n [of z] k lz by simp
    have no: "nxt' y = nxt y" if "y \<in> set ks \<union> set us" for y
      using n [of y] that d k lz by auto
    have "linked nxt' h (ks @ z # us)"
      by (rule linked_remove [of nxt h ks z x us nxt']) (use l d k nz no in auto)
    then show ?thesis using False d t' k by (simp add: queue_of_def)
  qed
qed

end
