(* ===== verification/Thread.thy ===== *)
theory Thread
  imports Kernel
begin

text \<open>
  Threads, \<open>kernel/process/thread.c\<close>. A function that ends in a context switch returns the state in which
  the processor goes on in the other thread. \<open>x86_context_switch\<close> (\<open>src/arch/x86/context.asm\<close>) pushes a
  frame of 17 words on the current stack, stores the stack pointer, loads the other one and pops the frame
  there; every frame it pops has the interrupt flag set. The bodies of the test threads are not modelled.
\<close>

section \<open>Context switch\<close>

abbreviation FRAME_SIZE :: u32 where "FRAME_SIZE \<equiv> 68"

definition x86_context_switch :: "ref \<Rightarrow> u32 \<Rightarrow> kstate \<Rightarrow> kstate" where
  "x86_context_switch old new_esp s =
     (upd_thread old (\<lambda>t. t\<lparr>saved_esp := cpu_esp s - FRAME_SIZE\<rparr>) s)
       \<lparr>cpu_esp := new_esp + FRAME_SIZE, interrupts := True\<rparr>"

definition set_state :: "ref \<Rightarrow> thread_state_t \<Rightarrow> kstate \<Rightarrow> kstate" where
  "set_state t st s = upd_thread t (\<lambda>th. th\<lparr>t_state := st\<rparr>) s"

definition set_next :: "ref \<Rightarrow> ref option \<Rightarrow> kstate \<Rightarrow> kstate" where
  "set_next t n s = upd_thread t (\<lambda>th. th\<lparr>t_next := n\<rparr>) s"

section \<open>Queues\<close>

definition thread_enqueue_terminated :: "ref option \<Rightarrow> kstate \<Rightarrow> kstate" where
  "thread_enqueue_terminated thread s =
     (case thread of
        None \<Rightarrow> s
      | Some t \<Rightarrow>
          let s = set_next t None (set_state t THREAD_TERMINATED s)
          in case terminated_queue_tail s of
               None \<Rightarrow> s\<lparr>terminated_queue_head := Some t, terminated_queue_tail := Some t\<rparr>
             | Some tail \<Rightarrow> (set_next tail (Some t) s)\<lparr>terminated_queue_tail := Some t\<rparr>)"

definition thread_set_current :: "ref option \<Rightarrow> kstate \<Rightarrow> kstate" where
  "thread_set_current t s = s\<lparr>current_thread := t\<rparr>"

definition thread_current :: "kstate \<Rightarrow> ref option" where
  "thread_current s = current_thread s"

definition thread_idle :: "kstate \<Rightarrow> ref option" where
  "thread_idle s = idle_thread_instance s"

definition thread_enqueue :: "ref option \<Rightarrow> kstate \<Rightarrow> kstate" where
  "thread_enqueue thread s =
     (case thread of
        None \<Rightarrow> s
      | Some t \<Rightarrow>
          let s = set_state t THREAD_READY (set_next t None s)
          in case ready_queue_tail s of
               None \<Rightarrow> s\<lparr>ready_queue_head := Some t, ready_queue_tail := Some t\<rparr>
             | Some tail \<Rightarrow> (set_next tail (Some t) s)\<lparr>ready_queue_tail := Some t\<rparr>)"

definition thread_dequeue :: "kstate \<Rightarrow> ref option \<times> kstate" where
  "thread_dequeue s =
     (case ready_queue_head s of
        None \<Rightarrow> (None, s)
      | Some t \<Rightarrow>
          let s = s\<lparr>ready_queue_head := t_next (threads s t)\<rparr>;
              s = (if ready_queue_head s = None then s\<lparr>ready_queue_tail := None\<rparr> else s)
          in (Some t, set_next t None s))"

section \<open>Creation and destruction\<close>

text \<open>The loop that copies a name: it clears a byte, then overwrites it, and stops behind the terminator.\<close>

fun copy_name :: "(nat \<Rightarrow> u8) option \<Rightarrow> nat list \<Rightarrow> u8 list \<Rightarrow> u8 list" where
  "copy_name src [] dst = dst"
| "copy_name src (i # is) dst =
     (let dst = dst[i := 0]
      in case src of
           Some c \<Rightarrow> if c i \<noteq> 0 then copy_name src is (dst[i := c i]) else dst
         | None \<Rightarrow> dst)"

definition initial_frame :: "u32 \<Rightarrow> u32 \<Rightarrow> x86_thread_frame_t" where
  "initial_frame stack_top entry =
     \<lparr>fr_gs = 0x10, fr_fs = 0x10, fr_es = 0x10, fr_ds = 0x10,
      fr_edi = 0, fr_esi = 0, fr_ebp = 0, fr_esp = stack_top, fr_ebx = 0, fr_edx = 0, fr_ecx = 0, fr_eax = 0,
      fr_int_no = 0, fr_err_code = 0, fr_eip = entry, fr_cs = 0x08, fr_eflags = 0x202\<rparr>"

definition thread_create_in_process ::
    "u32 option \<Rightarrow> u32 \<Rightarrow> (nat \<Rightarrow> u8) option \<Rightarrow> kstate \<Rightarrow> (ref option \<times> kstate) option" where
  "thread_create_in_process proc entry name s =
     (case proc of
        None \<Rightarrow> Some (None, s)
      | Some p \<Rightarrow>
          if entry = 0 then Some (None, s)
          else if p_state (processes s p) \<noteq> PROCESS_RUNNING then Some (None, s)
          else do {
            (thread, s) \<leftarrow> k_alloc 68 s;
            (case thread of
               None \<Rightarrow> Some (None, s)
             | Some a \<Rightarrow> do {
                 (block, s) \<leftarrow> k_alloc THREAD_STACK_SIZE s;
                 (case block of
                    None \<Rightarrow> Some (None, k_free thread s)
                  | Some stack \<Rightarrow>
                      let t = Dyn a;
                          stack_top = stack + THREAD_STACK_SIZE;
                          frame_address = stack_top - FRAME_SIZE;
                          s = (upd_thread t (\<lambda>th. th\<lparr>tid := next_tid s, t_state := THREAD_READY, t_process := proc\<rparr>) s)
                                \<lparr>next_tid := next_tid s + 1\<rparr>;
                          s = upd_process p (\<lambda>pr. pr\<lparr>thread_count := thread_count pr + 1\<rparr>) s;
                          s = upd_thread t (\<lambda>th. th\<lparr>kernel_stack := stack, kernel_stack_top := stack_top, t_entry := entry,
                                t_next := None, t_name := copy_name name [0..<THREAD_NAME_MAX] (t_name th),
                                t_frame := frame_address\<rparr>) s;
                          s = s\<lparr>stack_frames := (stack_frames s)(frame_address := initial_frame stack_top entry)\<rparr>;
                          s = upd_thread t (\<lambda>th. th\<lparr>saved_esp := frame_address\<rparr>) s
                      in Some (Some t, s))
               })
          })"

definition thread_create :: "u32 \<Rightarrow> (nat \<Rightarrow> u8) option \<Rightarrow> kstate \<Rightarrow> (ref option \<times> kstate) option" where
  "thread_create entry name s = thread_create_in_process (process_current s) entry name s"

text \<open>\<open>thread_init\<close>; \<open>idle_entry\<close> is the address of \<open>idle_thread\<close>, \<open>idle_name\<close> the literal \<open>"idle"\<close>.\<close>

definition idle_name :: "nat \<Rightarrow> u8" where
  "idle_name i = (if i < 4 then [0x69, 0x64, 0x6C, 0x65] ! i else 0)"

definition kernel_chars :: "u8 list \<Rightarrow> u8 list" where
  "kernel_chars dst = dst[0 := 0x6B, 1 := 0x65, 2 := 0x72, 3 := 0x6E, 4 := 0x65, 5 := 0x6C]"

definition thread_init :: "u32 \<Rightarrow> kstate \<Rightarrow> kstate option" where
  "thread_init idle_entry s =
     (let s = s\<lparr>next_tid := 1, current_thread := None, ready_queue_head := None, ready_queue_tail := None,
                terminated_queue_head := None, terminated_queue_tail := None\<rparr>
      in case process_current s of
           None \<Rightarrow> Some s
         | Some p \<Rightarrow>
             let s = (upd_thread Static (\<lambda>th. th\<lparr>tid := next_tid s, t_state := THREAD_RUNNING, t_process := Some p,
                       kernel_stack := 0, kernel_stack_top := 0, saved_esp := 0, t_frame := 0, t_entry := 0,
                       t_next := None, t_name := (kernel_chars (t_name th))[6 := 0]\<rparr>) s)\<lparr>next_tid := next_tid s + 1\<rparr>;
                 s = upd_process p (\<lambda>pr. pr\<lparr>thread_count := thread_count pr + 1\<rparr>) s;
                 s = s\<lparr>current_thread := Some Static\<rparr>
             in do {
               (idle, s) \<leftarrow> thread_create_in_process (Some p) idle_entry (Some idle_name) s;
               Some (s\<lparr>idle_thread_instance := idle\<rparr>)
             })"

text \<open>The fields of a thread that are freed with it, as \<open>thread_destroy\<close> and \<open>thread_reap_terminated\<close> do.\<close>

definition drop_thread_count :: "u32 option \<Rightarrow> kstate \<Rightarrow> kstate" where
  "drop_thread_count proc s =
     (case proc of
        None \<Rightarrow> s
      | Some p \<Rightarrow>
          if thread_count (processes s p) > 0
          then upd_process p (\<lambda>pr. pr\<lparr>thread_count := thread_count pr - 1\<rparr>) s else s)"

definition free_stack :: "u32 \<Rightarrow> kstate \<Rightarrow> kstate" where
  "free_stack stack s = (if stack \<noteq> 0 then k_free (Some stack) s else s)"

definition free_thread :: "ref \<Rightarrow> kstate \<Rightarrow> kstate option" where
  "free_thread t s = (case t of Static \<Rightarrow> None | Dyn a \<Rightarrow> Some (k_free (Some a) s))"

definition thread_destroy :: "ref option \<Rightarrow> kstate \<Rightarrow> kstate option" where
  "thread_destroy thread s =
     (case thread of
        None \<Rightarrow> Some s
      | Some t \<Rightarrow>
          if thread = current_thread s then Some s
          else if t = Static \<or> thread = idle_thread_instance s then Some s
          else let s = free_stack (kernel_stack (threads s t)) s;
                   s = drop_thread_count (t_process (threads s t)) s
               in free_thread t s)"

section \<open>Switching\<close>

definition switch_process :: "ref \<Rightarrow> ref \<Rightarrow> kstate \<Rightarrow> kstate option" where
  "switch_process current nxt s =
     (case t_process (threads s nxt) of
        None \<Rightarrow> Some s
      | Some p \<Rightarrow>
          if t_process (threads s current) \<noteq> Some p
          then k_activate (p_address_space (processes s p)) (process_set_current (Some p) s)
          else Some s)"

text \<open>The common end of \<open>thread_yield\<close>, \<open>thread_block\<close> and \<open>thread_terminate\<close>.\<close>

definition switch_to :: "ref \<Rightarrow> ref \<Rightarrow> kstate \<Rightarrow> kstate option" where
  "switch_to current nxt s = do {
     s \<leftarrow> switch_process current nxt s;
     let s = thread_set_current (Some nxt) (set_state nxt THREAD_RUNNING s)
     in Some (x86_context_switch current (saved_esp (threads s nxt)) s)
   }"

definition thread_yield :: "kstate \<Rightarrow> kstate option" where
  "thread_yield s =
     (case thread_current s of
        None \<Rightarrow> Some s
      | Some current \<Rightarrow>
          if Some current = thread_idle s then Some s
          else let (nxt, s) = thread_dequeue s
               in case nxt of
                    None \<Rightarrow> Some s
                  | Some n \<Rightarrow>
                      let s = cli s;
                          s = (if t_state (threads s current) \<noteq> THREAD_TERMINATED \<and>
                                  t_state (threads s current) \<noteq> THREAD_BLOCKED
                               then thread_enqueue (Some current) s else s)
                      in switch_to current n s)"

definition thread_block :: "kstate \<Rightarrow> kstate option" where
  "thread_block s =
     (case thread_current s of
        None \<Rightarrow> Some s
      | Some current \<Rightarrow>
          let s = set_state current THREAD_BLOCKED (cli s);
              (nxt, s) = thread_dequeue s;
              nxt = (if nxt = None then thread_idle s else nxt)
          in case nxt of
               None \<Rightarrow> Some (sti s)
             | Some n \<Rightarrow> switch_to current n s)"

definition thread_unblock :: "ref option \<Rightarrow> kstate \<Rightarrow> kstate" where
  "thread_unblock thread s =
     (case thread of
        None \<Rightarrow> s
      | Some t \<Rightarrow>
          if t_state (threads s t) \<noteq> THREAD_BLOCKED then s
          else let s = cli s;
                   s = (case t_process (threads s t) of
                          Some p \<Rightarrow> if p_state (processes s p) = PROCESS_TERMINATED
                                    then thread_enqueue_terminated thread s else thread_enqueue thread s
                        | None \<Rightarrow> thread_enqueue thread s)
               in sti s)"

definition thread_terminate :: "kstate \<Rightarrow> kstate option" where
  "thread_terminate s =
     (case thread_current s of
        None \<Rightarrow> Some s
      | Some current \<Rightarrow>
          if current = Static \<or> Some current = idle_thread_instance s then Some s
          else if t_state (threads s current) = THREAD_TERMINATED then Some s
          else let s = thread_enqueue_terminated (Some current) (cli s);
                   (nxt, s) = thread_dequeue s;
                   nxt = (if nxt = None then thread_idle s else nxt)
               in case nxt of
                    None \<Rightarrow> Some (sti s)
                  | Some n \<Rightarrow> switch_to current n s)"

section \<open>Filtering the queues\<close>

definition link_past :: "ref option \<Rightarrow> ref option \<Rightarrow> (ref option \<Rightarrow> kstate \<Rightarrow> kstate) \<Rightarrow> kstate \<Rightarrow> kstate" where
  "link_past previous nxt set_head s =
     (case previous of None \<Rightarrow> set_head nxt s | Some p \<Rightarrow> set_next p nxt s)"

partial_function (option) terminate_loop :: "u32 \<Rightarrow> ref option \<Rightarrow> ref option \<Rightarrow> kstate \<Rightarrow> kstate option" where
  "terminate_loop p previous thread s =
     (case thread of
        None \<Rightarrow> Some s
      | Some t \<Rightarrow>
          let nxt = t_next (threads s t)
          in if t_process (threads s t) = Some p \<and> thread \<noteq> current_thread s
             then let s = link_past previous nxt (\<lambda>h s. s\<lparr>ready_queue_head := h\<rparr>) s;
                      s = (if ready_queue_tail s = thread then s\<lparr>ready_queue_tail := previous\<rparr> else s)
                  in terminate_loop p previous nxt (thread_enqueue_terminated thread s)
             else terminate_loop p thread nxt s)"

definition thread_terminate_process_threads :: "u32 option \<Rightarrow> kstate \<Rightarrow> kstate option" where
  "thread_terminate_process_threads proc s =
     (case proc of
        None \<Rightarrow> Some s
      | Some p \<Rightarrow> do {
          s \<leftarrow> terminate_loop p None (ready_queue_head s) (cli s);
          Some (sti s)
        })"

partial_function (option) reap_loop :: "ref option \<Rightarrow> ref option \<Rightarrow> ref option \<Rightarrow> kstate \<Rightarrow> kstate option" where
  "reap_loop current previous thread s =
     (case thread of
        None \<Rightarrow> Some s
      | Some t \<Rightarrow>
          let nxt = t_next (threads s t)
          in if thread \<noteq> current
             then let s = link_past previous nxt (\<lambda>h s. s\<lparr>terminated_queue_head := h\<rparr>) s;
                      s = (if terminated_queue_tail s = thread then s\<lparr>terminated_queue_tail := previous\<rparr> else s);
                      s = set_next t None s;
                      s = drop_thread_count (t_process (threads s t)) s;
                      s = free_stack (kernel_stack (threads s t)) s
                  in do {
                    s \<leftarrow> free_thread t s;
                    reap_loop current previous nxt s
                  }
             else reap_loop current thread nxt s)"

definition thread_reap_terminated :: "ref option \<Rightarrow> kstate \<Rightarrow> kstate option" where
  "thread_reap_terminated current s = reap_loop current None (terminated_queue_head s) s"

section \<open>Test threads\<close>

text \<open>\<open>thread_test_start\<close>; the last step is a switch away from a stack pointer that is never restored.\<close>

definition thread_test_start :: "u32 \<Rightarrow> (nat \<Rightarrow> u8) \<Rightarrow> u32 \<Rightarrow> (nat \<Rightarrow> u8) \<Rightarrow> kstate \<Rightarrow> kstate option" where
  "thread_test_start first_entry first_name second_entry second_name s = do {
     (thread1, s) \<leftarrow> thread_create first_entry (Some first_name) s;
     if thread1 = None then Some s
     else do {
       (thread2, s) \<leftarrow> thread_create second_entry (Some second_name) s;
       if thread2 = None then thread_destroy thread1 s
       else let s = thread_enqueue thread2 (thread_enqueue thread1 s);
                (first, s) = thread_dequeue s
            in case first of
                 None \<Rightarrow> Some s
               | Some f \<Rightarrow>
                   let s = set_state f THREAD_RUNNING (thread_set_current first s)
                   in Some (s\<lparr>cpu_esp := saved_esp (threads s f) + FRAME_SIZE, interrupts := True\<rparr>)
     }
   }"

end
