(* ===== verification/Process.thy ===== *)
theory Process
  imports Thread
begin

text \<open>
  Processes, \<open>kernel/process/process.c\<close>, and the scheduler, \<open>kernel/process/scheduler.c\<close>. A C string that
  is passed as a name is the function from offset to byte, because \<open>process_create\<close> reads on behind the
  terminator.
\<close>

section \<open>Creation and destruction\<close>

definition k_create_space :: "layout \<Rightarrow> kstate \<Rightarrow> (ref option \<times> kstate) option" where
  "k_create_space lay s = do { (r, m) \<leftarrow> address_space_create lay (mm s); Some (r, s\<lparr>mm := m\<rparr>) }"

definition k_destroy_space :: "ref option \<Rightarrow> kstate \<Rightarrow> kstate option" where
  "k_destroy_space r s = do { m \<leftarrow> address_space_destroy r (mm s); Some (s\<lparr>mm := m\<rparr>) }"

fun copy_process_name :: "(nat \<Rightarrow> u8) option \<Rightarrow> nat list \<Rightarrow> u8 list \<Rightarrow> u8 list" where
  "copy_process_name src [] dst = dst"
| "copy_process_name src (i # is) dst =
     (let dst = dst[i := 0];
          dst = (case src of Some c \<Rightarrow> if c i \<noteq> 0 then dst[i := c i] else dst | None \<Rightarrow> dst)
      in copy_process_name src is dst)"

definition process_create :: "layout \<Rightarrow> (nat \<Rightarrow> u8) option \<Rightarrow> kstate \<Rightarrow> (u32 option \<times> kstate) option" where
  "process_create lay name s = do {
     (proc, s) \<leftarrow> k_alloc 56 s;
     (case proc of
        None \<Rightarrow> Some (None, k_say ''process_create: Failed to allocate memory for process.'' s)
      | Some p \<Rightarrow> do {
          (space, s) \<leftarrow> k_create_space lay s;
          let s = upd_process p (\<lambda>pr. pr\<lparr>p_address_space := space\<rparr>) s
          in case space of
               None \<Rightarrow>
                 Some (None, k_say ''process_create: Failed to create address space for process.'' (k_free proc s))
             | Some _ \<Rightarrow>
                 let s = (upd_process p (\<lambda>pr. pr\<lparr>pid := next_pid s\<rparr>) s)\<lparr>next_pid := next_pid s + 1\<rparr>;
                     s = upd_process p (\<lambda>pr. pr\<lparr>p_state := PROCESS_RUNNING, p_parent := None, thread_count := 0, p_next := None,
                           p_name := copy_process_name name [0..<PROCESS_NAME_MAX] (p_name pr)\<rparr>) s
                 in Some (proc,
                      case process_list_tail s of
                        None \<Rightarrow> s\<lparr>process_list_head := proc, process_list_tail := proc\<rparr>
                      | Some tail \<Rightarrow>
                          (upd_process tail (\<lambda>pr. pr\<lparr>p_next := proc\<rparr>) s)\<lparr>process_list_tail := proc\<rparr>)
        })
   }"

partial_function (option) unlink_loop :: "u32 \<Rightarrow> u32 option \<Rightarrow> u32 option \<Rightarrow> kstate \<Rightarrow> kstate option" where
  "unlink_loop p previous current s =
     (case current of
        None \<Rightarrow> Some s
      | Some c \<Rightarrow>
          if c = p
          then let s = (case previous of
                          None \<Rightarrow> s\<lparr>process_list_head := p_next (processes s c)\<rparr>
                        | Some q \<Rightarrow> upd_process q (\<lambda>pr. pr\<lparr>p_next := p_next (processes s c)\<rparr>) s)
               in Some (if process_list_tail s = current then s\<lparr>process_list_tail := previous\<rparr> else s)
          else unlink_loop p current (p_next (processes s c)) s)"

definition process_destroy :: "u32 option \<Rightarrow> kstate \<Rightarrow> kstate option" where
  "process_destroy proc s =
     (case proc of
        None \<Rightarrow> Some s
      | Some p \<Rightarrow>
          if proc = kernel_process s then Some s
          else if thread_count (processes s p) \<noteq> 0 then Some s
          else do {
            let s = (if proc = current_process s then s\<lparr>current_process := None\<rparr> else s)
            in do {
              s \<leftarrow> (if p_address_space (processes s p) \<noteq> None
                    then do {
                      s \<leftarrow> k_destroy_space (p_address_space (processes s p)) s;
                      Some (upd_process p (\<lambda>pr. pr\<lparr>p_address_space := None\<rparr>) s)
                    }
                    else Some s);
              s \<leftarrow> unlink_loop p None (process_list_head s) s;
              Some (k_free proc s)
            }
          })"

partial_function (option) find_process :: "u32 \<Rightarrow> u32 option \<Rightarrow> kstate \<Rightarrow> u32 option option" where
  "find_process n proc s =
     (case proc of
        None \<Rightarrow> Some None
      | Some p \<Rightarrow> if pid (processes s p) = n then Some proc else find_process n (p_next (processes s p)) s)"

definition process_find :: "u32 \<Rightarrow> kstate \<Rightarrow> u32 option option" where
  "process_find n s = find_process n (process_list_head s) s"

definition kernel_process_name :: "u8 list \<Rightarrow> u8 list" where
  "kernel_process_name dst = kernel_chars (map (\<lambda>_. 0) dst)"

definition process_init :: "layout \<Rightarrow> (nat \<Rightarrow> u8) \<Rightarrow> kstate \<Rightarrow> kstate option" where
  "process_init lay kernel_name s = do {
     let s = s\<lparr>next_pid := 1, current_process := None, kernel_process := None\<rparr>
     in do {
       (proc, s) \<leftarrow> process_create lay (Some kernel_name) s;
       let s = s\<lparr>kernel_process := proc\<rparr>
       in case proc of
            None \<Rightarrow> Some (k_say ''process_init: Failed to create kernel process.'' s)
          | Some p \<Rightarrow> do {
              s \<leftarrow> (if p_address_space (processes s p) \<noteq> address_space_current (mm s)
                    then do {
                      s \<leftarrow> k_destroy_space (p_address_space (processes s p)) s;
                      Some (upd_process p (\<lambda>pr. pr\<lparr>p_address_space := None\<rparr>) s)
                    }
                    else Some s);
              let s = upd_process p (\<lambda>pr. pr\<lparr>pid := 0, p_state := PROCESS_RUNNING,
                        p_address_space := address_space_current (mm s), p_parent := None, thread_count := 0,
                        p_next := None, p_name := kernel_process_name (p_name pr)\<rparr>) s
              in Some (s\<lparr>current_process := proc, process_list_head := proc, process_list_tail := proc\<rparr>)
            }
     }
   }"

section \<open>Termination\<close>

definition process_exit :: "u32 option \<Rightarrow> kstate \<Rightarrow> kstate option" where
  "process_exit proc s =
     (case proc of
        None \<Rightarrow> Some s
      | Some p \<Rightarrow>
          if proc = kernel_process s then Some s
          else do {
            s \<leftarrow> thread_terminate_process_threads proc (upd_process p (\<lambda>pr. pr\<lparr>p_state := PROCESS_TERMINATED\<rparr>) s);
            (case thread_current s of
               None \<Rightarrow> Some s
             | Some current \<Rightarrow>
                 if t_process (threads s current) = proc \<and> t_state (threads s current) \<noteq> THREAD_TERMINATED
                 then thread_terminate s else Some s)
          })"

definition reapable :: "u32 \<Rightarrow> kstate \<Rightarrow> bool" where
  "reapable p s \<longleftrightarrow> Some p \<noteq> kernel_process s \<and> Some p \<noteq> current_process s \<and>
     p_state (processes s p) = PROCESS_TERMINATED \<and> thread_count (processes s p) = 0"

partial_function (option) process_reap_loop :: "u32 option \<Rightarrow> kstate \<Rightarrow> kstate option" where
  "process_reap_loop proc s =
     (case proc of
        None \<Rightarrow> Some s
      | Some p \<Rightarrow>
          let nxt = p_next (processes s p)
          in if reapable p s
             then do { s \<leftarrow> process_destroy proc s; process_reap_loop nxt s }
             else process_reap_loop nxt s)"

definition process_reap_terminated :: "kstate \<Rightarrow> kstate option" where
  "process_reap_terminated s = process_reap_loop (process_list_head s) s"

section \<open>The scheduler\<close>

definition scheduler_init :: "u32 \<Rightarrow> kstate \<Rightarrow> kstate option" where
  "scheduler_init idle_entry s = thread_init idle_entry s"

text \<open>\<open>scheduler_schedule\<close>; \<open>r\<close> is the stack pointer of the interrupted thread, the result the one to go on with.\<close>

definition scheduler_schedule :: "u32 \<Rightarrow> kstate \<Rightarrow> (u32 \<times> kstate) option" where
  "scheduler_schedule r s =
     (let idle = thread_idle s
      in case thread_current s of
           None \<Rightarrow> Some (r, s)
         | Some current \<Rightarrow>
             let s = upd_thread current (\<lambda>t. t\<lparr>saved_esp := r\<rparr>) s;
                 (nxt, s) = thread_dequeue s;
                 nxt = (if nxt = None then idle else nxt)
             in case nxt of
                  None \<Rightarrow> Some (saved_esp (threads s current), s)
                | Some n \<Rightarrow>
                    let s = (if Some current \<noteq> idle \<and> t_state (threads s current) \<noteq> THREAD_TERMINATED \<and>
                                t_state (threads s current) \<noteq> THREAD_BLOCKED
                             then thread_enqueue (Some current) s else s);
                        s = thread_set_current nxt (set_state n THREAD_RUNNING s)
                    in do {
                      s \<leftarrow> switch_process current n s;
                      s \<leftarrow> thread_reap_terminated (Some current) s;
                      s \<leftarrow> process_reap_terminated s;
                      Some (saved_esp (threads s n), s)
                    })"

end
