(* ===== verification/Fifo.thy ===== *)
theory Fifo
  imports Prelude
begin

text \<open>
  The interface of a first-in first-out queue over a larger state: the ready queue of the scheduler and the
  ring buffer of the keyboard. \<open>holds s xs\<close>: the queue in state \<open>s\<close> holds \<open>xs\<close>, oldest first;
  \<open>room x xs\<close>: an \<open>x\<close> can be added behind \<open>xs\<close>.
\<close>

fun take_out :: "('s \<Rightarrow> 'a option \<times> 's) \<Rightarrow> nat \<Rightarrow> 's \<Rightarrow> 'a option list \<times> 's" where
  "take_out deq 0 s = ([], s)"
| "take_out deq (Suc n) s =
     (let (x, s1) = deq s; (xs, s2) = take_out deq n s1 in (x # xs, s2))"

locale fifo =
  fixes enq :: "'a \<Rightarrow> 's \<Rightarrow> 's"
    and deq :: "'s \<Rightarrow> 'a option \<times> 's"
    and holds :: "'s \<Rightarrow> 'a list \<Rightarrow> bool"
    and room :: "'a \<Rightarrow> 'a list \<Rightarrow> bool"
  assumes enq_holds: "holds s xs \<Longrightarrow> room x xs \<Longrightarrow> holds (enq x s) (xs @ [x])"
    and deq_Nil: "holds s [] \<Longrightarrow> deq s = (None, s)"
    and deq_Cons: "holds s (x # xs) \<Longrightarrow> \<exists>s'. deq s = (Some x, s') \<and> holds s' xs"
begin

lemma enq_all_holds:
  assumes "holds s xs" "\<And>us x vs. ys = us @ x # vs \<Longrightarrow> room x (xs @ us)"
  shows "holds (fold enq ys s) (xs @ ys)"
  using assms
proof (induction ys arbitrary: s xs)
  case (Cons y ys)
  have "room y xs" using Cons.prems(2) [of "[]" y ys] by simp
  then have "holds (enq y s) (xs @ [y])" using enq_holds Cons.prems(1) by blast
  moreover have "room x ((xs @ [y]) @ us)" if "ys = us @ x # vs" for us x vs
    using Cons.prems(2) [of "y # us" x vs] that by simp
  ultimately show ?case using Cons.IH [of "enq y s" "xs @ [y]"] by simp
qed simp

lemma take_out_holds:
  assumes "holds s (xs @ ys)"
  shows "\<exists>s'. take_out deq (length xs) s = (map Some xs, s') \<and> holds s' ys"
  using assms
proof (induction xs arbitrary: s)
  case (Cons x xs)
  then obtain s1 where "deq s = (Some x, s1)" "holds s1 (xs @ ys)" using deq_Cons by fastforce
  with Cons.IH [of s1] show ?case by auto
qed simp

lemma first_in_first_out:
  assumes "holds s xs" "\<And>us x vs. ys = us @ x # vs \<Longrightarrow> room x (xs @ us)"
  shows "\<exists>s'. take_out deq (length (xs @ ys)) (fold enq ys s) = (map Some (xs @ ys), s') \<and> holds s' [] \<and> deq s' = (None, s')"
  using take_out_holds [of "fold enq ys s" "xs @ ys" "[]"] enq_all_holds [OF assms] deq_Nil by auto

end

end
