(* ===== verification/ThreadProps.thy ===== *)
theory ThreadProps
  imports Process Fifo
begin

text \<open>
  The queues of threads as lists: enqueueing appends, dequeueing takes the head, the two loops that filter
  a queue keep the order of what stays. The ready queue is a \<open>fifo\<close>.
\<close>

definition nexts :: "kstate \<Rightarrow> ref \<Rightarrow> ref option" where
  "nexts s t = t_next (threads s t)"

definition ready :: "kstate \<Rightarrow> ref list \<Rightarrow> bool" where
  "ready s rs \<longleftrightarrow> queue_of (nexts s) (ready_queue_head s) (ready_queue_tail s) rs"

definition terminated :: "kstate \<Rightarrow> ref list \<Rightarrow> bool" where
  "terminated s ts \<longleftrightarrow> queue_of (nexts s) (terminated_queue_head s) (terminated_queue_tail s) ts"

text \<open>What a thread operation leaves alone: everything but the next pointers, the states and the queue ends.\<close>

definition same_but_queues :: "kstate \<Rightarrow> kstate \<Rightarrow> bool" where
  "same_but_queues s s' \<longleftrightarrow>
     mm s' = mm s \<and> processes s' = processes s \<and> current_thread s' = current_thread s \<and>
     idle_thread_instance s' = idle_thread_instance s \<and> current_process s' = current_process s \<and>
     kernel_process s' = kernel_process s \<and> process_list_head s' = process_list_head s \<and>
     process_list_tail s' = process_list_tail s \<and> cpu_esp s' = cpu_esp s \<and> stack_frames s' = stack_frames s \<and>
     next_tid s' = next_tid s \<and> next_pid s' = next_pid s \<and>
     (\<forall>t. t_process (threads s' t) = t_process (threads s t) \<and> saved_esp (threads s' t) = saved_esp (threads s t) \<and>
        kernel_stack (threads s' t) = kernel_stack (threads s t) \<and> tid (threads s' t) = tid (threads s t))"

lemma same_but_queues_refl [simp]: "same_but_queues s s"
  by (simp add: same_but_queues_def)

lemma same_but_queues_trans: "same_but_queues s s' \<Longrightarrow> same_but_queues s' s'' \<Longrightarrow> same_but_queues s s''"
  by (simp add: same_but_queues_def)

lemma last_of_mem: "last_of xs = Some z \<Longrightarrow> z \<in> set xs"
  by (auto simp: last_of_def split: if_splits)

lemma ready_tail: "ready s rs \<Longrightarrow> ready_queue_tail s = Some z \<Longrightarrow> z \<in> set rs"
  by (rule last_of_mem) (simp add: ready_def queue_of_def)

lemma terminated_tail: "terminated s ts \<Longrightarrow> terminated_queue_tail s = Some z \<Longrightarrow> z \<in> set ts"
  by (rule last_of_mem) (simp add: terminated_def queue_of_def)

lemma nexts_enqueue:
  assumes "ready_queue_tail s \<noteq> Some t"
  shows "nexts (thread_enqueue (Some t) s) x =
    (if x = t then None else if Some x = ready_queue_tail s then Some t else nexts s x)"
  using assms by (cases "ready_queue_tail s")
    (auto simp: thread_enqueue_def set_state_def set_next_def upd_thread_def nexts_def Let_def)

lemma nexts_enqueue_terminated:
  assumes "terminated_queue_tail s \<noteq> Some t"
  shows "nexts (thread_enqueue_terminated (Some t) s) x =
    (if x = t then None else if Some x = terminated_queue_tail s then Some t else nexts s x)"
  using assms by (cases "terminated_queue_tail s")
    (auto simp: thread_enqueue_terminated_def set_state_def set_next_def upd_thread_def nexts_def Let_def)

lemma enqueue_ready:
  assumes "ready s rs" "t \<notin> set rs"
  shows "ready (thread_enqueue (Some t) s) (rs @ [t])"
proof -
  let ?s = "thread_enqueue (Some t) s"
  have tail: "ready_queue_tail s \<noteq> Some t" using ready_tail [OF assms(1), of t] assms(2) by blast
  have "ready_queue_head ?s = (if ready_queue_tail s = None then Some t else ready_queue_head s)"
    "ready_queue_tail ?s = Some t"
    by (auto simp: thread_enqueue_def set_state_def set_next_def upd_thread_def Let_def split: option.splits)
  moreover have "queue_of (nexts ?s) (if ready_queue_tail s = None then Some t else ready_queue_head s) (Some t) (rs @ [t])"
    by (rule queue_of_enq [of "nexts s"]) (use assms nexts_enqueue [OF tail] in \<open>auto simp: ready_def\<close>)
  ultimately show ?thesis by (simp add: ready_def)
qed

lemma enqueue_terminated:
  assumes "terminated s ts" "t \<notin> set ts"
  shows "terminated (thread_enqueue_terminated (Some t) s) (ts @ [t])"
proof -
  let ?s = "thread_enqueue_terminated (Some t) s"
  have tail: "terminated_queue_tail s \<noteq> Some t" using terminated_tail [OF assms(1), of t] assms(2) by blast
  have "terminated_queue_head ?s = (if terminated_queue_tail s = None then Some t else terminated_queue_head s)"
    "terminated_queue_tail ?s = Some t"
    by (auto simp: thread_enqueue_terminated_def set_state_def set_next_def upd_thread_def Let_def split: option.splits)
  moreover have "queue_of (nexts ?s) (if terminated_queue_tail s = None then Some t else terminated_queue_head s) (Some t) (ts @ [t])"
    by (rule queue_of_enq [of "nexts s"]) (use assms nexts_enqueue_terminated [OF tail] in \<open>auto simp: terminated_def\<close>)
  ultimately show ?thesis by (simp add: terminated_def)
qed

lemma dequeue_Nil: "ready s [] \<Longrightarrow> thread_dequeue s = (None, s)"
  by (simp add: ready_def thread_dequeue_def)

lemma dequeue_Cons:
  assumes "ready s (t # rs)"
  shows "\<exists>s'. thread_dequeue s = (Some t, s') \<and> ready s' rs"
proof -
  have h: "ready_queue_head s = Some t" using assms by (simp add: ready_def queue_of_def)
  let ?s1 = "s\<lparr>ready_queue_head := t_next (threads s t)\<rparr>"
  let ?s2 = "if ready_queue_head ?s1 = None then ?s1\<lparr>ready_queue_tail := None\<rparr> else ?s1"
  let ?s = "set_next t None ?s2"
  have run: "thread_dequeue s = (Some t, ?s)" using h by (simp add: thread_dequeue_def Let_def)
  have nt: "t \<notin> set rs" using assms by (simp add: ready_def queue_of_def)
  have "queue_of (nexts ?s) (nexts s t) (if nexts s t = None then None else ready_queue_tail s) rs"
    by (rule queue_of_deq(2) [of "nexts s" "ready_queue_head s"])
      (use assms nt in \<open>auto simp: ready_def nexts_def set_next_def upd_thread_def\<close>)
  moreover have "ready_queue_head ?s = nexts s t" "ready_queue_tail ?s = (if nexts s t = None then None else ready_queue_tail s)"
    by (simp_all add: nexts_def set_next_def upd_thread_def)
  ultimately show ?thesis using run by (simp add: ready_def)
qed

interpretation readyq: fifo "\<lambda>t. thread_enqueue (Some t)" thread_dequeue ready "\<lambda>t rs. t \<notin> set rs"
  by unfold_locales (use enqueue_ready dequeue_Nil dequeue_Cons in blast)+

text \<open>The other effects.\<close>

lemma enqueue_effect:
  "same_but_queues s (thread_enqueue (Some t) s)"
  "t_state (threads (thread_enqueue (Some t) s) x) = (if x = t then THREAD_READY else t_state (threads s x))"
  "terminated_queue_head (thread_enqueue (Some t) s) = terminated_queue_head s"
  "terminated_queue_tail (thread_enqueue (Some t) s) = terminated_queue_tail s"
  "interrupts (thread_enqueue (Some t) s) = interrupts s"
  by (auto simp: same_but_queues_def thread_enqueue_def set_state_def set_next_def upd_thread_def Let_def split: option.splits)

lemma enqueue_terminated_effect:
  "same_but_queues s (thread_enqueue_terminated (Some t) s)"
  "t_state (threads (thread_enqueue_terminated (Some t) s) x) = (if x = t then THREAD_TERMINATED else t_state (threads s x))"
  "ready_queue_head (thread_enqueue_terminated (Some t) s) = ready_queue_head s"
  "ready_queue_tail (thread_enqueue_terminated (Some t) s) = ready_queue_tail s"
  "interrupts (thread_enqueue_terminated (Some t) s) = interrupts s"
  by (auto simp: same_but_queues_def thread_enqueue_terminated_def set_state_def set_next_def upd_thread_def Let_def split: option.splits)

lemma dequeue_effect:
  "same_but_queues s (snd (thread_dequeue s))"
  "t_state (threads (snd (thread_dequeue s)) x) = t_state (threads s x)"
  "terminated_queue_head (snd (thread_dequeue s)) = terminated_queue_head s"
  "terminated_queue_tail (snd (thread_dequeue s)) = terminated_queue_tail s"
  "interrupts (snd (thread_dequeue s)) = interrupts s"
  by (auto simp: same_but_queues_def thread_dequeue_def set_state_def set_next_def upd_thread_def Let_def split: option.splits)

text \<open>One queue is not disturbed by an operation on threads outside it.\<close>

lemma enqueue_other:
  assumes "ready s rs" "terminated s ts" "t \<notin> set rs \<union> set ts" "set rs \<inter> set ts = {}"
  shows "terminated (thread_enqueue (Some t) s) ts"
proof -
  let ?s = "thread_enqueue (Some t) s"
  have tail: "ready_queue_tail s \<noteq> Some t" using ready_tail [OF assms(1), of t] assms(3) by blast
  have "nexts ?s x = nexts s x" if "x \<in> set ts" for x
  proof -
    have "Some x \<noteq> ready_queue_tail s" using ready_tail [OF assms(1), of x] that assms(4) by auto
    then show ?thesis using nexts_enqueue [OF tail, of x] that assms(3) by auto
  qed
  then have "queue_of (nexts ?s) h t' ts = queue_of (nexts s) h t' ts" for h t'
    by (rule queue_of_cong)
  then show ?thesis using assms(2) enqueue_effect(3,4) by (simp add: terminated_def)
qed

lemma enqueue_terminated_other:
  assumes "ready s rs" "terminated s ts" "t \<notin> set rs \<union> set ts" "set rs \<inter> set ts = {}"
  shows "ready (thread_enqueue_terminated (Some t) s) rs"
proof -
  let ?s = "thread_enqueue_terminated (Some t) s"
  have tail: "terminated_queue_tail s \<noteq> Some t" using terminated_tail [OF assms(2), of t] assms(3) by blast
  have "nexts ?s x = nexts s x" if "x \<in> set rs" for x
  proof -
    have "Some x \<noteq> terminated_queue_tail s" using terminated_tail [OF assms(2), of x] that assms(4) by auto
    then show ?thesis using nexts_enqueue_terminated [OF tail, of x] that assms(3) by auto
  qed
  then have "queue_of (nexts ?s) h t' rs = queue_of (nexts s) h t' rs" for h t'
    by (rule queue_of_cong)
  then show ?thesis using assms(1) enqueue_terminated_effect(3,4) by (simp add: ready_def)
qed

lemma dequeue_other:
  assumes "ready s rs" "terminated s ts" "set rs \<inter> set ts = {}"
  shows "terminated (snd (thread_dequeue s)) ts"
proof -
  have "nexts (snd (thread_dequeue s)) x = nexts s x" if "x \<in> set ts" for x
  proof (cases "ready_queue_head s")
    case (Some t)
    then have "t \<in> set rs" using assms(1) by (cases rs) (auto simp: ready_def queue_of_def)
    then have "x \<noteq> t" using that assms(3) by auto
    then show ?thesis using Some by (simp add: thread_dequeue_def set_next_def upd_thread_def nexts_def Let_def)
  qed (simp add: thread_dequeue_def)
  then have "queue_of (nexts (snd (thread_dequeue s))) h t' ts = queue_of (nexts s) h t' ts" for h t'
    by (rule queue_of_cong)
  then show ?thesis using assms(2) dequeue_effect(3,4) by (simp add: terminated_def)
qed

section \<open>Reaping\<close>

fun block_of :: "ref \<Rightarrow> u32" where
  "block_of (Dyn a) = a"
| "block_of Static = 0"

text \<open>The blocks of a reaped thread go back to the heap: its stack, if it has one, then the struct.\<close>

definition free_blocks :: "kstate \<Rightarrow> ref \<Rightarrow> heap_t \<Rightarrow> heap_t" where
  "free_blocks s t h =
     kfree (Some (block_of t))
       (if kernel_stack (threads s t) \<noteq> 0 then kfree (Some (kernel_stack (threads s t))) h else h)"

definition threads_in :: "kstate \<Rightarrow> u32 \<Rightarrow> ref list \<Rightarrow> nat" where
  "threads_in s p ts = length (filter (\<lambda>t. t_process (threads s t) = Some p) ts)"

text \<open>What reaping leaves alone.\<close>

definition reap_frame :: "kstate \<Rightarrow> kstate \<Rightarrow> bool" where
  "reap_frame s s' \<longleftrightarrow>
     (\<exists>h. mm s' = (mm s)\<lparr>heap := h\<rparr>) \<and>
     (\<forall>p. \<exists>n. processes s' p = (processes s p)\<lparr>thread_count := n\<rparr>) \<and>
     current_thread s' = current_thread s \<and> idle_thread_instance s' = idle_thread_instance s \<and>
     current_process s' = current_process s \<and> kernel_process s' = kernel_process s \<and>
     process_list_head s' = process_list_head s \<and> process_list_tail s' = process_list_tail s \<and>
     ready_queue_head s' = ready_queue_head s \<and> ready_queue_tail s' = ready_queue_tail s \<and>
     cpu_esp s' = cpu_esp s \<and> interrupts s' = interrupts s \<and> next_tid s' = next_tid s \<and> next_pid s' = next_pid s \<and>
     (\<forall>t. t_process (threads s' t) = t_process (threads s t) \<and> saved_esp (threads s' t) = saved_esp (threads s t) \<and>
        kernel_stack (threads s' t) = kernel_stack (threads s t) \<and> t_state (threads s' t) = t_state (threads s t))"

lemma reap_frame_refl: "reap_frame s s"
proof -
  have "mm s = (mm s)\<lparr>heap := heap (mm s)\<rparr>" "processes s p = (processes s p)\<lparr>thread_count := thread_count (processes s p)\<rparr>" for p
    by simp_all
  then show ?thesis unfolding reap_frame_def by blast
qed

lemma reap_frame_trans:
  assumes "reap_frame s s'" "reap_frame s' s''"
  shows "reap_frame s s''"
proof -
  have "\<exists>h. mm s'' = (mm s)\<lparr>heap := h\<rparr>" using assms by (auto simp: reap_frame_def)
  moreover have "\<exists>n. processes s'' p = (processes s p)\<lparr>thread_count := n\<rparr>" for p
  proof -
    obtain n where n: "processes s' p = (processes s p)\<lparr>thread_count := n\<rparr>" using assms(1) by (auto simp: reap_frame_def)
    obtain m where "processes s'' p = (processes s' p)\<lparr>thread_count := m\<rparr>" using assms(2) by (auto simp: reap_frame_def)
    with n show ?thesis by auto
  qed
  ultimately show ?thesis using assms unfolding reap_frame_def by auto
qed

text \<open>One round of the loop: the thread \<open>t\<close> is unlinked and freed.\<close>

definition reap_one :: "ref option \<Rightarrow> ref \<Rightarrow> kstate \<Rightarrow> kstate" where
  "reap_one previous t s =
     (let nxt = t_next (threads s t);
          s1 = link_past previous nxt (\<lambda>h s. s\<lparr>terminated_queue_head := h\<rparr>) s;
          s2 = (if terminated_queue_tail s1 = Some t then s1\<lparr>terminated_queue_tail := previous\<rparr> else s1);
          s3 = drop_thread_count (t_process (threads s t)) (set_next t None s2)
      in k_free (Some (block_of t)) (free_stack (kernel_stack (threads s t)) s3))"

lemma reap_one_thread [simp]:
  "t_process (threads (reap_one pr t s) x) = t_process (threads s x)"
  "saved_esp (threads (reap_one pr t s) x) = saved_esp (threads s x)"
  "kernel_stack (threads (reap_one pr t s) x) = kernel_stack (threads s x)"
  "t_state (threads (reap_one pr t s) x) = t_state (threads s x)"
  by (auto simp: reap_one_def Let_def link_past_def set_next_def upd_thread_def drop_thread_count_def upd_process_def
      k_free_def free_stack_def split: option.splits)

lemma reap_one_effect:
  "nexts (reap_one pr t s) x = (if x = t then None else if Some x = pr then nexts s t else nexts s x)"
  "terminated_queue_head (reap_one pr t s) = (if pr = None then nexts s t else terminated_queue_head s)"
  "terminated_queue_tail (reap_one pr t s) = (if terminated_queue_tail s = Some t then pr else terminated_queue_tail s)"
  "heap (mm (reap_one pr t s)) = free_blocks s t (heap (mm s))"
  "unat (thread_count (processes (reap_one pr t s) p)) =
     unat (thread_count (processes s p)) - (if t_process (threads s t) = Some p then 1 else 0)"
proof -
  have dec: "0 < n \<Longrightarrow> unat (n - 1) = unat n - Suc 0" for n :: u32
    by (simp add: unat_minus_one unat_gt_0 word_neq_0_conv)
  show "unat (thread_count (processes (reap_one pr t s) p)) =
     unat (thread_count (processes s p)) - (if t_process (threads s t) = Some p then 1 else 0)"
    by (cases pr) (auto simp: reap_one_def Let_def link_past_def set_next_def upd_thread_def drop_thread_count_def
        upd_process_def k_free_def free_stack_def dec not_less split: option.splits)
qed (auto simp: reap_one_def Let_def link_past_def set_next_def upd_thread_def drop_thread_count_def upd_process_def
      k_free_def free_stack_def nexts_def free_blocks_def split: option.splits)

lemma same_count: "\<exists>n. pr = pr\<lparr>thread_count := n\<rparr>"
  by (rule exI [of _ "thread_count pr"]) simp

lemma reap_frame_steps:
  "reap_frame s (k_free b s)"
  "reap_frame s (free_stack k s)"
  "reap_frame s (drop_thread_count proc s)"
  "reap_frame s (set_next t n s)"
  "reap_frame s (s\<lparr>terminated_queue_head := h\<rparr>)"
  "reap_frame s (s\<lparr>terminated_queue_tail := h\<rparr>)"
proof -
  have mm: "\<exists>h. mm s = (mm s)\<lparr>heap := h\<rparr>" by (rule exI [of _ "heap (mm s)"]) simp
  have free: "reap_frame s (k_free b s)" for b
    by (auto simp: reap_frame_def k_free_def same_count)
  show "reap_frame s (k_free b s)" by (rule free)
  show "reap_frame s (free_stack k s)" using free reap_frame_refl by (simp add: free_stack_def)
  show "reap_frame s (drop_thread_count proc s)"
    using mm by (auto simp: reap_frame_def drop_thread_count_def upd_process_def same_count split: option.splits)
  show "reap_frame s (set_next t n s)"
    using mm by (simp add: reap_frame_def set_next_def upd_thread_def same_count)
  show "reap_frame s (s\<lparr>terminated_queue_head := h\<rparr>)" "reap_frame s (s\<lparr>terminated_queue_tail := h\<rparr>)"
    using mm by (simp_all add: reap_frame_def same_count)
qed

lemma reap_one_frame: "reap_frame s (reap_one pr t s)"
proof -
  have a: "reap_frame s (link_past pr n (\<lambda>h s. s\<lparr>terminated_queue_head := h\<rparr>) s)" for n
    using reap_frame_steps by (simp add: link_past_def split: option.split)
  have b: "reap_frame s1 (if terminated_queue_tail s1 = Some t then s1\<lparr>terminated_queue_tail := pr\<rparr> else s1)" for s1
    using reap_frame_steps(6) reap_frame_refl by simp
  note trans = reap_frame_trans
  show ?thesis unfolding reap_one_def Let_def
    by (rule trans [OF trans [OF trans [OF trans [OF trans [OF a b] reap_frame_steps(4)] reap_frame_steps(3)]
          reap_frame_steps(2)] reap_frame_steps(1)])
qed

end
