(* ===== verification/ThreadReap.thy ===== *)
theory ThreadReap
  imports ThreadProps
begin

text \<open>
  The loops that filter a queue: \<open>thread_reap_terminated\<close> frees every terminated thread but the one whose
  stack is in use, \<open>thread_terminate_process_threads\<close> moves the ready threads of a process to the
  terminated queue.
\<close>

lemma reap_loop_None [simp]: "reap_loop c pr None s = Some s"
  by (subst reap_loop.simps) simp

lemma link_past_thread:
  "t_process (threads (link_past pr n (\<lambda>h s. s\<lparr>terminated_queue_head := h\<rparr>) s) x) = t_process (threads s x)"
  "kernel_stack (threads (link_past pr n (\<lambda>h s. s\<lparr>terminated_queue_head := h\<rparr>) s) x) = kernel_stack (threads s x)"
  by (simp_all add: link_past_def set_next_def upd_thread_def split: option.split)

lemma set_next_thread:
  "t_process (threads (set_next t n s) x) = t_process (threads s x)"
  "kernel_stack (threads (set_next t n s) x) = kernel_stack (threads s x)"
  by (simp_all add: set_next_def upd_thread_def)

lemma drop_count_thread: "threads (drop_thread_count p s) = threads s"
  by (simp add: drop_thread_count_def upd_process_def split: option.split)

lemma reap_loop_Some:
  "reap_loop c pr (Some t) s =
     (if Some t = c then reap_loop c (Some t) (nexts s t) s
      else if t = Static then None else reap_loop c pr (nexts s t) (reap_one pr t s))"
  by (subst reap_loop.simps)
    (cases t; simp add: Let_def link_past_thread set_next_thread drop_count_thread free_thread_def reap_one_def nexts_def)

lemma nexts_reap_frame_cong: "kernel_stack (threads s' t) = kernel_stack (threads s t) \<Longrightarrow> free_blocks s' t = free_blocks s t"
  by (rule ext) (simp add: free_blocks_def)

lemma reap_one_terminated:
  assumes "terminated s (kept @ t # us)"
  shows "terminated (reap_one (last_of kept) t s) (kept @ us)"
proof -
  let ?s = "reap_one (last_of kept) t s"
  have d: "t \<notin> set kept \<union> set us" using assms by (auto simp: terminated_def queue_of_def)
  have "queue_of (nexts ?s) (if kept = [] then nexts s t else terminated_queue_head s)
     (if terminated_queue_tail s = Some t then last_of kept else terminated_queue_tail s) (kept @ us)"
    by (rule queue_of_unlink [of "nexts s"])
      (use assms d in \<open>auto simp: terminated_def reap_one_effect(1)\<close>)
  moreover have "kept = [] \<longleftrightarrow> last_of kept = None" by (simp add: last_of_def)
  ultimately show ?thesis by (simp add: terminated_def reap_one_effect(2,3))
qed

lemma linked_reap_one:
  assumes "terminated s (kept @ t # us)" "linked (nexts s) (Some t) (t # us)"
  shows "linked (nexts (reap_one (last_of kept) t s)) (nexts s t) us"
proof -
  have d: "t \<notin> set us" "set kept \<inter> set us = {}" using assms(1) by (auto simp: terminated_def queue_of_def)
  have "nexts (reap_one (last_of kept) t s) x = nexts s x" if "x \<in> set us" for x
    using that d last_of_mem [of kept x] by (auto simp: reap_one_effect(1))
  then show ?thesis using assms(2) linked_cong [of us "nexts (reap_one (last_of kept) t s)" "nexts s" "nexts s t"]
    by simp
qed

definition reaped :: "kstate \<Rightarrow> ref list \<Rightarrow> kstate \<Rightarrow> bool" where
  "reaped s ts s' \<longleftrightarrow> reap_frame s s' \<and> heap (mm s') = fold (free_blocks s) ts (heap (mm s)) \<and>
     (\<forall>p. unat (thread_count (processes s' p)) = unat (thread_count (processes s p)) - threads_in s p ts)"

lemma reaped_Nil: "reaped s [] s"
  by (simp add: reaped_def reap_frame_refl threads_in_def)

lemma reaped_Cons:
  assumes "reaped (reap_one pr t s) ts s'"
  shows "reaped s (t # ts) s'"
proof -
  have "free_blocks (reap_one pr t s) = free_blocks s"
    by (rule ext) (rule nexts_reap_frame_cong, simp)
  moreover have "threads_in (reap_one pr t s) p ts = threads_in s p ts" for p
    by (simp add: threads_in_def)
  ultimately show ?thesis
    using assms reap_frame_trans [OF reap_one_frame] unfolding reaped_def
    by (auto simp: reap_one_effect(4,5) threads_in_def)
qed

lemma reap_loop_ok:
  assumes "terminated s (kept @ us)" "linked (nexts s) thread us" "Static \<notin> set us \<or> c = Some Static"
    and "\<And>x. x \<notin> set (kept @ us) \<Longrightarrow> nx x = nexts s x"
  shows "\<exists>s'. reap_loop c (last_of kept) thread s = Some s' \<and> terminated s' (kept @ filter (\<lambda>t. Some t = c) us) \<and>
    reaped s (filter (\<lambda>t. Some t \<noteq> c) us) s' \<and> (\<forall>x. x \<notin> set (kept @ us) \<longrightarrow> nexts s' x = nx x)"
  using assms
proof (induction us arbitrary: kept thread s nx)
  case Nil
  then show ?case by (simp add: reaped_Nil)
next
  case (Cons t us)
  have th: "thread = Some t" and l: "linked (nexts s) (nexts s t) us" using Cons.prems(2) by simp_all
  show ?case
  proof (cases "Some t = c")
    case True
    have k: "last_of (kept @ [t]) = Some t" by (simp add: last_of_def)
    have nt: "t \<notin> set us" using Cons.prems(1) by (simp add: terminated_def queue_of_def)
    have "\<exists>s'. reap_loop c (last_of (kept @ [t])) (nexts s t) s = Some s' \<and>
       terminated s' ((kept @ [t]) @ filter (\<lambda>t. Some t = c) us) \<and>
       reaped s (filter (\<lambda>t. Some t \<noteq> c) us) s' \<and> (\<forall>x. x \<notin> set ((kept @ [t]) @ us) \<longrightarrow> nexts s' x = nx x)"
      by (rule Cons.IH) (use Cons.prems l True nt in auto)
    then show ?thesis using True th k by (auto simp: reap_loop_Some)
  next
    case False
    then have st: "t \<noteq> Static" using Cons.prems(3) by auto
    let ?s = "reap_one (last_of kept) t s"
    have nt: "t \<notin> set us \<union> set kept" using Cons.prems(1) by (auto simp: terminated_def queue_of_def)
    have ex: "\<exists>s'. reap_loop c (last_of kept) (nexts s t) ?s = Some s' \<and>
       terminated s' (kept @ filter (\<lambda>t. Some t = c) us) \<and>
       reaped ?s (filter (\<lambda>t. Some t \<noteq> c) us) s' \<and>
       (\<forall>x. x \<notin> set (kept @ us) \<longrightarrow> nexts s' x = (nx(t := None)) x)"
    proof (rule Cons.IH [where nx = "nx(t := None)"])
      show "terminated ?s (kept @ us)" by (rule reap_one_terminated [OF Cons.prems(1)])
      show "linked (nexts ?s) (nexts s t) us" using linked_reap_one Cons.prems(1,2) th by simp
      show "Static \<notin> set us \<or> c = Some Static" using Cons.prems(3) by auto
      fix x assume x: "x \<notin> set (kept @ us)"
      then have "Some x \<noteq> last_of kept" using last_of_mem [of kept x] by auto
      then show "(nx(t := None)) x = nexts ?s x" using Cons.prems(4) [of x] x by (auto simp: reap_one_effect(1))
    qed
    then show ?thesis using False th st by (auto simp: reap_loop_Some dest: reaped_Cons)
  qed
qed

lemma thread_reap_terminated_ok:
  assumes "terminated s ts" "Static \<notin> set ts \<or> c = Some Static"
  shows "\<exists>s'. thread_reap_terminated c s = Some s' \<and> terminated s' (filter (\<lambda>t. Some t = c) ts) \<and>
    reaped s (filter (\<lambda>t. Some t \<noteq> c) ts) s' \<and> (\<forall>x. x \<notin> set ts \<longrightarrow> nexts s' x = nexts s x)"
proof -
  have "\<exists>s'. reap_loop c (last_of []) (terminated_queue_head s) s = Some s' \<and>
     terminated s' ([] @ filter (\<lambda>t. Some t = c) ts) \<and>
     reaped s (filter (\<lambda>t. Some t \<noteq> c) ts) s' \<and> (\<forall>x. x \<notin> set ([] @ ts) \<longrightarrow> nexts s' x = nexts s x)"
    by (rule reap_loop_ok) (use assms in \<open>auto simp: terminated_def queue_of_def\<close>)
  then show ?thesis by (simp add: thread_reap_terminated_def last_of_def)
qed

lemma reap_ready:
  assumes "reaped s us s'" "ready s rs" "set rs \<inter> set ts = {}" "\<forall>x. x \<notin> set ts \<longrightarrow> nexts s' x = nexts s x"
  shows "ready s' rs"
proof -
  have "ready_queue_head s' = ready_queue_head s" "ready_queue_tail s' = ready_queue_tail s"
    using assms(1) by (simp_all add: reaped_def reap_frame_def)
  moreover have "queue_of (nexts s') (ready_queue_head s) (ready_queue_tail s) rs =
      queue_of (nexts s) (ready_queue_head s) (ready_queue_tail s) rs"
    by (rule queue_of_cong) (use assms(3,4) in auto)
  ultimately show ?thesis using assms(2) by (simp add: ready_def)
qed

section \<open>Terminating the ready threads of a process\<close>

definition terminate_one :: "ref option \<Rightarrow> ref \<Rightarrow> kstate \<Rightarrow> kstate" where
  "terminate_one previous t s =
     (let s1 = link_past previous (nexts s t) (\<lambda>h s. s\<lparr>ready_queue_head := h\<rparr>) s;
          s2 = (if ready_queue_tail s1 = Some t then s1\<lparr>ready_queue_tail := previous\<rparr> else s1)
      in thread_enqueue_terminated (Some t) s2)"

definition of_process :: "kstate \<Rightarrow> u32 \<Rightarrow> ref \<Rightarrow> bool" where
  "of_process s p t \<longleftrightarrow> t_process (threads s t) = Some p \<and> Some t \<noteq> current_thread s"

lemma terminate_loop_None [simp]: "terminate_loop p pr None s = Some s"
  by (subst terminate_loop.simps) simp

lemma terminate_loop_Some:
  "terminate_loop p pr (Some t) s =
     (if of_process s p t then terminate_loop p pr (nexts s t) (terminate_one pr t s)
      else terminate_loop p (Some t) (nexts s t) s)"
  by (subst terminate_loop.simps) (simp add: Let_def of_process_def terminate_one_def nexts_def)

text \<open>The state before \<open>t\<close> is enqueued: it is out of the ready queue.\<close>

definition unlinked :: "ref option \<Rightarrow> ref \<Rightarrow> kstate \<Rightarrow> kstate" where
  "unlinked previous t s =
     (let s1 = link_past previous (nexts s t) (\<lambda>h s. s\<lparr>ready_queue_head := h\<rparr>) s
      in if ready_queue_tail s1 = Some t then s1\<lparr>ready_queue_tail := previous\<rparr> else s1)"

lemma terminate_one_eq: "terminate_one pr t s = thread_enqueue_terminated (Some t) (unlinked pr t s)"
  by (simp add: terminate_one_def unlinked_def Let_def)

lemma unlinked_effect:
  "nexts (unlinked pr t s) x = (if Some x = pr then nexts s t else nexts s x)"
  "ready_queue_head (unlinked pr t s) = (if pr = None then nexts s t else ready_queue_head s)"
  "ready_queue_tail (unlinked pr t s) = (if ready_queue_tail s = Some t then pr else ready_queue_tail s)"
  "same_but_queues s (unlinked pr t s)"
  "t_state (threads (unlinked pr t s) x) = t_state (threads s x)"
  "terminated_queue_head (unlinked pr t s) = terminated_queue_head s"
  "terminated_queue_tail (unlinked pr t s) = terminated_queue_tail s"
  "interrupts (unlinked pr t s) = interrupts s"
  by (auto simp: unlinked_def Let_def link_past_def set_next_def upd_thread_def nexts_def same_but_queues_def split: option.splits)

lemma unlinked_ready:
  assumes "ready s (kept @ t # us)"
  shows "ready (unlinked (last_of kept) t s) (kept @ us)"
proof -
  let ?s = "unlinked (last_of kept) t s"
  have "queue_of (nexts ?s) (if kept = [] then nexts s t else ready_queue_head s)
     (if ready_queue_tail s = Some t then last_of kept else ready_queue_tail s) (kept @ us)"
    by (rule queue_of_unlink [of "nexts s"]) (use assms in \<open>auto simp: ready_def unlinked_effect(1)\<close>)
  moreover have "kept = [] \<longleftrightarrow> last_of kept = None" by (simp add: last_of_def)
  ultimately show ?thesis by (simp add: ready_def unlinked_effect(2,3))
qed

lemma unlinked_terminated:
  assumes "terminated s ts" "set kept \<inter> set ts = {}"
  shows "terminated (unlinked (last_of kept) t s) ts"
proof -
  have "nexts (unlinked (last_of kept) t s) x = nexts s x" if "x \<in> set ts" for x
    using that assms(2) last_of_mem [of kept x] by (auto simp: unlinked_effect(1))
  then have "queue_of (nexts (unlinked (last_of kept) t s)) h t' ts = queue_of (nexts s) h t' ts" for h t'
    by (rule queue_of_cong)
  then show ?thesis using assms(1) by (simp add: terminated_def unlinked_effect(6,7))
qed

lemma terminate_one_ok:
  assumes "ready s (kept @ t # us)" "terminated s ts" "set (kept @ t # us) \<inter> set ts = {}"
  shows "ready (terminate_one (last_of kept) t s) (kept @ us)"
    "terminated (terminate_one (last_of kept) t s) (ts @ [t])"
    "same_but_queues s (terminate_one (last_of kept) t s)"
    "t_state (threads (terminate_one (last_of kept) t s) x) = (if x = t then THREAD_TERMINATED else t_state (threads s x))"
    "interrupts (terminate_one (last_of kept) t s) = interrupts s"
proof -
  let ?u = "unlinked (last_of kept) t s"
  have r: "ready ?u (kept @ us)" by (rule unlinked_ready [OF assms(1)])
  have t: "terminated ?u ts" by (rule unlinked_terminated [OF assms(2)]) (use assms(3) in auto)
  have d: "t \<notin> set (kept @ us)" using assms(1) by (auto simp: ready_def queue_of_def)
  have n: "t \<notin> set ts" and di: "set (kept @ us) \<inter> set ts = {}" using assms(3) by auto
  show "ready (terminate_one (last_of kept) t s) (kept @ us)" unfolding terminate_one_eq
    by (rule enqueue_terminated_other [OF r t]) (use d n di in auto)
  show "terminated (terminate_one (last_of kept) t s) (ts @ [t])" unfolding terminate_one_eq
    by (rule enqueue_terminated [OF t n])
  show "same_but_queues s (terminate_one (last_of kept) t s)" unfolding terminate_one_eq
    by (rule same_but_queues_trans [OF unlinked_effect(4) enqueue_terminated_effect(1)])
  show "t_state (threads (terminate_one (last_of kept) t s) x) = (if x = t then THREAD_TERMINATED else t_state (threads s x))"
    by (simp add: terminate_one_eq enqueue_terminated_effect(2) unlinked_effect(5))
  show "interrupts (terminate_one (last_of kept) t s) = interrupts s"
    by (simp add: terminate_one_eq enqueue_terminated_effect(5) unlinked_effect(8))
qed

lemma linked_terminate_one:
  assumes "ready s (kept @ t # us)" "terminated s ts" "set (kept @ t # us) \<inter> set ts = {}"
  shows "linked (nexts (terminate_one (last_of kept) t s)) (nexts s t) us"
proof -
  let ?u = "unlinked (last_of kept) t s"
  have d: "t \<notin> set us" "set kept \<inter> set us = {}" "distinct us"
    using assms(1) by (auto simp: ready_def queue_of_def)
  have tt: "terminated_queue_tail ?u = terminated_queue_tail s" by (rule unlinked_effect(7))
  have nt: "terminated_queue_tail ?u \<noteq> Some x" if "x \<in> set (kept @ t # us)" for x
    using terminated_tail [OF assms(2), of x] that assms(3) tt by auto
  have same: "nexts (terminate_one (last_of kept) t s) x = nexts s x" if "x \<in> set us" for x
    using nexts_enqueue_terminated [of ?u t x] nt [of t] nt [of x] that d last_of_mem [of kept x]
    by (auto simp: terminate_one_eq unlinked_effect(1))
  have "linked (nexts s) (nexts s t) us"
  proof -
    have "linked (nexts s) h (kept @ t # us) \<Longrightarrow> linked (nexts s) (nexts s t) us" for h
      by (induction kept arbitrary: h) auto
    then show ?thesis using assms(1) by (auto simp: ready_def queue_of_def)
  qed
  then show ?thesis using linked_cong [of us, OF same] by simp
qed

lemma same_but_queues_thread:
  "same_but_queues s s' \<Longrightarrow> of_process s' p = of_process s p"
  by (rule ext) (simp add: of_process_def same_but_queues_def)

lemma terminate_loop_ok:
  assumes "ready s (kept @ us)" "linked (nexts s) thread us" "terminated s ts" "set (kept @ us) \<inter> set ts = {}"
  shows "\<exists>s'. terminate_loop p (last_of kept) thread s = Some s' \<and>
    ready s' (kept @ filter (\<lambda>t. \<not> of_process s p t) us) \<and> terminated s' (ts @ filter (of_process s p) us) \<and>
    same_but_queues s s' \<and> interrupts s' = interrupts s \<and>
    (\<forall>x. t_state (threads s' x) = (if x \<in> set us \<and> of_process s p x then THREAD_TERMINATED else t_state (threads s x)))"
  using assms
proof (induction us arbitrary: kept thread s ts)
  case Nil
  then show ?case by simp
next
  case (Cons t us)
  have th: "thread = Some t" and l: "linked (nexts s) (nexts s t) us" using Cons.prems(2) by simp_all
  show ?case
  proof (cases "of_process s p t")
    case False
    have k: "last_of (kept @ [t]) = Some t" by (simp add: last_of_def)
    have "\<exists>s'. terminate_loop p (last_of (kept @ [t])) (nexts s t) s = Some s' \<and>
      ready s' ((kept @ [t]) @ filter (\<lambda>t. \<not> of_process s p t) us) \<and> terminated s' (ts @ filter (of_process s p) us) \<and>
      same_but_queues s s' \<and> interrupts s' = interrupts s \<and>
      (\<forall>x. t_state (threads s' x) = (if x \<in> set us \<and> of_process s p x then THREAD_TERMINATED else t_state (threads s x)))"
      by (rule Cons.IH) (use Cons.prems l in auto)
    then show ?thesis using False th k by (auto simp: terminate_loop_Some)
  next
    case True
    let ?s = "terminate_one (last_of kept) t s"
    note one = terminate_one_ok [OF Cons.prems(1,3,4)]
    have op: "of_process ?s p = of_process s p" by (rule same_but_queues_thread [OF one(3)])
    have ex: "\<exists>s'. terminate_loop p (last_of kept) (nexts s t) ?s = Some s' \<and>
      ready s' (kept @ filter (\<lambda>t. \<not> of_process ?s p t) us) \<and> terminated s' ((ts @ [t]) @ filter (of_process ?s p) us) \<and>
      same_but_queues ?s s' \<and> interrupts s' = interrupts ?s \<and>
      (\<forall>x. t_state (threads s' x) = (if x \<in> set us \<and> of_process ?s p x then THREAD_TERMINATED else t_state (threads ?s x)))"
    proof (rule Cons.IH)
      show "ready ?s (kept @ us)" "terminated ?s (ts @ [t])" by (rule one)+
      show "linked (nexts ?s) (nexts s t) us" by (rule linked_terminate_one [OF Cons.prems(1,3,4)])
      show "set (kept @ us) \<inter> set (ts @ [t]) = {}"
        using Cons.prems(1,4) by (auto simp: ready_def queue_of_def)
    qed
    then obtain s' where s': "terminate_loop p (last_of kept) (nexts s t) ?s = Some s'"
      "ready s' (kept @ filter (\<lambda>t. \<not> of_process s p t) us)" "terminated s' ((ts @ [t]) @ filter (of_process s p) us)"
      "same_but_queues ?s s'" "interrupts s' = interrupts s"
      "\<And>x. t_state (threads s' x) = (if x \<in> set us \<and> of_process s p x then THREAD_TERMINATED else t_state (threads ?s x))"
      unfolding op one(5) by blast
    have "t_state (threads s' x) = (if x \<in> set (t # us) \<and> of_process s p x then THREAD_TERMINATED else t_state (threads s x))" for x
      using s'(6) [of x] one(4) [of x] True by (auto split: if_splits)
    then show ?thesis
      using True th s'(1-3,5) same_but_queues_trans [OF one(3) s'(4)] by (simp add: terminate_loop_Some)
  qed
qed

lemma terminate_process_threads_ok:
  assumes "ready s rs" "terminated s ts" "set rs \<inter> set ts = {}"
  shows "\<exists>s'. thread_terminate_process_threads (Some p) s = Some s' \<and>
    ready s' (filter (\<lambda>t. \<not> of_process s p t) rs) \<and> terminated s' (ts @ filter (of_process s p) rs) \<and>
    same_but_queues s s' \<and> interrupts s' \<and>
    (\<forall>x. t_state (threads s' x) = (if x \<in> set rs \<and> of_process s p x then THREAD_TERMINATED else t_state (threads s x)))"
proof -
  have c: "ready (cli s) ([] @ rs)" "terminated (cli s) ts" "linked (nexts (cli s)) (ready_queue_head s) rs"
    using assms by (simp_all add: cli_def ready_def terminated_def nexts_def [abs_def] queue_of_def)
  have op: "of_process (cli s) p = of_process s p" by (rule ext) (simp add: of_process_def cli_def)
  have st: "threads (cli s) = threads s" by (simp add: cli_def)
  obtain s' where s': "terminate_loop p (last_of []) (ready_queue_head s) (cli s) = Some s'"
    "ready s' (filter (\<lambda>t. \<not> of_process s p t) rs)" "terminated s' (ts @ filter (of_process s p) rs)"
    "same_but_queues (cli s) s'"
    "\<forall>x. t_state (threads s' x) = (if x \<in> set rs \<and> of_process s p x then THREAD_TERMINATED else t_state (threads s x))"
    using terminate_loop_ok [OF c(1,3,2), of p] assms(3) unfolding op st by auto
  have "same_but_queues s (sti s')" using s'(4) by (simp add: same_but_queues_def cli_def sti_def)
  moreover have "ready (sti s') rs' = ready s' rs'" "terminated (sti s') ts' = terminated s' ts'" for rs' ts'
    by (simp_all add: sti_def ready_def terminated_def nexts_def [abs_def])
  ultimately show ?thesis
    using s' by (simp add: thread_terminate_process_threads_def last_of_def cli_def sti_def)
qed

end
