(* ===== verification/Vmm.thy ===== *)
theory Vmm
  imports AddressSpace
begin

text \<open>
  The mapping of pages in the current address space, \<open>kernel/memory/vmm.c\<close>. \<open>invlpg\<close> changes no
  memory; the addresses it was executed for are kept.
\<close>

abbreviation USER_SPACE_START :: u32 where "USER_SPACE_START \<equiv> 0x00400000"
abbreviation KERNEL_SPACE_START :: u32 where "KERNEL_SPACE_START \<equiv> 0xC0000000"

definition vmm_init :: "kmem \<Rightarrow> kmem" where
  "vmm_init s = s"

definition vmm_is_user_address :: "u32 \<Rightarrow> bool" where
  "vmm_is_user_address virtual_addr \<longleftrightarrow> virtual_addr \<ge> USER_SPACE_START \<and> virtual_addr < KERNEL_SPACE_START"

definition vmm_invalidate_page :: "u32 \<Rightarrow> kmem \<Rightarrow> kmem" where
  "vmm_invalidate_page virtual_addr s = s\<lparr>invalidated := invalidated s @ [virtual_addr]\<rparr>"

definition directory_index :: "u32 \<Rightarrow> u32" where
  "directory_index virtual_addr = drop_bit 22 virtual_addr"

definition table_index :: "u32 \<Rightarrow> u32" where
  "table_index virtual_addr = drop_bit 12 virtual_addr AND 0x3FF"

text \<open>\<open>address_space->page_tables[i]\<close>; without a table array the code would read through a null pointer.\<close>

definition page_table_of :: "ref \<Rightarrow> u32 \<Rightarrow> kmem \<Rightarrow> u32 option" where
  "page_table_of r i s =
     (if \<not> reachable_ref r then None
      else map_option (\<lambda>t. table_ptrs s t i) (page_tables (spaces s r)))"

definition vmm_create_page_table :: "ref option \<Rightarrow> u32 \<Rightarrow> kmem \<Rightarrow> (u32 \<times> kmem) option" where
  "vmm_create_page_table address_space i s =
     (case address_space of
        None \<Rightarrow> Some (0, s)
      | Some r \<Rightarrow> do {
          (frame, s) \<leftarrow> lift_pmm pmm_alloc_frame s;
          (case frame of
             None \<Rightarrow> Some (0, s)
           | Some page_table \<Rightarrow>
               if \<not> mapped page_table \<or> \<not> mapped (page_directory (spaces s r)) then None
               else do {
                 let s = set_words page_table (\<lambda>_. 0) (frames 0 1024) s;
                 tables \<leftarrow> page_tables (spaces s r);
                 let s = set_table_ptr tables i page_table s;
                     s = set_word (page_directory (spaces s r)) i
                           (page_table OR PAGE_PRESENT OR PAGE_WRITABLE OR PAGE_USER) s
                 in Some (page_table, s)
               })
        })"

definition vmm_map_page :: "u32 \<Rightarrow> u32 \<Rightarrow> u32 \<Rightarrow> kmem \<Rightarrow> kmem option" where
  "vmm_map_page virtual_addr physical_addr flags s =
     (case address_space_current s of
        None \<Rightarrow> Some s
      | Some r \<Rightarrow>
          if \<not> vmm_is_user_address virtual_addr then Some s
          else do {
            page_table \<leftarrow> page_table_of r (directory_index virtual_addr) s;
            (page_table, s) \<leftarrow> (if page_table = 0
                                then vmm_create_page_table (Some r) (directory_index virtual_addr) s
                                else Some (page_table, s));
            if page_table = 0 then Some s
            else if \<not> mapped page_table then None
            else Some (vmm_invalidate_page virtual_addr
                        (set_word page_table (table_index virtual_addr)
                          ((physical_addr AND 0xFFFFF000) OR flags) s))
          })"

definition vmm_unmap_page :: "u32 \<Rightarrow> kmem \<Rightarrow> kmem option" where
  "vmm_unmap_page virtual_addr s =
     (case address_space_current s of
        None \<Rightarrow> Some s
      | Some r \<Rightarrow> do {
          page_table \<leftarrow> page_table_of r (directory_index virtual_addr) s;
          if page_table = 0 then Some s
          else if \<not> mapped page_table then None
          else Some (vmm_invalidate_page virtual_addr
                      (set_word page_table (table_index virtual_addr) 0 s))
        })"

definition vmm_get_physical_address :: "u32 \<Rightarrow> kmem \<Rightarrow> u32 option" where
  "vmm_get_physical_address virtual_addr s =
     (case address_space_current s of
        None \<Rightarrow> Some 0
      | Some r \<Rightarrow> do {
          page_table \<leftarrow> page_table_of r (directory_index virtual_addr) s;
          if page_table = 0 then Some 0
          else if \<not> mapped page_table then None
          else let entry = get_word page_table (table_index virtual_addr) s
               in if entry AND PAGE_PRESENT = 0 then Some 0
                  else Some (entry AND 0xFFFFF000)
        })"

end
