(* ===== verification/HeapProps.thy ===== *)
theory HeapProps
  imports Heap
begin

text \<open>
  The theorems on the kernel heap: every allocation is the first fit, is as large as requested and
  overlaps no block in use; freeing gives the block back; and the two defects of the size arithmetic.
  The heap is an \<open>allocator\<close>, so sequences of requests get distinct blocks.
\<close>

section \<open>The blocks in use\<close>

definition used :: "block list \<Rightarrow> nat set" where
  "used bs = {off. \<exists>sz. (off, sz, False) \<in> set bs}"

definition heap_live :: "heap_t \<Rightarrow> u32 set" where
  "heap_live h = {payload off | off bs. heap_ok h bs \<and> off \<in> used bs}"

definition heap_good :: "heap_t \<Rightarrow> bool" where
  "heap_good h \<longleftrightarrow> (\<exists>bs. heap_ok h bs)"

lemma blocks_from_unique: "blocks_from h a bs \<Longrightarrow> blocks_from h a bs' \<Longrightarrow> bs = bs'"
proof (induction h a bs arbitrary: bs' rule: blocks_from.induct)
  case (1 h a)
  then show ?case by (cases bs') auto
next
  case (2 h a off sz fr bs)
  have b: "off = a" "unat (block_size h (of_nat a)) = sz" "(block_free h (of_nat a) \<noteq> 0) = fr"
    "blocks_from h (a + 8 + sz) bs" "a + 8 \<le> unat (heap_offset h)" using "2.prems"(1) by simp_all
  then obtain o' s' f' r where bs': "bs' = (o', s', f') # r" using "2.prems"(2) by (cases bs') auto
  then have b': "o' = a" "unat (block_size h (of_nat a)) = s'" "(block_free h (of_nat a) \<noteq> 0) = f'"
    "blocks_from h (a + 8 + s') r" using "2.prems"(2) by simp_all
  have "s' = sz" "f' = fr" using b b' by blast+
  then show ?case using "2.IH" [OF b(4)] b'(4) bs' b(1) b'(1) by simp
qed

lemma heap_live_blocks:
  assumes "heap_ok h bs"
  shows "heap_live h = payload ` used bs"
proof -
  have "blocks_from h 0 bs" using assms by (simp add: heap_ok_def)
  then have "heap_ok h bs' \<Longrightarrow> bs' = bs" for bs'
    using blocks_from_unique [of h 0 bs' bs] unfolding heap_ok_def by blast
  then have "heap_ok h bs' \<longleftrightarrow> bs' = bs" for bs' using assms by blast
  then have "heap_live h = {payload off | off bs'. bs' = bs \<and> off \<in> used bs'}"
    unfolding heap_live_def by (simp only:)
  then show ?thesis by auto
qed

lemma heap_block_range:
  "heap_ok h bs \<Longrightarrow> (off, sz, fr) \<in> set bs \<Longrightarrow> off + 8 + sz \<le> end_of bs \<and> end_of bs \<le> 0x100000"
  using blocks_from_mem [of h 0 bs off sz fr] heap_ok_end [of h bs] by (auto simp: heap_ok_def)

lemma heap_offsets_unique:
  "heap_ok h bs \<Longrightarrow> (off, sz, fr) \<in> set bs \<Longrightarrow> (off, sz', fr') \<in> set bs \<Longrightarrow> sz' = sz \<and> fr' = fr"
  using blocks_from_disjoint [of h 0 bs off sz fr off sz' fr'] by (auto simp: heap_ok_def)

lemma payload_inj: "x \<le> 0x100000 \<Longrightarrow> y \<le> 0x100000 \<Longrightarrow> payload x = payload y \<longleftrightarrow> x = y"
  using word_offset_eq [of x 8 y 8] by (simp add: payload_def)

lemma used_set_free_False:
  "(off, sz, fr) \<in> set bs \<Longrightarrow> used (set_free off False bs) = insert off (used bs)"
  by (force simp: used_def set_free_def image_iff)

lemma used_set_free_True: "used (set_free off True bs) = used bs - {off}"
  by (force simp: used_def set_free_def image_iff split: if_splits)

lemma used_small: "heap_ok h bs \<Longrightarrow> off \<in> used bs \<Longrightarrow> off \<le> 0x100000"
  using heap_block_range by (fastforce simp: used_def)

lemma end_of_bound: "heap_ok h bs \<Longrightarrow> end_of bs \<le> 0x100000"
  using heap_ok_end by (simp add: heap_ok_def)

lemma alloc_blocks_used:
  assumes ok: "heap_ok h bs" and spec: "alloc_blocks n bs = (Some off, bs')"
  shows "off \<notin> used bs \<and> used bs' = insert off (used bs) \<and> off \<le> 0x100000 \<and>
    (\<exists>sz. n \<le> sz \<and> (off, sz, False) \<in> set bs' \<and>
      (\<forall>(o2, s2, f2) \<in> set bs. \<not> f2 \<longrightarrow> off + 8 + sz \<le> o2 \<or> o2 + 8 + s2 \<le> off))"
proof (cases "first_fit n bs")
  case None
  then have b: "off = end_of bs" "bs' = bs @ [(off, n, False)]"
    using spec by (auto simp: alloc_blocks_def split: if_splits)
  have below: "o2 + 8 + s2 \<le> off" if "(o2, s2, f2) \<in> set bs" for o2 s2 f2
    using heap_block_range [OF ok that] b(1) by simp
  then have "off \<notin> used bs" by (fastforce simp: used_def)
  then show ?thesis using b below end_of_bound [OF ok] by (fastforce simp: used_def)
next
  case (Some o1)
  then have b: "o1 = off" "bs' = set_free off False bs" using spec by (auto simp: alloc_blocks_def)
  obtain sz where m: "(off, sz, True) \<in> set bs" "n \<le> sz" using first_fit_mem [OF Some] b(1) by blast
  have "off + 8 + sz \<le> o2 \<or> o2 + 8 + s2 \<le> off" if "(o2, s2, f2) \<in> set bs" "\<not> f2" for o2 s2 f2
    using blocks_from_disjoint [of h 0 bs, OF _ m(1) that(1)] ok that(2) by (auto simp: heap_ok_def)
  moreover have "off \<notin> used bs" using heap_offsets_unique [OF ok m(1)] by (auto simp: used_def)
  moreover have "(off, sz, False) \<in> set bs'" using m(1) b(2) by (force simp: set_free_def)
  ultimately show ?thesis
    using used_set_free_False [OF m(1)] heap_block_range [OF ok m(1)] m(2) b(2) by fastforce
qed

interpretation heap: allocator kmalloc "\<lambda>p h. Some (kfree (Some p) h)" heap_live heap_good
  "\<lambda>r. 0 < unat r \<and> unat r \<le> 0x100000"
proof (unfold_locales, goal_cases)
  case (1 s r)
  then obtain bs where "heap_ok s bs" by (auto simp: heap_good_def)
  with kmalloc_refines [OF this] 1 show ?case by (metis surj_pair)
next
  case (2 s r p s')
  then obtain bs where ok: "heap_ok s bs" by (auto simp: heap_good_def)
  obtain got bs' where g: "alloc_blocks (rounded (unat r)) bs = (got, bs')" by fastforce
  from kmalloc_refines [OF ok _ _ g] 2 have s': "map_option payload got = Some p" "heap_ok s' bs'" by auto
  then obtain off where off: "got = Some off" "p = payload off" by auto
  note u = alloc_blocks_used [OF ok g [unfolded off(1)]]
  have "p \<notin> payload ` used bs"
    using u used_small [OF ok] off(2) by (auto simp: payload_inj)
  then show ?case
    using u off heap_live_blocks [OF ok] heap_live_blocks [OF s'(2)] s'(2) by (auto simp: heap_good_def)
next
  case (3 s r s')
  then obtain bs where ok: "heap_ok s bs" by (auto simp: heap_good_def)
  obtain got bs' where g: "alloc_blocks (rounded (unat r)) bs = (got, bs')" by fastforce
  from kmalloc_refines [OF ok _ _ g] 3 have s': "got = None" "heap_ok s' bs'" by auto
  then have "bs' = bs" using g by (auto simp: alloc_blocks_def split: option.splits if_splits)
  then show ?case using heap_live_blocks ok s'(2) by (auto simp: heap_good_def)
next
  case (4 s p)
  then obtain bs where ok: "heap_ok s bs" by (auto simp: heap_good_def)
  then obtain off sz where off: "p = payload off" "(off, sz, False) \<in> set bs" "off \<in> used bs"
    using 4(2) heap_live_blocks [OF ok] by (auto simp: used_def)
  have ok': "heap_ok (kfree (Some p) s) (set_free off True bs)"
    using kfree_refines [OF ok off(2)] off(1) by simp
  have "payload ` (used bs - {off}) = payload ` used bs - {p}"
    using used_small [OF ok] off(1,3) by (auto simp: payload_inj)
  then show ?case using heap_live_blocks [OF ok] heap_live_blocks [OF ok'] ok'
    by (auto simp: heap_good_def used_set_free_True)
qed

section \<open>Properties\<close>

definition demo_heap :: heap_t where
  "demo_heap = \<lparr>heap_words = (\<lambda>_. 0)(0 := 16, 4 := 1, 24 := 32), heap_offset = 64\<rparr>"

lemma demo_heap_ok: "heap_ok demo_heap [(0, 16, True), (24, 32, False)]"
  by (simp add: heap_ok_def demo_heap_def block_size_def block_free_def)

text \<open>C18. On a well-formed heap a request of at most the heap's size gets the first free block that is large
  enough, else a new block at the end, else the null pointer when the array is full. The block is at
  least as large as the request, no block in use overlaps it, and the heap is well-formed again.\<close>

theorem kmalloc_serves:
  assumes "heap_ok h bs" "0 < unat req" "unat req \<le> 0x100000"
  shows "\<exists>got bs' h'. alloc_blocks (rounded (unat req)) bs = (got, bs') \<and>
    kmalloc req h = Some (map_option payload got, h') \<and> heap_ok h' bs' \<and>
    (\<forall>off. got = Some off \<longrightarrow> (\<exists>sz. unat req \<le> sz \<and> (off, sz, False) \<in> set bs' \<and>
      (\<forall>(o2, s2, f2) \<in> set bs. \<not> f2 \<longrightarrow> off + 8 + sz \<le> o2 \<or> o2 + 8 + s2 \<le> off)))"
proof -
  obtain got bs' where g: "alloc_blocks (rounded (unat req)) bs = (got, bs')" by fastforce
  from kmalloc_refines [OF assms g] obtain h' where
    "kmalloc req h = Some (map_option payload got, h')" "heap_ok h' bs'" by blast
  moreover have "\<exists>sz. unat req \<le> sz \<and> (off, sz, False) \<in> set bs' \<and>
      (\<forall>(o2, s2, f2) \<in> set bs. \<not> f2 \<longrightarrow> off + 8 + sz \<le> o2 \<or> o2 + 8 + s2 \<le> off)"
    if "got = Some off" for off
  proof -
    have "unat req \<le> rounded (unat req)" by (simp add: rounded_def)
    then show ?thesis
      using alloc_blocks_used [OF assms(1) g [unfolded that]] by (meson order_trans)
  qed
  ultimately show ?thesis using g by blast
qed

theorem kmalloc_serves_witness:
  "\<exists>h'. kmalloc 12 demo_heap = Some (Some 8, h') \<and> heap_ok h' [(0, 16, False), (24, 32, False)]"
  using kmalloc_serves [OF demo_heap_ok, of 12]
  by (auto simp: alloc_blocks_def rounded_def set_free_def payload_def)

text \<open>\<open>kfree\<close> of a block makes exactly that block free again, so that a request of its size that finds no earlier
  fit gets it back.\<close>

theorem kfree_reuses:
  assumes "heap_ok h bs" "(off, sz, False) \<in> set bs" "0 < sz" "first_fit sz (set_free off True bs) = Some off"
  shows "heap_ok (kfree (Some (payload off)) h) (set_free off True bs) \<and>
    (\<exists>h'. kmalloc (of_nat sz) (kfree (Some (payload off)) h) = Some (Some (payload off), h') \<and>
      heap_ok h' (set_free off False bs))"
proof -
  have ok: "heap_ok (kfree (Some (payload off)) h) (set_free off True bs)"
    using kfree_refines [OF assms(1,2)] .
  have sz: "sz mod 8 = 0 \<and> sz \<le> 0x100000"
    using assms(1) blocks_from_mem_size [OF _ assms(2), of h 0] heap_block_range [OF assms(1,2)]
    by (simp add: heap_ok_def)
  then have r: "rounded sz = sz" "unat (of_nat sz :: u32) = sz"
    by (auto simp: rounded_def unat_of_nat)
  have "set_free off False (set_free off True bs) = set_free off False bs"
    by (auto simp: set_free_def)
  then have "alloc_blocks (rounded sz) (set_free off True bs) = (Some off, set_free off False bs)"
    using assms(4) r(1) by (simp add: alloc_blocks_def)
  from kmalloc_refines [OF ok, of "of_nat sz"] this r sz assms(3) show ?thesis using ok by simp
qed

theorem kfree_reuses_witness:
  "\<exists>h'. kmalloc 32 (kfree (Some (payload 24)) demo_heap) = Some (Some (payload 24), h') \<and>
    heap_ok h' [(0, 16, True), (24, 32, False)]"
  using kfree_reuses [OF demo_heap_ok, of 24 32] by (simp add: set_free_def)

text \<open>C24. Whatever list of requests of 1 to \<open>0x100000\<close> bytes is made, every request returns, the blocks handed out are pairwise distinct
  and different from every block that was in use, and freeing them all leaves exactly the blocks in use
  that were there before.\<close>

theorem heap_requests_then_frees:
  assumes "heap_good h" "\<forall>r \<in> set rs. 0 < unat r \<and> unat r \<le> 0x100000"
  shows "(\<exists>ps h'. alloc_all kmalloc rs h = Some (ps, h') \<and> length ps = length rs \<and> distinct (somes ps) \<and>
      set (somes ps) \<inter> heap_live h = {} \<and> heap_live h' = heap_live h \<union> set (somes ps)) \<and>
    (\<exists>ps h' h''. alloc_all kmalloc rs h = Some (ps, h') \<and>
      free_all (\<lambda>p h. Some (kfree (Some p) h)) (somes ps) h' = Some h'' \<and>
      heap_live h'' = heap_live h \<and> heap_good h'')"
  using heap.alloc_all_fresh [OF assms] heap.alloc_free_all [OF assms] by blast

theorem heap_requests_then_frees_witness:
  "\<exists>ps h'. alloc_all kmalloc [12, 4096, 0x100000] demo_heap = Some (ps, h') \<and> distinct (somes ps) \<and>
     set (somes ps) \<inter> heap_live demo_heap = {}"
proof -
  have "heap_good demo_heap" using demo_heap_ok by (auto simp: heap_good_def)
  from heap_requests_then_frees [OF this, of "[12, 4096, 0x100000]"] show ?thesis by auto
qed

text \<open>The size arithmetic wraps: a request of \<open>0xFFFFFFF8\<close> bytes succeeds on a heap of one megabyte, does not
  reserve anything, and the next request gets the same pointer.\<close>

theorem kmalloc_wraps:
  assumes ok: "heap_ok h bs" and none: "first_fit 16 bs = None" and room: "unat (heap_offset h) + 24 \<le> 0x100000"
  shows "\<exists>p h1 h2. kmalloc 0xFFFFFFF8 h = Some (Some p, h1) \<and> heap_offset h1 = heap_offset h \<and>
    kmalloc 16 h1 = Some (Some p, h2)"
proof -
  have bf: "blocks_from h 0 bs" and small: "unat (heap_offset h) \<le> 0x100000"
    using ok by (simp_all add: heap_ok_def)
  have r: "round_size 0xFFFFFFF8 = 0xFFFFFFF8" by (simp add: round_size_def)
  have "first_fit 0xFFFFFFF8 bs = None"
  proof (cases "first_fit 0xFFFFFFF8 bs")
    case (Some off)
    then obtain sz where "(off, sz, True) \<in> set bs" "0xFFFFFFF8 \<le> sz" using first_fit_mem by blast
    with heap_block_range [OF ok] show ?thesis by fastforce
  qed
  then have f: "find_free_block h (round_size 0xFFFFFFF8) 0 = Some None"
    using find_free_block_ok [OF bf small, of "0xFFFFFFF8"] r by simp
  have fit: "\<not> heap_offset h + HEADER_SIZE + round_size 0xFFFFFFF8 > HEAP_SIZE"
    using small r by (simp add: word_less_nat_alt)
  let ?h1 = "(put_word (heap_offset h + 4) 0 (put_word (heap_offset h) (round_size 0xFFFFFFF8) h))
    \<lparr>heap_offset := heap_offset h + HEADER_SIZE + round_size 0xFFFFFFF8\<rparr>"
  have m: "kmalloc 0xFFFFFFF8 h = Some (Some (heap_offset h + HEADER_SIZE), ?h1)"
    using kmalloc_new [OF _ f fit] by simp
  have o1: "heap_offset ?h1 = heap_offset h" using r by simp
  have "blocks_from (put_word (of_nat (unat (heap_offset h))) (round_size 0xFFFFFFF8) h) 0 bs"
    by (rule blocks_from_put_above [OF bf small]) (use small in auto)
  then have "blocks_from (put_word (of_nat (unat (heap_offset h) + 4)) 0
      (put_word (of_nat (unat (heap_offset h))) (round_size 0xFFFFFFF8) h)) 0 bs"
    by (rule blocks_from_put_above) (use small in \<open>auto simp: put_word_def\<close>)
  moreover have "?h1 = put_word (heap_offset h + 4) 0 (put_word (heap_offset h) (round_size 0xFFFFFFF8) h)"
    by (rule heap_t.equality) (simp_all add: r put_word_def)
  ultimately have "blocks_from ?h1 0 bs" by simp
  then have ok1: "heap_ok ?h1 bs" using ok unfolding heap_ok_def o1 by blast
  have "alloc_blocks (rounded (unat (16 :: u32))) bs = (Some (end_of bs), bs @ [(end_of bs, 16, False)])"
    using none room heap_ok_end [OF ok] by (simp add: alloc_blocks_def rounded_def)
  from kmalloc_refines [OF ok1 _ _ this] obtain h2 where
    "kmalloc 16 ?h1 = Some (Some (payload (end_of bs)), h2)" by auto
  moreover have "payload (end_of bs) = heap_offset h + HEADER_SIZE"
    using heap_ok_end [OF ok] by (simp add: payload_def)
  ultimately show ?thesis using m o1 by metis
qed

theorem kmalloc_wraps_witness:
  "\<exists>p h1 h2. kmalloc 0xFFFFFFF8 (demo_heap\<lparr>heap_offset := 0\<rparr>) = Some (Some p, h1) \<and> kmalloc 16 h1 = Some (Some p, h2)"
  using kmalloc_wraps [of "demo_heap\<lparr>heap_offset := 0\<rparr>" "[]"] by (auto simp: heap_ok_def)

end
