(* ===== verification/PmmProps.thy ===== *)
theory PmmProps
  imports Pmm
begin

text \<open>
  The theorems on the physical memory manager: what its initialisation leaves free, that allocation
  hands out the lowest free frame, the count of free frames, and what a memory map beyond 4 GiB does.
  The manager is an \<open>allocator\<close> of frames.
\<close>

section \<open>The frame allocator\<close>

definition frame_live :: "pmm_t \<Rightarrow> u32 set" where
  "frame_live s = {frame_addr f | f. 0 < f \<and> f < unat (total_frames s) \<and> frame_used s f}"

lemma frame_live_mem:
  assumes "pmm_ok s" "f < MAX_FRAMES"
  shows "frame_addr f \<in> frame_live s \<longleftrightarrow> 0 < f \<and> f < unat (total_frames s) \<and> frame_used s f"
proof -
  have "g < MAX_FRAMES" if "g < unat (total_frames s)" for g
    using that assms(1) by (simp add: pmm_ok_def)
  then show ?thesis using assms(2) frame_addr_eq by (auto simp: frame_live_def)
qed

lemma frame_live_cases:
  assumes "pmm_ok s" "p \<in> frame_live s"
  obtains f where "p = frame_addr f" "0 < f" "f < unat (total_frames s)" "frame_used s f" "f < MAX_FRAMES"
  using assms by (auto simp: frame_live_def pmm_ok_def)

interpretation frame: allocator "\<lambda>(_ :: unit). pmm_alloc_frame" pmm_free_frame frame_live pmm_ok "\<lambda>_. True"
proof (unfold_locales, goal_cases)
  case (1 s r)
  then show ?case using pmm_alloc_frame_ok [of s] by (cases "first_free s") auto
next
  case (2 s r p s')
  show ?case
  proof (cases "first_free s")
    case None
    then show ?thesis using 2 pmm_alloc_frame_ok [of s] by auto
  next
    case (Some f)
    then have f: "0 < f" "f < unat (total_frames s)" "p = frame_addr f" "same_counts s s'" "pmm_ok s'"
      "\<forall>g < MAX_FRAMES. frame_used s' g \<longleftrightarrow> g = f \<or> frame_used s g"
      using 2 pmm_alloc_frame_ok [of s] by auto
    have b: "g < unat (total_frames s) \<Longrightarrow> g < MAX_FRAMES" for g using 2(1) by (simp add: pmm_ok_def)
    have "frame_live s' = insert p (frame_live s)"
      using f b by (auto simp: frame_live_def same_counts_def)
    moreover have "p \<notin> frame_live s"
      using frame_live_mem [OF 2(1) b [OF f(2)]] first_free_Some [OF Some] f(3) by simp
    ultimately show ?thesis using f(5) by simp
  qed
next
  case (3 s r s')
  then show ?case using pmm_alloc_frame_ok [of s] by (cases "first_free s") auto
next
  case (4 s p)
  then obtain f where f: "p = frame_addr f" "0 < f" "f < unat (total_frames s)" "f < MAX_FRAMES"
    by (rule frame_live_cases)
  obtain s' where s': "pmm_free_frame p s = Some s'" "same_counts s s'" "pmm_ok s'"
    "\<forall>g < MAX_FRAMES. frame_used s' g \<longleftrightarrow> g \<noteq> f \<and> frame_used s g"
    using pmm_free_frame_ok [OF 4(1) f(2,3)] f(1) by blast
  have b: "g < unat (total_frames s) \<Longrightarrow> g < MAX_FRAMES" for g using 4(1) by (simp add: pmm_ok_def)
  have "frame_live s' = frame_live s - {p}"
    using s' b f frame_addr_eq by (auto simp: frame_live_def same_counts_def)
  then show ?case using s' by blast
qed

section \<open>Counting\<close>

lemma count_free_used:
  assumes "\<forall>f \<in> set fs. f < MAX_FRAMES"
  shows "count_free (map of_nat fs) n s = Some (n + of_nat (length (filter (\<lambda>f. \<not> frame_used s f) fs)))"
  using assms
proof (induction fs arbitrary: n)
  case (Cons f fs)
  then show ?case using bitmap_test_used [of f s] by (simp add: add.commute add.left_commute)
qed simp

definition free_count :: "pmm_t \<Rightarrow> nat" where
  "free_count s = length (filter (\<lambda>f. \<not> frame_used s f) [0..<unat (total_frames s)])"

lemma free_count_card: "free_count s = card {f. f < unat (total_frames s) \<and> \<not> frame_used s f}"
proof -
  have "distinct (filter (\<lambda>f. \<not> frame_used s f) [0..<unat (total_frames s)])" by simp
  then have "free_count s = card (set (filter (\<lambda>f. \<not> frame_used s f) [0..<unat (total_frames s)]))"
    unfolding free_count_def by (rule distinct_card [symmetric])
  also have "set (filter (\<lambda>f. \<not> frame_used s f) [0..<unat (total_frames s)]) =
      {f. f < unat (total_frames s) \<and> \<not> frame_used s f}" by auto
  finally show ?thesis .
qed

lemma pmm_free_frames_ok:
  assumes "unat (total_frames s) \<le> MAX_FRAMES"
  shows "pmm_free_frames s = Some (of_nat (free_count s))"
  using count_free_used [of "[0..<unat (total_frames s)]" 0 s] assms
  by (simp add: pmm_free_frames_def free_count_def frames_def)

section \<open>Initialisation\<close>

definition region_end :: "memory_region \<Rightarrow> nat" where
  "region_end r = unat (region_base r) + unat (region_length r)"

definition highest_end :: "memory_region list \<Rightarrow> nat" where
  "highest_end rs = foldr (max \<circ> region_end) rs 0"

definition frames_up :: "nat \<Rightarrow> nat" where
  "frames_up n = (n + 4095) div 4096"

lemma count_regions:
  assumes "\<forall>r \<in> set rs. region_end r < 2 ^ 63"
  shows "\<exists>s'. fold count_region rs (s, h) = (s', snd (fold count_region rs (s, h))) \<and>
    frame_bitmap s' = frame_bitmap s \<and>
    total_memory s' = total_memory s + sum_list (map region_length rs) \<and>
    usable_memory s' = usable_memory s + sum_list (map region_length (filter (\<lambda>r. region_type r = 1) rs)) \<and>
    unat (snd (fold count_region rs (s, h))) = max (unat h) (highest_end rs)"
  using assms
proof (induction rs arbitrary: s h)
  case (Cons r rs)
  let ?s1 = "fst (count_region r (s, h))" and ?h1 = "snd (count_region r (s, h))"
  have e: "unat (region_base r + region_length r) = region_end r"
    using Cons.prems by (simp add: region_end_def)
  have h1: "unat ?h1 = max (unat h) (region_end r)"
    using e by (simp add: count_region_def Let_def word_less_nat_alt)
  have s1: "frame_bitmap ?s1 = frame_bitmap s" "total_memory ?s1 = total_memory s + region_length r"
    "usable_memory ?s1 = usable_memory s + (if region_type r = 1 then region_length r else 0)"
    by (simp_all add: count_region_def Let_def)
  have step: "fold count_region (r # rs) (s, h) = fold count_region rs (?s1, ?h1)" by simp
  have ih: "\<forall>r \<in> set rs. region_end r < 2 ^ 63" using Cons.prems by simp
  show ?case
    using Cons.IH [OF ih, of ?s1 ?h1] h1 s1 unfolding step
    by (auto simp: highest_end_def max.assoc add.assoc)
qed (simp add: highest_end_def)

lemma ceil_frames:
  fixes a :: u64
  assumes "unat a \<le> 2 ^ 43"
  shows "unat (ucast ((a + PAGE_SIZE - 1) div PAGE_SIZE) :: u32) = frames_up (unat a)"
proof -
  have e: "a + PAGE_SIZE - 1 = a + 4095" by simp
  have u: "unat (a + 4095) = unat a + 4095" using assms by simp
  have d: "unat ((a + PAGE_SIZE - 1) div PAGE_SIZE) = frames_up (unat a)"
    unfolding e unat_div u frames_up_def by simp
  have "frames_up (unat a) < 2 ^ 32" using assms by (simp add: frames_up_def)
  then show ?thesis using d by (simp only: unsigned_ucast_eq) (simp add: take_bit_nat_eq_self)
qed

lemma floor_frames:
  fixes a :: u64
  assumes "unat a \<le> 2 ^ 33"
  shows "unat (ucast (a div PAGE_SIZE) :: u32) = unat a div 4096"
proof -
  have "unat (a div PAGE_SIZE) = unat a div 4096" by (simp add: unat_div)
  moreover have "unat a div 4096 < 2 ^ 32" using assms by simp
  ultimately show ?thesis by (simp add: unsigned_ucast_eq take_bit_nat_eq_self)
qed

text \<open>The frames a region of the memory map touches; its ends are rounded outward.\<close>

definition touches :: "memory_region \<Rightarrow> nat \<Rightarrow> bool" where
  "touches r f \<longleftrightarrow> unat (region_base r) div 4096 \<le> f \<and> f < frames_up (region_end r)"

lemma free_region_ok:
  assumes "region_end r \<le> 2 ^ 32" "unat (total_frames s) \<le> MAX_FRAMES"
  shows "\<exists>s'. free_region r s = Some s' \<and> same_counts s s' \<and>
    (\<forall>f < unat (total_frames s). frame_used s' f \<longleftrightarrow> frame_used s f \<and> \<not> (region_type r = 1 \<and> touches r f))"
proof (cases "region_type r = 1")
  case True
  have e: "unat (region_base r + region_length r) = region_end r"
    using assms(1) by (simp add: region_end_def)
  let ?a = "ucast (region_base r div PAGE_SIZE) :: u32"
  let ?b = "ucast ((region_base r + region_length r + PAGE_SIZE - 1) div PAGE_SIZE) :: u32"
  have a: "unat ?a = unat (region_base r) div 4096"
    by (rule floor_frames) (use assms(1) in \<open>simp add: region_end_def\<close>)
  have b: "unat ?b = frames_up (region_end r)"
    using ceil_frames [of "region_base r + region_length r"] assms(1) e by simp
  have m: "unat (min ?b (total_frames s)) = min (frames_up (region_end r)) (unat (total_frames s))"
    using b by (simp add: min_def word_le_nat_alt)
  have "\<forall>f \<in> set [unat ?a..<unat (min ?b (total_frames s))]. f < MAX_FRAMES" using m assms(2) by simp
  from reset_each_used [OF this, of s] show ?thesis
    using True a m assms(2)
    by (auto simp: free_region_def frames_def touches_def Let_def)
next
  case False
  then show ?thesis by (simp add: free_region_def same_counts_def)
qed

lemma free_regions_ok:
  assumes "\<forall>r \<in> set rs. region_end r \<le> 2 ^ 32" "unat (total_frames s) \<le> MAX_FRAMES"
  shows "\<exists>s'. for_each free_region rs s = Some s' \<and> same_counts s s' \<and>
    (\<forall>f < unat (total_frames s). frame_used s' f \<longleftrightarrow>
      frame_used s f \<and> \<not> (\<exists>r \<in> set rs. region_type r = 1 \<and> touches r f))"
  using assms
proof (induction rs arbitrary: s)
  case (Cons r rs)
  obtain s1 where s1: "free_region r s = Some s1" "same_counts s s1"
    "\<forall>f < unat (total_frames s). frame_used s1 f \<longleftrightarrow> frame_used s f \<and> \<not> (region_type r = 1 \<and> touches r f)"
    using free_region_ok [of r s] Cons.prems by auto
  obtain s2 where "for_each free_region rs s1 = Some s2" "same_counts s1 s2"
    "\<forall>f < unat (total_frames s1). frame_used s2 f \<longleftrightarrow>
      frame_used s1 f \<and> \<not> (\<exists>r \<in> set rs. region_type r = 1 \<and> touches r f)"
    using Cons.IH [of s1] Cons.prems s1(2) by (auto simp: same_counts_def)
  with s1 show ?case by (auto simp: same_counts_def)
qed (simp add: same_counts_def)

section \<open>Properties\<close>

lemma reserve_region_ok:
  assumes "unat ks \<le> unat ke" "unat (total_frames s) \<le> MAX_FRAMES"
  shows "\<exists>s'. reserve_region (ucast (ks :: u32)) (ucast (ke - ks)) s = Some s' \<and> same_counts s s' \<and>
    (\<forall>f < unat (total_frames s). frame_used s' f \<longleftrightarrow>
      frame_used s f \<or> unat ks div 4096 \<le> f \<and> f < frames_up (unat ke))"
proof -
  have up: "unat (ucast w :: u64) = unat w" for w :: u32
    by (simp add: unsigned_ucast_eq take_bit_nat_eq_self order_less_trans [OF unsigned_less])
  have len: "unat (ke - ks) = unat ke - unat ks"
    using assms(1) by (simp add: unat_sub word_le_nat_alt)
  have sum: "unat (ucast ks + ucast (ke - ks) :: u64) = unat ke"
    using up len assms(1) unat_u32_less [of ke] by (simp add: unat_word_ariths)
  let ?a = "ucast (ucast ks div PAGE_SIZE :: u64) :: u32"
  let ?b = "ucast ((ucast ks + ucast (ke - ks) + PAGE_SIZE - 1 :: u64) div PAGE_SIZE) :: u32"
  let ?b' = "if ?b > total_frames s then total_frames s else ?b"
  have a: "unat ?a = unat ks div 4096"
    using floor_frames [of "ucast ks"] up unat_u32_less [of ks] by simp
  have b: "unat ?b = frames_up (unat ke)"
    using ceil_frames [of "ucast ks + ucast (ke - ks)"] sum unat_u32_less [of ke] by simp
  have m: "unat ?b' = min (frames_up (unat ke)) (unat (total_frames s))"
    using b by (simp add: min_def word_less_nat_alt)
  have "\<forall>f \<in> set [unat ?a..<unat ?b']. f < MAX_FRAMES" using m assms(2) by simp
  from set_each_used [OF this, of s] show ?thesis
    using a m assms(2) unfolding reserve_region_def frames_def Let_def by auto
qed

lemma pmm_init_ok:
  assumes "\<forall>r \<in> set (known_regions m). region_end r \<le> 2 ^ 32" "unat ks \<le> unat ke"
  shows "\<exists>s'. pmm_init ks ke m s = Some s' \<and> pmm_ok s' \<and>
    unat (total_frames s') = frames_up (highest_end (known_regions m)) \<and>
    total_memory s' = sum_list (map region_length (known_regions m)) \<and>
    usable_memory s' = sum_list (map region_length (filter (\<lambda>r. region_type r = 1) (known_regions m))) \<and>
    (\<forall>f < unat (total_frames s'). frame_used s' f \<longleftrightarrow>
      f = 0 \<or> (unat ks div 4096 \<le> f \<and> f < frames_up (unat ke)) \<or>
      \<not> (\<exists>r \<in> set (known_regions m). region_type r = 1 \<and> touches r f))"
proof -
  let ?rs = "known_regions m"
  let ?s0 = "(bitmap_clear s)\<lparr>total_memory := 0, usable_memory := 0, total_frames := 0\<rparr>"
  have "\<forall>r \<in> set ?rs. region_end r < 2 ^ 63" using assms(1) by fastforce
  then obtain s1 h where s1: "fold count_region ?rs (?s0, 0) = (s1, h)" "frame_bitmap s1 = frame_bitmap ?s0"
    "total_memory s1 = sum_list (map region_length ?rs)"
    "usable_memory s1 = sum_list (map region_length (filter (\<lambda>r. region_type r = 1) ?rs))"
    "unat h = highest_end ?rs"
    using count_regions [of ?rs ?s0 0] by auto
  have hb: "highest_end rs \<le> 2 ^ 32" if "\<forall>r \<in> set rs. region_end r \<le> 2 ^ 32" for rs
    using that by (induction rs) (auto simp: highest_end_def)
  let ?s2 = "s1\<lparr>total_frames := ucast ((h + PAGE_SIZE - 1) div PAGE_SIZE)\<rparr>"
  have t: "unat (total_frames ?s2) = frames_up (highest_end ?rs)" "unat (total_frames ?s2) \<le> MAX_FRAMES"
    using ceil_frames [of h] s1(5) hb [OF assms(1)] by (simp_all add: frames_up_def)
  obtain s3 where s3: "for_each bitmap_set (frames 0 (total_frames ?s2)) ?s2 = Some s3" "same_counts ?s2 s3"
    "\<forall>g < unat (total_frames ?s2). frame_used s3 g"
    using set_each_used [of "[0..<unat (total_frames ?s2)]" ?s2] t(2) by (auto simp: frames_def)
  have t3: "unat (total_frames s3) \<le> MAX_FRAMES" "total_frames s3 = total_frames ?s2"
    using s3(2) t(2) by (simp_all add: same_counts_def)
  obtain s4 where s4: "for_each free_region ?rs s3 = Some s4" "same_counts s3 s4"
    "\<forall>f < unat (total_frames s3). frame_used s4 f \<longleftrightarrow>
      frame_used s3 f \<and> \<not> (\<exists>r \<in> set ?rs. region_type r = 1 \<and> touches r f)"
    using free_regions_ok [OF assms(1) t3(1)] by blast
  have t4: "unat (total_frames s4) \<le> MAX_FRAMES" "total_frames s4 = total_frames ?s2"
    using s4(2) t3 by (simp_all add: same_counts_def)
  obtain s5 where s5: "reserve_region (ucast ks) (ucast (ke - ks)) s4 = Some s5" "same_counts s4 s5"
    "\<forall>f < unat (total_frames s4). frame_used s5 f \<longleftrightarrow>
      frame_used s4 f \<or> unat ks div 4096 \<le> f \<and> f < frames_up (unat ke)"
    using reserve_region_ok [OF assms(2) t4(1)] by blast
  obtain s6 where s6: "bitmap_set 0 s5 = Some s6" "same_counts s5 s6"
    "\<forall>g < MAX_FRAMES. frame_used s6 g \<longleftrightarrow> g = 0 \<or> frame_used s5 g"
    using bitmap_set_used [of 0 s5] by (auto simp: same_counts_def)
  have run: "pmm_init ks ke m s = Some s6"
    using s1(1) s3(1) s4(1) s5(1) s6(1) by (simp add: pmm_init_def Let_def)
  have eq: "total_frames s6 = total_frames ?s2" "total_memory s6 = total_memory s1" "usable_memory s6 = usable_memory s1"
    using s3(2) s4(2) s5(2) s6(2) by (simp_all add: same_counts_def)
  have used: "frame_used s6 f \<longleftrightarrow> f = 0 \<or> (unat ks div 4096 \<le> f \<and> f < frames_up (unat ke)) \<or>
      \<not> (\<exists>r \<in> set ?rs. region_type r = 1 \<and> touches r f)" if "f < unat (total_frames s6)" for f
    using that s3(3) s4(3) s5(3) s6(3) t(2) unfolding eq(1) t3(2) t4(2) by auto
  have "pmm_ok s6" using s6(3) t(2) eq(1) by (simp add: pmm_ok_def)
  moreover have "unat (total_frames s6) = frames_up (highest_end ?rs)" unfolding eq(1) by (rule t(1))
  ultimately show ?thesis
    using run eq(2,3) s1(3,4) used by (intro exI [of _ s6] conjI allI impI) (simp_all only:)
qed

text \<open>C23. On a memory map within 4 GiB the initialisation takes every frame except those that a usable region touches
  and the kernel image does not; frame 0 is always taken. Its frame count is the rounded up end of the highest region and its
  two totals are the sums of the region lengths.\<close>

theorem pmm_init_frees_usable:
  assumes "\<forall>r \<in> set (known_regions m). region_end r \<le> 2 ^ 32" "unat ks \<le> unat ke"
  shows "\<exists>s'. pmm_init ks ke m s = Some s' \<and> pmm_ok s' \<and>
    unat (total_frames s') = frames_up (highest_end (known_regions m)) \<and>
    total_memory s' = sum_list (map region_length (known_regions m)) \<and>
    usable_memory s' = sum_list (map region_length (filter (\<lambda>r. region_type r = 1) (known_regions m))) \<and>
    (\<forall>f < unat (total_frames s'). frame_used s' f \<longleftrightarrow>
      f = 0 \<or> (unat ks div 4096 \<le> f \<and> f < frames_up (unat ke)) \<or>
      \<not> (\<exists>r \<in> set (known_regions m). region_type r = 1 \<and> touches r f))"
  by (rule pmm_init_ok [OF assms])

definition demo_map :: memory_map where
  "demo_map = \<lparr>memory_regions =
     [\<lparr>region_base = 0, region_length = 0x3000, region_type = 1\<rparr>,
      \<lparr>region_base = 0x3000, region_length = 0x1000, region_type = 2\<rparr>,
      \<lparr>region_base = 0x4800, region_length = 0x3000, region_type = 1\<rparr>],
     memory_region_count = 3\<rparr>"

definition no_frames :: pmm_t where
  "no_frames = \<lparr>total_frames = 0, total_memory = 0, usable_memory = 0, frame_bitmap = (\<lambda>_. 0)\<rparr>"

theorem pmm_init_frees_usable_witness:
  "\<exists>s'. pmm_init 0x5000 0x5800 demo_map no_frames = Some s' \<and> pmm_ok s' \<and> unat (total_frames s') = 8 \<and>
     frame_used s' 0 \<and> \<not> frame_used s' 1 \<and> frame_used s' 3 \<and> frame_used s' 5 \<and> \<not> frame_used s' 7"
proof -
  have k: "known_regions demo_map =
     [\<lparr>region_base = 0, region_length = 0x3000, region_type = 1\<rparr>,
      \<lparr>region_base = 0x3000, region_length = 0x1000, region_type = 2\<rparr>,
      \<lparr>region_base = 0x4800, region_length = 0x3000, region_type = 1\<rparr>]"
    by (simp add: known_regions_def demo_map_def)
  show ?thesis
    using pmm_init_frees_usable [of demo_map "0x5000" "0x5800" no_frames]
    by (auto simp: k region_end_def highest_end_def frames_up_def touches_def)
qed

text \<open>An allocation returns the address of the lowest free frame, never frame 0, takes exactly that frame and
  lowers the count of free frames by one; with no free frame it returns the null pointer and changes nothing.\<close>

theorem pmm_alloc_lowest:
  assumes "pmm_ok s"
  shows "\<exists>r s'. pmm_alloc_frame s = Some (r, s') \<and> pmm_ok s' \<and>
    pmm_free_frames s = Some (of_nat (free_count s)) \<and> pmm_free_frames s' = Some (of_nat (free_count s')) \<and>
    (case r of
       None \<Rightarrow> s' = s \<and> free_count s = 0
     | Some p \<Rightarrow> \<exists>f. p = frame_addr f \<and> 0 < f \<and> f < unat (total_frames s) \<and> \<not> frame_used s f \<and>
         (\<forall>g < f. frame_used s g) \<and>
         (\<forall>g < unat (total_frames s). frame_used s' g \<longleftrightarrow> g = f \<or> frame_used s g) \<and>
         Suc (free_count s') = free_count s)"
proof (cases "first_free s")
  case None
  then have "free_count s = 0" using first_free_None by (auto simp: free_count_def)
  then show ?thesis using None pmm_alloc_frame_ok [OF assms] pmm_free_frames_ok assms
    by (auto simp: pmm_ok_def)
next
  case (Some f)
  obtain s' where s': "0 < f" "f < unat (total_frames s)" "pmm_alloc_frame s = Some (Some (frame_addr f), s')"
    "same_counts s s'" "pmm_ok s'" "\<forall>g < MAX_FRAMES. frame_used s' g \<longleftrightarrow> g = f \<or> frame_used s g"
    using pmm_alloc_frame_ok [OF assms] Some by auto
  have b: "g < unat (total_frames s) \<Longrightarrow> g < MAX_FRAMES" for g using assms by (simp add: pmm_ok_def)
  have used: "\<forall>g < unat (total_frames s). frame_used s' g \<longleftrightarrow> g = f \<or> frame_used s g" using s'(6) b by blast
  have "{g. g < unat (total_frames s) \<and> \<not> frame_used s g} =
      insert f {g. g < unat (total_frames s') \<and> \<not> frame_used s' g}"
    using used s' first_free_Some [OF Some] by (auto simp: same_counts_def)
  then have "free_count s = Suc (free_count s')"
    using used s'(2,4) by (simp add: free_count_card same_counts_def)
  moreover have "pmm_free_frames s = Some (of_nat (free_count s))" "pmm_free_frames s' = Some (of_nat (free_count s'))"
    using assms s'(5) by (simp_all add: pmm_ok_def pmm_free_frames_ok)
  ultimately show ?thesis using s' used first_free_Some [OF Some] by auto
qed

definition demo_frames :: pmm_t where
  "demo_frames = \<lparr>total_frames = 16, total_memory = 65536, usable_memory = 61440, frame_bitmap = (\<lambda>_. 0)(0 := 0x17)\<rparr>"

lemma demo_frames_ok: "pmm_ok demo_frames"
  by (simp add: pmm_ok_def demo_frames_def frame_used_def)

theorem pmm_alloc_lowest_witness:
  "\<exists>s'. pmm_alloc_frame demo_frames = Some (Some 0x3000, s') \<and> pmm_ok s'"
proof -
  have u: "frame_used demo_frames 0" "frame_used demo_frames 1" "frame_used demo_frames 2" "\<not> frame_used demo_frames 3"
    by (simp_all add: frame_used_def demo_frames_def bit_iff_odd)
  have "3 \<in> {f. f < unat (total_frames demo_frames) \<and> \<not> frame_used demo_frames f}"
    using u(4) by (simp add: demo_frames_def)
  then have "free_count demo_frames \<noteq> 0" unfolding free_count_card card_eq_0_iff by fastforce
  with pmm_alloc_lowest [OF demo_frames_ok] obtain f s' where
    f: "pmm_alloc_frame demo_frames = Some (Some (frame_addr f), s')" "pmm_ok s'" "\<not> frame_used demo_frames f"
      "\<forall>g < f. frame_used demo_frames g"
    by (auto split: option.splits)
  have "f = 3"
    using f(3,4) u by (metis One_nat_def Suc_1 less_Suc_eq linorder_neqE_nat numeral_3_eq_3 not_less0)
  then show ?thesis using f by (simp add: frame_addr_def)
qed

lemma for_each_append:
  "for_each f (xs @ ys) s = do { s' \<leftarrow> for_each f xs s; for_each f ys s' }"
  by (induction xs arbitrary: s) (auto split: bind_splits)

lemma for_each_fails:
  assumes "k < n" "\<And>s. f (of_nat k) s = None"
  shows "for_each f (map of_nat [0..<n]) s = None"
proof -
  have "[0..<n] = [0..<k] @ k # [Suc k..<n]"
    using assms(1) upt_add_eq_append [of 0 k "n - k"] upt_conv_Cons [of k n] by simp
  then show ?thesis by (simp add: for_each_append assms(2) split: bind_splits)
qed

lemma set_each_overruns: "1048576 < n \<Longrightarrow> for_each bitmap_set (map of_nat [0..<n]) s = None"
  by (erule for_each_fails) (simp add: bitmap_set_def in_bitmap_def)

text \<open>C39. The frame count is not limited to the bitmap: on a memory map that reaches beyond 4 GiB (and below 8 TiB)
  the loop that takes all frames runs past the end of the bitmap.\<close>

theorem pmm_init_overruns:
  assumes "2 ^ 32 < highest_end (known_regions m)" "\<forall>r \<in> set (known_regions m). region_end r \<le> 2 ^ 43"
  shows "pmm_init ks ke m s = None"
proof -
  let ?rs = "known_regions m"
  let ?s0 = "(bitmap_clear s)\<lparr>total_memory := 0, usable_memory := 0, total_frames := 0\<rparr>"
  have "\<forall>r \<in> set ?rs. region_end r < 2 ^ 63" using assms(2) by fastforce
  then obtain s1 h where s1: "fold count_region ?rs (?s0, 0) = (s1, h)" "unat h = highest_end ?rs"
    using count_regions [of ?rs ?s0 0] by auto
  have "highest_end rs \<le> 2 ^ 43" if "\<forall>r \<in> set rs. region_end r \<le> 2 ^ 43" for rs
    using that by (induction rs) (auto simp: highest_end_def)
  then have t: "unat (ucast ((h + PAGE_SIZE - 1) div PAGE_SIZE) :: u32) = frames_up (highest_end ?rs)"
    using ceil_frames [of h] s1(2) assms(2) by simp
  have "1048576 < frames_up (highest_end ?rs)" using assms(1) by (simp add: frames_up_def)
  then have "for_each bitmap_set (frames 0 (ucast ((h + PAGE_SIZE - 1) div PAGE_SIZE))) s' = None" for s'
    using set_each_overruns t by (simp add: frames_def)
  then show ?thesis using s1(1) by (simp add: pmm_init_def Let_def)
qed

theorem pmm_init_overruns_witness:
  "pmm_init 0x100000 0x200000
     \<lparr>memory_regions = [\<lparr>region_base = 0x100000000, region_length = 0x40000000, region_type = 1\<rparr>],
      memory_region_count = 1\<rparr> no_frames = None"
  by (rule pmm_init_overruns) (simp_all add: known_regions_def region_end_def highest_end_def)

end
