(* ===== verification/VmInv.thy ===== *)
theory VmInv
  imports Vmm HeapProps PmmProps
begin

text \<open>
  The invariant of the address spaces: every frame of a page table, page directory or
  \<open>address_space_t\<close> has one owner, the table pointers and the page directory of a space agree, and
  every space shares the boot-time table of the first 4 MiB. From it follow the translation that the
  processor does and what it sees after each operation of \<open>vmm.c\<close>.
\<close>

section \<open>Words of page-aligned arrays\<close>

definition page_aligned :: "u32 \<Rightarrow> bool" where
  "page_aligned p \<longleftrightarrow> unat p mod 4096 = 0"

lemma frame_live_aligned:
  assumes "pmm_ok s" "p \<in> frame_live s"
  shows "page_aligned p"
proof -
  obtain f where "p = frame_addr f" "f < MAX_FRAMES" using assms by (rule frame_live_cases)
  then show ?thesis by (simp add: page_aligned_def unat_frame_addr)
qed

lemma unat_word_at:
  assumes "page_aligned p" "i < 1024"
  shows "unat (word_at p i) = unat p + 4 * unat i"
proof -
  have i: "unat i < 1024" using assms(2) by (simp add: word_less_nat_alt)
  have "unat p = 4096 * (unat p div 4096)"
    using assms(1) by (auto simp: page_aligned_def)
  moreover have "unat p div 4096 < 1048576" using unat_u32_less [of p] by simp
  ultimately have "unat p + 4095 < 4294967296" by linarith
  then show ?thesis using i by (simp add: word_at_def unat_word_ariths)
qed

lemma page_offset_eq:
  fixes x y k l :: nat
  assumes "x < 4096" "y < 4096"
  shows "4096 * k + x = 4096 * l + y \<longleftrightarrow> k = l \<and> x = y"
proof
  assume e: "4096 * k + x = 4096 * l + y"
  have "k = (4096 * k + x) div 4096" "l = (4096 * l + y) div 4096" using assms by simp_all
  with e show "k = l \<and> x = y" by simp
qed simp

lemma word_at_eq:
  assumes "page_aligned p" "page_aligned q" "i < 1024" "j < 1024"
  shows "word_at p i = word_at q j \<longleftrightarrow> p = q \<and> i = j"
proof -
  have ij: "unat i < 1024" "unat j < 1024" using assms by (simp_all add: word_less_nat_alt)
  have "word_at p i = word_at q j \<longleftrightarrow> unat p + 4 * unat i = unat q + 4 * unat j"
    using unat_word_at [OF assms(1,3)] unat_word_at [OF assms(2,4)] by (simp add: word_unat_eq_iff)
  also have "\<dots> \<longleftrightarrow> unat p = unat q \<and> unat i = unat j"
  proof -
    obtain k l where "unat p = 4096 * k" "unat q = 4096 * l"
      using assms(1,2) unfolding page_aligned_def mod_eq_0_iff_dvd by (auto elim!: dvdE)
    then show ?thesis using page_offset_eq [of "4 * unat i" "4 * unat j" k l] ij by simp
  qed
  finally show ?thesis by (simp add: word_unat_eq_iff)
qed

lemma get_set_word:
  assumes "page_aligned p" "page_aligned q" "i < 1024" "j < 1024"
  shows "get_word q j (set_word p i v s) = (if q = p \<and> j = i then v else get_word q j s)"
  using word_at_eq [OF assms(2,1,4,3)] by (simp add: get_word_def set_word_def)

lemma set_words_frame [simp]:
  "heap (set_words p f is s) = heap s" "pmm (set_words p f is s) = pmm s"
  "spaces (set_words p f is s) = spaces s" "table_ptrs (set_words p f is s) = table_ptrs s"
  "current_address_space (set_words p f is s) = current_address_space s"
  "cr3 (set_words p f is s) = cr3 s" "cr0 (set_words p f is s) = cr0 s"
  unfolding set_words_def by (induction "is" arbitrary: s) (simp_all add: set_word_def)

lemma set_word_frame [simp]:
  "heap (set_word p i v s) = heap s" "pmm (set_word p i v s) = pmm s"
  "spaces (set_word p i v s) = spaces s" "table_ptrs (set_word p i v s) = table_ptrs s"
  "current_address_space (set_word p i v s) = current_address_space s"
  "cr3 (set_word p i v s) = cr3 s" "cr0 (set_word p i v s) = cr0 s"
  by (simp_all add: set_word_def)

lemma get_set_words_other:
  assumes "page_aligned p" "page_aligned q" "q \<noteq> p" "\<forall>i \<in> set is. i < 1024" "j < 1024"
  shows "get_word q j (set_words p f is s) = get_word q j s"
  using assms(4) unfolding set_words_def
  by (induction "is" arbitrary: s) (simp_all add: get_set_word assms)

lemma get_set_words:
  assumes "page_aligned p" "\<forall>i \<in> set is. i < 1024" "j < 1024"
  shows "get_word p j (set_words p f is s) = (if j \<in> set is then f j else get_word p j s)"
  using assms(2) unfolding set_words_def
  by (induction "is" arbitrary: s) (auto simp: get_set_word assms)

lemma frames_mem:
  assumes "unat b \<le> 4294967295"
  shows "i \<in> set (frames a b) \<longleftrightarrow> a \<le> i \<and> i < b"
proof -
  have "i \<in> set (frames a b) \<longleftrightarrow> (\<exists>k. unat a \<le> k \<and> k < unat b \<and> i = of_nat k)"
    by (auto simp: frames_def)
  also have "\<dots> \<longleftrightarrow> unat a \<le> unat i \<and> unat i < unat b"
  proof
    assume "\<exists>k. unat a \<le> k \<and> k < unat b \<and> i = of_nat k"
    then show "unat a \<le> unat i \<and> unat i < unat b"
      using unat_u32_less [of b] by (auto simp: unat_of_nat)
  next
    assume "unat a \<le> unat i \<and> unat i < unat b"
    then show "\<exists>k. unat a \<le> k \<and> k < unat b \<and> i = of_nat k" by (intro exI [of _ "unat i"]) simp
  qed
  finally show ?thesis by (simp add: word_le_nat_alt word_less_nat_alt)
qed

lemma frames_1024 [simp]: "i \<in> set (frames 0 1024) \<longleftrightarrow> i < 1024" "i \<in> set (frames 1 1024) \<longleftrightarrow> 1 \<le> i \<and> i < 1024"
  by (simp_all add: frames_mem)

section \<open>The invariant\<close>

datatype slot = Struct u32 | Dir ref | Tab ref u32 | Boot

definition tab_of :: "kmem \<Rightarrow> ref \<Rightarrow> ref" where
  "tab_of s r = (case page_tables (spaces s r) of Some t \<Rightarrow> t | None \<Rightarrow> Static)"

fun slot_frame :: "layout \<Rightarrow> kmem \<Rightarrow> slot \<Rightarrow> u32" where
  "slot_frame lay s (Struct p) = p"
| "slot_frame lay s (Dir r) = page_directory (spaces s r)"
| "slot_frame lay s (Tab r i) = table_ptrs s (tab_of s r) i"
| "slot_frame lay s Boot = lk_first_page_table lay"

fun slot_of :: "ref set \<Rightarrow> slot \<Rightarrow> bool" where
  "slot_of R (Struct p) \<longleftrightarrow> Dyn p \<in> R"
| "slot_of R (Dir r) \<longleftrightarrow> r \<in> R"
| "slot_of R (Tab r i) \<longleftrightarrow> r \<in> R \<and> 1 \<le> i \<and> i < 1024"
| "slot_of R Boot \<longleftrightarrow> True"

definition tables_ok :: "ref set \<Rightarrow> kmem \<Rightarrow> bool" where
  "tables_ok R s \<longleftrightarrow> (\<forall>r \<in> R. page_tables (spaces s r) \<noteq> None \<and> (tab_of s r = Static \<longleftrightarrow> r = Static)) \<and>
     inj_on (tab_of s) R \<and> (\<forall>r \<in> R. \<forall>q. tab_of s r = Dyn q \<longrightarrow> q \<in> heap_live (heap s))"

definition owners_ok :: "layout \<Rightarrow> ref set \<Rightarrow> kmem \<Rightarrow> bool" where
  "owners_ok lay R s \<longleftrightarrow>
     (\<forall>x. slot_of R x \<and> slot_frame lay s x \<noteq> 0 \<longrightarrow>
        slot_frame lay s x \<in> frame_live (pmm s) \<and> mapped (slot_frame lay s x)) \<and>
     (\<forall>x y. slot_of R x \<and> slot_of R y \<and> slot_frame lay s x = slot_frame lay s y \<and> slot_frame lay s x \<noteq> 0
        \<longrightarrow> x = y) \<and>
     (\<forall>r \<in> R. page_directory (spaces s r) \<noteq> 0 \<and> r \<noteq> Dyn 0) \<and> lk_first_page_table lay \<noteq> 0"

definition entries_ok :: "layout \<Rightarrow> ref set \<Rightarrow> kmem \<Rightarrow> bool" where
  "entries_ok lay R s \<longleftrightarrow> (\<forall>r \<in> R.
     table_ptrs s (tab_of s r) 0 = lk_first_page_table lay \<and>
     get_word (page_directory (spaces s r)) 0 s = lk_first_page_table lay OR 3 \<and>
     (\<forall>i. 1 \<le> i \<and> i < 1024 \<longrightarrow> get_word (page_directory (spaces s r)) i s =
        (let t = table_ptrs s (tab_of s r) i in if t = 0 then 0 else t OR 7)))"

definition vm_ok :: "layout \<Rightarrow> ref set \<Rightarrow> kmem \<Rightarrow> bool" where
  "vm_ok lay R s \<longleftrightarrow> pmm_ok (pmm s) \<and> heap_good (heap s) \<and> Static \<in> R \<and>
     page_directory (spaces s Static) = lk_page_directory lay \<and>
     tables_ok R s \<and> owners_ok lay R s \<and> entries_ok lay R s"

lemmas vm_ok_defs = vm_ok_def tables_ok_def owners_ok_def entries_ok_def

lemma vm_ok_slot:
  assumes "vm_ok lay R s" "slot_of R x" "slot_frame lay s x \<noteq> 0"
  shows "slot_frame lay s x \<in> frame_live (pmm s)" "mapped (slot_frame lay s x)" "page_aligned (slot_frame lay s x)"
  using assms frame_live_aligned by (auto simp: vm_ok_def owners_ok_def)

lemma vm_ok_owner:
  assumes "vm_ok lay R s" "slot_of R x" "slot_of R y" "slot_frame lay s x = slot_frame lay s y" "slot_frame lay s x \<noteq> 0"
  shows "x = y"
  using assms unfolding vm_ok_def owners_ok_def by blast

lemma vm_ok_dir:
  assumes "vm_ok lay R s" "r \<in> R"
  shows "page_directory (spaces s r) \<noteq> 0" "mapped (page_directory (spaces s r))" "page_aligned (page_directory (spaces s r))"
    "page_directory (spaces s r) \<in> frame_live (pmm s)"
  using vm_ok_slot [OF assms(1), of "Dir r"] assms by (auto simp: vm_ok_def owners_ok_def)

text \<open>The table a space has for a directory index, the boot-time one for index 0.\<close>

definition table_for :: "kmem \<Rightarrow> ref \<Rightarrow> u32 \<Rightarrow> u32" where
  "table_for s r i = table_ptrs s (tab_of s r) i"

lemma vm_ok_table:
  assumes "vm_ok lay R s" "r \<in> R" "i < 1024" "table_for s r i \<noteq> 0"
  shows "mapped (table_for s r i)" "page_aligned (table_for s r i)" "table_for s r i \<in> frame_live (pmm s)"
proof -
  have "\<exists>x. slot_of R x \<and> slot_frame lay s x = table_for s r i"
  proof (cases "i = 0")
    case True
    then show ?thesis using assms(1,2) by (intro exI [of _ Boot]) (simp add: vm_ok_def entries_ok_def table_for_def)
  next
    case False
    then have "1 \<le> i" by (simp add: word_le_nat_alt Suc_le_eq unat_gt_0)
    then show ?thesis using assms(2,3) by (intro exI [of _ "Tab r i"]) (simp add: table_for_def)
  qed
  then show "mapped (table_for s r i)" "page_aligned (table_for s r i)" "table_for s r i \<in> frame_live (pmm s)"
    using vm_ok_slot [OF assms(1)] assms(4) by metis+
qed

lemma vm_ok_reach:
  assumes "vm_ok lay R s" "r \<in> R"
  shows "reachable_ref r"
proof (cases r)
  case (Dyn p)
  then have "p \<noteq> 0" using assms by (auto simp: vm_ok_def owners_ok_def)
  then show ?thesis using vm_ok_slot(2) [OF assms(1), of "Struct p"] assms(2) Dyn
    by (simp add: reachable_ref_def)
qed (simp add: reachable_ref_def)

lemma page_table_of_ok:
  assumes "vm_ok lay R s" "r \<in> R"
  shows "page_table_of r i s = Some (table_for s r i)"
  using vm_ok_reach [OF assms] assms
  by (auto simp: page_table_of_def vm_ok_def tables_ok_def table_for_def tab_of_def split: option.splits)

text \<open>What the three parts of the invariant depend on.\<close>

lemma tab_of_cong:
  assumes "spaces s' = spaces s"
  shows "tab_of s' = tab_of s"
  using assms by (intro ext) (simp add: tab_of_def)

lemma slot_frame_cong:
  assumes "spaces s' = spaces s" "table_ptrs s' = table_ptrs s"
  shows "slot_frame lay s' = slot_frame lay s"
proof
  show "slot_frame lay s' x = slot_frame lay s x" for x
    by (cases x) (simp_all add: tab_of_cong [OF assms(1)] assms)
qed

lemma tables_ok_cong:
  assumes "spaces s' = spaces s" "heap s' = heap s"
  shows "tables_ok R s' = tables_ok R s"
  by (simp only: tables_ok_def tab_of_cong [OF assms(1)] assms)

lemma owners_ok_cong:
  assumes "spaces s' = spaces s" "table_ptrs s' = table_ptrs s" "pmm s' = pmm s"
  shows "owners_ok lay R s' = owners_ok lay R s"
  by (simp only: owners_ok_def slot_frame_cong [OF assms(1,2)] assms)

end
