(* ===== verification/VmProps.thy ===== *)
theory VmProps
  imports VmInv
begin

text \<open>
  The theorems on paging: what the processor translates is what \<open>vmm_get_physical_address\<close> says,
  mapping a page changes that page of the current space only, and the identity mapping that all
  spaces share can be removed by \<open>vmm_unmap_page\<close>.
\<close>

section \<open>Indices\<close>

lemma directory_index_less [simp]: "directory_index v < 1024"
proof -
  have "unat v div 4194304 < 1024" using unat_u32_less [of v] by simp
  then show ?thesis by (simp add: directory_index_def word_less_nat_alt drop_bit_eq_div unat_div)
qed

lemma table_index_less [simp]: "table_index v < 1024"
proof -
  have "drop_bit 12 v AND 0x3FF \<le> 0x3FF" by (rule word_and_le1)
  then show ?thesis unfolding table_index_def by (rule order_le_less_trans) simp
qed

lemma user_index: "vmm_is_user_address v \<Longrightarrow> 1 \<le> directory_index v"
proof -
  assume "vmm_is_user_address v"
  then have "4194304 \<le> unat v" by (simp add: vmm_is_user_address_def word_le_nat_alt)
  then have "1 \<le> unat v div 4194304" by (simp add: less_eq_div_iff_mult_less_eq)
  then show ?thesis by (simp add: directory_index_def word_le_nat_alt drop_bit_eq_div unat_div)
qed

definition page_of :: "u32 \<Rightarrow> u32" where
  "page_of v = drop_bit 12 v"

lemma page_of_split: "page_of w = push_bit 10 (directory_index w) OR table_index w"
proof (rule bit_word_eqI)
  fix n :: nat
  assume n: "n < LENGTH(32)"
  have "(0x3FF :: u32) = mask 10" by (simp add: mask_numeral)
  then have "bit (0x3FF :: u32) n \<longleftrightarrow> n < 10" using n by (simp only: bit_mask_iff) simp
  then show "bit (page_of w) n = bit (push_bit 10 (directory_index w) OR table_index w) n"
    using n by (auto simp: page_of_def directory_index_def table_index_def bit_simps dest: bit_imp_le_length)
qed

lemma page_of_indices:
  "page_of v = page_of v' \<longleftrightarrow> directory_index v = directory_index v' \<and> table_index v = table_index v'"
proof
  assume p: "page_of v = page_of v'"
  have "directory_index w = drop_bit 10 (page_of w)" "table_index w = page_of w AND 0x3FF" for w
    by (simp_all add: directory_index_def table_index_def page_of_def)
  then show "directory_index v = directory_index v' \<and> table_index v = table_index v'"
    using p by metis
next
  assume "directory_index v = directory_index v' \<and> table_index v = table_index v'"
  then show "page_of v = page_of v'" using page_of_split by metis
qed

section \<open>Translation\<close>

definition entry_for :: "kmem \<Rightarrow> ref \<Rightarrow> u32 \<Rightarrow> u32" where
  "entry_for s r v = get_word (table_for s r (directory_index v)) (table_index v) s"

definition translate :: "kmem \<Rightarrow> ref \<Rightarrow> u32 \<Rightarrow> u32" where
  "translate s r v =
     (if table_for s r (directory_index v) = 0 then 0
      else if entry_for s r v AND PAGE_PRESENT = 0 then 0
      else entry_for s r v AND 0xFFFFF000)"

text \<open>The walk of the processor: directory entry, table entry, and a fault when either is not present.\<close>

definition mmu_walk :: "(u32 \<Rightarrow> u32) \<Rightarrow> u32 \<Rightarrow> u32 \<Rightarrow> u32 option" where
  "mmu_walk mem directory v =
     (let pde = mem (directory + 4 * directory_index v)
      in if pde AND 1 = 0 then None
         else let pte = mem ((pde AND 0xFFFFF000) + 4 * table_index v)
              in if pte AND 1 = 0 then None
                 else Some ((pte AND 0xFFFFF000) OR (v AND 0xFFF)))"

lemma vmm_get_physical_ok:
  assumes "vm_ok lay R s" "r \<in> R" "current_address_space s = Some r"
  shows "vmm_get_physical_address v s = Some (translate s r v)"
proof -
  have "table_for s r (directory_index v) \<noteq> 0 \<Longrightarrow> mapped (table_for s r (directory_index v))"
    using vm_ok_table(1) [OF assms(1,2)] by simp
  then show ?thesis
    by (simp add: vmm_get_physical_address_def address_space_current_def assms(3)
        page_table_of_ok [OF assms(1,2)] translate_def entry_for_def Let_def)
qed

lemma low_bits:
  assumes "page_aligned t" "unat k < 4096"
  shows "(t OR k) AND 0xFFFFF000 = t" "(t OR k) AND 1 = k AND 1"
proof -
  have "take_bit 12 t = 0"
    using assms(1) by (simp add: page_aligned_def word_unat_eq_iff unsigned_take_bit_eq take_bit_eq_mod unat_mod)
  then have t: "\<not> bit t n" if "n < 12" for n
    using that by (metis bit_take_bit_iff bit_0_eq bot_apply bot_bool_def)
  have "take_bit 12 k = k"
    using assms(2) by (simp add: word_unat_eq_iff unsigned_take_bit_eq take_bit_eq_mod unat_mod)
  then have k: "bit k n \<Longrightarrow> n < 12" for n by (metis bit_take_bit_iff)
  have m: "bit (0xFFFFF000 :: u32) n \<longleftrightarrow> 12 \<le> n \<and> n < 32" for n
  proof -
    have "(0xFFFFF000 :: u32) = NOT (mask 12)" by (simp add: mask_numeral)
    then show ?thesis by (simp only: bit_not_iff bit_mask_iff) auto
  qed
  show "(t OR k) AND 0xFFFFF000 = t"
    by (rule bit_word_eqI) (use t k m in \<open>auto simp: bit_and_iff bit_or_iff\<close>, meson not_less, meson not_less)
  show "(t OR k) AND 1 = k AND 1"
    by (rule bit_word_eqI) (use t in \<open>auto simp: bit_simps\<close>)
qed

section \<open>Changing page tables\<close>

lemma dir_ne_table:
  assumes "vm_ok lay R s" "r \<in> R" "r' \<in> R" "i < 1024" "table_for s r i \<noteq> 0"
  shows "page_directory (spaces s r') \<noteq> table_for s r i"
proof
  assume e: "page_directory (spaces s r') = table_for s r i"
  show False
  proof (cases "i = 0")
    case True
    then have "table_for s r i = slot_frame lay s Boot"
      using assms(1,2) by (simp add: vm_ok_def entries_ok_def table_for_def)
    then show False using vm_ok_owner [OF assms(1), of "Dir r'" Boot] e assms(3,5) by simp
  next
    case False
    then have "1 \<le> i" by (simp add: word_le_nat_alt Suc_le_eq unat_gt_0)
    then show False
      using vm_ok_owner [OF assms(1), of "Dir r'" "Tab r i"] e assms by (simp add: table_for_def)
  qed
qed

lemma table_inj:
  assumes "vm_ok lay R s" "r \<in> R" "r' \<in> R" "1 \<le> i" "i < 1024" "i' < 1024"
    and "table_for s r i = table_for s r' i'" "table_for s r i \<noteq> 0"
  shows "r = r' \<and> i = i'"
proof (cases "i' = 0")
  case True
  then have "table_for s r' i' = slot_frame lay s Boot"
    using assms(1,3) by (simp add: vm_ok_def entries_ok_def table_for_def)
  then show ?thesis using vm_ok_owner [OF assms(1), of "Tab r i" Boot] assms by (simp add: table_for_def)
next
  case False
  then have "1 \<le> i'" by (simp add: word_le_nat_alt Suc_le_eq unat_gt_0)
  then show ?thesis
    using vm_ok_owner [OF assms(1), of "Tab r i" "Tab r' i'"] assms by (simp add: table_for_def)
qed

lemma tab_of_set_word [simp]: "tab_of (set_word p i v s) r = tab_of s r"
  by (simp add: tab_of_def)

lemma table_for_set_word [simp]: "table_for (set_word p i v s) r k = table_for s r k"
  by (simp add: table_for_def)

lemma slot_frame_set_word [simp]: "slot_frame lay (set_word p i v s) x = slot_frame lay s x"
  by (cases x) simp_all

lemma vm_ok_set_word:
  assumes "vm_ok lay R s" "page_aligned t" "i < 1024" "\<forall>r \<in> R. page_directory (spaces s r) \<noteq> t"
  shows "vm_ok lay R (set_word t i v s)"
proof -
  have "get_word (page_directory (spaces s r)) j (set_word t i v s) = get_word (page_directory (spaces s r)) j s"
    if "r \<in> R" "j < 1024" for r j
    using get_set_word [OF assms(2) vm_ok_dir(3) [OF assms(1) that(1)] assms(3) that(2)] assms(4) that(1) by auto
  then have "entries_ok lay R (set_word t i v s)"
    using assms(1) unfolding vm_ok_def entries_ok_def by simp
  moreover have "tables_ok R (set_word t i v s) = tables_ok R s"
    "owners_ok lay R (set_word t i v s) = owners_ok lay R s"
    by (rule tables_ok_cong owners_ok_cong; simp)+
  ultimately show ?thesis using assms(1) unfolding vm_ok_def by simp
qed

lemma entry_for_set_word:
  assumes "vm_ok lay R s" "r \<in> R" "r' \<in> R" "1 \<le> i" "i < 1024" "j < 1024"
    and "table_for s r i \<noteq> 0" "table_for s r' (directory_index v') \<noteq> 0"
  shows "entry_for (set_word (table_for s r i) j w s) r' v' =
    (if r' = r \<and> directory_index v' = i \<and> table_index v' = j then w else entry_for s r' v')"
proof -
  have same: "table_for s r' (directory_index v') = table_for s r i \<longleftrightarrow> r' = r \<and> directory_index v' = i"
  proof
    assume e: "table_for s r' (directory_index v') = table_for s r i"
    show "r' = r \<and> directory_index v' = i"
      using table_inj [OF assms(1-5) directory_index_less e [symmetric] assms(7)] by blast
  next
    assume "r' = r \<and> directory_index v' = i"
    then show "table_for s r' (directory_index v') = table_for s r i" by blast
  qed
  show ?thesis
    unfolding entry_for_def table_for_set_word
      get_set_word [OF vm_ok_table(2) [OF assms(1,2,5,7)] vm_ok_table(2) [OF assms(1,3) directory_index_less assms(8)]
        assms(6) table_index_less] same
    by (simp only: conj_assoc)
qed

lemma translate_set_entry:
  assumes "vm_ok lay R s" "r \<in> R" "vmm_is_user_address v" "table_for s r (directory_index v) \<noteq> 0" "r' \<in> R"
  shows "translate (set_word (table_for s r (directory_index v)) (table_index v) w s) r' v' =
    (if r' = r \<and> page_of v' = page_of v then (if w AND PAGE_PRESENT = 0 then 0 else w AND 0xFFFFF000)
     else translate s r' v')"
proof (cases "table_for s r' (directory_index v') = 0")
  case True
  then have "\<not> (r' = r \<and> page_of v' = page_of v)" using assms(4) by (auto simp: page_of_indices)
  then show ?thesis using True by (simp add: translate_def del: de_Morgan_conj)
next
  case False
  show ?thesis
    using entry_for_set_word [OF assms(1,2,5) user_index [OF assms(3)] _ _ assms(4) False] False
    by (auto simp: translate_def page_of_indices)
qed

section \<open>A new page table\<close>

lemma frame_alloc_some:
  assumes "pmm_ok p" "pmm_alloc_frame p = Some (Some t, p')"
  shows "t \<notin> frame_live p" "frame_live p' = insert t (frame_live p)" "pmm_ok p'" "t \<noteq> 0" "page_aligned t"
proof -
  show 1: "t \<notin> frame_live p" and 2: "frame_live p' = insert t (frame_live p)" and 3: "pmm_ok p'"
    using frame.alloc_some [of p t p'] assms by simp_all
  then have t: "t \<in> frame_live p'" by simp
  show "page_aligned t" using frame_live_aligned [OF 3 t] .
  obtain f where "t = frame_addr f" "0 < f" "f < MAX_FRAMES" using 3 t by (rule frame_live_cases)
  then show "t \<noteq> 0" using unat_frame_addr [of f] by auto
qed

lemma dir_inj:
  assumes "vm_ok lay R s" "r \<in> R" "r' \<in> R" "page_directory (spaces s r) = page_directory (spaces s r')"
  shows "r = r'"
  using vm_ok_owner [OF assms(1), of "Dir r" "Dir r'"] vm_ok_dir(1) [OF assms(1,2)] assms by simp

lemma tab_of_inj:
  assumes "vm_ok lay R s" "r \<in> R" "r' \<in> R"
  shows "tab_of s r = tab_of s r' \<longleftrightarrow> r = r'"
  using assms unfolding vm_ok_def tables_ok_def by (meson inj_on_eq_iff)

text \<open>The state after a page table is entered at index \<open>i\<close> of space \<open>r\<close>.\<close>

definition enter_table :: "ref \<Rightarrow> u32 \<Rightarrow> u32 \<Rightarrow> pmm_t \<Rightarrow> kmem \<Rightarrow> kmem" where
  "enter_table r i t p s =
     set_word (page_directory (spaces s r)) i (t OR 7)
       (set_table_ptr (tab_of s r) i t (set_words t (\<lambda>_. 0) (frames 0 1024) (s\<lparr>pmm := p\<rparr>)))"

lemma enter_table_frame [simp]:
  "spaces (enter_table r i t p s) = spaces s" "heap (enter_table r i t p s) = heap s"
  "pmm (enter_table r i t p s) = p"
  "current_address_space (enter_table r i t p s) = current_address_space s"
  "table_ptrs (enter_table r i t p s) =
     (table_ptrs s)(tab_of s r := (table_ptrs s (tab_of s r))(i := t))"
  by (simp_all add: enter_table_def set_table_ptr_def)

lemma enter_table_word:
  assumes "vm_ok lay R s" "r \<in> R" "page_aligned t" "page_aligned q" "i < 1024" "j < 1024"
  shows "get_word q j (enter_table r i t p s) =
    (if q = page_directory (spaces s r) \<and> j = i then t OR 7 else if q = t then 0 else get_word q j s)"
proof -
  have "get_word q j (set_table_ptr x i t s') = get_word q j s'" for x s'
    by (simp add: get_word_def set_table_ptr_def)
  moreover have "get_word q j (s\<lparr>pmm := p\<rparr>) = get_word q j s" by (simp add: get_word_def)
  ultimately show ?thesis
    using get_set_words [OF assms(3), of "frames 0 1024" j "\<lambda>_. 0" "s\<lparr>pmm := p\<rparr>"]
      get_set_words_other [OF assms(3,4), of "frames 0 1024" j "\<lambda>_. 0" "s\<lparr>pmm := p\<rparr>"] assms(6)
    unfolding enter_table_def get_set_word [OF vm_ok_dir(3) [OF assms(1,2)] assms(4,5,6)] by auto
qed

lemma enter_table_for:
  assumes "vm_ok lay R s" "r \<in> R" "r' \<in> R"
  shows "table_for (enter_table r i t p s) r' j = (if r' = r \<and> j = i then t else table_for s r' j)"
proof -
  have "tab_of (enter_table r i t p s) = tab_of s" by (rule tab_of_cong) simp
  then show ?thesis using tab_of_inj [OF assms(1,3,2)] by (auto simp: table_for_def)
qed

lemma enter_table_slot:
  assumes "vm_ok lay R s" "r \<in> R" "slot_of R x"
  shows "slot_frame lay (enter_table r i t p s) x = (if x = Tab r i then t else slot_frame lay s x)"
proof (cases x)
  case (Tab r' j)
  then have "r' \<in> R" using assms(3) by simp
  then show ?thesis using enter_table_for [OF assms(1,2), of r' i t p j] Tab by (simp add: table_for_def)
qed simp_all

lemma enter_table_ok:
  assumes ok: "vm_ok lay R s" and r: "r \<in> R" and i: "1 \<le> i" "i < 1024"
    and al: "pmm_alloc_frame (pmm s) = Some (Some t, p)" "mapped t"
  shows "vm_ok lay R (enter_table r i t p s)"
proof -
  let ?s = "enter_table r i t p s"
  have pm: "pmm_ok (pmm s)" using ok by (simp add: vm_ok_def)
  note t = frame_alloc_some [OF pm al(1)]
  have old: "slot_frame lay s x \<noteq> t" if "slot_of R x" for x
    using vm_ok_slot(1) [OF ok that] t(1,4) by metis
  have "tables_ok R ?s" using tables_ok_cong [of ?s s R] ok by (simp add: vm_ok_def)
  moreover have "owners_ok lay R ?s"
    unfolding owners_ok_def
  proof (intro conjI allI impI)
    fix x assume x: "slot_of R x \<and> slot_frame lay ?s x \<noteq> 0"
    then show "slot_frame lay ?s x \<in> frame_live (pmm ?s)" "mapped (slot_frame lay ?s x)"
      using enter_table_slot [OF ok r, of x i t p] vm_ok_slot(1,2) [OF ok, of x] t(2) al(2)
      by (auto split: if_splits)
  next
    fix x y
    assume "slot_of R x \<and> slot_of R y \<and> slot_frame lay ?s x = slot_frame lay ?s y \<and> slot_frame lay ?s x \<noteq> 0"
    then show "x = y"
      using enter_table_slot [OF ok r, of x i t p] enter_table_slot [OF ok r, of y i t p] old
        vm_ok_owner [OF ok, of x y] by (metis (full_types))
  next
    show "\<forall>r \<in> R. page_directory (spaces ?s r) \<noteq> 0 \<and> r \<noteq> Dyn 0" "lk_first_page_table lay \<noteq> 0"
      using ok by (simp_all add: vm_ok_def owners_ok_def)
  qed
  moreover have "entries_ok lay R ?s"
    unfolding entries_ok_def
  proof (intro ballI conjI allI impI)
    fix r' assume r': "r' \<in> R"
    have e: "table_ptrs s (tab_of s r') 0 = lk_first_page_table lay"
      "get_word (page_directory (spaces s r')) 0 s = lk_first_page_table lay OR 3"
      "\<And>j. 1 \<le> j \<Longrightarrow> j < 1024 \<Longrightarrow> get_word (page_directory (spaces s r')) j s =
        (let t = table_for s r' j in if t = 0 then 0 else t OR 7)"
      using ok r' by (simp_all add: vm_ok_def entries_ok_def table_for_def)
    have tf: "table_ptrs ?s (tab_of ?s r') j = (if r' = r \<and> j = i then t else table_for s r' j)" for j
      using enter_table_for [OF ok r r', of i t p j] by (simp add: table_for_def)
    have i0: "i \<noteq> 0" using i(1) by auto
    have d: "page_directory (spaces s r') \<noteq> t" using vm_ok_dir(4) [OF ok r'] t(1) by auto
    have w: "get_word (page_directory (spaces ?s r')) j ?s =
        (if r' = r \<and> j = i then t OR 7 else get_word (page_directory (spaces s r')) j s)" if "j < 1024" for j
      using enter_table_word [OF ok r t(5) vm_ok_dir(3) [OF ok r'] i(2) that, of p] d dir_inj [OF ok r' r] by auto
    show "table_ptrs ?s (tab_of ?s r') 0 = lk_first_page_table lay"
      using tf [of 0] i0 e(1) by (simp add: table_for_def)
    show "get_word (page_directory (spaces ?s r')) 0 ?s = lk_first_page_table lay OR 3"
      using w [of 0] i0 e(2) by simp
    fix j :: u32 assume j: "1 \<le> j \<and> j < 1024"
    show "get_word (page_directory (spaces ?s r')) j ?s =
        (let t = table_ptrs ?s (tab_of ?s r') j in if t = 0 then 0 else t OR 7)"
      using w [of j] tf [of j] e(3) [of j] j t(4) by (simp add: Let_def)
  qed
  ultimately show ?thesis using ok t(3) by (simp add: vm_ok_def)
qed

lemma create_table_run:
  assumes ok: "vm_ok lay R s" and r: "r \<in> R"
    and al: "pmm_alloc_frame (pmm s) = Some (Some t, p)" "mapped t"
  shows "vmm_create_page_table (Some r) i s = Some (t, enter_table r i t p s)"
proof -
  have "page_tables (spaces s r) = Some (tab_of s r)"
    using ok r by (auto simp: vm_ok_def tables_ok_def tab_of_def)
  then show ?thesis using al vm_ok_dir(2) [OF ok r]
    by (simp add: vmm_create_page_table_def lift_pmm_def enter_table_def Let_def set_table_ptr_def)
qed

section \<open>Properties\<close>

lemma page_offset_bits:
  "((a AND 0xFFFFF000) OR (v AND 0xFFF)) AND 0xFFFFF000 = (a AND 0xFFFFF000 :: u32)"
proof (rule bit_word_eqI)
  fix n :: nat
  assume "n < LENGTH(32)"
  have "(0xFFFFF000 :: u32) = NOT (mask 12)" "(0xFFF :: u32) = mask 12" by (simp_all add: mask_numeral)
  then show "bit (((a AND 0xFFFFF000) OR (v AND 0xFFF)) AND 0xFFFFF000) n = bit (a AND 0xFFFFF000 :: u32) n"
    by (simp only: bit_and_iff bit_or_iff bit_not_iff bit_mask_iff) auto
qed

lemma directory_entry:
  assumes ok: "vm_ok lay R s" and r: "r \<in> R" and i: "i < 1024"
  shows "\<exists>k. unat k < 4096 \<and> k AND 1 = 1 \<and> get_word (page_directory (spaces s r)) i s =
    (if table_for s r i = 0 then 0 else table_for s r i OR k)"
proof (cases "i = 0")
  case True
  then have "table_for s r i = lk_first_page_table lay" "lk_first_page_table lay \<noteq> 0"
    "get_word (page_directory (spaces s r)) i s = lk_first_page_table lay OR 3"
    using ok r by (simp_all add: vm_ok_def entries_ok_def owners_ok_def table_for_def)
  then show ?thesis by (intro exI [of _ 3]) simp
next
  case False
  then have "1 \<le> i" by (simp add: word_le_nat_alt Suc_le_eq unat_gt_0)
  then show ?thesis using ok r i
    by (intro exI [of _ 7]) (simp add: vm_ok_def entries_ok_def table_for_def Let_def)
qed

text \<open>C25. The translation that \<open>vmm_get_physical_address\<close> reads from the kernel's array of table pointers is the one
  the processor finds by walking the page directory in \<open>cr3\<close>: the same frame, and 0 on a fault (a page of frame 0 also reads as 0).\<close>

theorem vmm_get_physical_is_walk:
  assumes "vm_ok lay R s" "r \<in> R" "current_address_space s = Some r" "cr3 s = page_directory (spaces s r)"
  shows "vmm_get_physical_address v s =
    Some (case mmu_walk (phys s) (cr3 s) v of None \<Rightarrow> 0 | Some a \<Rightarrow> a AND 0xFFFFF000)"
proof -
  let ?t = "table_for s r (directory_index v)"
  obtain k where k: "unat k < 4096" "k AND 1 = 1"
    "get_word (page_directory (spaces s r)) (directory_index v) s = (if ?t = 0 then 0 else ?t OR k)"
    using directory_entry [OF assms(1,2) directory_index_less] by blast
  have walk: "mmu_walk (phys s) (cr3 s) v =
      (let pde = if ?t = 0 then 0 else ?t OR k
       in if pde AND 1 = 0 then None
          else let pte = phys s ((pde AND 0xFFFFF000) + 4 * table_index v)
               in if pte AND 1 = 0 then None else Some ((pte AND 0xFFFFF000) OR (v AND 0xFFF)))"
    using k(3) unfolding mmu_walk_def assms(4) get_word_def word_at_def by simp
  show ?thesis
  proof (cases "?t = 0")
    case True
    then show ?thesis using vmm_get_physical_ok [OF assms(1-3)] walk by (simp add: translate_def)
  next
    case False
    have al: "page_aligned ?t" using vm_ok_table(2) [OF assms(1,2) directory_index_less False] .
    note lb = low_bits [OF al k(1)]
    have "phys s (((?t OR k) AND 0xFFFFF000) + 4 * table_index v) = entry_for s r v"
      using lb(1) by (simp add: entry_for_def get_word_def word_at_def)
    then show ?thesis
      using vmm_get_physical_ok [OF assms(1-3)] walk False lb k(2)
      by (simp add: translate_def Let_def page_offset_bits entry_for_def get_word_def word_at_def)
  qed
qed

lemma flags_entry:
  assumes "unat (flags :: u32) < 4096"
  shows "((p AND 0xFFFFF000) OR flags) AND 0xFFFFF000 = p AND 0xFFFFF000"
    "((p AND 0xFFFFF000) OR flags) AND 1 = flags AND 1"
proof -
  have "(0xFFFFF000 :: u32) = NOT (mask 12)" by (simp add: mask_numeral)
  then have "take_bit 12 (p AND 0xFFFFF000) = 0"
    by (simp only:) (rule bit_word_eqI, auto simp: bit_simps)
  then have "page_aligned (p AND 0xFFFFF000)"
    by (simp add: page_aligned_def word_unat_eq_iff unsigned_take_bit_eq take_bit_eq_mod unat_mod)
  then show "((p AND 0xFFFFF000) OR flags) AND 0xFFFFF000 = p AND 0xFFFFF000"
    "((p AND 0xFFFFF000) OR flags) AND 1 = flags AND 1"
    using low_bits assms by blast+
qed

lemma vm_ok_messages [simp]: "vm_ok lay R (vmm_invalidate_page v s) = vm_ok lay R s"
proof -
  have "tables_ok R (vmm_invalidate_page v s) = tables_ok R s"
    "owners_ok lay R (vmm_invalidate_page v s) = owners_ok lay R s"
    by (rule tables_ok_cong owners_ok_cong; simp add: vmm_invalidate_page_def)+
  then show ?thesis
    by (simp add: vm_ok_def entries_ok_def vmm_invalidate_page_def tab_of_def get_word_def)
qed

lemma translate_invalidate [simp]: "translate (vmm_invalidate_page v s) r v' = translate s r v'"
  by (simp add: translate_def entry_for_def table_for_def tab_of_def get_word_def vmm_invalidate_page_def)

lemma enter_table_translate:
  assumes ok: "vm_ok lay R s" and r: "r \<in> R" and i: "1 \<le> i" "i < 1024" "table_for s r i = 0"
    and al: "pmm_alloc_frame (pmm s) = Some (Some t, p)" "mapped t" and r': "r' \<in> R"
  shows "translate (enter_table r i t p s) r' v = translate s r' v"
proof -
  let ?s = "enter_table r i t p s" and ?d = "directory_index v"
  have pm: "pmm_ok (pmm s)" using ok by (simp add: vm_ok_def)
  note t = frame_alloc_some [OF pm al(1)]
  note tf = enter_table_for [OF ok r r', of i t p ?d]
  show ?thesis
  proof (cases "r' = r \<and> ?d = i")
    case True
    have "t \<noteq> page_directory (spaces s r)" using vm_ok_dir(4) [OF ok r] t(1) by auto
    then have "entry_for ?s r' v = 0"
      using enter_table_word [OF ok r t(5) t(5) i(2) table_index_less] tf True by (simp add: entry_for_def)
    then show ?thesis using True tf i(3) t(4) by (simp add: translate_def)
  next
    case False
    show ?thesis
    proof (cases "table_for s r' ?d = 0")
      case True
      then show ?thesis using tf False by (simp add: translate_def)
    next
      case nz: False
      note q = vm_ok_table [OF ok r' directory_index_less nz]
      have "table_for s r' ?d \<noteq> t" using q(3) t(1) by auto
      moreover have "table_for s r' ?d \<noteq> page_directory (spaces s r)"
        using dir_ne_table [OF ok r' r directory_index_less nz] by simp
      ultimately have "entry_for ?s r' v = entry_for s r' v"
        using enter_table_word [OF ok r t(5) q(2) i(2) table_index_less] tf False by (simp add: entry_for_def)
      then show ?thesis using tf False by (simp add: translate_def)
    qed
  qed
qed

lemma map_page_ok:
  assumes ok: "vm_ok lay R s" and r: "r \<in> R" and cur: "current_address_space s = Some r"
    and v: "vmm_is_user_address v" and fl: "unat flags < 4096" "flags AND PAGE_PRESENT \<noteq> 0"
    and low: "\<forall>f. first_free (pmm s) = Some f \<longrightarrow> f < 1024"
  shows "\<exists>s'. vmm_map_page v p flags s = Some s' \<and> vm_ok lay R s' \<and>
    current_address_space s' = Some r \<and> spaces s' = spaces s \<and>
    (\<forall>r' \<in> R. \<forall>v'. translate s' r' v' =
      (if r' = r \<and> page_of v' = page_of v \<and>
          \<not> (table_for s r (directory_index v) = 0 \<and> first_free (pmm s) = None)
       then p AND 0xFFFFF000 else translate s r' v'))"
proof -
  let ?i = "directory_index v" and ?w = "(p AND 0xFFFFF000) OR flags"
  have entered: "\<exists>s'. vm_ok lay R s' \<and> s' = vmm_invalidate_page v (set_word t (table_index v) ?w s1) \<and>
      (\<forall>r' \<in> R. \<forall>v'. translate s' r' v' =
        (if r' = r \<and> page_of v' = page_of v then p AND 0xFFFFF000 else translate s1 r' v'))"
    if s1: "vm_ok lay R s1" "t = table_for s1 r ?i" "t \<noteq> 0" for s1 t
  proof -
    have nz: "table_for s1 r ?i \<noteq> 0" using s1 by simp
    have "vm_ok lay R (set_word t (table_index v) ?w s1)"
      using vm_ok_set_word [OF s1(1) vm_ok_table(2) [OF s1(1) r directory_index_less nz] table_index_less]
        dir_ne_table [OF s1(1) r _ directory_index_less nz] s1(2) by blast
    then show ?thesis
      using translate_set_entry [OF s1(1) r v nz, of _ ?w] s1(2) fl flags_entry [OF fl(1)] by simp
  qed
  have pt: "page_table_of r ?i s = Some (table_for s r ?i)" by (rule page_table_of_ok [OF ok r])
  show ?thesis
  proof (cases "table_for s r ?i = 0")
    case False
    obtain s' where "vm_ok lay R s'" "s' = vmm_invalidate_page v (set_word (table_for s r ?i) (table_index v) ?w s)"
      "\<forall>r' \<in> R. \<forall>v'. translate s' r' v' =
        (if r' = r \<and> page_of v' = page_of v then p AND 0xFFFFF000 else translate s r' v')"
      using entered [OF ok refl False] by blast
    then show ?thesis using False cur v pt vm_ok_table(1) [OF ok r directory_index_less False]
      by (simp add: vmm_map_page_def address_space_current_def vmm_invalidate_page_def)
  next
    case True
    have pm: "pmm_ok (pmm s)" using ok by (simp add: vm_ok_def)
    show ?thesis
    proof (cases "first_free (pmm s)")
      case None
      have "s\<lparr>pmm := pmm s\<rparr> = s" by simp
      then have "vmm_create_page_table (Some r) ?i s = Some (0, s)"
        using pmm_alloc_frame_ok [OF pm] None by (simp add: vmm_create_page_table_def lift_pmm_def)
      then show ?thesis using None True cur v pt ok
        by (simp add: vmm_map_page_def address_space_current_def)
    next
      case (Some f)
      obtain pm' where al: "pmm_alloc_frame (pmm s) = Some (Some (frame_addr f), pm')"
        using pmm_alloc_frame_ok [OF pm] Some by auto
      have f: "f < 1024" using low Some by simp
      have m: "mapped (frame_addr f)"
        using f by (simp add: mapped_def word_less_nat_alt unat_frame_addr)
      let ?s1 = "enter_table r ?i (frame_addr f) pm' s"
      have s1: "vm_ok lay R ?s1" using enter_table_ok [OF ok r user_index [OF v] directory_index_less al m] .
      have t1: "frame_addr f = table_for ?s1 r ?i" using enter_table_for [OF ok r r] by simp
      have nz: "frame_addr f \<noteq> 0" using frame_alloc_some(4) [OF pm al] .
      obtain s' where s': "vm_ok lay R s'" "s' = vmm_invalidate_page v (set_word (frame_addr f) (table_index v) ?w ?s1)"
        "\<forall>r' \<in> R. \<forall>v'. translate s' r' v' =
          (if r' = r \<and> page_of v' = page_of v then p AND 0xFFFFF000 else translate ?s1 r' v')"
        using entered [OF s1 t1 nz] by blast
      have "translate ?s1 r' v' = translate s r' v'" if "r' \<in> R" for r' v'
        using enter_table_translate [OF ok r user_index [OF v] directory_index_less True al m that] .
      then show ?thesis
        using s' create_table_run [OF ok r al m, of ?i] True Some cur v pt m nz
        by (simp add: vmm_map_page_def address_space_current_def vmm_invalidate_page_def)
    qed
  qed
qed

text \<open>\<open>vmm_unmap_page\<close> does not check its address as \<open>vmm_map_page\<close> does: for an address of the first
  4 MiB it removes the page from the table that all address spaces share, so no space translates it any more,
  while \<open>vmm_map_page\<close> refuses to map it again.\<close>

theorem vmm_unmap_page_shared:
  assumes ok: "vm_ok lay R s" and r: "r \<in> R" and cur: "current_address_space s = Some r" and v: "directory_index v = 0"
  shows "\<exists>s'. vmm_unmap_page v s = Some s' \<and> (\<forall>r' \<in> R. translate s' r' v = 0) \<and>
    vmm_map_page v p flags s' = Some s'"
proof -
  have b: "table_for s r' 0 = lk_first_page_table lay" if "r' \<in> R" for r'
    using ok that by (simp add: vm_ok_def entries_ok_def table_for_def)
  have nz: "lk_first_page_table lay \<noteq> 0" using ok by (simp add: vm_ok_def owners_ok_def)
  have al: "page_aligned (lk_first_page_table lay)" "mapped (lk_first_page_table lay)"
    using vm_ok_slot [OF ok, of Boot] nz by simp_all
  let ?s = "vmm_invalidate_page v (set_word (lk_first_page_table lay) (table_index v) 0 s)"
  have run: "vmm_unmap_page v s = Some ?s"
    using cur v b [OF r] nz al page_table_of_ok [OF ok r, of 0]
    by (simp add: vmm_unmap_page_def address_space_current_def)
  have "entry_for (set_word (lk_first_page_table lay) (table_index v) 0 s) r' v = 0" if "r' \<in> R" for r'
    using get_set_word [OF al(1) al(1) table_index_less table_index_less] b [OF that] v by (simp add: entry_for_def)
  then have "translate (set_word (lk_first_page_table lay) (table_index v) 0 s) r' v = 0" if "r' \<in> R" for r'
    using that by (simp add: translate_def)
  then have "\<forall>r' \<in> R. translate ?s r' v = 0" by simp
  moreover have "\<not> vmm_is_user_address v" using user_index [of v] v by auto
  ultimately show ?thesis using run cur
    by (simp add: vmm_map_page_def address_space_current_def vmm_invalidate_page_def)
qed

end
