(* ===== verification/SpaceProps.thy ===== *)
theory SpaceProps
  imports VmProps
begin

text \<open>
  The life of address spaces: what the boot sequence sets up, what a new address space shares with
  the others, and that destroying a space gives back exactly the frames and the heap block it owns.
\<close>

section \<open>Free frames in order\<close>

definition free_list :: "pmm_t \<Rightarrow> nat list" where
  "free_list s = filter (\<lambda>f. \<not> frame_used s f) [0..<unat (total_frames s)]"

text \<open>The next \<open>n\<close> frames the manager hands out are inside the identity mapping.\<close>

definition low_frames :: "nat \<Rightarrow> pmm_t \<Rightarrow> bool" where
  "low_frames n s \<longleftrightarrow> (\<forall>f \<in> set (take n (free_list s)). f < 1024)"

lemma find_filter: "List.find P xs = (case filter P xs of [] \<Rightarrow> None | x # _ \<Rightarrow> Some x)"
  by (induction xs) auto

lemma first_free_list: "first_free s = (case free_list s of [] \<Rightarrow> None | f # _ \<Rightarrow> Some f)"
  unfolding first_free_def free_list_def by (rule find_filter)

lemma pmm_alloc_list:
  assumes "pmm_ok s"
  shows "case free_list s of
      [] \<Rightarrow> pmm_alloc_frame s = Some (None, s)
    | f # fs \<Rightarrow> \<exists>s'. pmm_alloc_frame s = Some (Some (frame_addr f), s') \<and> f < MAX_FRAMES \<and>
        free_list s' = fs"
proof (cases "free_list s")
  case Nil
  then show ?thesis using pmm_alloc_frame_ok [OF assms] by (simp add: first_free_list)
next
  case (Cons f fs)
  then have "first_free s = Some f" by (simp add: first_free_list)
  then obtain s' where s': "pmm_alloc_frame s = Some (Some (frame_addr f), s')" "same_counts s s'"
    "f < unat (total_frames s)" "\<forall>g < MAX_FRAMES. frame_used s' g \<longleftrightarrow> g = f \<or> frame_used s g"
    using pmm_alloc_frame_ok [OF assms] by auto
  have b: "g < MAX_FRAMES" if "g < unat (total_frames s)" for g using that assms by (simp add: pmm_ok_def)
  have "free_list s' = filter (\<lambda>g. g \<noteq> f \<and> \<not> frame_used s g) [0..<unat (total_frames s)]"
    using s'(2,4) b unfolding free_list_def same_counts_def by (auto intro!: filter_cong)
  also have "\<dots> = filter (\<lambda>g. g \<noteq> f) (free_list s)" by (simp add: free_list_def conj_commute)
  also have "\<dots> = fs"
  proof -
    have "distinct (free_list s)" by (simp add: free_list_def)
    then show ?thesis using Cons by (simp add: filter_id_conv) (metis filter_id_conv)
  qed
  finally show ?thesis using Cons s'(1,3) b by simp
qed

lemma mapped_frame: "f < 1024 \<Longrightarrow> mapped (frame_addr f)"
  by (simp add: mapped_def word_less_nat_alt unat_frame_addr)

text \<open>One allocation with enough low frames.\<close>

lemma alloc_low:
  assumes ok: "pmm_ok s" and low: "low_frames (Suc n) s"
  shows "pmm_alloc_frame s = Some (None, s) \<or>
    (\<exists>t s'. pmm_alloc_frame s = Some (Some t, s') \<and> mapped t \<and> low_frames n s')"
proof (cases "free_list s")
  case Nil
  then show ?thesis using pmm_alloc_list [OF ok] by simp
next
  case (Cons f fs)
  then obtain s' where s': "pmm_alloc_frame s = Some (Some (frame_addr f), s')" "free_list s' = fs"
    using pmm_alloc_list [OF ok] by auto
  have "f < 1024" "low_frames n s'" using low Cons s'(2) by (simp_all add: low_frames_def)
  then show ?thesis using s'(1) mapped_frame by blast
qed

section \<open>Arrays of table pointers\<close>

lemma clear_table_ptrs_frame [simp]:
  "heap (clear_table_ptrs t s) = heap s" "pmm (clear_table_ptrs t s) = pmm s"
  "spaces (clear_table_ptrs t s) = spaces s" "phys (clear_table_ptrs t s) = phys s"
  "current_address_space (clear_table_ptrs t s) = current_address_space s"
  "cr3 (clear_table_ptrs t s) = cr3 s"  "cr0 (clear_table_ptrs t s) = cr0 s"
proof -
  have "heap (fold (\<lambda>i. set_table_ptr t i 0) is s) = heap s \<and> pmm (fold (\<lambda>i. set_table_ptr t i 0) is s) = pmm s \<and>
    spaces (fold (\<lambda>i. set_table_ptr t i 0) is s) = spaces s \<and> phys (fold (\<lambda>i. set_table_ptr t i 0) is s) = phys s \<and>
    current_address_space (fold (\<lambda>i. set_table_ptr t i 0) is s) = current_address_space s \<and>
    cr3 (fold (\<lambda>i. set_table_ptr t i 0) is s) = cr3 s \<and> cr0 (fold (\<lambda>i. set_table_ptr t i 0) is s) = cr0 s" for "is"
    by (induction "is" arbitrary: s) (simp_all add: set_table_ptr_def)
  then show "heap (clear_table_ptrs t s) = heap s" "pmm (clear_table_ptrs t s) = pmm s"
    "spaces (clear_table_ptrs t s) = spaces s" "phys (clear_table_ptrs t s) = phys s"
    "current_address_space (clear_table_ptrs t s) = current_address_space s"
    "cr3 (clear_table_ptrs t s) = cr3 s"  "cr0 (clear_table_ptrs t s) = cr0 s"
    by (simp_all add: clear_table_ptrs_def)
qed

lemma clear_table_ptrs_ptr:
  "table_ptrs (clear_table_ptrs t s) u i = (if u = t \<and> i < 1024 then 0 else table_ptrs s u i)"
proof -
  have "table_ptrs (fold (\<lambda>i. set_table_ptr t i 0) is s) u i = (if u = t \<and> i \<in> set is then 0 else table_ptrs s u i)" for "is"
    by (induction "is" arbitrary: s) (auto simp: set_table_ptr_def)
  then show ?thesis by (simp add: clear_table_ptrs_def)
qed

section \<open>Boot\<close>

definition memory_init :: "layout \<Rightarrow> memory_map \<Rightarrow> kmem \<Rightarrow> kmem option" where
  "memory_init lay m s = do {
     p \<leftarrow> pmm_init (lk_kernel_start lay) (lk_kernel_end lay) m (pmm s);
     s \<leftarrow> paging_init lay (s\<lparr>pmm := p, heap := heap_init (heap s)\<rparr>);
     Some (vmm_init (address_space_init lay s))
   }"

lemma protect_pages:
  assumes "page_aligned t" "\<forall>i \<in> set is. i < 1024"
  shows "\<exists>s'. for_each (protect_page t) is s = Some s' \<and>
    heap s' = heap s \<and> pmm s' = pmm s \<and> cr0 s' = cr0 s \<and>
    (\<forall>q j. page_aligned q \<longrightarrow> j < 1024 \<longrightarrow> get_word q j s' =
      (if q = t \<and> j \<in> set is then get_word q j s AND NOT PAGE_WRITABLE else get_word q j s))"
  using assms(2)
proof (induction "is" arbitrary: s)
  case (Cons i "is")
  let ?s1 = "set_word t i (get_word t i s AND NOT PAGE_WRITABLE) s"
  have i: "i < 1024" and rest: "\<forall>i \<in> set is. i < 1024" using Cons.prems by simp_all
  obtain s' where s': "for_each (protect_page t) is ?s1 = Some s'" "heap s' = heap ?s1" "pmm s' = pmm ?s1" "cr0 s' = cr0 ?s1"
    "\<forall>q j. page_aligned q \<longrightarrow> j < 1024 \<longrightarrow> get_word q j s' =
      (if q = t \<and> j \<in> set is then get_word q j ?s1 AND NOT PAGE_WRITABLE else get_word q j ?s1)"
    using Cons.IH [OF rest, of ?s1] by blast
  have "(w AND NOT PAGE_WRITABLE) AND NOT PAGE_WRITABLE = w AND NOT PAGE_WRITABLE" for w
    by (simp add: and.assoc)
  then have words: "\<forall>q j. page_aligned q \<longrightarrow> j < 1024 \<longrightarrow> get_word q j s' =
      (if q = t \<and> j \<in> set (i # is) then get_word q j s AND NOT PAGE_WRITABLE else get_word q j s)"
    using s'(5) get_set_word [OF assms(1) _ i] by auto
  have "protect_page t i s = Some ?s1" using i by (simp only: protect_page_def if_True)
  then have run: "for_each (protect_page t) (i # is) s = Some s'" using s'(1) by simp
  have "heap s' = heap s \<and> pmm s' = pmm s \<and> cr0 s' = cr0 s" using s'(2-4) by simp
  then show ?case using run words by blast
qed simp

definition layout_ok :: "layout \<Rightarrow> bool" where
  "layout_ok lay \<longleftrightarrow> page_aligned (lk_first_page_table lay) \<and> page_aligned (lk_page_directory lay) \<and>
     lk_first_page_table lay \<noteq> lk_page_directory lay \<and> 4096 \<le> unat (lk_kernel_start lay) \<and>
     (\<forall>a \<in> {lk_first_page_table lay, lk_page_directory lay}.
        unat (lk_kernel_start lay) \<le> unat a \<and> unat a + 4096 \<le> unat (lk_kernel_end lay)) \<and>
     unat (lk_kernel_end lay) \<le> 0x400000"

definition kernel_page :: "layout \<Rightarrow> u32 \<Rightarrow> bool" where
  "kernel_page lay j \<longleftrightarrow> unat (lk_kernel_start lay) div 4096 \<le> unat j \<and> unat j < frames_up (unat (lk_kernel_end lay))"

lemma identity_entry:
  assumes "j < (1024 :: u32)"
  shows "page_aligned (j * 0x1000)"
    "((j * 0x1000) OR PAGE_PRESENT OR PAGE_WRITABLE) AND NOT PAGE_WRITABLE = (j * 0x1000) OR 1"
proof -
  have "unat j < 1024" using assms by (simp add: word_less_nat_alt)
  then show al: "page_aligned (j * 0x1000)" by (simp add: page_aligned_def unat_word_ariths)
  have "take_bit 12 (j * 0x1000) = 0"
    using al by (simp add: page_aligned_def word_unat_eq_iff unsigned_take_bit_eq take_bit_eq_mod unat_mod)
  then have "\<not> bit (j * 0x1000) 1"
    by (metis bit_take_bit_iff bit_0_eq bot_apply bot_bool_def one_less_numeral_iff semiring_norm(76))
  then have b1: "bit (j * 0x1000) n \<Longrightarrow> n \<noteq> 1" for n by auto
  have b2: "bit (2 :: u32) n \<Longrightarrow> n = 1" for n
    using bit_exp_iff [of 1 n, where ?'a = u32] by auto
  have "bit ((j * 0x1000) AND 2) n = bit (0 :: u32) n" for n
    using b1 [of n] b2 [of n] by (metis bit_and_iff bit_0_eq bot_apply bot_bool_def)
  then have z: "(j * 0x1000) AND 2 = 0" "(1 :: u32) AND 2 = 0"
    by (auto intro: bit_word_eqI)
  have "(x OR a OR c) AND NOT c = x OR a" if "x AND c = 0" "a AND c = 0" for x a c :: u32
  proof (rule bit_word_eqI)
    fix n :: nat assume "n < LENGTH(32)"
    have "\<not> (bit x n \<and> bit c n)" "\<not> (bit a n \<and> bit c n)"
      using that by (metis bit_and_iff bit_0_eq bot_apply bot_bool_def)+
    then show "bit ((x OR a OR c) AND NOT c) n = bit (x OR a) n"
      using \<open>n < LENGTH(32)\<close> by (auto simp: bit_and_iff bit_or_iff bit_not_iff)
  qed
  from this [OF z] show "((j * 0x1000) OR PAGE_PRESENT OR PAGE_WRITABLE) AND NOT PAGE_WRITABLE = (j * 0x1000) OR 1" .
qed

lemma paging_init_ok:
  assumes lay: "layout_ok lay"
  shows "\<exists>s'. paging_init lay s = Some s' \<and> heap s' = heap s \<and> pmm s' = pmm s \<and>
    cr3 s' = lk_page_directory lay \<and> cr0 s' = cr0 s OR 0x80000000 \<and>
    (\<forall>j < 1024. get_word (lk_first_page_table lay) j s' =
      (if j = 0 then 0 else (j * 0x1000) OR (if kernel_page lay j then 1 else 3))) \<and>
    (\<forall>j < 1024. get_word (lk_page_directory lay) j s' = (if j = 0 then lk_first_page_table lay OR 3 else 0))"
proof -
  let ?t = "lk_first_page_table lay" and ?d = "lk_page_directory lay"
  let ?a = "lk_kernel_start lay div 0x1000" and ?b = "(lk_kernel_end lay + 0xFFF) div 0x1000"
  have al: "page_aligned ?t" "page_aligned ?d" and ne: "?t \<noteq> ?d" "?d \<noteq> ?t" and ke: "unat (lk_kernel_end lay) \<le> 0x400000"
    using lay by (auto simp: layout_ok_def)
  let ?s1 = "set_words ?t (\<lambda>i. (i * 0x1000) OR PAGE_PRESENT OR PAGE_WRITABLE) (frames 0 1024) s"
  have b: "unat ?b = frames_up (unat (lk_kernel_end lay))" "unat ?b \<le> 1024"
    using ke by (simp_all add: unat_div frames_up_def)
  have a: "unat ?a = unat (lk_kernel_start lay) div 4096" by (simp add: unat_div)
  have range: "i \<in> set (frames ?a ?b) \<longleftrightarrow> kernel_page lay i" for i
    using frames_mem [of ?b i ?a] a b by (simp add: kernel_page_def word_le_nat_alt word_less_nat_alt)
  have "\<forall>i \<in> set (frames ?a ?b). i < 1024"
    using range b by (auto simp: kernel_page_def word_less_nat_alt)
  from protect_pages [OF al(1) this, of ?s1] obtain s2 where
    s2: "for_each (protect_page ?t) (frames ?a ?b) ?s1 = Some s2" "heap s2 = heap ?s1" "pmm s2 = pmm ?s1" "cr0 s2 = cr0 ?s1"
      "\<forall>q j. page_aligned q \<longrightarrow> j < 1024 \<longrightarrow> get_word q j s2 =
        (if q = ?t \<and> j \<in> set (frames ?a ?b) then get_word q j ?s1 AND NOT PAGE_WRITABLE else get_word q j ?s1)"
    by blast
  let ?s3 = "set_word ?d 0 (?t OR PAGE_PRESENT OR PAGE_WRITABLE) (set_word ?t 0 0 s2)"
  let ?s4 = "set_words ?d (\<lambda>_. 0) (frames 1 1024) ?s3"
  let ?s = "?s4\<lparr>cr3 := ?d, cr0 := cr0 ?s4 OR 0x80000000\<rparr>"
  have run: "paging_init lay s = Some ?s" using s2(1) by (simp add: paging_init_def Let_def)
  have w: "get_word q j ?s = get_word q j ?s4" for q j by (simp add: get_word_def)
  have "get_word ?t j ?s = (if j = 0 then 0 else (j * 0x1000) OR (if kernel_page lay j then 1 else 3))" if j: "j < 1024" for j
  proof -
    have "get_word ?t j ?s = (if j = 0 then 0 else get_word ?t j s2)"
      unfolding w using get_set_words_other [OF al(2,1) ne(1), of "frames 1 1024" j "\<lambda>_. 0" ?s3] j al ne
      by (simp add: get_set_word)
    moreover have "get_word ?t j ?s1 = (j * 0x1000) OR PAGE_PRESENT OR PAGE_WRITABLE"
      using get_set_words [OF al(1), of "frames 0 1024" j _ s] j by simp
    ultimately show ?thesis
      using s2(5) al(1) j range identity_entry(2) [OF j] by simp
  qed
  moreover have "get_word ?d j ?s = (if j = 0 then ?t OR 3 else 0)" if j: "j < 1024" for j
  proof -
    have "j = 0 \<or> 1 \<le> j" by (auto simp: word_le_nat_alt Suc_le_eq unat_gt_0)
    then show ?thesis
      unfolding w using get_set_words [OF al(2), of "frames 1 1024" j "\<lambda>_. 0" ?s3] j al ne
      by (auto simp: get_set_word)
  qed
  ultimately show ?thesis using run s2(2-4) by (intro exI [of _ ?s]) simp
qed

lemma low_address:
  assumes "directory_index v = 0"
  shows "table_index v * 0x1000 = v AND 0xFFFFF000" "table_index v = 0 \<longleftrightarrow> page_of v = 0"
proof -
  have ti: "table_index v = page_of v" using page_of_split [of v] assms by simp
  have "(0xFFFFF000 :: u32) = NOT (mask 12)" by (simp add: mask_numeral)
  then have m: "bit (v AND 0xFFFFF000) n \<longleftrightarrow> bit v n \<and> 12 \<le> n \<and> n < 32" for n
    by (simp only: bit_and_iff bit_not_iff bit_mask_iff) auto
  have "table_index v * 0x1000 = push_bit 12 (drop_bit 12 v)"
    by (simp add: ti page_of_def push_bit_eq_mult)
  also have "\<dots> = v AND 0xFFFFF000"
    by (rule bit_word_eqI) (auto simp: m bit_push_bit_iff bit_drop_bit_eq)
  finally show "table_index v * 0x1000 = v AND 0xFFFFF000" .
  show "table_index v = 0 \<longleftrightarrow> page_of v = 0" by (simp add: ti)
qed

text \<open>The state of the memory management after boot: only the kernel's space, with an identity mapping.\<close>

lemma vm_ok_initial:
  assumes lay: "layout_ok lay" and pm: "pmm_ok (pmm s)" and h: "heap_good (heap s)"
    and live: "lk_first_page_table lay \<in> frame_live (pmm s)" "lk_page_directory lay \<in> frame_live (pmm s)"
    and sp: "spaces s Static = \<lparr>page_directory = lk_page_directory lay, page_tables = Some Static\<rparr>"
    and tp: "\<forall>i < 1024. table_ptrs s Static i = (if i = 0 then lk_first_page_table lay else 0)"
    and d: "\<forall>j < 1024. get_word (lk_page_directory lay) j s = (if j = 0 then lk_first_page_table lay OR 3 else 0)"
  shows "vm_ok lay {Static} s"
proof -
  let ?t = "lk_first_page_table lay" and ?d = "lk_page_directory lay"
  have nz: "?t \<noteq> 0" "?d \<noteq> 0" "?t \<noteq> ?d" using lay by (auto simp: layout_ok_def)
  have m: "mapped ?t" "mapped ?d" using lay by (auto simp: layout_ok_def mapped_def word_less_nat_alt)
  have tab: "tab_of s Static = Static" by (simp add: tab_of_def sp)
  have slot: "slot_of {Static} x \<longleftrightarrow> x = Dir Static \<or> x = Boot \<or> (\<exists>i. x = Tab Static i \<and> 1 \<le> i \<and> i < 1024)" for x
    by (cases x) auto
  have fr: "slot_frame lay s (Dir Static) = ?d" "slot_frame lay s Boot = ?t"
    "1 \<le> i \<Longrightarrow> i < 1024 \<Longrightarrow> slot_frame lay s (Tab Static i) = 0" for i
    using tp by (auto simp: sp tab)
  have "owners_ok lay {Static} s"
    unfolding owners_ok_def slot using fr live m nz by (auto simp: sp)
  moreover have "entries_ok lay {Static} s"
    using tp d by (auto simp: entries_ok_def tab sp)
  moreover have "tables_ok {Static} s" by (simp add: tables_ok_def tab sp)
  ultimately show ?thesis using pm h by (simp add: vm_ok_def sp)
qed

lemma memory_init_boot:
  assumes lay: "layout_ok lay" and m: "\<forall>r \<in> set (known_regions m). region_end r \<le> 2 ^ 32"
    and big: "unat (lk_kernel_end lay) \<le> highest_end (known_regions m)"
  shows "\<exists>s'. memory_init lay m s = Some s' \<and> vm_ok lay {Static} s' \<and>
    current_address_space s' = Some Static \<and> cr3 s' = lk_page_directory lay \<and> cr0 s' = cr0 s OR 0x80000000 \<and>
    (\<forall>v. translate s' Static v = (if 0x1000 \<le> v \<and> v < 0x400000 then v AND 0xFFFFF000 else 0)) \<and>
    (\<forall>v. 0x1000 \<le> v \<and> v < 0x400000 \<longrightarrow>
      (entry_for s' Static v = ((v AND 0xFFFFF000) OR (if kernel_page lay (page_of v) then 1 else 3)))) \<and>
    unat (total_frames (pmm s')) = frames_up (highest_end (known_regions m)) \<and> heap s' = heap_init (heap s) \<and>
    (\<forall>f < unat (total_frames (pmm s')). frame_used (pmm s') f \<longleftrightarrow>
      f = 0 \<or> (unat (lk_kernel_start lay) div 4096 \<le> f \<and> f < frames_up (unat (lk_kernel_end lay))) \<or>
      \<not> (\<exists>r \<in> set (known_regions m). region_type r = 1 \<and> touches r f))"
proof -
  let ?t = "lk_first_page_table lay" and ?d = "lk_page_directory lay"
  obtain p where p: "pmm_init (lk_kernel_start lay) (lk_kernel_end lay) m (pmm s) = Some p" "pmm_ok p"
    "unat (total_frames p) = frames_up (highest_end (known_regions m))"
    "\<forall>f < unat (total_frames p). frame_used p f \<longleftrightarrow>
      f = 0 \<or> (unat (lk_kernel_start lay) div 4096 \<le> f \<and> f < frames_up (unat (lk_kernel_end lay))) \<or>
      \<not> (\<exists>r \<in> set (known_regions m). region_type r = 1 \<and> touches r f)"
  proof -
    have "unat (lk_kernel_start lay) \<le> unat (lk_kernel_end lay)" using lay by (auto simp: layout_ok_def)
    from pmm_init_ok [OF m this, of "pmm s"] that show thesis by blast
  qed
  let ?s0 = "s\<lparr>pmm := p, heap := heap_init (heap s)\<rparr>"
  obtain s1 where s1: "paging_init lay ?s0 = Some s1" "heap s1 = heap_init (heap s)" "pmm s1 = p"
    "cr3 s1 = ?d" "cr0 s1 = cr0 s OR 0x80000000"
    "\<And>j. j < 1024 \<Longrightarrow> get_word ?t j s1 = (if j = 0 then 0 else (j * 0x1000) OR (if kernel_page lay j then 1 else 3))"
    "\<And>j. j < 1024 \<Longrightarrow> get_word ?d j s1 = (if j = 0 then ?t OR 3 else 0)"
    using paging_init_ok [OF lay, of ?s0] by auto
  let ?s = "vmm_init (address_space_init lay s1)"
  have run: "memory_init lay m s = Some ?s" using p(1) s1(1) by (simp add: memory_init_def)
  have frame: "heap ?s = heap_init (heap s)" "pmm ?s = p" "cr3 ?s = ?d" "cr0 ?s = cr0 s OR 0x80000000"
    "phys ?s = phys s1" "current_address_space ?s = Some Static"
    using s1(2-5) by (simp_all add: vmm_init_def address_space_init_def Let_def set_directory_def set_tables_def
        set_table_ptr_def)
  have sp: "spaces ?s Static = \<lparr>page_directory = ?d, page_tables = Some Static\<rparr>"
    by (simp add: vmm_init_def address_space_init_def Let_def set_directory_def set_tables_def
        set_table_ptr_def paging_get_directory_def)
  have tp: "table_ptrs ?s Static i = (if i = 0 then ?t else 0)" if "i < 1024" for i
    using that by (simp add: vmm_init_def address_space_init_def Let_def set_table_ptr_def
        paging_get_first_table_def clear_table_ptrs_ptr)
  have w: "get_word q j ?s = get_word q j s1" for q j using frame(5) by (simp add: get_word_def)
  have live: "a \<in> frame_live p" if "a \<in> {?t, ?d}" for a
  proof -
    have a: "unat a mod 4096 = 0" "unat (lk_kernel_start lay) \<le> unat a" "unat a + 4096 \<le> unat (lk_kernel_end lay)"
      "unat (lk_kernel_end lay) \<le> 0x400000" "4096 \<le> unat a"
      using that lay by (auto simp: layout_ok_def page_aligned_def)
    obtain f where f: "f = unat a div 4096" by simp
    have fa: "unat a = f * 4096" using a(1) f by auto
    then have "f < MAX_FRAMES" "a = frame_addr f" "0 < f"
      using a(3,4,5) unat_frame_addr [of f] by (auto simp: word_unat_eq_iff)
    moreover have "f < frames_up (unat (lk_kernel_end lay))" using a(3) fa by (simp add: frames_up_def)
    moreover have "frames_up (unat (lk_kernel_end lay)) \<le> unat (total_frames p)"
      using big p(3) by (simp add: frames_up_def div_le_mono)
    moreover have "unat (lk_kernel_start lay) div 4096 \<le> f" using a(2) f by (simp add: div_le_mono)
    ultimately show ?thesis using frame_live_mem [OF p(2)] p(4) by simp
  qed
  have ok: "vm_ok lay {Static} ?s"
  proof (rule vm_ok_initial [OF lay])
    show "heap_good (heap ?s)" using frame(1) by (auto simp: heap_good_def heap_ok_def heap_init_def intro: exI [of _ "[]"])
  qed (use frame p(2) live sp tp w s1(7) in auto)
  have tf: "table_for ?s Static i = (if i = 0 then ?t else 0)" if "i < 1024" for i
    using tp [OF that] sp by (simp add: table_for_def tab_of_def)
  have al: "page_aligned ?t" "?t \<noteq> 0" using lay by (auto simp: layout_ok_def)
  have low: "directory_index v = 0 \<longleftrightarrow> v < 0x400000" "page_of v = 0 \<longleftrightarrow> v < 0x1000" for v
    by (simp_all add: directory_index_def page_of_def word_less_nat_alt word_unat_eq_iff drop_bit_eq_div unat_div
        div_eq_0_iff)
  have entry: "entry_for ?s Static v =
      (if page_of v = 0 then 0 else (v AND 0xFFFFF000) OR (if kernel_page lay (page_of v) then 1 else 3))"
    if v: "directory_index v = 0" for v
  proof -
    have ti: "page_of v = table_index v" using page_of_split [of v] v by simp
    have "table_for ?s Static (directory_index v) = ?t" using tf [OF directory_index_less, of v] v by simp
    then have "entry_for ?s Static v = get_word ?t (table_index v) s1" by (simp only: entry_for_def w)
    also have "\<dots> = (if table_index v = 0 then 0
        else (table_index v * 0x1000) OR (if kernel_page lay (table_index v) then 1 else 3))"
      by (rule s1(6) [OF table_index_less])
    finally show ?thesis unfolding low_address(1) [OF v] ti .
  qed
  have trans: "translate ?s Static v = (if 0x1000 \<le> v \<and> v < 0x400000 then v AND 0xFFFFF000 else 0)" for v
  proof (cases "directory_index v = 0")
    case True
    have "page_aligned (v AND 0xFFFFF000)"
      using identity_entry(1) [OF table_index_less, of v] low_address [OF True] by simp
    from low_bits [OF this, of 1] low_bits [OF this, of 3]
    show ?thesis using entry [OF True] tf [OF directory_index_less, of v] True low [of v] al(2)
      by (auto simp: translate_def not_less)
  next
    case False
    then show ?thesis using tf [OF directory_index_less, of v] low(1) [of v] by (simp add: translate_def)
  qed
  have "entry_for ?s Static v = ((v AND 0xFFFFF000) OR (if kernel_page lay (page_of v) then 1 else 3))"
    if "0x1000 \<le> v \<and> v < 0x400000" for v
    using entry [of v] low [of v] that by (auto simp: not_less)
  moreover have "unat (total_frames (pmm ?s)) = frames_up (highest_end (known_regions m))"
    unfolding frame(2) by (rule p(3))
  moreover note p(4) [folded frame(2)]
  ultimately show ?thesis using run ok frame trans by blast
qed

end
