(* ===== verification/SpaceLife.thy ===== *)
theory SpaceLife
  imports SpaceProps
begin

text \<open>
  Creating and destroying address spaces: a new space shares only the table of the first 4 MiB, its
  frames and its heap block are fresh, and destroying it returns exactly them. Mapping pages in one
  space is invisible in every other.
\<close>

section \<open>A new space\<close>

text \<open>The state after \<open>address_space_create\<close> has filled the frame \<open>as\<close>, the block \<open>blk\<close> and the directory \<open>dir\<close>.\<close>

definition add_space :: "layout \<Rightarrow> u32 \<Rightarrow> u32 \<Rightarrow> u32 \<Rightarrow> heap_t \<Rightarrow> pmm_t \<Rightarrow> kmem \<Rightarrow> kmem" where
  "add_space lay as blk dir h p s =
     (let s1 = clear_table_ptrs (Dyn blk) (set_tables (Dyn as) (Some (Dyn blk)) (s\<lparr>heap := h\<rparr>));
          s2 = set_words dir (\<lambda>_. 0) (frames 0 1024) (s1\<lparr>pmm := p\<rparr>);
          s3 = set_word dir 0 (get_word (lk_page_directory lay) 0 s2) s2
      in set_directory (Dyn as) dir (set_table_ptr (Dyn blk) 0 (lk_first_page_table lay) s3))"

lemma add_space_frame [simp]:
  "heap (add_space lay as blk dir h p s) = h" "pmm (add_space lay as blk dir h p s) = p"
  "current_address_space (add_space lay as blk dir h p s) = current_address_space s"
  "spaces (add_space lay as blk dir h p s) =
     (spaces s)(Dyn as := \<lparr>page_directory = dir, page_tables = Some (Dyn blk)\<rparr>)"
proof -
  show "spaces (add_space lay as blk dir h p s) =
     (spaces s)(Dyn as := \<lparr>page_directory = dir, page_tables = Some (Dyn blk)\<rparr>)"
    by (rule ext) (auto simp: add_space_def Let_def set_directory_def set_tables_def set_table_ptr_def
        intro: address_space_t.equality)
qed (simp_all add: add_space_def Let_def set_directory_def set_tables_def set_table_ptr_def)

lemma add_space_ptr:
  assumes "i < 1024"
  shows "table_ptrs (add_space lay as blk dir h p s) t i =
    (if t = Dyn blk then (if i = 0 then lk_first_page_table lay else 0) else table_ptrs s t i)"
  using assms by (simp add: add_space_def Let_def set_directory_def set_tables_def set_table_ptr_def
      clear_table_ptrs_ptr)

lemma add_space_word:
  assumes "page_aligned dir" "page_aligned q" "page_aligned (lk_page_directory lay)" "lk_page_directory lay \<noteq> dir" "j < 1024"
  shows "get_word q j (add_space lay as blk dir h p s) =
    (if q = dir then (if j = 0 then get_word (lk_page_directory lay) 0 s else 0) else get_word q j s)"
proof -
  let ?s1 = "(clear_table_ptrs (Dyn blk) (set_tables (Dyn as) (Some (Dyn blk)) (s\<lparr>heap := h\<rparr>)))\<lparr>pmm := p\<rparr>"
  let ?s2 = "set_words dir (\<lambda>_. 0) (frames 0 1024) ?s1"
  have "get_word q j (add_space lay as blk dir h p s) =
      get_word q j (set_word dir 0 (get_word (lk_page_directory lay) 0 ?s2) ?s2)"
    by (simp add: add_space_def Let_def set_directory_def set_table_ptr_def get_word_def)
  moreover have "get_word x k ?s1 = get_word x k s" for x k by (simp add: get_word_def set_tables_def)
  ultimately show ?thesis
    using get_set_words [OF assms(1), of "frames 0 1024" j "\<lambda>_. 0" ?s1] assms
      get_set_words_other [OF assms(1,2), of "frames 0 1024" j "\<lambda>_. 0" ?s1]
      get_set_words_other [OF assms(1,3,4), of "frames 0 1024" 0 "\<lambda>_. 0" ?s1]
    by (simp add: get_set_word)
qed

text \<open>What the three allocations of a creation provide.\<close>

definition fresh_parts :: "kmem \<Rightarrow> u32 \<Rightarrow> u32 \<Rightarrow> u32 \<Rightarrow> heap_t \<Rightarrow> pmm_t \<Rightarrow> bool" where
  "fresh_parts s as blk dir h p \<longleftrightarrow>
     pmm_ok p \<and> heap_good h \<and> as \<noteq> dir \<and> as \<noteq> 0 \<and> dir \<noteq> 0 \<and> mapped as \<and> mapped dir \<and>
     as \<notin> frame_live (pmm s) \<and> dir \<notin> frame_live (pmm s) \<and>
     frame_live p = insert dir (insert as (frame_live (pmm s))) \<and>
     blk \<notin> heap_live (heap s) \<and> heap_live h = insert blk (heap_live (heap s))"

lemma fresh_space:
  assumes "vm_ok lay R s" "fresh_parts s as blk dir h p"
  shows "Dyn as \<notin> R"
proof
  assume "Dyn as \<in> R"
  then have "as \<in> frame_live (pmm s)"
    using vm_ok_slot(1) [OF assms(1), of "Struct as"] assms(2) by (simp add: fresh_parts_def)
  then show False using assms(2) by (simp add: fresh_parts_def)
qed

lemma add_space_tab:
  assumes "vm_ok lay R s" "fresh_parts s as blk dir h p" "r \<in> R"
  shows "tab_of (add_space lay as blk dir h p s) r = tab_of s r" "tab_of s r \<noteq> Dyn blk"
    "tab_of (add_space lay as blk dir h p s) (Dyn as) = Dyn blk"
proof -
  have "r \<noteq> Dyn as" using fresh_space [OF assms(1,2)] assms(3) by auto
  then show "tab_of (add_space lay as blk dir h p s) r = tab_of s r" by (simp add: tab_of_def)
  show "tab_of s r \<noteq> Dyn blk" using assms by (auto simp: vm_ok_def tables_ok_def fresh_parts_def)
  show "tab_of (add_space lay as blk dir h p s) (Dyn as) = Dyn blk" by (simp add: tab_of_def)
qed

lemma add_space_slot:
  assumes "vm_ok lay R s" "fresh_parts s as blk dir h p" "slot_of (insert (Dyn as) R) x"
  shows "slot_frame lay (add_space lay as blk dir h p s) x =
    (if x = Struct as then as else if x = Dir (Dyn as) then dir
     else if (\<exists>i. x = Tab (Dyn as) i) then 0 else slot_frame lay s x)"
    "x = Struct as \<or> x = Dir (Dyn as) \<or> (\<exists>i. x = Tab (Dyn as) i) \<or> slot_of R x"
proof -
  note fresh = fresh_space [OF assms(1,2)] and t = add_space_tab [OF assms(1,2)]
  have tab: "tab_of (add_space lay as blk dir h p s) (Dyn as) = Dyn blk" by (simp add: tab_of_def)
  show "x = Struct as \<or> x = Dir (Dyn as) \<or> (\<exists>i. x = Tab (Dyn as) i) \<or> slot_of R x"
    using assms(3) by (cases x) auto
  show "slot_frame lay (add_space lay as blk dir h p s) x =
    (if x = Struct as then as else if x = Dir (Dyn as) then dir
     else if (\<exists>i. x = Tab (Dyn as) i) then 0 else slot_frame lay s x)"
  proof (cases x)
    case (Tab r i)
    then have r: "r = Dyn as \<or> r \<in> R" and i: "i < 1024" "1 \<le> i" using assms(3) by auto
    from i(2) have "i \<noteq> 0" by auto
    with r show ?thesis using Tab i tab t(1,2) fresh by (auto simp: add_space_ptr)
  qed auto
qed

lemma add_space_ok:
  assumes ok: "vm_ok lay R s" and fr: "fresh_parts s as blk dir h p"
  shows "vm_ok lay (insert (Dyn as) R) (add_space lay as blk dir h p s)"
proof -
  let ?s = "add_space lay as blk dir h p s" and ?R = "insert (Dyn as) R"
  note fresh = fresh_space [OF ok fr] and t = add_space_tab [OF ok fr] and sl = add_space_slot [OF ok fr]
  have S: "Static \<in> R" "page_directory (spaces s Static) = lk_page_directory lay" using ok by (simp_all add: vm_ok_def)
  have p: "pmm_ok p" using fr by (simp add: fresh_parts_def)
  have dal: "page_aligned dir" using fr frame_live_aligned [OF p, of dir] by (simp add: fresh_parts_def)
  have kal: "page_aligned (lk_page_directory lay)" "lk_page_directory lay \<noteq> dir"
    using vm_ok_dir(3,4) [OF ok S(1)] S(2) fr by (auto simp: fresh_parts_def)
  have tab: "tab_of ?s (Dyn as) = Dyn blk" by (simp add: tab_of_def)
  have "tables_ok ?R ?s"
  proof -
    have "inj_on (tab_of ?s) ?R"
    proof -
      have "inj_on (tab_of s) R" using ok by (simp add: vm_ok_def tables_ok_def)
      then have "inj_on (tab_of ?s) R" using t(1) by (simp add: inj_on_def)
      moreover have "tab_of ?s (Dyn as) \<notin> tab_of ?s ` (R - {Dyn as})"
      proof
        assume "tab_of ?s (Dyn as) \<in> tab_of ?s ` (R - {Dyn as})"
        then obtain r where "r \<in> R" "tab_of ?s r = Dyn blk" unfolding tab by (metis DiffE imageE)
        then show False using t(1,2) [of r] by simp
      qed
      ultimately show ?thesis by (simp add: inj_on_insert)
    qed
    moreover have "page_tables (spaces ?s r) \<noteq> None \<and> (tab_of ?s r = Static \<longleftrightarrow> r = Static) \<and>
        (\<forall>q. tab_of ?s r = Dyn q \<longrightarrow> q \<in> heap_live h)" if "r \<in> ?R" for r
      using that ok fr t(1) tab fresh by (auto simp: vm_ok_def tables_ok_def fresh_parts_def)
    ultimately show ?thesis by (simp add: tables_ok_def)
  qed
  moreover have "owners_ok lay ?R ?s"
    unfolding owners_ok_def
  proof (intro conjI allI impI)
    fix x assume "slot_of ?R x \<and> slot_frame lay ?s x \<noteq> 0"
    then show "slot_frame lay ?s x \<in> frame_live (pmm ?s)" "mapped (slot_frame lay ?s x)"
      using sl [of x] vm_ok_slot(1,2) [OF ok, of x] fr by (auto simp: fresh_parts_def split: if_splits)
  next
    fix x y
    assume a: "slot_of ?R x \<and> slot_of ?R y \<and> slot_frame lay ?s x = slot_frame lay ?s y \<and> slot_frame lay ?s x \<noteq> 0"
    have old: "slot_frame lay s z \<noteq> as" "slot_frame lay s z \<noteq> dir" if "slot_of R z" "slot_frame lay s z \<noteq> 0" for z
      using vm_ok_slot(1) [OF ok that] fr by (auto simp: fresh_parts_def)
    have kind: "z = Struct as \<and> slot_frame lay ?s z = as \<or> z = Dir (Dyn as) \<and> slot_frame lay ?s z = dir \<or>
        slot_of R z \<and> slot_frame lay ?s z = slot_frame lay s z \<and> slot_frame lay ?s z \<noteq> as \<and> slot_frame lay ?s z \<noteq> dir"
      if "slot_of ?R z" "slot_frame lay ?s z \<noteq> 0" for z
      using sl [OF that(1)] old [of z] that(2) by (simp split: if_splits)
    have ne: "as \<noteq> dir" using fr by (simp add: fresh_parts_def)
    show "x = y"
      using kind [of x] kind [of y] a ne vm_ok_owner [OF ok, of x y] by metis
  next
    show "\<forall>r \<in> ?R. page_directory (spaces ?s r) \<noteq> 0 \<and> r \<noteq> Dyn 0" "lk_first_page_table lay \<noteq> 0"
      using ok fr by (auto simp: vm_ok_def owners_ok_def fresh_parts_def)
  qed
  moreover have "entries_ok lay ?R ?s"
    unfolding entries_ok_def
  proof (intro ballI)
    fix r assume r: "r \<in> ?R"
    have k: "get_word (lk_page_directory lay) 0 s = lk_first_page_table lay OR 3"
      using ok S by (auto simp: vm_ok_def entries_ok_def)
    show "table_ptrs ?s (tab_of ?s r) 0 = lk_first_page_table lay \<and>
     get_word (page_directory (spaces ?s r)) 0 ?s = lk_first_page_table lay OR 3 \<and>
     (\<forall>i. 1 \<le> i \<and> i < 1024 \<longrightarrow> get_word (page_directory (spaces ?s r)) i ?s =
        (let t = table_ptrs ?s (tab_of ?s r) i in if t = 0 then 0 else t OR 7))"
    proof (cases "r = Dyn as")
      case True
      then show ?thesis using tab k by (auto simp: add_space_ptr add_space_word [OF dal dal kal])
    next
      case False
      then have rR: "r \<in> R" using r by simp
      have d: "page_directory (spaces s r) \<noteq> dir" using vm_ok_dir(4) [OF ok rR] fr by (auto simp: fresh_parts_def)
      have "table_ptrs s (tab_of s r) 0 = lk_first_page_table lay"
        "get_word (page_directory (spaces s r)) 0 s = lk_first_page_table lay OR 3"
        "\<forall>i. 1 \<le> i \<and> i < 1024 \<longrightarrow> get_word (page_directory (spaces s r)) i s =
          (let t = table_ptrs s (tab_of s r) i in if t = 0 then 0 else t OR 7)"
        using ok rR by (simp_all add: vm_ok_def entries_ok_def)
      then show ?thesis
        using False d t(1,2) [OF rR] by (simp add: add_space_ptr add_space_word [OF dal vm_ok_dir(3) [OF ok rR] kal])
    qed
  qed
  ultimately show ?thesis using S fr fresh by (auto simp: vm_ok_def fresh_parts_def)
qed

lemma add_space_translate:
  assumes ok: "vm_ok lay R s" and fr: "fresh_parts s as blk dir h p"
  shows "r \<in> R \<Longrightarrow> translate (add_space lay as blk dir h p s) r v = translate s r v"
    "translate (add_space lay as blk dir h p s) (Dyn as) v = (if directory_index v = 0 then translate s Static v else 0)"
proof -
  let ?s = "add_space lay as blk dir h p s"
  note t = add_space_tab [OF ok fr]
  have p: "pmm_ok p" using fr by (simp add: fresh_parts_def)
  have dal: "page_aligned dir" using fr frame_live_aligned [OF p, of dir] by (simp add: fresh_parts_def)
  have S: "Static \<in> R" "page_directory (spaces s Static) = lk_page_directory lay" using ok by (simp_all add: vm_ok_def)
  have kal: "page_aligned (lk_page_directory lay)" "lk_page_directory lay \<noteq> dir"
    using vm_ok_dir(3,4) [OF ok S(1)] S(2) fr by (auto simp: fresh_parts_def)
  have keep: "get_word q j ?s = get_word q j s" if "q \<in> frame_live (pmm s)" "j < 1024" for q j
  proof -
    have "page_aligned q" using ok that(1) frame_live_aligned by (auto simp: vm_ok_def)
    moreover have "q \<noteq> dir" using that(1) fr by (auto simp: fresh_parts_def)
    ultimately show ?thesis using add_space_word [OF dal _ kal that(2)] by simp
  qed
  have old: "translate ?s r v = translate s r v" if r: "r \<in> R" for r
  proof -
    have tf: "table_for ?s r (directory_index v) = table_for s r (directory_index v)"
      using t(1,2) [OF r] by (simp add: table_for_def add_space_ptr)
    then show ?thesis
      using keep [OF vm_ok_table(3) [OF ok r directory_index_less] table_index_less, of v v]
      by (auto simp: translate_def entry_for_def)
  qed
  then show "r \<in> R \<Longrightarrow> translate ?s r v = translate s r v" .
  show "translate ?s (Dyn as) v = (if directory_index v = 0 then translate s Static v else 0)"
  proof (cases "directory_index v = 0")
    case True
    have "table_for ?s (Dyn as) 0 = lk_first_page_table lay"
      by (simp add: table_for_def tab_of_def add_space_ptr)
    moreover have "table_for ?s Static 0 = lk_first_page_table lay"
      using add_space_ok [OF ok fr] S(1) by (simp add: vm_ok_def entries_ok_def table_for_def)
    ultimately have "translate ?s (Dyn as) v = translate ?s Static v"
      using True by (simp add: translate_def entry_for_def)
    then show ?thesis using True old [OF S(1)] by simp
  next
    case False
    have "table_for ?s (Dyn as) (directory_index v) = 0"
      using False by (simp add: table_for_def tab_of_def add_space_ptr)
    then show ?thesis using False by (simp add: translate_def)
  qed
qed

section \<open>Creation\<close>

lemma vm_ok_frame:
  assumes ok: "vm_ok lay R s" and st: "pmm_ok (pmm s')" "heap_good (heap s')" "phys s' = phys s"
    and R': "R' \<subseteq> R" "Static \<in> R'" and sp: "\<And>r. r \<in> R' \<Longrightarrow> spaces s' r = spaces s r"
    and tp: "\<And>r i. r \<in> R' \<Longrightarrow> i < 1024 \<Longrightarrow> table_ptrs s' (tab_of s r) i = table_ptrs s (tab_of s r) i"
    and fl: "\<And>x. slot_of R' x \<Longrightarrow> slot_frame lay s x \<noteq> 0 \<Longrightarrow> slot_frame lay s x \<in> frame_live (pmm s')"
    and hl: "\<And>r q. r \<in> R' \<Longrightarrow> tab_of s r = Dyn q \<Longrightarrow> q \<in> heap_live (heap s')"
  shows "vm_ok lay R' s'" "r \<in> R' \<Longrightarrow> translate s' r v = translate s r v"
proof -
  have tab: "tab_of s' r = tab_of s r" if "r \<in> R'" for r using sp [OF that] by (simp add: tab_of_def)
  have slot: "slot_of R x \<and> slot_frame lay s' x = slot_frame lay s x" if "slot_of R' x" for x
  proof (cases x)
    case (Tab r i)
    then show ?thesis using that R'(1) tab [of r] tp [of r i] by auto
  qed (use that R'(1) sp in auto)
  have w: "get_word q j s' = get_word q j s" for q j using st(3) by (simp add: get_word_def)
  have "tables_ok R' s'"
    unfolding tables_ok_def
  proof (intro conjI ballI allI impI)
    show "inj_on (tab_of s') R'"
      using ok R'(1) tab unfolding vm_ok_def tables_ok_def inj_on_def by (metis subsetD)
  qed (use ok R'(1) tab sp hl in \<open>auto simp: vm_ok_def tables_ok_def\<close>)
  moreover have "owners_ok lay R' s'"
    unfolding owners_ok_def
  proof (intro conjI allI impI)
    fix x assume x: "slot_of R' x \<and> slot_frame lay s' x \<noteq> 0"
    then show "slot_frame lay s' x \<in> frame_live (pmm s')" "mapped (slot_frame lay s' x)"
      using slot [of x] fl [of x] vm_ok_slot(2) [OF ok, of x] by simp_all
  next
    fix x y assume a: "slot_of R' x \<and> slot_of R' y \<and> slot_frame lay s' x = slot_frame lay s' y \<and> slot_frame lay s' x \<noteq> 0"
    then show "x = y" using slot [of x] slot [of y] vm_ok_owner [OF ok, of x y] by metis
  qed (use ok R'(1) sp in \<open>auto simp: vm_ok_def owners_ok_def\<close>)
  moreover have "entries_ok lay R' s'"
    using ok R'(1) sp tp tab by (auto simp: vm_ok_def entries_ok_def w subset_iff)
  ultimately show "vm_ok lay R' s'"
    using ok st R' sp by (auto simp: vm_ok_def)
  show "translate s' r v = translate s r v" if "r \<in> R'"
    using tab [OF that] tp [OF that directory_index_less, of v]
    by (simp add: translate_def entry_for_def table_for_def w)
qed

lemma frame_free_live:
  assumes "pmm_ok (pmm s)" "t \<in> frame_live (pmm s)"
  shows "\<exists>p. free_frame t s = Some (s\<lparr>pmm := p\<rparr>) \<and> pmm_ok p \<and> frame_live p = frame_live (pmm s) - {t}"
  using frame.free_live [OF assms] by (auto simp: free_frame_def)

lemma heap_block_4096:
  assumes "heap_good h"
  shows "(\<exists>h'. kmalloc 4096 h = Some (None, h') \<and> heap_good h' \<and> heap_live h' = heap_live h) \<or>
    (\<exists>b h'. kmalloc 4096 h = Some (Some b, h') \<and> heap_good h' \<and> b \<notin> heap_live h \<and>
      heap_live h' = insert b (heap_live h) \<and> heap_good (kfree (Some b) h') \<and> heap_live (kfree (Some b) h') = heap_live h)"
proof -
  obtain r h' where a: "kmalloc 4096 h = Some (r, h')"
    using heap.alloc_returns [OF assms, of 4096] by auto
  show ?thesis
  proof (cases r)
    case None
    then show ?thesis using heap.alloc_none [OF assms, of 4096 h'] a by auto
  next
    case (Some b)
    then have b: "b \<notin> heap_live h" "heap_live h' = insert b (heap_live h)" "heap_good h'"
      using heap.alloc_some [OF assms, of 4096 b h'] a by auto
    then have "heap_good (kfree (Some b) h')" "heap_live (kfree (Some b) h') = heap_live h"
      using heap.free_live [OF b(3), of b] by auto
    then show ?thesis using Some a b by blast
  qed
qed

lemma clear_table_ptrs_pmm:
  "clear_table_ptrs t (s\<lparr>pmm := p\<rparr>) = (clear_table_ptrs t s)\<lparr>pmm := p\<rparr>"
proof -
  have one: "set_table_ptr t i 0 (s\<lparr>pmm := p\<rparr>) = (set_table_ptr t i 0 s)\<lparr>pmm := p\<rparr>" for i s
    by (simp add: set_table_ptr_def)
  have "fold (\<lambda>i. set_table_ptr t i 0) is (s\<lparr>pmm := p\<rparr>) = (fold (\<lambda>i. set_table_ptr t i 0) is s)\<lparr>pmm := p\<rparr>" for "is"
    by (induction "is" arbitrary: s) (simp_all add: one)
  then show ?thesis by (simp add: clear_table_ptrs_def)
qed

lemma create_run:
  assumes "pmm_alloc_frame (pmm s) = Some (Some as, p1)" "mapped as"
    and "kmalloc 4096 (heap s) = Some (Some blk, h)" "pmm_alloc_frame p1 = Some (Some dir, p2)" "mapped dir"
  shows "address_space_create lay s = Some (Some (Dyn as), add_space lay as blk dir h p2 s)"
  using assms
  by (simp add: address_space_create_def lift_pmm_def lift_heap_def Let_def add_space_def
      paging_get_directory_def paging_get_first_table_def clear_table_ptrs_pmm [symmetric] set_tables_def)

lemma create_outcome:
  assumes ok: "vm_ok lay R s" and low: "low_frames 2 (pmm s)"
  shows "\<exists>res s'. address_space_create lay s = Some (res, s') \<and>
    current_address_space s' = current_address_space s \<and>
    (case res of
       None \<Rightarrow> vm_ok lay R s' \<and> frame_live (pmm s') = frame_live (pmm s) \<and> heap_live (heap s') = heap_live (heap s) \<and>
         (\<forall>r \<in> R. \<forall>v. translate s' r v = translate s r v) \<and> (\<forall>r \<in> R. spaces s' r = spaces s r)
     | Some r \<Rightarrow> \<exists>as blk dir. r = Dyn as \<and> fresh_parts s as blk dir (heap s') (pmm s') \<and>
         s' = add_space lay as blk dir (heap s') (pmm s') s)"
proof -
  have pm: "pmm_ok (pmm s)" and hg: "heap_good (heap s)" and S: "Static \<in> R" using ok by (simp_all add: vm_ok_def)
  have same: "vm_ok lay R s' \<and> frame_live (pmm s') = frame_live (pmm s) \<and> heap_live (heap s') = heap_live (heap s) \<and>
      (\<forall>r \<in> R. \<forall>v. translate s' r v = translate s r v) \<and> (\<forall>r \<in> R. spaces s' r = spaces s r)"
    if s': "pmm_ok (pmm s')" "heap_good (heap s')" "phys s' = phys s" "\<And>r. r \<in> R \<Longrightarrow> spaces s' r = spaces s r"
      "\<And>r i. r \<in> R \<Longrightarrow> table_ptrs s' (tab_of s r) i = table_ptrs s (tab_of s r) i"
      "frame_live (pmm s') = frame_live (pmm s)" "heap_live (heap s') = heap_live (heap s)" for s'
  proof -
    have "slot_of R x \<Longrightarrow> slot_frame lay s x \<noteq> 0 \<Longrightarrow> slot_frame lay s x \<in> frame_live (pmm s')" for x
      using vm_ok_slot(1) [OF ok] s'(6) by simp
    moreover have "r \<in> R \<Longrightarrow> tab_of s r = Dyn q \<Longrightarrow> q \<in> heap_live (heap s')" for r q
      using ok s'(7) by (auto simp: vm_ok_def tables_ok_def)
    ultimately show ?thesis using vm_ok_frame [OF ok s'(1-3) subset_refl S s'(4,5)] s'(4,6,7) by blast
  qed
  have low2: "low_frames (Suc (Suc 0)) (pmm s)" using low by (simp add: numeral_2_eq_2)
  from alloc_low [OF pm low2] show ?thesis
  proof (elim disjE exE conjE)
    assume "pmm_alloc_frame (pmm s) = Some (None, pmm s)"
    then have "address_space_create lay s =
        Some (None, say ''address_space_create: FAILED to allocate frame for address space.'' s)"
      by (simp add: address_space_create_def lift_pmm_def)
    moreover have "vm_ok lay R (say m s) \<and> frame_live (pmm (say m s)) = frame_live (pmm s) \<and>
        heap_live (heap (say m s)) = heap_live (heap s) \<and> (\<forall>r \<in> R. \<forall>v. translate (say m s) r v = translate s r v) \<and> (\<forall>r \<in> R. spaces (say m s) r = spaces s r)" for m
      by (rule same) (simp_all add: say_def pm hg)
    ultimately show ?thesis by (auto simp: say_def)
  next
    fix as p1
    assume a: "pmm_alloc_frame (pmm s) = Some (Some as, p1)" "mapped as" "low_frames (Suc 0) p1"
    note as = frame_alloc_some [OF pm a(1)]
    have asR: "Dyn as \<notin> R" using vm_ok_slot(1) [OF ok, of "Struct as"] as(1,4) by auto
    let ?k = "say ''address_space_create: memory allocation failed.''"
    from heap_block_4096 [OF hg] show ?thesis
    proof (elim disjE exE conjE)
      fix h assume h: "kmalloc 4096 (heap s) = Some (None, h)" "heap_good h" "heap_live h = heap_live (heap s)"
      let ?s1 = "?k (set_tables (Dyn as) None (s\<lparr>pmm := p1, heap := h\<rparr>))"
      have "pmm ?s1 = p1" by (simp add: say_def set_tables_def)
      then obtain p2 where p2: "free_frame as ?s1 = Some (?s1\<lparr>pmm := p2\<rparr>)" "pmm_ok p2" "frame_live p2 = frame_live (pmm s)"
        using frame_free_live [of ?s1 as] as by auto
      have "address_space_create lay s = Some (None, ?s1\<lparr>pmm := p2\<rparr>)"
        using a(1,2) h(1) p2(1) by (simp add: address_space_create_def lift_pmm_def lift_heap_def Let_def)
      moreover have "vm_ok lay R (?s1\<lparr>pmm := p2\<rparr>) \<and> frame_live (pmm (?s1\<lparr>pmm := p2\<rparr>)) = frame_live (pmm s) \<and>
          heap_live (heap (?s1\<lparr>pmm := p2\<rparr>)) = heap_live (heap s) \<and>
          (\<forall>r \<in> R. \<forall>v. translate (?s1\<lparr>pmm := p2\<rparr>) r v = translate s r v) \<and> (\<forall>r \<in> R. spaces (?s1\<lparr>pmm := p2\<rparr>) r = spaces s r)"
        by (rule same) (use asR p2 h in \<open>auto simp: say_def set_tables_def\<close>)
      ultimately show ?thesis by (auto simp: say_def set_tables_def)
    next
      fix blk h
      assume h: "kmalloc 4096 (heap s) = Some (Some blk, h)" "heap_good h" "blk \<notin> heap_live (heap s)"
        "heap_live h = insert blk (heap_live (heap s))" "heap_good (kfree (Some blk) h)"
        "heap_live (kfree (Some blk) h) = heap_live (heap s)"
      have tabs: "tab_of s r \<noteq> Dyn blk" if "r \<in> R" for r
        using that ok h(3) by (auto simp: vm_ok_def tables_ok_def)
      let ?s1 = "clear_table_ptrs (Dyn blk) (set_tables (Dyn as) (Some (Dyn blk)) (s\<lparr>pmm := p1, heap := h\<rparr>))"
      have f1: "pmm ?s1 = p1" "heap ?s1 = h" by (simp_all add: set_tables_def)
      from alloc_low [OF as(3) a(3)] show ?thesis
      proof (elim disjE exE conjE)
        assume d: "pmm_alloc_frame p1 = Some (None, p1)"
        let ?s2 = "(say ''address_space_create: page directory frame FAILED.'' (?s1\<lparr>pmm := p1\<rparr>))\<lparr>heap := kfree (Some blk) h\<rparr>"
        have "pmm ?s2 = p1" by (simp add: say_def)
        then obtain p2 where p2: "free_frame as ?s2 = Some (?s2\<lparr>pmm := p2\<rparr>)" "pmm_ok p2" "frame_live p2 = frame_live (pmm s)"
          using frame_free_live [of ?s2 as] as by auto
        have run: "address_space_create lay s = Some (None, ?s2\<lparr>pmm := p2\<rparr>)"
          using a(1,2) h(1) d p2(1) f1
          by (simp add: address_space_create_def lift_pmm_def lift_heap_def Let_def free_tables_def say_def)
        have "vm_ok lay R (?s2\<lparr>pmm := p2\<rparr>) \<and> frame_live (pmm (?s2\<lparr>pmm := p2\<rparr>)) = frame_live (pmm s) \<and>
            heap_live (heap (?s2\<lparr>pmm := p2\<rparr>)) = heap_live (heap s) \<and>
            (\<forall>r \<in> R. \<forall>v. translate (?s2\<lparr>pmm := p2\<rparr>) r v = translate s r v) \<and> (\<forall>r \<in> R. spaces (?s2\<lparr>pmm := p2\<rparr>) r = spaces s r)"
          by (rule same) (use asR p2 h tabs in \<open>auto simp: say_def set_tables_def clear_table_ptrs_ptr\<close>)
        then show ?thesis using run by (auto simp: say_def set_tables_def)
      next
        fix dir p2
        assume d: "pmm_alloc_frame p1 = Some (Some dir, p2)" "mapped dir" "low_frames 0 p2"
        note dir = frame_alloc_some [OF as(3) d(1)]
        note run = create_run [OF a(1,2) h(1) d(1,2), of lay]
        have "fresh_parts s as blk dir h p2"
          using as dir h a(2) d(2) by (auto simp: fresh_parts_def)
        then show ?thesis using run by (auto simp: exI)
      qed
    qed
  qed
qed

section \<open>Destruction\<close>

lemma distinct_frames: "distinct (frames a b)"
proof -
  have "inj_on (of_nat :: nat \<Rightarrow> u32) (set [unat a..<unat b])"
  proof (rule inj_onI)
    fix x y assume r: "x \<in> set [unat a..<unat b]" "y \<in> set [unat a..<unat b]" and e: "(of_nat x :: u32) = of_nat y"
    have "x < 4294967296" "y < 4294967296" using r unat_u32_less [of b] by auto
    then have "unat (of_nat x :: u32) = x" "unat (of_nat y :: u32) = y" by (simp_all add: unat_of_nat)
    then show "x = y" using e by metis
  qed
  then show ?thesis by (simp add: frames_def distinct_map)
qed

lemma free_tables_loop:
  assumes "pmm_ok (pmm s)" "distinct is"
    and "\<And>i. i \<in> set is \<Longrightarrow> table_ptrs s t i \<noteq> 0 \<Longrightarrow> table_ptrs s t i \<in> frame_live (pmm s)"
    and "\<And>i j. i \<in> set is \<Longrightarrow> j \<in> set is \<Longrightarrow> table_ptrs s t i = table_ptrs s t j \<Longrightarrow> table_ptrs s t i \<noteq> 0 \<Longrightarrow> i = j"
  shows "\<exists>p tp. for_each (free_table_at t) is s = Some (s\<lparr>pmm := p, table_ptrs := tp\<rparr>) \<and> pmm_ok p \<and>
    frame_live p = frame_live (pmm s) - (table_ptrs s t ` set is - {0}) \<and> (\<forall>u. u \<noteq> t \<longrightarrow> tp u = table_ptrs s u)"
  using assms
proof (induction "is" arbitrary: s)
  case Nil
  then show ?case by (intro exI [of _ "pmm s"] exI [of _ "table_ptrs s"]) simp
next
  case (Cons i "is")
  let ?w = "table_ptrs s t i"
  show ?case
  proof (cases "?w = 0")
    case True
    obtain p tp where "for_each (free_table_at t) is s = Some (s\<lparr>pmm := p, table_ptrs := tp\<rparr>)" "pmm_ok p"
      "frame_live p = frame_live (pmm s) - (table_ptrs s t ` set is - {0})" "\<forall>u. u \<noteq> t \<longrightarrow> tp u = table_ptrs s u"
      using Cons.IH [OF Cons.prems(1)] Cons.prems by (metis distinct.simps(2) list.set_intros(2))
    moreover have "free_table_at t i s = Some s" using True by (simp add: free_table_at_def)
    ultimately show ?thesis using True by auto
  next
    case False
    then have "?w \<in> frame_live (pmm s)" using Cons.prems(3) by simp
    then obtain p1 where p1: "free_frame ?w s = Some (s\<lparr>pmm := p1\<rparr>)" "pmm_ok p1" "frame_live p1 = frame_live (pmm s) - {?w}"
      using frame_free_live [OF Cons.prems(1)] by blast
    let ?s1 = "set_table_ptr t i 0 (s\<lparr>pmm := p1\<rparr>)"
    have run: "free_table_at t i s = Some ?s1" using p1(1) False by (simp add: free_table_at_def)
    have ptr: "table_ptrs ?s1 t j = table_ptrs s t j" "pmm ?s1 = p1" if "j \<in> set is" for j
      using that Cons.prems(2) by (auto simp: set_table_ptr_def)
    have "\<exists>p tp. for_each (free_table_at t) is ?s1 = Some (?s1\<lparr>pmm := p, table_ptrs := tp\<rparr>) \<and> pmm_ok p \<and>
      frame_live p = frame_live (pmm ?s1) - (table_ptrs ?s1 t ` set is - {0}) \<and> (\<forall>u. u \<noteq> t \<longrightarrow> tp u = table_ptrs ?s1 u)"
    proof (rule Cons.IH)
      show "pmm_ok (pmm ?s1)" using p1(2) by (simp add: set_table_ptr_def)
      show "distinct is" using Cons.prems(2) by simp
    next
      fix j assume j: "j \<in> set is" "table_ptrs ?s1 t j \<noteq> 0"
      have "table_ptrs s t j \<noteq> ?w"
        using Cons.prems(4) [of j i] Cons.prems(2) j ptr(1) by auto
      then show "table_ptrs ?s1 t j \<in> frame_live (pmm ?s1)"
        using Cons.prems(3) [of j] j ptr p1(3) by simp
    next
      fix j k assume "j \<in> set is" "k \<in> set is" "table_ptrs ?s1 t j = table_ptrs ?s1 t k" "table_ptrs ?s1 t j \<noteq> 0"
      then show "j = k" using Cons.prems(4) [of j k] ptr(1) by simp
    qed
    then obtain p tp where r: "for_each (free_table_at t) is ?s1 = Some (?s1\<lparr>pmm := p, table_ptrs := tp\<rparr>)" "pmm_ok p"
      "frame_live p = frame_live (pmm ?s1) - (table_ptrs ?s1 t ` set is - {0})" "\<forall>u. u \<noteq> t \<longrightarrow> tp u = table_ptrs ?s1 u"
      by blast
    have pm1: "pmm ?s1 = p1" by (simp add: set_table_ptr_def)
    have im: "table_ptrs ?s1 t ` set is = table_ptrs s t ` set is" using ptr(1) by (intro image_cong) auto
    have "frame_live p = frame_live (pmm s) - (table_ptrs s t ` set (i # is) - {0})"
      using r(3) p1(3) False unfolding im pm1 by auto
    moreover have "for_each (free_table_at t) (i # is) s = Some (s\<lparr>pmm := p, table_ptrs := tp\<rparr>)"
      using run r(1) by (simp add: set_table_ptr_def)
    moreover have "\<forall>u. u \<noteq> t \<longrightarrow> tp u = table_ptrs s u" using r(4) by (simp add: set_table_ptr_def)
    ultimately show ?thesis using r(2) by blast
  qed
qed

text \<open>The frames a space owns: those of its struct, its directory, and its tables other than the shared one.\<close>

definition owned_frames :: "u32 \<Rightarrow> kmem \<Rightarrow> u32 set" where
  "owned_frames as s = {as, page_directory (spaces s (Dyn as))} \<union>
     (table_for s (Dyn as) ` {i. 1 \<le> i \<and> i < 1024} - {0})"

lemma owned_frames_slot:
  assumes ok: "vm_ok lay R s" and a: "Dyn as \<in> R"
  shows "f \<in> owned_frames as s \<longleftrightarrow> f \<noteq> 0 \<and>
    (\<exists>x. slot_of R x \<and> slot_frame lay s x = f \<and> (x = Struct as \<or> x = Dir (Dyn as) \<or> (\<exists>i. x = Tab (Dyn as) i)))"
proof -
  have nz: "as \<noteq> 0" "page_directory (spaces s (Dyn as)) \<noteq> 0"
    using ok a by (auto simp: vm_ok_def owners_ok_def)
  have s: "slot_of R (Struct as)" "slot_of R (Dir (Dyn as))" "slot_of R (Tab (Dyn as) i) \<longleftrightarrow> 1 \<le> i \<and> i < 1024" for i
    using a by simp_all
  show ?thesis
  proof
    assume "f \<in> owned_frames as s"
    then consider "f = as" | "f = page_directory (spaces s (Dyn as))"
      | i where "f = table_for s (Dyn as) i" "1 \<le> i" "i < 1024" "f \<noteq> 0"
      by (auto simp: owned_frames_def)
    then show "f \<noteq> 0 \<and> (\<exists>x. slot_of R x \<and> slot_frame lay s x = f \<and>
        (x = Struct as \<or> x = Dir (Dyn as) \<or> (\<exists>i. x = Tab (Dyn as) i)))"
    proof cases
      case 1
      then show ?thesis using nz s by (intro conjI exI [of _ "Struct as"]) auto
    next
      case 2
      then show ?thesis using nz s by (intro conjI exI [of _ "Dir (Dyn as)"]) auto
    next
      case (3 i)
      then show ?thesis using s by (intro conjI exI [of _ "Tab (Dyn as) i"]) (auto simp: table_for_def)
    qed
  qed (use s in \<open>auto simp: owned_frames_def table_for_def\<close>)
qed

lemma destroy_ok:
  assumes ok: "vm_ok lay R s" and a: "Dyn as \<in> R" and cur: "current_address_space s \<noteq> Some (Dyn as)"
    and blk: "tab_of s (Dyn as) = Dyn blk"
  shows "\<exists>s'. address_space_destroy (Some (Dyn as)) s = Some s' \<and> vm_ok lay (R - {Dyn as}) s' \<and>
    current_address_space s' = current_address_space s \<and>
    frame_live (pmm s') = frame_live (pmm s) - owned_frames as s \<and>
    heap_live (heap s') = heap_live (heap s) - {blk} \<and>
    (\<forall>r \<in> R - {Dyn as}. \<forall>v. translate s' r v = translate s r v) \<and>
    (\<forall>r \<in> R - {Dyn as}. spaces s' r = spaces s r \<and> (\<forall>i. table_for s' r i = table_for s r i))"
proof -
  let ?d = "page_directory (spaces s (Dyn as))" and ?t = "Dyn blk"
  have pm: "pmm_ok (pmm s)" and hg: "heap_good (heap s)" and S: "Static \<in> R" using ok by (simp_all add: vm_ok_def)
  have pt: "page_tables (spaces s (Dyn as)) = Some ?t"
    using ok a blk by (auto simp: vm_ok_def tables_ok_def tab_of_def)
  have hb: "blk \<in> heap_live (heap s)" using ok a blk by (auto simp: vm_ok_def tables_ok_def)
  have m: "mapped as" using vm_ok_reach [OF ok a] by (simp add: reachable_ref_def)
  have d: "?d \<noteq> 0" "?d \<in> frame_live (pmm s)" using vm_ok_dir [OF ok a] by simp_all
  have as: "as \<noteq> 0" "as \<in> frame_live (pmm s)"
    using vm_ok_slot(1) [OF ok, of "Struct as"] ok a by (auto simp: vm_ok_def owners_ok_def)
  have dne: "?d \<noteq> as" using vm_ok_owner [OF ok, of "Dir (Dyn as)" "Struct as"] a d(1) by auto
  have tab: "slot_of R (Tab (Dyn as) i)" "slot_frame lay s (Tab (Dyn as) i) = table_ptrs s ?t i"
    if "i \<in> set (frames 1 1024)" for i using that a blk by simp_all
  have tl: "table_ptrs s ?t i \<in> frame_live (pmm s)" "table_ptrs s ?t i \<noteq> ?d" "table_ptrs s ?t i \<noteq> as"
    if "i \<in> set (frames 1 1024)" "table_ptrs s ?t i \<noteq> 0" for i
    using vm_ok_slot(1) [OF ok tab(1) [OF that(1)]] vm_ok_owner [OF ok tab(1) [OF that(1)], of "Dir (Dyn as)"]
      vm_ok_owner [OF ok tab(1) [OF that(1)], of "Struct as"] tab(2) [OF that(1)] that(2) a by auto
  have "\<exists>p tp. for_each (free_table_at ?t) (frames 1 1024) s = Some (s\<lparr>pmm := p, table_ptrs := tp\<rparr>) \<and> pmm_ok p \<and>
    frame_live p = frame_live (pmm s) - (table_ptrs s ?t ` set (frames 1 1024) - {0}) \<and>
    (\<forall>u. u \<noteq> ?t \<longrightarrow> tp u = table_ptrs s u)"
  proof (rule free_tables_loop [OF pm distinct_frames])
    fix i j assume "i \<in> set (frames 1 1024)" "j \<in> set (frames 1 1024)" "table_ptrs s ?t i = table_ptrs s ?t j" "table_ptrs s ?t i \<noteq> 0"
    then show "i = j" using vm_ok_owner [OF ok tab(1) tab(1), of i j] tab(2) by auto
  qed (use tl(1) in blast)
  then obtain p1 tp where l: "for_each (free_table_at ?t) (frames 1 1024) s = Some (s\<lparr>pmm := p1, table_ptrs := tp\<rparr>)"
    "pmm_ok p1" "frame_live p1 = frame_live (pmm s) - (table_ptrs s ?t ` set (frames 1 1024) - {0})"
    "\<And>u. u \<noteq> ?t \<Longrightarrow> tp u = table_ptrs s u" by blast
  have not_table: "f \<notin> table_ptrs s ?t ` set (frames 1 1024) - {0}"
    if "\<And>i. i \<in> set (frames 1 1024) \<Longrightarrow> table_ptrs s ?t i \<noteq> 0 \<Longrightarrow> table_ptrs s ?t i \<noteq> f" for f
  proof
    assume "f \<in> table_ptrs s ?t ` set (frames 1 1024) - {0}"
    then obtain i where "i \<in> set (frames 1 1024)" "f = table_ptrs s ?t i" "table_ptrs s ?t i \<noteq> 0" by blast
    with that show False by metis
  qed
  let ?h = "kfree (Some blk) (heap s)"
  have h: "heap_good ?h" "heap_live ?h = heap_live (heap s) - {blk}"
    using heap.free_live [OF hg hb] by auto
  let ?s1 = "set_tables (Dyn as) None (s\<lparr>pmm := p1, table_ptrs := tp, heap := ?h\<rparr>)"
  have "pmm ?s1 = p1" by (simp add: set_tables_def)
  moreover have "?d \<in> frame_live p1" unfolding l(3) using d(2) not_table [OF tl(2)] by (simp only: Diff_iff) simp
  ultimately obtain p2 where p2: "free_frame ?d ?s1 = Some (?s1\<lparr>pmm := p2\<rparr>)" "pmm_ok p2" "frame_live p2 = frame_live p1 - {?d}"
    using frame_free_live [of ?s1 ?d] l(2) by auto
  let ?s2 = "set_directory (Dyn as) 0 (?s1\<lparr>pmm := p2\<rparr>)"
  have "pmm ?s2 = p2" by (simp add: set_directory_def)
  moreover have "as \<in> frame_live p2"
    unfolding p2(3) l(3) using as(2) dne not_table [OF tl(3)] by (simp only: Diff_iff) simp
  ultimately obtain p3 where p3: "free_frame as ?s2 = Some (?s2\<lparr>pmm := p3\<rparr>)" "pmm_ok p3" "frame_live p3 = frame_live p2 - {as}"
    using frame_free_live [of ?s2 as] p2(2) by auto
  let ?s = "?s2\<lparr>pmm := p3\<rparr>"
  have run: "address_space_destroy (Some (Dyn as)) s = Some ?s"
    using not_sym [OF cur] m pt l(1) p2(1) p3(1) d(1)
    by (simp add: address_space_destroy_def free_tables_def set_tables_def set_directory_def)
  have f: "pmm ?s = p3" "heap ?s = ?h" "phys ?s = phys s" "table_ptrs ?s = tp"
    "current_address_space ?s = current_address_space s" "\<And>r. r \<noteq> Dyn as \<Longrightarrow> spaces ?s r = spaces s r"
    by (simp_all add: set_tables_def set_directory_def)
  have "{i. 1 \<le> i \<and> i < (1024 :: u32)} = set (frames 1 1024)" by auto
  then have own: "frame_live p3 = frame_live (pmm s) - owned_frames as s"
    using p3(3) p2(3) l(3) blk by (auto simp: owned_frames_def table_for_def)
  have tabs: "tab_of s r \<noteq> ?t" if "r \<in> R - {Dyn as}" for r
    using tab_of_inj [OF ok, of r "Dyn as"] that a blk by auto
  have R': "R - {Dyn as} \<subseteq> R" "Static \<in> R - {Dyn as}" using S by auto
  have fl': "slot_frame lay s x \<in> frame_live (pmm ?s)" if x: "slot_of (R - {Dyn as}) x" "slot_frame lay s x \<noteq> 0" for x
  proof -
    have xR: "slot_of R x" and no: "\<not> (x = Struct as \<or> x = Dir (Dyn as) \<or> (\<exists>i. x = Tab (Dyn as) i))"
      using x(1) by (cases x; auto)+
    have "slot_frame lay s x \<notin> owned_frames as s"
      using owned_frames_slot [OF ok a, of "slot_frame lay s x"] vm_ok_owner [OF ok xR] x(2) no by metis
    then show ?thesis using vm_ok_slot(1) [OF ok xR x(2)] own f(1) by simp
  qed
  have hl': "q \<in> heap_live (heap ?s)" if "r \<in> R - {Dyn as}" "tab_of s r = Dyn q" for r q
  proof -
    have "q \<in> heap_live (heap s)" using that ok by (auto simp: vm_ok_def tables_ok_def)
    moreover have "q \<noteq> blk" using tabs [OF that(1)] that(2) by auto
    ultimately show ?thesis unfolding f(2) h(2) by simp
  qed
  have sp': "spaces ?s r = spaces s r" if "r \<in> R - {Dyn as}" for r using f(6) [of r] that by blast
  have tp': "table_ptrs ?s (tab_of s r) i = table_ptrs s (tab_of s r) i" if "r \<in> R - {Dyn as}" "i < 1024" for r i
    unfolding f(4) l(4) [OF tabs [OF that(1)]] ..
  have st: "pmm_ok (pmm ?s)" "heap_good (heap ?s)" unfolding f(1,2) using p3(2) h(1) by simp_all
  note kept = vm_ok_frame [OF ok st f(3) R' sp' tp' fl' hl']
  have "vm_ok lay (R - {Dyn as}) ?s" by (rule kept(1))
  moreover have "\<forall>r \<in> R - {Dyn as}. \<forall>v. translate ?s r v = translate s r v"
    by (intro ballI allI, rule kept(2))
  moreover have "frame_live (pmm ?s) = frame_live (pmm s) - owned_frames as s" unfolding f(1) by (rule own)
  moreover have "heap_live (heap ?s) = heap_live (heap s) - {blk}" unfolding f(2) by (rule h(2))
  moreover have "\<forall>r \<in> R - {Dyn as}. spaces ?s r = spaces s r \<and> (\<forall>i. table_for ?s r i = table_for s r i)"
  proof
    fix r assume r: "r \<in> R - {Dyn as}"
    have "tab_of ?s r = tab_of s r" using sp' [OF r] by (simp add: tab_of_def)
    then show "spaces ?s r = spaces s r \<and> (\<forall>i. table_for ?s r i = table_for s r i)"
      using sp' [OF r] f(4) l(4) [OF tabs [OF r]] by (simp add: table_for_def)
  qed
  ultimately show ?thesis using run f(5) by blast
qed

end
