(* ===== verification/SpaceThms.thy ===== *)
theory SpaceThms
  imports SpaceLife
begin

text \<open>
  The theorems on the life and the isolation of address spaces, and a concrete state of the memory
  management, after boot, at which the theorems on paging are applied.
\<close>

section \<open>A machine\<close>

definition demo_layout :: layout where
  "demo_layout = \<lparr>lk_kernel_start = 0x2000, lk_kernel_end = 0x6000, lk_page_directory = 0x3000,
     lk_first_page_table = 0x4000\<rparr>"

definition demo_ram :: memory_map where
  "demo_ram = \<lparr>memory_regions = [\<lparr>region_base = 0, region_length = 0x10000, region_type = 1\<rparr>], memory_region_count = 1\<rparr>"

definition cold_mem :: kmem where
  "cold_mem = \<lparr>heap = demo_heap, pmm = no_frames, phys = (\<lambda>_. 0),
     spaces = (\<lambda>_. \<lparr>page_directory = 0, page_tables = None\<rparr>), table_ptrs = (\<lambda>_ _. 0),
     current_address_space = None, cr0 = 0, cr3 = 0, invalidated = [], messages = []\<rparr>"

lemma demo_layout_ok: "layout_ok demo_layout"
  by (simp add: layout_ok_def demo_layout_def page_aligned_def)

lemma demo_ram_regions: "known_regions demo_ram = [\<lparr>region_base = 0, region_length = 0x10000, region_type = 1\<rparr>]"
  by (simp add: known_regions_def demo_ram_def)

lemma demo_ram_end: "highest_end (known_regions demo_ram) = 65536" "\<forall>r \<in> set (known_regions demo_ram). region_end r \<le> 2 ^ 32"
  unfolding demo_ram_regions by (simp_all add: highest_end_def region_end_def)

text \<open>C21. After boot on a memory map within 4 GiB the kernel runs with paging on, in an address space that satisfies
  the invariant of the memory management, and that maps exactly the pages of the first 4 MiB other than
  page 0, each to itself; the pages of the kernel image are mapped read-only.\<close>

theorem memory_init_identity:
  assumes "layout_ok lay" "\<forall>r \<in> set (known_regions m). region_end r \<le> 2 ^ 32"
    and "unat (lk_kernel_end lay) \<le> highest_end (known_regions m)"
  shows "\<exists>s'. memory_init lay m s = Some s' \<and> vm_ok lay {Static} s' \<and>
    current_address_space s' = Some Static \<and> cr3 s' = lk_page_directory lay \<and> cr0 s' = cr0 s OR 0x80000000 \<and>
    (\<forall>v. translate s' Static v = (if 0x1000 \<le> v \<and> v < 0x400000 then v AND 0xFFFFF000 else 0)) \<and>
    (\<forall>v. 0x1000 \<le> v \<and> v < 0x400000 \<longrightarrow>
      (entry_for s' Static v = ((v AND 0xFFFFF000) OR (if kernel_page lay (page_of v) then 1 else 3))))"
  using memory_init_boot [OF assms, of s] by blast

theorem memory_init_identity_witness:
  "\<exists>s'. memory_init demo_layout demo_ram cold_mem = Some s' \<and> vm_ok demo_layout {Static} s' \<and>
     translate s' Static 0x5123 = 0x5000 \<and> translate s' Static 0x123 = 0 \<and> translate s' Static 0x400000 = 0"
  using memory_init_identity [OF demo_layout_ok demo_ram_end(2), of cold_mem] demo_ram_end(1)
  by (auto simp: demo_layout_def)

text \<open>The booted machine.\<close>

lemma booted:
  obtains s where "memory_init demo_layout demo_ram cold_mem = Some s" "vm_ok demo_layout {Static} s"
    "current_address_space s = Some Static" "cr3 s = 0x3000" "unat (total_frames (pmm s)) = 16"
    "page_directory (spaces s Static) = 0x3000"
    "\<And>v. translate s Static v = (if 0x1000 \<le> v \<and> v < 0x400000 then v AND 0xFFFFF000 else 0)"
    "heap_ok (heap s) []" "\<And>f. f < 16 \<Longrightarrow> frame_used (pmm s) f \<longleftrightarrow> f = 0 \<or> 2 \<le> f \<and> f < 6"
proof -
  have e: "unat (lk_kernel_end demo_layout) \<le> highest_end (known_regions demo_ram)"
    unfolding demo_ram_end(1) by (simp add: demo_layout_def)
  obtain s where s: "memory_init demo_layout demo_ram cold_mem = Some s" "vm_ok demo_layout {Static} s"
    "current_address_space s = Some Static" "cr3 s = lk_page_directory demo_layout"
    "\<And>v. translate s Static v = (if 0x1000 \<le> v \<and> v < 0x400000 then v AND 0xFFFFF000 else 0)"
    "unat (total_frames (pmm s)) = frames_up (highest_end (known_regions demo_ram))"
    "heap s = heap_init (heap cold_mem)"
    "\<forall>f < unat (total_frames (pmm s)). frame_used (pmm s) f \<longleftrightarrow>
      f = 0 \<or> (unat (lk_kernel_start demo_layout) div 4096 \<le> f \<and> f < frames_up (unat (lk_kernel_end demo_layout))) \<or>
      \<not> (\<exists>r \<in> set (known_regions demo_ram). region_type r = 1 \<and> touches r f)"
    using memory_init_boot [OF demo_layout_ok demo_ram_end(2) e, of cold_mem] by metis
  have "unat (total_frames (pmm s)) = 16" using s(6) unfolding demo_ram_end(1) by (simp add: frames_up_def)
  moreover have "page_directory (spaces s Static) = 0x3000" using s(2) by (simp add: vm_ok_def demo_layout_def)
  moreover have "heap_ok (heap s) []" unfolding s(7) by (simp add: heap_ok_def heap_init_def)
  moreover have "frame_used (pmm s) f \<longleftrightarrow> f = 0 \<or> 2 \<le> f \<and> f < 6" if "f < 16" for f
    using s(8) that calculation(1) unfolding demo_ram_regions
    by (auto simp: demo_layout_def frames_up_def touches_def region_end_def)
  ultimately show thesis using that s(1-5) by (simp add: demo_layout_def)
qed

lemma low_frames_small: "unat (total_frames s) \<le> 1024 \<Longrightarrow> low_frames n s"
  unfolding low_frames_def free_list_def by (auto dest!: in_set_takeD)

lemma first_free_small: "unat (total_frames s) \<le> 1024 \<Longrightarrow> first_free s = Some f \<Longrightarrow> f < 1024"
  using first_free_Some [of s f] by auto

section \<open>Mapping\<close>

text \<open>C22. Mapping a page of the user half of the address space changes the translation of that page in the current
  space to the given frame and no other translation, in this space or any other; the invariant is kept. When a
  page table is missing and no frame is left, nothing changes. The lowest free frame, where there is one, lies
  below 4 MiB.\<close>

theorem vmm_map_page_maps:
  assumes ok: "vm_ok lay R s" and r: "r \<in> R" and cur: "current_address_space s = Some r"
    and v: "vmm_is_user_address v" and fl: "unat flags < 4096" "flags AND PAGE_PRESENT \<noteq> 0"
    and low: "\<forall>f. first_free (pmm s) = Some f \<longrightarrow> f < 1024"
  shows "\<exists>s'. vmm_map_page v p flags s = Some s' \<and> vm_ok lay R s' \<and>
    current_address_space s' = Some r \<and> spaces s' = spaces s \<and>
    (\<forall>r' \<in> R. \<forall>v'. translate s' r' v' =
      (if r' = r \<and> page_of v' = page_of v \<and>
          \<not> (table_for s r (directory_index v) = 0 \<and> first_free (pmm s) = None)
       then p AND 0xFFFFF000 else translate s r' v'))"
  by (rule map_page_ok [OF assms])

theorem vmm_map_page_maps_witness:
  "\<exists>s s'. vm_ok demo_layout {Static} s \<and> vmm_map_page 0x400123 0x9000 7 s = Some s' \<and>
     translate s' Static 0x400FFF = 0x9000 \<and> translate s' Static 0x401000 = 0"
proof -
  obtain s where s: "vm_ok demo_layout {Static} s" "current_address_space s = Some Static"
    "unat (total_frames (pmm s)) = 16"
    "\<And>v. translate s Static v = (if 0x1000 \<le> v \<and> v < 0x400000 then v AND 0xFFFFF000 else 0)"
    "\<And>f. f < 16 \<Longrightarrow> frame_used (pmm s) f \<longleftrightarrow> f = 0 \<or> 2 \<le> f \<and> f < 6"
    using booted by metis
  have "first_free (pmm s) \<noteq> None" using s(3) s(5) [of 1] by (auto simp: first_free_None intro: exI [of _ 1])
  then show ?thesis
    using vmm_map_page_maps [OF s(1) _ s(2), of "0x400123" 7 "0x9000"] s first_free_small [of "pmm s"]
    by (auto simp: vmm_is_user_address_def page_of_def)
qed

theorem vmm_get_physical_is_walk_witness:
  "\<exists>s. vmm_get_physical_address 0x5123 s = Some 0x5000 \<and> mmu_walk (phys s) 0x3000 0x5123 \<noteq> None"
proof -
  obtain s where s: "vm_ok demo_layout {Static} s" "current_address_space s = Some Static" "cr3 s = 0x3000"
    "page_directory (spaces s Static) = 0x3000"
    "\<And>v. translate s Static v = (if 0x1000 \<le> v \<and> v < 0x400000 then v AND 0xFFFFF000 else 0)"
    using booted by metis
  have "vmm_get_physical_address 0x5123 s = Some 0x5000"
    using vmm_get_physical_ok [OF s(1) _ s(2)] s(5) by simp
  then show ?thesis
    using vmm_get_physical_is_walk [OF s(1) _ s(2), of "0x5123"] s(3,4) by (auto split: option.splits)
qed

theorem vmm_unmap_page_shared_witness:
  "\<exists>s s'. vmm_unmap_page 0x5000 s = Some s' \<and> translate s Static 0x5000 = 0x5000 \<and> translate s' Static 0x5000 = 0"
proof -
  obtain s where s: "vm_ok demo_layout {Static} s" "current_address_space s = Some Static"
    "\<And>v. translate s Static v = (if 0x1000 \<le> v \<and> v < 0x400000 then v AND 0xFFFFF000 else 0)"
    using booted by metis
  have "translate s Static 0x5000 = 0x5000" using s(3) [of "0x5000"] by simp
  moreover obtain s' where "vmm_unmap_page 0x5000 s = Some s'" "translate s' Static 0x5000 = 0"
    using vmm_unmap_page_shared [OF s(1) _ s(2), of "0x5000"] by (auto simp: directory_index_def)
  ultimately show ?thesis by blast
qed

section \<open>Life and isolation\<close>

lemma owned_new:
  assumes "vm_ok lay R s" "fresh_parts s as blk dir h p"
  shows "owned_frames as (add_space lay as blk dir h p s) = {as, dir}"
proof -
  have "table_for (add_space lay as blk dir h p s) (Dyn as) i = 0" if "1 \<le> i" "i < 1024" for i
    using that by (auto simp: table_for_def tab_of_def add_space_ptr)
  then show ?thesis by (auto simp: owned_frames_def)
qed

text \<open>C20. Creating an address space either fails and leaves frames, heap blocks and translations as they were, or
  returns a new space that keeps the invariant, shares the first 4 MiB with the kernel's space, maps nothing
  else, and changes no other translation. Destroying it again returns exactly the frames and the heap block
  that were taken. The two lowest free frames, where there are any, lie below 4 MiB.\<close>

theorem address_space_create_destroy:
  assumes ok: "vm_ok lay R s" and low: "low_frames 2 (pmm s)"
    and cur: "\<And>r. current_address_space s = Some r \<Longrightarrow> r \<in> R"
  shows "\<exists>res s'. address_space_create lay s = Some (res, s') \<and>
    (case res of
       None \<Rightarrow> vm_ok lay R s' \<and> frame_live (pmm s') = frame_live (pmm s) \<and> heap_live (heap s') = heap_live (heap s) \<and>
         (\<forall>r \<in> R. \<forall>v. translate s' r v = translate s r v)
     | Some r \<Rightarrow> r \<notin> R \<and> vm_ok lay (insert r R) s' \<and>
         (\<forall>v. translate s' r v = (if directory_index v = 0 then translate s Static v else 0)) \<and>
         (\<forall>q \<in> R. \<forall>v. translate s' q v = translate s q v) \<and>
         (\<exists>s''. address_space_destroy (Some r) s' = Some s'' \<and> vm_ok lay R s'' \<and>
           frame_live (pmm s'') = frame_live (pmm s) \<and> heap_live (heap s'') = heap_live (heap s)))"
proof -
  obtain res s' where c: "address_space_create lay s = Some (res, s')"
    "current_address_space s' = current_address_space s"
    "case res of
       None \<Rightarrow> vm_ok lay R s' \<and> frame_live (pmm s') = frame_live (pmm s) \<and> heap_live (heap s') = heap_live (heap s) \<and>
         (\<forall>r \<in> R. \<forall>v. translate s' r v = translate s r v) \<and>
         (\<forall>r \<in> R. spaces s' r = spaces s r)
     | Some r \<Rightarrow> \<exists>as blk dir. r = Dyn as \<and> fresh_parts s as blk dir (heap s') (pmm s') \<and>
         s' = add_space lay as blk dir (heap s') (pmm s') s"
    using create_outcome [OF ok low] by blast
  show ?thesis
  proof (cases res)
    case None
    then show ?thesis using c by auto
  next
    case (Some r)
    then obtain as blk dir h p where r: "r = Dyn as" and fr: "fresh_parts s as blk dir h p"
      and s': "s' = add_space lay as blk dir h p s" and hp: "heap s' = h" "pmm s' = p" using c(3) by auto
    note new = add_space_ok [OF ok fr, folded s'] and tr = add_space_translate [OF ok fr, folded s']
      and out = fresh_space [OF ok fr] and own = owned_new [OF ok fr, folded s']
    have nc: "current_address_space s' \<noteq> Some (Dyn as)" using cur [of "Dyn as"] out c(2) by auto
    have "tab_of s' (Dyn as) = Dyn blk" unfolding s' by (simp add: tab_of_def)
    from destroy_ok [OF new insertI1 nc this] obtain s'' where
      d: "address_space_destroy (Some (Dyn as)) s' = Some s''" "vm_ok lay (insert (Dyn as) R - {Dyn as}) s''"
        "frame_live (pmm s'') = frame_live (pmm s') - owned_frames as s'" "heap_live (heap s'') = heap_live (heap s') - {blk}"
      by blast
    note d = d(1,2) d(3) [unfolded own] d(4)
    have "frame_live (pmm s'') = frame_live (pmm s)" "heap_live (heap s'') = heap_live (heap s)"
      using d(3,4) fr unfolding hp by (auto simp: fresh_parts_def)
    moreover have "insert (Dyn as) R - {Dyn as} = R" using out by auto
    ultimately show ?thesis using c(1) Some r new tr out d(1,2) by auto
  qed
qed

lemma activate_ok:
  assumes "vm_ok lay R s" "r \<in> R"
  shows "\<exists>s'. address_space_activate (Some r) s = Some s' \<and> vm_ok lay R s' \<and> current_address_space s' = Some r \<and>
    pmm s' = pmm s \<and> (\<forall>q v. translate s' q v = translate s q v) \<and> (\<forall>q i. table_for s' q i = table_for s q i)"
proof -
  let ?s = "s\<lparr>cr3 := page_directory (spaces s r), current_address_space := Some r\<rparr>"
  have "tables_ok R ?s = tables_ok R s" "owners_ok lay R ?s = owners_ok lay R s"
    by (rule tables_ok_cong owners_ok_cong; simp)+
  moreover have "entries_ok lay R ?s = entries_ok lay R s"
    by (simp add: entries_ok_def tab_of_def get_word_def)
  ultimately have "vm_ok lay R ?s" using assms(1) by (simp add: vm_ok_def)
  moreover have "translate ?s q v = translate s q v" "table_for ?s q i = table_for s q i" for q v i
    by (simp_all add: translate_def entry_for_def table_for_def tab_of_def get_word_def)
  ultimately show ?thesis using vm_ok_reach [OF assms] by (simp add: address_space_activate_def)
qed

text \<open>C19. Isolation: mapping a page in one address space is invisible in another one. After activating \<open>a\<close>, mapping,
  and activating \<open>b\<close>, every virtual address reads back as it did in \<open>b\<close> before; and back in \<open>a\<close> the mapping is
  there. A frame is free, and the lowest free one lies below 4 MiB.\<close>

theorem address_spaces_isolated:
  assumes ok: "vm_ok lay R s" and ab: "a \<in> R" "b \<in> R" "a \<noteq> b"
    and v: "vmm_is_user_address v" "unat flags < 4096" "flags AND PAGE_PRESENT \<noteq> 0"
    and low: "\<forall>f. first_free (pmm s) = Some f \<longrightarrow> f < 1024" and some: "first_free (pmm s) \<noteq> None"
  shows "\<exists>s1 s2 s3 s4. address_space_activate (Some a) s = Some s1 \<and> vmm_map_page v p flags s1 = Some s2 \<and>
    address_space_activate (Some b) s2 = Some s3 \<and> address_space_activate (Some a) s3 = Some s4 \<and>
    (\<forall>w. vmm_get_physical_address w s3 = do { s' \<leftarrow> address_space_activate (Some b) s; vmm_get_physical_address w s' }) \<and>
    vmm_get_physical_address v s4 = Some (p AND 0xFFFFF000)"
proof -
  obtain s1 where s1: "address_space_activate (Some a) s = Some s1" "vm_ok lay R s1" "current_address_space s1 = Some a"
    "pmm s1 = pmm s" "\<And>q w. translate s1 q w = translate s q w"
    using activate_ok [OF ok ab(1)] by metis
  obtain s2 where s2: "vmm_map_page v p flags s1 = Some s2" "vm_ok lay R s2"
    "\<And>r w. r \<in> R \<Longrightarrow> translate s2 r w = (if r = a \<and> page_of w = page_of v then p AND 0xFFFFF000 else translate s1 r w)"
    using map_page_ok [OF s1(2) ab(1) s1(3) v, of p] low some unfolding s1(4) by auto
  obtain s3 where s3: "address_space_activate (Some b) s2 = Some s3" "vm_ok lay R s3" "current_address_space s3 = Some b"
    "\<And>q w. translate s3 q w = translate s2 q w"
    using activate_ok [OF s2(2) ab(2)] by metis
  obtain s4 where s4: "address_space_activate (Some a) s3 = Some s4" "vm_ok lay R s4" "current_address_space s4 = Some a"
    "\<And>q w. translate s4 q w = translate s3 q w"
    using activate_ok [OF s3(2) ab(1)] by metis
  obtain s5 where s5: "address_space_activate (Some b) s = Some s5" "vm_ok lay R s5" "current_address_space s5 = Some b"
    "\<And>q w. translate s5 q w = translate s q w"
    using activate_ok [OF ok ab(2)] by metis
  have "vmm_get_physical_address w s3 = vmm_get_physical_address w s5" for w
    using vmm_get_physical_ok [OF s3(2) ab(2) s3(3)] vmm_get_physical_ok [OF s5(2) ab(2) s5(3)]
      s3(4) s2(3) [OF ab(2)] s1(5) s5(4) ab(3) by simp
  moreover have "vmm_get_physical_address v s4 = Some (p AND 0xFFFFF000)"
    using vmm_get_physical_ok [OF s4(2) ab(1) s4(3)] s4(4) s3(4) s2(3) [OF ab(1)] by simp
  ultimately show ?thesis using s1(1) s2(1) s3(1) s4(1) s5(1) by auto
qed

text \<open>The kernel reaches a new frame through the identity mapping of the first 4 MiB only: when the lowest free
  frame lies behind it, creating an address space faults.\<close>

theorem address_space_create_faults:
  assumes "pmm_ok (pmm s)" "heap_good (heap s)" "first_free (pmm s) = Some f" "1024 \<le> f"
  shows "address_space_create lay s = None"
proof -
  obtain p where p: "pmm_alloc_frame (pmm s) = Some (Some (frame_addr f), p)" "f < MAX_FRAMES"
    using pmm_alloc_frame_ok [OF assms(1)] assms(1,3) by (auto simp: pmm_ok_def)
  have "\<not> mapped (frame_addr f)"
    using assms(4) p(2) by (simp add: mapped_def word_less_nat_alt unat_frame_addr)
  moreover obtain b h where "kmalloc 4096 (heap s) = Some (b, h)"
    using heap.alloc_returns [OF assms(2), of 4096] by auto
  ultimately show ?thesis using p(1)
    by (simp add: address_space_create_def lift_pmm_def lift_heap_def Let_def)
qed

section \<open>The theorems at the booted machine\<close>

lemma booted_create:
  obtains s as s' where "vm_ok demo_layout {Static} s" "current_address_space s = Some Static"
    "unat (total_frames (pmm s)) = 16" "address_space_create demo_layout s = Some (Some (Dyn as), s')"
    "free_list (pmm s') \<noteq> []" "\<forall>f \<in> set (free_list (pmm s')). f < 1024"
proof -
  obtain s where s: "vm_ok demo_layout {Static} s" "current_address_space s = Some Static"
    "unat (total_frames (pmm s)) = 16" "heap_ok (heap s) []"
    "\<And>f. f < 16 \<Longrightarrow> frame_used (pmm s) f \<longleftrightarrow> f = 0 \<or> 2 \<le> f \<and> f < 6"
    using booted by metis
  have pm: "pmm_ok (pmm s)" using s(1) by (simp add: vm_ok_def)
  have "free_list (pmm s) = filter (\<lambda>f. \<not> (f = 0 \<or> 2 \<le> f \<and> f < 6)) [0..<16]"
    unfolding free_list_def s(3) by (rule filter_cong) (use s(5) in auto)
  moreover have "filter (\<lambda>f. \<not> (f = 0 \<or> 2 \<le> f \<and> f < 6)) [0..<16] = [1, 6, 7, 8, 9, 10, 11, 12, 13, 14, 15 :: nat]"
    by code_simp
  ultimately have fl: "free_list (pmm s) = [1, 6, 7, 8, 9, 10, 11, 12, 13, 14, 15]" by (rule trans)
  obtain p1 where p1: "pmm_alloc_frame (pmm s) = Some (Some (frame_addr 1), p1)" "free_list p1 = [6, 7, 8, 9, 10, 11, 12, 13, 14, 15]"
    using pmm_alloc_list [OF pm] unfolding fl by auto
  have "pmm_ok p1" using frame_alloc_some(3) [OF pm p1(1)] .
  then obtain p2 where p2: "pmm_alloc_frame p1 = Some (Some (frame_addr 6), p2)" "free_list p2 = [7, 8, 9, 10, 11, 12, 13, 14, 15]"
    using pmm_alloc_list [of p1] unfolding p1(2) by auto
  have "alloc_blocks (rounded (unat (4096 :: u32))) [] = (Some 0, [(0, 4096, False)])"
    by (simp add: alloc_blocks_def rounded_def end_of_def)
  from kmalloc_refines [OF s(4) _ _ this] obtain h where "kmalloc 4096 (heap s) = Some (Some (payload 0), h)" by auto
  from create_run [OF p1(1) mapped_frame this p2(1) mapped_frame] p2(2) that [OF s(1-3)] show thesis by simp
qed

theorem address_space_create_destroy_witness:
  "\<exists>s r s' s''. address_space_create demo_layout s = Some (Some r, s') \<and> address_space_destroy (Some r) s' = Some s'' \<and>
     frame_live (pmm s'') = frame_live (pmm s) \<and> heap_live (heap s'') = heap_live (heap s)"
proof -
  obtain s as s' where s: "vm_ok demo_layout {Static} s" "current_address_space s = Some Static"
    "unat (total_frames (pmm s)) = 16" "address_space_create demo_layout s = Some (Some (Dyn as), s')"
    by (rule booted_create)
  then show ?thesis
    using address_space_create_destroy [OF s(1) low_frames_small] by fastforce
qed

theorem address_spaces_isolated_witness:
  "\<exists>s a s1 s2 s3. address_space_activate (Some Static) s = Some s1 \<and> vmm_map_page 0x400000 0x9000 7 s1 = Some s2 \<and>
     address_space_activate (Some (Dyn a)) s2 = Some s3 \<and>
     vmm_get_physical_address 0x400000 s3 =
       do { s' \<leftarrow> address_space_activate (Some (Dyn a)) s; vmm_get_physical_address 0x400000 s' }"
proof -
  obtain s as s' where s: "vm_ok demo_layout {Static} s" "unat (total_frames (pmm s)) = 16"
    "address_space_create demo_layout s = Some (Some (Dyn as), s')"
    "free_list (pmm s') \<noteq> []" "\<forall>f \<in> set (free_list (pmm s')). f < 1024"
    by (rule booted_create)
  obtain blk dir h p where n: "fresh_parts s as blk dir h p" "s' = add_space demo_layout as blk dir h p s"
    using create_outcome [OF s(1) low_frames_small] s(2,3) by fastforce
  have ok: "vm_ok demo_layout {Dyn as, Static} s'" using add_space_ok [OF s(1) n(1)] n(2) by simp
  have ff: "first_free (pmm s') \<noteq> None" "\<forall>f. first_free (pmm s') = Some f \<longrightarrow> f < 1024"
    using s(4,5) by (auto simp: first_free_list split: list.splits)
  obtain s1 s2 s3 where "address_space_activate (Some Static) s' = Some s1" "vmm_map_page 0x400000 0x9000 7 s1 = Some s2"
    "address_space_activate (Some (Dyn as)) s2 = Some s3"
    "\<forall>w. vmm_get_physical_address w s3 =
       do { x \<leftarrow> address_space_activate (Some (Dyn as)) s'; vmm_get_physical_address w x }"
    using address_spaces_isolated [OF ok, of Static "Dyn as" "0x400000" 7 "0x9000"] ff
    by (auto simp: vmm_is_user_address_def)
  then show ?thesis by blast
qed

definition big_frames :: pmm_t where
  "big_frames = \<lparr>total_frames = 2048, total_memory = 0x800000, usable_memory = 0x800000,
     frame_bitmap = (\<lambda>i. if i < 128 then 0xFF else 0)\<rparr>"

theorem address_space_create_faults_witness:
  "address_space_create demo_layout (cold_mem\<lparr>pmm := big_frames\<rparr>) = None"
proof -
  have used: "frame_used big_frames f" if "f < 1024" for f
  proof -
    have "f div 8 < 128" using that by simp
    then have "(of_nat (f div 8) :: u32) < 128" by (simp add: word_less_nat_alt unat_of_nat)
    moreover have "(0xFF :: u8) = mask 8" by (simp add: mask_numeral)
    then have "bit (0xFF :: u8) (f mod 8)" by (simp only: bit_mask_iff) simp
    ultimately show ?thesis by (simp add: frame_used_def big_frames_def)
  qed
  have t: "unat (total_frames big_frames) = 2048" by (simp add: big_frames_def)
  have "\<not> frame_used big_frames 1024" by (simp add: frame_used_def big_frames_def)
  then have "first_free big_frames \<noteq> None" using t by (auto simp: first_free_None intro: exI [of _ 1024])
  then obtain f where f: "first_free big_frames = Some f" by blast
  have "1024 \<le> f" using first_free_Some [OF f] used by (meson not_le)
  moreover have "pmm_ok big_frames" using used [of 0] t by (simp add: pmm_ok_def)
  moreover have "heap_good demo_heap" using demo_heap_ok by (auto simp: heap_good_def)
  ultimately show ?thesis
    using address_space_create_faults [of "cold_mem\<lparr>pmm := big_frames\<rparr>"] f by (simp add: cold_mem_def)
qed

end
