(* ===== verification/KernInv.thy ===== *)
theory KernInv
  imports ThreadReap SpaceThms
begin

text \<open>
  The invariant of the running kernel: threads, processes, their queues, the heap blocks they own and their
  address spaces. \<open>T\<close> are the addresses of the threads, \<open>P\<close> of the processes, \<open>R\<close> the address spaces; \<open>rs\<close>,
  \<open>ts\<close> and \<open>ps\<close> what the ready queue, the terminated queue and the process list hold.
\<close>

section \<open>Heap blocks\<close>

datatype owner = BThread u32 | BStack u32 | BProc u32 | BTable u32

fun block_addr :: "kstate \<Rightarrow> owner \<Rightarrow> u32" where
  "block_addr s (BThread a) = a"
| "block_addr s (BStack a) = kernel_stack (threads s (Dyn a))"
| "block_addr s (BProc p) = p"
| "block_addr s (BTable r) = block_of (tab_of (mm s) (Dyn r))"

fun owner_of :: "u32 set \<Rightarrow> u32 set \<Rightarrow> ref set \<Rightarrow> owner \<Rightarrow> bool" where
  "owner_of T P R (BThread a) \<longleftrightarrow> a \<in> T"
| "owner_of T P R (BStack a) \<longleftrightarrow> a \<in> T"
| "owner_of T P R (BProc p) \<longleftrightarrow> p \<in> P"
| "owner_of T P R (BTable r) \<longleftrightarrow> Dyn r \<in> R"

definition blocks_ok :: "u32 set \<Rightarrow> u32 set \<Rightarrow> ref set \<Rightarrow> kstate \<Rightarrow> bool" where
  "blocks_ok T P R s \<longleftrightarrow>
     (\<forall>x. owner_of T P R x \<longrightarrow> block_addr s x \<in> heap_live (heap (mm s))) \<and>
     (\<forall>x y. owner_of T P R x \<and> owner_of T P R y \<and> block_addr s x = block_addr s y \<longrightarrow> x = y)"

lemma blocks_ok_live: "blocks_ok T P R s \<Longrightarrow> owner_of T P R x \<Longrightarrow> block_addr s x \<in> heap_live (heap (mm s))"
  by (simp add: blocks_ok_def)

lemma blocks_ok_inj:
  "blocks_ok T P R s \<Longrightarrow> owner_of T P R x \<Longrightarrow> owner_of T P R y \<Longrightarrow> block_addr s x = block_addr s y \<Longrightarrow> x = y"
  by (simp add: blocks_ok_def)

lemma heap_live_range:
  assumes "p \<in> heap_live h"
  shows "\<exists>off \<le> 0x100000. p = payload off"
proof -
  obtain bs off where "heap_ok h bs" "off \<in> used bs" "p = payload off" using assms by (auto simp: heap_live_def)
  then show ?thesis using used_small by blast
qed

lemma heap_live_nonzero: "p \<in> heap_live h \<Longrightarrow> p \<noteq> 0"
  using heap_live_range [of p h] by (auto simp: payload_def word_unat_eq_iff unat_word_ariths unat_of_nat)

lemma heap_live_card: "finite (heap_live h)" "card (heap_live h) \<le> 0x100001"
proof -
  have sub: "heap_live h \<subseteq> payload ` {..0x100000}" using heap_live_range by fastforce
  show "finite (heap_live h)" by (rule finite_subset [OF sub]) simp
  have "card (heap_live h) \<le> card (payload ` {..0x100000})" by (rule card_mono [OF _ sub]) simp
  also have "\<dots> \<le> 0x100001" using card_image_le [of "{..0x100000::nat}" payload] by simp
  finally show "card (heap_live h) \<le> 0x100001" .
qed

lemma threads_finite:
  assumes "blocks_ok T P R s"
  shows "finite T" "card T \<le> 0x100001"
proof -
  have sub: "T \<subseteq> heap_live (heap (mm s))"
  proof
    fix a assume "a \<in> T"
    then show "a \<in> heap_live (heap (mm s))" using blocks_ok_live [OF assms, of "BThread a"] by simp
  qed
  show "finite T" by (rule finite_subset [OF sub heap_live_card(1)])
  show "card T \<le> 0x100001" using card_mono [OF heap_live_card(1) sub] heap_live_card(2) by (rule le_trans)
qed

section \<open>The invariant\<close>

definition known :: "u32 set \<Rightarrow> ref set" where
  "known T = insert Static (Dyn ` T)"

lemma known_simps [simp]: "Static \<in> known T" "Dyn a \<in> known T \<longleftrightarrow> a \<in> T"
  by (auto simp: known_def)

definition space_of :: "kstate \<Rightarrow> u32 \<Rightarrow> ref option" where
  "space_of s p = p_address_space (processes s p)"

definition process_of :: "kstate \<Rightarrow> ref \<Rightarrow> u32 option" where
  "process_of s t = t_process (threads s t)"

definition state_of :: "kstate \<Rightarrow> ref \<Rightarrow> thread_state_t" where
  "state_of s t = t_state (threads s t)"

definition proc_list :: "kstate \<Rightarrow> u32 list \<Rightarrow> bool" where
  "proc_list s ps \<longleftrightarrow> queue_of (\<lambda>p. p_next (processes s p)) (process_list_head s) (process_list_tail s) ps"

definition spaces_ok :: "u32 set \<Rightarrow> ref set \<Rightarrow> kstate \<Rightarrow> bool" where
  "spaces_ok P R s \<longleftrightarrow>
     (\<forall>p \<in> P. \<exists>r \<in> R. space_of s p = Some r) \<and> inj_on (space_of s) P \<and>
     (\<exists>k \<in> P. kernel_process s = Some k \<and> space_of s k = Some Static \<and> p_state (processes s k) = PROCESS_RUNNING)"

definition members_ok :: "u32 set \<Rightarrow> u32 set \<Rightarrow> kstate \<Rightarrow> bool" where
  "members_ok T P s \<longleftrightarrow>
     (\<forall>t \<in> known T. \<exists>p \<in> P. process_of s t = Some p) \<and> process_of s Static = kernel_process s \<and>
     (\<forall>p \<in> P. unat (thread_count (processes s p)) = card {t \<in> known T. process_of s t = Some p})"

definition idle_wf :: "u32 set \<Rightarrow> ref list \<Rightarrow> kstate \<Rightarrow> bool" where
  "idle_wf T rs s \<longleftrightarrow> (\<exists>i \<in> T. idle_thread_instance s = Some (Dyn i) \<and> Dyn i \<notin> set rs \<and>
     process_of s (Dyn i) = kernel_process s \<and> state_of s (Dyn i) \<in> {THREAD_READY, THREAD_RUNNING})"

definition states_ok :: "u32 set \<Rightarrow> ref list \<Rightarrow> ref list \<Rightarrow> kstate \<Rightarrow> bool" where
  "states_ok T rs ts s \<longleftrightarrow>
     ready s rs \<and> terminated s ts \<and> set rs \<subseteq> known T \<and> set ts = {t \<in> known T. state_of s t = THREAD_TERMINATED} \<and>
     (\<forall>t \<in> set rs. state_of s t = THREAD_READY) \<and> state_of s Static \<noteq> THREAD_TERMINATED \<and>
     idle_wf T rs s"

definition place_ok :: "ref \<Rightarrow> kstate \<Rightarrow> bool" where
  "place_ok c s \<longleftrightarrow> (\<exists>p. process_of s c = Some p \<and> current_process s = Some p \<and>
     current_address_space (mm s) = space_of s p)"

text \<open>Between two switches, and while a thread runs.\<close>

definition between :: "layout \<Rightarrow> ref set \<Rightarrow> u32 set \<Rightarrow> ref list \<Rightarrow> ref list \<Rightarrow> u32 list \<Rightarrow> kstate \<Rightarrow> bool" where
  "between lay R T rs ts ps s \<longleftrightarrow>
     vm_ok lay R (mm s) \<and> blocks_ok T (set ps) R s \<and> proc_list s ps \<and> spaces_ok (set ps) R s \<and>
     members_ok T (set ps) s \<and> states_ok T rs ts s"

definition running :: "ref \<Rightarrow> u32 set \<Rightarrow> ref list \<Rightarrow> kstate \<Rightarrow> bool" where
  "running c T rs s \<longleftrightarrow> current_thread s = Some c \<and> c \<in> known T \<and> state_of s c = THREAD_RUNNING \<and> place_ok c s"

definition kernel_ok :: "layout \<Rightarrow> ref set \<Rightarrow> u32 set \<Rightarrow> ref list \<Rightarrow> ref list \<Rightarrow> u32 list \<Rightarrow> kstate \<Rightarrow> bool" where
  "kernel_ok lay R T rs ts ps s \<longleftrightarrow> between lay R T rs ts ps s \<and> (\<exists>c. running c T rs s)"

section \<open>What the parts depend on\<close>

lemma idle_wf_change:
  assumes "idle_wf T rs s" "idle_thread_instance s' = idle_thread_instance s" "kernel_process s' = kernel_process s"
    and "process_of s' = process_of s" "Some t \<noteq> idle_thread_instance s" "set rs' \<subseteq> insert t (set rs)"
    and "\<And>x. x \<noteq> t \<Longrightarrow> state_of s' x = state_of s x"
  shows "idle_wf T rs' s'"
proof -
  obtain i where i: "i \<in> T" "idle_thread_instance s = Some (Dyn i)" "Dyn i \<notin> set rs"
    "process_of s (Dyn i) = kernel_process s" "state_of s (Dyn i) \<in> {THREAD_READY, THREAD_RUNNING}"
    using assms(1) by (auto simp: idle_wf_def)
  moreover have "Dyn i \<noteq> t" using assms(5) i(2) by auto
  ultimately show ?thesis unfolding idle_wf_def using assms(2-4,6,7) by (intro bexI [of _ i]) auto
qed

lemma idle_wf_same:
  assumes "idle_wf T rs s" "idle_thread_instance s' = idle_thread_instance s" "kernel_process s' = kernel_process s"
    and "process_of s' = process_of s" "set rs' \<subseteq> set rs"
    and "\<And>i. i \<in> T \<Longrightarrow> Dyn i \<notin> set rs \<Longrightarrow> state_of s' (Dyn i) = state_of s (Dyn i) \<or> state_of s' (Dyn i) = THREAD_RUNNING"
  shows "idle_wf T rs' s'"
proof -
  obtain i where i: "i \<in> T" "idle_thread_instance s = Some (Dyn i)" "Dyn i \<notin> set rs"
    "process_of s (Dyn i) = kernel_process s" "state_of s (Dyn i) \<in> {THREAD_READY, THREAD_RUNNING}"
    using assms(1) by (auto simp: idle_wf_def)
  then show ?thesis unfolding idle_wf_def using assms(2-5) assms(6) [OF i(1,3)] by (intro bexI [of _ i]) auto
qed

lemma blocks_ok_cong:
  assumes "\<And>a. a \<in> T \<Longrightarrow> kernel_stack (threads s' (Dyn a)) = kernel_stack (threads s (Dyn a))"
    and "spaces (mm s') = spaces (mm s)" "heap_live (heap (mm s')) = heap_live (heap (mm s))"
  shows "blocks_ok T P R s' = blocks_ok T P R s"
proof -
  have "block_addr s' x = block_addr s x" if "owner_of T P R x" for x
    using that assms(1) tab_of_cong [OF assms(2)] by (cases x) auto
  note eq = this
  have "(\<forall>x. owner_of T P R x \<longrightarrow> block_addr s' x \<in> heap_live (heap (mm s'))) \<longleftrightarrow>
      (\<forall>x. owner_of T P R x \<longrightarrow> block_addr s x \<in> heap_live (heap (mm s)))"
    using eq assms(3) by auto
  moreover have "(\<forall>x y. owner_of T P R x \<and> owner_of T P R y \<and> block_addr s' x = block_addr s' y \<longrightarrow> x = y) \<longleftrightarrow>
      (\<forall>x y. owner_of T P R x \<and> owner_of T P R y \<and> block_addr s x = block_addr s y \<longrightarrow> x = y)"
    using eq by auto
  ultimately show ?thesis unfolding blocks_ok_def by blast
qed

text \<open>What a step on the queues keeps.\<close>

lemma same_but_queues_parts:
  assumes "same_but_queues s s'"
  shows "mm s' = mm s" "space_of s' = space_of s" "process_of s' = process_of s" "place_ok c s' = place_ok c s"
    "blocks_ok T P R s' = blocks_ok T P R s" "proc_list s' ps = proc_list s ps" "spaces_ok P R s' = spaces_ok P R s"
    "members_ok T P s' = members_ok T P s" "current_thread s' = current_thread s"
    "idle_thread_instance s' = idle_thread_instance s" "kernel_process s' = kernel_process s"
    "processes s' = processes s" "current_process s' = current_process s"
proof -
  show m: "mm s' = mm s" and sp: "space_of s' = space_of s" and pr: "process_of s' = process_of s"
    and "current_thread s' = current_thread s" and "idle_thread_instance s' = idle_thread_instance s"
    and k: "kernel_process s' = kernel_process s" and p: "processes s' = processes s"
    and c: "current_process s' = current_process s"
    using assms by (auto simp: same_but_queues_def space_of_def process_of_def)
  show "place_ok c s' = place_ok c s" by (simp add: place_ok_def m sp pr c)
  show "blocks_ok T P R s' = blocks_ok T P R s"
    by (rule blocks_ok_cong) (use assms in \<open>auto simp: same_but_queues_def\<close>)
  show "proc_list s' ps = proc_list s ps" using assms by (simp add: proc_list_def same_but_queues_def)
  show "spaces_ok P R s' = spaces_ok P R s" by (simp add: spaces_ok_def sp k p)
  show "members_ok T P s' = members_ok T P s" by (simp add: members_ok_def pr k p)
qed

lemma between_queues:
  assumes "between lay R T rs ts ps s" "same_but_queues s s'" "states_ok T rs' ts' s'"
  shows "between lay R T rs' ts' ps s'"
  using assms by (simp add: between_def same_but_queues_parts)

lemma states_ok_disjoint: "states_ok T rs ts s \<Longrightarrow> set rs \<inter> set ts = {}"
  by (auto simp: states_ok_def)

end
