(* ===== verification/KernSched.thy ===== *)
theory KernSched
  imports KernInv
begin

text \<open>
  The scheduling operations keep the invariant of the kernel: \<open>thread_yield\<close>, \<open>thread_block\<close>,
  \<open>thread_unblock\<close>, \<open>thread_terminate\<close> and the first half of \<open>scheduler_schedule\<close>.
\<close>

section \<open>Frames\<close>

text \<open>The two states agree on what the invariant reads, thread states apart.\<close>

definition same_kernel :: "kstate \<Rightarrow> kstate \<Rightarrow> bool" where
  "same_kernel s s' \<longleftrightarrow>
     mm s' = mm s \<and> processes s' = processes s \<and> kernel_process s' = kernel_process s \<and>
     process_list_head s' = process_list_head s \<and> process_list_tail s' = process_list_tail s \<and>
     ready_queue_head s' = ready_queue_head s \<and> ready_queue_tail s' = ready_queue_tail s \<and>
     terminated_queue_head s' = terminated_queue_head s \<and> terminated_queue_tail s' = terminated_queue_tail s \<and>
     idle_thread_instance s' = idle_thread_instance s \<and> nexts s' = nexts s \<and> process_of s' = process_of s \<and>
     (\<forall>t. kernel_stack (threads s' t) = kernel_stack (threads s t))"

lemma same_kernel_parts:
  assumes "same_kernel s s'"
  shows "mm s' = mm s" "space_of s' = space_of s" "process_of s' = process_of s" "blocks_ok T P R s' = blocks_ok T P R s"
    "proc_list s' ps = proc_list s ps" "spaces_ok P R s' = spaces_ok P R s" "members_ok T P s' = members_ok T P s"
    "ready s' = ready s" "terminated s' = terminated s" "idle_thread_instance s' = idle_thread_instance s"
    "kernel_process s' = kernel_process s"
proof -
  show m: "mm s' = mm s" and sp: "space_of s' = space_of s" and pr: "process_of s' = process_of s"
    and k: "kernel_process s' = kernel_process s" "idle_thread_instance s' = idle_thread_instance s"
    using assms by (auto simp: same_kernel_def space_of_def)
  have p: "processes s' = processes s" using assms by (simp add: same_kernel_def)
  show "blocks_ok T P R s' = blocks_ok T P R s" by (rule blocks_ok_cong) (use assms in \<open>auto simp: same_kernel_def\<close>)
  show "proc_list s' ps = proc_list s ps" using assms by (simp add: proc_list_def same_kernel_def)
  show "spaces_ok P R s' = spaces_ok P R s" by (simp add: spaces_ok_def sp k p)
  show "members_ok T P s' = members_ok T P s" by (simp add: members_ok_def pr k p)
  show "ready s' = ready s" "terminated s' = terminated s"
    using assms by (auto simp: ready_def terminated_def same_kernel_def)
qed

lemma between_same:
  assumes "between lay R T rs ts ps s" "same_kernel s s'" "\<And>t. t \<in> known T \<Longrightarrow> state_of s' t = state_of s t"
  shows "between lay R T rs ts ps s'"
proof -
  have st: "states_ok T rs ts s" using assms(1) by (simp add: between_def)
  have i: "\<And>i. i \<in> T \<Longrightarrow> state_of s' (Dyn i) = state_of s (Dyn i)" using assms(3) by simp
  have "state_of s' Static = state_of s Static" using assms(3) by simp
  moreover have "{t \<in> known T. state_of s' t = THREAD_TERMINATED} = {t \<in> known T. state_of s t = THREAD_TERMINATED}"
    using assms(3) by auto
  moreover have "(\<forall>t \<in> set rs. state_of s' t = THREAD_READY) = (\<forall>t \<in> set rs. state_of s t = THREAD_READY)"
    using assms(3) st by (metis states_ok_def subsetD)
  moreover have "idle_wf T rs s'"
    by (rule idle_wf_same [of _ rs s]) (use st i same_kernel_parts [OF assms(2)] in \<open>simp_all add: states_ok_def\<close>)
  ultimately have "states_ok T rs ts s'"
    using st unfolding states_ok_def same_kernel_parts [OF assms(2)] by simp
  then show ?thesis using assms(1) by (simp add: between_def same_kernel_parts [OF assms(2)])
qed

lemma set_running_ok:
  assumes b: "between lay R T rs ts ps s" and n: "n \<notin> set rs" "n \<notin> set ts" "n \<in> known T"
  shows "between lay R T rs ts ps (set_state n THREAD_RUNNING s)"
proof -
  let ?s = "set_state n THREAD_RUNNING s"
  have k: "same_kernel s ?s"
    by (auto simp: same_kernel_def set_state_def upd_thread_def nexts_def process_of_def)
  have so: "state_of ?s t = (if t = n then THREAD_RUNNING else state_of s t)" for t
    by (simp add: set_state_def upd_thread_def state_of_def)
  have st: "states_ok T rs ts s" using b by (simp add: between_def)
  have nt: "state_of s n \<noteq> THREAD_TERMINATED" using st n by (auto simp: states_ok_def)
  have "{t \<in> known T. state_of ?s t = THREAD_TERMINATED} = {t \<in> known T. state_of s t = THREAD_TERMINATED}"
    using so nt by auto
  moreover have "idle_wf T rs ?s"
    by (rule idle_wf_same [of _ rs s]) (use st so same_kernel_parts [OF k] in \<open>simp_all add: states_ok_def\<close>)
  ultimately have "states_ok T rs ts ?s"
    using st n so unfolding states_ok_def same_kernel_parts [OF k] by auto
  then show ?thesis using b by (simp add: between_def same_kernel_parts [OF k])
qed

section \<open>The switch to another process\<close>

definition moved :: "kstate \<Rightarrow> kstate \<Rightarrow> bool" where
  "moved s s' \<longleftrightarrow> (\<exists>m cp. s' = s\<lparr>mm := m, current_process := cp\<rparr> \<and> heap m = heap (mm s) \<and> pmm m = pmm (mm s) \<and>
     (\<forall>r v. translate m r v = translate (mm s) r v) \<and> spaces m = spaces (mm s))"

lemma moved_refl: "moved s s"
  unfolding moved_def by (rule exI [of _ "mm s"], rule exI [of _ "current_process s"]) simp

lemma switch_process_ok:
  assumes b: "between lay R T rs ts ps s" and c: "place_ok c s" and n: "n \<in> known T"
  shows "\<exists>s'. switch_process c n s = Some s' \<and> between lay R T rs ts ps s' \<and> place_ok n s' \<and> moved s s'"
proof -
  obtain p where p: "process_of s n = Some p" "p \<in> set ps" using b n by (auto simp: between_def members_ok_def)
  obtain r where r: "space_of s p = Some r" "r \<in> R" using b p by (auto simp: between_def spaces_ok_def)
  show ?thesis
  proof (cases "process_of s c = Some p")
    case True
    then have "switch_process c n s = Some s" using p by (simp add: switch_process_def process_of_def)
    then show ?thesis using b c p True moved_refl by (auto simp: place_ok_def)
  next
    case False
    have vm: "vm_ok lay R (mm s)" using b by (simp add: between_def)
    let ?m = "(mm s)\<lparr>cr3 := page_directory (spaces (mm s) r), current_address_space := Some r\<rparr>"
    let ?s = "s\<lparr>current_process := Some p, mm := ?m\<rparr>"
    have act: "address_space_activate (Some r) (mm s) = Some ?m"
      using vm_ok_reach [OF vm r(2)] by (simp add: address_space_activate_def)
    then have run: "switch_process c n s = Some ?s"
      using False p r by (simp add: switch_process_def process_of_def space_of_def k_activate_def process_set_current_def)
    have vm': "vm_ok lay R ?m" and tr: "\<forall>q v. translate ?m q v = translate (mm s) q v"
      using activate_ok [OF vm r(2)] act by auto
    have bl: "blocks_ok T P R ?s = blocks_ok T P R s" for P by (rule blocks_ok_cong) simp_all
    have "proc_list ?s = proc_list s" "space_of ?s = space_of s" "process_of ?s = process_of s" "ready ?s = ready s"
      "terminated ?s = terminated s" "state_of ?s = state_of s"
      by (auto simp: proc_list_def space_of_def [abs_def] process_of_def [abs_def] ready_def terminated_def nexts_def [abs_def]
          state_of_def [abs_def] fun_eq_iff)
    then have "between lay R T rs ts ps ?s"
      using b vm' bl by (simp add: between_def spaces_ok_def members_ok_def states_ok_def idle_wf_def)
    moreover have "place_ok n ?s" using p r by (simp add: place_ok_def process_of_def space_of_def)
    moreover have "moved s ?s" unfolding moved_def
      by (rule exI [of _ ?m], rule exI [of _ "Some p"]) (use tr in simp)
    ultimately show ?thesis using run by blast
  qed
qed

lemma place_ok_set [simp]:
  "place_ok c (set_state t st s) = place_ok c s" "place_ok c (thread_set_current n s) = place_ok c s"
  "place_ok c (x86_context_switch t e s) = place_ok c s" "place_ok c (cli s) = place_ok c s"
  by (simp_all add: place_ok_def process_of_def space_of_def set_state_def upd_thread_def thread_set_current_def
      x86_context_switch_def cli_def)

text \<open>The common end of the switching operations.\<close>

lemma between_set_current:
  "between lay R T rs ts ps s \<Longrightarrow> between lay R T rs ts ps (thread_set_current n s)"
  by (rule between_same)
    (auto simp: same_kernel_def thread_set_current_def nexts_def [abs_def] process_of_def [abs_def] state_of_def)

lemma between_context_switch:
  "between lay R T rs ts ps s \<Longrightarrow> between lay R T rs ts ps (x86_context_switch c e s)"
  by (rule between_same)
    (auto simp: same_kernel_def x86_context_switch_def upd_thread_def nexts_def [abs_def] process_of_def [abs_def] state_of_def
      fun_eq_iff)

lemma switch_to_ok:
  assumes b: "between lay R T rs ts ps s" and c: "place_ok c s"
    and n: "n \<in> known T" "n \<notin> set rs" "n \<notin> set ts"
  shows "\<exists>s'. switch_to c n s = Some s' \<and> between lay R T rs ts ps s' \<and> running n T rs s' \<and> interrupts s'"
proof -
  obtain s1 where s1: "switch_process c n s = Some s1" "between lay R T rs ts ps s1" "place_ok n s1"
    using switch_process_ok [OF b c n(1)] by blast
  let ?s2 = "thread_set_current (Some n) (set_state n THREAD_RUNNING s1)"
  let ?s3 = "x86_context_switch c (saved_esp (threads ?s2 n)) ?s2"
  have "switch_to c n s = Some ?s3" using s1(1) by (simp add: switch_to_def Let_def)
  moreover have "between lay R T rs ts ps ?s3"
    by (intro between_context_switch between_set_current set_running_ok s1 n)
  moreover have "running n T rs ?s3"
    using s1(3) n(1)
    by (simp add: running_def) (simp add: state_of_def x86_context_switch_def thread_set_current_def set_state_def upd_thread_def)
  moreover have "interrupts ?s3" by (simp add: x86_context_switch_def)
  ultimately show ?thesis by blast
qed

end
