(* ===== verification/KernOps.thy ===== *)
theory KernOps
  imports KernSched
begin

text \<open>
  What the scheduling operations do to the two queues, and that they keep the invariant of the kernel.
\<close>

section \<open>Queue operations under the invariant\<close>

lemma states_of_between: "between lay R T rs ts ps s \<Longrightarrow> states_ok T rs ts s"
  by (simp add: between_def)

lemma idle_ok:
  assumes "between lay R T rs ts ps s" "idle_thread_instance s = Some i"
  shows "i \<in> known T" "i \<notin> set rs" "i \<notin> set ts" "i \<noteq> Static" "process_of s i = kernel_process s" "state_of s i \<noteq> THREAD_BLOCKED"
  using assms by (auto simp: between_def states_ok_def idle_wf_def)

lemma idle_exists: "between lay R T rs ts ps s \<Longrightarrow> \<exists>i. idle_thread_instance s = Some i"
  by (auto simp: between_def states_ok_def idle_wf_def)

lemma running_ok:
  assumes "between lay R T rs ts ps s" "running c T rs s"
  shows "c \<notin> set rs" "c \<notin> set ts" "c \<in> known T" "thread_current s = Some c"
  using assms by (auto simp: between_def states_ok_def running_def thread_current_def)

lemma dequeue_between:
  assumes b: "between lay R T (n # rs) ts ps s"
  shows "\<exists>s'. thread_dequeue s = (Some n, s') \<and> between lay R T rs ts ps s' \<and> same_but_queues s s' \<and> state_of s' = state_of s \<and>
    interrupts s' = interrupts s \<and> n \<in> known T \<and> n \<notin> set rs \<and> n \<notin> set ts"
proof -
  have st: "states_ok T (n # rs) ts s" by (rule states_of_between [OF b])
  then have r: "ready s (n # rs)" and t: "terminated s ts" by (simp_all add: states_ok_def)
  obtain s' where s': "thread_dequeue s = (Some n, s')" "ready s' rs" using dequeue_Cons [OF r] by blast
  have t': "terminated s' ts" using dequeue_other [OF r t states_ok_disjoint [OF st]] s'(1) by simp
  have sb: "same_but_queues s s'" and so: "state_of s' = state_of s" and ii: "interrupts s' = interrupts s"
    using dequeue_effect [of s] s'(1) by (auto simp: state_of_def)
  have "idle_wf T rs s'"
    by (rule idle_wf_same [of _ "n # rs" s]) (use st so same_but_queues_parts [OF sb] in \<open>auto simp: states_ok_def\<close>)
  then have "states_ok T rs ts s'"
    using st s'(2) t' unfolding states_ok_def so same_but_queues_parts [OF sb] by auto
  then have "between lay R T rs ts ps s'" by (rule between_queues [OF b sb])
  moreover have "n \<in> known T" "n \<notin> set rs" "n \<notin> set ts"
    using st states_ok_disjoint [OF st] by (auto simp: states_ok_def ready_def queue_of_def)
  ultimately show ?thesis using s' sb so ii by blast
qed

lemma dequeue_empty: "between lay R T [] ts ps s \<Longrightarrow> thread_dequeue s = (None, s)"
  by (rule dequeue_Nil) (simp add: between_def states_ok_def)

lemma enqueue_between:
  assumes b: "between lay R T rs ts ps s" and t: "t \<in> known T" "t \<notin> set rs" "t \<notin> set ts" "Some t \<noteq> idle_thread_instance s"
  shows "between lay R T (rs @ [t]) ts ps (thread_enqueue (Some t) s)"
proof -
  let ?s = "thread_enqueue (Some t) s"
  have st: "states_ok T rs ts s" by (rule states_of_between [OF b])
  note d = states_ok_disjoint [OF st]
  have r: "ready s rs" and te: "terminated s ts" using st by (simp_all add: states_ok_def)
  have so: "state_of ?s x = (if x = t then THREAD_READY else state_of s x)" for x
    by (simp add: state_of_def enqueue_effect)
  have "{x \<in> known T. state_of ?s x = THREAD_TERMINATED} = {x \<in> known T. state_of s x = THREAD_TERMINATED}"
    using so t st by (auto simp: states_ok_def)
  moreover have "ready ?s (rs @ [t])" by (rule enqueue_ready [OF r t(2)])
  moreover have "terminated ?s ts" by (rule enqueue_other [OF r te _ d]) (use t in auto)
  moreover have "idle_wf T (rs @ [t]) ?s"
    by (rule idle_wf_change [of _ rs s _ t])
      (use st t(4) so same_but_queues_parts [OF enqueue_effect(1)] in \<open>auto simp: states_ok_def\<close>)
  ultimately have "states_ok T (rs @ [t]) ts ?s"
    using st t so unfolding states_ok_def same_but_queues_parts [OF enqueue_effect(1)] by auto
  then show ?thesis by (rule between_queues [OF b enqueue_effect(1)])
qed

lemma enqueue_terminated_between:
  assumes b: "between lay R T rs ts ps s"
    and t: "t \<in> known T" "t \<notin> set rs" "t \<notin> set ts" "t \<noteq> Static" "Some t \<noteq> idle_thread_instance s"
  shows "between lay R T rs (ts @ [t]) ps (thread_enqueue_terminated (Some t) s)"
proof -
  let ?s = "thread_enqueue_terminated (Some t) s"
  have st: "states_ok T rs ts s" by (rule states_of_between [OF b])
  note d = states_ok_disjoint [OF st]
  have r: "ready s rs" and te: "terminated s ts" using st by (simp_all add: states_ok_def)
  have so: "state_of ?s x = (if x = t then THREAD_TERMINATED else state_of s x)" for x
    by (simp add: state_of_def enqueue_terminated_effect)
  have "{x \<in> known T. state_of ?s x = THREAD_TERMINATED} = insert t {x \<in> known T. state_of s x = THREAD_TERMINATED}"
    using so t by auto
  moreover have "ready ?s rs" by (rule enqueue_terminated_other [OF r te _ d]) (use t in auto)
  moreover have "terminated ?s (ts @ [t])" by (rule enqueue_terminated [OF te t(3)])
  moreover have "\<forall>x \<in> set rs. state_of ?s x = THREAD_READY" using so t(2) st by (auto simp: states_ok_def)
  moreover have "idle_wf T rs ?s"
    by (rule idle_wf_change [of _ rs s _ t])
      (use st t(5) so same_but_queues_parts [OF enqueue_terminated_effect(1)] in \<open>auto simp: states_ok_def\<close>)
  ultimately have "states_ok T rs (ts @ [t]) ?s"
    using st t so unfolding states_ok_def same_but_queues_parts [OF enqueue_terminated_effect(1)] by auto
  then show ?thesis by (rule between_queues [OF b enqueue_terminated_effect(1)])
qed

lemma set_blocked_between:
  assumes b: "between lay R T rs ts ps s" and t: "t \<notin> set rs" "t \<notin> set ts" "t \<in> known T" "Some t \<noteq> idle_thread_instance s"
  shows "between lay R T rs ts ps (set_state t THREAD_BLOCKED s)"
proof -
  let ?s = "set_state t THREAD_BLOCKED s"
  have k: "same_kernel s ?s"
    by (auto simp: same_kernel_def set_state_def upd_thread_def nexts_def process_of_def)
  have so: "state_of ?s x = (if x = t then THREAD_BLOCKED else state_of s x)" for x
    by (simp add: set_state_def upd_thread_def state_of_def)
  have st: "states_ok T rs ts s" by (rule states_of_between [OF b])
  then have nt: "state_of s t \<noteq> THREAD_TERMINATED" using t by (auto simp: states_ok_def)
  have "{x \<in> known T. state_of ?s x = THREAD_TERMINATED} = {x \<in> known T. state_of s x = THREAD_TERMINATED}"
    using so nt by auto
  moreover have "idle_wf T rs ?s"
    by (rule idle_wf_change [of _ rs s _ t])
      (use st t(4) so same_kernel_parts [OF k] in \<open>auto simp: states_ok_def\<close>)
  ultimately have "states_ok T rs ts ?s"
    using st t so unfolding states_ok_def same_kernel_parts [OF k] by auto
  then show ?thesis using b by (simp add: between_def same_kernel_parts [OF k])
qed

lemma between_cli: "between lay R T rs ts ps s \<Longrightarrow> between lay R T rs ts ps (cli s)"
  by (rule between_same) (auto simp: same_kernel_def cli_def nexts_def [abs_def] process_of_def [abs_def] state_of_def)

lemma between_sti: "between lay R T rs ts ps s \<Longrightarrow> between lay R T rs ts ps (sti s)"
  by (rule between_same) (auto simp: same_kernel_def sti_def nexts_def [abs_def] process_of_def [abs_def] state_of_def)

section \<open>Who runs next\<close>

definition next_of_queue :: "kstate \<Rightarrow> ref list \<Rightarrow> ref" where
  "next_of_queue s rs = (case rs of [] \<Rightarrow> the (idle_thread_instance s) | t # _ \<Rightarrow> t)"

lemma pick_next:
  assumes b: "between lay R T rs ts ps s"
  shows "\<exists>x s'. thread_dequeue s = (x, s') \<and> (if x = None then thread_idle s' else x) = Some (next_of_queue s rs) \<and>
    between lay R T (tl rs) ts ps s' \<and> same_but_queues s s' \<and> state_of s' = state_of s \<and> interrupts s' = interrupts s \<and>
    next_of_queue s rs \<in> known T \<and> next_of_queue s rs \<notin> set (tl rs) \<and> next_of_queue s rs \<notin> set ts"
proof (cases rs)
  case Nil
  obtain i where i: "idle_thread_instance s = Some i" using idle_exists [OF b] by blast
  show ?thesis using dequeue_empty b Nil i idle_ok [OF b i]
    by (simp add: next_of_queue_def thread_idle_def)
next
  case (Cons n rs')
  with dequeue_between [of lay R T n rs' ts ps s] b show ?thesis by (auto simp: next_of_queue_def)
qed

section \<open>The operations\<close>

lemma thread_yield_ok:
  assumes b: "between lay R T rs ts ps s" and c: "running c T rs s"
  shows "\<exists>s'. thread_yield s = Some s' \<and>
    (if rs = [] \<or> Some c = idle_thread_instance s then s' = s
     else between lay R T (tl rs @ [c]) ts ps s' \<and> running (hd rs) T (tl rs @ [c]) s' \<and> interrupts s')"
proof -
  note r = running_ok [OF b c]
  consider "Some c = idle_thread_instance s" | "rs = []" "Some c \<noteq> idle_thread_instance s"
    | n rs' where "rs = n # rs'" "Some c \<noteq> idle_thread_instance s" by (cases rs) auto
  then show ?thesis
  proof cases
    case 1
    then show ?thesis using r(4) [symmetric] by (auto simp: thread_yield_def thread_idle_def split: option.splits)
  next
    case 2
    then show ?thesis using r(4) dequeue_empty b by (simp add: thread_yield_def thread_idle_def)
  next
    case (3 n rs')
    obtain s1 where s1: "thread_dequeue s = (Some n, s1)" "between lay R T rs' ts ps s1" "same_but_queues s s1"
      "state_of s1 = state_of s" "n \<in> known T" "n \<notin> set rs'" "n \<notin> set ts"
      using dequeue_between [of lay R T n rs' ts ps s] b 3(1) by blast
    have sc: "state_of (cli s1) c = THREAD_RUNNING" using s1(4) c by (simp add: running_def state_of_def [abs_def] cli_def)
    have b2: "between lay R T (rs' @ [c]) ts ps (thread_enqueue (Some c) (cli s1))"
      by (rule enqueue_between [OF between_cli [OF s1(2)]])
        (use r 3 same_but_queues_parts(10) [OF s1(3)] in \<open>auto simp: cli_def\<close>)
    have pl: "place_ok c (thread_enqueue (Some c) (cli s1))"
      using c same_but_queues_parts(4) [OF s1(3), of c] by (simp add: same_but_queues_parts(4) [OF enqueue_effect(1)] running_def)
    have "n \<notin> set (rs' @ [c])" using s1(6) r(1) 3(1) by auto
    from switch_to_ok [OF b2 pl s1(5) this s1(7)]
    obtain s' where s': "switch_to c n (thread_enqueue (Some c) (cli s1)) = Some s'"
      "between lay R T (rs' @ [c]) ts ps s'" "running n T (rs' @ [c]) s'" "interrupts s'" by blast
    have "thread_yield s = Some s'"
      using r(4) 3 s1(1) sc s'(1) by (simp add: thread_yield_def thread_idle_def state_of_def)
    then show ?thesis using s' 3 by simp
  qed
qed

lemma thread_block_ok:
  assumes b: "between lay R T rs ts ps s" and c: "running c T rs s" "Some c \<noteq> idle_thread_instance s"
  shows "\<exists>s'. thread_block s = Some s' \<and> between lay R T (tl rs) ts ps s' \<and> running (next_of_queue s rs) T (tl rs) s' \<and> interrupts s'"
proof -
  note r = running_ok [OF b c(1)]
  let ?s0 = "set_state c THREAD_BLOCKED (cli s)"
  have b0: "between lay R T rs ts ps ?s0"
    by (rule set_blocked_between [OF between_cli [OF b]]) (use r c(2) in \<open>auto simp: cli_def\<close>)
  have nx: "next_of_queue ?s0 rs = next_of_queue s rs"
    by (simp add: next_of_queue_def set_state_def upd_thread_def cli_def split: list.split)
  obtain x s1 where s1: "thread_dequeue ?s0 = (x, s1)" "(if x = None then thread_idle s1 else x) = Some (next_of_queue s rs)"
    "between lay R T (tl rs) ts ps s1" "same_but_queues ?s0 s1"
    "next_of_queue s rs \<in> known T" "next_of_queue s rs \<notin> set (tl rs)" "next_of_queue s rs \<notin> set ts"
    using pick_next [OF b0] unfolding nx by blast
  have pl: "place_ok c s1" using c(1) by (simp add: same_but_queues_parts(4) [OF s1(4)] running_def)
  from switch_to_ok [OF s1(3) pl s1(5-7)]
  obtain s' where s': "switch_to c (next_of_queue s rs) s1 = Some s'" "between lay R T (tl rs) ts ps s'"
    "running (next_of_queue s rs) T (tl rs) s'" "interrupts s'" by blast
  have "thread_block s = Some s'"
    using r(4) s1(1,2) s'(1) by (simp add: thread_block_def Let_def)
  then show ?thesis using s' by blast
qed

lemma thread_terminate_ok:
  assumes b: "between lay R T rs ts ps s" and c: "running c T rs s" "Some c \<noteq> idle_thread_instance s" "c \<noteq> Static"
  shows "\<exists>s'. thread_terminate s = Some s' \<and> between lay R T (tl rs) (ts @ [c]) ps s' \<and>
    running (next_of_queue s rs) T (tl rs) s' \<and> interrupts s'"
proof -
  note r = running_ok [OF b c(1)]
  let ?s0 = "thread_enqueue_terminated (Some c) (cli s)"
  have b0: "between lay R T rs (ts @ [c]) ps ?s0"
    by (rule enqueue_terminated_between [OF between_cli [OF b]]) (use r c in \<open>auto simp: cli_def\<close>)
  have sb0: "same_but_queues (cli s) ?s0" by (rule enqueue_terminated_effect)
  have nx: "next_of_queue ?s0 rs = next_of_queue s rs"
    using same_but_queues_parts(10) [OF sb0] by (simp add: next_of_queue_def cli_def split: list.split)
  obtain x s1 where s1: "thread_dequeue ?s0 = (x, s1)" "(if x = None then thread_idle s1 else x) = Some (next_of_queue s rs)"
    "between lay R T (tl rs) (ts @ [c]) ps s1" "same_but_queues ?s0 s1"
    "next_of_queue s rs \<in> known T" "next_of_queue s rs \<notin> set (tl rs)" "next_of_queue s rs \<notin> set (ts @ [c])"
    using pick_next [OF b0] unfolding nx by blast
  have pl: "place_ok c s1"
    using c(1) by (simp add: same_but_queues_parts(4) [OF s1(4)] same_but_queues_parts(4) [OF sb0] running_def)
  from switch_to_ok [OF s1(3) pl s1(5-7)]
  obtain s' where s': "switch_to c (next_of_queue s rs) s1 = Some s'" "between lay R T (tl rs) (ts @ [c]) ps s'"
    "running (next_of_queue s rs) T (tl rs) s'" "interrupts s'" by blast
  have "thread_terminate s = Some s'"
    using r(4) s1(1,2) s'(1) c by (simp add: thread_terminate_def running_def state_of_def Let_def)
  then show ?thesis using s' by blast
qed

lemma running_change:
  assumes "running c T rs s" "same_but_queues s s'" "state_of s' c = state_of s c"
  shows "running c T rs' s'"
  using assms by (simp add: running_def same_but_queues_parts [OF assms(2)])

lemma same_flags:
  "same_but_queues s (cli s)" "same_but_queues s (sti s)" "state_of (cli s) = state_of s" "state_of (sti s) = state_of s"
  by (auto simp: same_but_queues_def cli_def sti_def state_of_def)

lemma thread_unblock_ok:
  assumes b: "between lay R T rs ts ps s" and c: "running c T rs s"
    and t: "t \<in> known T" "state_of s t = THREAD_BLOCKED" "process_of s t = Some p"
  shows "\<exists>s'. thread_unblock (Some t) s = s' \<and> interrupts s' \<and>
    (if p_state (processes s p) = PROCESS_TERMINATED
     then between lay R T rs (ts @ [t]) ps s' \<and> running c T rs s'
     else between lay R T (rs @ [t]) ts ps s' \<and> running c T (rs @ [t]) s')"
proof -
  have st: "states_ok T rs ts s" by (rule states_of_between [OF b])
  obtain i where i: "idle_thread_instance s = Some i" using idle_exists [OF b] by blast
  have nt: "t \<notin> set rs" "t \<notin> set ts" "Some t \<noteq> idle_thread_instance s" "c \<noteq> t"
    using st t c idle_ok(6) [OF b i] i by (auto simp: states_ok_def running_def)
  have bc: "between lay R T rs ts ps (cli s)" by (rule between_cli [OF b])
  have idle: "idle_thread_instance (cli s) = idle_thread_instance s" by (simp add: cli_def)
  have eqs: "t_state (threads s t) = THREAD_BLOCKED" "t_process (threads (cli s) t) = Some p" "processes (cli s) = processes s"
    using t by (simp_all add: state_of_def process_of_def cli_def)
  show ?thesis
  proof (cases "p_state (processes s p) = PROCESS_TERMINATED")
    case True
    let ?s = "thread_enqueue_terminated (Some t) (cli s)"
    have "p_state (processes s p) \<noteq> PROCESS_RUNNING" using True by simp
    then have ns: "t \<noteq> Static" using b t(3) by (auto simp: between_def spaces_ok_def members_ok_def)
    have b1: "between lay R T rs (ts @ [t]) ps ?s"
      by (rule enqueue_terminated_between [OF bc]) (use t nt ns idle in auto)
    have c1: "running c T rs ?s"
      by (rule running_change [OF running_change [OF c same_flags(1)] enqueue_terminated_effect(1)])
        (use nt in \<open>simp_all add: same_flags state_of_def enqueue_terminated_effect cli_def\<close>)
    have "thread_unblock (Some t) s = sti ?s" using True eqs by (simp add: thread_unblock_def Let_def)
    moreover have "running c T rs (sti ?s)" by (rule running_change [OF c1 same_flags(2)]) (simp add: same_flags)
    ultimately show ?thesis using between_sti [OF b1] True by (simp add: sti_def)
  next
    case False
    let ?s = "thread_enqueue (Some t) (cli s)"
    have b1: "between lay R T (rs @ [t]) ts ps ?s"
      by (rule enqueue_between [OF bc]) (use t nt idle in auto)
    have c1: "running c T (rs @ [t]) ?s"
      by (rule running_change [OF running_change [OF c same_flags(1)] enqueue_effect(1)])
        (use nt in \<open>simp_all add: same_flags state_of_def enqueue_effect cli_def\<close>)
    have "thread_unblock (Some t) s = sti ?s" using False eqs by (simp add: thread_unblock_def Let_def)
    moreover have "running c T (rs @ [t]) (sti ?s)" by (rule running_change [OF c1 same_flags(2)]) (simp add: same_flags)
    ultimately show ?thesis using between_sti [OF b1] False by (simp add: sti_def)
  qed
qed

section \<open>\<open>process_exit\<close>\<close>

lemma mark_terminated_ok:
  assumes b: "between lay R T rs ts ps s" and c: "running c T rs s" and p: "Some p \<noteq> kernel_process s"
  shows "between lay R T rs ts ps (upd_process p (\<lambda>pr. pr\<lparr>p_state := PROCESS_TERMINATED\<rparr>) s)"
    "running c T rs (upd_process p (\<lambda>pr. pr\<lparr>p_state := PROCESS_TERMINATED\<rparr>) s)"
proof -
  let ?s = "upd_process p (\<lambda>pr. pr\<lparr>p_state := PROCESS_TERMINATED\<rparr>) s"
  have q: "p_next (processes ?s q) = p_next (processes s q)" "p_address_space (processes ?s q) = p_address_space (processes s q)"
    "thread_count (processes ?s q) = thread_count (processes s q)" for q
    by (simp_all add: upd_process_def)
  have f: "mm ?s = mm s" "threads ?s = threads s" "kernel_process ?s = kernel_process s"
    "process_list_head ?s = process_list_head s" "process_list_tail ?s = process_list_tail s"
    "ready_queue_head ?s = ready_queue_head s" "ready_queue_tail ?s = ready_queue_tail s"
    "terminated_queue_head ?s = terminated_queue_head s" "terminated_queue_tail ?s = terminated_queue_tail s"
    "idle_thread_instance ?s = idle_thread_instance s" "current_thread ?s = current_thread s" "current_process ?s = current_process s"
    by (simp_all add: upd_process_def)
  have e: "space_of ?s = space_of s" "process_of ?s = process_of s" "state_of ?s = state_of s"
    "ready ?s = ready s" "terminated ?s = terminated s" "proc_list ?s = proc_list s"
    by (simp_all add: q f space_of_def [abs_def] process_of_def [abs_def] state_of_def [abs_def] ready_def [abs_def]
        terminated_def [abs_def] nexts_def [abs_def] proc_list_def [abs_def])
  have bl: "blocks_ok T (set ps) R ?s = blocks_ok T (set ps) R s" by (rule blocks_ok_cong) (simp_all add: f)
  have sp: "spaces_ok (set ps) R ?s" using b p by (auto simp: between_def spaces_ok_def e f) (auto simp: upd_process_def)
  show "between lay R T rs ts ps ?s"
    using b sp bl by (simp add: between_def members_ok_def states_ok_def idle_wf_def e f q)
  show "running c T rs ?s" using c by (simp add: running_def place_ok_def e f)
qed

lemma terminate_threads_between:
  assumes b: "between lay R T rs ts ps s" and c: "running c T rs s" and p: "Some p \<noteq> kernel_process s"
  shows "\<exists>s'. thread_terminate_process_threads (Some p) s = Some s' \<and> interrupts s' \<and> same_but_queues s s' \<and>
    between lay R T (filter (\<lambda>t. \<not> of_process s p t) rs) (ts @ filter (of_process s p) rs) ps s' \<and>
    running c T (filter (\<lambda>t. \<not> of_process s p t) rs) s'"
proof -
  let ?rs = "filter (\<lambda>t. \<not> of_process s p t) rs" and ?ts = "ts @ filter (of_process s p) rs"
  have st: "states_ok T rs ts s" by (rule states_of_between [OF b])
  have r: "ready s rs" "terminated s ts" using st by (simp_all add: states_ok_def)
  obtain s' where s': "thread_terminate_process_threads (Some p) s = Some s'" "ready s' ?rs" "terminated s' ?ts"
    "same_but_queues s s'" "interrupts s'"
    "\<And>x. state_of s' x = (if x \<in> set rs \<and> of_process s p x then THREAD_TERMINATED else state_of s x)"
    using terminate_process_threads_ok [OF r states_ok_disjoint [OF st], of p] unfolding state_of_def by blast
  have ns: "\<not> of_process s p Static"
    using b p by (auto simp: between_def members_ok_def of_process_def process_of_def)
  have i: "idle_wf T ?rs s'"
    by (rule idle_wf_same [of _ rs s])
      (use st s'(6) same_but_queues_parts [OF s'(4)] in \<open>auto simp: states_ok_def idle_wf_def\<close>)
  have cr: "c \<notin> set rs" by (rule running_ok(1) [OF b c])
  have "set ?ts = {t \<in> known T. state_of s' t = THREAD_TERMINATED}"
    using st s'(6) by (auto simp: states_ok_def)
  then have "states_ok T ?rs ?ts s'"
    using st s'(2,3,6) ns i by (auto simp: states_ok_def)
  then have "between lay R T ?rs ?ts ps s'" by (rule between_queues [OF b s'(4)])
  moreover have "running c T ?rs s'" by (rule running_change [OF c s'(4)]) (use s'(6) cr in simp)
  ultimately show ?thesis using s' by blast
qed

lemma process_exit_ok:
  assumes b: "between lay R T rs ts ps s" and c: "running c T rs s" and p: "Some p \<noteq> kernel_process s"
  shows "\<exists>s'. process_exit (Some p) s = Some s' \<and>
    (let others = filter (\<lambda>t. process_of s t \<noteq> Some p) rs; own = filter (\<lambda>t. process_of s t = Some p) rs
     in if process_of s c = Some p
        then between lay R T (tl others) (ts @ own @ [c]) ps s' \<and> running (next_of_queue s others) T (tl others) s'
        else between lay R T others (ts @ own) ps s' \<and> running c T others s')"
proof -
  let ?s1 = "upd_process p (\<lambda>pr. pr\<lparr>p_state := PROCESS_TERMINATED\<rparr>) s"
  note m = mark_terminated_ok [OF b c p]
  have k1: "Some p \<noteq> kernel_process ?s1" "process_of ?s1 = process_of s" "idle_thread_instance ?s1 = idle_thread_instance s"
    using p by (simp_all add: upd_process_def process_of_def [abs_def])
  have cr: "c \<notin> set rs" "current_thread ?s1 = Some c"
    using running_ok(1) [OF b c] c by (simp_all add: running_def upd_process_def)
  have "of_process ?s1 p t \<longleftrightarrow> process_of s t = Some p" if "t \<in> set rs" for t
    using that cr by (auto simp: of_process_def process_of_def upd_process_def)
  then have op: "filter (of_process ?s1 p) rs = filter (\<lambda>t. process_of s t = Some p) rs"
    "filter (\<lambda>t. \<not> of_process ?s1 p t) rs = filter (\<lambda>t. process_of s t \<noteq> Some p) rs"
    by (auto intro!: filter_cong)
  let ?rs = "filter (\<lambda>t. process_of s t \<noteq> Some p) rs" and ?own = "filter (\<lambda>t. process_of s t = Some p) rs"
  obtain s2 where s2: "thread_terminate_process_threads (Some p) ?s1 = Some s2" "same_but_queues ?s1 s2"
    "between lay R T ?rs (ts @ ?own) ps s2" "running c T ?rs s2"
    using terminate_threads_between [OF m k1(1)] unfolding op by blast
  have po: "process_of s2 = process_of s" and idle: "idle_thread_instance s2 = idle_thread_instance s"
    using same_but_queues_parts(3,10) [OF s2(2)] k1 by simp_all
  have cur: "thread_current s2 = Some c" "t_state (threads s2 c) \<noteq> THREAD_TERMINATED"
    using s2(4) by (simp_all add: running_def thread_current_def state_of_def)
  show ?thesis
  proof (cases "process_of s c = Some p")
    case True
    have kp: "kernel_process s2 = kernel_process s"
      using same_but_queues_parts(11) [OF s2(2)] by (simp add: upd_process_def)
    obtain i where i: "idle_thread_instance s2 = Some i" using idle_exists [OF s2(3)] by blast
    have "c \<noteq> Static" using True p b by (auto simp: between_def members_ok_def)
    moreover have "Some c \<noteq> idle_thread_instance s2"
      using idle_ok(5) [OF s2(3) i] True p po kp i by auto
    ultimately obtain s3 where s3: "thread_terminate s2 = Some s3" "between lay R T (tl ?rs) ((ts @ ?own) @ [c]) ps s3"
      "running (next_of_queue s2 ?rs) T (tl ?rs) s3"
      using thread_terminate_ok [OF s2(3,4)] by blast
    moreover have "next_of_queue s2 ?rs = next_of_queue s ?rs" by (simp add: next_of_queue_def idle split: list.split)
    moreover have "process_exit (Some p) s = Some s3"
      using p s2(1) s3(1) cur True po by (simp add: process_exit_def process_of_def fun_eq_iff)
    ultimately show ?thesis using True by (simp add: Let_def)
  next
    case False
    then have "process_exit (Some p) s = Some s2"
      using p s2(1) cur po by (simp add: process_exit_def process_of_def fun_eq_iff)
    then show ?thesis using False s2 by (simp add: Let_def)
  qed
qed

end
