(* ===== verification/KernReap.thy ===== *)
theory KernReap
  imports KernOps
begin

text \<open>
  Reaping under the invariant of the kernel: \<open>thread_reap_terminated\<close> gives the stack and the struct of
  every terminated thread back to the heap, \<open>process_reap_terminated\<close> the struct and the address space of
  every terminated process without threads.
\<close>

section \<open>Freeing a list of blocks\<close>

lemma free_all_fold: "free_all (\<lambda>p h. Some (f p h)) ps h = Some (fold f ps h)"
  by (induction ps arbitrary: h) auto

lemma kfree_list:
  assumes "heap_good h" "set ps \<subseteq> heap_live h" "distinct ps"
  shows "heap_live (fold (\<lambda>p. kfree (Some p)) ps h) = heap_live h - set ps" "heap_good (fold (\<lambda>p. kfree (Some p)) ps h)"
  using heap.free_all_live [OF assms] by (auto simp: free_all_fold)

definition thread_blocks :: "kstate \<Rightarrow> ref list \<Rightarrow> u32 list" where
  "thread_blocks s ts = concat (map (\<lambda>t. [kernel_stack (threads s t), block_of t]) ts)"

lemma free_blocks_list:
  "(\<forall>t \<in> set ts. kernel_stack (threads s t) \<noteq> 0) \<Longrightarrow>
   fold (free_blocks s) ts h = fold (\<lambda>p. kfree (Some p)) (thread_blocks s ts) h"
  by (induction ts arbitrary: h) (simp_all add: thread_blocks_def free_blocks_def)

lemma thread_blocks_mem:
  "set ts \<subseteq> Dyn ` T \<Longrightarrow> b \<in> set (thread_blocks s ts) \<longleftrightarrow>
     (\<exists>a \<in> T. Dyn a \<in> set ts \<and> (b = block_addr s (BThread a) \<or> b = block_addr s (BStack a)))"
  by (auto simp: thread_blocks_def subset_iff) (metis block_of.simps(1) imageE)+

lemma thread_blocks_distinct:
  assumes "blocks_ok T P R s" "set ts \<subseteq> Dyn ` T" "distinct ts"
  shows "distinct (thread_blocks s ts)"
  using assms(2,3)
proof (induction ts)
  case (Cons t ts)
  then obtain a where a: "t = Dyn a" "a \<in> T" by auto
  have d: "distinct (thread_blocks s ts)" and sub: "set ts \<subseteq> Dyn ` T" using Cons by auto
  have x: "block_addr s (BThread a) \<noteq> block_addr s (BStack a)"
    using blocks_ok_inj [OF assms(1), of "BThread a" "BStack a"] a by auto
  have n: "b \<notin> set (thread_blocks s ts)" if "b = block_addr s (BThread a) \<or> b = block_addr s (BStack a)" for b
  proof
    assume "b \<in> set (thread_blocks s ts)"
    then obtain q where q: "q \<in> T" "Dyn q \<in> set ts" "b = block_addr s (BThread q) \<or> b = block_addr s (BStack q)"
      using thread_blocks_mem [OF sub] by blast
    have "q = a"
      using that q(1,3) a(2) blocks_ok_inj [OF assms(1), of "BThread a" "BThread q"] blocks_ok_inj [OF assms(1), of "BThread a" "BStack q"]
        blocks_ok_inj [OF assms(1), of "BStack a" "BThread q"] blocks_ok_inj [OF assms(1), of "BStack a" "BStack q"] by auto
    then show False using q(2) Cons.prems(2) a(1) by simp
  qed
  have "thread_blocks s (t # ts) = block_addr s (BStack a) # block_addr s (BThread a) # thread_blocks s ts"
    by (simp add: thread_blocks_def a)
  then show ?case using d x n by auto
qed (simp add: thread_blocks_def)

lemma vm_ok_heap:
  assumes "vm_ok lay R m" "heap_good h" "\<And>r q. r \<in> R \<Longrightarrow> tab_of m r = Dyn q \<Longrightarrow> q \<in> heap_live h"
  shows "vm_ok lay R (m\<lparr>heap := h\<rparr>)"
proof -
  have e: "tab_of (m\<lparr>heap := h\<rparr>) = tab_of m" "slot_frame lay (m\<lparr>heap := h\<rparr>) = slot_frame lay m"
    by (rule tab_of_cong slot_frame_cong; simp)+
  have "owners_ok lay R (m\<lparr>heap := h\<rparr>) = owners_ok lay R m" by (rule owners_ok_cong) simp_all
  moreover have "entries_ok lay R (m\<lparr>heap := h\<rparr>) = entries_ok lay R m"
    by (simp add: entries_ok_def e get_word_def)
  ultimately show ?thesis using assms by (simp add: vm_ok_def tables_ok_def e)
qed

section \<open>Reaping threads\<close>

definition without :: "u32 set \<Rightarrow> ref list \<Rightarrow> u32 set" where
  "without T ts = {a \<in> T. Dyn a \<notin> set ts}"

lemma known_without: "Static \<notin> set ts \<Longrightarrow> known (without T ts) = known T - set ts"
  by (auto simp: known_def without_def)

lemma reap_threads_blocks:
  assumes b: "blocks_ok T P R s" and vm: "vm_ok lay R (mm s)" and ts: "set ts \<subseteq> Dyn ` T" "distinct ts"
  defines "h \<equiv> fold (free_blocks s) ts (heap (mm s))"
  shows "heap_good h" "heap_live h = heap_live (heap (mm s)) - set (thread_blocks s ts)"
    "owner_of (without T ts) P R x \<Longrightarrow> block_addr s x \<in> heap_live h"
    "vm_ok lay R ((mm s)\<lparr>heap := h\<rparr>)"
proof -
  have live: "set (thread_blocks s ts) \<subseteq> heap_live (heap (mm s))"
  proof
    fix x assume "x \<in> set (thread_blocks s ts)"
    then obtain a where "a \<in> T" "x = block_addr s (BThread a) \<or> x = block_addr s (BStack a)"
      using thread_blocks_mem [OF ts(1)] by blast
    then show "x \<in> heap_live (heap (mm s))"
      using blocks_ok_live [OF b, of "BThread a"] blocks_ok_live [OF b, of "BStack a"] by auto
  qed
  have "kernel_stack (threads s t) \<noteq> 0" if t: "t \<in> set ts" for t
  proof -
    obtain a where "t = Dyn a" "a \<in> T" using subsetD [OF ts(1) t] by blast
    then show ?thesis using heap_live_nonzero [OF blocks_ok_live [OF b, of "BStack a"]] by simp
  qed
  then have h: "h = fold (\<lambda>p. kfree (Some p)) (thread_blocks s ts) (heap (mm s))"
    unfolding h_def by (intro free_blocks_list) blast
  have hg: "heap_good (heap (mm s))" using vm by (simp add: vm_ok_def)
  note k = kfree_list [OF hg live thread_blocks_distinct [OF b ts]]
  show g: "heap_good h" and l: "heap_live h = heap_live (heap (mm s)) - set (thread_blocks s ts)"
    unfolding h by (rule k)+
  show o: "block_addr s x \<in> heap_live h" if "owner_of (without T ts) P R x" for x
  proof -
    have x: "owner_of T P R x" using that by (cases x) (auto simp: without_def)
    have "block_addr s x \<notin> set (thread_blocks s ts)"
    proof
      assume "block_addr s x \<in> set (thread_blocks s ts)"
      then obtain a where a: "a \<in> T" "Dyn a \<in> set ts"
        "block_addr s x = block_addr s (BThread a) \<or> block_addr s x = block_addr s (BStack a)"
        using thread_blocks_mem [OF ts(1)] by blast
      have "x = BThread a \<or> x = BStack a"
        using blocks_ok_inj [OF b x, of "BThread a"] blocks_ok_inj [OF b x, of "BStack a"] a by auto
      then show False using that a(2) by (auto simp: without_def)
    qed
    then show ?thesis using blocks_ok_live [OF b x] l by simp
  qed
  show "vm_ok lay R ((mm s)\<lparr>heap := h\<rparr>)"
  proof (rule vm_ok_heap [OF vm g])
    fix r q assume r: "r \<in> R" "tab_of (mm s) r = Dyn q"
    then obtain a where "r = Dyn a" using vm by (cases r) (auto simp: vm_ok_def tables_ok_def)
    then show "q \<in> heap_live h" using o [of "BTable a"] r by simp
  qed
qed

lemma reap_threads_ok:
  assumes b: "between lay R T rs ts ps s" and c: "c \<notin> set ts"
  shows "\<exists>s'. thread_reap_terminated (Some c) s = Some s' \<and> between lay R (without T ts) rs [] ps s' \<and> reap_frame s s' \<and>
    heap_live (heap (mm s')) = heap_live (heap (mm s)) - set (thread_blocks s ts)"
proof -
  have st: "states_ok T rs ts s" and bl: "blocks_ok T (set ps) R s" and vm: "vm_ok lay R (mm s)"
    and me: "members_ok T (set ps) s" and pl: "proc_list s ps" and sp: "spaces_ok (set ps) R s"
    using b by (simp_all add: between_def)
  have te: "terminated s ts" and re: "ready s rs" and ns: "Static \<notin> set ts"
    and sub: "set ts \<subseteq> Dyn ` T" and di: "distinct ts"
    using st by (auto simp: states_ok_def known_def terminated_def queue_of_def)
  have flt: "filter (\<lambda>t. Some t = Some c) ts = []" "filter (\<lambda>t. Some t \<noteq> Some c) ts = ts"
    using c by (auto simp: filter_empty_conv filter_id_conv)
  obtain s' where s': "thread_reap_terminated (Some c) s = Some s'" "terminated s' []" "reaped s ts s'"
    "\<forall>x. x \<notin> set ts \<longrightarrow> nexts s' x = nexts s x"
    using thread_reap_terminated_ok [OF te, of "Some c"] ns unfolding flt by blast
  have f: "reap_frame s s'" and hp: "heap (mm s') = fold (free_blocks s) ts (heap (mm s))"
    and tc: "\<And>p. unat (thread_count (processes s' p)) = unat (thread_count (processes s p)) - threads_in s p ts"
    using s'(3) by (simp_all add: reaped_def)
  obtain h where h: "mm s' = (mm s)\<lparr>heap := h\<rparr>" using f by (auto simp: reap_frame_def)
  then have mm': "mm s' = (mm s)\<lparr>heap := fold (free_blocks s) ts (heap (mm s))\<rparr>" using hp by simp
  note rb = reap_threads_blocks [OF bl vm sub di]
  have vm': "vm_ok lay R (mm s')" unfolding mm' by (rule rb(4))
  have ks: "kernel_stack (threads s' t) = kernel_stack (threads s t)" for t using f by (simp add: reap_frame_def)
  have tab: "tab_of (mm s') = tab_of (mm s)" by (rule tab_of_cong) (simp add: mm')
  have ba: "block_addr s' x = block_addr s x" for x by (cases x) (simp_all add: ks tab)
  have "owner_of T (set ps) R x" if "owner_of (without T ts) (set ps) R x" for x
    using that by (cases x) (auto simp: without_def)
  then have bl': "blocks_ok (without T ts) (set ps) R s'"
    using bl rb(3) by (auto simp: blocks_ok_def ba hp)
  have so: "state_of s' = state_of s" "process_of s' = process_of s"
    using f by (auto simp: reap_frame_def state_of_def process_of_def)
  have pr: "\<exists>n. processes s' p = (processes s p)\<lparr>thread_count := n\<rparr>" for p using f by (simp add: reap_frame_def)
  have q: "p_next (processes s' p) = p_next (processes s p)" "p_address_space (processes s' p) = p_address_space (processes s p)"
    "p_state (processes s' p) = p_state (processes s p)" for p using pr [of p] by auto
  have fr: "kernel_process s' = kernel_process s" "process_list_head s' = process_list_head s"
    "process_list_tail s' = process_list_tail s" "idle_thread_instance s' = idle_thread_instance s"
    using f by (simp_all add: reap_frame_def)
  have pl': "proc_list s' ps" using pl by (simp add: proc_list_def q fr)
  have "space_of s' = space_of s" by (simp add: space_of_def [abs_def] q)
  then have sp': "spaces_ok (set ps) R s'" using sp by (simp add: spaces_ok_def q fr)
  note kw = known_without [OF ns, of T]
  have me': "members_ok (without T ts) (set ps) s'"
  proof -
    have "unat (thread_count (processes s' p)) = card {t \<in> known (without T ts). process_of s t = Some p}" if p: "p \<in> set ps" for p
    proof -
      have fin: "finite {t \<in> known T. process_of s t = Some p}"
        using threads_finite(1) [OF bl] by (simp add: known_def)
      have "threads_in s p ts = card {t \<in> set ts. process_of s t = Some p}"
        using di by (simp add: threads_in_def process_of_def distinct_length_filter Int_def conj_commute)
      moreover have "{t \<in> known (without T ts). process_of s t = Some p} =
          {t \<in> known T. process_of s t = Some p} - {t \<in> set ts. process_of s t = Some p}"
        using kw by auto
      moreover have "{t \<in> set ts. process_of s t = Some p} \<subseteq> {t \<in> known T. process_of s t = Some p}"
        using sub by (auto simp: known_def)
      ultimately show ?thesis using tc [of p] me p fin by (simp add: members_ok_def card_Diff_subset finite_subset)
    qed
    then show ?thesis using me kw by (auto simp: members_ok_def so fr)
  qed
  have "ready s' rs" by (rule reap_ready [OF s'(3) re states_ok_disjoint [OF st] s'(4)])
  moreover have "idle_wf (without T ts) rs s'"
    using st so fr by (auto simp: states_ok_def idle_wf_def without_def)
  ultimately have "states_ok (without T ts) rs [] s'"
    using st s'(2) kw so states_ok_disjoint [OF st] by (auto simp: states_ok_def)
  then have "between lay R (without T ts) rs [] ps s'"
    using vm' bl' pl' sp' me' by (simp add: between_def)
  then show ?thesis using s'(1) f rb(2) hp by auto
qed

end
