(* ===== verification/ProcReap.thy ===== *)
theory ProcReap
  imports KernReap
begin

text \<open>
  \<open>process_destroy\<close> and \<open>process_reap_terminated\<close> under the invariant of the kernel: what they give back to
  the heap and to the frame allocator, and that the others keep theirs.
\<close>

section \<open>Unlinking a process\<close>

definition relinked :: "kstate \<Rightarrow> kstate \<Rightarrow> bool" where
  "relinked s s' \<longleftrightarrow>
     (\<exists>pr h t. s' = s\<lparr>processes := pr, process_list_head := h, process_list_tail := t\<rparr> \<and>
        (\<forall>q. pr q = (processes s q)\<lparr>p_next := p_next (pr q)\<rparr>))"

lemma relinkedI:
  assumes "s' = s\<lparr>processes := pr, process_list_head := h, process_list_tail := t\<rparr>"
    and "\<And>q. pr q = (processes s q)\<lparr>p_next := p_next (pr q)\<rparr>"
  shows "relinked s s'"
  using assms unfolding relinked_def by blast

lemma unlink_loop_ok:
  assumes "proc_list s (kept @ us)" "linked (\<lambda>q. p_next (processes s q)) current us" "p \<in> set us" "p \<notin> set kept"
  shows "\<exists>s'. unlink_loop p (last_of kept) current s = Some s' \<and> proc_list s' (kept @ remove1 p us) \<and> relinked s s'"
  using assms
proof (induction us arbitrary: kept current)
  case (Cons c us)
  have cur: "current = Some c" and l: "linked (\<lambda>q. p_next (processes s q)) (p_next (processes s c)) us"
    using Cons.prems(2) by simp_all
  show ?case
  proof (cases "c = p")
    case False
    have "last_of (kept @ [c]) = Some c" by (simp add: last_of_def)
    moreover have "unlink_loop p (last_of kept) current s = unlink_loop p (Some c) (p_next (processes s c)) s"
      using cur False by (subst unlink_loop.simps) simp
    ultimately show ?thesis using Cons.IH [of "kept @ [c]" "p_next (processes s c)"] Cons.prems l False by simp
  next
    case True
    let ?s1 = "case last_of kept of None \<Rightarrow> s\<lparr>process_list_head := p_next (processes s p)\<rparr>
        | Some q \<Rightarrow> upd_process q (\<lambda>pr. pr\<lparr>p_next := p_next (processes s p)\<rparr>) s"
    let ?s = "if process_list_tail ?s1 = Some p then ?s1\<lparr>process_list_tail := last_of kept\<rparr> else ?s1"
    have run: "unlink_loop p (last_of kept) current s = Some ?s"
      using cur True by (subst unlink_loop.simps) (simp add: Let_def)
    have d: "p \<notin> set kept \<union> set us" using Cons.prems(1) True by (auto simp: proc_list_def queue_of_def)
    have nx: "p_next (processes ?s q) = (if Some q = last_of kept then p_next (processes s p) else p_next (processes s q))" for q
      by (cases "last_of kept") (auto simp: upd_process_def)
    have hd: "process_list_head ?s = (if kept = [] then p_next (processes s p) else process_list_head s)"
      "process_list_tail ?s = (if process_list_tail s = Some p then last_of kept else process_list_tail s)"
      by (auto simp: upd_process_def last_of_def)
    have "queue_of (\<lambda>q. p_next (processes ?s q)) (if kept = [] then p_next (processes s p) else process_list_head s)
       (if process_list_tail s = Some p then last_of kept else process_list_tail s) (kept @ us)"
      by (rule queue_of_unlink [of "\<lambda>q. p_next (processes s q)"])
        (use Cons.prems(1) d True nx in \<open>auto simp: proc_list_def\<close>)
    then have "proc_list ?s (kept @ us)" unfolding proc_list_def hd .
    moreover have "relinked s ?s"
    proof (rule relinkedI)
      show "?s = s\<lparr>processes := processes ?s, process_list_head := process_list_head ?s, process_list_tail := process_list_tail ?s\<rparr>"
        by (cases "last_of kept") (simp_all add: upd_process_def)
      show "processes ?s q = (processes s q)\<lparr>p_next := p_next (processes ?s q)\<rparr>" for q
        by (cases "last_of kept") (auto simp: upd_process_def)
    qed
    ultimately show ?thesis using run True by auto
  qed
qed simp

section \<open>Destroying a process\<close>

definition proc_blocks :: "kstate \<Rightarrow> u32 \<Rightarrow> u32 set" where
  "proc_blocks s p = {p, block_of (tab_of (mm s) (the (space_of s p)))}"

definition proc_frames :: "kstate \<Rightarrow> u32 \<Rightarrow> u32 set" where
  "proc_frames s p = (case space_of s p of Some (Dyn as) \<Rightarrow> owned_frames as (mm s) | _ \<Rightarrow> {})"

text \<open>What destroying \<open>p\<close> leaves alone.\<close>

definition apart_from :: "u32 set \<Rightarrow> kstate \<Rightarrow> kstate \<Rightarrow> bool" where
  "apart_from D s s' \<longleftrightarrow>
     threads s' = threads s \<and> current_thread s' = current_thread s \<and> idle_thread_instance s' = idle_thread_instance s \<and>
     current_process s' = current_process s \<and> kernel_process s' = kernel_process s \<and>
     ready_queue_head s' = ready_queue_head s \<and> ready_queue_tail s' = ready_queue_tail s \<and>
     terminated_queue_head s' = terminated_queue_head s \<and> terminated_queue_tail s' = terminated_queue_tail s \<and>
     interrupts s' = interrupts s \<and> current_address_space (mm s') = current_address_space (mm s) \<and>
     (\<forall>q. q \<notin> D \<longrightarrow> space_of s' q = space_of s q \<and> p_state (processes s' q) = p_state (processes s q) \<and>
        thread_count (processes s' q) = thread_count (processes s q) \<and> pid (processes s' q) = pid (processes s q))"

lemma apart_from_refl: "apart_from D s s"
  by (simp add: apart_from_def)

lemma apart_from_trans: "apart_from D s s' \<Longrightarrow> apart_from E s' s'' \<Longrightarrow> apart_from (D \<union> E) s s''"
  by (simp add: apart_from_def)

lemma relinked_fields:
  assumes "relinked s s'"
  shows "threads s' = threads s" "mm s' = mm s" "current_thread s' = current_thread s"
    "idle_thread_instance s' = idle_thread_instance s" "current_process s' = current_process s"
    "kernel_process s' = kernel_process s" "ready_queue_head s' = ready_queue_head s" "ready_queue_tail s' = ready_queue_tail s"
    "terminated_queue_head s' = terminated_queue_head s" "terminated_queue_tail s' = terminated_queue_tail s"
    "interrupts s' = interrupts s" "space_of s' q = space_of s q" "p_state (processes s' q) = p_state (processes s q)"
    "thread_count (processes s' q) = thread_count (processes s q)" "pid (processes s' q) = pid (processes s q)"
proof -
  obtain pr h t where s': "s' = s\<lparr>processes := pr, process_list_head := h, process_list_tail := t\<rparr>"
    and pr: "\<And>q. pr q = (processes s q)\<lparr>p_next := p_next (pr q)\<rparr>"
    using assms unfolding relinked_def by blast
  have q: "p_address_space (pr q) = p_address_space (processes s q)" "p_state (pr q) = p_state (processes s q)"
    "thread_count (pr q) = thread_count (processes s q)" "pid (pr q) = pid (processes s q)"
    by (subst pr, simp)+
  show "threads s' = threads s" "mm s' = mm s" "current_thread s' = current_thread s"
    "idle_thread_instance s' = idle_thread_instance s" "current_process s' = current_process s"
    "kernel_process s' = kernel_process s" "ready_queue_head s' = ready_queue_head s" "ready_queue_tail s' = ready_queue_tail s"
    "terminated_queue_head s' = terminated_queue_head s" "terminated_queue_tail s' = terminated_queue_tail s"
    "interrupts s' = interrupts s" by (simp_all add: s')
  show "space_of s' q = space_of s q" "p_state (processes s' q) = p_state (processes s q)"
    "thread_count (processes s' q) = thread_count (processes s q)" "pid (processes s' q) = pid (processes s q)"
    by (simp_all add: s' space_of_def q)
qed

definition home :: "u32 list \<Rightarrow> kstate \<Rightarrow> bool" where
  "home ps s \<longleftrightarrow> (\<exists>cp \<in> set ps. current_process s = Some cp \<and> current_address_space (mm s) = space_of s cp)"

lemma place_home: "between lay R T rs ts ps s \<Longrightarrow> n \<in> known T \<Longrightarrow> place_ok n s \<Longrightarrow> home ps s"
  by (auto simp: between_def members_ok_def place_ok_def home_def)

lemma destroy_space_of_process:
  assumes b: "between lay R T rs ts ps s" and h: "home ps s" and p: "p \<in> set ps" "reapable p s"
  shows "\<exists>as blk m. space_of s p = Some (Dyn as) \<and> Dyn as \<in> R \<and> tab_of (mm s) (Dyn as) = Dyn blk \<and>
    address_space_destroy (Some (Dyn as)) (mm s) = Some m \<and> vm_ok lay (R - {Dyn as}) m \<and>
    current_address_space m = current_address_space (mm s) \<and> frame_live (pmm m) = frame_live (pmm (mm s)) - owned_frames as (mm s) \<and>
    heap_live (heap m) = heap_live (heap (mm s)) - {blk} \<and>
    (\<forall>r \<in> R - {Dyn as}. spaces m r = spaces (mm s) r \<and> (\<forall>i. table_for m r i = table_for (mm s) r i)) \<and>
    (\<forall>r \<in> R - {Dyn as}. \<forall>v. translate m r v = translate (mm s) r v)"
proof -
  have sp: "spaces_ok (set ps) R s" and vm: "vm_ok lay R (mm s)" using b by (simp_all add: between_def)
  have inj: "inj_on (space_of s) (set ps)" using sp by (simp add: spaces_ok_def)
  obtain r where r: "r \<in> R" "space_of s p = Some r" using sp p(1) by (auto simp: spaces_ok_def)
  obtain k where k: "k \<in> set ps" "kernel_process s = Some k" "space_of s k = Some Static" using sp by (auto simp: spaces_ok_def)
  have "p \<noteq> k" using p(2) k(2) by (auto simp: reapable_def)
  then have "r \<noteq> Static" using inj_onD [OF inj _ p(1) k(1)] r k by auto
  then obtain as where as: "r = Dyn as" by (cases r) auto
  obtain cp where cp: "cp \<in> set ps" "current_process s = Some cp" "current_address_space (mm s) = space_of s cp"
    using h by (auto simp: home_def)
  have "p \<noteq> cp" using p(2) cp(2) by (auto simp: reapable_def)
  then have nc: "current_address_space (mm s) \<noteq> Some (Dyn as)"
    using inj_onD [OF inj _ p(1) cp(1)] r(2) as cp(3) by auto
  obtain blk where blk: "tab_of (mm s) (Dyn as) = Dyn blk"
    using vm r as by (cases "tab_of (mm s) (Dyn as)") (auto simp: vm_ok_def tables_ok_def)
  from destroy_ok [OF vm r(1) [unfolded as] nc blk] show ?thesis using r as blk by blast
qed

lemma process_destroy_ok:
  assumes b: "between lay R T rs ts ps s" and h: "home ps s" and p: "p \<in> set ps" "reapable p s"
  shows "\<exists>s'. process_destroy (Some p) s = Some s' \<and>
    between lay (R - {the (space_of s p)}) T rs ts (remove1 p ps) s' \<and> home (remove1 p ps) s' \<and> apart_from {p} s s' \<and>
    heap_live (heap (mm s')) = heap_live (heap (mm s)) - proc_blocks s p \<and>
    frame_live (pmm (mm s')) = frame_live (pmm (mm s)) - proc_frames s p \<and>
    (\<forall>q \<in> set ps - {p}. proc_blocks s' q = proc_blocks s q \<and> proc_frames s' q = proc_frames s q)"
proof -
  have vm: "vm_ok lay R (mm s)" and bl: "blocks_ok T (set ps) R s" and pl: "proc_list s ps" and sp: "spaces_ok (set ps) R s"
    and me: "members_ok T (set ps) s" and st: "states_ok T rs ts s" using b by (simp_all add: between_def)
  obtain as blk m where d: "space_of s p = Some (Dyn as)" "Dyn as \<in> R" "tab_of (mm s) (Dyn as) = Dyn blk"
    "address_space_destroy (Some (Dyn as)) (mm s) = Some m" "vm_ok lay (R - {Dyn as}) m"
    "current_address_space m = current_address_space (mm s)" "frame_live (pmm m) = frame_live (pmm (mm s)) - owned_frames as (mm s)"
    "heap_live (heap m) = heap_live (heap (mm s)) - {blk}"
    and oth: "\<And>r. r \<in> R - {Dyn as} \<Longrightarrow> spaces m r = spaces (mm s) r"
      "\<And>r i. r \<in> R - {Dyn as} \<Longrightarrow> table_for m r i = table_for (mm s) r i"
    using destroy_space_of_process [OF b h p] by blast
  let ?R = "R - {Dyn as}" and ?ps = "remove1 p ps"
  have tab: "tab_of m r = tab_of (mm s) r" if "r \<in> ?R" for r using oth(1) [OF that] by (simp add: tab_of_def)
  have dps: "distinct ps" using pl by (simp add: proc_list_def queue_of_def)
  have set_ps: "set ?ps = set ps - {p}" using dps by simp
  let ?s2 = "upd_process p (\<lambda>pr. pr\<lparr>p_address_space := None\<rparr>) (s\<lparr>mm := m\<rparr>)"
  have nx: "p_next (processes ?s2 q) = p_next (processes s q)" for q by (simp add: upd_process_def)
  have hd: "process_list_head ?s2 = process_list_head s" "process_list_tail ?s2 = process_list_tail s"
    by (simp_all add: upd_process_def)
  have pl2: "proc_list ?s2 ([] @ ps)" using pl by (simp add: proc_list_def nx hd)
  have lk: "linked (\<lambda>q. p_next (processes ?s2 q)) (process_list_head s) ps" using pl by (simp add: proc_list_def queue_of_def nx)
  obtain s3 where s3: "unlink_loop p None (process_list_head s) ?s2 = Some s3" "proc_list s3 ?ps" "relinked ?s2 s3"
    using unlink_loop_ok [OF pl2 lk p(1)] by (auto simp: last_of_def)
  note rf = relinked_fields [OF s3(3)]
  let ?s = "k_free (Some p) s3"
  let ?h = "kfree (Some p) (heap m)"
  have ksp: "Some p \<noteq> kernel_process s" "Some p \<noteq> current_process s" "thread_count (processes s p) = 0"
    using p(2) by (auto simp: reapable_def)
  have run: "process_destroy (Some p) s = Some ?s"
    using ksp d(1,4) s3(1) hd by (simp add: process_destroy_def k_destroy_space_def space_of_def upd_process_def)
  have m3: "mm s3 = m" using rf(2) by (simp add: upd_process_def)
  have mm': "mm ?s = m\<lparr>heap := ?h\<rparr>" by (simp add: k_free_def m3)
  have pb: "p \<noteq> blk" using blocks_ok_inj [OF bl, of "BProc p" "BTable as"] p(1) d(2,3) by auto
  have "p \<in> heap_live (heap m)" using blocks_ok_live [OF bl, of "BProc p"] p(1) d(8) pb by simp
  then have hl: "heap_good ?h" "heap_live ?h = heap_live (heap (mm s)) - {p, blk}"
    using heap.free_live [of "heap m" p] d(5,8) by (auto simp: vm_ok_def)
  have ow: "owner_of T (set ps) R x" if "owner_of T (set ps - {p}) ?R x" for x using that by (cases x) auto
  have addr: "block_addr s x \<in> heap_live ?h" if x: "owner_of T (set ps - {p}) ?R x" for x
  proof -
    have "block_addr s x \<noteq> p"
    proof
      assume "block_addr s x = p"
      then have "x = BProc p" using blocks_ok_inj [OF bl ow [OF x], of "BProc p"] p(1) by simp
      then show False using x by simp
    qed
    moreover have "block_addr s x \<noteq> blk"
    proof
      assume "block_addr s x = blk"
      then have "x = BTable as" using blocks_ok_inj [OF bl ow [OF x], of "BTable as"] d(2,3) by simp
      then show False using x by simp
    qed
    ultimately show ?thesis using blocks_ok_live [OF bl ow [OF x]] unfolding hl(2) by simp
  qed
  have vm': "vm_ok lay ?R (mm ?s)" unfolding mm'
  proof (rule vm_ok_heap [OF d(5) hl(1)])
    fix r q assume r: "r \<in> ?R" "tab_of m r = Dyn q"
    then obtain a where "r = Dyn a" using vm tab by (cases r) (auto simp: vm_ok_def tables_ok_def)
    moreover have "tab_of (mm s) r = Dyn q" using tab [OF r(1)] r(2) by simp
    ultimately show "q \<in> heap_live ?h" using addr [of "BTable a"] r(1) by simp
  qed
  have th: "threads ?s = threads s" using rf(1) by (simp add: k_free_def upd_process_def)
  have tab': "tab_of (mm ?s) r = tab_of (mm s) r" if "r \<in> ?R" for r
    using tab [OF that] unfolding mm' by (simp add: tab_of_def)
  have ba: "block_addr ?s x = block_addr s x" if x: "owner_of T (set ps - {p}) ?R x" for x
    using x th tab' by (cases x) auto
  have bl': "blocks_ok T (set ps - {p}) ?R ?s" unfolding blocks_ok_def
  proof (intro conjI allI impI)
    show "block_addr ?s x \<in> heap_live (heap (mm ?s))" if "owner_of T (set ps - {p}) ?R x" for x
      using addr [OF that] ba [OF that] by (simp add: mm')
    show "x = y" if "owner_of T (set ps - {p}) ?R x \<and> owner_of T (set ps - {p}) ?R y \<and> block_addr ?s x = block_addr ?s y" for x y
      using that ba blocks_ok_inj [OF bl ow ow, of x y] by auto
  qed
  have ap: "apart_from {p} s ?s"
    using rf d(6) m3 by (auto simp: apart_from_def k_free_def upd_process_def space_of_def)
  have eq: "space_of ?s q = space_of s q" "p_state (processes ?s q) = p_state (processes s q)"
    "thread_count (processes ?s q) = thread_count (processes s q)" if "q \<noteq> p" for q using ap that by (auto simp: apart_from_def)
  have fr: "kernel_process ?s = kernel_process s" "idle_thread_instance ?s = idle_thread_instance s" "current_process ?s = current_process s"
    "ready_queue_head ?s = ready_queue_head s" "ready_queue_tail ?s = ready_queue_tail s"
    "terminated_queue_head ?s = terminated_queue_head s" "terminated_queue_tail ?s = terminated_queue_tail s"
    "current_address_space (mm ?s) = current_address_space (mm s)"
    using ap by (simp_all add: apart_from_def)
  have inj: "inj_on (space_of s) (set ps)" using sp by (simp add: spaces_ok_def)
  have nas: "space_of s q \<noteq> Some (Dyn as)" if "q \<in> set ps" "q \<noteq> p" for q
    using inj_onD [OF inj _ that(1) p(1)] that d(1) by auto
  have sp': "spaces_ok (set ps - {p}) ?R ?s"
  proof -
    have "\<exists>r \<in> ?R. space_of ?s q = Some r" if q: "q \<in> set ps - {p}" for q
    proof -
      obtain r where "r \<in> R" "space_of s q = Some r" using sp q by (auto simp: spaces_ok_def)
      then show ?thesis using nas [of q] eq(1) [of q] q by auto
    qed
    moreover have "inj_on (space_of ?s) (set ps - {p})"
      using inj eq(1) by (auto simp: inj_on_def)
    moreover obtain k where "k \<in> set ps" "kernel_process s = Some k" "space_of s k = Some Static" "p_state (processes s k) = PROCESS_RUNNING"
      using sp by (auto simp: spaces_ok_def)
    moreover from this(2) have "k \<noteq> p" using ksp(1) by auto
    ultimately show ?thesis using eq fr by (auto simp: spaces_ok_def)
  qed
  have po: "process_of ?s = process_of s" "state_of ?s = state_of s"
    by (simp_all add: process_of_def [abs_def] state_of_def [abs_def] th)
  have "process_of s t \<noteq> Some p" if "t \<in> known T" for t
  proof
    assume "process_of s t = Some p"
    then have "t \<in> {t \<in> known T. process_of s t = Some p}" using that by simp
    moreover have "card {t \<in> known T. process_of s t = Some p} = 0" using me p(1) ksp(3) by (auto simp: members_ok_def)
    moreover have "finite {t \<in> known T. process_of s t = Some p}" using threads_finite(1) [OF bl] by (simp add: known_def)
    ultimately show False by auto
  qed
  then have me': "members_ok T (set ps - {p}) ?s"
    using me eq(3) by (simp add: members_ok_def po fr) blast
  have "ready ?s = ready s" "terminated ?s = terminated s"
    by (simp_all add: ready_def [abs_def] terminated_def [abs_def] nexts_def [abs_def] th fr)
  then have st': "states_ok T rs ts ?s" using st by (simp add: states_ok_def idle_wf_def po fr)
  have pl': "proc_list ?s ?ps" using s3(2) by (simp add: proc_list_def k_free_def)
  have bt: "between lay ?R T rs ts ?ps ?s"
    using vm' bl' sp' me' st' pl' by (simp add: between_def set_ps)
  obtain cp where "cp \<in> set ps" "current_process s = Some cp" "current_address_space (mm s) = space_of s cp"
    using h by (auto simp: home_def)
  moreover from this(2) have "cp \<noteq> p" using ksp(2) by auto
  ultimately have hm: "home ?ps ?s" using set_ps fr eq(1) by (auto simp: home_def)
  have keep: "proc_blocks ?s q = proc_blocks s q \<and> proc_frames ?s q = proc_frames s q" if q: "q \<in> set ps - {p}" for q
  proof -
    obtain r where r: "r \<in> R" "space_of s q = Some r" using sp q by (auto simp: spaces_ok_def)
    have rR: "r \<in> ?R" using r nas [of q] q by auto
    have "space_of ?s q = Some r" using eq(1) [of q] q r by simp
    moreover have "owned_frames a (mm ?s) = owned_frames a (mm s)" if "r = Dyn a" for a
    proof -
      have "table_for (mm ?s) (Dyn a) = table_for m (Dyn a)" by (rule ext) (simp add: mm' table_for_def tab_of_def)
      then have "table_for (mm ?s) (Dyn a) = table_for (mm s) (Dyn a)" using oth(2) rR that by (simp add: fun_eq_iff)
      then show ?thesis using oth(1) rR that by (simp add: owned_frames_def mm')
    qed
    ultimately show ?thesis using tab' [OF rR] r by (cases r) (auto simp: proc_blocks_def proc_frames_def)
  qed
  have "heap_live (heap (mm ?s)) = heap_live (heap (mm s)) - proc_blocks s p"
    using hl(2) d(1,3) by (simp add: mm' proc_blocks_def)
  moreover have "frame_live (pmm (mm ?s)) = frame_live (pmm (mm s)) - proc_frames s p"
    using d(1,7) by (simp add: mm' proc_frames_def)
  ultimately show ?thesis using run bt hm ap keep d(1) by auto
qed

section \<open>Reaping the processes\<close>

lemma linked_suffix: "linked nx h (xs @ ys) \<Longrightarrow> \<exists>y. linked nx y ys"
  by (induction xs arbitrary: h) auto

lemma linked_head: "linked nx x ys \<Longrightarrow> linked nx' y ys \<Longrightarrow> x = y"
  by (cases ys) auto

lemma apart_reapable: "apart_from D s s' \<Longrightarrow> q \<notin> D \<Longrightarrow> reapable q s' = reapable q s"
  by (simp add: apart_from_def reapable_def)

lemma process_reap_loop_None [simp]: "process_reap_loop None s = Some s"
  by (subst process_reap_loop.simps) simp

lemma process_reap_loop_Some:
  "process_reap_loop (Some p) s =
     (if reapable p s then do { s' \<leftarrow> process_destroy (Some p) s; process_reap_loop (p_next (processes s p)) s' }
      else process_reap_loop (p_next (processes s p)) s)"
  by (subst process_reap_loop.simps) (simp add: Let_def)

definition reaped_procs :: "u32 set \<Rightarrow> kstate \<Rightarrow> kstate \<Rightarrow> bool" where
  "reaped_procs D s s' \<longleftrightarrow> apart_from D s s' \<and>
     heap_live (heap (mm s')) = heap_live (heap (mm s)) - (\<Union>p \<in> D. proc_blocks s p) \<and>
     frame_live (pmm (mm s')) = frame_live (pmm (mm s)) - (\<Union>p \<in> D. proc_frames s p)"

lemma process_reap_loop_ok:
  assumes "between lay R T rs ts (kept @ us) s" "home (kept @ us) s" "linked (\<lambda>q. p_next (processes s q)) current us"
  shows "\<exists>s'. process_reap_loop current s = Some s' \<and>
    between lay (R - {the (space_of s p) |p. p \<in> set us \<and> reapable p s}) T rs ts (kept @ filter (\<lambda>p. \<not> reapable p s) us) s' \<and>
    home (kept @ filter (\<lambda>p. \<not> reapable p s) us) s' \<and> reaped_procs {p \<in> set us. reapable p s} s s'"
  using assms
proof (induction us arbitrary: kept current s R)
  case Nil
  then show ?case by (simp add: reaped_procs_def apart_from_refl)
next
  case (Cons c us)
  have cur: "current = Some c" and l: "linked (\<lambda>q. p_next (processes s q)) (p_next (processes s c)) us"
    using Cons.prems(3) by simp_all
  have d: "distinct (kept @ c # us)" using Cons.prems(1) by (simp add: between_def proc_list_def queue_of_def)
  show ?case
  proof (cases "reapable c s")
    case False
    have e: "{p \<in> set (c # us). reapable p s} = {p \<in> set us. reapable p s}"
      "{the (space_of s p) |p. p \<in> set (c # us) \<and> reapable p s} = {the (space_of s p) |p. p \<in> set us \<and> reapable p s}"
      using False by auto
    have "filter (\<lambda>p. \<not> reapable p s) (c # us) = c # filter (\<lambda>p. \<not> reapable p s) us" using False by simp
    then show ?thesis unfolding e using Cons.IH [of R "kept @ [c]" s "p_next (processes s c)"] Cons.prems l False cur
      by (simp add: process_reap_loop_Some)
  next
    case True
    obtain s1 where s1: "process_destroy (Some c) s = Some s1"
      "between lay (R - {the (space_of s c)}) T rs ts (remove1 c (kept @ c # us)) s1" "home (remove1 c (kept @ c # us)) s1"
      "apart_from {c} s s1" "heap_live (heap (mm s1)) = heap_live (heap (mm s)) - proc_blocks s c"
      "frame_live (pmm (mm s1)) = frame_live (pmm (mm s)) - proc_frames s c"
      and keep: "\<And>q. q \<in> set (kept @ c # us) - {c} \<Longrightarrow> proc_blocks s1 q = proc_blocks s q \<and> proc_frames s1 q = proc_frames s q"
      using process_destroy_ok [OF Cons.prems(1,2) _ True] by auto
    have rm: "remove1 c (kept @ c # us) = kept @ us" using d by (simp add: remove1_append)
    have rp: "reapable q s1 = reapable q s" "space_of s1 q = space_of s q" if "q \<in> set us" for q
    proof -
      have q: "q \<notin> {c}" using that d by auto
      then show "reapable q s1 = reapable q s" by (rule apart_reapable [OF s1(4)])
      show "space_of s1 q = space_of s q" using s1(4) q unfolding apart_from_def by blast
    qed
    have f: "filter (\<lambda>p. \<not> reapable p s1) us = filter (\<lambda>p. \<not> reapable p s) us" using rp by (auto intro: filter_cong)
    have "\<exists>y. linked (\<lambda>q. p_next (processes s1 q)) y us"
      using s1(2) unfolding rm by (auto simp: between_def proc_list_def queue_of_def intro: linked_suffix)
    then have l1: "linked (\<lambda>q. p_next (processes s1 q)) (p_next (processes s c)) us" using linked_head [OF l] by blast
    obtain s' where s': "process_reap_loop (p_next (processes s c)) s1 = Some s'"
      "between lay (R - {the (space_of s c)} - {the (space_of s1 p) |p. p \<in> set us \<and> reapable p s1}) T rs ts
         (kept @ filter (\<lambda>p. \<not> reapable p s) us) s'"
      "home (kept @ filter (\<lambda>p. \<not> reapable p s) us) s'" "reaped_procs {p \<in> set us. reapable p s1} s1 s'"
      using Cons.IH [OF s1(2,3) [unfolded rm] l1] unfolding f by blast
    let ?D = "{p \<in> set us. reapable p s}"
    have D: "{p \<in> set us. reapable p s1} = ?D" using rp by auto
    have RR: "R - {the (space_of s c)} - {the (space_of s1 p) |p. p \<in> set us \<and> reapable p s1} =
        R - {the (space_of s p) |p. p \<in> set (c # us) \<and> reapable p s}"
    proof -
      have "{the (space_of s1 p) |p. p \<in> set us \<and> reapable p s1} = {the (space_of s p) |p. p \<in> set us \<and> reapable p s}"
        using rp by metis
      then show ?thesis using True by auto
    qed
    have D': "{p \<in> set (c # us). reapable p s} = {c} \<union> ?D" using True by auto
    have "proc_blocks s1 q = proc_blocks s q" "proc_frames s1 q = proc_frames s q" if "q \<in> ?D" for q
      using keep [of q] that d by auto
    then have "(\<Union>p \<in> ?D. proc_blocks s1 p) = (\<Union>p \<in> ?D. proc_blocks s p)" "(\<Union>p \<in> ?D. proc_frames s1 p) = (\<Union>p \<in> ?D. proc_frames s p)"
      by auto
    then have "reaped_procs ({c} \<union> ?D) s s'"
      using s'(4) s1(4-6) apart_from_trans [OF s1(4), of ?D s'] unfolding reaped_procs_def D by auto
    then show ?thesis using s'(1,2,3) s1(1) True cur unfolding RR D' by (auto simp: process_reap_loop_Some)
  qed
qed

lemma process_reap_terminated_ok:
  assumes "between lay R T rs ts ps s" "home ps s"
  shows "\<exists>s'. process_reap_terminated s = Some s' \<and>
    between lay (R - {the (space_of s p) |p. p \<in> set ps \<and> reapable p s}) T rs ts (filter (\<lambda>p. \<not> reapable p s) ps) s' \<and>
    home (filter (\<lambda>p. \<not> reapable p s) ps) s' \<and> reaped_procs {p \<in> set ps. reapable p s} s s'"
proof -
  have "linked (\<lambda>q. p_next (processes s q)) (process_list_head s) ps"
    using assms(1) by (simp add: between_def proc_list_def queue_of_def)
  from process_reap_loop_ok [of lay R T rs ts "[]" ps s, OF _ _ this] assms show ?thesis
    by (simp add: process_reap_terminated_def)
qed

end
