(* ===== verification/KernTick.thy ===== *)
theory KernTick
  imports ProcReap
begin

text \<open>
  A timer tick: \<open>scheduler_schedule\<close> under the invariant of the kernel.
\<close>

definition saved :: "kstate \<Rightarrow> ref \<Rightarrow> u32" where
  "saved s t = saved_esp (threads s t)"

text \<open>The processes that the reaper takes: terminated, not the kernel or the one switched to, and without a
  thread but those that are reaped as well.\<close>

definition dead :: "kstate \<Rightarrow> u32 set \<Rightarrow> ref \<Rightarrow> u32 \<Rightarrow> bool" where
  "dead s T n p \<longleftrightarrow> Some p \<noteq> kernel_process s \<and> process_of s n \<noteq> Some p \<and> p_state (processes s p) = PROCESS_TERMINATED \<and>
     (\<forall>t \<in> known T. process_of s t \<noteq> Some p)"

lemma reapable_dead:
  assumes b: "between lay R T rs ts ps s" and p: "p \<in> set ps" and n: "place_ok n s"
  shows "reapable p s \<longleftrightarrow> dead s T n p"
proof -
  have "unat (thread_count (processes s p)) = card {t \<in> known T. process_of s t = Some p}"
    using b p by (simp add: between_def members_ok_def)
  moreover have "finite {t \<in> known T. process_of s t = Some p}"
    using b threads_finite(1) by (auto simp: between_def known_def)
  ultimately have "thread_count (processes s p) = 0 \<longleftrightarrow> (\<forall>t \<in> known T. process_of s t \<noteq> Some p)"
    by (auto simp: unat_eq_0 [symmetric])
  then show ?thesis using n by (auto simp: reapable_def dead_def place_ok_def)
qed

lemma save_esp_ok:
  assumes "between lay R T rs ts ps s" "running c T rs s"
    and s': "s' = upd_thread c (\<lambda>t. t\<lparr>saved_esp := r\<rparr>) s"
  shows "between lay R T rs ts ps s'" "running c T rs s'" "saved s' t = (if t = c then r else saved s t)"
    "idle_thread_instance s' = idle_thread_instance s" "mm s' = mm s" "processes s' = processes s" "process_of s' = process_of s"
    "kernel_process s' = kernel_process s" "kernel_stack (threads s' t) = kernel_stack (threads s t)" "space_of s' = space_of s"
proof -
  have e: "state_of s' = state_of s" "process_of s' = process_of s" "mm s' = mm s" "processes s' = processes s"
    "idle_thread_instance s' = idle_thread_instance s" "kernel_process s' = kernel_process s" "space_of s' = space_of s"
    by (auto simp: s' upd_thread_def state_of_def process_of_def space_of_def)
  have k: "same_kernel s s'" by (auto simp: same_kernel_def s' upd_thread_def nexts_def process_of_def)
  show "between lay R T rs ts ps s'" by (rule between_same [OF assms(1) k]) (simp only: e)
  show "running c T rs s'"
    using assms(2) by (simp add: running_def place_ok_def e space_of_def) (simp add: s' upd_thread_def)
  show "saved s' t = (if t = c then r else saved s t)" by (simp add: s' upd_thread_def saved_def)
  show "kernel_stack (threads s' t) = kernel_stack (threads s t)" by (simp add: s' upd_thread_def)
qed (auto simp: s' upd_thread_def process_of_def space_of_def)

lemma place_ok_reap:
  assumes "reap_frame s s'" "place_ok n s"
  shows "place_ok n s'"
proof -
  have sp: "space_of s' p = space_of s p" for p
  proof -
    obtain m where "processes s' p = (processes s p)\<lparr>thread_count := m\<rparr>" using assms(1) by (auto simp: reap_frame_def)
    then show ?thesis by (simp add: space_of_def)
  qed
  obtain h where "mm s' = (mm s)\<lparr>heap := h\<rparr>" using assms(1) by (auto simp: reap_frame_def)
  moreover have "process_of s' n = process_of s n" "current_process s' = current_process s"
    using assms(1) by (simp_all add: reap_frame_def process_of_def)
  ultimately show ?thesis using assms(2) sp by (simp add: place_ok_def)
qed

text \<open>The second half of a tick, after the choice of the thread to go on with.\<close>

lemma tick_reap:
  assumes b: "between lay R T rs ts ps s" and n: "place_ok n s" "n \<in> known T" "n \<notin> set ts"
    and st: "state_of s n = THREAD_RUNNING" "current_thread s = Some n" and c: "c \<notin> set ts"
  shows "\<exists>s1 s2. thread_reap_terminated (Some c) s = Some s1 \<and> process_reap_terminated s1 = Some s2 \<and>
    between lay (R - {the (space_of s p) |p. p \<in> set ps \<and> dead s (without T ts) n p}) (without T ts) rs []
      (filter (\<lambda>p. \<not> dead s (without T ts) n p) ps) s2 \<and>
    running n (without T ts) rs s2 \<and> (\<forall>t. saved s2 t = saved s t) \<and>
    idle_thread_instance s2 = idle_thread_instance s \<and>
    heap_live (heap (mm s2)) = heap_live (heap (mm s)) - set (thread_blocks s ts) -
      (\<Union>p \<in> {p \<in> set ps. dead s (without T ts) n p}. proc_blocks s p) \<and>
    frame_live (pmm (mm s2)) = frame_live (pmm (mm s)) - (\<Union>p \<in> {p \<in> set ps. dead s (without T ts) n p}. proc_frames s p)"
proof -
  let ?T = "without T ts" and ?D = "{p \<in> set ps. dead s (without T ts) n p}"
  obtain s1 where s1: "thread_reap_terminated (Some c) s = Some s1" "between lay R ?T rs [] ps s1" "reap_frame s s1"
    "heap_live (heap (mm s1)) = heap_live (heap (mm s)) - set (thread_blocks s ts)"
    using reap_threads_ok [OF b c] by blast
  have ns: "Static \<notin> set ts" using b by (auto simp: between_def states_ok_def)
  have n1: "place_ok n s1" by (rule place_ok_reap [OF s1(3) n(1)])
  have nT: "n \<in> known ?T" using n(2,3) known_without [OF ns] by simp
  have h1: "home ps s1" by (rule place_home [OF s1(2) nT n1])
  have f: "kernel_process s1 = kernel_process s" "process_of s1 = process_of s" "state_of s1 = state_of s" "current_thread s1 = current_thread s"
    "idle_thread_instance s1 = idle_thread_instance s" "saved s1 = saved s"
    using s1(3) by (auto simp: reap_frame_def process_of_def state_of_def saved_def)
  have pr: "space_of s1 p = space_of s p" "p_state (processes s1 p) = p_state (processes s p)" for p
  proof -
    obtain m where "processes s1 p = (processes s p)\<lparr>thread_count := m\<rparr>" using s1(3) by (auto simp: reap_frame_def)
    then show "space_of s1 p = space_of s p" "p_state (processes s1 p) = p_state (processes s p)" by (simp_all add: space_of_def)
  qed
  obtain h where mm1: "mm s1 = (mm s)\<lparr>heap := h\<rparr>" using s1(3) by (auto simp: reap_frame_def)
  have "dead s1 ?T n p = dead s ?T n p" for p by (simp add: dead_def f pr)
  then have rd: "reapable p s1 \<longleftrightarrow> dead s ?T n p" if "p \<in> set ps" for p using reapable_dead [OF s1(2) that n1] by simp
  have "(p \<in> set ps \<and> reapable p s1) = (p \<in> set ps \<and> dead s ?T n p)" for p using rd by blast
  then have D: "{p \<in> set ps. reapable p s1} = ?D" "filter (\<lambda>p. \<not> reapable p s1) ps = filter (\<lambda>p. \<not> dead s ?T n p) ps"
    "{the (space_of s1 p) |p. p \<in> set ps \<and> reapable p s1} = {the (space_of s p) |p. p \<in> set ps \<and> dead s ?T n p}"
    using rd by (simp_all add: pr cong: filter_cong)
  obtain s2 where s2: "process_reap_terminated s1 = Some s2"
    "between lay (R - {the (space_of s p) |p. p \<in> set ps \<and> dead s ?T n p}) ?T rs [] (filter (\<lambda>p. \<not> dead s ?T n p) ps) s2"
    "reaped_procs ?D s1 s2"
    using process_reap_terminated_ok [OF s1(2) h1] unfolding D by blast
  have ap: "apart_from ?D s1 s2" using s2(3) by (simp add: reaped_procs_def)
  have th: "threads s2 = threads s1" "current_thread s2 = current_thread s1" "idle_thread_instance s2 = idle_thread_instance s1"
    "current_process s2 = current_process s1" "current_address_space (mm s2) = current_address_space (mm s1)"
    using ap by (simp_all add: apart_from_def)
  obtain q where q: "process_of s1 n = Some q" "current_process s1 = Some q" "current_address_space (mm s1) = space_of s1 q"
    using n1 by (auto simp: place_ok_def)
  have "q \<notin> ?D" using q(1) by (auto simp: dead_def f)
  then have "space_of s2 q = space_of s1 q" using ap by (simp add: apart_from_def)
  then have "place_ok n s2" using q th by (simp add: place_ok_def process_of_def)
  then have "running n ?T rs s2" using nT st th f by (simp add: running_def state_of_def fun_eq_iff)
  moreover have "saved s2 t = saved s t" for t using th f by (simp add: saved_def fun_eq_iff)
  moreover have "proc_blocks s1 p = proc_blocks s p" "proc_frames s1 p = proc_frames s p" for p
    by (auto simp: proc_blocks_def proc_frames_def pr mm1 tab_of_def owned_frames_def table_for_def split: option.splits ref.splits)
  then have "heap_live (heap (mm s2)) = heap_live (heap (mm s)) - set (thread_blocks s ts) - (\<Union>p \<in> ?D. proc_blocks s p)"
    "frame_live (pmm (mm s2)) = frame_live (pmm (mm s)) - (\<Union>p \<in> ?D. proc_frames s p)"
    using s2(3) s1(4) by (simp_all add: reaped_procs_def mm1)
  ultimately show ?thesis using s1(1) s2(1,2) th(3) f(5) by auto
qed

text \<open>What of the state the result of a tick is stated over does not change up to the reaping.\<close>

definition like :: "kstate \<Rightarrow> kstate \<Rightarrow> bool" where
  "like s s' \<longleftrightarrow>
     heap (mm s') = heap (mm s) \<and> pmm (mm s') = pmm (mm s) \<and> spaces (mm s') = spaces (mm s) \<and>
     table_ptrs (mm s') = table_ptrs (mm s) \<and> processes s' = processes s \<and> kernel_process s' = kernel_process s \<and>
     idle_thread_instance s' = idle_thread_instance s \<and> process_of s' = process_of s \<and>
     (\<forall>t. kernel_stack (threads s' t) = kernel_stack (threads s t))"

lemma like_refl: "like s s"
  by (simp add: like_def)

lemma like_trans: "like s s' \<Longrightarrow> like s' s'' \<Longrightarrow> like s s''"
  by (simp add: like_def)

lemma like_queues: "same_but_queues s s' \<Longrightarrow> like s s'"
  by (auto simp: like_def same_but_queues_def process_of_def)

lemma like_set: "like s (set_state t st s)" "like s (thread_set_current n s)"
  by (auto simp: like_def set_state_def upd_thread_def thread_set_current_def process_of_def)

lemma like_switch: "switch_process c n s = Some s' \<Longrightarrow> like s s'"
  by (auto simp: like_def switch_process_def k_activate_def address_space_activate_def process_set_current_def process_of_def
      split: option.splits if_splits Option.bind_splits)

lemma like_results:
  assumes "like s s'"
  shows "thread_blocks s' ts = thread_blocks s ts" "proc_blocks s' p = proc_blocks s p" "proc_frames s' p = proc_frames s p"
    "dead s' T n p = dead s T n p" "space_of s' p = space_of s p" "heap (mm s') = heap (mm s)" "pmm (mm s') = pmm (mm s)"
    "idle_thread_instance s' = idle_thread_instance s"
proof -
  show sp: "space_of s' p = space_of s p" for p using assms by (simp add: like_def space_of_def)
  show "thread_blocks s' ts = thread_blocks s ts" "dead s' T n p = dead s T n p" "heap (mm s') = heap (mm s)"
    "pmm (mm s') = pmm (mm s)" "idle_thread_instance s' = idle_thread_instance s"
    using assms by (simp_all add: like_def thread_blocks_def dead_def)
  show "proc_blocks s' p = proc_blocks s p" using assms by (simp add: proc_blocks_def sp like_def tab_of_def)
  show "proc_frames s' p = proc_frames s p"
    using assms by (simp add: proc_frames_def sp like_def owned_frames_def table_for_def tab_of_def split: option.split ref.split)
qed

definition queue_after :: "kstate \<Rightarrow> ref \<Rightarrow> ref list \<Rightarrow> ref list" where
  "queue_after s c rs = tl rs @ (if Some c = idle_thread_instance s then [] else [c])"

lemma scheduler_schedule_ok:
  assumes b: "between lay R T rs ts ps s" and c: "running c T rs s"
  defines "n \<equiv> next_of_queue s rs" and "T' \<equiv> without T ts" and "rs' \<equiv> queue_after s c rs"
  shows "\<exists>s'. scheduler_schedule r s = Some (if n = c then r else saved s n, s') \<and>
    between lay (R - {the (space_of s p) |p. p \<in> set ps \<and> dead s T' n p}) T' rs' [] (filter (\<lambda>p. \<not> dead s T' n p) ps) s' \<and>
    running n T' rs' s' \<and> (\<forall>t. saved s' t = (if t = c then r else saved s t)) \<and>
    idle_thread_instance s' = idle_thread_instance s \<and>
    heap_live (heap (mm s')) = heap_live (heap (mm s)) - set (thread_blocks s ts) -
      (\<Union>p \<in> {p \<in> set ps. dead s T' n p}. proc_blocks s p) \<and>
    frame_live (pmm (mm s')) = frame_live (pmm (mm s)) - (\<Union>p \<in> {p \<in> set ps. dead s T' n p}. proc_frames s p)"
proof -
  let ?s0 = "upd_thread c (\<lambda>t. t\<lparr>saved_esp := r\<rparr>) s"
  note s0 = save_esp_ok [OF b c refl, of r]
  have l0: "like s ?s0" using s0 by (simp add: like_def)
  have nx: "next_of_queue ?s0 rs = n" by (simp add: n_def next_of_queue_def s0 split: list.split)
  obtain x s1 where s1: "thread_dequeue ?s0 = (x, s1)" "(if x = None then thread_idle s1 else x) = Some n"
    "between lay R T (tl rs) ts ps s1" "same_but_queues ?s0 s1" "state_of s1 = state_of ?s0"
    "n \<in> known T" "n \<notin> set (tl rs)" "n \<notin> set ts"
    using pick_next [OF s0(1)] unfolding nx by blast
  note r0 = running_ok [OF b c]
  have idle: "idle_thread_instance s1 = idle_thread_instance s"
    using same_but_queues_parts(10) [OF s1(4)] s0(4) by simp
  have cs: "state_of s1 c = THREAD_RUNNING" using s1(5) s0(2) by (simp add: running_def)
  have crs: "c \<notin> set (tl rs)" using r0(1) by (cases rs) auto
  let ?s2 = "if Some c \<noteq> idle_thread_instance s then thread_enqueue (Some c) s1 else s1"
  have b2: "between lay R T rs' ts ps ?s2"
    using s1(3) enqueue_between [OF s1(3) r0(3) crs r0(2)] idle by (simp add: rs'_def queue_after_def)
  have sb2: "same_but_queues s1 ?s2" using enqueue_effect(1) by simp
  have n': "n \<notin> set rs'"
  proof -
    have "n \<noteq> c" if "Some c \<noteq> idle_thread_instance s"
    proof (cases rs)
      case Nil
      obtain i where "idle_thread_instance s = Some i" using idle_exists [OF b] by blast
      then show ?thesis using Nil that by (auto simp: n_def next_of_queue_def)
    next
      case (Cons a rs')
      then show ?thesis using r0(1) by (auto simp: n_def next_of_queue_def)
    qed
    then show ?thesis using s1(7) by (simp add: rs'_def queue_after_def)
  qed
  let ?s3 = "thread_set_current (Some n) (set_state n THREAD_RUNNING ?s2)"
  have b3: "between lay R T rs' ts ps ?s3"
    by (intro between_set_current set_running_ok b2 n' s1(6,8))
  have pl: "place_ok c ?s3"
    using s0(2) same_but_queues_parts(4) [OF s1(4), of c] same_but_queues_parts(4) [OF sb2, of c] by (simp add: running_def)
  obtain s4 where s4: "switch_process c n ?s3 = Some s4" "between lay R T rs' ts ps s4" "place_ok n s4" "moved ?s3 s4"
    using switch_process_ok [OF b3 pl s1(6)] by blast
  have th4: "threads s4 = threads ?s3" "current_thread s4 = current_thread ?s3" using s4(4) by (auto simp: moved_def)
  have st4: "state_of s4 n = THREAD_RUNNING" "current_thread s4 = Some n"
    using th4 by (simp_all add: state_of_def thread_set_current_def set_state_def upd_thread_def)
  have l4: "like s s4"
    by (rule like_trans [OF like_trans [OF like_trans [OF like_trans [OF like_trans [OF l0 like_queues [OF s1(4)]]
          like_queues [OF sb2]] like_set(1)] like_set(2)] like_switch [OF s4(1)]])
  note lr = like_results [OF l4]
  have sv: "saved s4 t = (if t = c then r else saved s t)" for t
  proof -
    have "saved ?s3 t = saved ?s2 t" by (simp add: saved_def thread_set_current_def set_state_def upd_thread_def)
    also have "\<dots> = saved ?s0 t" using sb2 s1(4) by (auto simp: saved_def same_but_queues_def)
    finally show ?thesis using s0(3) [of t] th4 by (simp add: saved_def)
  qed
  obtain s5 s6 where s5: "thread_reap_terminated (Some c) s4 = Some s5" "process_reap_terminated s5 = Some s6"
    "between lay (R - {the (space_of s p) |p. p \<in> set ps \<and> dead s T' n p}) T' rs' [] (filter (\<lambda>p. \<not> dead s T' n p) ps) s6"
    "running n T' rs' s6" "\<forall>t. saved s6 t = saved s4 t" "idle_thread_instance s6 = idle_thread_instance s"
    "heap_live (heap (mm s6)) = heap_live (heap (mm s)) - set (thread_blocks s ts) -
      (\<Union>p \<in> {p \<in> set ps. dead s T' n p}. proc_blocks s p)"
    "frame_live (pmm (mm s6)) = frame_live (pmm (mm s)) - (\<Union>p \<in> {p \<in> set ps. dead s T' n p}. proc_frames s p)"
    using tick_reap [OF s4(2,3) s1(6,8) st4 r0(2), unfolded lr, folded T'_def] by (elim exE conjE) (rule that)
  have cond: "(Some c \<noteq> thread_idle s \<and> t_state (threads s1 c) \<noteq> THREAD_TERMINATED \<and> t_state (threads s1 c) \<noteq> THREAD_BLOCKED) =
      (Some c \<noteq> idle_thread_instance s)"
    using cs by (simp add: thread_idle_def state_of_def)
  have x: "(if x = None then thread_idle s else x) = Some n"
    using s1(2) idle by (cases x) (simp_all add: thread_idle_def)
  have "scheduler_schedule r s = Some (saved_esp (threads s6 n), s6)"
    unfolding scheduler_schedule_def Let_def r0(4) option.case s1(1) prod.case cond x
    by (simp add: s4(1) [simplified] s5(1,2))
  moreover have "saved_esp (threads s6 n) = (if n = c then r else saved s n)"
    using spec [OF s5(5), of n] sv [of n] by (simp add: saved_def)
  moreover have "\<forall>t. saved s6 t = (if t = c then r else saved s t)" using s5(5) sv by simp
  ultimately show ?thesis using s5(3,4,6-8) by (intro exI [of _ s6] conjI) simp_all
qed

end
