(* ===== verification/KernCreate.thy ===== *)
theory KernCreate
  imports KernTick
begin

text \<open>
  \<open>thread_create_in_process\<close> and \<open>process_create\<close> under the invariant of the kernel.
\<close>

section \<open>Allocation\<close>

lemma vm_ok_say: "vm_ok lay R (say msg m) = vm_ok lay R m"
proof -
  have "tables_ok R (say msg m) = tables_ok R m" "owners_ok lay R (say msg m) = owners_ok lay R m"
    by (rule tables_ok_cong owners_ok_cong; simp add: say_def)+
  moreover have "entries_ok lay R (say msg m) = entries_ok lay R m"
    by (simp add: entries_ok_def say_def tab_of_def get_word_def)
  ultimately show ?thesis by (simp add: vm_ok_def say_def)
qed

lemma tab_of_heap [simp]: "tab_of (m\<lparr>heap := h\<rparr>) = tab_of m"
  by (rule tab_of_cong) simp

lemma k_alloc_ok:
  assumes hg: "heap_good (heap (mm s))" and n: "0 < unat n" "unat n \<le> 0x100000"
  shows "\<exists>x h. k_alloc n s = Some (x, s\<lparr>mm := (mm s)\<lparr>heap := h\<rparr>\<rparr>) \<and> heap_good h \<and>
    (case x of None \<Rightarrow> heap_live h = heap_live (heap (mm s))
     | Some a \<Rightarrow> a \<notin> heap_live (heap (mm s)) \<and> heap_live h = insert a (heap_live (heap (mm s))))"
proof -
  obtain x h where k: "kmalloc n (heap (mm s)) = Some (x, h)" using heap.alloc_returns [OF hg, of n] n by blast
  have "heap_good h \<and> (case x of None \<Rightarrow> heap_live h = heap_live (heap (mm s))
     | Some a \<Rightarrow> a \<notin> heap_live (heap (mm s)) \<and> heap_live h = insert a (heap_live (heap (mm s))))"
    using heap.alloc_some [OF hg, of n] heap.alloc_none [OF hg, of n] n k by (cases x) auto
  moreover have "k_alloc n s = Some (x, s\<lparr>mm := (mm s)\<lparr>heap := h\<rparr>\<rparr>)" by (simp add: k_alloc_def lift_heap_def k)
  ultimately show ?thesis by blast
qed

text \<open>A different heap that keeps the blocks in use.\<close>

lemma between_heap:
  assumes b: "between lay R T rs ts ps s" and h: "heap_good h" "heap_live (heap (mm s)) \<subseteq> heap_live h"
  shows "between lay R T rs ts ps (s\<lparr>mm := (mm s)\<lparr>heap := h\<rparr>\<rparr>)"
proof -
  let ?s = "s\<lparr>mm := (mm s)\<lparr>heap := h\<rparr>\<rparr>"
  have vm: "vm_ok lay R (mm s)" using b by (simp add: between_def)
  have vm': "vm_ok lay R (mm ?s)" unfolding kstate.simps kstate.surjective
    by simp (rule vm_ok_heap [OF vm h(1)], use vm h(2) in \<open>auto simp: vm_ok_def tables_ok_def\<close>)
  have ba: "block_addr ?s x = block_addr s x" for x by (cases x) simp_all
  have "blocks_ok T (set ps) R ?s" using b h(2) by (auto simp: between_def blocks_ok_def ba)
  moreover have "proc_list ?s = proc_list s" "space_of ?s = space_of s" "process_of ?s = process_of s" "ready ?s = ready s"
    "terminated ?s = terminated s" "state_of ?s = state_of s"
    by (auto simp: proc_list_def space_of_def [abs_def] process_of_def [abs_def] ready_def terminated_def nexts_def [abs_def]
        state_of_def [abs_def] fun_eq_iff)
  ultimately show ?thesis
    using b vm' by (simp add: between_def spaces_ok_def members_ok_def states_ok_def idle_wf_def)
qed

lemma running_heap: "running c T rs s \<Longrightarrow> running c T rs (s\<lparr>mm := (mm s)\<lparr>heap := h\<rparr>\<rparr>)"
  by (simp add: running_def place_ok_def process_of_def state_of_def space_of_def)

section \<open>Threads\<close>

definition new_thread :: "u32 \<Rightarrow> u32 \<Rightarrow> u32 \<Rightarrow> (nat \<Rightarrow> u8) option \<Rightarrow> u32 \<Rightarrow> thread_t \<Rightarrow> thread_t" where
  "new_thread p entry stack name n th = th
     \<lparr>tid := n, t_state := THREAD_READY, t_process := Some p, kernel_stack := stack,
      kernel_stack_top := stack + THREAD_STACK_SIZE, t_entry := entry, t_next := None,
      t_name := copy_name name [0..<THREAD_NAME_MAX] (t_name th),
      t_frame := stack + THREAD_STACK_SIZE - FRAME_SIZE, saved_esp := stack + THREAD_STACK_SIZE - FRAME_SIZE\<rparr>"

definition add_thread :: "u32 \<Rightarrow> u32 \<Rightarrow> u32 \<Rightarrow> u32 \<Rightarrow> (nat \<Rightarrow> u8) option \<Rightarrow> heap_t \<Rightarrow> kstate \<Rightarrow> kstate" where
  "add_thread a p entry stack name h s = s
     \<lparr>mm := (mm s)\<lparr>heap := h\<rparr>,
      threads := (threads s)(Dyn a := new_thread p entry stack name (next_tid s) (threads s (Dyn a))),
      processes := (processes s)(p := (processes s p)\<lparr>thread_count := thread_count (processes s p) + 1\<rparr>),
      stack_frames := (stack_frames s)(stack + THREAD_STACK_SIZE - FRAME_SIZE := initial_frame (stack + THREAD_STACK_SIZE) entry),
      next_tid := next_tid s + 1\<rparr>"

lemma thread_create_run:
  assumes p: "p_state (processes s p) = PROCESS_RUNNING" "entry \<noteq> 0" and hg: "heap_good (heap (mm s))"
  shows "\<exists>res s'. thread_create_in_process (Some p) entry name s = Some (res, s') \<and>
    (case res of
       None \<Rightarrow> \<exists>h. s' = s\<lparr>mm := (mm s)\<lparr>heap := h\<rparr>\<rparr> \<and> heap_good h \<and> heap_live h = heap_live (heap (mm s))
     | Some t \<Rightarrow> \<exists>a stack h. t = Dyn a \<and> s' = add_thread a p entry stack name h s \<and> heap_good h \<and> a \<noteq> stack \<and>
         a \<notin> heap_live (heap (mm s)) \<and> stack \<notin> heap_live (heap (mm s)) \<and> heap_live h = {a, stack} \<union> heap_live (heap (mm s)))"
proof -
  have n: "unat (68 :: u32) = 68" "unat (THREAD_STACK_SIZE) = 4096" by simp_all
  obtain x h1 where k1: "k_alloc 68 s = Some (x, s\<lparr>mm := (mm s)\<lparr>heap := h1\<rparr>\<rparr>)" "heap_good h1"
    "case x of None \<Rightarrow> heap_live h1 = heap_live (heap (mm s))
     | Some a \<Rightarrow> a \<notin> heap_live (heap (mm s)) \<and> heap_live h1 = insert a (heap_live (heap (mm s)))"
    using k_alloc_ok [OF hg, of 68] by auto
  show ?thesis
  proof (cases x)
    case None
    then show ?thesis using k1 p by (auto simp: thread_create_in_process_def)
  next
    case (Some a)
    let ?s1 = "s\<lparr>mm := (mm s)\<lparr>heap := h1\<rparr>\<rparr>"
    have a: "a \<notin> heap_live (heap (mm s))" "heap_live h1 = insert a (heap_live (heap (mm s)))" using k1(3) Some by simp_all
    have "heap_good (heap (mm ?s1))" using k1(2) by simp
    from k_alloc_ok [OF this, of THREAD_STACK_SIZE] obtain y h2 where
      k2': "k_alloc THREAD_STACK_SIZE ?s1 = Some (y, ?s1\<lparr>mm := (mm ?s1)\<lparr>heap := h2\<rparr>\<rparr>)" "heap_good h2"
      "case y of None \<Rightarrow> heap_live h2 = heap_live (heap (mm ?s1))
       | Some b \<Rightarrow> b \<notin> heap_live (heap (mm ?s1)) \<and> heap_live h2 = insert b (heap_live (heap (mm ?s1)))"
      by auto
    then have k2: "k_alloc THREAD_STACK_SIZE ?s1 = Some (y, s\<lparr>mm := (mm s)\<lparr>heap := h2\<rparr>\<rparr>)" "heap_good h2"
      "case y of None \<Rightarrow> heap_live h2 = heap_live h1 | Some b \<Rightarrow> b \<notin> heap_live h1 \<and> heap_live h2 = insert b (heap_live h1)"
      by (simp_all split: option.splits)
    show ?thesis
    proof (cases y)
      case None
      then have l2: "heap_live h2 = heap_live h1" using k2(3) by simp
      have "thread_create_in_process (Some p) entry name s = Some (None, k_free (Some a) (s\<lparr>mm := (mm s)\<lparr>heap := h2\<rparr>\<rparr>))"
        using p k1(1) k2(1) Some None by (simp add: thread_create_in_process_def)
      moreover have "k_free (Some a) (s\<lparr>mm := (mm s)\<lparr>heap := h2\<rparr>\<rparr>) = s\<lparr>mm := (mm s)\<lparr>heap := kfree (Some a) h2\<rparr>\<rparr>"
        by (simp add: k_free_def)
      moreover have "heap_good (kfree (Some a) h2)" "heap_live (kfree (Some a) h2) = heap_live (heap (mm s))"
        using heap.free_live [OF k2(2), of a] l2 a by auto
      ultimately show ?thesis by (intro exI conjI) (assumption, auto)
    next
      case (Some stack)
      let ?x = "x"
      have st: "stack \<notin> heap_live h1" "heap_live h2 = insert stack (heap_live h1)" using k2(3) Some by simp_all
      have "thread_create_in_process (Some p) entry name s = Some (Some (Dyn a), add_thread a p entry stack name h2 s)"
        using p k1(1) k2(1) Some \<open>x = Some a\<close>
        by (simp add: thread_create_in_process_def Let_def add_thread_def upd_thread_def upd_process_def new_thread_def)
      then show ?thesis using st a k2(2) by auto
    qed
  qed
qed

lemma add_thread_fields:
  "mm (add_thread a p e k nm h s) = (mm s)\<lparr>heap := h\<rparr>"
  "threads (add_thread a p e k nm h s) t = (if t = Dyn a then new_thread p e k nm (next_tid s) (threads s (Dyn a)) else threads s t)"
  "processes (add_thread a p e k nm h s) q =
     (if q = p then (processes s p)\<lparr>thread_count := thread_count (processes s p) + 1\<rparr> else processes s q)"
  "kernel_process (add_thread a p e k nm h s) = kernel_process s" "current_process (add_thread a p e k nm h s) = current_process s"
  "current_thread (add_thread a p e k nm h s) = current_thread s"
  "idle_thread_instance (add_thread a p e k nm h s) = idle_thread_instance s"
  "process_list_head (add_thread a p e k nm h s) = process_list_head s" "process_list_tail (add_thread a p e k nm h s) = process_list_tail s"
  "ready_queue_head (add_thread a p e k nm h s) = ready_queue_head s" "ready_queue_tail (add_thread a p e k nm h s) = ready_queue_tail s"
  "terminated_queue_head (add_thread a p e k nm h s) = terminated_queue_head s"
  "terminated_queue_tail (add_thread a p e k nm h s) = terminated_queue_tail s"
  by (simp_all add: add_thread_def)

lemma new_thread_fields:
  "t_state (new_thread p e k nm n th) = THREAD_READY" "t_process (new_thread p e k nm n th) = Some p"
  "kernel_stack (new_thread p e k nm n th) = k" "t_next (new_thread p e k nm n th) = None"
  "saved_esp (new_thread p e k nm n th) = k + THREAD_STACK_SIZE - FRAME_SIZE"
  by (simp_all add: new_thread_def)

lemma add_thread_views:
  "state_of (add_thread a p e k nm h s) t = (if t = Dyn a then THREAD_READY else state_of s t)"
  "process_of (add_thread a p e k nm h s) t = (if t = Dyn a then Some p else process_of s t)"
  "space_of (add_thread a p e k nm h s) = space_of s"
  "nexts (add_thread a p e k nm h s) t = (if t = Dyn a then None else nexts s t)"
  "p_state (processes (add_thread a p e k nm h s) q) = p_state (processes s q)"
  "p_next (processes (add_thread a p e k nm h s) q) = p_next (processes s q)"
  by (auto simp: state_of_def process_of_def space_of_def [abs_def] nexts_def add_thread_fields new_thread_fields)

lemma add_thread_blocks:
  assumes bl: "blocks_ok T P R s" and f: "a \<noteq> k" "a \<notin> heap_live (heap (mm s))" "k \<notin> heap_live (heap (mm s))"
    and h: "heap_live h = {a, k} \<union> heap_live (heap (mm s))"
  shows "blocks_ok (insert a T) P R (add_thread a p e k nm h s)"
proof -
  let ?s = "add_thread a p e k nm h s"
  have at: "a \<notin> T" using blocks_ok_live [OF bl, of "BThread a"] f(2) by auto
  have ba: "block_addr ?s x = (if x = BThread a then a else if x = BStack a then k else block_addr s x)"
    if "owner_of (insert a T) P R x" for x
    using that at by (cases x) (auto simp: add_thread_fields new_thread_fields)
  have ow: "x = BThread a \<or> x = BStack a \<or> owner_of T P R x" if "owner_of (insert a T) P R x" for x
    using that by (cases x) auto
  have nw: "\<not> owner_of T P R (BThread a)" "\<not> owner_of T P R (BStack a)" using at by simp_all
  have old: "block_addr s x \<noteq> a \<and> block_addr s x \<noteq> k" if "owner_of T P R x" for x
    using blocks_ok_live [OF bl that] f by auto
  show ?thesis unfolding blocks_ok_def
  proof (intro conjI allI impI)
    show "block_addr ?s x \<in> heap_live (heap (mm ?s))" if "owner_of (insert a T) P R x" for x
      using ba [OF that] ow [OF that] blocks_ok_live [OF bl] h by (auto simp: add_thread_fields)
    fix x y assume xy: "owner_of (insert a T) P R x \<and> owner_of (insert a T) P R y \<and> block_addr ?s x = block_addr ?s y"
    have bo: "block_addr ?s z = block_addr s z" if "owner_of T P R z" for z
    proof -
      have "owner_of (insert a T) P R z" using that by (cases z) auto
      then show ?thesis using ba [of z] nw that by auto
    qed
    have bn: "z = BThread a \<and> block_addr ?s z = a \<or> z = BStack a \<and> block_addr ?s z = k"
      if "owner_of (insert a T) P R z" "\<not> owner_of T P R z" for z
      using ow [OF that(1)] ba [OF that(1)] that(2) by auto
    show "x = y"
    proof (cases "owner_of T P R x")
      case True
      then show ?thesis using bo [of x] bo [of y] bn [of y] old [of x] xy blocks_ok_inj [OF bl True, of y] by metis
    next
      case False
      then show ?thesis using bo [of y] bn [of x] bn [of y] old [of y] xy f(1) by metis
    qed
  qed
qed

lemma add_thread_between:
  assumes b: "between lay R T rs ts ps s" and p: "p \<in> set ps"
    and f: "a \<noteq> k" "a \<notin> heap_live (heap (mm s))" "k \<notin> heap_live (heap (mm s))"
    and h: "heap_good h" "heap_live h = {a, k} \<union> heap_live (heap (mm s))"
  shows "between lay R (insert a T) rs ts ps (add_thread a p e k nm h s)"
proof -
  let ?s = "add_thread a p e k nm h s"
  have vm: "vm_ok lay R (mm s)" and bl: "blocks_ok T (set ps) R s" and st: "states_ok T rs ts s"
    and me: "members_ok T (set ps) s" using b by (simp_all add: between_def)
  have at: "a \<notin> T" using blocks_ok_live [OF bl, of "BThread a"] f(2) by auto
  have bl': "blocks_ok (insert a T) (set ps) R ?s" by (rule add_thread_blocks [OF bl f h(2)])
  have vm': "vm_ok lay R (mm ?s)" unfolding add_thread_fields
    by (rule vm_ok_heap [OF vm h(1)]) (use vm h(2) in \<open>auto simp: vm_ok_def tables_ok_def\<close>)
  have kw: "known (insert a T) = insert (Dyn a) (known T)" by (auto simp: known_def)
  have nk: "Dyn a \<notin> known T" using at by simp
  have pl: "proc_list ?s ps" using b by (simp add: between_def proc_list_def add_thread_views add_thread_fields(8,9))
  have sp: "spaces_ok (set ps) R ?s"
    using b by (simp add: between_def spaces_ok_def add_thread_views add_thread_fields(4))
  have me': "members_ok (insert a T) (set ps) ?s" unfolding members_ok_def kw
  proof (intro conjI ballI)
    show "\<exists>q \<in> set ps. process_of ?s t = Some q" if "t \<in> insert (Dyn a) (known T)" for t
      using that me p by (auto simp: members_ok_def add_thread_views)
    show "process_of ?s Static = kernel_process ?s" using me by (simp add: members_ok_def add_thread_views add_thread_fields(4))
    fix q assume q: "q \<in> set ps"
    have fin: "finite (known T)" "card (known T) \<le> 0x100002"
      using threads_finite [OF bl] card_insert_le_m1 [of "Suc (card T)" "Dyn ` T" Static] card_image_le [of T Dyn]
      by (auto simp: known_def card_insert_if le_SucI)
    let ?A = "{t \<in> known T. process_of s t = Some q}"
    have cq: "unat (thread_count (processes s q)) = card ?A" using me q by (simp add: members_ok_def)
    have "card ?A \<le> 0x100002" using card_mono [OF fin(1), of ?A] fin(2) by auto
    then have inc: "unat (thread_count (processes s q) + 1) = Suc (card ?A)"
      using cq by (subst unat_plus_small) simp_all
    have "{t \<in> insert (Dyn a) (known T). process_of ?s t = Some q} = (if q = p then insert (Dyn a) ?A else ?A)"
      using nk by (auto simp: add_thread_views)
    moreover have "card (insert (Dyn a) ?A) = Suc (card ?A)" using nk fin(1) by simp
    ultimately show "unat (thread_count (processes ?s q)) = card {t \<in> insert (Dyn a) (known T). process_of ?s t = Some q}"
      using cq inc by (cases "q = p") (simp_all add: add_thread_fields(3))
  qed
  have nx: "nexts ?s x = nexts s x" if "x \<in> known T" for x using that nk by (auto simp: add_thread_views)
  have sub: "set rs \<subseteq> known T" "set ts \<subseteq> known T" using st by (auto simp: states_ok_def)
  have "queue_of (nexts ?s) (ready_queue_head s) (ready_queue_tail s) rs = queue_of (nexts s) (ready_queue_head s) (ready_queue_tail s) rs"
    "queue_of (nexts ?s) (terminated_queue_head s) (terminated_queue_tail s) ts =
       queue_of (nexts s) (terminated_queue_head s) (terminated_queue_tail s) ts"
    using queue_of_cong [of rs "nexts ?s" "nexts s"] queue_of_cong [of ts "nexts ?s" "nexts s"] nx sub by blast+
  then have q: "ready ?s rs" "terminated ?s ts"
    using st by (simp_all add: states_ok_def ready_def terminated_def add_thread_fields)
  have tset: "{t \<in> insert (Dyn a) (known T). state_of ?s t = THREAD_TERMINATED} = {t \<in> known T. state_of s t = THREAD_TERMINATED}"
    using nk by (auto simp: add_thread_views)
  have "idle_wf (insert a T) rs ?s"
    using st at by (auto simp: states_ok_def idle_wf_def add_thread_views add_thread_fields)
  moreover have "\<forall>t \<in> set rs. state_of ?s t = THREAD_READY" using st by (auto simp: states_ok_def add_thread_views)
  ultimately have "states_ok (insert a T) rs ts ?s"
    using st q sub unfolding states_ok_def kw tset by (auto simp: add_thread_views)
  then show ?thesis using vm' bl' pl sp me' by (simp add: between_def)
qed

lemma add_thread_running:
  assumes "running c T rs s" "a \<notin> T"
  shows "running c (insert a T) rs (add_thread a p e k nm h s)"
proof -
  have "c \<noteq> Dyn a" using assms by (auto simp: running_def)
  then show ?thesis using assms
    by (auto simp: running_def place_ok_def add_thread_views add_thread_fields known_def)
qed

lemma thread_create_ok:
  assumes b: "between lay R T rs ts ps s" and p: "p \<in> set ps" "p_state (processes s p) = PROCESS_RUNNING" "entry \<noteq> 0"
  shows "\<exists>res s'. thread_create_in_process (Some p) entry name s = Some (res, s') \<and>
    (case res of
       None \<Rightarrow> (\<exists>h. s' = s\<lparr>mm := (mm s)\<lparr>heap := h\<rparr>\<rparr>) \<and> between lay R T rs ts ps s' \<and>
         heap_live (heap (mm s')) = heap_live (heap (mm s))
     | Some t \<Rightarrow> \<exists>a stack h. t = Dyn a \<and> a \<notin> T \<and> s' = add_thread a p entry stack name h s \<and> between lay R (insert a T) rs ts ps s')"
proof -
  have hg: "heap_good (heap (mm s))" and bl: "blocks_ok T (set ps) R s" using b by (simp_all add: between_def vm_ok_def)
  obtain res s' where c: "thread_create_in_process (Some p) entry name s = Some (res, s')"
    "case res of
       None \<Rightarrow> \<exists>h. s' = s\<lparr>mm := (mm s)\<lparr>heap := h\<rparr>\<rparr> \<and> heap_good h \<and> heap_live h = heap_live (heap (mm s))
     | Some t \<Rightarrow> \<exists>a stack h. t = Dyn a \<and> s' = add_thread a p entry stack name h s \<and> heap_good h \<and> a \<noteq> stack \<and>
         a \<notin> heap_live (heap (mm s)) \<and> stack \<notin> heap_live (heap (mm s)) \<and> heap_live h = {a, stack} \<union> heap_live (heap (mm s))"
    using thread_create_run [OF p(2,3) hg, of name] by blast
  show ?thesis
  proof (cases res)
    case None
    then obtain h where "s' = s\<lparr>mm := (mm s)\<lparr>heap := h\<rparr>\<rparr>" "heap_good h" "heap_live h = heap_live (heap (mm s))" using c(2) by auto
    then show ?thesis using c(1) None between_heap [OF b, of h] by auto
  next
    case (Some t)
    then obtain a stack h where f: "t = Dyn a" "s' = add_thread a p entry stack name h s" "heap_good h" "a \<noteq> stack"
      "a \<notin> heap_live (heap (mm s))" "stack \<notin> heap_live (heap (mm s))" "heap_live h = {a, stack} \<union> heap_live (heap (mm s))"
      using c(2) by auto
    have "a \<notin> T" using blocks_ok_live [OF bl, of "BThread a"] f(5) by auto
    then show ?thesis using c(1) Some f(1,2) add_thread_between [OF b p(1) f(4-6,3,7)] by auto
  qed
qed

section \<open>Processes\<close>

definition new_process :: "u32 \<Rightarrow> ref \<Rightarrow> (nat \<Rightarrow> u8) option \<Rightarrow> process_t \<Rightarrow> process_t" where
  "new_process n r name pr = pr\<lparr>p_address_space := Some r, pid := n, p_state := PROCESS_RUNNING, p_parent := None,
     thread_count := 0, p_next := None, p_name := copy_process_name name [0..<PROCESS_NAME_MAX] (p_name pr)\<rparr>"

definition add_process :: "u32 \<Rightarrow> ref \<Rightarrow> (nat \<Rightarrow> u8) option \<Rightarrow> kmem \<Rightarrow> kstate \<Rightarrow> kstate" where
  "add_process p r name m s =
     (let pr = (processes s)(p := new_process (next_pid s) r name (processes s p))
      in case process_list_tail s of
           None \<Rightarrow> s\<lparr>mm := m, processes := pr, next_pid := next_pid s + 1, process_list_head := Some p, process_list_tail := Some p\<rparr>
         | Some q \<Rightarrow> s\<lparr>mm := m, processes := pr(q := (pr q)\<lparr>p_next := Some p\<rparr>), next_pid := next_pid s + 1, process_list_tail := Some p\<rparr>)"

lemma add_process_fields:
  "mm (add_process p r nm m s) = m" "threads (add_process p r nm m s) = threads s"
  "current_thread (add_process p r nm m s) = current_thread s" "current_process (add_process p r nm m s) = current_process s"
  "kernel_process (add_process p r nm m s) = kernel_process s"
  "idle_thread_instance (add_process p r nm m s) = idle_thread_instance s"
  "ready_queue_head (add_process p r nm m s) = ready_queue_head s" "ready_queue_tail (add_process p r nm m s) = ready_queue_tail s"
  "terminated_queue_head (add_process p r nm m s) = terminated_queue_head s"
  "terminated_queue_tail (add_process p r nm m s) = terminated_queue_tail s"
  "process_list_head (add_process p r nm m s) = (if process_list_tail s = None then Some p else process_list_head s)"
  "process_list_tail (add_process p r nm m s) = Some p" "next_pid (add_process p r nm m s) = next_pid s + 1"
  by (simp_all add: add_process_def Let_def split: option.split)

lemma add_process_proc:
  "space_of (add_process p r nm m s) q = (if q = p then Some r else space_of s q)"
  "p_state (processes (add_process p r nm m s) q) = (if q = p then PROCESS_RUNNING else p_state (processes s q))"
  "thread_count (processes (add_process p r nm m s) q) = (if q = p then 0 else thread_count (processes s q))"
  "pid (processes (add_process p r nm m s) q) = (if q = p then next_pid s else pid (processes s q))"
  by (auto simp: add_process_def Let_def new_process_def space_of_def split: option.split)

lemma add_process_next:
  assumes "process_list_tail s \<noteq> Some p"
  shows "p_next (processes (add_process p r nm m s) q) =
    (if q = p then None else if Some q = process_list_tail s then Some p else p_next (processes s q))"
  using assms by (cases "process_list_tail s") (auto simp: add_process_def Let_def new_process_def)

lemma add_process_list:
  assumes "proc_list s ps" "p \<notin> set ps"
  shows "proc_list (add_process p r nm m s) (ps @ [p])"
proof -
  have "process_list_tail s \<noteq> Some p" using assms last_of_mem [of ps p] by (auto simp: proc_list_def queue_of_def)
  note nx = add_process_next [OF this]
  have "queue_of (\<lambda>q. p_next (processes (add_process p r nm m s) q))
      (if process_list_tail s = None then Some p else process_list_head s) (Some p) (ps @ [p])"
    by (rule queue_of_enq [of "\<lambda>q. p_next (processes s q)"]) (use assms nx in \<open>auto simp: proc_list_def\<close>)
  then show ?thesis by (simp add: proc_list_def add_process_fields)
qed

lemma process_create_run:
  assumes vm: "vm_ok lay R (mm s)" and bl: "blocks_ok T (set ps) R s" and low: "low_frames 2 (pmm (mm s))"
  shows "\<exists>res s'. process_create lay name s = Some (res, s') \<and>
    current_address_space (mm s') = current_address_space (mm s) \<and>
    (case res of
       None \<Rightarrow> \<exists>p m pr. s' = s\<lparr>mm := m, processes := (processes s)(p := pr)\<rparr> \<and> p \<notin> set ps \<and> vm_ok lay R m \<and>
         heap_live (heap m) = heap_live (heap (mm s)) \<and> (\<forall>r \<in> R. spaces m r = spaces (mm s) r)
     | Some p \<Rightarrow> \<exists>as blk dir h m. p \<notin> heap_live (heap (mm s)) \<and> heap_good h \<and> heap_live h = insert p (heap_live (heap (mm s))) \<and>
         fresh_parts ((mm s)\<lparr>heap := h\<rparr>) as blk dir (heap m) (pmm m) \<and>
         m = add_space lay as blk dir (heap m) (pmm m) ((mm s)\<lparr>heap := h\<rparr>) \<and> s' = add_process p (Dyn as) name m s)"
proof -
  have hg: "heap_good (heap (mm s))" using vm by (simp add: vm_ok_def)
  have "unat (56 :: u32) = 56" by simp
  then obtain x h where k: "k_alloc 56 s = Some (x, s\<lparr>mm := (mm s)\<lparr>heap := h\<rparr>\<rparr>)" "heap_good h"
    "case x of None \<Rightarrow> heap_live h = heap_live (heap (mm s))
     | Some a \<Rightarrow> a \<notin> heap_live (heap (mm s)) \<and> heap_live h = insert a (heap_live (heap (mm s)))"
    using k_alloc_ok [OF hg, of 56] by auto
  let ?m = "(mm s)\<lparr>heap := h\<rparr>"
  have vmh: "vm_ok lay R ?m"
    by (rule vm_ok_heap [OF vm k(2)]) (use vm k(3) in \<open>auto simp: vm_ok_def tables_ok_def split: option.splits\<close>)
  show ?thesis
  proof (cases x)
    case None
    let ?msg = "''process_create: Failed to allocate memory for process.''"
    have run: "process_create lay name s = Some (None, s\<lparr>mm := say ?msg ?m\<rparr>)"
      using k(1) None by (simp add: process_create_def k_say_def)
    have p: "0 \<notin> set ps" using blocks_ok_live [OF bl, of "BProc 0"] heap_live_nonzero by auto
    have vs: "vm_ok lay R (say ?msg ?m)" using vmh by (simp add: vm_ok_say)
    have "s\<lparr>mm := say ?msg ?m\<rparr> = s\<lparr>mm := say ?msg ?m, processes := (processes s)(0 := processes s 0)\<rparr>" by simp
    moreover have "heap_live (heap (say ?msg ?m)) = heap_live (heap (mm s))" "\<forall>r \<in> R. spaces (say ?msg ?m) r = spaces (mm s) r"
      "current_address_space (say ?msg ?m) = current_address_space (mm s)"
      using k(3) None by (simp_all add: say_def)
    ultimately have "\<exists>p m pr. s\<lparr>mm := say ?msg ?m\<rparr> = s\<lparr>mm := m, processes := (processes s)(p := pr)\<rparr> \<and> p \<notin> set ps \<and>
        vm_ok lay R m \<and> heap_live (heap m) = heap_live (heap (mm s)) \<and> (\<forall>r \<in> R. spaces m r = spaces (mm s) r)"
      using p vs by blast
    moreover have "current_address_space (mm (s\<lparr>mm := say ?msg ?m\<rparr>)) = current_address_space (mm s)" by (simp add: say_def)
    ultimately show ?thesis using run by (intro exI [of _ None] exI [of _ "s\<lparr>mm := say ?msg ?m\<rparr>"]) simp
  next
    case (Some p)
    have p: "p \<notin> heap_live (heap (mm s))" "heap_live h = insert p (heap_live (heap (mm s)))" using k(3) Some by simp_all
    have pn: "p \<notin> set ps" using blocks_ok_live [OF bl, of "BProc p"] p(1) by auto
    have "low_frames 2 (pmm ?m)" using low by simp
    from create_outcome [OF vmh this] obtain res m where c: "address_space_create lay ?m = Some (res, m)"
      "current_address_space m = current_address_space (mm s)"
      "case res of
         None \<Rightarrow> vm_ok lay R m \<and> heap_live (heap m) = heap_live h \<and> (\<forall>r \<in> R. spaces m r = spaces (mm s) r)
       | Some r \<Rightarrow> \<exists>as blk dir. r = Dyn as \<and> fresh_parts ?m as blk dir (heap m) (pmm m) \<and>
           m = add_space lay as blk dir (heap m) (pmm m) ?m"
      by (auto split: option.splits)
    show ?thesis
    proof (cases res)
      case None
      let ?h = "kfree (Some p) (heap m)"
      let ?s = "k_say ''process_create: Failed to create address space for process.''
        (k_free (Some p) (upd_process p (\<lambda>pr. pr\<lparr>p_address_space := None\<rparr>) (s\<lparr>mm := m\<rparr>)))"
      have n: "vm_ok lay R m" "heap_live (heap m) = heap_live h" "\<forall>r \<in> R. spaces m r = spaces (mm s) r" using c(3) None by auto
      have hf: "heap_good ?h" "heap_live ?h = heap_live (heap (mm s))"
        using heap.free_live [of "heap m" p] n(1,2) p by (auto simp: vm_ok_def)
      have tab: "tab_of m r = tab_of (mm s) r" if "r \<in> R" for r using n(3) that by (simp add: tab_of_def)
      have v: "vm_ok lay R (m\<lparr>heap := ?h\<rparr>)"
        by (rule vm_ok_heap [OF n(1) hf(1)]) (use vm tab hf(2) in \<open>auto simp: vm_ok_def tables_ok_def\<close>)
      have run: "process_create lay name s = Some (None, ?s)"
        using k(1) Some c(1) None by (simp add: process_create_def k_create_space_def Let_def)
      have eq: "?s = s\<lparr>mm := say ''process_create: Failed to create address space for process.'' (m\<lparr>heap := ?h\<rparr>),
          processes := (processes s)(p := (processes s p)\<lparr>p_address_space := None\<rparr>)\<rparr>"
        by (simp add: k_say_def k_free_def upd_process_def)
      have vs: "vm_ok lay R (say ''process_create: Failed to create address space for process.'' (m\<lparr>heap := ?h\<rparr>))"
        using v by (simp add: vm_ok_say)
      let ?M = "say ''process_create: Failed to create address space for process.'' (m\<lparr>heap := ?h\<rparr>)"
      have "heap_live (heap ?M) = heap_live (heap (mm s))" "\<forall>r \<in> R. spaces ?M r = spaces (mm s) r"
        using hf(2) n(3) by (simp_all add: say_def)
      then have "\<exists>p m pr. ?s = s\<lparr>mm := m, processes := (processes s)(p := pr)\<rparr> \<and> p \<notin> set ps \<and>
          vm_ok lay R m \<and> heap_live (heap m) = heap_live (heap (mm s)) \<and> (\<forall>r \<in> R. spaces m r = spaces (mm s) r)"
        unfolding eq using pn vs by blast
      moreover have "current_address_space (mm ?s) = current_address_space (mm s)" unfolding eq using c(2) by (simp add: say_def)
      ultimately show ?thesis using run by (intro exI [of _ None] exI [of _ ?s]) simp
    next
      case (Some r)
      then obtain as blk dir where f: "r = Dyn as" "fresh_parts ?m as blk dir (heap m) (pmm m)"
        "m = add_space lay as blk dir (heap m) (pmm m) ?m" using c(3) by auto
      have "process_create lay name s = Some (Some p, add_process p (Dyn as) name m s)"
        using k(1) \<open>x = Some p\<close> c(1) Some f(1)
        by (cases "process_list_tail s")
          (simp_all add: process_create_def k_create_space_def Let_def add_process_def upd_process_def new_process_def)
      moreover have "\<exists>as' blk dir h m'. p \<notin> heap_live (heap (mm s)) \<and> heap_good h \<and> heap_live h = insert p (heap_live (heap (mm s))) \<and>
         fresh_parts ((mm s)\<lparr>heap := h\<rparr>) as' blk dir (heap m') (pmm m') \<and>
         m' = add_space lay as' blk dir (heap m') (pmm m') ((mm s)\<lparr>heap := h\<rparr>) \<and>
         add_process p (Dyn as) name m s = add_process p (Dyn as') name m' s"
        using p k(2) f(2,3) by blast
      moreover have "current_address_space (mm (add_process p (Dyn as) name m s)) = current_address_space (mm s)"
        using c(2) by (simp only: add_process_fields)
      ultimately show ?thesis by (intro exI [of _ "Some p"] exI [of _ "add_process p (Dyn as) name m s"]) simp
    qed
  qed
qed

lemma add_process_between:
  assumes b: "between lay R T rs ts ps s" and p: "p \<notin> heap_live (heap (mm s))"
    and h: "heap_good h" "heap_live h = insert p (heap_live (heap (mm s)))"
    and fr: "fresh_parts ((mm s)\<lparr>heap := h\<rparr>) as blk dir (heap m) (pmm m)"
    and m: "m = add_space lay as blk dir (heap m) (pmm m) ((mm s)\<lparr>heap := h\<rparr>)"
  shows "between lay (insert (Dyn as) R) T rs ts (ps @ [p]) (add_process p (Dyn as) name m s)"
    "p \<notin> set ps" "Dyn as \<notin> R"
proof -
  let ?s = "add_process p (Dyn as) name m s" and ?m = "(mm s)\<lparr>heap := h\<rparr>"
  have vm: "vm_ok lay R (mm s)" and bl: "blocks_ok T (set ps) R s" and st: "states_ok T rs ts s"
    and me: "members_ok T (set ps) s" and sp: "spaces_ok (set ps) R s" and pl: "proc_list s ps" using b by (simp_all add: between_def)
  have vmh: "vm_ok lay R ?m"
    by (rule vm_ok_heap [OF vm h(1)]) (use vm h(2) in \<open>auto simp: vm_ok_def tables_ok_def\<close>)
  show pn: "p \<notin> set ps" using blocks_ok_live [OF bl, of "BProc p"] p by auto
  show nR: "Dyn as \<notin> R" by (rule fresh_space [OF vmh fr])
  have vm': "vm_ok lay (insert (Dyn as) R) (mm ?s)"
    using add_space_ok [OF vmh fr] m by (simp add: add_process_fields)
  have tab: "tab_of (mm ?s) r = tab_of (mm s) r" if "r \<in> R" for r
    using add_space_tab(1) [OF vmh fr that] m by (simp add: add_process_fields)
  have tabn: "tab_of (mm ?s) (Dyn as) = Dyn blk" 
    unfolding add_process_fields by (subst m) (rule add_space_tab(3) [OF vmh fr, of Static], use vm in \<open>simp add: vm_ok_def\<close>)
  have bk: "blk \<notin> insert p (heap_live (heap (mm s)))" "heap_live (heap m) = insert blk (insert p (heap_live (heap (mm s))))"
    using fr h(2) by (simp_all add: fresh_parts_def)
  have bo: "block_addr ?s x = block_addr s x" if "owner_of T (set ps) R x" for x
    using that tab by (cases x) (auto simp: add_process_fields)
  have bn: "x = BProc p \<and> block_addr ?s x = p \<or> x = BTable as \<and> block_addr ?s x = blk"
    if "owner_of T (set (ps @ [p])) (insert (Dyn as) R) x" "\<not> owner_of T (set ps) R x" for x
    using that tabn by (cases x) auto
  have old: "block_addr s x \<noteq> p \<and> block_addr s x \<noteq> blk" if "owner_of T (set ps) R x" for x
    using blocks_ok_live [OF bl that] p bk(1) by auto
  have bl': "blocks_ok T (set (ps @ [p])) (insert (Dyn as) R) ?s" unfolding blocks_ok_def
  proof (intro conjI allI impI)
    fix x assume x: "owner_of T (set (ps @ [p])) (insert (Dyn as) R) x"
    have "block_addr ?s x \<in> heap_live (heap m)"
    proof (cases "owner_of T (set ps) R x")
      case True
      then show ?thesis using bo [OF True] blocks_ok_live [OF bl True] by (simp add: bk(2))
    next
      case False
      then show ?thesis using bn [OF x False] by (auto simp: bk(2))
    qed
    then show "block_addr ?s x \<in> heap_live (heap (mm ?s))" by (simp only: add_process_fields)
  next
    fix x y assume xy: "owner_of T (set (ps @ [p])) (insert (Dyn as) R) x \<and> owner_of T (set (ps @ [p])) (insert (Dyn as) R) y \<and>
      block_addr ?s x = block_addr ?s y"
    show "x = y"
    proof (cases "owner_of T (set ps) R x")
      case True
      then show ?thesis using bo [of x] bo [of y] bn [of y] old [of x] xy blocks_ok_inj [OF bl True, of y] by metis
    next
      case False
      then show ?thesis using bo [of y] bn [of x] bn [of y] old [of y] xy bk(1) by (metis insertI1)
    qed
  qed
  have sp': "spaces_ok (set (ps @ [p])) (insert (Dyn as) R) ?s"
  proof -
    have "space_of s q \<noteq> Some (Dyn as)" if "q \<in> set ps" for q using sp that nR by (auto simp: spaces_ok_def)
    then have "inj_on (space_of ?s) (set (ps @ [p]))"
      using sp pn unfolding spaces_ok_def inj_on_def by (auto simp: add_process_proc)
    then show ?thesis using sp pn by (auto simp: spaces_ok_def add_process_proc add_process_fields)
  qed
  have po: "process_of ?s = process_of s" "state_of ?s = state_of s"
    by (simp_all add: process_of_def [abs_def] state_of_def [abs_def] add_process_fields)
  have "{t \<in> known T. process_of s t = Some p} = {}" using me pn by (fastforce simp: members_ok_def)
  then have none: "card {t \<in> known T. process_of s t = Some p} = 0" by (simp only: card.empty)
  then have me': "members_ok T (set (ps @ [p])) ?s"
    using me pn by (auto simp: members_ok_def po add_process_fields add_process_proc)
  have "ready ?s = ready s" "terminated ?s = terminated s"
    by (simp_all add: ready_def [abs_def] terminated_def [abs_def] nexts_def [abs_def] add_process_fields)
  then have st': "states_ok T rs ts ?s" using st by (simp add: states_ok_def idle_wf_def po add_process_fields)
  show "between lay (insert (Dyn as) R) T rs ts (ps @ [p]) ?s"
    using vm' bl' sp' me' st' add_process_list [OF pl pn] by (simp add: between_def)
qed

lemma add_process_running:
  assumes "running c T rs s" "between lay R T rs ts ps s" "p \<notin> set ps" "current_address_space m = current_address_space (mm s)"
  shows "running c T rs (add_process p r name m s)"
proof -
  obtain q where q: "process_of s c = Some q" "current_process s = Some q" "current_address_space (mm s) = space_of s q"
    using assms(1) by (auto simp: running_def place_ok_def)
  have "q \<noteq> p" using q(1) assms(1-3) by (auto simp: running_def between_def members_ok_def)
  then show ?thesis using assms(1,4) q
    by (auto simp: running_def place_ok_def process_of_def state_of_def add_process_fields add_process_proc)
qed

lemma process_create_ok:
  assumes b: "between lay R T rs ts ps s" and c: "running c T rs s" and low: "low_frames 2 (pmm (mm s))"
  shows "\<exists>res s'. process_create lay name s = Some (res, s') \<and>
    (case res of
       None \<Rightarrow> between lay R T rs ts ps s' \<and> running c T rs s' \<and> heap_live (heap (mm s')) = heap_live (heap (mm s))
     | Some p \<Rightarrow> \<exists>as. p \<notin> set ps \<and> Dyn as \<notin> R \<and> between lay (insert (Dyn as) R) T rs ts (ps @ [p]) s' \<and> running c T rs s' \<and>
         space_of s' p = Some (Dyn as) \<and> p_state (processes s' p) = PROCESS_RUNNING \<and> thread_count (processes s' p) = 0 \<and>
         pid (processes s' p) = next_pid s \<and> next_pid s' = next_pid s + 1 \<and>
         (\<forall>q. q \<noteq> p \<longrightarrow> pid (processes s' q) = pid (processes s q)))"
proof -
  obtain res s' where r: "process_create lay name s = Some (res, s')"
    "current_address_space (mm s') = current_address_space (mm s)"
    "case res of
       None \<Rightarrow> \<exists>p m pr. s' = s\<lparr>mm := m, processes := (processes s)(p := pr)\<rparr> \<and> p \<notin> set ps \<and> vm_ok lay R m \<and>
         heap_live (heap m) = heap_live (heap (mm s)) \<and> (\<forall>r \<in> R. spaces m r = spaces (mm s) r)
     | Some p \<Rightarrow> \<exists>as blk dir h m. p \<notin> heap_live (heap (mm s)) \<and> heap_good h \<and> heap_live h = insert p (heap_live (heap (mm s))) \<and>
         fresh_parts ((mm s)\<lparr>heap := h\<rparr>) as blk dir (heap m) (pmm m) \<and>
         m = add_space lay as blk dir (heap m) (pmm m) ((mm s)\<lparr>heap := h\<rparr>) \<and> s' = add_process p (Dyn as) name m s"
    using b process_create_run [OF _ _ low, of lay R T ps name] unfolding between_def by blast
  show ?thesis
  proof (cases res)
    case (Some p)
    then obtain as blk dir h m where f: "p \<notin> heap_live (heap (mm s))" "heap_good h" "heap_live h = insert p (heap_live (heap (mm s)))"
      "fresh_parts ((mm s)\<lparr>heap := h\<rparr>) as blk dir (heap m) (pmm m)"
      "m = add_space lay as blk dir (heap m) (pmm m) ((mm s)\<lparr>heap := h\<rparr>)" "s' = add_process p (Dyn as) name m s"
      using r(3) by auto
    note ab = add_process_between [OF b f(1-5)]
    have "current_address_space m = current_address_space (mm s)" using r(2) f(6) by (simp add: add_process_fields)
    then have "running c T rs s'" unfolding f(6) by (rule add_process_running [OF c b ab(2)])
    then show ?thesis using r(1) Some ab f(6) by (auto simp: add_process_proc add_process_fields)
  next
    case None
    then obtain p m pr where f: "s' = s\<lparr>mm := m, processes := (processes s)(p := pr)\<rparr>" "p \<notin> set ps" "vm_ok lay R m"
      "heap_live (heap m) = heap_live (heap (mm s))" "\<And>r. r \<in> R \<Longrightarrow> spaces m r = spaces (mm s) r"
      using r(3) by auto
    have q: "processes s' q = processes s q" if "q \<in> set ps" for q using that f(1,2) by auto
    have th: "threads s' = threads s" "kernel_process s' = kernel_process s" "process_list_head s' = process_list_head s"
      "process_list_tail s' = process_list_tail s" "mm s' = m" "current_process s' = current_process s" "current_thread s' = current_thread s"
      "ready_queue_head s' = ready_queue_head s" "ready_queue_tail s' = ready_queue_tail s"
      "terminated_queue_head s' = terminated_queue_head s" "terminated_queue_tail s' = terminated_queue_tail s"
      "idle_thread_instance s' = idle_thread_instance s"
      by (simp_all add: f(1))
    have po: "process_of s' = process_of s" "state_of s' = state_of s" "ready s' = ready s" "terminated s' = terminated s"
      by (simp_all add: process_of_def [abs_def] state_of_def [abs_def] ready_def [abs_def] terminated_def [abs_def]
          nexts_def [abs_def] th)
    have so: "space_of s' q = space_of s q" if "q \<in> set ps" for q using q [OF that] by (simp add: space_of_def)
    have "block_addr s' x = block_addr s x" if "owner_of T (set ps) R x" for x
      using that f(5) th by (cases x) (auto simp: tab_of_def)
    then have bl: "blocks_ok T (set ps) R s'" using b f(4) th(5) unfolding between_def blocks_ok_def by metis
    have pl: "proc_list s' ps"
      using b queue_of_cong [of ps "\<lambda>q. p_next (processes s' q)" "\<lambda>q. p_next (processes s q)"] q
      by (simp add: between_def proc_list_def th)
    have sp: "spaces_ok (set ps) R s'" using b q so by (auto simp: between_def spaces_ok_def th inj_on_def)
    have me: "members_ok T (set ps) s'" using b q by (simp add: between_def members_ok_def po th)
    have st: "states_ok T rs ts s'" using b by (simp add: between_def states_ok_def idle_wf_def po th)
    have bt: "between lay R T rs ts ps s'" using f(3) bl pl sp me st by (simp add: between_def th)
    obtain q where "process_of s c = Some q" "q \<in> set ps" using c b by (auto simp: running_def between_def members_ok_def)
    then have "running c T rs s'" using c r(2) so by (auto simp: running_def place_ok_def po th)
    then show ?thesis using r(1) None bt f(4) th(5) by auto
  qed
qed

end
