(* ===== verification/KernBoot.thy ===== *)
theory KernBoot
  imports KernCreate
begin

text \<open>
  \<open>process_init\<close> and \<open>scheduler_init\<close> establish the invariant of the kernel on top of the booted memory
  management.
\<close>

lemma process_init_ok:
  assumes vm: "vm_ok lay {Static} (mm s)" and cur: "current_address_space (mm s) = Some Static"
    and low: "low_frames 2 (pmm (mm s))" and tail: "process_list_tail s = None"
  shows "\<exists>s'. process_init lay nm s = Some s' \<and> (\<forall>k. kernel_process s' = Some k \<longrightarrow>
    vm_ok lay {Static} (mm s') \<and> current_address_space (mm s') = Some Static \<and> k \<in> heap_live (heap (mm s')) \<and>
    current_process s' = Some k \<and> space_of s' k = Some Static \<and> p_state (processes s' k) = PROCESS_RUNNING \<and>
    thread_count (processes s' k) = 0 \<and> proc_list s' [k] \<and> pid (processes s' k) = 0 \<and>
    (\<forall>v. translate (mm s') Static v = translate (mm s) Static v))"
proof -
  let ?s0 = "s\<lparr>next_pid := 1, current_process := None, kernel_process := None\<rparr>"
  have bl: "blocks_ok {} (set []) {Static} ?s0" unfolding blocks_ok_def
  proof -
    have "\<not> owner_of {} (set []) {Static} x" for x by (cases x) auto
    then show "(\<forall>x. owner_of {} (set []) {Static} x \<longrightarrow> block_addr ?s0 x \<in> heap_live (heap (mm ?s0))) \<and>
      (\<forall>x y. owner_of {} (set []) {Static} x \<and> owner_of {} (set []) {Static} y \<and> block_addr ?s0 x = block_addr ?s0 y \<longrightarrow> x = y)"
      by blast
  qed
  have vm0: "vm_ok lay {Static} (mm ?s0)" "low_frames 2 (pmm (mm ?s0))" using vm low by simp_all
  obtain res s1 where c: "process_create lay (Some nm) ?s0 = Some (res, s1)"
    and c2: "case res of
       None \<Rightarrow> \<exists>p m pr. s1 = ?s0\<lparr>mm := m, processes := (processes ?s0)(p := pr)\<rparr>
     | Some p \<Rightarrow> \<exists>as blk dir h m. p \<notin> heap_live (heap (mm ?s0)) \<and> heap_good h \<and> heap_live h = insert p (heap_live (heap (mm ?s0))) \<and>
         fresh_parts ((mm ?s0)\<lparr>heap := h\<rparr>) as blk dir (heap m) (pmm m) \<and>
         m = add_space lay as blk dir (heap m) (pmm m) ((mm ?s0)\<lparr>heap := h\<rparr>) \<and> s1 = add_process p (Dyn as) (Some nm) m ?s0"
    using process_create_run [OF vm0(1) bl vm0(2), of "Some nm"] by (fastforce split: option.splits)
  show ?thesis
  proof (cases res)
    case None
    then show ?thesis using c by (simp add: process_init_def Let_def k_say_def)
  next
    case (Some k)
  then obtain as blk dir h m where f: "k \<notin> heap_live (heap (mm s))" "heap_good h" "heap_live h = insert k (heap_live (heap (mm s)))"
      "fresh_parts ((mm s)\<lparr>heap := h\<rparr>) as blk dir (heap m) (pmm m)"
      "m = add_space lay as blk dir (heap m) (pmm m) ((mm s)\<lparr>heap := h\<rparr>)" "s1 = add_process k (Dyn as) (Some nm) m ?s0"
    using c2 by auto
  let ?m = "(mm s)\<lparr>heap := h\<rparr>"
  have vmh: "vm_ok lay {Static} ?m"
    by (rule vm_ok_heap [OF vm f(2)]) (use vm f(3) in \<open>auto simp: vm_ok_def tables_ok_def\<close>)
  have vm1: "vm_ok lay (insert (Dyn as) {Static}) m" using add_space_ok [OF vmh f(4)] f(5) by simp
  have cas: "current_address_space m = Some Static" using cur by (subst f(5)) simp
  have tab: "tab_of m (Dyn as) = Dyn blk" by (subst f(5)) (rule add_space_tab(3) [OF vmh f(4), of Static], simp)
  have nc: "current_address_space m \<noteq> Some (Dyn as)" using cas by simp
  have hl: "heap_live (heap m) = insert blk (heap_live h)" "blk \<notin> heap_live h" using f(4) by (simp_all add: fresh_parts_def)
  obtain m' where d: "address_space_destroy (Some (Dyn as)) m = Some m'" "vm_ok lay (insert (Dyn as) {Static} - {Dyn as}) m'"
    "current_address_space m' = current_address_space m" "heap_live (heap m') = heap_live (heap m) - {blk}"
    "\<forall>r \<in> insert (Dyn as) {Static} - {Dyn as}. \<forall>v. translate m' r v = translate m r v"
    using destroy_ok [OF vm1 insertI1 nc tab] by blast
  let ?s2 = "upd_process k (\<lambda>pr. pr\<lparr>p_address_space := None\<rparr>) ((s1\<lparr>kernel_process := Some k\<rparr>)\<lparr>mm := m'\<rparr>)"
  have sp1: "p_address_space (processes s1 k) = Some (Dyn as)"
    using add_process_proc(1) [of k "Dyn as" "Some nm" m ?s0 k] f(6) by (simp add: space_of_def)
  have m1: "mm s1 = m" using f(6) by (simp add: add_process_fields)
  have run: "process_init lay nm s =
      Some ((upd_process k (\<lambda>pr. pr\<lparr>pid := 0, p_state := PROCESS_RUNNING, p_address_space := address_space_current (mm ?s2),
        p_parent := None, thread_count := 0, p_next := None, p_name := kernel_process_name (p_name pr)\<rparr>) ?s2)
        \<lparr>current_process := Some k, process_list_head := Some k, process_list_tail := Some k\<rparr>)"
    using c Some sp1 m1 cas d(1) by (simp add: process_init_def Let_def address_space_current_def k_destroy_space_def)
  let ?s = "(upd_process k (\<lambda>pr. pr\<lparr>pid := 0, p_state := PROCESS_RUNNING, p_address_space := address_space_current (mm ?s2),
        p_parent := None, thread_count := 0, p_next := None, p_name := kernel_process_name (p_name pr)\<rparr>) ?s2)
        \<lparr>current_process := Some k, process_list_head := Some k, process_list_tail := Some k\<rparr>"
  have mm': "mm ?s = m'" by (simp add: upd_process_def)
  have "insert (Dyn as) {Static} - {Dyn as} = {Static}" by auto
  then have "vm_ok lay {Static} (mm ?s)" using d(2) mm' by simp
  moreover have "current_address_space (mm ?s) = Some Static" using d(3) cas mm' by simp
  moreover have "k \<in> heap_live (heap (mm ?s))" using d(4) hl f(3) mm' by auto
  moreover have "current_process ?s = Some k" "p_state (processes ?s k) = PROCESS_RUNNING"
    "thread_count (processes ?s k) = 0" "pid (processes ?s k) = 0" "kernel_process ?s = Some k"
    by (simp_all add: upd_process_def)
  moreover have "space_of ?s k = Some Static" using d(3) cas by (simp add: upd_process_def space_of_def address_space_current_def)
  moreover have "proc_list ?s [k]" by (simp add: upd_process_def proc_list_def queue_of_def last_of_def)
  moreover have "translate (mm ?s) Static v = translate (mm s) Static v" for v
  proof -
    have "translate m' Static v = translate m Static v" using d(5) by auto
    also have "\<dots> = translate ?m Static v" by (subst f(5)) (rule add_space_translate(1) [OF vmh f(4)], simp)
    also have "\<dots> = translate (mm s) Static v" by (simp add: translate_def entry_for_def table_for_def get_word_def)
    finally show ?thesis using mm' by simp
  qed
  ultimately show ?thesis using run by simp
  qed
qed

lemma scheduler_init_ok:
  assumes vm: "vm_ok lay {Static} (mm s)" and cur: "current_address_space (mm s) = Some Static"
    and k: "k \<in> heap_live (heap (mm s))" "current_process s = Some k" "kernel_process s = Some k" "space_of s k = Some Static"
      "p_state (processes s k) = PROCESS_RUNNING" "thread_count (processes s k) = 0" "proc_list s [k]"
    and entry: "entry \<noteq> 0" and run: "scheduler_init entry s = Some s'" and idle: "idle_thread_instance s' = Some i"
  shows "\<exists>a. i = Dyn a \<and> between lay {Static} {a} [] [] [k] s' \<and> running Static {a} [] s' \<and> next_tid s' = 3 \<and>
    pid (processes s' k) = pid (processes s k)"
proof -
  let ?s0 = "s\<lparr>next_tid := 1, current_thread := None, ready_queue_head := None, ready_queue_tail := None,
                terminated_queue_head := None, terminated_queue_tail := None\<rparr>"
  let ?th = "\<lambda>th. th\<lparr>tid := 1, t_state := THREAD_RUNNING, t_process := Some k,
                       kernel_stack := 0, kernel_stack_top := 0, saved_esp := 0, t_frame := 0, t_entry := 0,
                       t_next := None, t_name := (kernel_chars (t_name th))[6 := 0]\<rparr>"
  let ?s1 = "(upd_process k (\<lambda>pr. pr\<lparr>thread_count := thread_count pr + 1\<rparr>)
     ((upd_thread Static ?th ?s0)\<lparr>next_tid := 2\<rparr>))\<lparr>current_thread := Some Static\<rparr>"
  have f1: "mm ?s1 = mm s" "p_state (processes ?s1 k) = PROCESS_RUNNING" using k by (simp_all add: upd_process_def upd_thread_def)
  have hg: "heap_good (heap (mm ?s1))" using vm f1 by (simp add: vm_ok_def)
  obtain res s2 where c: "thread_create_in_process (Some k) entry (Some idle_name) ?s1 = Some (res, s2)"
    "case res of
       None \<Rightarrow> \<exists>h. s2 = ?s1\<lparr>mm := (mm ?s1)\<lparr>heap := h\<rparr>\<rparr> \<and> heap_good h \<and> heap_live h = heap_live (heap (mm ?s1))
     | Some t \<Rightarrow> \<exists>a stack h. t = Dyn a \<and> s2 = add_thread a k entry stack (Some idle_name) h ?s1 \<and> heap_good h \<and> a \<noteq> stack \<and>
         a \<notin> heap_live (heap (mm ?s1)) \<and> stack \<notin> heap_live (heap (mm ?s1)) \<and> heap_live h = {a, stack} \<union> heap_live (heap (mm ?s1))"
    using thread_create_run [OF f1(2) entry hg, of "Some idle_name"] by blast
  have "scheduler_init entry s = Some (s2\<lparr>idle_thread_instance := res\<rparr>)"
    using c(1) k(2) by (simp add: scheduler_init_def thread_init_def process_current_def Let_def upd_thread_def upd_process_def)
  then have s': "s' = s2\<lparr>idle_thread_instance := res\<rparr>" "res = Some i" using run idle by auto
  then obtain a stack h where f: "i = Dyn a" "s2 = add_thread a k entry stack (Some idle_name) h ?s1" "heap_good h" "a \<noteq> stack"
      "a \<notin> heap_live (heap (mm s))" "stack \<notin> heap_live (heap (mm s))" "heap_live h = {a, stack} \<union> heap_live (heap (mm s))"
    using c(2) f1(1) by auto
  have bl1: "blocks_ok {} {k} {Static} ?s1" unfolding blocks_ok_def
  proof -
    have o: "x = BProc k" if "owner_of {} {k} {Static} x" for x using that by (cases x) auto
    have a: "block_addr t (BProc k) = k" for t by simp
    have "block_addr ?s1 x \<in> heap_live (heap (mm ?s1))" if "owner_of {} {k} {Static} x" for x
      unfolding o [OF that] a f1(1) by (rule k(1))
    moreover have "x = y" if "owner_of {} {k} {Static} x \<and> owner_of {} {k} {Static} y \<and> block_addr ?s1 x = block_addr ?s1 y" for x y
      using o [of x] o [of y] that by blast
    ultimately show "(\<forall>x. owner_of {} {k} {Static} x \<longrightarrow> block_addr ?s1 x \<in> heap_live (heap (mm ?s1))) \<and>
      (\<forall>x y. owner_of {} {k} {Static} x \<and> owner_of {} {k} {Static} y \<and> block_addr ?s1 x = block_addr ?s1 y \<longrightarrow> x = y)"
      by blast
  qed
  have e: "mm s' = (mm s)\<lparr>heap := h\<rparr>" "current_process s' = Some k" "kernel_process s' = Some k" "current_thread s' = Some Static"
    "idle_thread_instance s' = Some (Dyn a)" "process_list_head s' = process_list_head s" "process_list_tail s' = process_list_tail s"
    "ready_queue_head s' = None" "ready_queue_tail s' = None" "terminated_queue_head s' = None" "terminated_queue_tail s' = None"
    using k s'(2) f(1) unfolding s'(1) f(2) by (simp_all add: add_thread_fields upd_process_def upd_thread_def)
  have v: "state_of s' Static = THREAD_RUNNING" "state_of s' (Dyn a) = THREAD_READY" "process_of s' Static = Some k" "process_of s' (Dyn a) = Some k"
    "space_of s' k = Some Static" "p_state (processes s' k) = PROCESS_RUNNING" "p_next (processes s' k) = p_next (processes s k)"
    using k(4,5) unfolding s'(1) f(2)
    by (simp_all add: state_of_def process_of_def space_of_def add_thread_fields new_thread_fields upd_process_def upd_thread_def)
  have "thread_count (processes s' k) = 2" using k(6) unfolding s'(1) f(2) by (simp add: add_thread_fields upd_process_def upd_thread_def)
  then have cnt: "unat (thread_count (processes s' k)) = 2" by simp
  have vm': "vm_ok lay {Static} (mm s')" unfolding e(1)
    by (rule vm_ok_heap [OF vm f(3)]) (use vm f(7) in \<open>auto simp: vm_ok_def tables_ok_def\<close>)
  have "blocks_ok {a} {k} {Static} s2" unfolding f(2)
    by (rule add_thread_blocks [OF bl1]) (use f(4-7) f1(1) in simp_all)
  moreover have "blocks_ok {a} {k} {Static} s' = blocks_ok {a} {k} {Static} s2"
    by (rule blocks_ok_cong) (simp_all add: s'(1))
  ultimately have bl: "blocks_ok {a} (set [k]) {Static} s'" by simp
  have pl: "proc_list s' [k]" using k(7) by (simp add: proc_list_def e queue_of_def v(7))
  have kn: "known {a} = {Static, Dyn a}" by (simp add: known_def)
  have "{t \<in> known {a}. process_of s' t = Some k} = {Static, Dyn a}" using v unfolding kn by auto
  then have me: "members_ok {a} (set [k]) s'" using v cnt e by (simp add: members_ok_def kn)
  have sp: "spaces_ok (set [k]) {Static} s'" using v e by (simp add: spaces_ok_def)
  have st: "states_ok {a} [] [] s'" using v e by (auto simp: states_ok_def idle_wf_def ready_def terminated_def kn)
  have bt: "between lay {Static} {a} [] [] [k] s'"
    using vm' bl pl me sp st by (simp add: between_def)
  have "running Static {a} [] s'" using v e cur by (simp add: running_def place_ok_def)
  moreover have "next_tid s' = 3" unfolding s'(1) f(2) by (simp add: add_thread_def upd_process_def)
  moreover have "pid (processes s' k) = pid (processes s k)"
    unfolding s'(1) f(2) by (simp add: add_thread_fields upd_process_def upd_thread_def)
  ultimately show ?thesis using f(1) bt by blast
qed

lemma scheduler_init_returns:
  assumes "heap_good (heap (mm s))" "current_process s = Some k" "p_state (processes s k) = PROCESS_RUNNING" "entry \<noteq> 0"
  shows "scheduler_init entry s \<noteq> None"
proof -
  let ?s0 = "s\<lparr>next_tid := 1, current_thread := None, ready_queue_head := None, ready_queue_tail := None,
                terminated_queue_head := None, terminated_queue_tail := None\<rparr>"
  let ?th = "\<lambda>th. th\<lparr>tid := 1, t_state := THREAD_RUNNING, t_process := Some k,
                       kernel_stack := 0, kernel_stack_top := 0, saved_esp := 0, t_frame := 0, t_entry := 0,
                       t_next := None, t_name := (kernel_chars (t_name th))[6 := 0]\<rparr>"
  let ?s1 = "(upd_process k (\<lambda>pr. pr\<lparr>thread_count := thread_count pr + 1\<rparr>)
     ((upd_thread Static ?th ?s0)\<lparr>next_tid := 2\<rparr>))\<lparr>current_thread := Some Static\<rparr>"
  have "p_state (processes ?s1 k) = PROCESS_RUNNING" "heap_good (heap (mm ?s1))"
    using assms by (simp_all add: upd_process_def upd_thread_def)
  then obtain res s2 where "thread_create_in_process (Some k) entry (Some idle_name) ?s1 = Some (res, s2)"
    using thread_create_run [of ?s1 k entry "Some idle_name"] assms(4) by blast
  then have "scheduler_init entry s = Some (s2\<lparr>idle_thread_instance := res\<rparr>)"
    using assms(2) by (simp add: scheduler_init_def thread_init_def process_current_def Let_def upd_thread_def upd_process_def)
  then show ?thesis by simp
qed

end
