(* ===== verification/KernThms.thy ===== *)
theory KernThms
  imports KernBoot
begin

text \<open>
  The theorems on threads, processes and the scheduler.
\<close>

section \<open>The running kernel as a step relation\<close>

definition listed :: "u32 \<Rightarrow> kstate \<Rightarrow> bool" where
  "listed p s \<longleftrightarrow> (\<exists>ps. proc_list s ps \<and> p \<in> set ps)"

definition with_new :: "u32 set \<Rightarrow> ref option \<Rightarrow> u32 set" where
  "with_new T t = (case t of Some (Dyn a) \<Rightarrow> insert a T | _ \<Rightarrow> T)"

definition live_threads :: "u32 set \<Rightarrow> kstate \<Rightarrow> u32 set" where
  "live_threads T s = {a \<in> T. state_of s (Dyn a) \<noteq> THREAD_TERMINATED}"

text \<open>A step is a call of an operation of the thread and process interface, or a timer tick; \<open>T\<close> records which
  threads exist. The idle thread does not block, and a process is created while the two lowest free
  frames lie below 4 MiB.\<close>

inductive kstep :: "layout \<Rightarrow> u32 set \<times> kstate \<Rightarrow> u32 set \<times> kstate \<Rightarrow> bool" for lay :: layout where
  create_process: "low_frames 2 (pmm (mm s)) \<Longrightarrow> process_create lay name s = Some (p, s') \<Longrightarrow> kstep lay (T, s) (T, s')"
| spawn: "listed p s \<Longrightarrow> thread_create_in_process (Some p) entry name s = Some (t, s') \<Longrightarrow>
    kstep lay (T, s) (with_new T t, thread_enqueue t s')"
| yield: "thread_yield s = Some s' \<Longrightarrow> kstep lay (T, s) (T, s')"
| block: "thread_current s \<noteq> thread_idle s \<Longrightarrow> thread_block s = Some s' \<Longrightarrow> kstep lay (T, s) (T, s')"
| unblock: "t \<in> known T \<Longrightarrow> kstep lay (T, s) (T, thread_unblock (Some t) s)"
| terminate: "thread_terminate s = Some s' \<Longrightarrow> kstep lay (T, s) (T, s')"
| exit: "listed p s \<Longrightarrow> process_exit (Some p) s = Some s' \<Longrightarrow> kstep lay (T, s) (T, s')"
| tick: "scheduler_schedule r s = Some (r', s') \<Longrightarrow> kstep lay (T, s) (live_threads T s, s')"

inductive_cases kstepE: "kstep lay x y"

definition kernel_inv :: "layout \<Rightarrow> u32 set \<times> kstate \<Rightarrow> bool" where
  "kernel_inv lay x \<longleftrightarrow> (\<exists>R rs ts ps. kernel_ok lay R (fst x) rs ts ps (snd x))"

lemma kernel_invI: "between lay R T rs ts ps s \<Longrightarrow> running c T rs s \<Longrightarrow> kernel_inv lay (T, s)"
  by (auto simp: kernel_inv_def kernel_ok_def)

lemma kernel_invE:
  assumes "kernel_inv lay (T, s)"
  obtains R rs ts ps c where "between lay R T rs ts ps s" "running c T rs s"
  using assms by (auto simp: kernel_inv_def kernel_ok_def)

lemma proc_list_unique: "proc_list s ps \<Longrightarrow> proc_list s ps' \<Longrightarrow> ps = ps'"
proof -
  have "linked nx h xs \<Longrightarrow> linked nx h ys \<Longrightarrow> xs = ys" for nx h and xs ys :: "u32 list"
    by (induction xs arbitrary: h ys) (auto simp: linked_Some elim: linked.elims)
  then show "proc_list s ps \<Longrightarrow> proc_list s ps' \<Longrightarrow> ps = ps'" by (auto simp: proc_list_def queue_of_def)
qed

lemma listed_mem: "between lay R T rs ts ps s \<Longrightarrow> listed p s \<Longrightarrow> p \<in> set ps"
  using proc_list_unique [of s ps] by (auto simp: listed_def between_def)

lemma live_threads_without: "between lay R T rs ts ps s \<Longrightarrow> live_threads T s = without T ts"
  by (auto simp: live_threads_def without_def between_def states_ok_def)

lemma kernel_step:
  assumes "kstep lay (T, s) (T', s')" "kernel_inv lay (T, s)"
  shows "kernel_inv lay (T', s')"
proof -
  obtain R rs ts ps c where b: "between lay R T rs ts ps s" and c: "running c T rs s"
    using assms(2) by (rule kernel_invE)
  note cur = running_ok [OF b c]
  obtain i where i: "idle_thread_instance s = Some i" using idle_exists [OF b] by blast
  from assms(1) show ?thesis
  proof (cases rule: kstep.cases)
    case (create_process name p)
    then show ?thesis using process_create_ok [OF b c, of name] by (auto split: option.splits intro: kernel_invI)
  next
    case (spawn p entry name t s1)
    note p = listed_mem [OF b spawn(3)]
    show ?thesis
    proof (cases "entry \<noteq> 0 \<and> p_state (processes s p) = PROCESS_RUNNING")
      case False
      then have "t = None" "s1 = s" using spawn(4) by (auto simp: thread_create_in_process_def split: if_splits)
      then show ?thesis using spawn b c by (auto simp: with_new_def thread_enqueue_def intro: kernel_invI)
    next
      case True
      show ?thesis
      proof (cases t)
        case None
        then obtain h where "s1 = s\<lparr>mm := (mm s)\<lparr>heap := h\<rparr>\<rparr>" "between lay R T rs ts ps s1"
          using thread_create_ok [OF b p, of entry name] True spawn(4) by auto
        then show ?thesis using running_heap [OF c] None spawn by (auto simp: with_new_def thread_enqueue_def intro: kernel_invI)
      next
        case (Some x)
        then obtain a stack h where t: "x = Dyn a" "a \<notin> T" "s1 = add_thread a p entry stack name h s"
          "between lay R (insert a T) rs ts ps s1"
          using thread_create_ok [OF b p, of entry name] True spawn(4) by auto
        have r: "running c (insert a T) rs s1" unfolding t(3) by (rule add_thread_running [OF c t(2)])
        have st: "states_ok T rs ts s" using b by (simp add: between_def)
        have n: "Dyn a \<notin> set rs" "Dyn a \<notin> set ts" using st t(2) by (auto simp: states_ok_def)
        have ni: "Some (Dyn a) \<noteq> idle_thread_instance s1"
          using st t(2) by (auto simp: t(3) add_thread_fields states_ok_def idle_wf_def)
        have cn: "c \<noteq> Dyn a" using cur(3) t(2) by auto
        have "between lay R (insert a T) (rs @ [Dyn a]) ts ps (thread_enqueue (Some (Dyn a)) s1)"
          by (rule enqueue_between [OF t(4) _ n ni]) simp
        moreover have "running c (insert a T) (rs @ [Dyn a]) (thread_enqueue (Some (Dyn a)) s1)"
          by (rule running_change [OF r enqueue_effect(1)]) (use cn in \<open>simp add: state_of_def enqueue_effect(2)\<close>)
        ultimately show ?thesis using spawn(1,2) Some t(1) by (auto simp: with_new_def intro: kernel_invI)
      qed
    qed
  next
    case yield
    then show ?thesis using thread_yield_ok [OF b c] b c by (auto split: if_splits intro: kernel_invI)
  next
    case block
    then have "Some c \<noteq> idle_thread_instance s" using cur(4) by (simp add: thread_idle_def)
    then show ?thesis using thread_block_ok [OF b c] block by (auto intro: kernel_invI)
  next
    case (unblock t)
    obtain p where p: "process_of s t = Some p" using b unblock(3) by (auto simp: between_def members_ok_def)
    show ?thesis
    proof (cases "state_of s t = THREAD_BLOCKED")
      case True
      then show ?thesis using thread_unblock_ok [OF b c unblock(3) True p] unblock(1,2)
        by (auto split: if_splits intro: kernel_invI)
    next
      case False
      then have "thread_unblock (Some t) s = s" by (simp add: thread_unblock_def state_of_def)
      then show ?thesis using b c unblock(1,2) by (auto intro: kernel_invI)
    qed
  next
    case terminate
    show ?thesis
    proof (cases "c = Static \<or> Some c = idle_thread_instance s")
      case True
      then have "thread_terminate s = Some s" using cur(4) by (auto simp: thread_terminate_def split: option.split)
      then show ?thesis using b c terminate by (auto intro: kernel_invI)
    next
      case False
      then show ?thesis using thread_terminate_ok [OF b c] terminate by (auto intro: kernel_invI)
    qed
  next
    case (exit p)
    show ?thesis
    proof (cases "Some p = kernel_process s")
      case True
      then have "process_exit (Some p) s = Some s" by (auto simp: process_exit_def split: option.split)
      then show ?thesis using b c exit by (auto intro: kernel_invI)
    next
      case False
      then show ?thesis using process_exit_ok [OF b c False] exit by (auto simp: Let_def split: if_splits intro: kernel_invI)
    qed
  next
    case (tick r r')
    obtain s1 e R' rs' ps' where "scheduler_schedule r s = Some (e, s1)" "between lay R' (without T ts) rs' [] ps' s1"
      "running (next_of_queue s rs) (without T ts) rs' s1"
      using scheduler_schedule_ok [OF b c, of r] by (elim exE conjE) (rule that)
    moreover from this(1) have "s' = s1" using tick(2) by simp
    moreover have "T' = without T ts" using tick(1) live_threads_without [OF b] by simp
    ultimately show ?thesis using kernel_invI by blast
  qed
qed

section \<open>A kernel\<close>

text \<open>The kernel process with the bootstrap thread, the idle thread, a ready and a terminated thread, on the
  booted machine.\<close>

definition demo_blocks :: heap_t where
  "demo_blocks = \<lparr>heap_words = (\<lambda>_. 0)(0 := 56, 64 := 72, 144 := 4096, 4248 := 72, 4328 := 4096, 8432 := 72, 8512 := 4096),
     heap_offset = 12616\<rparr>"

definition demo_thread :: "thread_state_t \<Rightarrow> u32 \<Rightarrow> ref option \<Rightarrow> thread_t" where
  "demo_thread st stack n = \<lparr>tid = 0, t_state = st, kernel_stack = stack, kernel_stack_top = 0, saved_esp = stack + 4028, t_frame = 0,
     t_process = Some 8, t_entry = 0, t_name = [], t_next = n\<rparr>"

definition demo_kernel :: "kmem \<Rightarrow> kstate" where
  "demo_kernel m =
     \<lparr>mm = m\<lparr>heap := demo_blocks\<rparr>,
      threads = (\<lambda>t. case t of Static \<Rightarrow> demo_thread THREAD_RUNNING 0 None
        | Dyn a \<Rightarrow> if a = 72 then demo_thread THREAD_READY 152 None
                  else if a = 4256 then demo_thread THREAD_READY 4336 None else demo_thread THREAD_TERMINATED 8520 None),
      processes = (\<lambda>_. \<lparr>pid = 0, p_name = [], p_address_space = Some Static, p_parent = None, thread_count = 4, p_next = None,
        p_state = PROCESS_RUNNING\<rparr>),
      stack_frames = (\<lambda>_. (initial_frame 0 0)\<lparr>fr_int_no := 32\<rparr>), next_tid = 5, current_thread = Some Static, ready_queue_head = Some (Dyn 4256),
      ready_queue_tail = Some (Dyn 4256), idle_thread_instance = Some (Dyn 72), terminated_queue_head = Some (Dyn 8440),
      terminated_queue_tail = Some (Dyn 8440), next_pid = 1, current_process = Some 8, kernel_process = Some 8,
      process_list_head = Some 8, process_list_tail = Some 8, cpu_esp = 0, interrupts = True\<rparr>"

lemma demo_blocks_ok:
  "heap_ok demo_blocks [(0, 56, False), (64, 72, False), (144, 4096, False), (4248, 72, False), (4328, 4096, False),
     (8432, 72, False), (8512, 4096, False)]"
  by (simp add: heap_ok_def demo_blocks_def block_size_def block_free_def)

lemma demo_blocks_live: "heap_good demo_blocks" "heap_live demo_blocks = {8, 72, 152, 4256, 4336, 8440, 8520}"
proof -
  show "heap_good demo_blocks" using demo_blocks_ok by (auto simp: heap_good_def)
  have "used [(0, 56, False), (64, 72, False), (144, 4096, False), (4248, 72, False), (4328, 4096, False),
     (8432, 72, False), (8512, 4096, False)] = {0, 64, 144, 4248, 4328, 8432, 8512}" by (auto simp: used_def)
  then show "heap_live demo_blocks = {8, 72, 152, 4256, 4336, 8440, 8520}"
    using heap_live_blocks [OF demo_blocks_ok] by (simp add: payload_def)
qed

lemma demo_kernel_ok:
  assumes "vm_ok demo_layout {Static} m" "current_address_space m = Some Static"
  shows "between demo_layout {Static} {72, 4256, 8440} [Dyn 4256] [Dyn 8440] [8] (demo_kernel m)"
    "running Static {72, 4256, 8440} [Dyn 4256] (demo_kernel m)"
proof -
  let ?T = "{72, 4256, 8440} :: u32 set" and ?s = "demo_kernel m"
  have kn: "known ?T = {Static, Dyn 72, Dyn 4256, Dyn 8440}" by (auto simp: known_def)
  have st: "state_of ?s Static = THREAD_RUNNING" "state_of ?s (Dyn 72) = THREAD_READY" "state_of ?s (Dyn 4256) = THREAD_READY"
    "state_of ?s (Dyn 8440) = THREAD_TERMINATED"
    by (simp_all add: state_of_def demo_kernel_def demo_thread_def)
  have pr: "process_of ?s t = Some 8" for t by (cases t) (simp_all add: process_of_def demo_kernel_def demo_thread_def)
  have nx: "nexts ?s t = None" for t by (cases t) (simp_all add: nexts_def demo_kernel_def demo_thread_def)
  have vm: "vm_ok demo_layout {Static} (mm ?s)"
    using vm_ok_heap [OF assms(1) demo_blocks_live(1)] assms(1) by (auto simp: demo_kernel_def vm_ok_def tables_ok_def)
  have bl: "blocks_ok ?T (set [8]) {Static} ?s"
  proof -
    have ow: "owner_of ?T (set [8]) {Static} x \<longleftrightarrow>
        x \<in> {BThread 72, BThread 4256, BThread 8440, BStack 72, BStack 4256, BStack 8440, BProc 8}" for x
      by (cases x) auto
    have ad: "kernel_stack (threads ?s (Dyn 72)) = 152" "kernel_stack (threads ?s (Dyn 4256)) = 4336"
      "kernel_stack (threads ?s (Dyn 8440)) = 8520" "heap (mm ?s) = demo_blocks"
      by (simp_all add: demo_kernel_def demo_thread_def)
    show ?thesis unfolding blocks_ok_def ow ad(4) demo_blocks_live(2) using ad(1-3) by auto
  qed
  have "{t \<in> known ?T. process_of ?s t = Some 8} = {Static, Dyn 72, Dyn 4256, Dyn 8440}" using pr unfolding kn by auto
  then have me: "members_ok ?T (set [8]) ?s" using pr unfolding members_ok_def kn
    by (simp add: demo_kernel_def)
  have sp: "spaces_ok (set [8]) {Static} ?s" by (simp add: spaces_ok_def space_of_def demo_kernel_def)
  have pl: "proc_list ?s [8]" by (simp add: proc_list_def queue_of_def last_of_def demo_kernel_def)
  have "ready ?s [Dyn 4256]" "terminated ?s [Dyn 8440]"
    by (simp_all add: ready_def terminated_def queue_of_def last_of_def nx) (simp_all add: demo_kernel_def)
  moreover have "idle_wf ?T [Dyn 4256] ?s" using st pr by (auto simp: idle_wf_def) (simp_all add: demo_kernel_def)
  moreover have "{t \<in> known ?T. state_of ?s t = THREAD_TERMINATED} = {Dyn 8440}" using st unfolding kn by auto
  ultimately have "states_ok ?T [Dyn 4256] [Dyn 8440] ?s" using st by (simp add: states_ok_def)
  then show "between demo_layout {Static} ?T [Dyn 4256] [Dyn 8440] [8] ?s"
    using vm bl me sp pl by (simp add: between_def)
  show "running Static ?T [Dyn 4256] ?s"
    using st pr assms(2) by (simp add: running_def place_ok_def) (simp add: demo_kernel_def space_of_def)
qed

lemma demo_kernel_exists:
  obtains m where "between demo_layout {Static} {72, 4256, 8440} [Dyn 4256] [Dyn 8440] [8] (demo_kernel m)"
    "running Static {72, 4256, 8440} [Dyn 4256] (demo_kernel m)"
  using booted demo_kernel_ok by metis

section \<open>Properties\<close>

text \<open>C1. Whatever sequence of operations and timer ticks the kernel goes through, it keeps its invariant: the two
  queues are well-formed lists of ready and of terminated threads, the running thread is in neither, every
  process has its own address space, counts its threads, and every thread, process and page table its own
  heap block. The operations are those of \<open>kstep\<close>: a new thread is queued at once, a process is created while two
  free frames lie below 4 MiB, the idle thread does not block, and threads and processes end by \<open>thread_terminate\<close>
  and \<open>process_exit\<close>, not by \<open>thread_destroy\<close> and \<open>process_destroy\<close>.\<close>

theorem kernel_invariant:
  assumes "kernel_inv lay (T, s)" "(kstep lay)\<^sup>*\<^sup>* (T, s) (T', s')"
  shows "kernel_inv lay (T', s')"
  using assms(2,1) by (induction rule: rtranclp_induct2) (auto intro: kernel_step)

theorem kernel_invariant_witness:
  "\<exists>m s'. thread_block (demo_kernel m) = Some s' \<and> kernel_inv demo_layout ({72, 4256, 8440}, s')"
proof -
  obtain m where b: "between demo_layout {Static} {72, 4256, 8440} [Dyn 4256] [Dyn 8440] [8] (demo_kernel m)"
    and c: "running Static {72, 4256, 8440} [Dyn 4256] (demo_kernel m)" by (rule demo_kernel_exists)
  have ni: "thread_current (demo_kernel m) \<noteq> thread_idle (demo_kernel m)"
    by (simp add: thread_current_def thread_idle_def demo_kernel_def)
  then obtain s' where s': "thread_block (demo_kernel m) = Some s'"
    using thread_block_ok [OF b c] by (auto simp: thread_current_def thread_idle_def demo_kernel_def)
  have "kstep demo_layout ({72, 4256, 8440}, demo_kernel m) ({72, 4256, 8440}, s')" by (rule kstep.block [OF ni s'])
  then have "kernel_inv demo_layout ({72, 4256, 8440}, s')"
    by (intro kernel_invariant [OF kernel_invI [OF b c]] r_into_rtranclp)
  then show ?thesis using s' by blast
qed

text \<open>C2. A timer tick goes on with the thread at the head of the ready queue, or with the idle thread when the
  queue is empty; the interrupted thread goes to the end of the queue with its stack pointer saved, unless
  it is the idle thread. The stacks and structs of all terminated threads, and the structs, tables and
  frames of all terminated processes that are left without threads, are given back, and nothing else.\<close>

theorem scheduler_tick:
  assumes "between lay R T rs ts ps s" "running c T rs s"
  shows "\<exists>s'. scheduler_schedule r s =
      Some (if next_of_queue s rs = c then r else saved s (next_of_queue s rs), s') \<and>
    current_thread s' = Some (next_of_queue s rs) \<and> state_of s' (next_of_queue s rs) = THREAD_RUNNING \<and>
    ready s' (queue_after s c rs) \<and> terminated s' [] \<and> (\<forall>t. saved s' t = (if t = c then r else saved s t)) \<and>
    proc_list s' (filter (\<lambda>p. \<not> dead s (live_threads T s) (next_of_queue s rs) p) ps) \<and>
    heap_live (heap (mm s')) = heap_live (heap (mm s)) - set (thread_blocks s ts) -
      (\<Union>p \<in> {p \<in> set ps. dead s (live_threads T s) (next_of_queue s rs) p}. proc_blocks s p) \<and>
    frame_live (pmm (mm s')) = frame_live (pmm (mm s)) -
      (\<Union>p \<in> {p \<in> set ps. dead s (live_threads T s) (next_of_queue s rs) p}. proc_frames s p)"
  unfolding live_threads_without [OF assms(1)]
  using scheduler_schedule_ok [OF assms, of r]
  by (elim exE conjE, intro exI conjI) (assumption, simp_all add: running_def between_def states_ok_def)

theorem scheduler_tick_witness:
  "\<exists>m s'. scheduler_schedule 100 (demo_kernel m) = Some (8364, s') \<and> current_thread s' = Some (Dyn 4256) \<and>
     ready s' [Static] \<and> heap_live (heap (mm s')) = {8, 72, 152, 4256, 4336}"
proof -
  obtain m where b: "between demo_layout {Static} {72, 4256, 8440} [Dyn 4256] [Dyn 8440] [8] (demo_kernel m)"
    and c: "running Static {72, 4256, 8440} [Dyn 4256] (demo_kernel m)" by (rule demo_kernel_exists)
  have nd: "{p \<in> set [8]. dead (demo_kernel m) L n p} = {}" for L n by (auto simp: dead_def demo_kernel_def)
  have "next_of_queue (demo_kernel m) [Dyn 4256] = Dyn 4256" "saved (demo_kernel m) (Dyn 4256) = 8364"
    "queue_after (demo_kernel m) Static [Dyn 4256] = [Static]" "set (thread_blocks (demo_kernel m) [Dyn 8440]) = {8440, 8520}"
    "heap (mm (demo_kernel m)) = demo_blocks"
    by (simp_all add: next_of_queue_def saved_def queue_after_def thread_blocks_def)
      (auto simp: demo_kernel_def demo_thread_def)
  moreover have "heap_live demo_blocks - {8440, 8520} = {8, 72, 152, 4256, 4336}"
    unfolding demo_blocks_live(2) by auto
  ultimately show ?thesis
    using scheduler_tick [OF b c, of 100] unfolding nd by auto
qed

fun tick_run :: "u32 list \<Rightarrow> kstate \<Rightarrow> kstate option" where
  "tick_run [] s = Some s"
| "tick_run (r # rs) s = do { (e, s') \<leftarrow> scheduler_schedule r s; tick_run rs s' }"

lemma tick_run_ok:
  assumes "between lay R T (xs @ t # ys) ts ps s" "running c T (xs @ t # ys) s" "length es = Suc (length xs)"
  shows "\<exists>s'. tick_run es s = Some s' \<and> current_thread s' = Some t"
  using assms
proof (induction xs arbitrary: s c es R T ts ps ys)
  case Nil
  then obtain r where "es = [r]" by (auto simp: length_Suc_conv)
  then show ?case using scheduler_tick [OF Nil.prems(1,2), of r] by (auto simp: next_of_queue_def)
next
  case (Cons x xs)
  then obtain r es' where es: "es = r # es'" "length es' = Suc (length xs)" by (auto simp: length_Suc_conv)
  have q: "queue_after s c ((x # xs) @ t # ys) = xs @ t # (ys @ (if Some c = idle_thread_instance s then [] else [c]))"
    by (simp add: queue_after_def)
  obtain s1 e R' T' ps' where s1: "scheduler_schedule r s = Some (e, s1)"
    "between lay R' T' (xs @ t # (ys @ (if Some c = idle_thread_instance s then [] else [c]))) [] ps' s1"
    "running (next_of_queue s ((x # xs) @ t # ys)) T' (xs @ t # (ys @ (if Some c = idle_thread_instance s then [] else [c]))) s1"
    using scheduler_schedule_ok [OF Cons.prems(1,2), of r] unfolding q by (elim exE conjE) (rule that)
  show ?case using Cons.IH [OF s1(2,3) es(2)] s1(1) es(1) by simp
qed

text \<open>C3. The scheduler starves no ready thread: a thread with \<open>n\<close> threads before it in the ready queue runs after
  \<open>n + 1\<close> ticks, if no other event happens.\<close>

theorem scheduler_fair:
  assumes "between lay R T rs ts ps s" "running c T rs s" "n < length rs" "length es = n + 1"
  shows "\<exists>s'. tick_run es s = Some s' \<and> current_thread s' = Some (rs ! n)"
proof -
  have "rs = take n rs @ rs ! n # drop (Suc n) rs" using assms(3) by (rule id_take_nth_drop)
  then show ?thesis using tick_run_ok [of lay R T "take n rs" "rs ! n" "drop (Suc n) rs" ts ps s c es] assms by simp
qed

theorem scheduler_fair_witness:
  "\<exists>m s'. tick_run [100] (demo_kernel m) = Some s' \<and> current_thread s' = Some (Dyn 4256)"
proof -
  obtain m where b: "between demo_layout {Static} {72, 4256, 8440} [Dyn 4256] [Dyn 8440] [8] (demo_kernel m)"
    and c: "running Static {72, 4256, 8440} [Dyn 4256] (demo_kernel m)" by (rule demo_kernel_exists)
  show ?thesis using scheduler_fair [OF b c, of 0 "[100]"] by auto
qed

text \<open>\<open>goes_on T s t\<close>: the machine runs the thread \<open>t\<close>, in the state of its process and in its address space; its
  struct and its stack, those of every other thread of \<open>T\<close>, and the struct of every process of the list, lie in
  blocks of the heap that are in use; and the two queues link threads of \<open>T\<close> only.\<close>

definition structs_live :: "u32 set \<Rightarrow> kstate \<Rightarrow> bool" where
  "structs_live T s \<longleftrightarrow>
     (\<forall>a \<in> T. a \<in> heap_live (heap (mm s)) \<and> kernel_stack (threads s (Dyn a)) \<in> heap_live (heap (mm s))) \<and>
     (\<exists>ps. proc_list s ps \<and> set ps \<subseteq> heap_live (heap (mm s))) \<and>
     (\<exists>rs ts. ready s rs \<and> terminated s ts \<and> set rs \<union> set ts \<subseteq> known T)"

definition goes_on :: "u32 set \<Rightarrow> kstate \<Rightarrow> ref \<Rightarrow> bool" where
  "goes_on T s t \<longleftrightarrow> current_thread s = Some t \<and> t \<in> known T \<and> state_of s t = THREAD_RUNNING \<and> place_ok t s \<and> structs_live T s"

lemma goes_onI:
  assumes "between lay R T rs ts ps s" "running c T rs s"
  shows "goes_on T s c"
proof -
  have bl: "blocks_ok T (set ps) R s" and pl: "proc_list s ps" and st: "states_ok T rs ts s" using assms(1) by (simp_all add: between_def)
  have "\<forall>a \<in> T. a \<in> heap_live (heap (mm s)) \<and> kernel_stack (threads s (Dyn a)) \<in> heap_live (heap (mm s))"
    using blocks_ok_live [OF bl, of "BThread _"] blocks_ok_live [OF bl, of "BStack _"] by simp
  moreover have "set ps \<subseteq> heap_live (heap (mm s))" using blocks_ok_live [OF bl, of "BProc _"] by auto
  moreover have "ready s rs" "terminated s ts" "set rs \<union> set ts \<subseteq> known T" using st by (auto simp: states_ok_def)
  ultimately have "structs_live T s" using pl unfolding structs_live_def by blast
  then show ?thesis using assms(2) by (simp add: goes_on_def running_def)
qed

lemma thread_create_goes_on:
  assumes b: "between lay R T rs ts ps s" and c: "running c T rs s" and p: "p \<in> set ps"
  shows "\<exists>t s'. thread_create_in_process (Some p) entry name s = Some (t, s') \<and> goes_on (with_new T t) s' c"
proof (cases "entry \<noteq> 0 \<and> p_state (processes s p) = PROCESS_RUNNING")
  case False
  then show ?thesis using goes_onI [OF b c] by (auto simp: thread_create_in_process_def with_new_def)
next
  case True
  then obtain t s' where run: "thread_create_in_process (Some p) entry name s = Some (t, s')"
    and t: "case t of
       None \<Rightarrow> (\<exists>h. s' = s\<lparr>mm := (mm s)\<lparr>heap := h\<rparr>\<rparr>) \<and> between lay R T rs ts ps s' \<and>
         heap_live (heap (mm s')) = heap_live (heap (mm s))
     | Some t \<Rightarrow> \<exists>a stack h. t = Dyn a \<and> a \<notin> T \<and> s' = add_thread a p entry stack name h s \<and> between lay R (insert a T) rs ts ps s'"
    using thread_create_ok [OF b p, of entry name] by blast
  have "goes_on (with_new T t) s' c"
  proof (cases t)
    case None
    then show ?thesis using t running_heap [OF c] by (auto simp: with_new_def intro: goes_onI)
  next
    case (Some x)
    then obtain a stack h where "x = Dyn a" "a \<notin> T" "s' = add_thread a p entry stack name h s" "between lay R (insert a T) rs ts ps s'"
      using t by auto
    then show ?thesis using add_thread_running [OF c] Some by (auto simp: with_new_def intro: goes_onI)
  qed
  then show ?thesis using run by blast
qed

text \<open>C4. Every operation returns, and the machine then runs a thread that is there, in its own address space, while
  no struct that is still linked or owned has been freed. \<open>thread_yield\<close> goes on with the head of the ready queue
  (with the caller, if the queue is empty or the caller is the idle thread); \<open>thread_block\<close> of a thread other than
  the idle one, \<open>thread_terminate\<close> of a thread that may end, and \<open>process_exit\<close> of the process that runs, go on with
  another thread: the first ready one that does not end too, or the idle thread. A timer tick goes on with the
  next of the queue after the terminated threads are freed; creation of a thread, and of a process while two
  free frames lie below 4 MiB, go on with the caller.\<close>

theorem kernel_operations_return:
  assumes "between lay R T rs ts ps s" "running c T rs s"
  shows "(\<exists>s'. thread_yield s = Some s' \<and> goes_on T s' (if rs = [] \<or> Some c = idle_thread_instance s then c else hd rs)) \<and>
    (Some c \<noteq> idle_thread_instance s \<longrightarrow>
       (\<exists>s'. thread_block s = Some s' \<and> goes_on T s' (next_of_queue s rs)) \<and> next_of_queue s rs \<noteq> c) \<and>
    (\<exists>s'. thread_terminate s = Some s' \<and>
       goes_on T s' (if c = Static \<or> Some c = idle_thread_instance s then c else next_of_queue s rs)) \<and>
    (\<exists>s'. process_exit (Some p) s = Some s' \<and>
       goes_on T s' (if Some p \<noteq> kernel_process s \<and> process_of s c = Some p
                     then next_of_queue s (filter (\<lambda>t. process_of s t \<noteq> Some p) rs) else c)) \<and>
    (\<exists>e s'. scheduler_schedule r s = Some (e, s') \<and> goes_on (live_threads T s) s' (next_of_queue s rs)) \<and>
    (p \<in> set ps \<longrightarrow> (\<exists>t s'. thread_create_in_process (Some p) entry name s = Some (t, s') \<and> goes_on (with_new T t) s' c)) \<and>
    (low_frames 2 (pmm (mm s)) \<longrightarrow> (\<exists>q s'. process_create lay name s = Some (q, s') \<and> goes_on T s' c))"
proof (intro conjI impI)
  note b = assms(1) and c = assms(2)
  note cur = running_ok [OF b c] and here = goes_onI [OF b c]
  show "\<exists>s'. thread_yield s = Some s' \<and> goes_on T s' (if rs = [] \<or> Some c = idle_thread_instance s then c else hd rs)"
    using thread_yield_ok [OF b c] here by (auto split: if_splits intro: goes_onI)
  show "\<exists>s'. thread_terminate s = Some s' \<and> goes_on T s' (if c = Static \<or> Some c = idle_thread_instance s then c else next_of_queue s rs)"
  proof (cases "c = Static \<or> Some c = idle_thread_instance s")
    case True
    then have "thread_terminate s = Some s" using cur(4) by (auto simp: thread_terminate_def split: option.split)
    then show ?thesis using True here by auto
  next
    case False
    then show ?thesis using thread_terminate_ok [OF b c] by (auto intro: goes_onI)
  qed
  show "\<exists>s'. process_exit (Some p) s = Some s' \<and> goes_on T s' (if Some p \<noteq> kernel_process s \<and> process_of s c = Some p
                     then next_of_queue s (filter (\<lambda>t. process_of s t \<noteq> Some p) rs) else c)"
  proof (cases "Some p = kernel_process s")
    case True
    then have "process_exit (Some p) s = Some s" by (auto simp: process_exit_def split: option.split)
    then show ?thesis using True here by auto
  next
    case False
    then show ?thesis using process_exit_ok [OF b c False] by (auto simp: Let_def split: if_splits intro: goes_onI)
  qed
  show "\<exists>e s'. scheduler_schedule r s = Some (e, s') \<and> goes_on (live_threads T s) s' (next_of_queue s rs)"
    unfolding live_threads_without [OF b] using scheduler_schedule_ok [OF b c, of r]
    by (elim exE conjE, intro exI conjI) (assumption, rule goes_onI)
  show "\<exists>t s'. thread_create_in_process (Some p) entry name s = Some (t, s') \<and> goes_on (with_new T t) s' c" if "p \<in> set ps"
    by (rule thread_create_goes_on [OF b c that])
  show "\<exists>q s'. process_create lay name s = Some (q, s') \<and> goes_on T s' c" if "low_frames 2 (pmm (mm s))"
    using process_create_ok [OF b c that, of name] by (auto split: option.splits intro: goes_onI)
  show "\<exists>s'. thread_block s = Some s' \<and> goes_on T s' (next_of_queue s rs)" if "Some c \<noteq> idle_thread_instance s"
    using thread_block_ok [OF b c that] by (blast intro: goes_onI)
  obtain i where i: "idle_thread_instance s = Some i" using idle_exists [OF b] by blast
  show "next_of_queue s rs \<noteq> c" if "Some c \<noteq> idle_thread_instance s"
    using that cur(1) i by (cases rs) (auto simp: next_of_queue_def)
qed

text \<open>C26. \<open>process_exit\<close> of a process other than the kernel's moves its ready threads, in their order, from the ready
  queue to the terminated queue and leaves the others in theirs; when the caller is one of its threads, it
  is terminated too and the kernel goes on with the next ready thread in that thread's address space.\<close>

theorem process_exit_terminates:
  assumes "between lay R T rs ts ps s" "running c T rs s" "Some p \<noteq> kernel_process s"
  shows "\<exists>s'. process_exit (Some p) s = Some s' \<and>
    (let others = filter (\<lambda>t. process_of s t \<noteq> Some p) rs; own = filter (\<lambda>t. process_of s t = Some p) rs
     in if process_of s c = Some p
        then ready s' (tl others) \<and> terminated s' (ts @ own @ [c]) \<and> current_thread s' = Some (next_of_queue s others) \<and>
          place_ok (next_of_queue s others) s'
        else ready s' others \<and> terminated s' (ts @ own) \<and> current_thread s' = Some c)"
  using process_exit_ok [OF assms] by (auto simp: Let_def between_def states_ok_def running_def)

lemma kernel_init_run:
  assumes "vm_ok lay {Static} (mm s)" "current_address_space (mm s) = Some Static" "low_frames 2 (pmm (mm s))"
    and "process_list_tail s = None" "idle_entry \<noteq> 0"
  shows "\<exists>s1. process_init lay name s = Some s1 \<and> (\<forall>k. kernel_process s1 = Some k \<longrightarrow>
    (\<exists>s2. scheduler_init idle_entry s1 = Some s2 \<and> (\<forall>i. idle_thread_instance s2 = Some i \<longrightarrow>
        (\<exists>a. i = Dyn a \<and> kernel_inv lay ({a}, s2) \<and> current_thread s2 = Some Static \<and> ready s2 [] \<and>
          proc_list s2 [k] \<and> pid (processes s2 k) = 0))))"
proof -
  obtain s1 where s1: "process_init lay name s = Some s1"
    and ok: "\<And>k. kernel_process s1 = Some k \<Longrightarrow>
      vm_ok lay {Static} (mm s1) \<and> current_address_space (mm s1) = Some Static \<and> k \<in> heap_live (heap (mm s1)) \<and>
      current_process s1 = Some k \<and> space_of s1 k = Some Static \<and> p_state (processes s1 k) = PROCESS_RUNNING \<and>
      thread_count (processes s1 k) = 0 \<and> proc_list s1 [k] \<and> pid (processes s1 k) = 0"
    using process_init_ok [OF assms(1-4), of name] by blast
  have "\<exists>s2. scheduler_init idle_entry s1 = Some s2 \<and> (\<forall>i. idle_thread_instance s2 = Some i \<longrightarrow>
      (\<exists>a. i = Dyn a \<and> kernel_inv lay ({a}, s2) \<and> current_thread s2 = Some Static \<and> ready s2 [] \<and>
        proc_list s2 [k] \<and> pid (processes s2 k) = 0))" if k: "kernel_process s1 = Some k" for k
  proof -
    note o = ok [OF k]
    have "heap_good (heap (mm s1))" using o by (simp add: vm_ok_def)
    then obtain s2 where s2: "scheduler_init idle_entry s1 = Some s2"
      using scheduler_init_returns [of s1 k idle_entry] o assms(5) by blast
    have "\<exists>a. i = Dyn a \<and> between lay {Static} {a} [] [] [k] s2 \<and> running Static {a} [] s2 \<and> next_tid s2 = 3 \<and>
        pid (processes s2 k) = pid (processes s1 k)" if "idle_thread_instance s2 = Some i" for i
      by (rule scheduler_init_ok [of lay s1 k idle_entry s2 i]) (use o k s2 that assms(5) in auto)
    note made = this
    have "\<exists>a. i = Dyn a \<and> kernel_inv lay ({a}, s2) \<and> current_thread s2 = Some Static \<and> ready s2 [] \<and>
        proc_list s2 [k] \<and> pid (processes s2 k) = 0" if i: "idle_thread_instance s2 = Some i" for i
    proof -
      obtain a where a: "i = Dyn a" "between lay {Static} {a} [] [] [k] s2" "running Static {a} [] s2"
        "pid (processes s2 k) = pid (processes s1 k)" using made [OF i] by blast
      have "kernel_inv lay ({a}, s2)" by (rule kernel_invI [OF a(2,3)])
      moreover have "current_thread s2 = Some Static" using a(3) by (simp add: running_def)
      moreover have "ready s2 []" "proc_list s2 [k]" using a(2) by (simp_all only: between_def states_ok_def)
      moreover have "pid (processes s2 k) = 0" using a(4) o by simp
      ultimately show ?thesis using a(1) by blast
    qed
    then show ?thesis using s2 by blast
  qed
  then show ?thesis using s1 by blast
qed

text \<open>On the booted memory management \<open>process_init\<close> makes the kernel process with the boot address space, and
  \<open>scheduler_init\<close> the bootstrap and the idle thread, so that the invariant of the kernel holds; each fails
  only by leaving its result null.\<close>

theorem kernel_init_establishes:
  assumes "vm_ok lay {Static} (mm s)" "current_address_space (mm s) = Some Static" "low_frames 2 (pmm (mm s))"
    and "process_list_tail s = None" "idle_entry \<noteq> 0"
  shows "\<exists>s1. process_init lay name s = Some s1 \<and> (\<forall>k. kernel_process s1 = Some k \<longrightarrow>
    (\<exists>s2. scheduler_init idle_entry s1 = Some s2 \<and> (\<forall>i. idle_thread_instance s2 = Some i \<longrightarrow>
        (\<exists>a. i = Dyn a \<and> kernel_inv lay ({a}, s2) \<and> current_thread s2 = Some Static \<and> ready s2 [] \<and>
          proc_list s2 [k] \<and> pid (processes s2 k) = 0))))"
  by (rule kernel_init_run [OF assms])

theorem kernel_init_establishes_witness:
  "\<exists>m s1. memory_init demo_layout demo_ram cold_mem = Some m \<and>
     process_init demo_layout (\<lambda>_. 0) ((demo_kernel m)\<lparr>mm := m, process_list_head := None, process_list_tail := None\<rparr>) = Some s1"
proof -
  obtain m where m: "memory_init demo_layout demo_ram cold_mem = Some m" "vm_ok demo_layout {Static} m"
    "current_address_space m = Some Static" "unat (total_frames (pmm m)) = 16" by (rule booted)
  let ?s = "(demo_kernel m)\<lparr>mm := m, process_list_head := None, process_list_tail := None\<rparr>"
  have "low_frames 2 (pmm (mm ?s))" using low_frames_small [of "pmm m"] m(4) by simp
  then show ?thesis using kernel_init_establishes [of demo_layout ?s 1 "\<lambda>_. 0"] m by auto
qed

end
