(* ===== verification/PortIO.thy ===== *)
theory PortIO
  imports Prelude
begin

text \<open>
  The port instructions of \<open>kernel/include/drivers/io.h\<close> and the small drivers that only use them:
  \<open>kernel/drivers/serial.c\<close>, \<open>kernel/drivers/pic.c\<close>. The hardware behind the ports is not under
  \<open>src/\<close>: it is the field \<open>hardware\<close>, an arbitrary function that answers a read from everything that
  has happened on the bus so far.
\<close>

datatype port_event = Outb u16 u8 | Outw u16 u16 | Inb u16 | Inw u16

record io =
  bus :: "port_event list"
  hardware :: "port_event list \<Rightarrow> u16 \<Rightarrow> u16"

definition outb :: "u16 \<Rightarrow> u8 \<Rightarrow> 'a io_scheme \<Rightarrow> 'a io_scheme" where
  "outb port v s = s\<lparr>bus := bus s @ [Outb port v]\<rparr>"

definition outw :: "u16 \<Rightarrow> u16 \<Rightarrow> 'a io_scheme \<Rightarrow> 'a io_scheme" where
  "outw port v s = s\<lparr>bus := bus s @ [Outw port v]\<rparr>"

definition inb :: "u16 \<Rightarrow> 'a io_scheme \<Rightarrow> u8 \<times> 'a io_scheme" where
  "inb port s = (ucast (hardware s (bus s) port), s\<lparr>bus := bus s @ [Inb port]\<rparr>)"

definition inw :: "u16 \<Rightarrow> 'a io_scheme \<Rightarrow> u16 \<times> 'a io_scheme" where
  "inw port s = (hardware s (bus s) port, s\<lparr>bus := bus s @ [Inw port]\<rparr>)"

text \<open>The string instructions: \<open>rep insw\<close> stores \<open>count\<close> words, \<open>rep outsw\<close> sends them.\<close>

fun insw :: "u16 \<Rightarrow> nat \<Rightarrow> 'a io_scheme \<Rightarrow> u16 list \<times> 'a io_scheme" where
  "insw port 0 s = ([], s)"
| "insw port (Suc n) s =
     (let (w, s) = inw port s; (ws, s) = insw port n s in (w # ws, s))"

definition outsw :: "u16 \<Rightarrow> u16 list \<Rightarrow> 'a io_scheme \<Rightarrow> 'a io_scheme" where
  "outsw port ws s = fold (outw port) ws s"

lemma bus_outb [simp]: "bus (outb p v s) = bus s @ [Outb p v]" "hardware (outb p v s) = hardware s"
  "io.more (outb p v s) = io.more s"
  by (simp_all add: outb_def)

lemma bus_outw [simp]: "bus (outw p w s) = bus s @ [Outw p w]" "hardware (outw p w s) = hardware s"
  "io.more (outw p w s) = io.more s"
  by (simp_all add: outw_def)

lemma bus_inb [simp]: "bus (snd (inb p s)) = bus s @ [Inb p]" "hardware (snd (inb p s)) = hardware s"
  "io.more (snd (inb p s)) = io.more s"
  by (simp_all add: inb_def)

lemma bus_inw [simp]: "bus (snd (inw p s)) = bus s @ [Inw p]" "hardware (snd (inw p s)) = hardware s"
  "io.more (snd (inw p s)) = io.more s"
  by (simp_all add: inw_def)

lemma bus_outsw [simp]: "bus (outsw p ws s) = bus s @ map (Outw p) ws" "hardware (outsw p ws s) = hardware s"
  "io.more (outsw p ws s) = io.more s"
  by (induction ws arbitrary: s) (simp_all add: outsw_def)

lemma bus_insw [simp]: "bus (snd (insw p n s)) = bus s @ replicate n (Inw p)" "hardware (snd (insw p n s)) = hardware s"
  "io.more (snd (insw p n s)) = io.more s" "length (fst (insw p n s)) = n"
  by (induction n arbitrary: s) (simp_all add: inw_def split_beta Let_def)

section \<open>The serial port\<close>

definition serial_init :: "'a io_scheme \<Rightarrow> 'a io_scheme" where
  "serial_init s =
     (let s = outb (0x3F8 + 1) 0x00 s;
          s = outb (0x3F8 + 3) 0x80 s;
          s = outb (0x3F8 + 0) 0x01 s;
          s = outb (0x3F8 + 1) 0x00 s;
          s = outb (0x3F8 + 3) 0x03 s;
          s = outb (0x3F8 + 2) 0xC7 s;
          s = outb (0x3F8 + 4) 0x0B s
      in s)"

definition serial_putc :: "u8 \<Rightarrow> 'a io_scheme \<Rightarrow> 'a io_scheme" where
  "serial_putc c s = outb 0x3F8 c s"

text \<open>A C string is the list of its bytes before the terminator; the null pointer is \<open>None\<close>.\<close>

definition kputs :: "u8 list option \<Rightarrow> 'a io_scheme \<Rightarrow> 'a io_scheme" where
  "kputs str s = (case str of None \<Rightarrow> s | Some cs \<Rightarrow> fold serial_putc cs s)"

lemma bus_serial_putc [simp]: "bus (serial_putc c s) = bus s @ [Outb 0x3F8 c]" "hardware (serial_putc c s) = hardware s"
  "io.more (serial_putc c s) = io.more s"
  by (simp_all add: serial_putc_def)

lemma bus_serial_init [simp]: "hardware (serial_init s) = hardware s" "io.more (serial_init s) = io.more s"
  by (simp_all add: serial_init_def Let_def)

section \<open>The interrupt controllers\<close>

definition pic_send_eoi :: "int \<Rightarrow> 'a io_scheme \<Rightarrow> 'a io_scheme" where
  "pic_send_eoi irq s =
     (let s = (if irq \<ge> 8 then outb 0xA0 0x20 s else s)
      in outb 0x20 0x20 s)"

definition pic_init :: "'a io_scheme \<Rightarrow> 'a io_scheme" where
  "pic_init s =
     (let s = outb 0x20 (0x10 OR 0x01) s;
          s = outb 0xA0 (0x10 OR 0x01) s;
          s = outb 0x21 0x20 s;
          s = outb 0xA1 0x28 s;
          s = outb 0x21 4 s;
          s = outb 0xA1 2 s;
          s = outb 0x21 0x01 s;
          s = outb 0xA1 0x01 s;
          s = outb 0x21 0 s;
          s = outb 0xA1 0 s
      in s)"

lemma bus_pic_send_eoi [simp]:
  "bus (pic_send_eoi irq s) = bus s @ (if irq \<ge> 8 then [Outb 0xA0 0x20] else []) @ [Outb 0x20 0x20]"
  "hardware (pic_send_eoi irq s) = hardware s" "io.more (pic_send_eoi irq s) = io.more s"
  by (simp_all add: pic_send_eoi_def Let_def)

lemma bus_pic_init [simp]: "hardware (pic_init s) = hardware s" "io.more (pic_init s) = io.more s"
  by (simp_all add: pic_init_def Let_def)

end
