(* ===== verification/Vga.thy ===== *)
theory Vga
  imports PortIO
begin

text \<open>
  The text screen, \<open>kernel/drivers/vga.c\<close>: 25 rows of 80 cells at address 0xB8000, a colour and a
  cursor. An access outside the 2000 cells has no value (\<open>None\<close>).
\<close>

record vga =
  vga_buffer :: "u16 list"
  color :: u8
  cursor_row :: int
  cursor_col :: int

text \<open>\<open>char\<close> is signed on this target, so the conversion to \<open>uint16_t\<close> extends the sign.\<close>

definition vga_entry :: "u8 \<Rightarrow> u8 \<Rightarrow> u16" where
  "vga_entry c col = scast c OR push_bit 8 (ucast col)"

definition put_cell :: "int \<Rightarrow> u16 \<Rightarrow> vga \<Rightarrow> vga option" where
  "put_cell i e s =
     (if 0 \<le> i \<and> i < 2000 then Some (s\<lparr>vga_buffer := (vga_buffer s)[nat i := e]\<rparr>) else None)"

definition move_row :: "nat \<Rightarrow> u16 list \<Rightarrow> u16 list" where
  "move_row row b = fold (\<lambda>col b. b[(row - 1) * 80 + col := b ! (row * 80 + col)]) [0..<80] b"

definition vga_scroll :: "vga \<Rightarrow> vga" where
  "vga_scroll s =
     (if cursor_row s < 25 then s
      else let b = fold move_row [1..<25] (vga_buffer s);
               b = fold (\<lambda>col b. b[24 * 80 + col := vga_entry 0x20 (color s)]) [0..<80] b
           in s\<lparr>vga_buffer := b, cursor_row := 24\<rparr>)"

definition vga_set_color :: "u8 \<Rightarrow> u8 \<Rightarrow> vga \<Rightarrow> vga" where
  "vga_set_color foreground background s = s\<lparr>color := push_bit 4 background OR foreground\<rparr>"

definition vga_clear :: "vga \<Rightarrow> vga" where
  "vga_clear s =
     s\<lparr>vga_buffer := fold (\<lambda>i b. b[i := vga_entry 0x20 (color s)]) [0..<80 * 25] (vga_buffer s),
       cursor_row := 0, cursor_col := 0\<rparr>"

definition vga_putc :: "u8 \<Rightarrow> vga \<Rightarrow> vga option" where
  "vga_putc c s =
     (if c = 0x0A then Some (vga_scroll (s\<lparr>cursor_col := 0, cursor_row := cursor_row s + 1\<rparr>))
      else let s = (if cursor_row s \<ge> 25 then s\<lparr>cursor_row := 24\<rparr> else s);
               s = (if cursor_col s \<ge> 80 then s\<lparr>cursor_col := 0, cursor_row := cursor_row s + 1\<rparr> else s)
           in do {
             s \<leftarrow> put_cell (cursor_row s * 80 + cursor_col s) (vga_entry c (color s)) s;
             let s = s\<lparr>cursor_col := cursor_col s + 1\<rparr>;
             if cursor_col s \<ge> 80
             then Some (vga_scroll (s\<lparr>cursor_col := 0, cursor_row := cursor_row s + 1\<rparr>))
             else Some s
           })"

fun vga_write :: "u8 list \<Rightarrow> vga \<Rightarrow> vga option" where
  "vga_write [] s = Some s"
| "vga_write (c # cs) s = (case vga_putc c s of None \<Rightarrow> None | Some s \<Rightarrow> vga_write cs s)"

definition vga_backspace :: "vga \<Rightarrow> vga option" where
  "vga_backspace s =
     (if cursor_col s = 0 \<and> cursor_row s = 0 then Some s
      else let s = (if cursor_col s = 0 then s\<lparr>cursor_row := cursor_row s - 1, cursor_col := 79\<rparr>
                    else s\<lparr>cursor_col := cursor_col s - 1\<rparr>)
           in put_cell (cursor_row s * 80 + cursor_col s) (vga_entry 0x20 (color s)) s)"

end
