(* ===== verification/Screen.thy ===== *)
theory Screen
  imports Vga
begin

text \<open>
  What the screen shows: \<open>text_rows\<close> cuts a text at its newlines and every line after 80 characters;
  the screen is the last 25 of these rows, padded with blanks. \<open>displays\<close> relates a state of the
  driver to the text that has been written since the last \<open>vga_clear\<close>.
\<close>

section \<open>The layout of a text\<close>

fun text_lines :: "u8 list \<Rightarrow> u8 list list" where
  "text_lines [] = [[]]"
| "text_lines (c # cs) =
     (if c = 0x0A then [] # text_lines cs
      else (c # hd (text_lines cs)) # tl (text_lines cs))"

function chunks :: "u8 list \<Rightarrow> u8 list list" where
  "chunks cs = (if length cs < 80 then [cs] else take 80 cs # chunks (drop 80 cs))"
  by pat_completeness auto
termination by (relation "measure length") auto

declare chunks.simps [simp del]

definition text_rows :: "u8 list \<Rightarrow> u8 list list" where
  "text_rows cs = concat (map chunks (text_lines cs))"

definition pad_row :: "u8 \<Rightarrow> u8 list \<Rightarrow> u16 list" where
  "pad_row col r = map (\<lambda>c. vga_entry c col) r @ replicate (80 - length r) (vga_entry 0x20 col)"

definition screen_rows :: "u8 \<Rightarrow> u8 list list \<Rightarrow> u16 list list" where
  "screen_rows col rs = take 25 (map (pad_row col) (drop (length rs - 25) rs) @ replicate 25 (pad_row col []))"

definition bottom_row :: "u8 list list \<Rightarrow> nat" where
  "bottom_row rs = min 24 (length rs - 1)"

definition displays :: "u8 \<Rightarrow> u8 list \<Rightarrow> vga \<Rightarrow> bool" where
  "displays col cs s \<longleftrightarrow>
     vga_buffer s = concat (screen_rows col (text_rows cs)) \<and> color s = col \<and>
     cursor_row s = int (bottom_row (text_rows cs)) \<and>
     cursor_col s = int (length (last (text_rows cs)))"

lemma text_lines_Nil [simp]: "text_lines cs \<noteq> []"
  by (cases cs) auto

lemma text_lines_snoc:
  "text_lines (cs @ [c]) =
     (if c = 0x0A then text_lines cs @ [[]] else butlast (text_lines cs) @ [last (text_lines cs) @ [c]])"
proof (induction cs)
  case (Cons d cs)
  show ?case
    using Cons text_lines_Nil [of cs] by (cases "text_lines cs") (auto simp: butlast_append)
qed simp

lemma chunks_Nil [simp]: "chunks cs \<noteq> []"
  by (subst chunks.simps) simp

lemma chunks_rows:
  shows chunks_last: "length (last (chunks cs)) < 80"
    and "r \<in> set (chunks cs) \<Longrightarrow> length r \<le> 80"
proof -
  have "length (last (chunks cs)) < 80 \<and> (\<forall>r \<in> set (chunks cs). length r \<le> 80)"
  proof (induction cs rule: chunks.induct)
    case (1 cs)
    then show ?case
      by (subst (1 2) chunks.simps) auto
  qed
  then show "length (last (chunks cs)) < 80" "r \<in> set (chunks cs) \<Longrightarrow> length r \<le> 80" by auto
qed

lemma chunks_snoc:
  "chunks (cs @ [c]) =
     (if length (last (chunks cs)) = 79 then butlast (chunks cs) @ [last (chunks cs) @ [c], []]
      else butlast (chunks cs) @ [last (chunks cs) @ [c]])"
proof (induction cs rule: chunks.induct)
  case (1 cs)
  consider "length cs < 79" | "length cs = 79" | "80 \<le> length cs" by linarith
  then show ?case
  proof cases
    case 1
    then show ?thesis by (simp add: chunks.simps [of cs] chunks.simps [of "cs @ [c]"])
  next
    case 2
    then show ?thesis
      by (simp add: chunks.simps [of cs] chunks.simps [of "cs @ [c]"] chunks.simps [of "[]"])
  next
    case 3
    then have "chunks (cs @ [c]) = take 80 cs # chunks (drop 80 cs @ [c])" "chunks cs = take 80 cs # chunks (drop 80 cs)"
      by (simp_all add: chunks.simps [of cs] chunks.simps [of "cs @ [c]"])
    with 3 "1.IH" show ?thesis by simp
  qed
qed

lemma text_rows_Nil: "text_rows [] = [[]]"
  by (simp add: text_rows_def chunks.simps)

lemma text_rows_nonempty [simp]: "text_rows cs \<noteq> []"
proof -
  have "concat (map chunks ls) \<noteq> []" if "ls \<noteq> []" for ls using that by (cases ls) auto
  then show ?thesis by (simp add: text_rows_def)
qed

lemma text_rows_last: "last (text_rows cs) = last (chunks (last (text_lines cs)))"
  by (cases "text_lines cs" rule: rev_cases) (auto simp: text_rows_def)

lemma text_rows_snoc:
  "text_rows (cs @ [c]) =
     (if c = 0x0A then text_rows cs @ [[]]
      else if length (last (text_rows cs)) = 79 then butlast (text_rows cs) @ [last (text_rows cs) @ [c], []]
      else butlast (text_rows cs) @ [last (text_rows cs) @ [c]])"
proof -
  obtain ls l where l: "text_lines cs = ls @ [l]" by (cases "text_lines cs" rule: rev_cases) auto
  have "butlast (text_rows cs) = concat (map chunks ls) @ butlast (chunks l)"
    by (simp add: text_rows_def l butlast_append)
  moreover have "last (text_rows cs) = last (chunks l)" by (simp add: text_rows_last l)
  moreover have "text_rows (cs @ [c]) =
    (if c = 0x0A then text_rows cs @ chunks [] else concat (map chunks ls) @ chunks (l @ [c]))"
    by (simp add: text_rows_def text_lines_snoc l)
  moreover have "chunks [] = [[]]" by (simp add: chunks.simps)
  ultimately show ?thesis by (simp add: chunks_snoc)
qed

lemma text_rows_width:
  shows text_rows_last_width: "length (last (text_rows cs)) < 80"
    and "r \<in> set (text_rows cs) \<Longrightarrow> length r \<le> 80"
  using chunks_rows by (auto simp: text_rows_last) (auto simp: text_rows_def)

section \<open>The buffer as 25 rows\<close>

lemma length_concat_rows: "\<forall>r \<in> set rs. length r = n \<Longrightarrow> length (concat rs) = n * length rs"
  by (induction rs) auto

lemma concat_nth:
  assumes "\<forall>r \<in> set rs. length r = n" "i < length rs" "j < n"
  shows "concat rs ! (i * n + j) = rs ! i ! j"
  using assms
proof (induction rs arbitrary: i)
  case (Cons r rs)
  show ?case
  proof (cases i)
    case (Suc k)
    then have "(r @ concat rs) ! (n + (k * n + j)) = concat rs ! (k * n + j)"
      using Cons.prems by (simp add: nth_append)
    then show ?thesis using Cons Suc by (simp add: add.assoc)
  qed (use Cons.prems in \<open>simp add: nth_append\<close>)
qed simp

lemma concat_update:
  assumes "\<forall>r \<in> set rs. length r = n" "i < length rs" "j < n"
  shows "(concat rs)[i * n + j := v] = concat (rs[i := (rs ! i)[j := v]])"
  using assms
proof (induction rs arbitrary: i)
  case (Cons r rs)
  show ?case
  proof (cases i)
    case 0
    then show ?thesis using Cons.prems by (simp add: list_update_append)
  next
    case (Suc k)
    then have "(r @ concat rs)[n + (k * n + j) := v] = r @ (concat rs)[k * n + j := v]"
      using Cons.prems by (simp add: list_update_append)
    then show ?thesis using Cons Suc by (simp add: add.assoc)
  qed
qed simp

definition grid :: "u16 list list \<Rightarrow> bool" where
  "grid rs \<longleftrightarrow> length rs = 25 \<and> (\<forall>r \<in> set rs. length r = 80)"

lemma grid_update: "grid rs \<Longrightarrow> length r = 80 \<Longrightarrow> grid (rs[i := r])"
  by (auto simp: grid_def dest!: set_update_subset_insert [THEN subsetD])

lemma grid_nth: "grid rs \<Longrightarrow> i < 25 \<Longrightarrow> length (rs ! i) = 80"
  by (simp add: grid_def)

lemma grid_cell:
  assumes "grid rs" "i < 25" "j < 80"
  shows "(concat rs)[i * 80 + j := v] = concat (rs[i := (rs ! i)[j := v]])"
    and "concat rs ! (i * 80 + j) = rs ! i ! j"
  using assms by (auto simp: grid_def intro!: concat_update concat_nth)

lemma fill_row:
  assumes "grid rs" "i < 25" "n \<le> 80" "\<And>j b. j < n \<Longrightarrow> b = concat (rs[i := take j src @ drop j (rs ! i)]) \<Longrightarrow> f j b = src ! j" "length src = 80"
  shows "fold (\<lambda>j b. b[i * 80 + j := f j b]) [0..<n] (concat rs) = concat (rs[i := take n src @ drop n (rs ! i)])"
  using assms(3,4)
proof (induction n)
  case 0
  then show ?case by simp
next
  case (Suc n)
  let ?r = "take n src @ drop n (rs ! i)"
  have len: "length ?r = 80" "i < length rs" using assms Suc by (simp_all add: grid_nth) (simp add: grid_def)
  have "fold (\<lambda>j b. b[i * 80 + j := f j b]) [0..<Suc n] (concat rs) = (concat (rs[i := ?r]))[i * 80 + n := src ! n]"
    using Suc by simp
  also have "\<dots> = concat (rs[i := ?r[n := src ! n]])"
    using grid_cell(1) [OF grid_update [OF assms(1) len(1)], of i n i "src ! n"] assms Suc len(2) by simp
  also have "?r[n := src ! n] = take (Suc n) src @ drop (Suc n) (rs ! i)"
    using assms Suc len by (simp add: list_update_append take_Suc_conv_app_nth Cons_nth_drop_Suc [symmetric])
  finally show ?case .
qed

lemma move_row_grid:
  assumes "grid rs" "0 < row" "row < 25"
  shows "move_row row (concat rs) = concat (rs[row - 1 := rs ! row])"
  using fill_row [OF assms(1), of "row - 1" 80 "rs ! row" "\<lambda>col b. b ! (row * 80 + col)"] assms grid_nth [OF assms(1)]
  by (simp add: move_row_def grid_cell(2) grid_update)

lemma move_rows_grid:
  assumes "grid rs" "n \<le> 24"
  shows "fold move_row [1..<Suc n] (concat rs) = concat (take n (tl rs) @ drop n rs)"
  using assms(2)
proof (induction n)
  case 0
  then show ?case by simp
next
  case (Suc n)
  obtain r rs' where rs: "rs = r # rs'" using assms by (cases rs) (auto simp: grid_def)
  have g: "grid (take n rs' @ drop n rs)"
    using assms Suc.prems by (auto simp: grid_def rs dest!: in_set_takeD in_set_dropD)
  have "fold move_row [1..<Suc (Suc n)] (concat rs) = move_row (Suc n) (concat (take n rs' @ drop n rs))"
    using Suc by (simp add: rs)
  also have "\<dots> = concat ((take n rs' @ drop n rs)[n := rs' ! n])"
    using move_row_grid [OF g, of "Suc n"] Suc.prems assms by (simp add: grid_def nth_append rs)
  also have "(take n rs' @ drop n rs)[n := rs' ! n] = take (Suc n) (tl rs) @ drop (Suc n) rs"
    using Suc.prems assms
    by (simp add: grid_def rs list_update_append take_Suc_conv_app_nth Cons_nth_drop_Suc [of n "r # rs'", symmetric])
  finally show ?case .
qed

lemma vga_scroll_grid:
  assumes "grid rs" "vga_buffer s = concat rs" "25 \<le> cursor_row s"
  shows "vga_scroll s = s\<lparr>vga_buffer := concat (tl rs @ [replicate 80 (vga_entry 0x20 (color s))]), cursor_row := 24\<rparr>"
proof -
  have l: "length rs = 25" using assms by (simp add: grid_def)
  have g: "grid (tl rs @ [last rs])"
    using assms by (cases rs) (auto simp: grid_def)
  have "take 24 (tl rs) @ drop 24 rs = tl rs @ [last rs]"
    using l by (cases rs rule: rev_cases) (auto simp: drop_Cons')
  then have "fold move_row [1..<25] (concat rs) = concat (tl rs @ [last rs])"
    using move_rows_grid [OF assms(1), of 24] by simp
  moreover have "fold (\<lambda>col b. b[24 * 80 + col := vga_entry 0x20 (color s)]) [0..<80] (concat (tl rs @ [last rs])) =
      concat ((tl rs @ [last rs])[24 := replicate 80 (vga_entry 0x20 (color s))])"
    using fill_row [OF g, of 24 80 "replicate 80 (vga_entry 0x20 (color s))" "\<lambda>_ _. vga_entry 0x20 (color s)"] grid_nth [OF g]
    by simp
  moreover have "(tl rs @ [last rs])[24 := x] = tl rs @ [x]" for x
    using l by (simp add: list_update_append)
  ultimately show ?thesis using assms by (simp add: vga_scroll_def Let_def)
qed

section \<open>The driver shows the text\<close>

lemma length_pad_row: "length r \<le> 80 \<Longrightarrow> length (pad_row col r) = 80"
  by (simp add: pad_row_def)

lemma pad_row_Nil: "pad_row col [] = replicate 80 (vga_entry 0x20 col)"
  by (simp add: pad_row_def)

lemma pad_row_snoc: "length r < 80 \<Longrightarrow> (pad_row col r)[length r := vga_entry c col] = pad_row col (r @ [c])"
proof -
  assume r: "length r < 80"
  then have "replicate (80 - length r) b = b # replicate (79 - length r) b" for b :: u16
    by (cases "80 - length r") simp_all
  with r show ?thesis by (simp add: pad_row_def list_update_append)
qed

lemma grid_screen: "\<forall>r \<in> set rs. length r \<le> 80 \<Longrightarrow> grid (screen_rows col rs)"
  by (auto simp: grid_def screen_rows_def length_pad_row dest!: in_set_takeD in_set_dropD)

lemma screen_small: "length rs \<le> 25 \<Longrightarrow> screen_rows col rs = map (pad_row col) rs @ replicate (25 - length rs) (pad_row col [])"
  by (simp add: screen_rows_def)

lemma screen_large: "25 \<le> length rs \<Longrightarrow> screen_rows col rs = map (pad_row col) (drop (length rs - 25) rs)"
  by (simp add: screen_rows_def)

lemma screen_nth_last:
  assumes "rs \<noteq> []"
  shows "screen_rows col rs ! bottom_row rs = pad_row col (last rs)"
proof (cases "length rs \<le> 25")
  case True
  then show ?thesis using assms by (cases rs rule: rev_cases) (simp_all add: screen_small nth_append bottom_row_def)
next
  case False
  then show ?thesis using assms by (simp add: screen_large last_conv_nth bottom_row_def min_def)
qed

lemma screen_last:
  assumes "rs \<noteq> []"
  shows "screen_rows col (butlast rs @ [r]) = (screen_rows col rs)[bottom_row rs := pad_row col r]"
proof (cases rs rule: rev_cases)
  case (snoc us u)
  show ?thesis
  proof (cases "length rs \<le> 25")
    case True
    then show ?thesis by (simp add: snoc screen_small list_update_append bottom_row_def)
  next
    case False
    then show ?thesis by (simp add: snoc screen_large list_update_append bottom_row_def)
  qed
qed (use assms in simp)

lemma screen_new_row:
  "length rs < 25 \<Longrightarrow> screen_rows col (rs @ [[]]) = screen_rows col rs"
  "25 \<le> length rs \<Longrightarrow> screen_rows col (rs @ [[]]) = tl (screen_rows col rs) @ [pad_row col []]"
proof -
  assume l: "length rs < 25"
  have "replicate (25 - length rs) (pad_row col []) = pad_row col [] # replicate (24 - length rs) (pad_row col [])"
    using l by (cases "25 - length rs") simp_all
  with l show "screen_rows col (rs @ [[]]) = screen_rows col rs" by (simp add: screen_small)
next
  assume l: "25 \<le> length rs"
  then have "drop (length rs - 24) rs = tl (drop (length rs - 25) rs)"
    by (simp add: tl_drop drop_Suc [symmetric] Suc_diff_Suc [symmetric] Suc_diff_le)
  with l show "screen_rows col (rs @ [[]]) = tl (screen_rows col rs) @ [pad_row col []]"
    by (simp add: screen_large map_tl)
qed

lemma displays_newline:
  assumes "displays col cs s"
  shows "displays col (cs @ [0x0A]) (vga_scroll (s\<lparr>cursor_col := 0, cursor_row := cursor_row s + 1\<rparr>))"
proof -
  let ?rs = "text_rows cs"
  have g: "grid (screen_rows col ?rs)" using text_rows_width by (intro grid_screen) auto
  have d: "vga_buffer s = concat (screen_rows col ?rs)" "color s = col" "cursor_row s = int (bottom_row ?rs)"
    using assms by (simp_all add: displays_def)
  show ?thesis
  proof (cases "length ?rs < 25")
    case True
    moreover have "int (length ?rs - 1) = int (length ?rs) - 1" by (simp add: of_nat_diff Suc_leI)
    ultimately show ?thesis
      using d by (simp add: displays_def vga_scroll_def text_rows_snoc screen_new_row bottom_row_def)
  next
    case False
    then show ?thesis
      using d g by (subst vga_scroll_grid [OF g]) (simp_all add: displays_def text_rows_snoc screen_new_row pad_row_Nil bottom_row_def)
  qed
qed

text \<open>A row of 80 characters is closed at once, as by a newline.\<close>

lemma displays_wrap:
  assumes "grid (screen_rows col (rs @ [r]))" "vga_buffer s = concat (screen_rows col (rs @ [r]))" "color s = col"
    "cursor_row s = int (bottom_row (rs @ [r]))" "rs @ [r, []] = text_rows cs"
  shows "displays col cs (vga_scroll (s\<lparr>cursor_col := 0, cursor_row := cursor_row s + 1\<rparr>))"
proof -
  have e: "rs @ [r, []] = (rs @ [r]) @ [[]]" by simp
  show ?thesis
  proof (cases "length (rs @ [r]) < 25")
    case True
    then show ?thesis
      using assms unfolding displays_def assms(5) [symmetric] e
      by (simp add: vga_scroll_def screen_new_row bottom_row_def del: append_assoc)
  next
    case False
    then show ?thesis
      using assms unfolding displays_def assms(5) [symmetric] e
      by (subst (1 2 3 4) vga_scroll_grid [OF assms(1)]) (simp_all add: screen_new_row pad_row_Nil bottom_row_def del: append_assoc)
  qed
qed

lemma vga_putc_displays:
  assumes d: "displays col cs s"
  shows "\<exists>s'. vga_putc c s = Some s' \<and> displays col (cs @ [c]) s'"
proof (cases "c = 0x0A")
  case True
  then show ?thesis using displays_newline [OF d] by (simp add: vga_putc_def)
next
  case False
  let ?rs = "text_rows cs" and ?r = "last (text_rows cs)"
  let ?i = "bottom_row ?rs" and ?new = "butlast ?rs @ [?r @ [c]]"
  have g: "grid (screen_rows col ?rs)" using text_rows_width by (intro grid_screen) auto
  have r: "length ?r < 80" by (rule text_rows_last_width)
  have i: "?i < 25" by (simp add: bottom_row_def)
  have s: "vga_buffer s = concat (screen_rows col ?rs)" "color s = col" "cursor_row s = int ?i" "cursor_col s = int (length ?r)"
    using d by (simp_all add: displays_def)
  have buf: "(vga_buffer s)[?i * 80 + length ?r := vga_entry c col] = concat (screen_rows col ?new)"
    using grid_cell(1) [OF g i r, of "vga_entry c col"] s r
    by (simp add: screen_nth_last screen_last pad_row_snoc)
  have n: "length ?new = length ?rs" by simp
  have gnew: "grid (screen_rows col ?new)"
    using text_rows_width(2) [of _ cs] r in_set_butlastD [of _ ?rs] by (intro grid_screen) (auto simp: Suc_le_eq)
  have pos: "nat (int ?i * 80 + int (length ?r)) = ?i * 80 + length ?r" "int ?i * 80 + int (length ?r) < 2000"
    using i r by linarith+
  let ?s = "s\<lparr>vga_buffer := concat (screen_rows col ?new), cursor_col := int (length ?r) + 1\<rparr>"
  have put: "vga_putc c s = Some (if length ?r = 79
      then vga_scroll (?s\<lparr>cursor_col := 0, cursor_row := cursor_row ?s + 1\<rparr>) else ?s)"
    using False s i r pos buf by (simp add: vga_putc_def put_cell_def Let_def)
  show ?thesis
  proof (cases "length ?r = 79")
    case True
    then have rows: "?new @ [[]] = text_rows (cs @ [c])" using False by (simp add: text_rows_snoc)
    have "displays col (cs @ [c]) (vga_scroll (?s\<lparr>cursor_col := 0, cursor_row := cursor_row ?s + 1\<rparr>))"
      using s gnew n rows by (intro displays_wrap) (simp_all add: bottom_row_def)
    then show ?thesis using put True by simp
  next
    case neq: False
    then have "displays col (cs @ [c]) ?s"
      using False s n by (simp add: displays_def text_rows_snoc bottom_row_def)
    then show ?thesis using put neq by simp
  qed
qed

lemma vga_write_displays:
  assumes "displays col cs s"
  shows "\<exists>s'. vga_write ds s = Some s' \<and> displays col (cs @ ds) s'"
  using assms
proof (induction ds arbitrary: cs s)
  case (Cons d ds)
  then obtain s1 where "vga_putc d s = Some s1" "displays col (cs @ [d]) s1" using vga_putc_displays by blast
  with Cons.IH [of "cs @ [d]" s1] show ?case by simp
qed simp

lemma vga_clear_displays:
  assumes "length (vga_buffer s) = 2000"
  shows "displays (color s) [] (vga_clear s)"
proof -
  have "fold (\<lambda>i b. b[i := v]) [0..<n] b = replicate n v @ drop n b" if "n \<le> length b" for n :: nat and v :: u16 and b
    using that
  proof (induction n)
    case (Suc n)
    then show ?case by (simp add: list_update_append replicate_append_same Cons_nth_drop_Suc [symmetric])
  qed simp
  moreover have "concat (replicate n (replicate 80 v)) = replicate (n * 80) v" for n and v :: u16
    by (induction n) (simp_all add: replicate_add)
  ultimately show ?thesis
    using assms by (simp add: displays_def vga_clear_def text_rows_Nil screen_small pad_row_Nil bottom_row_def)
      (simp add: replicate_add [symmetric])
qed

text \<open>
  Erasing takes the last character back, except where writing it has scrolled the first row away.
\<close>

lemma vga_backspace_displays:
  assumes d: "displays col (cs @ [c]) s" and c: "c \<noteq> 0x0A"
    and room: "length (text_rows cs) < 25 \<or> length (last (text_rows cs)) < 79"
  shows "\<exists>s'. vga_backspace s = Some s' \<and> displays col cs s'"
proof -
  let ?rs = "text_rows cs" and ?r = "last (text_rows cs)"
  let ?i = "bottom_row ?rs" and ?row = "pad_row col (?r @ [c])"
  have g: "grid (screen_rows col ?rs)" using text_rows_width by (intro grid_screen) auto
  have r: "length ?r < 80" by (rule text_rows_last_width)
  have i: "?i < 25" by (simp add: bottom_row_def)
  have buf: "vga_buffer s = concat ((screen_rows col ?rs)[?i := ?row])"
  proof -
    have "screen_rows col (butlast ?rs @ [?r @ [c], []]) = screen_rows col (butlast ?rs @ [?r @ [c]])" if "length ?rs < 25"
      using screen_new_row(1) [of "butlast ?rs @ [?r @ [c]]" col] that by simp
    then show ?thesis
      using d c room by (auto simp: displays_def text_rows_snoc screen_last split: if_splits)
  qed
  have pos: "(cursor_col s = 0 \<and> cursor_row s = int ?i + 1 \<and> length ?r = 79) \<or>
      (cursor_col s = int (length ?r) + 1 \<and> cursor_row s = int ?i)"
  proof -
    obtain k where "length ?rs = Suc k" using text_rows_nonempty [of cs] by (cases ?rs) simp_all
    then show ?thesis
      using d c room r by (auto simp: displays_def text_rows_snoc bottom_row_def)
  qed
  have cell: "nat (int ?i * 80 + int (length ?r)) = ?i * 80 + length ?r" "int ?i * 80 + int (length ?r) < 2000"
    using i r by linarith+
  have undo: "?row[length ?r := vga_entry 0x20 col] = pad_row col ?r"
  proof -
    have "replicate (80 - length ?r) b = b # replicate (79 - length ?r) b" for b :: u16
      using r by (cases "80 - length ?r") simp_all
    then show ?thesis by (simp add: pad_row_def list_update_append)
  qed
  have "grid ((screen_rows col ?rs)[?i := ?row])" using grid_update [OF g] r by (simp add: length_pad_row)
  note upd = grid_cell(1) [OF this i r, of "vga_entry 0x20 col"]
  have same: "(screen_rows col ?rs)[?i := pad_row col ?r] = screen_rows col ?rs"
    using screen_nth_last [OF text_rows_nonempty, of col cs] by (metis list_update_id)
  have "?i < length (screen_rows col ?rs)" using g i unfolding grid_def by simp
  then have "((screen_rows col ?rs)[?i := ?row])[?i := (((screen_rows col ?rs)[?i := ?row]) ! ?i)[length ?r := vga_entry 0x20 col]] =
      screen_rows col ?rs"
    by (simp only: nth_list_update_eq list_update_overwrite undo same)
  then have "(vga_buffer s)[?i * 80 + length ?r := vga_entry 0x20 col] = concat (screen_rows col ?rs)"
    using upd unfolding buf by simp
  then have "vga_backspace s = Some (s\<lparr>vga_buffer := concat (screen_rows col ?rs), cursor_row := int ?i, cursor_col := int (length ?r)\<rparr>)"
    using pos cell d i r by (auto simp: vga_backspace_def put_cell_def displays_def Let_def add.commute)
  then show ?thesis using d by (simp add: displays_def)
qed

section \<open>The cursor stays on the screen\<close>

definition screen_ok :: "vga \<Rightarrow> bool" where
  "screen_ok v \<longleftrightarrow> length (vga_buffer v) = 2000 \<and> 0 \<le> cursor_row v \<and> cursor_row v < 25 \<and>
     0 \<le> cursor_col v \<and> cursor_col v < 80"

lemma length_fold_update: "length (fold (\<lambda>i b. b[f i := g i b]) is b) = length b"
  by (induction "is" arbitrary: b) simp_all

lemma length_move_row: "length (move_row row b) = length b"
  by (simp add: move_row_def length_fold_update)

lemma length_move_rows: "length (fold move_row is b) = length b"
  by (induction "is" arbitrary: b) (simp_all add: length_move_row)

lemma vga_scroll_frame:
  "length (vga_buffer (vga_scroll v)) = length (vga_buffer v)" "cursor_col (vga_scroll v) = cursor_col v"
  "color (vga_scroll v) = color v" "cursor_row (vga_scroll v) = min 24 (cursor_row v)"
  by (auto simp: vga_scroll_def Let_def length_fold_update length_move_rows)

lemma vga_putc_ok: "screen_ok v \<Longrightarrow> \<exists>v'. vga_putc c v = Some v' \<and> screen_ok v'"
  by (auto simp: vga_putc_def put_cell_def screen_ok_def Let_def vga_scroll_frame)

lemma vga_backspace_ok: "screen_ok v \<Longrightarrow> \<exists>v'. vga_backspace v = Some v' \<and> screen_ok v'"
  by (auto simp: vga_backspace_def put_cell_def screen_ok_def Let_def)

lemma vga_clear_ok: "length (vga_buffer v) = 2000 \<Longrightarrow> screen_ok (vga_clear v)"
  by (simp add: screen_ok_def vga_clear_def length_fold_update)

lemma displays_ok: "displays col cs v \<Longrightarrow> screen_ok v"
proof -
  assume d: "displays col cs v"
  have "grid (screen_rows col (text_rows cs))" using text_rows_width by (intro grid_screen) auto
  then have "length (concat (screen_rows col (text_rows cs))) = 2000"
    by (simp add: grid_def length_concat_rows [of _ 80])
  then show ?thesis using d text_rows_last_width [of cs] by (simp add: displays_def screen_ok_def bottom_row_def)
qed

end
