(* ===== verification/Terminal.thy ===== *)
theory Terminal
  imports Screen CString
begin

text \<open>
  The terminal, \<open>kernel/terminal.c\<close>: every character goes to the screen and to the serial port. A string
  argument is the list of its bytes before the terminator.
\<close>

record console = io +
  screen :: vga

definition on_screen :: "(vga \<Rightarrow> vga option) \<Rightarrow> 'a console_scheme \<Rightarrow> 'a console_scheme option" where
  "on_screen f s = (case f (screen s) of None \<Rightarrow> None | Some v \<Rightarrow> Some (s\<lparr>screen := v\<rparr>))"

definition terminal_clear :: "'a console_scheme \<Rightarrow> 'a console_scheme" where
  "terminal_clear s = s\<lparr>screen := vga_clear (screen s)\<rparr>"

definition terminal_init :: "'a console_scheme \<Rightarrow> 'a console_scheme" where
  "terminal_init s =
     (let s = s\<lparr>screen := vga_set_color 0 15 (screen s)\<rparr>
      in s\<lparr>screen := vga_clear (screen s)\<rparr>)"

definition terminal_putchar :: "u8 \<Rightarrow> 'a console_scheme \<Rightarrow> 'a console_scheme option" where
  "terminal_putchar c s = do { s \<leftarrow> on_screen (vga_putc c) s; Some (serial_putc c s) }"

fun terminal_write :: "u8 list \<Rightarrow> 'a console_scheme \<Rightarrow> 'a console_scheme option" where
  "terminal_write [] s = Some s"
| "terminal_write (c # cs) s = do { s \<leftarrow> terminal_putchar c s; terminal_write cs s }"

definition terminal_writeIn :: "u8 list \<Rightarrow> 'a console_scheme \<Rightarrow> 'a console_scheme option" where
  "terminal_writeIn cs s = do { s \<leftarrow> terminal_write cs s; terminal_write [0x0A] s }"

fun hex_loop :: "nat list \<Rightarrow> u32 \<Rightarrow> 'a console_scheme \<Rightarrow> 'a console_scheme option" where
  "hex_loop [] v s = Some s"
| "hex_loop (i # is) v s =
     do { s \<leftarrow> terminal_putchar (bytes ''0123456789ABCDEF'' ! unat (drop_bit i v AND 0xF)) s; hex_loop is v s }"

definition terminal_write_hex :: "u32 \<Rightarrow> 'a console_scheme \<Rightarrow> 'a console_scheme option" where
  "terminal_write_hex v s =
     do { s \<leftarrow> terminal_write (bytes ''0x'') s; hex_loop [28, 24, 20, 16, 12, 8, 4, 0] v s }"

definition terminal_prompt :: "'a console_scheme \<Rightarrow> 'a console_scheme option" where
  "terminal_prompt s = terminal_write (bytes ''> '') s"

definition terminal_backspace :: "'a console_scheme \<Rightarrow> 'a console_scheme option" where
  "terminal_backspace s = on_screen vga_backspace s"

section \<open>What has been written\<close>

text \<open>
  \<open>on_display col cs s\<close>: since it was cleared the screen has got the text \<open>cs\<close>; \<open>wrote cs s s'\<close>: the step from
  \<open>s\<close> to \<open>s'\<close> has written \<open>cs\<close> to the screen and the serial port and changed nothing else.
\<close>

definition on_display :: "u8 \<Rightarrow> u8 list \<Rightarrow> 'a console_scheme \<Rightarrow> bool" where
  "on_display col cs s \<longleftrightarrow> displays col cs (screen s)"

definition wrote :: "u8 list \<Rightarrow> 'a console_scheme \<Rightarrow> 'a console_scheme \<Rightarrow> bool" where
  "wrote ds s s' \<longleftrightarrow> bus s' = bus s @ map (Outb 0x3F8) ds \<and> hardware s' = hardware s \<and>
     console.more s' = console.more s \<and> (\<forall>col cs. on_display col cs s \<longrightarrow> on_display col (cs @ ds) s')"

definition ready_screen :: "'a console_scheme \<Rightarrow> bool" where
  "ready_screen s \<longleftrightarrow> (\<exists>col cs. on_display col cs s)"

lemma wrote_refl: "wrote [] s s"
  by (simp add: wrote_def)

lemma wrote_trans: "wrote ds s s' \<Longrightarrow> wrote es s' s'' \<Longrightarrow> wrote (ds @ es) s s''"
  by (force simp: wrote_def)

lemma wrote_ready: "wrote ds s s' \<Longrightarrow> ready_screen s \<Longrightarrow> ready_screen s'"
  unfolding wrote_def ready_screen_def by blast

lemma displays_color: "displays col cs v \<Longrightarrow> color v = col"
  by (simp add: displays_def)

lemma putc_all_texts:
  assumes "displays col cs v" "vga_putc c v = Some v'" "displays col' cs' v"
  shows "displays col' (cs' @ [c]) v'"
  using vga_putc_displays [OF assms(3), of c] assms(2) by simp

lemma terminal_putchar_wrote:
  assumes "ready_screen s"
  shows "\<exists>s'. terminal_putchar c s = Some s' \<and> wrote [c] s s'"
proof -
  obtain col cs where d: "displays col cs (screen s)" using assms by (auto simp: ready_screen_def on_display_def)
  then obtain v where v: "vga_putc c (screen s) = Some v" using vga_putc_displays by blast
  then have "terminal_putchar c s = Some (serial_putc c (s\<lparr>screen := v\<rparr>))"
    by (simp add: terminal_putchar_def on_screen_def)
  moreover have "wrote [c] s (serial_putc c (s\<lparr>screen := v\<rparr>))"
    using putc_all_texts [OF d v] by (simp add: wrote_def on_display_def serial_putc_def outb_def)
  ultimately show ?thesis by blast
qed

lemma terminal_write_wrote:
  assumes "ready_screen s"
  shows "\<exists>s'. terminal_write cs s = Some s' \<and> wrote cs s s'"
  using assms
proof (induction cs arbitrary: s)
  case Nil
  then show ?case by (simp add: wrote_refl)
next
  case (Cons c cs)
  obtain s1 where s1: "terminal_putchar c s = Some s1" "wrote [c] s s1"
    using terminal_putchar_wrote [OF Cons.prems] by blast
  obtain s2 where "terminal_write cs s1 = Some s2" "wrote cs s1 s2"
    using Cons.IH [OF wrote_ready [OF s1(2) Cons.prems]] by blast
  with s1 wrote_trans [OF s1(2), of cs s2] show ?case by simp
qed

lemma terminal_write_append: "terminal_write (cs @ ds) s = do { s \<leftarrow> terminal_write cs s; terminal_write ds s }"
proof (induction cs arbitrary: s)
  case (Cons c cs)
  then show ?case by (cases "terminal_putchar c s") simp_all
qed simp

lemma terminal_writeIn_write: "terminal_writeIn cs s = terminal_write (cs @ [0x0A]) s"
  by (simp only: terminal_writeIn_def terminal_write_append)

definition hex_digits :: "u32 \<Rightarrow> u8 list" where
  "hex_digits v = map (\<lambda>i. bytes ''0123456789ABCDEF'' ! unat (drop_bit i v AND 0xF)) [28, 24, 20, 16, 12, 8, 4, 0]"

lemma hex_loop_write: "hex_loop is v s = terminal_write (map (\<lambda>i. bytes ''0123456789ABCDEF'' ! unat (drop_bit i v AND 0xF)) is) s"
proof (induction "is" arbitrary: s)
  case (Cons i "is")
  then show ?case
    by (cases "terminal_putchar (bytes ''0123456789ABCDEF'' ! unat (drop_bit i v AND 0xF)) s") simp_all
qed simp

lemma terminal_write_hex_write: "terminal_write_hex v s = terminal_write (bytes ''0x'' @ hex_digits v) s"
  by (simp only: terminal_write_hex_def hex_loop_write terminal_write_append hex_digits_def)

lemma terminal_init_display:
  assumes "length (vga_buffer (screen s)) = 2000"
  shows "on_display 0xF0 [] (terminal_init s)"
  using vga_clear_displays [of "vga_set_color 0 15 (screen s)"] assms
  by (simp add: on_display_def terminal_init_def vga_set_color_def)

lemma terminal_init_frame [simp]:
  "bus (terminal_init s) = bus s" "hardware (terminal_init s) = hardware s" "console.more (terminal_init s) = console.more s"
  by (simp_all add: terminal_init_def)

section \<open>Properties\<close>

text \<open>C14. The terminal shows the text that is written: after \<open>terminal_init\<close>, writing any text never leaves the
  screen memory, and the screen shows the last 25 rows of the text, broken at newlines and after every 80
  characters, padded with blanks in black on white, with the cursor behind the last character; the same bytes
  go to the serial port in order.\<close>

theorem terminal_shows_text:
  assumes "length (vga_buffer (screen s)) = 2000"
  shows "\<exists>s'. terminal_write cs (terminal_init s) = Some s' \<and>
    vga_buffer (screen s') = concat (screen_rows 0xF0 (text_rows cs)) \<and>
    cursor_row (screen s') = int (min 24 (length (text_rows cs) - 1)) \<and>
    cursor_col (screen s') = int (length (last (text_rows cs))) \<and>
    bus s' = bus s @ map (Outb 0x3F8) cs"
proof -
  have d: "on_display 0xF0 [] (terminal_init s)" by (rule terminal_init_display [OF assms])
  then have "ready_screen (terminal_init s)" by (auto simp: ready_screen_def)
  then obtain s' where s': "terminal_write cs (terminal_init s) = Some s'" "wrote cs (terminal_init s) s'"
    using terminal_write_wrote by blast
  with d have "displays 0xF0 cs (screen s')" by (force simp: wrote_def on_display_def)
  with s' show ?thesis by (auto simp: displays_def wrote_def bottom_row_def)
qed

theorem terminal_shows_text_witness:
  "\<exists>s' :: console. terminal_write (bytes ''ab'' @ [0x0A]) (terminal_init \<lparr>bus = [], hardware = (\<lambda>_ _. 0),
      screen = \<lparr>vga_buffer = replicate 2000 0, color = 0x0F, cursor_row = 0, cursor_col = 0\<rparr>\<rparr>) = Some s' \<and>
    take 3 (vga_buffer (screen s')) = [0xF061, 0xF062, 0xF020] \<and> cursor_row (screen s') = 1 \<and> bus s' = [Outb 0x3F8 0x61, Outb 0x3F8 0x62, Outb 0x3F8 0x0A]"
proof -
  have r: "text_rows (bytes ''ab'' @ [0x0A]) = [bytes ''ab'', []]"
    by (simp add: text_rows_def bytes_def chunks.simps)
  have "take 3 (concat (screen_rows 0xF0 [bytes ''ab'', []])) = [0xF061, 0xF062, 0xF020]"
    by (simp add: screen_small pad_row_def bytes_def vga_entry_def)
  then show ?thesis
    using terminal_shows_text [of "\<lparr>bus = [], hardware = (\<lambda>_ _. 0),
      screen = \<lparr>vga_buffer = replicate 2000 0, color = 0x0F, cursor_row = 0, cursor_col = 0\<rparr>\<rparr> :: console" "bytes ''ab'' @ [0x0A]"]
    unfolding r by (auto simp: bytes_def)
qed

definition hex_value :: "u8 \<Rightarrow> u32" where
  "hex_value c = (if c \<le> 0x39 then ucast c - 0x30 else ucast c - 0x37)"

lemma hex_value_digit:
  assumes "n < 16"
  shows "hex_value (bytes ''0123456789ABCDEF'' ! n) = of_nat n"
proof -
  have "n \<in> {0, 1, 2, 3, 4, 5, 6, 7, 8, 9, 10, 11, 12, 13, 14, 15}" using assms by (simp, presburger)
  then show ?thesis by (elim insertE emptyE) (simp_all add: hex_value_def bytes_def)
qed

lemma nibble_take: "drop_bit i v AND 0xF = take_bit 4 (drop_bit i (v :: u32))"
proof -
  have "(0xF :: u32) = mask 4" by (simp add: mask_eq_exp_minus_1)
  then show ?thesis by (simp only: take_bit_eq_mask)
qed

lemma nibble_small: "unat (drop_bit i (v :: u32) AND 0xF) < 16"
  unfolding nibble_take by (simp add: unsigned_take_bit_eq take_bit_nat_less_exp [of 4, simplified])

lemma nibble_step: "16 * drop_bit (i + 4) v + (drop_bit i v AND 0xF) = drop_bit i (v :: u32)"
  using bits_ident [of 4 "drop_bit i v"] unfolding nibble_take
  by (simp add: push_bit_eq_mult drop_bit_drop_bit add.commute mult.commute)

lemma hex_digit_value: "hex_value (bytes ''0123456789ABCDEF'' ! unat (drop_bit i v AND 0xF)) = drop_bit i v AND 0xF"
  using hex_value_digit [OF nibble_small, of i v] by simp

lemma hex_digits_value: "foldl (\<lambda>a c. 16 * a + hex_value c) 0 (hex_digits v) = v"
proof -
  have z: "0 = drop_bit 32 v" by (rule bit_word_eqI) (simp add: bit_simps)
  have step: "16 * drop_bit 32 v + (drop_bit 28 v AND 0xF) = drop_bit 28 v" "16 * drop_bit 28 v + (drop_bit 24 v AND 0xF) = drop_bit 24 v"
    "16 * drop_bit 24 v + (drop_bit 20 v AND 0xF) = drop_bit 20 v" "16 * drop_bit 20 v + (drop_bit 16 v AND 0xF) = drop_bit 16 v"
    "16 * drop_bit 16 v + (drop_bit 12 v AND 0xF) = drop_bit 12 v" "16 * drop_bit 12 v + (drop_bit 8 v AND 0xF) = drop_bit 8 v"
    "16 * drop_bit 8 v + (drop_bit 4 v AND 0xF) = drop_bit 4 v" "16 * drop_bit 4 v + (drop_bit 0 v AND 0xF) = v"
    using nibble_step [of 28 v] nibble_step [of 24 v] nibble_step [of 20 v] nibble_step [of 16 v] nibble_step [of 12 v]
      nibble_step [of 8 v] nibble_step [of 4 v] nibble_step [of 0 v] by simp_all
  have "foldl (\<lambda>a c. 16 * a + hex_value c) 0 (hex_digits v) =
    foldl (\<lambda>a i. 16 * a + (drop_bit i v AND 0xF)) 0 [28, 24, 20, 16, 12, 8, 4, 0]"
    by (simp only: hex_digits_def foldl_map hex_digit_value)
  also have "\<dots> = v" by (subst z) (simp only: foldl_Cons foldl_Nil step)
  finally show ?thesis .
qed

text \<open>The hexadecimal output of a number is 0x and eight digits that read back as the number.\<close>

theorem hex_reads_back:
  "terminal_write_hex v s = terminal_write (bytes ''0x'' @ hex_digits v) s \<and> length (hex_digits v) = 8 \<and>
   foldl (\<lambda>a c. 16 * a + hex_value c) 0 (hex_digits v) = v"
  using terminal_write_hex_write hex_digits_value by (auto simp: hex_digits_def)

end
