(* ===== verification/ShellText.thy ===== *)
theory ShellText
  imports Terminal
begin

text \<open>
  The text handling of the shell, \<open>kernel/shell.c\<close>: decimal output, splitting of the command line and of
  the arguments. A C string is the list of its bytes before the terminator.
\<close>

abbreviation space :: u8 where "space \<equiv> 0x20"

fun digits_loop :: "nat \<Rightarrow> u32 \<Rightarrow> u8 list" where
  "digits_loop 0 value = []"
| "digits_loop (Suc room) value =
     (if value > 0 then (0x30 + ucast (value mod 10)) # digits_loop room (value div 10) else [])"

text \<open>The digits are collected in \<open>buffer\<close>, the last one first, and written from its end.\<close>

definition write_uint32 :: "u32 \<Rightarrow> 'a console_scheme \<Rightarrow> 'a console_scheme option" where
  "write_uint32 value s =
     (if value = 0 then terminal_writeIn (bytes ''0'') s
      else terminal_write (rev (digits_loop 10 value)) s)"

fun streq :: "u8 list \<Rightarrow> u8 list \<Rightarrow> bool" where
  "streq (a # as) (b # bs) = (if a \<noteq> b then False else streq as bs)"
| "streq [] [] = True"
| "streq (a # as) [] = (a = 0)"
| "streq [] (b # bs) = (0 = b)"

fun skip_spaces :: "u8 list \<Rightarrow> u8 list" where
  "skip_spaces [] = []"
| "skip_spaces (c # cs) = (if c = space then skip_spaces cs else c # cs)"

text \<open>The copying loops: at most \<open>n\<close> bytes, up to a space or to the end; with the rest of the input.\<close>

fun copy_word :: "nat \<Rightarrow> u8 list \<Rightarrow> u8 list \<times> u8 list" where
  "copy_word 0 cs = ([], cs)"
| "copy_word (Suc n) [] = ([], [])"
| "copy_word (Suc n) (c # cs) =
     (if c = space then ([], c # cs) else let (w, r) = copy_word n cs in (c # w, r))"

fun skip_word :: "u8 list \<Rightarrow> u8 list" where
  "skip_word [] = []"
| "skip_word (c # cs) = (if c = space then c # cs else skip_word cs)"

definition split_command :: "u8 list \<Rightarrow> u8 list \<times> u8 list" where
  "split_command input =
     (let input = skip_spaces input;
          (command, input) = copy_word 31 input;
          input = (if input \<noteq> [] \<and> hd input = space then skip_spaces input else input)
      in (command, take 223 input))"

definition get_next_argument :: "u8 list \<Rightarrow> nat \<Rightarrow> (u8 list \<times> u8 list) option" where
  "get_next_argument input sz =
     (if sz = 0 then None
      else let input = skip_spaces input
           in if input = [] then None
              else let (word, input) = copy_word (sz - 1) input
                   in Some (word, skip_word input))"

section \<open>Words\<close>

text \<open>The words of a line: the maximal pieces without spaces.\<close>

function words :: "u8 list \<Rightarrow> u8 list list" where
  "words [] = []"
| "words (c # cs) =
     (if c = space then words cs
      else (c # takeWhile (\<lambda>x. x \<noteq> space) cs) # words (dropWhile (\<lambda>x. x \<noteq> space) cs))"
  by pat_completeness auto
termination by (relation "measure length") (auto intro: le_less_trans [OF length_dropWhile_le])

lemma skip_spaces_dropWhile: "skip_spaces cs = dropWhile (\<lambda>x. x = space) cs"
  by (induction cs) auto

lemma skip_word_dropWhile: "skip_word cs = dropWhile (\<lambda>x. x \<noteq> space) cs"
  by (induction cs) auto

lemma copy_word_take:
  "copy_word n cs = (take n (takeWhile (\<lambda>x. x \<noteq> space) cs), drop n (takeWhile (\<lambda>x. x \<noteq> space) cs) @ dropWhile (\<lambda>x. x \<noteq> space) cs)"
proof (induction n cs rule: copy_word.induct)
  case (1 cs)
  then show ?case by (simp add: takeWhile_dropWhile_id)
qed auto

lemma words_skip: "words (skip_spaces cs) = words cs" "skip_spaces cs = [] \<or> hd (skip_spaces cs) \<noteq> space"
  "length (skip_spaces cs) \<le> length cs"
  by (induction cs) auto

lemma words_nonspace: "c \<noteq> space \<Longrightarrow> words (c # cs) =
    takeWhile (\<lambda>x. x \<noteq> space) (c # cs) # words (dropWhile (\<lambda>x. x \<noteq> space) (c # cs))"
  by simp

lemma skip_rest:
  "skip_word (drop n (takeWhile (\<lambda>x. x \<noteq> space) ds) @ dropWhile (\<lambda>x. x \<noteq> space) ds) = dropWhile (\<lambda>x. x \<noteq> space) ds"
proof (induction ds arbitrary: n)
  case (Cons d ds)
  then show ?case using Cons [of "n - 1"] Cons [of 0] by (cases n) (auto simp: takeWhile_dropWhile_id)
qed simp

lemma get_next_argument_cases:
  assumes "0 < sz"
  obtains "words cs = []" "skip_spaces cs = []" "get_next_argument cs sz = None"
  | w ws r where "words cs = w # ws" "get_next_argument cs sz = Some (take (sz - 1) w, r)" "words r = ws" "length r < length cs"
      "w \<noteq> []"
proof (cases "skip_spaces cs")
  case Nil
  then have "words cs = []" using words_skip(1) [of cs] by simp
  with Nil assms that(1) show thesis by (simp add: get_next_argument_def)
next
  case (Cons c ds)
  then have c: "c \<noteq> space" using words_skip(2) [of cs] by simp
  let ?r = "dropWhile (\<lambda>x. x \<noteq> space) (c # ds)" and ?w = "takeWhile (\<lambda>x. x \<noteq> space) (c # ds)"
  have "words cs = ?w # words ?r" using words_skip(1) [of cs] words_nonspace [OF c, of ds] unfolding Cons by (simp only:)
  moreover have "get_next_argument cs sz = Some (take (sz - 1) ?w, ?r)"
    using assms Cons skip_rest [of "sz - 1" "c # ds"] copy_word_take [of "sz - 1" "c # ds"] unfolding get_next_argument_def Let_def
    by simp
  moreover have "length ?r < length cs"
    using c words_skip(3) [of cs] length_dropWhile_le [of "\<lambda>x. x \<noteq> space" ds] Cons by simp
  ultimately show thesis using that(2) [of ?w "words ?r" ?r] c by simp
qed

lemma get_next_argument_shorter:
  assumes "get_next_argument cs sz = Some (w, r)"
  shows "length r < length cs"
proof -
  have sz: "0 < sz" using assms by (simp add: get_next_argument_def split: if_splits)
  show ?thesis by (cases cs rule: get_next_argument_cases [OF sz]) (use assms in auto)
qed

text \<open>The loop \<open>while (get_next_argument(&args, buffer, size))\<close> delivers the words, cut to the buffer.\<close>

function argument_list :: "nat \<Rightarrow> u8 list \<Rightarrow> u8 list list" where
  "argument_list sz cs =
     (case get_next_argument cs sz of None \<Rightarrow> [] | Some (w, r) \<Rightarrow> w # argument_list sz r)"
  by pat_completeness auto
termination by (relation "measure (length \<circ> snd)") (auto dest: get_next_argument_shorter)

declare argument_list.simps [simp del]

text \<open>The loop over the arguments of a command sees the words of the line: the maximal pieces without spaces, in
  order, each cut to the size of the buffer less one byte.\<close>

theorem get_next_argument_words:
  assumes "0 < sz"
  shows "argument_list sz cs = map (take (sz - 1)) (words cs)"
proof (induction "length cs" arbitrary: cs rule: less_induct)
  case less
  show ?case
  proof (cases cs rule: get_next_argument_cases [OF assms])
    case 1
    then show ?thesis by (subst argument_list.simps) simp
  next
    case (2 w ws r)
    then show ?thesis using less by (subst argument_list.simps) simp
  qed
qed

theorem get_next_argument_words_witness:
  "argument_list 4 (bytes ''  ab   cdefg '') = [bytes ''ab'', bytes ''cde'']"
  by (subst get_next_argument_words) (simp_all add: bytes_def)

section \<open>Lemmas on the other functions\<close>

lemma streq_eq: "0 \<notin> set as \<Longrightarrow> 0 \<notin> set bs \<Longrightarrow> streq as bs \<longleftrightarrow> as = bs"
  by (induction as bs rule: streq.induct) auto

lemma skip_if_space: "(cs \<noteq> [] \<Longrightarrow> hd cs = space) \<Longrightarrow> (if cs \<noteq> [] \<and> hd cs = space then skip_spaces cs else cs) = skip_spaces cs"
  by (cases cs) auto

text \<open>A command line of the keyboard, at most 127 characters, is taken apart into its first word and the rest.\<close>

lemma split_command_words:
  assumes "words input = w # ws" "length w < 32" "length input \<le> 223"
  shows "fst (split_command input) = w" "words (snd (split_command input)) = ws"
proof -
  let ?i = "skip_spaces input"
  obtain c ds where c: "?i = c # ds" "c \<noteq> space"
    using assms words_skip(1,2) [of input] by (cases ?i) auto
  have w: "w = takeWhile (\<lambda>x. x \<noteq> space) ?i" "ws = words (dropWhile (\<lambda>x. x \<noteq> space) ?i)"
    using assms(1) words_skip(1) [of input] words_nonspace [OF c(2), of ds] unfolding c(1) by (simp_all only: list.inject)
  let ?r = "dropWhile (\<lambda>x. x \<noteq> space) ?i"
  have cw: "copy_word 31 ?i = (w, ?r)" using assms(2) unfolding copy_word_take w(1) [symmetric] by simp
  have "?r \<noteq> [] \<Longrightarrow> hd ?r = space" using hd_dropWhile [of "\<lambda>x. x \<noteq> space" ?i] by auto
  then have s: "(if ?r \<noteq> [] \<and> hd ?r = space then skip_spaces ?r else ?r) = skip_spaces ?r" by (rule skip_if_space)
  have "length (skip_spaces ?r) \<le> length input"
    using words_skip(3) [of ?r] words_skip(3) [of input] length_dropWhile_le [of "\<lambda>x. x \<noteq> space" ?i] by linarith
  then have t: "take 223 (skip_spaces ?r) = skip_spaces ?r" using assms(3) by simp
  have "split_command input = (w, skip_spaces ?r)" unfolding split_command_def Let_def cw split s t by simp
  then show "fst (split_command input) = w" "words (snd (split_command input)) = ws"
    using w(2) words_skip(1) [of ?r] by simp_all
qed

lemma digits_loop_value:
  "unat v < 10 ^ n \<Longrightarrow> foldr (\<lambda>c a. 10 * a + (unat c - 0x30)) (digits_loop n v) 0 = unat v"
proof (induction n v rule: digits_loop.induct)
  case (2 n v)
  have "unat (v div 10) = unat v div 10" "unat (v mod 10) = unat v mod 10" by (simp_all add: unat_div unat_mod)
  then have "unat (ucast (v mod 10) :: u8) = unat v mod 10"
    by (simp add: unsigned_ucast_eq take_bit_nat_eq_self)
  then have "unat (0x30 + ucast (v mod 10) :: u8) = 0x30 + unat v mod 10" by (simp add: unat_word_ariths)
  moreover have "unat (v div 10) < 10 ^ n" using 2 \<open>unat (v div 10) = unat v div 10\<close> by auto
  ultimately show ?case using 2 \<open>unat (v div 10) = unat v div 10\<close> by (auto simp: word_neq_0_conv [symmetric])
qed simp

text \<open>The decimal output of a number is at most ten digits that read back as the number; the number 0 alone is
  followed by a newline.\<close>

theorem write_uint32_reads_back:
  "write_uint32 v s = terminal_write (if v = 0 then [0x30, 0x0A] else rev (digits_loop 10 v)) s \<and>
   foldl (\<lambda>a c. 10 * a + (unat c - 0x30)) 0 (rev (digits_loop 10 v)) = unat v"
proof -
  have "unat v < 10 ^ 10" using unat_u32_less [of v] by simp
  from digits_loop_value [OF this] show ?thesis
    by (simp add: write_uint32_def terminal_writeIn_write bytes_def foldl_conv_foldr)
qed

end
