(* ===== verification/Machine.thy ===== *)
theory Machine
  imports Terminal Process Fifo
begin

text \<open>
  The machine between interrupts: the terminal with the port bus, the keyboard ring buffer of
  \<open>kernel/drivers/keyboard.c\<close>, the tick counter of \<open>kernel/drivers/timer.c\<close>, the shift key of
  \<open>kernel/arch/x86/irq.c\<close> and the kernel of processes and threads. The handlers of interrupts and
  exceptions (\<open>irq.c\<close>, \<open>exceptions.c\<close>, \<open>kernel/memory/page_fault.c\<close>, \<open>kernel/panic.c\<close>).
\<close>

section \<open>The keyboard buffer\<close>

record keyboard =
  keyboard_buffer :: "u8 list"
  buffer_head :: u32
  buffer_tail :: u32

definition keyboard_init :: "keyboard \<Rightarrow> keyboard" where
  "keyboard_init k = k\<lparr>buffer_head := 0, buffer_tail := 0\<rparr>"

definition keyboard_buffer_put :: "u8 \<Rightarrow> keyboard \<Rightarrow> keyboard" where
  "keyboard_buffer_put c k =
     (let nxt = (buffer_head k + 1) mod 128
      in if nxt = buffer_tail k then k
         else k\<lparr>keyboard_buffer := (keyboard_buffer k)[unat (buffer_head k) := c], buffer_head := nxt\<rparr>)"

text \<open>The part of \<open>keyboard_getchar\<close> between \<open>cli\<close> and \<open>sti\<close>.\<close>

definition keyboard_take :: "keyboard \<Rightarrow> u8 \<times> keyboard" where
  "keyboard_take k =
     (if buffer_head k = buffer_tail k then (0, k)
      else (keyboard_buffer k ! unat (buffer_tail k), k\<lparr>buffer_tail := (buffer_tail k + 1) mod 128\<rparr>))"

record machine = console +
  kbd :: keyboard
  ticks :: u32
  shift_pressed :: u8
  kern :: kstate

definition keyboard_getchar :: "'a machine_scheme \<Rightarrow> u8 \<times> 'a machine_scheme" where
  "keyboard_getchar s =
     (let s = s\<lparr>kern := cli (kern s)\<rparr>;
          (c, k) = keyboard_take (kbd s)
      in (c, s\<lparr>kbd := k, kern := sti (kern s)\<rparr>))"

section \<open>The timer\<close>

definition timer_init :: "'a io_scheme \<Rightarrow> 'a io_scheme" where
  "timer_init s =
     (let divisor = (of_int (1193182 div 100) :: u16);
          s = outb 0x43 0x36 s;
          s = outb 0x40 (ucast (divisor AND 0xFF)) s;
          s = outb 0x40 (ucast (drop_bit 8 divisor AND 0xFF)) s
      in s)"

definition timer_tick :: "'a machine_scheme \<Rightarrow> 'a machine_scheme" where
  "timer_tick s = s\<lparr>ticks := ticks s + 1\<rparr>"

definition timer_ticks :: "'a machine_scheme \<Rightarrow> u32 \<times> 'a machine_scheme" where
  "timer_ticks s =
     (let s = s\<lparr>kern := cli (kern s)\<rparr>;
          result = ticks s
      in (result, s\<lparr>kern := sti (kern s)\<rparr>))"

section \<open>Interrupts\<close>

definition scancode_table :: "u8 list" where
  "scancode_table =
     [0, 27] @ bytes ''1234567890-='' @ [8, 9] @ bytes ''qwertyuiop[]'' @ [10, 0] @
     bytes ''asdfghjkl;'' @ [39, 96, 0, 92] @ bytes ''zxcvbnm,./'' @ [0] @ bytes ''*'' @ [0] @ bytes '' '' @
     replicate 70 0"

definition scancode_table_shift :: "u8 list" where
  "scancode_table_shift =
     [0, 27] @ bytes ''!@#$%^&*()_+'' @ [8, 9] @ bytes ''QWERTYUIOP{}'' @ [10, 0] @
     bytes ''ASDFGHJKL:'' @ [34] @ bytes ''~'' @ [0] @ bytes ''|'' @ bytes ''ZXCVBNM<>?'' @ [0] @ bytes ''*'' @ [0] @
     bytes '' '' @ replicate 70 0"

definition keyboard_irq :: "'a machine_scheme \<Rightarrow> 'a machine_scheme" where
  "keyboard_irq s =
     (let (scancode, s) = inb 0x60 s
      in if scancode = 0x2A \<or> scancode = 0x36 then s\<lparr>shift_pressed := 1\<rparr>
         else if scancode = 0xAA \<or> scancode = 0xB6 then s\<lparr>shift_pressed := 0\<rparr>
         else if scancode AND 0x80 = 0 \<and> scancode < 128
         then let shifted = shift_pressed s;
                  c = (if shifted \<noteq> 0 then scancode_table_shift ! unat scancode else scancode_table ! unat scancode)
              in if c \<noteq> 0 then s\<lparr>kbd := keyboard_buffer_put c (kbd s)\<rparr> else s
         else s)"

text \<open>\<open>r\<close> is the address of the registers that the interrupt entry has pushed.\<close>

definition int_no :: "u32 \<Rightarrow> 'a machine_scheme \<Rightarrow> u32" where
  "int_no r s = fr_int_no (stack_frames (kern s) r)"

definition irq_handler :: "u32 \<Rightarrow> 'a machine_scheme \<Rightarrow> (u32 \<times> 'a machine_scheme) option" where
  "irq_handler r s =
     (let s = (if int_no r s = 33 then keyboard_irq s else s)
      in do {
        (next_esp, s) \<leftarrow>
          (if int_no r s = 32
           then let s = timer_tick s
                in do { (e, k) \<leftarrow> scheduler_schedule r (kern s); Some (e, s\<lparr>kern := k\<rparr>) }
           else Some (r, s));
        Some (next_esp, pic_send_eoi (sint (int_no r s - 32)) s)
      })"

section \<open>Exceptions\<close>

text \<open>A handler returns, or stops the processor for good with \<open>cli\<close> and a loop of \<open>hlt\<close>.\<close>

datatype 's run = Returned 's | Halted 's

definition halt :: "'a machine_scheme \<Rightarrow> 'a machine_scheme run" where
  "halt s = Halted (s\<lparr>kern := cli (kern s)\<rparr>)"

text \<open>The registers as the entry code pushes them; \<open>cr2\<close> is the register the processor sets at a page fault.\<close>

record registers =
  r_int_no :: u32
  r_err_code :: u32
  r_eip :: u32
  r_eflags :: u32

definition kernel_panic :: "u8 list \<Rightarrow> registers \<Rightarrow> 'a machine_scheme \<Rightarrow> 'a machine_scheme run option" where
  "kernel_panic message r s = do {
     s \<leftarrow> terminal_writeIn [] s;
     s \<leftarrow> terminal_writeIn (bytes ''========================'') s;
     s \<leftarrow> terminal_writeIn (bytes ''      KERNEL PANIC'') s;
     s \<leftarrow> terminal_writeIn (bytes ''========================'') s;
     s \<leftarrow> terminal_writeIn [] s;
     s \<leftarrow> terminal_writeIn message s;
     s \<leftarrow> terminal_write (bytes ''EIP: '') s;
     s \<leftarrow> terminal_write_hex (r_eip r) s;
     s \<leftarrow> terminal_writeIn [] s;
     s \<leftarrow> terminal_write (bytes ''Error Code: '') s;
     s \<leftarrow> terminal_write_hex (r_err_code r) s;
     s \<leftarrow> terminal_writeIn [] s;
     s \<leftarrow> terminal_write (bytes ''EFLAGS: '') s;
     s \<leftarrow> terminal_write_hex (r_eflags r) s;
     s \<leftarrow> terminal_writeIn [] s;
     s \<leftarrow> terminal_write (bytes ''Interrupt Number: '') s;
     s \<leftarrow> terminal_write_hex (r_int_no r) s;
     s \<leftarrow> terminal_writeIn [] s;
     s \<leftarrow> terminal_writeIn (bytes ''System Halted.'') s;
     Some (halt s)
   }"

definition page_fault_handler :: "u32 \<Rightarrow> u32 \<Rightarrow> 'a machine_scheme \<Rightarrow> 'a machine_scheme run option" where
  "page_fault_handler cr2 error_code s = do {
     s \<leftarrow> terminal_writeIn [] s;
     s \<leftarrow> terminal_writeIn (bytes ''========================'') s;
     s \<leftarrow> terminal_writeIn (bytes ''      PAGE FAULT'') s;
     s \<leftarrow> terminal_writeIn (bytes ''========================'') s;
     s \<leftarrow> terminal_write (bytes ''Fault Address: '') s;
     s \<leftarrow> terminal_write_hex cr2 s;
     s \<leftarrow> terminal_writeIn [] s;
     s \<leftarrow> terminal_write (bytes ''Error Code: '') s;
     s \<leftarrow> terminal_write_hex error_code s;
     s \<leftarrow> terminal_writeIn [] s;
     s \<leftarrow> terminal_writeIn [] s;
     s \<leftarrow> terminal_write (bytes ''Present: '') s;
     s \<leftarrow> terminal_writeIn (bytes (if error_code AND 0x1 \<noteq> 0 then ''Yes'' else ''No'')) s;
     s \<leftarrow> terminal_write (bytes ''Access: '') s;
     s \<leftarrow> terminal_writeIn (bytes (if error_code AND 0x2 \<noteq> 0 then ''Write'' else ''Read'')) s;
     s \<leftarrow> terminal_write (bytes ''Mode: '') s;
     s \<leftarrow> terminal_writeIn (bytes (if error_code AND 0x4 \<noteq> 0 then ''User'' else ''Kernel'')) s;
     s \<leftarrow> terminal_write (bytes ''Reserved Bit: '') s;
     s \<leftarrow> terminal_writeIn (bytes (if error_code AND 0x8 \<noteq> 0 then ''Yes'' else ''No'')) s;
     s \<leftarrow> terminal_write (bytes ''Instruction Fetch: '') s;
     s \<leftarrow> terminal_writeIn (bytes (if error_code AND 0x10 \<noteq> 0 then ''Yes'' else ''No'')) s;
     s \<leftarrow> terminal_writeIn [] s;
     s \<leftarrow> terminal_writeIn (bytes ''System Halted.'') s;
     Some (halt s)
   }"

definition exception_names :: "string list" where
  "exception_names =
     [''Divide Error'', ''Debug'', ''NMI'', ''Breakpoint'', ''Overflow'', ''BOUND'', ''Invalid Opcode'',
      ''Device Not Available'', ''Double Fault'', ''Coprocessor Segment'', ''Invalid TSS'', ''Segment Not Present'',
      ''Stack Fault'', ''General Protection Fault'', ''Page Fault'', ''Reserved'', ''x87 Floating Point'',
      ''Alignment Check'', ''Machine Check'', ''SIMD Floating Point'', ''Virtualization'']"

definition exception_handler :: "u32 \<Rightarrow> registers \<Rightarrow> 'a machine_scheme \<Rightarrow> 'a machine_scheme run option" where
  "exception_handler cr2 r s =
     (if r_int_no r = 14 then page_fault_handler cr2 (r_err_code r) s
      else do {
        s \<leftarrow> terminal_write ([0x0A] @ bytes ''EXCEPTION!'' @ [0x0A]) s;
        if r_int_no r < 21 then kernel_panic (bytes (exception_names ! unat (r_int_no r))) r s
        else kernel_panic (bytes ''Unknown Exception'') r s
      })"

end
