(* ===== verification/Shell.thy ===== *)
theory Shell
  imports ShellText Machine FileOps
begin

text \<open>
  The commands of the shell, \<open>kernel/shell.c\<close>, on the system: the machine, the drives with the mounted
  file system (\<open>vol\<close>) and the disk handles. A command goes on, or stops the machine: \<open>Stop\<close> is \<open>cli\<close> with a loop of
  \<open>hlt\<close>, \<open>Trap n\<close> an exception with vector \<open>n\<close> (the page at 0xFFFFFFFF, to which \<open>pagefault\<close> writes, is not mapped
  by the kernel), \<open>Reset\<close> an interrupt with an empty descriptor table. The outer option is the run of the code:
  \<open>None\<close> when a loop over a cluster chain does not end. \<open>args\<close> is a C string without its terminator; the local
  buffer of \<open>cat\<close> is modelled with zeros in it, and only the bytes that were read are used.
\<close>

record system = machine +
  vol :: fs_state
  disks :: "disk_t list"

datatype 's ending = Go_On_With 's | Stop 's | Trap nat 's | Reset 's

type_synonym command = "u8 list \<Rightarrow> system \<Rightarrow> system ending option"

definition writeln :: "string \<Rightarrow> system \<Rightarrow> system option" where
  "writeln str s = terminal_writeIn (bytes str) s"

definition go_on :: "system option \<Rightarrow> system ending option" where
  "go_on r = map_option Go_On_With r"

text \<open>An operation of the file system on the volume of the system.\<close>

definition on_vol :: "(fs_state \<Rightarrow> ('r \<times> fs_state) option) \<Rightarrow> system \<Rightarrow> ('r \<times> system) option" where
  "on_vol f s = do { (r, v) \<leftarrow> f (vol s); Some (r, s\<lparr>vol := v\<rparr>) }"

section \<open>Stopping\<close>

definition halt_forever :: "system \<Rightarrow> system ending" where
  "halt_forever s = Stop (s\<lparr>kern := cli (kern s)\<rparr>)"

definition reboot_system :: "system \<Rightarrow> system ending option" where
  "reboot_system s = do {
     s \<leftarrow> writeln ''Rebooting...'' s;
     Some (Reset (s\<lparr>kern := cli (kern s)\<rparr>))
   }"

definition shutdown_system :: "system \<Rightarrow> system ending option" where
  "shutdown_system s = do {
     s \<leftarrow> writeln ''Shutting down...'' s;
     Some (halt_forever (outw 0x604 0x2000 s))
   }"

definition trigger_divide_error :: "system \<Rightarrow> system ending" where
  "trigger_divide_error s = Trap 0 s"

definition trigger_page_fault :: "system \<Rightarrow> system ending" where
  "trigger_page_fault s = Trap 14 s"

section \<open>Text commands\<close>

fun write_lines :: "u8 list list \<Rightarrow> system \<Rightarrow> system option" where
  "write_lines [] s = Some s"
| "write_lines (l # ls) s = do { s \<leftarrow> terminal_writeIn l s; write_lines ls s }"

definition help_lines :: "u8 list list" where
  "help_lines = map bytes
     ['''', ''Available commands: ''] @ [bytes ''-------------------'' @ [0x0A]] @ map bytes
     [''  help                    Shows this help message'',
      ''  about                   About MiyarOS'',
      ''  echo <msg>              Print text'',
      ''             > <file>     Write text to a file'',
      ''             >> <file>    Append text to a file'',
      ''  ls                      List files in the current directory'',
      ''  cd <dir>                Change current directory'',
      ''  pwd                     Print current working directory'',
      ''  touch <file>            Create a new file'',
      ''  cat <file>              Display the contents of a file'',
      ''  rm <file>               Delete a file'',
      ''  cp <src> <dest>         Copy a file'',
      ''  mv <src> <dest>         Move or rename a file'',
      ''  mkdir <dir>             Create a new directory'',
      ''  rmdir <dir>             Remove an empty directory'',
      ''  uptime                  Shows system uptime'',
      ''  clear                   Clear the screen'',
      ''  reboot                  Restart the system'',
      ''  shutdown                Halt the system'',
      '''']"

definition cmd_help :: command where
  "cmd_help args s = go_on (write_lines help_lines s)"

definition about_lines :: "u8 list list" where
  "about_lines = map bytes
     ['''', ''MiyarOS v0.4.0'', ''Kernel: 0.4.0'', ''Architecture: x86(32-bits)'', '''',
      ''A hobby operating system written from scratch'', ''in C and x86 Assembly.'', '''',
      ''Author: Tashfeen Miyar'', ''License: GNU General Public License V3.0(GPLv3)'', '''']"

definition cmd_about :: command where
  "cmd_about args s = go_on (write_lines about_lines s)"

definition cmd_clear :: command where
  "cmd_clear args s = Some (Go_On_With (terminal_clear s))"

definition cmd_pwd :: command where
  "cmd_pwd args s = go_on (terminal_writeIn (fs_get_current_path (vol s)) s)"

definition cmd_uptime :: command where
  "cmd_uptime args s =
     (let (t, s) = timer_ticks s
      in go_on (do { s \<leftarrow> write_uint32 (t div 100) s; writeln '' seconds'' s }))"

definition cmd_reboot :: command where
  "cmd_reboot args s = reboot_system s"

definition cmd_shutdown :: command where
  "cmd_shutdown args s = shutdown_system s"

definition cmd_exception :: command where
  "cmd_exception args s = Some (trigger_divide_error s)"

definition cmd_pagefault :: command where
  "cmd_pagefault args s = Some (trigger_page_fault s)"

section \<open>Commands on files\<close>

text \<open>\<open>while (get_next_argument(&args, buffer, sizeof(buffer)))\<close>: the operation on each argument, with a message
  when it fails.\<close>

function each_argument ::
  "(u8 list \<Rightarrow> fs_state \<Rightarrow> (bool \<times> fs_state) option) \<Rightarrow> u8 list \<Rightarrow> system \<Rightarrow> system option" where
  "each_argument f args s =
     (case get_next_argument args 64 of
        None \<Rightarrow> Some s
      | Some (name, rest) \<Rightarrow>
          (case on_vol (f name) s of
             None \<Rightarrow> None
           | Some (ok, s1) \<Rightarrow>
               (case (if ok then Some s1
                      else do { s2 \<leftarrow> terminal_write (bytes ''Failed: '') s1; terminal_writeIn name s2 }) of
                  None \<Rightarrow> None
                | Some s3 \<Rightarrow> each_argument f rest s3)))"
  by pat_completeness auto
termination
  by (relation "measure (\<lambda>(f, args, s). length args)") (auto dest: get_next_argument_shorter)

declare each_argument.simps [simp del]

definition cmd_each ::
  "string \<Rightarrow> (disk_t option \<Rightarrow> u8 list \<Rightarrow> fs_state \<Rightarrow> (bool \<times> fs_state) option) \<Rightarrow> command" where
  "cmd_each usage f args s = go_on
     (if args = [] then writeln usage s
      else let disk = disk_get (disks s) 0
           in if disk = None then writeln ''No disk available.'' s
              else each_argument (f disk) args s)"

definition cmd_touch :: command where
  "cmd_touch args s = cmd_each ''Usage: touch <file>'' file_create args s"

definition cmd_mkdir :: command where
  "cmd_mkdir args s = cmd_each ''Usage: mkdir <directory>'' directory_create args s"

definition cmd_rm :: command where
  "cmd_rm args s = cmd_each ''Usage: rm <file>'' file_delete args s"

definition cmd_rmdir :: command where
  "cmd_rmdir args s = cmd_each ''Usage: rmdir <directory>'' directory_delete args s"

text \<open>\<open>cmd_ls\<close>\<close>

partial_function (option) ls_loop :: "directory_t \<Rightarrow> system \<Rightarrow> system option" where
  "ls_loop dir s =
     (case on_vol (\<lambda>v. do { (e, dir, v) \<leftarrow> directory_next dir v; Some ((e, dir), v) }) s of
        None \<Rightarrow> None
      | Some ((entry, dir), s) \<Rightarrow>
          (case entry of
             None \<Rightarrow> Some s
           | Some e \<Rightarrow>
               (case terminal_writeIn (directory_get_name e) s of None \<Rightarrow> None | Some s \<Rightarrow> ls_loop dir s)))"

definition ls_directory :: "disk_t option \<Rightarrow> u32 \<Rightarrow> system \<Rightarrow> system option" where
  "ls_directory disk cluster s = do {
     (dir, s) \<leftarrow> on_vol (\<lambda>v. Some (directory_open disk cluster v)) s;
     (case dir of None \<Rightarrow> writeln ''Failed to open directory.'' s | Some d \<Rightarrow> ls_loop d s)
   }"

definition cmd_ls :: command where
  "cmd_ls args s = go_on
     (let disk = disk_get (disks s) 0
      in if disk = None then writeln ''No disk available.'' s
         else if args \<noteq> []
         then do {
           (l, s) \<leftarrow> on_vol (path_lookup disk args) s;
           (case lk_entry l of
              None \<Rightarrow> writeln ''Directory not found.'' s
            | Some directory \<Rightarrow>
                if de_attributes directory AND FAT32_ATTR_DIRECTORY = 0 then writeln ''Not a directory.'' s
                else ls_directory disk (directory_entry_cluster directory) s)
         }
         else ls_directory disk (fs_current_directory (vol s)) s)"

text \<open>\<open>cmd_cat\<close>: 512 bytes at most, and what is written ends at the first zero byte.\<close>

definition cmd_cat :: command where
  "cmd_cat args s = go_on
     (if args = [] then writeln ''Usage: cat <file>'' s
      else let disk = disk_get (disks s) 0
           in if disk = None then writeln ''No disk available.'' s
              else do {
                (l, s) \<leftarrow> on_vol (path_lookup disk args) s;
                (case lk_entry l of
                   None \<Rightarrow> writeln ''File not found.'' s
                 | Some entry \<Rightarrow>
                     if de_attributes entry AND FAT32_ATTR_DIRECTORY \<noteq> 0 then writeln ''Cannot read a directory.'' s
                     else case file_open disk (lookup_parent l) entry of
                       None \<Rightarrow> writeln ''Unable to open file.'' s
                     | Some file \<Rightarrow> do {
                         ((n, buffer), s) \<leftarrow> on_vol (\<lambda>v. do { (n, fl, buf, v) \<leftarrow> file_read file (replicate 513 0) 512 v; Some ((n, buf), v) }) s;
                         if n < 0 then writeln ''Read failed.'' s
                         else do {
                           s \<leftarrow> writeln '''' s;
                           s \<leftarrow> terminal_write (takeWhile (\<lambda>c. c \<noteq> 0) (take (nat n) buffer)) s;
                           writeln '''' s
                         }
                       })
              })"

definition two_arguments :: "u8 list \<Rightarrow> (u8 list \<times> u8 list) option" where
  "two_arguments args = do {
     (a, args) \<leftarrow> get_next_argument args 128;
     (b, args) \<leftarrow> get_next_argument args 128;
     if a = [] \<or> b = [] then None else Some (a, b)
   }"

definition cmd_cp :: command where
  "cmd_cp args s = go_on
     (case two_arguments args of
        None \<Rightarrow> writeln ''Usage: cp <source> <destination>'' s
      | Some (source, destination) \<Rightarrow>
          let disk = disk_get (disks s) 0
          in if disk = None then writeln ''No disk available.'' s
             else do {
               (ok, s) \<leftarrow> on_vol (file_copy disk source destination) s;
               if \<not> ok then writeln ''Copy failed.'' s else Some s
             })"

definition cmd_mv :: command where
  "cmd_mv args s = go_on
     (case two_arguments args of
        None \<Rightarrow> writeln ''Usage: mv <old> <new>'' s
      | Some (old_name, new_name) \<Rightarrow>
          let disk = disk_get (disks s) 0
          in if disk = None then writeln ''No disk available.'' s
             else do {
               (entry, s) \<leftarrow> on_vol (path_resolve disk old_name) s;
               if entry = None then writeln ''File not found.'' s
               else do {
                 (ok, s) \<leftarrow> on_vol (file_move disk old_name new_name) s;
                 if \<not> ok then writeln ''Move failed.'' s else Some s
               }
             })"

definition cmd_cd :: command where
  "cmd_cd args s = go_on
     (if args = [] then writeln ''Usage: cd <directory>'' s
      else if str_eq args (bytes ''.'') then Some s
      else let disk = disk_get (disks s) 0
           in if disk = None then writeln ''No disk available.'' s
              else do {
                (ok, s) \<leftarrow> on_vol (directory_change disk args) s;
                if \<not> ok then writeln ''Directory not found.'' s else Some s
              })"

section \<open>\<open>echo\<close>\<close>

text \<open>The parts of an \<open>echo\<close> line with a redirection: whether it appends, the text before the first greater sign
  without trailing spaces, and the file name behind it; \<open>None\<close> without a greater sign.\<close>

abbreviation greater_sign :: u8 where "greater_sign \<equiv> 0x3E"

fun drop_trailing :: "u8 list \<Rightarrow> nat \<Rightarrow> nat" where
  "drop_trailing args 0 = 0"
| "drop_trailing args (Suc n) = (if args ! n = space then drop_trailing args n else Suc n)"

definition parse_redirect :: "u8 list \<Rightarrow> (bool \<times> u8 list \<times> u8 list) option" where
  "parse_redirect args =
     (let redirect = length (takeWhile (\<lambda>c. c \<noteq> greater_sign) args)
      in if redirect = length args then None
         else let appending = (redirect + 1 < length args \<and> args ! (redirect + 1) = greater_sign);
                  text_length = drop_trailing args redirect;
                  text_length = (if text_length \<ge> 256 then 255 else text_length);
                  name = skip_spaces (drop (redirect + (if appending then 2 else 1)) args)
              in Some (appending, take text_length args, take 127 name))"

text \<open>\<open>echo_target\<close>: the lookup of the file, which is created if it does not exist. The string is the message when
  there is no file to write to.\<close>

definition echo_target :: "disk_t option \<Rightarrow> u8 list \<Rightarrow> system \<Rightarrow> ((string + lookup) \<times> system) option" where
  "echo_target disk filename s = do {
     (l, s) \<leftarrow> on_vol (path_lookup disk filename) s;
     if lk_entry l \<noteq> None then Some (Inr l, s)
     else do {
       (created, s) \<leftarrow> on_vol (file_create disk filename) s;
       if \<not> created then Some (Inl ''Failed to create file.'', s)
       else do {
         (l, s) \<leftarrow> on_vol (path_lookup disk filename) s;
         Some (if lk_entry l = None then Inl ''File not found.'' else Inr l, s)
       }
     }
   }"

definition write_text :: "bool \<Rightarrow> file_t \<Rightarrow> u8 list \<Rightarrow> system \<Rightarrow> (int \<times> system) option" where
  "write_text appending fl txt s =
     on_vol (\<lambda>v. do {
       (n, fl, v) \<leftarrow> (if appending then file_append fl txt (of_nat (length txt)) v
                      else file_write fl txt (of_nat (length txt)) v);
       Some (n, v) }) s"

definition cmd_echo :: command where
  "cmd_echo args s = go_on
     (case parse_redirect args of
        None \<Rightarrow> terminal_writeIn args s
      | Some (appending, txt, filename) \<Rightarrow>
          if filename = [] then writeln ''Usage: echo <text> > <file>'' s
          else let disk = disk_get (disks s) 0
               in if disk = None then writeln ''No disk available.'' s
                  else do {
                    (target, s) \<leftarrow> echo_target disk filename s;
                    (case target of
                       Inl msg \<Rightarrow> writeln msg s
                     | Inr l \<Rightarrow>
                         let entry = the (lk_entry l)
                         in if de_attributes entry AND FAT32_ATTR_DIRECTORY \<noteq> 0
                            then writeln ''Cannot write to a directory.'' s
                            else case file_open disk (lookup_parent l) entry of
                              None \<Rightarrow> writeln ''Unable to open file.'' s
                            | Some fl \<Rightarrow> do {
                                (written, s) \<leftarrow> write_text appending fl txt s;
                                if written < 0
                                then do {
                                  s \<leftarrow> writeln ''Write failed.'' s;
                                  s \<leftarrow> terminal_write_hex (word_of_int written) s;
                                  writeln '''' s
                                }
                                else Some s
                              })
                  })"

section \<open>Execution\<close>

definition command_table :: "(string \<times> command) list" where
  "command_table =
     [(''help'', cmd_help), (''about'', cmd_about), (''echo'', cmd_echo), (''clear'', cmd_clear), (''ls'', cmd_ls),
      (''touch'', cmd_touch), (''cat'', cmd_cat), (''mkdir'', cmd_mkdir), (''cp'', cmd_cp), (''mv'', cmd_mv),
      (''rm'', cmd_rm), (''rmdir'', cmd_rmdir), (''pwd'', cmd_pwd), (''cd'', cmd_cd), (''exception'', cmd_exception),
      (''pagefault'', cmd_pagefault), (''reboot'', cmd_reboot), (''shutdown'', cmd_shutdown), (''uptime'', cmd_uptime)]"

fun find_command :: "u8 list \<Rightarrow> (string \<times> command) list \<Rightarrow> command option" where
  "find_command w [] = None"
| "find_command w ((name, handler) # table) = (if streq w (bytes name) then Some handler else find_command w table)"

definition shell_execute :: command where
  "shell_execute input s =
     (if input = [] then go_on (writeln '''' s)
      else let (w, args) = split_command input
           in do {
             s \<leftarrow> writeln '''' s;
             (case find_command w command_table of
                Some handler \<Rightarrow> handler args s
              | None \<Rightarrow> go_on (do {
                  s \<leftarrow> terminal_write (bytes ''Unknown command: '') s;
                  s \<leftarrow> terminal_writeIn input s;
                  s \<leftarrow> writeln '''' s;
                  s \<leftarrow> terminal_writeIn (bytes ''Type '' @ [0x22] @ bytes ''help'' @ [0x22] @ bytes '' for a list of available commands.'') s;
                  writeln '''' s
                }))
           })"

end
