(* ===== verification/Ata.thy ===== *)
theory Ata
  imports PortIO Disk
begin

text \<open>
  The ATA driver at the level of its ports, \<open>kernel/drivers/ata.c\<close>. The waiting loops have no time-out:
  \<open>None\<close> means that the drive stays busy and the kernel hangs. A function that returns 0 or -1 is a
  Boolean, \<open>True\<close> for 0, except \<open>ata_identify\<close>, where the C value is the truth value. A sector buffer is
  the list of the 16-bit words that are transferred; \<open>words_bytes\<close> is the buffer as bytes.
\<close>

definition ata_base_port :: "ata_channel \<Rightarrow> u16" where
  "ata_base_port ch = (if ch = ATA_PRIMARY then 0x1F0 else 0x170)"

definition ata_read_status :: "ata_channel \<Rightarrow> 'a io_scheme \<Rightarrow> u8 \<times> 'a io_scheme" where
  "ata_read_status ch s = inb (ata_base_port ch + 7) s"

definition ata_delay_400ns :: "ata_channel \<Rightarrow> 'a io_scheme \<Rightarrow> 'a io_scheme" where
  "ata_delay_400ns ch s =
     (let p = ata_base_port ch;
          s = snd (inb (p + 7) s);
          s = snd (inb (p + 7) s);
          s = snd (inb (p + 7) s)
      in snd (inb (p + 7) s))"

definition drive_bits :: "ata_drive \<Rightarrow> u8" where
  "drive_bits d = (case d of ATA_MASTER \<Rightarrow> 0 | ATA_SLAVE \<Rightarrow> push_bit 4 1)"

definition ata_select_drive :: "ata_channel \<Rightarrow> ata_drive \<Rightarrow> 'a io_scheme \<Rightarrow> 'a io_scheme" where
  "ata_select_drive ch d s = ata_delay_400ns ch (outb (ata_base_port ch + 6) (0xA0 OR drive_bits d) s)"

definition ata_read_data :: "u16 \<Rightarrow> 'a io_scheme \<Rightarrow> u16 \<times> 'a io_scheme" where
  "ata_read_data base s = inw base s"

fun read_words :: "u16 \<Rightarrow> nat \<Rightarrow> 'a io_scheme \<Rightarrow> u16 list \<times> 'a io_scheme" where
  "read_words base 0 s = ([], s)"
| "read_words base (Suc n) s =
     (let (w, s) = ata_read_data base s; (ws, s) = read_words base n s in (w # ws, s))"

text \<open>\<open>do status = ata_read_status(channel); while (status & ATA_SR_BSY)\<close>\<close>

partial_function (option) wait_not_busy :: "ata_channel \<Rightarrow> 'a io_scheme \<Rightarrow> (u8 \<times> 'a io_scheme) option" where
  "wait_not_busy ch s =
     (let (status, s) = ata_read_status ch s
      in if status AND 0x80 \<noteq> 0 then wait_not_busy ch s else Some (status, s))"

definition ata_poll :: "ata_channel \<Rightarrow> 'a io_scheme \<Rightarrow> (bool \<times> 'a io_scheme) option" where
  "ata_poll ch s = do {
     let s = ata_delay_400ns ch s
     in do {
       (status, s) \<leftarrow> wait_not_busy ch s;
       if status AND 0x01 \<noteq> 0 then Some (False, s)
       else if status AND 0x20 \<noteq> 0 then Some (False, s)
       else if status AND 0x08 = 0 then Some (False, s)
       else Some (True, s)
     }
   }"

definition ata_wait_ready :: "ata_channel \<Rightarrow> 'a io_scheme \<Rightarrow> (bool \<times> 'a io_scheme) option" where
  "ata_wait_ready ch s = do {
     let s = ata_delay_400ns ch s
     in do {
       (status, s) \<leftarrow> wait_not_busy ch s;
       if status AND 0x01 \<noteq> 0 then Some (False, s)
       else if status AND 0x20 \<noteq> 0 then Some (False, s)
       else Some (True, s)
     }
   }"

section \<open>Identification\<close>

text \<open>The second waiting loop of \<open>ata_identify\<close>: \<open>True\<close> when data is ready, \<open>False\<close> at an error.\<close>

partial_function (option) wait_data :: "ata_channel \<Rightarrow> 'a io_scheme \<Rightarrow> (bool \<times> 'a io_scheme) option" where
  "wait_data ch s =
     (let (status, s) = ata_read_status ch s
      in if status AND 0x01 \<noteq> 0 then Some (False, s)
         else if status AND 0x08 \<noteq> 0 then Some (True, s)
         else wait_data ch s)"

text \<open>The result carries the new content of \<open>ata_identify_buffer\<close>.\<close>

definition ata_identify ::
  "ata_channel \<Rightarrow> ata_drive \<Rightarrow> u16 list \<Rightarrow> 'a io_scheme \<Rightarrow> (bool \<times> u16 list \<times> 'a io_scheme) option" where
  "ata_identify ch d buf s =
     (let base = ata_base_port ch;
          s = ata_delay_400ns ch (ata_select_drive ch d s);
          s = outb (base + 2) 0 s;
          s = outb (base + 3) 0 s;
          s = outb (base + 4) 0 s;
          s = outb (base + 5) 0 s;
          s = outb (base + 7) 0xEC s;
          (status, s) = ata_read_status ch s
      in if status = 0 then Some (False, buf, s)
         else do {
           (_, s) \<leftarrow> wait_not_busy ch s;
           let (mid, s) = inb (base + 4) s;
               (foreign, s) = (if mid \<noteq> 0 then (True, s) else let (high, s) = inb (base + 5) s in (high \<noteq> 0, s))
           in if foreign then Some (False, buf, s)
              else do {
                (ok, s) \<leftarrow> wait_data ch (outb 0x80 0 s);
                if \<not> ok then Some (False, buf, s)
                else let (ws, s) = read_words base 256 s in Some (True, ws, s)
              }
         })"

definition ata_parse_identify :: "u16 list \<Rightarrow> ata_device \<Rightarrow> ata_device" where
  "ata_parse_identify buf dev =
     dev\<lparr>model := concat (map (\<lambda>i. let w = buf ! (27 + i) in [ucast (drop_bit 8 w AND 0xFF), ucast (w AND 0xFF)]) [0..<20]) @ [0],
         sector_count := push_bit 16 (ucast (buf ! 61)) OR ucast (buf ! 60)\<rparr>"

definition ata_init :: "ata_device list \<times> u16 list" where
  "ata_init = (replicate 4 \<lparr>present = False, channel = ATA_PRIMARY, drive = ATA_MASTER, model = replicate 41 0, sector_count = 0\<rparr>,
     replicate 256 0)"

definition detect_device ::
  "ata_channel \<times> ata_drive \<Rightarrow> ata_device \<Rightarrow> u16 list \<Rightarrow> 'a io_scheme \<Rightarrow> (ata_device \<times> u16 list \<times> 'a io_scheme) option" where
  "detect_device = (\<lambda>(ch, d) dev buf s. do {
     let dev = dev\<lparr>channel := ch, drive := d\<rparr>
     in do {
       (found, buf, s) \<leftarrow> ata_identify ch d buf s;
       if found then Some (ata_parse_identify buf (dev\<lparr>present := True\<rparr>), buf, s)
       else Some (dev\<lparr>present := False\<rparr>, buf, s)
     }
   })"

fun detect_loop ::
  "(ata_channel \<times> ata_drive) list \<Rightarrow> nat \<Rightarrow> ata_device list \<Rightarrow> u16 list \<Rightarrow> 'a io_scheme \<Rightarrow>
     (ata_device list \<times> u16 list \<times> 'a io_scheme) option" where
  "detect_loop [] i devs buf s = Some (devs, buf, s)"
| "detect_loop (cd # cds) i devs buf s = do {
     (dev, buf, s) \<leftarrow> detect_device cd (devs ! i) buf s;
     detect_loop cds (Suc i) (devs[i := dev]) buf s
   }"

definition ata_detect_devices ::
  "ata_device list \<Rightarrow> u16 list \<Rightarrow> 'a io_scheme \<Rightarrow> (ata_device list \<times> u16 list \<times> 'a io_scheme) option" where
  "ata_detect_devices devs buf s =
     detect_loop [(ATA_PRIMARY, ATA_MASTER), (ATA_PRIMARY, ATA_SLAVE), (ATA_SECONDARY, ATA_MASTER), (ATA_SECONDARY, ATA_SLAVE)]
       0 devs buf s"

section \<open>Sector transfer\<close>

definition send_command :: "ata_device \<Rightarrow> u32 \<Rightarrow> u8 \<Rightarrow> 'a io_scheme \<Rightarrow> 'a io_scheme" where
  "send_command dev lba cmd s =
     (let base = ata_base_port (channel dev);
          s = outb (base + 6) (0xE0 OR drive_bits (drive dev) OR ucast (drop_bit 24 lba AND 0x0F)) s;
          s = ata_delay_400ns (channel dev) s;
          s = outb (base + 2) 1 s;
          s = outb (base + 3) (ucast (lba AND 0xFF)) s;
          s = outb (base + 4) (ucast (drop_bit 8 lba AND 0xFF)) s;
          s = outb (base + 5) (ucast (drop_bit 16 lba AND 0xFF)) s
      in outb (base + 7) cmd s)"

definition pio_read_sector ::
  "ata_device option \<Rightarrow> u32 \<Rightarrow> 'a io_scheme \<Rightarrow> (u16 list option \<times> 'a io_scheme) option" where
  "pio_read_sector dv lba s =
     (case dv of
        None \<Rightarrow> Some (None, s)
      | Some dev \<Rightarrow>
          if \<not> present dev then Some (None, s)
          else if lba \<ge> sector_count dev then Some (None, s)
          else do {
            (ok, s) \<leftarrow> ata_poll (channel dev) (send_command dev lba 0x20 s);
            if \<not> ok then Some (None, s)
            else let (ws, s) = read_words (ata_base_port (channel dev)) 256 s in Some (Some ws, s)
          })"

definition pio_write_sector ::
  "ata_device option \<Rightarrow> u32 \<Rightarrow> u16 list \<Rightarrow> 'a io_scheme \<Rightarrow> (bool \<times> 'a io_scheme) option" where
  "pio_write_sector dv lba ws s =
     (case dv of
        None \<Rightarrow> Some (False, s)
      | Some dev \<Rightarrow>
          if \<not> present dev then Some (False, s)
          else if lba \<ge> sector_count dev then Some (False, s)
          else do {
            (ok, s) \<leftarrow> ata_poll (channel dev) (send_command dev lba 0x30 s);
            if \<not> ok then Some (False, s)
            else ata_wait_ready (channel dev)
              (outb (ata_base_port (channel dev) + 7) 0xE7
                (fold (outw (ata_base_port (channel dev) + 0)) (take 256 ws) s))
          })"

definition words_bytes :: "u16 list \<Rightarrow> u8 list" where
  "words_bytes ws = concat (map u16_bytes ws)"

end
