(* ===== verification/DescTables.thy ===== *)
theory DescTables
  imports Prelude
begin

text \<open>
  The descriptor tables, \<open>kernel/arch/x86/gdt.c\<close> and \<open>kernel/arch/x86/idt.c\<close>. The addresses of the tables
  and of the interrupt stubs are parameters; \<open>lgdt\<close> and \<open>lidt\<close> load the registers \<open>gdtr\<close> and \<open>idtr\<close>.
\<close>

section \<open>Segments\<close>

record gdt_entry =
  limit_low :: u16
  base_low :: u16
  base_middle :: u8
  access :: u8
  granularity :: u8
  base_high :: u8

record table_ptr =
  tp_limit :: u16
  tp_base :: u32

definition gdt_set_gate :: "nat \<Rightarrow> u32 \<Rightarrow> u32 \<Rightarrow> u8 \<Rightarrow> u8 \<Rightarrow> gdt_entry list \<Rightarrow> gdt_entry list" where
  "gdt_set_gate num base limit acc gran gdt =
     gdt[num := \<lparr>limit_low = ucast (limit AND 0xFFFF), base_low = ucast (base AND 0xFFFF),
       base_middle = ucast (drop_bit 16 base AND 0xFF), access = acc,
       granularity = ucast (drop_bit 16 limit AND 0x0F) OR (gran AND 0xF0), base_high = ucast (drop_bit 24 base AND 0xFF)\<rparr>]"

definition gdt_init :: "u32 \<Rightarrow> gdt_entry list \<Rightarrow> gdt_entry list \<times> table_ptr" where
  "gdt_init gdt_address gdt =
     (let gp = \<lparr>tp_limit = 3 * 8 - 1, tp_base = gdt_address\<rparr>;
          gdt = gdt_set_gate 0 0 0 0 0 gdt;
          gdt = gdt_set_gate 1 0 0xFFFFFFFF 0x9A 0xCF gdt;
          gdt = gdt_set_gate 2 0 0xFFFFFFFF 0x92 0xCF gdt
      in (gdt, gp))"

section \<open>Gates\<close>

record idt_entry =
  offset_low :: u16
  selector :: u16
  gate_zero :: u8
  type_attr :: u8
  offset_high :: u16

definition idt_set_gate :: "nat \<Rightarrow> u32 \<Rightarrow> u16 \<Rightarrow> u8 \<Rightarrow> idt_entry list \<Rightarrow> idt_entry list" where
  "idt_set_gate num handler sel flags idt =
     idt[num := \<lparr>offset_low = ucast (handler AND 0xFFFF), selector = sel, gate_zero = 0, type_attr = flags,
       offset_high = ucast (drop_bit 16 handler AND 0xFFFF)\<rparr>]"

definition idt_init :: "u32 \<Rightarrow> (nat \<Rightarrow> u32) \<Rightarrow> (nat \<Rightarrow> u32) \<Rightarrow> idt_entry list \<Rightarrow> idt_entry list \<times> table_ptr" where
  "idt_init idt_address isr_stub irq_stub idt =
     (let idtp = \<lparr>tp_limit = 256 * 8 - 1, tp_base = idt_address\<rparr>;
          idt = fold (\<lambda>n. idt_set_gate n (isr_stub n) 0x08 0x8E) [0..<32] idt;
          idt = fold (\<lambda>n. idt_set_gate (32 + n) (irq_stub n) 0x08 0x8E) [0..<16] idt
      in (idt, idtp))"

section \<open>What the processor reads\<close>

definition segment_base :: "gdt_entry \<Rightarrow> u32" where
  "segment_base e = ucast (base_low e) OR push_bit 16 (ucast (base_middle e)) OR push_bit 24 (ucast (base_high e))"

text \<open>The limit counts pages when the granularity bit is set.\<close>

definition segment_limit :: "gdt_entry \<Rightarrow> u32" where
  "segment_limit e =
     (let l = ucast (limit_low e) OR push_bit 16 (ucast (granularity e AND 0x0F))
      in if granularity e AND 0x80 \<noteq> 0 then push_bit 12 l OR 0xFFF else l)"

definition gate_offset :: "idt_entry \<Rightarrow> u32" where
  "gate_offset g = ucast (offset_low g) OR push_bit 16 (ucast (offset_high g))"

lemma halves: "ucast (ucast (x AND 0xFFFF :: u32) :: u16) OR push_bit 16 (ucast (ucast (drop_bit 16 x AND 0xFFFF) :: u16)) = x"
proof (rule bit_word_eqI)
  fix n :: nat
  assume n: "n < LENGTH(32)"
  have m: "(0xFFFF :: u32) = mask 16" by (simp add: mask_eq_exp_minus_1)
  consider "n < 16" | "16 \<le> n" by linarith
  then show "bit (ucast (ucast (x AND 0xFFFF :: u32) :: u16) OR push_bit 16 (ucast (ucast (drop_bit 16 x AND 0xFFFF) :: u16)) :: u32) n = bit x n"
    unfolding m using n by cases (auto simp: bit_simps)
qed

lemma gate_offset_set: "num < length idt \<Longrightarrow> gate_offset (idt_set_gate num h sel fl idt ! num) = h"
  by (simp add: idt_set_gate_def gate_offset_def halves)

lemma fold_gates:
  fixes idt :: "idt_entry list"
  assumes "a + n \<le> length idt"
  shows "length (fold (\<lambda>k. idt_set_gate (a + k) (h k) sel fl) [0..<n] idt) = length idt \<and>
    (\<forall>i < length idt. fold (\<lambda>k. idt_set_gate (a + k) (h k) sel fl) [0..<n] idt ! i =
       (if a \<le> i \<and> i < a + n
        then \<lparr>offset_low = ucast (h (i - a) AND 0xFFFF), selector = sel, gate_zero = 0, type_attr = fl,
          offset_high = ucast (drop_bit 16 (h (i - a)) AND 0xFFFF)\<rparr>
        else idt ! i))"
  using assms
proof (induction n)
  case (Suc n)
  then show ?case by (auto simp: idt_set_gate_def nth_list_update less_Suc_eq)
qed (use le_less_trans in auto)

text \<open>After \<open>gdt_init\<close> the processor finds a null descriptor and two ring-0 segments, code and data, that both start
  at address 0 and cover all 4 GiB.\<close>

theorem gdt_flat:
  assumes "length gdt = 3" "gdt_init a gdt = (gdt', gp)"
  shows "length gdt' = 3 \<and> unat (tp_limit gp) + 1 = 8 * length gdt' \<and> tp_base gp = a \<and>
    access (gdt' ! 0) = 0 \<and> access (gdt' ! 1) = 0x9A \<and> access (gdt' ! 2) = 0x92 \<and>
    (\<forall>i \<in> {1, 2}. segment_base (gdt' ! i) = 0 \<and> segment_limit (gdt' ! i) = 0xFFFFFFFF)"
proof -
  obtain x y z where g: "gdt = [x, y, z]" using assms(1) by (auto simp: numeral_eq_Suc length_Suc_conv)
  show ?thesis
    using assms(2) unfolding g gdt_init_def Let_def gdt_set_gate_def by (auto simp: segment_base_def segment_limit_def)
qed

theorem gdt_flat_witness:
  "let gdt' = fst (gdt_init 0x9000 (replicate 3 \<lparr>limit_low = 0, base_low = 0, base_middle = 0, access = 0, granularity = 0, base_high = 0\<rparr>))
   in segment_limit (gdt' ! 1) = 0xFFFFFFFF"
  using gdt_flat [of "replicate 3 \<lparr>limit_low = 0, base_low = 0, base_middle = 0, access = 0, granularity = 0, base_high = 0\<rparr>" "0x9000"]
  by (simp add: Let_def) (metis surjective_pairing)

text \<open>After \<open>idt_init\<close> every vector below 48 leads to its own stub - the exceptions 0 to 31 and the lines 0 to 15 behind
  them - through a present ring-0 interrupt gate of the code segment; the other gates are left alone, and
  the table register covers all 256 gates.\<close>

theorem idt_dispatches:
  assumes "length idt = 256" "idt_init a isr_stub irq_stub idt = (idt', p)" "n < 256"
  shows "length idt' = 256 \<and> unat (tp_limit p) + 1 = 8 * 256 \<and> tp_base p = a \<and>
    (if n < 48
     then gate_offset (idt' ! n) = (if n < 32 then isr_stub n else irq_stub (n - 32)) \<and> selector (idt' ! n) = 0x08 \<and>
       type_attr (idt' ! n) = 0x8E
     else idt' ! n = idt ! n)"
proof -
  let ?i1 = "fold (\<lambda>n. idt_set_gate n (isr_stub n) 0x08 0x8E) [0..<32] idt"
  have i1: "length ?i1 = 256" "\<And>i. i < 256 \<Longrightarrow> ?i1 ! i = (if i < 32 then \<lparr>offset_low = ucast (isr_stub i AND 0xFFFF),
      selector = 0x08, gate_zero = 0, type_attr = 0x8E, offset_high = ucast (drop_bit 16 (isr_stub i) AND 0xFFFF)\<rparr> else idt ! i)"
    using fold_gates [of 0 32 idt isr_stub "0x08" "0x8E"] assms(1) by auto
  have "idt' = fold (\<lambda>n. idt_set_gate (32 + n) (irq_stub n) 0x08 0x8E) [0..<16] ?i1" "p = \<lparr>tp_limit = 256 * 8 - 1, tp_base = a\<rparr>"
    using assms(2) by (simp_all add: idt_init_def Let_def)
  then show ?thesis
    using fold_gates [of 32 16 ?i1 irq_stub "0x08" "0x8E"] i1 assms(3) by (auto simp: gate_offset_def halves)
qed

theorem idt_dispatches_witness:
  "gate_offset (fst (idt_init 0x8000 (\<lambda>n. 0x101000 + of_nat n) (\<lambda>n. 0x102000 + of_nat n)
     (replicate 256 \<lparr>offset_low = 0, selector = 0, gate_zero = 0, type_attr = 0, offset_high = 0\<rparr>)) ! 33) = 0x102001"
  using idt_dispatches [OF _ surjective_pairing, of "replicate 256 \<lparr>offset_low = 0, selector = 0, gate_zero = 0, type_attr = 0, offset_high = 0\<rparr>"
    33 "0x8000" "\<lambda>n. 0x101000 + of_nat n" "\<lambda>n. 0x102000 + of_nat n"] by simp

end
