(* ===== verification/Multiboot.thy ===== *)
theory Multiboot
  imports Pmm
begin

text \<open>
  The memory map that the boot loader leaves in memory, \<open>kernel/memory/multiboot.c\<close>. Physical memory is
  a function from addresses to bytes. The property of the parser: from the bytes of a list of map entries
  it fills the table of memory regions with the first 32 of them.
\<close>

record multiboot_info_t =
  mb_flags :: u32
  mem_lower :: u32
  mem_upper :: u32
  boot_device :: u32
  cmdline :: u32
  mods_count :: u32
  mods_addr :: u32
  syms :: "u32 list"
  mmap_length :: u32
  mmap_addr :: u32

record multiboot_memory_map_t =
  entry_size :: u32
  entry_addr :: u64
  entry_len :: u64
  entry_type :: u32

type_synonym ram = "u32 \<Rightarrow> u8"

definition ram_u32 :: "ram \<Rightarrow> u32 \<Rightarrow> u32" where
  "ram_u32 m a = get_u32 [m a, m (a + 1), m (a + 2), m (a + 3)] 0"

definition ram_u64 :: "ram \<Rightarrow> u32 \<Rightarrow> u64" where
  "ram_u64 m a = ucast (ram_u32 m a) OR push_bit 32 (ucast (ram_u32 m (a + 4)))"

definition read_entry :: "ram \<Rightarrow> u32 \<Rightarrow> multiboot_memory_map_t" where
  "read_entry m a =
     \<lparr>entry_size = ram_u32 m a, entry_addr = ram_u64 m (a + 4), entry_len = ram_u64 m (a + 12),
      entry_type = ram_u32 m (a + 20)\<rparr>"

definition multiboot_mmap_first :: "multiboot_info_t \<Rightarrow> u32" where
  "multiboot_mmap_first mbi = mmap_addr mbi"

definition multiboot_mmap_next :: "ram \<Rightarrow> u32 \<Rightarrow> u32" where
  "multiboot_mmap_next m entry = entry + entry_size (read_entry m entry) + 4"

function mmap_loop :: "ram \<Rightarrow> u32 \<Rightarrow> u32 \<Rightarrow> memory_map \<Rightarrow> memory_map" where
  "mmap_loop m entry end_addr s =
     (if entry < end_addr \<and> memory_region_count s < MAX_MEMORY_REGIONS
      then let e = read_entry m entry;
               r = \<lparr>region_base = entry_addr e, region_length = entry_len e, region_type = ucast (entry_type e)\<rparr>;
               s = s\<lparr>memory_regions := (memory_regions s)[unat (memory_region_count s) := r],
                     memory_region_count := memory_region_count s + 1\<rparr>
           in mmap_loop m (multiboot_mmap_next m entry) end_addr s
      else s)"
  by pat_completeness auto
termination
  by (relation "measure (\<lambda>(m, entry, end_addr, s). 32 - unat (memory_region_count s))")
    (auto simp: word_less_nat_alt unat_word_ariths)

declare mmap_loop.simps [simp del]

definition multiboot_print_memory_map :: "ram \<Rightarrow> multiboot_info_t \<Rightarrow> memory_map \<Rightarrow> memory_map" where
  "multiboot_print_memory_map m mbi s =
     (let entry = multiboot_mmap_first mbi;
          end_addr = mmap_addr mbi + mmap_length mbi
      in mmap_loop m entry end_addr (s\<lparr>memory_region_count := 0\<rparr>))"

section \<open>The bytes of a memory map\<close>

definition u64_bytes :: "u64 \<Rightarrow> u8 list" where
  "u64_bytes v = u32_bytes (ucast v) @ u32_bytes (ucast (drop_bit 32 v))"

text \<open>An entry is followed by the padding that its size asks for beyond the 20 bytes of its fields.\<close>

definition entry_bytes :: "multiboot_memory_map_t \<Rightarrow> u8 list" where
  "entry_bytes e =
     u32_bytes (entry_size e) @ u64_bytes (entry_addr e) @ u64_bytes (entry_len e) @ u32_bytes (entry_type e) @
     replicate (unat (entry_size e) - 20) 0"

definition in_ram :: "ram \<Rightarrow> u32 \<Rightarrow> u8 list \<Rightarrow> bool" where
  "in_ram m a bs \<longleftrightarrow> (\<forall>i < length bs. m (a + of_nat i) = bs ! i)"

definition region_of :: "multiboot_memory_map_t \<Rightarrow> memory_region" where
  "region_of e = \<lparr>region_base = entry_addr e, region_length = entry_len e, region_type = ucast (entry_type e)\<rparr>"

lemma length_u32_bytes [simp]: "length (u32_bytes v) = 4"
  by (simp add: u32_bytes_def)

lemma length_u64_bytes [simp]: "length (u64_bytes v) = 8"
  by (simp add: u64_bytes_def)

lemma length_entry_bytes: "20 \<le> unat (entry_size e) \<Longrightarrow> length (entry_bytes e) = unat (entry_size e) + 4"
  by (simp add: entry_bytes_def)

lemma in_ram_append: "in_ram m a (bs @ cs) \<longleftrightarrow> in_ram m a bs \<and> in_ram m (a + of_nat (length bs)) cs"
proof
  assume h: "in_ram m a (bs @ cs)"
  have "m (a + of_nat (length bs) + of_nat i) = cs ! i" if "i < length cs" for i
    using h [unfolded in_ram_def, rule_format, of "length bs + i"] that by (simp add: add.assoc)
  moreover have "m (a + of_nat i) = bs ! i" if "i < length bs" for i
    using h [unfolded in_ram_def, rule_format, of i] that by (simp add: nth_append)
  ultimately show "in_ram m a bs \<and> in_ram m (a + of_nat (length bs)) cs" by (simp add: in_ram_def)
next
  assume h: "in_ram m a bs \<and> in_ram m (a + of_nat (length bs)) cs"
  have "m (a + of_nat i) = (bs @ cs) ! i" if "i < length (bs @ cs)" for i
  proof (cases "i < length bs")
    case True
    then show ?thesis using h by (simp add: in_ram_def nth_append)
  next
    case False
    then obtain j where "i = length bs + j" using le_Suc_ex not_less by blast
    then show ?thesis using h that by (simp add: in_ram_def add.assoc [symmetric])
  qed
  then show "in_ram m a (bs @ cs)" by (simp add: in_ram_def)
qed

lemma ram_u32_in_ram: "in_ram m a (u32_bytes v) \<Longrightarrow> ram_u32 m a = v"
proof -
  assume h: "in_ram m a (u32_bytes v)"
  have "m (a + of_nat i) = u32_bytes v ! i" if "i < 4" for i using h that by (simp add: in_ram_def)
  from this [of 0] this [of 1] this [of 2] this [of 3]
  show ?thesis unfolding ram_u32_def by (intro get_u32_of_bytes) (simp_all add: u32_bytes_def)
qed

lemma ram_u64_in_ram: "in_ram m a (u64_bytes v) \<Longrightarrow> ram_u64 m a = v"
proof -
  assume "in_ram m a (u64_bytes v)"
  then have "ram_u32 m a = ucast v" "ram_u32 m (a + 4) = ucast (drop_bit 32 v)"
    by (auto simp: u64_bytes_def in_ram_append intro: ram_u32_in_ram)
  then show ?thesis
    by (auto simp: ram_u64_def intro!: bit_word_eqI) (auto simp: bit_simps)
qed

lemma read_entry_in_ram:
  assumes "in_ram m a (entry_bytes e)"
  shows "read_entry m a = e"
proof -
  have "in_ram m a (u32_bytes (entry_size e))" "in_ram m (a + 4) (u64_bytes (entry_addr e))"
    "in_ram m (a + 12) (u64_bytes (entry_len e))" "in_ram m (a + 20) (u32_bytes (entry_type e))"
    using assms by (simp_all add: entry_bytes_def in_ram_append add.assoc)
  then show ?thesis by (simp add: read_entry_def ram_u32_in_ram ram_u64_in_ram)
qed

section \<open>Parsing\<close>

lemma mmap_loop_entries:
  assumes "in_ram m a (concat (map entry_bytes es))" "\<forall>e \<in> set es. 20 \<le> unat (entry_size e)"
    and "unat a + length (concat (map entry_bytes es)) < 2 ^ 32" "end_addr = a + of_nat (length (concat (map entry_bytes es)))"
    and "length (memory_regions s) = 32" "memory_region_count s \<le> 32"
  shows "known_regions (mmap_loop m a end_addr s) = take 32 (known_regions s @ map region_of es) \<and>
    memory_region_count (mmap_loop m a end_addr s) \<le> 32 \<and> length (memory_regions (mmap_loop m a end_addr s)) = 32"
  using assms
proof (induction es arbitrary: a s)
  case Nil
  then show ?case
    by (subst mmap_loop.simps, subst mmap_loop.simps, subst mmap_loop.simps) (simp add: known_regions_def word_le_nat_alt)
next
  case (Cons e es)
  let ?c = "memory_region_count s" and ?n = "length (entry_bytes e)"
  let ?s = "s\<lparr>memory_regions := (memory_regions s)[unat ?c := region_of e], memory_region_count := ?c + 1\<rparr>"
  have n: "?n = unat (entry_size e) + 4" using Cons.prems by (simp add: length_entry_bytes)
  have e: "read_entry m a = e" "in_ram m (a + of_nat ?n) (concat (map entry_bytes es))"
    using Cons.prems(1) by (simp_all add: in_ram_append read_entry_in_ram)
  have nx: "multiboot_mmap_next m a = a + of_nat ?n" by (simp add: multiboot_mmap_next_def e n add.assoc)
  have un: "unat (a + of_nat ?n) = unat a + ?n"
    using Cons.prems(3) by (simp add: unat_word_ariths unat_of_nat)
  have lt: "a < end_addr"
    using Cons.prems(3,4) n by (simp add: word_less_nat_alt unat_word_ariths unat_of_nat)
  show ?case
  proof (cases "?c < 32")
    case True
    then have c: "unat (?c + 1) = Suc (unat ?c)" "unat ?c < 32" by (simp_all add: word_less_Suc_unat word_less_nat_alt)
    have "known_regions ?s = known_regions s @ [region_of e]"
      using c Cons.prems(5) by (simp add: known_regions_def take_Suc_update)
    moreover have "mmap_loop m a end_addr s = mmap_loop m (a + of_nat ?n) end_addr ?s"
      using True lt by (subst mmap_loop.simps) (simp add: e nx region_of_def)
    moreover have "known_regions (mmap_loop m (a + of_nat ?n) end_addr ?s) = take 32 (known_regions ?s @ map region_of es) \<and>
        memory_region_count (mmap_loop m (a + of_nat ?n) end_addr ?s) \<le> 32 \<and>
        length (memory_regions (mmap_loop m (a + of_nat ?n) end_addr ?s)) = 32"
      using Cons.prems e un c by (intro Cons.IH) (simp_all add: word_le_nat_alt add.assoc)
    ultimately show ?thesis by simp
  next
    case False
    then have "?c = 32" using Cons.prems(6) by (simp add: order_le_less)
    moreover from this have "length (known_regions s) = 32" using Cons.prems(5) by (simp add: known_regions_def)
    moreover have "mmap_loop m a end_addr s = s" using False by (subst mmap_loop.simps) simp
    ultimately show ?thesis using Cons.prems by simp
  qed
qed

lemma mmap_parsed:
  assumes "in_ram m (mmap_addr mbi) (concat (map entry_bytes es))"
    and "\<And>e. e \<in> set es \<Longrightarrow> 20 \<le> unat (entry_size e)"
    and "unat (mmap_length mbi) = length (concat (map entry_bytes es))"
    and "unat (mmap_addr mbi) + unat (mmap_length mbi) < 2 ^ 32"
    and "length (memory_regions s) = 32"
  shows "known_regions (multiboot_print_memory_map m mbi s) = take 32 (map region_of es) \<and>
    length (memory_regions (multiboot_print_memory_map m mbi s)) = 32"
proof -
  have "mmap_addr mbi + mmap_length mbi = mmap_addr mbi + of_nat (length (concat (map entry_bytes es)))"
    by (simp only: assms(3) [symmetric] word_unat_eq_iff unat_word_ariths) simp
  with mmap_loop_entries [of m "mmap_addr mbi" es "mmap_addr mbi + mmap_length mbi" "s\<lparr>memory_region_count := 0\<rparr>"] assms
  show ?thesis
    by (simp add: multiboot_print_memory_map_def multiboot_mmap_first_def known_regions_def)
qed


definition demo_entries :: "multiboot_memory_map_t list" where
  "demo_entries = [\<lparr>entry_size = 20, entry_addr = 0, entry_len = 0x9FC00, entry_type = 1\<rparr>,
     \<lparr>entry_size = 24, entry_addr = 0x100000, entry_len = 0x700000, entry_type = 1\<rparr>]"

definition demo_bytes :: ram where
  "demo_bytes a = (let bs = concat (map entry_bytes demo_entries)
     in if unat a < 0x1000 \<or> unat a - 0x1000 \<ge> length bs then 0 else bs ! (unat a - 0x1000))"

definition demo_info :: multiboot_info_t where
  "demo_info = \<lparr>mb_flags = 0x40, mem_lower = 0, mem_upper = 0, boot_device = 0, cmdline = 0, mods_count = 0,
     mods_addr = 0, syms = [0, 0, 0, 0], mmap_length = 52, mmap_addr = 0x1000\<rparr>"

lemma demo_in_ram: "in_ram demo_bytes (mmap_addr demo_info) (concat (map entry_bytes demo_entries))"
proof -
  have l: "length (concat (map entry_bytes demo_entries)) = 52" by (simp add: demo_entries_def length_entry_bytes)
  show ?thesis
    unfolding in_ram_def l
  proof (intro allI impI)
    fix i :: nat
    assume i: "i < 52"
    have "unat (0x1000 + of_nat i :: u32) = 0x1000 + i" using i by (simp add: unat_word_ariths unat_of_nat)
    then show "demo_bytes (mmap_addr demo_info + of_nat i) = concat (map entry_bytes demo_entries) ! i"
      using i by (simp add: demo_bytes_def demo_info_def l)
  qed
qed


end
