(* ===== verification/KernelMain.thy ===== *)
theory KernelMain
  imports Shell Ata DescTables Multiboot SpaceProps
begin

text \<open>
  \<open>kernel_main\<close> of \<open>kernel/kernel.c\<close>: the boot sequence, and the loop that collects a line from the
  keyboard and gives it to the shell. What the linker, the assembly files and the boot loader provide is
  the record \<open>platform\<close>.
\<close>

record platform =
  pf_layout :: layout
  pf_ram :: ram
  pf_idle_entry :: u32
  pf_kernel_name :: "nat \<Rightarrow> u8"
  pf_gdt_address :: u32
  pf_idt_address :: u32
  pf_isr_stub :: "nat \<Rightarrow> u32"
  pf_irq_stub :: "nat \<Rightarrow> u32"

record booting =
  sys :: system
  regions :: memory_map
  gdt :: "gdt_entry list"
  gdtr :: table_ptr
  idt :: "idt_entry list"
  idtr :: table_ptr
  ata_devices :: "ata_device list"
  ata_identify_buffer :: "u16 list"

definition upd_sys :: "(system \<Rightarrow> system) \<Rightarrow> booting \<Rightarrow> booting" where
  "upd_sys f b = b\<lparr>sys := f (sys b)\<rparr>"

definition with_sys :: "(system \<Rightarrow> system option) \<Rightarrow> booting \<Rightarrow> booting option" where
  "with_sys f b = do { s \<leftarrow> f (sys b); Some (b\<lparr>sys := s\<rparr>) }"

definition upd_kern :: "(kstate \<Rightarrow> kstate) \<Rightarrow> booting \<Rightarrow> booting" where
  "upd_kern f b = upd_sys (\<lambda>s. s\<lparr>kern := f (kern s)\<rparr>) b"

definition with_kern :: "(kstate \<Rightarrow> kstate option) \<Rightarrow> booting \<Rightarrow> booting option" where
  "with_kern f b = with_sys (\<lambda>s. do { k \<leftarrow> f (kern s); Some (s\<lparr>kern := k\<rparr>) }) b"

section \<open>The boot sequence\<close>

definition boot_memory :: "platform \<Rightarrow> multiboot_info_t \<Rightarrow> booting \<Rightarrow> booting option" where
  "boot_memory pf mbi b =
     (let b = b\<lparr>regions := multiboot_print_memory_map (pf_ram pf) mbi (regions b)\<rparr>
      in with_kern (\<lambda>k. do { m \<leftarrow> memory_init (pf_layout pf) (regions b) (mm k); Some (k\<lparr>mm := m\<rparr>) }) b)"

definition banner :: "u8 list list" where
  "banner =
     [bytes ''============================================================'' @ [0x0A],
      bytes ''                        MIYAR OS'',
      bytes ''                         v0.4.0'' @ [0x0A],
      bytes ''============================================================'' @ [0x0A],
      [], bytes ''Booting kernel...'']"

definition boot_tables :: "platform \<Rightarrow> booting \<Rightarrow> booting option" where
  "boot_tables pf b = do {
     let (g, gp) = gdt_init (pf_gdt_address pf) (gdt b)
     in do {
       b \<leftarrow> with_sys (writeln ''Loading GDT....................... [ OK ]'') (b\<lparr>gdt := g, gdtr := gp\<rparr>);
       let (i, ip) = idt_init (pf_idt_address pf) (pf_isr_stub pf) (pf_irq_stub pf) (idt b)
       in with_sys (writeln ''Loading IDT....................... [ OK ]'') (b\<lparr>idt := i, idtr := ip\<rparr>)
     }
   }"

definition boot_devices :: "booting \<Rightarrow> booting option" where
  "boot_devices b = do {
     b \<leftarrow> with_sys (writeln ''Initializing PIC.................. [ OK ]'') (upd_sys pic_init b);
     b \<leftarrow> with_sys (writeln ''Initializing Keyboard............. [ OK ]'')
            (upd_sys (\<lambda>s. s\<lparr>kbd := keyboard_init (kbd s)\<rparr>) b);
     b \<leftarrow> with_sys (writeln ''Initializing Timer................ [ OK ]'') (upd_sys timer_init b);
     b \<leftarrow> with_sys (writeln ''Initializing ATA.................. [ OK ]'')
            (b\<lparr>ata_devices := fst ata_init, ata_identify_buffer := snd ata_init\<rparr>);
     (devs, buf, s) \<leftarrow> ata_detect_devices (ata_devices b) (ata_identify_buffer b) (sys b);
     Some (b\<lparr>ata_devices := devs, ata_identify_buffer := buf, sys := s\<lparr>disks := disk_init devs\<rparr>\<rparr>)
   }"

definition boot_filesystem :: "booting \<Rightarrow> booting option" where
  "boot_filesystem b =
     (let disk = disk_get (disks (sys b)) 0
      in do {
        b \<leftarrow> with_sys (writeln (if disk \<noteq> None then ''ATA Drive......................... [ OK ]''
                              else ''ATA Drive......................... [FAIL]'')) b;
        let (mounted, v) = fs_mount disk (fs_init (vol (sys b)))
        in with_sys (writeln (if mounted then ''Mounting filesystem............... [ OK ]''
                              else ''Mounting filesystem............... [FAIL]''))
             (upd_sys (\<lambda>s. s\<lparr>vol := v\<rparr>) b)
      })"

definition boot_processes :: "platform \<Rightarrow> booting \<Rightarrow> booting option" where
  "boot_processes pf b = do {
     b \<leftarrow> with_kern (process_init (pf_layout pf) (pf_kernel_name pf)) b;
     b \<leftarrow> with_kern (scheduler_init (pf_idle_entry pf)) b;
     Some (upd_kern sti b)
   }"

definition ready_lines :: "u8 list list" where
  "ready_lines = [[], [], bytes ''System initialized successfully.'',
     bytes ''Type '' @ [0x22] @ bytes ''help'' @ [0x22] @ bytes '' to get started.'', []]"

definition stop_with :: "string \<Rightarrow> booting \<Rightarrow> booting ending option" where
  "stop_with msg b = do { b \<leftarrow> with_sys (writeln msg) (upd_sys terminal_init b); Some (Stop b) }"

definition kernel_boot :: "platform \<Rightarrow> u32 \<Rightarrow> multiboot_info_t \<Rightarrow> booting \<Rightarrow> booting ending option" where
  "kernel_boot pf magic mbi b =
     (if magic \<noteq> 0x2BADB002 then stop_with ''ERROR: Invalid bootloader magic number.'' b
      else if mb_flags mbi AND push_bit 6 1 = 0 then stop_with ''ERROR: memory map not provided.'' b
      else do {
        b \<leftarrow> boot_memory pf mbi b;
        b \<leftarrow> with_sys (write_lines banner) (upd_sys (\<lambda>s. terminal_init (serial_init s)) b);
        b \<leftarrow> boot_tables pf b;
        b \<leftarrow> boot_devices b;
        b \<leftarrow> boot_filesystem b;
        b \<leftarrow> boot_processes pf b;
        b \<leftarrow> with_sys (write_lines ready_lines) b;
        b \<leftarrow> with_sys terminal_prompt b;
        Some (Go_On_With b)
      })"

section \<open>The input loop\<close>

text \<open>The local variables \<open>input\<close> and \<open>index\<close>, and the reaction to one character.\<close>

type_synonym line_state = "u8 list \<times> nat"

definition map_ending :: "('a \<Rightarrow> 'b) \<Rightarrow> 'a ending \<Rightarrow> 'b ending" where
  "map_ending f e =
     (case e of Go_On_With s \<Rightarrow> Go_On_With (f s) | Stop s \<Rightarrow> Stop (f s) | Trap n s \<Rightarrow> Trap n (f s) | Reset s \<Rightarrow> Reset (f s))"

definition main_char :: "u8 \<Rightarrow> line_state \<Rightarrow> system \<Rightarrow> (line_state \<times> system) ending option" where
  "main_char c ln s =
     (let (input, index) = ln
      in if c = 0 then Some (Go_On_With ((input, index), s))
         else if c = 0x08
         then if index > 0
              then do { s \<leftarrow> terminal_backspace s; Some (Go_On_With ((input, index - 1), s)) }
              else Some (Go_On_With ((input, index), s))
         else if c = 0x0A
         then let input = input[index := 0]
              in do {
                e \<leftarrow> shell_execute (takeWhile (\<lambda>c. c \<noteq> 0) input) s;
                (case e of
                   Go_On_With s \<Rightarrow> do { s \<leftarrow> terminal_prompt s; Some (Go_On_With ((input, 0), s)) }
                 | _ \<Rightarrow> Some (map_ending (\<lambda>s. ((input, index), s)) e))
              }
         else if index < 127
         then do { s \<leftarrow> terminal_write [c] s; Some (Go_On_With ((input[index := c], index + 1), s)) }
         else Some (Go_On_With ((input, index), s)))"

definition main_iteration :: "line_state \<Rightarrow> system \<Rightarrow> (line_state \<times> system) ending option" where
  "main_iteration ln s = (let (c, s) = keyboard_getchar s in main_char c ln s)"

text \<open>\<open>n\<close> rounds of the loop, unless a command stops the machine.\<close>

fun main_loop :: "nat \<Rightarrow> line_state \<Rightarrow> system \<Rightarrow> (line_state \<times> system) ending option" where
  "main_loop 0 ln s = Some (Go_On_With (ln, s))"
| "main_loop (Suc n) ln s = do {
     e \<leftarrow> main_iteration ln s;
     (case e of Go_On_With (ln, s) \<Rightarrow> main_loop n ln s | _ \<Rightarrow> Some e)
   }"

end
