(* ===== verification/MachineProps.thy ===== *)
theory MachineProps
  imports Machine KernThms
begin

text \<open>
  Keystrokes, timer ticks and exceptions. The ring buffer is a queue of at most 127 characters; the
  handler of the keyboard interrupt puts the characters of the keys into it, as \<open>typed\<close> reads them off
  the scan codes.
\<close>

section \<open>The keyboard buffer is a queue\<close>

definition ring :: "keyboard \<Rightarrow> u8 list \<Rightarrow> bool" where
  "ring k xs \<longleftrightarrow>
     length (keyboard_buffer k) = 128 \<and> buffer_tail k < 128 \<and> length xs < 128 \<and> 0 \<notin> set xs \<and>
     unat (buffer_head k) = (unat (buffer_tail k) + length xs) mod 128 \<and>
     (\<forall>i < length xs. keyboard_buffer k ! ((unat (buffer_tail k) + i) mod 128) = xs ! i)"

definition keyboard_get :: "keyboard \<Rightarrow> u8 option \<times> keyboard" where
  "keyboard_get k = (let (c, k) = keyboard_take k in (if c = 0 then None else Some c, k))"

definition key_room :: "u8 \<Rightarrow> u8 list \<Rightarrow> bool" where
  "key_room c xs \<longleftrightarrow> c \<noteq> 0 \<and> length xs < 127"

lemma ring_head: "ring k xs \<Longrightarrow> buffer_head k < 128"
  by (simp add: ring_def word_less_nat_alt)

lemma unat_next128: "(h :: u32) < 128 \<Longrightarrow> unat ((h + 1) mod 128) = (unat h + 1) mod 128"
  by (simp add: word_less_nat_alt unat_mod unat_word_ariths)

lemma ring_index: "t < 128 \<Longrightarrow> n \<le> 128 \<Longrightarrow> (t + n) mod 128 = (if t + n < 128 then t + n else t + n - (128 :: nat))"
  by (simp add: mod_if)

lemma ring_put:
  assumes "ring k xs" "c \<noteq> 0"
  shows "ring (keyboard_buffer_put c k) (take 127 (xs @ [c]))"
proof -
  let ?t = "unat (buffer_tail k)" and ?h = "unat (buffer_head k)"
  have t: "?t < 128" and h: "?h = (?t + length xs) mod 128" and l: "length xs < 128" "length (keyboard_buffer k) = 128"
    using assms by (simp_all add: ring_def word_less_nat_alt)
  have nx: "unat ((buffer_head k + 1) mod 128) = (?h + 1) mod 128" using ring_head [OF assms(1)] by (rule unat_next128)
  have nx': "(?h + 1) mod 128 = (?t + Suc (length xs)) mod 128" unfolding h by (simp add: mod_Suc_eq)
  show ?thesis
  proof (cases "length xs < 127")
    case True
    have "(?t + Suc (length xs)) mod 128 \<noteq> ?t" using t True by (subst ring_index) auto
    then have ne: "(buffer_head k + 1) mod 128 \<noteq> buffer_tail k" using nx nx' by metis
    have "?h < 128" using h by simp
    moreover have "?h \<noteq> (?t + i) mod 128" if "i < length xs" for i
      using that l t unfolding h by (auto simp: ring_index)
    ultimately have "(keyboard_buffer k)[?h := c] ! ((?t + i) mod 128) = (xs @ [c]) ! i" if "i < Suc (length xs)" for i
      using that assms(1) l h by (cases "i < length xs") (auto simp: ring_def nth_append less_Suc_eq)
    then show ?thesis
      using assms True ne nx nx' by (simp add: keyboard_buffer_put_def Let_def ring_def)
  next
    case False
    then have "length xs = 127" using l by simp
    moreover from this have "(?t + Suc (length xs)) mod 128 = ?t" using t by simp
    then have "(buffer_head k + 1) mod 128 = buffer_tail k" using nx nx' by (metis word_unat_eq_iff)
    ultimately show ?thesis using assms by (simp add: keyboard_buffer_put_def)
  qed
qed

lemma keyboard_get_Nil: "ring k [] \<Longrightarrow> keyboard_get k = (None, k)"
  by (simp add: ring_def keyboard_get_def keyboard_take_def word_less_nat_alt word_unat_eq_iff)

lemma keyboard_take_Cons:
  assumes "ring k (x # xs)"
  shows "\<exists>k'. keyboard_take k = (x, k') \<and> ring k' xs"
proof -
  let ?t = "unat (buffer_tail k)" and ?h = "unat (buffer_head k)"
  have t: "?t < 128" and h: "?h = (?t + Suc (length xs)) mod 128" and l: "length xs < 127"
    using assms by (simp_all add: ring_def word_less_nat_alt)
  have "?h \<noteq> ?t" unfolding h using t l by (subst ring_index) auto
  then have ne: "buffer_head k \<noteq> buffer_tail k" by auto
  have nt: "unat ((buffer_tail k + 1) mod 128) = (?t + 1) mod 128"
    using assms by (intro unat_next128) (simp add: ring_def)
  have nth: "keyboard_buffer k ! ((?t + i) mod 128) = (x # xs) ! i" if "i < Suc (length xs)" for i
    using assms that unfolding ring_def by auto
  have "keyboard_buffer k ! ?t = x" using nth [of 0] t by simp
  then have "keyboard_take k = (x, k\<lparr>buffer_tail := (buffer_tail k + 1) mod 128\<rparr>)"
    using ne by (simp add: keyboard_take_def)
  moreover have "keyboard_buffer k ! ((unat ((buffer_tail k + 1) mod 128) + i) mod 128) = xs ! i" if "i < length xs" for i
    using nth [of "Suc i"] that by (simp add: nt mod_simps)
  moreover have "(buffer_tail k + 1) mod 128 < 128" by (simp add: word_less_nat_alt nt)
  ultimately show ?thesis
    using assms h by (simp add: ring_def nt mod_simps)
qed

lemma keyboard_get_Cons: "ring k (x # xs) \<Longrightarrow> \<exists>k'. keyboard_get k = (Some x, k') \<and> ring k' xs"
  using keyboard_take_Cons [of k x xs] by (auto simp: keyboard_get_def ring_def)

interpretation keys: fifo keyboard_buffer_put keyboard_get ring key_room
proof
  show "ring k xs \<Longrightarrow> key_room c xs \<Longrightarrow> ring (keyboard_buffer_put c k) (xs @ [c])" for k xs c
    using ring_put [of k xs c] take_all [of "xs @ [c]" 127] by (simp add: key_room_def del: take_append)
qed (use keyboard_get_Nil keyboard_get_Cons in blast)+

lemma ring_init: "length (keyboard_buffer k) = 128 \<Longrightarrow> ring (keyboard_init k) []"
  by (simp add: ring_def keyboard_init_def)

section \<open>Interrupts\<close>

text \<open>Scheduling and reaping leave the register frames on the stacks alone.\<close>

definition same_frames :: "kstate \<Rightarrow> kstate \<Rightarrow> bool" where
  "same_frames s s' \<longleftrightarrow> stack_frames s' = stack_frames s"

lemmas frame_defs = upd_thread_def upd_process_def set_next_def set_state_def thread_set_current_def k_free_def
  process_set_current_def

lemma same_frames_trans: "same_frames s s1 \<Longrightarrow> same_frames s1 s2 \<Longrightarrow> same_frames s s2"
  by (simp add: same_frames_def)

lemma frames_simple [simp]:
  "stack_frames (upd_thread t f s) = stack_frames s" "stack_frames (upd_process p g s) = stack_frames s"
  "stack_frames (set_next t n s) = stack_frames s" "stack_frames (set_state t st s) = stack_frames s"
  "stack_frames (thread_set_current x s) = stack_frames s" "stack_frames (k_free b s) = stack_frames s"
  "stack_frames (process_set_current x' s) = stack_frames s"
  "stack_frames (drop_thread_count y s) = stack_frames s" "stack_frames (free_stack z s) = stack_frames s"
  by (auto simp: frame_defs drop_thread_count_def free_stack_def split: option.splits)

lemma frames_queues [simp]:
  "stack_frames (thread_enqueue x s) = stack_frames s" "stack_frames (snd (thread_dequeue s)) = stack_frames s"
  by (auto simp: thread_enqueue_def thread_dequeue_def Let_def split: option.splits)

lemma frames_free_thread: "free_thread t s = Some s' \<Longrightarrow> stack_frames s' = stack_frames s"
  by (auto simp: free_thread_def split: ref.splits)

lemma frames_switch_process: "switch_process a b s = Some s' \<Longrightarrow> stack_frames s' = stack_frames s"
  by (auto simp: switch_process_def k_activate_def Let_def split: option.splits if_splits bind_splits)

lemma frames_reap_loop:
  assumes "reap_loop c p t s = Some s'"
  shows "stack_frames s' = stack_frames s"
proof (induction rule: reap_loop.raw_induct [OF _ assms])
  case (1 rec c p t s s')
  then show ?case
    by (auto simp: Let_def link_past_def split: option.splits if_splits bind_splits dest!: frames_free_thread)
qed

lemma frames_unlink_loop:
  assumes "unlink_loop p q t s = Some s'"
  shows "stack_frames s' = stack_frames s"
proof (induction rule: unlink_loop.raw_induct [OF _ assms])
  case (1 rec p q t s s')
  then show ?case by (auto simp: Let_def split: option.splits if_splits)
qed

lemma frames_process_destroy: "process_destroy p s = Some s' \<Longrightarrow> stack_frames s' = stack_frames s"
  by (auto simp: process_destroy_def k_destroy_space_def Let_def split: option.splits if_splits bind_splits
      dest!: frames_unlink_loop)

lemma frames_process_reap_loop:
  assumes "process_reap_loop p s = Some s'"
  shows "stack_frames s' = stack_frames s"
proof (induction rule: process_reap_loop.raw_induct [OF _ assms])
  case (1 rec p s s')
  then show ?case
    by (auto simp: Let_def split: option.splits if_splits bind_splits dest!: frames_process_destroy)
qed

lemma frames_scheduler_schedule:
  assumes "scheduler_schedule r s = Some (e, s')"
  shows "stack_frames s' = stack_frames s"
  using assms frames_queues(2) [of "upd_thread t (\<lambda>t. t\<lparr>saved_esp := r\<rparr>) s" for t]
  by (auto simp: scheduler_schedule_def thread_reap_terminated_def process_reap_terminated_def Let_def split_beta
      split: option.splits bind_splits if_splits
      dest!: frames_switch_process frames_reap_loop frames_process_reap_loop)

section \<open>Keystrokes\<close>

text \<open>The characters that a sequence of scan codes stands for, from the state of the shift key on, and the
  scan codes of pressing and releasing the keys of a character.\<close>

definition key_char :: "bool \<Rightarrow> u8 \<Rightarrow> u8" where
  "key_char shift sc =
     (if 0x80 \<le> sc then 0 else (if shift then scancode_table_shift else scancode_table) ! unat sc)"

fun typed :: "bool \<Rightarrow> u8 list \<Rightarrow> u8 list" where
  "typed shift [] = []"
| "typed shift (sc # scs) =
     (if sc = 0x2A \<or> sc = 0x36 then typed True scs
      else if sc = 0xAA \<or> sc = 0xB6 then typed False scs
      else if key_char shift sc \<noteq> 0 then key_char shift sc # typed shift scs
      else typed shift scs)"

fun shift_after :: "bool \<Rightarrow> u8 list \<Rightarrow> bool" where
  "shift_after shift [] = shift"
| "shift_after shift (sc # scs) =
     shift_after (if sc = 0x2A \<or> sc = 0x36 then True else if sc = 0xAA \<or> sc = 0xB6 then False else shift) scs"

definition key_of :: "u8 list \<Rightarrow> u8 \<Rightarrow> u8 option" where
  "key_of table c = map_option of_nat (List.find (\<lambda>i. table ! i = c) [0..<128])"

definition strokes :: "u8 \<Rightarrow> u8 list" where
  "strokes c =
     (case key_of scancode_table c of
        Some sc \<Rightarrow> [sc, sc OR 0x80]
      | None \<Rightarrow> (case key_of scancode_table_shift c of
          Some sc \<Rightarrow> [0x2A, sc, sc OR 0x80, 0xAA]
        | None \<Rightarrow> []))"

definition keyboard_chars :: "u8 set" where
  "keyboard_chars = (set scancode_table \<union> set scancode_table_shift) - {0}"

lemma typed_append: "typed sh (xs @ ys) = typed sh xs @ typed (shift_after sh xs) ys"
  by (induction sh xs rule: typed.induct) simp_all

lemma table_length: "length scancode_table = 128" "length scancode_table_shift = 128"
  by (simp_all add: scancode_table_def scancode_table_shift_def bytes_def)

lemma table_shift_keys: "scancode_table ! 0x2A = 0" "scancode_table ! 0x36 = 0"
  "scancode_table_shift ! 0x2A = 0" "scancode_table_shift ! 0x36 = 0"
  by (simp_all add: scancode_table_def scancode_table_shift_def bytes_def nth_append)

lemma key_of_Some:
  assumes "key_of table c = Some sc" "length table = 128"
  shows "sc < 0x80" "table ! unat sc = c"
proof -
  obtain i where i: "List.find (\<lambda>i. table ! i = c) [0..<128] = Some i" "sc = of_nat i"
    using assms by (auto simp: key_of_def)
  then have "i < 128" "table ! i = c" by (auto simp: find_Some_iff)
  then show "sc < 0x80" "table ! unat sc = c" by (simp_all add: i(2) word_less_nat_alt unat_of_nat)
qed

lemma key_of_None: "key_of table c = None \<Longrightarrow> length table = 128 \<Longrightarrow> c \<notin> set table"
  by (auto simp: key_of_def find_None_iff in_set_conv_nth)

text \<open>Codes below 0x80 are key presses, the same codes with bit 7 set the releases.\<close>

lemma bit_128: "bit (0x80 :: u8) n \<longleftrightarrow> n = 7" "bit (128 :: nat) n \<longleftrightarrow> n = 7"
proof -
  have "(0x80 :: u8) = push_bit 7 1" "(128 :: nat) = push_bit 7 1" by simp_all
  then show "bit (0x80 :: u8) n \<longleftrightarrow> n = 7" "bit (128 :: nat) n \<longleftrightarrow> n = 7"
    by (auto simp only: bit_simps) (auto simp: bit_simps)
qed

lemma low_code_bits: "(sc :: u8) < 0x80 \<Longrightarrow> bit sc n \<Longrightarrow> n < 7"
proof -
  assume "sc < 0x80" "bit sc n"
  then have "take_bit 7 (unat sc) = unat sc" "bit (unat sc) n"
    by (simp_all add: word_less_nat_alt take_bit_nat_eq_self bit_simps)
  then show "n < 7" by (metis bit_take_bit_iff)
qed

lemma release_code:
  assumes "(sc :: u8) < 0x80"
  shows "unat (sc OR 0x80) = unat sc + 128"
proof -
  have "unat (sc OR 0x80) = (unat sc OR 128)" by (simp add: unsigned_or_eq)
  also have "\<dots> = unat sc + 128"
    using low_code_bits [OF assms] by (intro disjunctive_add [symmetric]) (auto simp: bit_128 bit_simps)
  finally show ?thesis .
qed

lemma scancode_bit7: "(sc :: u8) AND 0x80 = 0 \<and> sc < 128 \<longleftrightarrow> sc < 0x80"
proof
  assume sc: "sc < 0x80"
  have "\<not> bit (sc AND 0x80) n" for n
    using low_code_bits [OF sc, of n] bit_128(1) [of n] by (auto simp only: bit_and_iff)
  then show "sc AND 0x80 = 0 \<and> sc < 128" using sc by (auto intro: bit_word_eqI)
qed simp

lemma typed_strokes:
  "set cs \<subseteq> keyboard_chars \<Longrightarrow> typed False (concat (map strokes cs)) = cs \<and> \<not> shift_after False (concat (map strokes cs)) \<and> 0 \<notin> set cs"
proof (induction cs)
  case (Cons c cs)
  have c: "c \<noteq> 0" "c \<in> set scancode_table \<union> set scancode_table_shift" using Cons.prems by (auto simp: keyboard_chars_def)
  have key: "typed sh (sc # (sc OR 0x80) # scs) = table ! unat sc # typed sh scs \<and>
      shift_after sh (sc # (sc OR 0x80) # scs) = shift_after sh scs"
    if k: "key_of table c = Some sc" and t: "table = (if sh then scancode_table_shift else scancode_table)"
    for sh sc table scs
  proof -
    have l: "length table = 128" using t table_length by simp
    note ks = key_of_Some [OF k l]
    have "sc \<noteq> 0x2A" "sc \<noteq> 0x36" using ks(2) c(1) t table_shift_keys by (auto split: if_splits)
    moreover from this have "unat sc \<noteq> 0x2A" "unat sc \<noteq> 0x36" by (auto simp: word_unat_eq_iff)
    then have "sc OR 0x80 \<noteq> 0xAA" "sc OR 0x80 \<noteq> 0xB6" "\<not> sc OR 0x80 < 0x80" "sc OR 0x80 \<noteq> 0x2A" "sc OR 0x80 \<noteq> 0x36"
      using release_code [OF ks(1)] by (auto simp: word_unat_eq_iff word_less_nat_alt)
    moreover have "sc \<noteq> 0xAA" "sc \<noteq> 0xB6" using ks(1) by (auto simp: word_less_nat_alt)
    ultimately show ?thesis using ks c(1) t by (simp add: key_char_def not_less not_le [symmetric])
  qed
  have "typed False (strokes c @ scs) = c # typed False scs \<and> shift_after False (strokes c @ scs) = shift_after False scs" for scs
  proof (cases "key_of scancode_table c")
    case (Some sc)
    with key [OF Some, of False scs] key_of_Some [OF Some table_length(1)] show ?thesis by (simp add: strokes_def)
  next
    case None
    then have "c \<in> set scancode_table_shift" using c key_of_None table_length by blast
    then obtain sc where "key_of scancode_table_shift c = Some sc" using key_of_None table_length by (metis option.exhaust)
    with key [OF this, of True] key_of_Some [OF this table_length(2)] None show ?thesis by (simp add: strokes_def)
  qed
  with Cons c show ?case by simp
qed simp

text \<open>One keyboard interrupt, and \<open>n\<close> of them with the scan codes that the controller delivers.\<close>

lemma keyboard_irq_ring:
  assumes "ring (kbd s) xs" "sc = fst (inb 0x60 s)"
  shows "ring (kbd (keyboard_irq s)) (take 127 (xs @ typed (shift_pressed s \<noteq> 0) [sc]))"
    and "(shift_pressed (keyboard_irq s) \<noteq> 0) = shift_after (shift_pressed s \<noteq> 0) [sc]"
    and "kern (keyboard_irq s) = kern s" "ticks (keyboard_irq s) = ticks s" "screen (keyboard_irq s) = screen s"
    "bus (keyboard_irq s) = bus s @ [Inb 0x60]"
proof -
  have xs: "take 127 xs = xs" using assms(1) by (simp add: ring_def)
  obtain s1 where i: "inb 0x60 s = (sc, s1)" using assms(2) by (cases "inb 0x60 s") simp
  then have f: "kbd s1 = kbd s" "shift_pressed s1 = shift_pressed s" "kern s1 = kern s" "ticks s1 = ticks s"
    "screen s1 = screen s" "bus s1 = bus s @ [Inb 0x60]"
    by (auto simp: inb_def)
  have bit7: "sc < 0x80 \<Longrightarrow> sc AND 0x80 = 0" using scancode_bit7 [of sc] by auto
  have put: "ring (keyboard_buffer_put c (kbd s)) (take 127 (xs @ [c]))" if "c \<noteq> 0" for c
    using ring_put [OF assms(1) that] .
  show "ring (kbd (keyboard_irq s)) (take 127 (xs @ typed (shift_pressed s \<noteq> 0) [sc]))"
    using put xs assms(1) unfolding keyboard_irq_def i
    by (auto simp: f Let_def bit7 key_char_def simp del: take_append)
  show "(shift_pressed (keyboard_irq s) \<noteq> 0) = shift_after (shift_pressed s \<noteq> 0) [sc]"
    "kern (keyboard_irq s) = kern s" "ticks (keyboard_irq s) = ticks s" "screen (keyboard_irq s) = screen s"
    "bus (keyboard_irq s) = bus s @ [Inb 0x60]"
    unfolding keyboard_irq_def i by (auto simp: f Let_def)
qed

fun key_events :: "u32 \<Rightarrow> nat \<Rightarrow> 'a machine_scheme \<Rightarrow> (u8 list \<times> 'a machine_scheme) option" where
  "key_events r 0 s = Some ([], s)"
| "key_events r (Suc n) s = do {
     (e, s1) \<leftarrow> irq_handler r s;
     (scs, s2) \<leftarrow> key_events r n s1;
     Some (fst (inb 0x60 s) # scs, s2)
   }"

fun read_keys :: "nat \<Rightarrow> 'a machine_scheme \<Rightarrow> u8 list \<times> 'a machine_scheme" where
  "read_keys 0 s = ([], s)"
| "read_keys (Suc n) s = (let (c, s) = keyboard_getchar s; (cs, s) = read_keys n s in (c # cs, s))"

lemma irq_keyboard:
  assumes "int_no r s = 33"
  shows "irq_handler r s = Some (r, pic_send_eoi 1 (keyboard_irq s))"
proof -
  have "int_no r (keyboard_irq s) = int_no r s"
    by (simp add: int_no_def keyboard_irq_def Let_def inb_def)
  then show ?thesis using assms by (simp add: irq_handler_def)
qed

lemma pic_eoi_machine [simp]:
  "kbd (pic_send_eoi i s) = kbd s" "kern (pic_send_eoi i s) = kern s" "ticks (pic_send_eoi i s) = ticks s"
  "shift_pressed (pic_send_eoi i s) = shift_pressed s" "screen (pic_send_eoi i s) = screen s"
  by (simp_all add: pic_send_eoi_def outb_def Let_def)

lemma key_events_ring:
  assumes "int_no r s = 33" "ring (kbd s) xs"
  shows "\<exists>scs s'. key_events r n s = Some (scs, s') \<and> length scs = n \<and> kern s' = kern s \<and> ticks s' = ticks s \<and>
    screen s' = screen s \<and> (shift_pressed s' \<noteq> 0) = shift_after (shift_pressed s \<noteq> 0) scs \<and>
    ring (kbd s') (take 127 (xs @ typed (shift_pressed s \<noteq> 0) scs))"
  using assms
proof (induction n arbitrary: s xs)
  case 0
  then show ?case by (simp add: ring_def)
next
  case (Suc n)
  let ?sc = "fst (inb 0x60 s)" and ?s = "pic_send_eoi 1 (keyboard_irq s)" and ?sh = "shift_pressed s \<noteq> 0"
  note k = keyboard_irq_ring [OF Suc.prems(2) refl]
  have "int_no r ?s = 33" using Suc.prems(1) by (simp add: int_no_def k)
  moreover have "ring (kbd ?s) (take 127 (xs @ typed ?sh [?sc]))" using k(1) by simp
  ultimately obtain scs s' where s': "key_events r n ?s = Some (scs, s')" "length scs = n" "kern s' = kern ?s"
    "ticks s' = ticks ?s" "screen s' = screen ?s" "(shift_pressed s' \<noteq> 0) = shift_after (shift_pressed ?s \<noteq> 0) scs"
    "ring (kbd s') (take 127 (take 127 (xs @ typed ?sh [?sc]) @ typed (shift_pressed ?s \<noteq> 0) scs))"
    using Suc.IH by meson
  have sh: "(shift_pressed ?s \<noteq> 0) = shift_after ?sh [?sc]" using k(2) by simp
  have "take 127 (take 127 (xs @ typed ?sh [?sc]) @ typed (shift_after ?sh [?sc]) scs) =
      take 127 (xs @ typed ?sh (?sc # scs))"
    using typed_append [of ?sh "[?sc]" scs] by (simp del: typed.simps shift_after.simps add: min_def)
  then have "ring (kbd s') (take 127 (xs @ typed ?sh (?sc # scs)))" using s'(7) sh by simp
  moreover have "(shift_pressed s' \<noteq> 0) = shift_after ?sh (?sc # scs)" using s'(6) sh by simp
  moreover have "key_events r (Suc n) s = Some (?sc # scs, s')"
    using s'(1) by (simp add: irq_keyboard [OF Suc.prems(1)])
  ultimately show ?case
    using s'(2-5) k by (intro exI [of _ "?sc # scs"] exI [of _ s'] conjI) simp_all
qed

lemma read_keys_ring:
  assumes "ring (kbd s) (xs @ ys)"
  shows "\<exists>s'. read_keys (length xs) s = (xs, s') \<and> ring (kbd s') ys"
  using assms
proof (induction xs arbitrary: s)
  case (Cons x xs)
  obtain k where k: "keyboard_take (kbd s) = (x, k)" "ring k (xs @ ys)"
    using keyboard_take_Cons [of "kbd s" x "xs @ ys"] Cons.prems by auto
  obtain s1 where s1: "keyboard_getchar s = (x, s1)" "kbd s1 = k" using k(1) by (simp add: keyboard_getchar_def)
  then show ?case using Cons.IH [of s1] k(2) by auto
qed simp

text \<open>Which scan codes arrive depends on the controller only.\<close>

lemma bus_keyboard_irq: "bus (keyboard_irq s) = bus s @ [Inb 0x60]" "hardware (keyboard_irq s) = hardware s"
  by (auto simp: keyboard_irq_def inb_def Let_def)

lemma bus_eoi_keyboard: "bus (pic_send_eoi 1 (keyboard_irq s)) = bus s @ [Inb 0x60, Outb 0x20 0x20]"
  "hardware (pic_send_eoi 1 (keyboard_irq s)) = hardware s" "int_no r (pic_send_eoi 1 (keyboard_irq s)) = int_no r s"
  by (auto simp: keyboard_irq_def inb_def Let_def pic_send_eoi_def outb_def int_no_def)

lemma key_events_codes:
  assumes "int_no r s = 33" "key_events r n s = Some (scs, s')"
  shows "scs = map (\<lambda>i. ucast (hardware s (bus s @ concat (replicate i [Inb 0x60, Outb 0x20 0x20])) 0x60)) [0..<n]"
  using assms
proof (induction n arbitrary: s scs)
  case (Suc n)
  then obtain scs' where "key_events r n (pic_send_eoi 1 (keyboard_irq s)) = Some (scs', s')" "scs = fst (inb 0x60 s) # scs'"
    by (auto simp: irq_keyboard split: bind_splits)
  then show ?case
    using Suc.IH [of "pic_send_eoi 1 (keyboard_irq s)" scs'] Suc.prems(1)
    by (simp add: bus_keyboard_irq bus_eoi_keyboard map_upt_Suc del: upt_Suc) (simp add: inb_def)
qed simp

section \<open>The machine between interrupts\<close>

definition machine_inv :: "layout \<Rightarrow> u32 set \<times> 'a machine_scheme \<Rightarrow> bool" where
  "machine_inv lay x \<longleftrightarrow> kernel_inv lay (fst x, kern (snd x)) \<and> (\<exists>xs. ring (kbd (snd x)) xs) \<and> screen_ok (screen (snd x))"

text \<open>A step of the machine: an interrupt with its handler, an operation of the thread and process interface, a
  read of the keyboard, or output on the terminal.\<close>

inductive mstep :: "layout \<Rightarrow> u32 set \<times> 'a machine_scheme \<Rightarrow> u32 set \<times> 'a machine_scheme \<Rightarrow> bool" for lay :: layout where
  interrupt: "irq_handler r s = Some (e, s') \<Longrightarrow>
    mstep lay (T, s) (if int_no r s = 32 then live_threads T (kern s) else T, s')"
| call: "kstep lay (T, kern s) (T', k) \<Longrightarrow> mstep lay (T, s) (T', s\<lparr>kern := k\<rparr>)"
| getchar: "keyboard_getchar s = (c, s') \<Longrightarrow> mstep lay (T, s) (T, s')"
| print: "terminal_write cs s = Some s' \<Longrightarrow> mstep lay (T, s) (T, s')"
| erase: "terminal_backspace s = Some s' \<Longrightarrow> mstep lay (T, s) (T, s')"
| clear: "mstep lay (T, s) (T, terminal_clear s)"

lemma irq_other:
  assumes "int_no r s \<noteq> 32" "int_no r s \<noteq> 33"
  shows "irq_handler r s = Some (r, pic_send_eoi (sint (int_no r s - 32)) s)"
  using assms by (simp add: irq_handler_def)

lemma irq_timer:
  assumes "int_no r s = 32" "scheduler_schedule r (kern s) = Some (e, k)"
  shows "irq_handler r s = Some (e, pic_send_eoi 0 (s\<lparr>ticks := ticks s + 1, kern := k\<rparr>))"
proof -
  have "int_no r (s\<lparr>ticks := ticks s + 1, kern := k\<rparr>) = 32"
    using assms frames_scheduler_schedule [OF assms(2)] by (simp add: int_no_def)
  then show ?thesis using assms by (simp add: irq_handler_def timer_tick_def)
qed

lemma kernel_inv_flag: "kernel_inv lay (T, k) \<Longrightarrow> kernel_inv lay (T, sti (cli k))"
proof -
  assume "kernel_inv lay (T, k)"
  then obtain R rs ts ps c where b: "between lay R T rs ts ps k" and c: "running c T rs k" by (rule kernel_invE)
  have "running c T rs (sti (cli k))"
    using c by (simp add: running_def state_of_def place_ok_def sti_def cli_def space_of_def process_of_def)
  with between_sti [OF between_cli [OF b]] show ?thesis by (rule kernel_invI)
qed

lemma kernel_inv_tick:
  assumes "kernel_inv lay (T, k)"
  shows "\<exists>e k' c. scheduler_schedule r k = Some (e, k') \<and> kernel_inv lay (live_threads T k, k') \<and>
    current_thread k' = Some c \<and> e = saved_esp (threads k' c)"
proof -
  obtain R rs ts ps c where b: "between lay R T rs ts ps k" and c: "running c T rs k" using assms by (rule kernel_invE)
  obtain k' where k': "scheduler_schedule r k = Some (if next_of_queue k rs = c then r else saved k (next_of_queue k rs), k')"
    "current_thread k' = Some (next_of_queue k rs)" "\<forall>t. saved k' t = (if t = c then r else saved k t)"
    using scheduler_schedule_ok [OF b c, of r] by (auto simp: running_def)
  have "kernel_inv lay (live_threads T k, k')" by (rule kernel_step [OF kstep.tick [OF k'(1)] assms])
  with k' show ?thesis by (auto simp: saved_def)
qed

lemma keyboard_getchar_ok:
  assumes "keyboard_getchar s = (c, s')" "ring (kbd s) xs"
  shows "\<exists>ys. ring (kbd s') ys" "screen s' = screen s" "kern s' = sti (cli (kern s))"
proof -
  show "\<exists>ys. ring (kbd s') ys"
  proof (cases xs)
    case Nil
    then have "keyboard_take (kbd s) = (0, kbd s)"
      using assms(2) by (simp add: ring_def keyboard_take_def word_unat_eq_iff word_less_nat_alt)
    then show ?thesis using assms by (auto simp: keyboard_getchar_def)
  next
    case (Cons y ys)
    then show ?thesis
      using keyboard_take_Cons [of "kbd s" y ys] assms by (fastforce simp: keyboard_getchar_def)
  qed
  show "screen s' = screen s" "kern s' = sti (cli (kern s))"
    using assms(1) by (auto simp: keyboard_getchar_def split_beta Let_def)
qed

lemma terminal_putchar_ok:
  assumes "screen_ok (screen s)"
  shows "\<exists>s'. terminal_putchar c s = Some s' \<and> screen_ok (screen s') \<and> kern s' = kern s \<and> kbd s' = kbd s"
  using vga_putc_ok [OF assms, of c]
  by (auto simp: terminal_putchar_def on_screen_def serial_putc_def outb_def)

lemma terminal_write_ok:
  assumes "screen_ok (screen s)"
  shows "\<exists>s'. terminal_write cs s = Some s' \<and> screen_ok (screen s') \<and> kern s' = kern s \<and> kbd s' = kbd s"
  using assms
proof (induction cs arbitrary: s)
  case (Cons c cs)
  obtain s1 where s1: "terminal_putchar c s = Some s1" "screen_ok (screen s1)" "kern s1 = kern s" "kbd s1 = kbd s"
    using terminal_putchar_ok [OF Cons.prems] by blast
  then show ?case using Cons.IH [of s1] by auto
qed simp

lemma irq_handler_ok:
  assumes "machine_inv lay (T, s)"
  shows "\<exists>e s'. irq_handler r s = Some (e, s') \<and>
    machine_inv lay (if int_no r s = 32 then live_threads T (kern s) else T, s')"
proof -
  obtain xs where xs: "ring (kbd s) xs" and v: "screen_ok (screen s)" and k: "kernel_inv lay (T, kern s)"
    using assms by (auto simp: machine_inv_def)
  consider "int_no r s = 32" | "int_no r s = 33" | "int_no r s \<noteq> 32" "int_no r s \<noteq> 33" by blast
  then show ?thesis
  proof cases
    case 1
    with kernel_inv_tick [OF k, of r] show ?thesis using xs v by (auto simp: irq_timer machine_inv_def)
  next
    case 2
    with keyboard_irq_ring [OF xs refl] show ?thesis using v k by (auto simp: irq_keyboard machine_inv_def)
  next
    case 3
    then show ?thesis using xs v k by (auto simp: irq_other machine_inv_def)
  qed
qed

lemma machine_step:
  assumes "mstep lay x y" "machine_inv lay x"
  shows "machine_inv lay y"
  using assms
proof (cases rule: mstep.cases)
  case (interrupt r s e s' T)
  then show ?thesis using irq_handler_ok [of lay T s r] assms(2) by auto
next
  case (call T s T' k)
  then show ?thesis using kernel_step [of lay T "kern s" T' k] assms(2) by (auto simp: machine_inv_def)
next
  case (getchar s c s' T)
  then obtain xs where "ring (kbd s) xs" using assms(2) by (auto simp: machine_inv_def)
  with keyboard_getchar_ok [OF getchar(3) this] getchar show ?thesis
    using assms(2) kernel_inv_flag by (auto simp: machine_inv_def)
next
  case (print cs s s' T)
  then show ?thesis using terminal_write_ok [of s cs] assms(2) by (auto simp: machine_inv_def)
next
  case (erase s s' T)
  then show ?thesis using vga_backspace_ok [of "screen s"] assms(2)
    by (fastforce simp: machine_inv_def terminal_backspace_def on_screen_def)
next
  case (clear T s)
  then show ?thesis using assms(2) vga_clear_ok [of "screen s"]
    by (auto simp: machine_inv_def terminal_clear_def screen_ok_def [of "screen s"])
qed

section \<open>Properties\<close>

text \<open>The machine at a prompt: the kernel of \<open>KernThms\<close>, an empty screen, a keyboard controller that delivers
  the scan codes of the letters L (with shift) and s.\<close>

definition demo_codes :: "u8 list" where
  "demo_codes = [0x2A, 0x26, 0xA6, 0xAA, 0x1F, 0x9F]"

definition demo_machine :: "kmem \<Rightarrow> machine" where
  "demo_machine m = \<lparr>bus = [], hardware = (\<lambda>h p. ucast (demo_codes ! (length h div 2))),
     screen = vga_clear \<lparr>vga_buffer = replicate 2000 0, color = 0xF0, cursor_row = 0, cursor_col = 0\<rparr>,
     kbd = \<lparr>keyboard_buffer = replicate 128 0, buffer_head = 0, buffer_tail = 0\<rparr>, ticks = 0, shift_pressed = 0,
     kern = demo_kernel m\<rparr>"

lemma demo_machine_ok:
  obtains m where "machine_inv demo_layout ({72, 4256, 8440}, demo_machine m)"
proof -
  obtain m where "between demo_layout {Static} {72, 4256, 8440} [Dyn 4256] [Dyn 8440] [8] (demo_kernel m)"
    "running Static {72, 4256, 8440} [Dyn 4256] (demo_kernel m)" by (rule demo_kernel_exists)
  then have "kernel_inv demo_layout ({72, 4256, 8440}, demo_kernel m)" by (rule kernel_invI)
  moreover have "ring (kbd (demo_machine m)) []" by (simp add: demo_machine_def ring_def)
  moreover have "screen_ok (screen (demo_machine m))" by (simp add: demo_machine_def vga_clear_ok)
  moreover have "kern (demo_machine m) = demo_kernel m" by (simp add: demo_machine_def)
  ultimately have "machine_inv demo_layout ({72, 4256, 8440}, demo_machine m)" unfolding machine_inv_def fst_conv snd_conv by auto
  then show ?thesis by (rule that)
qed

text \<open>C11. The machine keeps its invariant whatever happens on it: interrupts with their handlers, calls of the thread
  and process operations, reads of the keyboard and terminal output in any order keep the kernel invariant,
  the keyboard ring buffer a queue of at most 127 characters, and the cursor on the 80 by 25 screen. The calls are
  the steps of \<open>kstep\<close>.\<close>

theorem machine_invariant:
  assumes "machine_inv lay (T, s)" "(mstep lay)\<^sup>*\<^sup>* (T, s) (T', s')"
  shows "machine_inv lay (T', s')"
  using assms(2,1) by (induction rule: rtranclp_induct2) (auto intro: machine_step)

theorem machine_invariant_witness:
  "\<exists>m s'. terminal_write (bytes ''ok'') (demo_machine m) = Some s' \<and> machine_inv demo_layout ({72, 4256, 8440}, s')"
proof -
  obtain m where m: "machine_inv demo_layout ({72, 4256, 8440}, demo_machine m)" by (rule demo_machine_ok)
  then obtain s' where s': "terminal_write (bytes ''ok'') (demo_machine m) = Some s'"
    using terminal_write_ok [of "demo_machine m"] by (auto simp: machine_inv_def)
  have "mstep demo_layout ({72, 4256, 8440}, demo_machine m) ({72, 4256, 8440}, s')" by (rule mstep.print [OF s'])
  then have "machine_inv demo_layout ({72, 4256, 8440}, s')" by (intro machine_invariant [OF m] r_into_rtranclp)
  then show ?thesis using s' by blast
qed

text \<open>C12. Every interrupt handler returns and acknowledges its interrupt: the last write is the end-of-interrupt
  command to the first controller, after one to the second controller for the lines 8 to 15. The timer counts
  one tick and goes on with the thread that the scheduler has made current, from its saved stack pointer; every
  other interrupt goes on with the interrupted thread and leaves the kernel alone, and only the keyboard
  interrupt touches the keyboard buffer.\<close>

theorem irq_handler_returns:
  assumes "machine_inv lay (T, s)" "int_no r s = n"
  shows "\<exists>e s'. irq_handler r s = Some (e, s') \<and> machine_inv lay (if n = 32 then live_threads T (kern s) else T, s') \<and>
    screen s' = screen s \<and>
    bus s' = bus s @ (if n = 33 then [Inb 0x60] else []) @ (if sint (n - 32) \<ge> 8 then [Outb 0xA0 0x20] else []) @ [Outb 0x20 0x20] \<and>
    (if n = 32
     then ticks s' = ticks s + 1 \<and> kbd s' = kbd s \<and>
       (\<exists>c. current_thread (kern s') = Some c \<and> e = saved_esp (threads (kern s') c))
     else ticks s' = ticks s \<and> e = r \<and> kern s' = kern s \<and> (n = 33 \<or> kbd s' = kbd s))"
proof -
  obtain e s' where s': "irq_handler r s = Some (e, s')" "machine_inv lay (if n = 32 then live_threads T (kern s) else T, s')"
    using irq_handler_ok [OF assms(1), of r] assms(2) by auto
  obtain xs where xs: "ring (kbd s) xs" and k: "kernel_inv lay (T, kern s)"
    using assms by (auto simp: machine_inv_def)
  note key = keyboard_irq_ring [OF xs refl]
  consider "n = 32" | "n = 33" | "n \<noteq> 32" "n \<noteq> 33" by blast
  then show ?thesis
  proof cases
    case 1
    with kernel_inv_tick [OF k, of r] s' show ?thesis using assms(2) by (auto simp: irq_timer)
  next
    case 2
    then show ?thesis using s' assms(2) key by (auto simp: irq_keyboard)
  next
    case 3
    then show ?thesis using s' assms(2) by (auto simp: irq_other)
  qed
qed

theorem irq_handler_returns_witness:
  "\<exists>m e s'. irq_handler 100 (demo_machine m) = Some (e, s') \<and> ticks s' = 1 \<and> bus s' = [Outb 0x20 0x20]"
proof -
  obtain m where m: "machine_inv demo_layout ({72, 4256, 8440}, demo_machine m)" by (rule demo_machine_ok)
  have "int_no 100 (demo_machine m) = 32" by (simp add: int_no_def demo_machine_def demo_kernel_def)
  from irq_handler_returns [OF m this] show ?thesis by (auto simp: demo_machine_def)
qed

text \<open>C13. What is typed is what is read: when the keyboard controller delivers, one interrupt after another, the
  scan codes of pressing and releasing the keys of a text (with shift where the text needs it) and the
  handlers of these interrupts return, they leave the kernel as it was, and \<open>keyboard_getchar\<close> then delivers the text in
  order, up to the 127 characters that the ring buffer holds, and 0 after it.\<close>

theorem typing_arrives:
  assumes "int_no r s = 33" "ring (kbd s) []" "shift_pressed s = 0"
    and "key_events r n s = Some (concat (map strokes cs), s')" "set cs \<subseteq> keyboard_chars"
  shows "kern s' = kern s \<and> (\<exists>s''. read_keys (min 127 (length cs)) s' = (take 127 cs, s'') \<and> fst (keyboard_getchar s'') = 0)"
proof -
  have t: "typed False (concat (map strokes cs)) = cs" using typed_strokes [OF assms(5)] by simp
  from key_events_ring [OF assms(1,2), of n] assms(3,4) t
  have "kern s' = kern s" "ring (kbd s') (take 127 cs @ [])" by auto
  moreover have "fst (keyboard_getchar s'') = 0" if "ring (kbd s'') []" for s'' :: "'a machine_scheme"
  proof -
    have "keyboard_take (kbd s'') = (0, kbd s'')"
      using that by (simp add: ring_def keyboard_take_def word_unat_eq_iff word_less_nat_alt)
    then show ?thesis by (simp add: keyboard_getchar_def)
  qed
  ultimately show ?thesis using read_keys_ring [of s' "take 127 cs" "[]"] by (auto simp: min.commute)
qed

theorem typing_arrives_witness:
  "\<exists>s' s''. read_keys 2 s' = (bytes ''Ls'', s'') \<and> (\<exists>s :: machine. key_events 100 6 s = Some (demo_codes, s'))"
proof -
  let ?s = "demo_machine undefined\<lparr>kern := (demo_kernel undefined)\<lparr>stack_frames := \<lambda>_. (initial_frame 0 0)\<lparr>fr_int_no := 33\<rparr>\<rparr>\<rparr>"
  have n: "int_no 100 ?s = 33" by (simp add: int_no_def)
  have q: "ring (kbd ?s) []" "shift_pressed ?s = 0" by (simp_all add: demo_machine_def ring_def)
  have b: "bus ?s = []" "hardware ?s = (\<lambda>h p. ucast (demo_codes ! (length h div 2)))" by (simp_all add: demo_machine_def)
  obtain scs s' where e: "key_events 100 6 ?s = Some (scs, s')" using key_events_ring [OF n q(1), of 6] by blast
  have "scs = demo_codes"
  proof -
    have "length (concat (replicate i [Inb 0x60, Outb 0x20 0x20])) = 2 * i" for i by (induction i) simp_all
    moreover have "ucast (ucast (x :: u8) :: u16) = x" for x by (rule bit_word_eqI) (simp add: bit_simps)
    ultimately have scs: "scs = map (\<lambda>i. demo_codes ! i) [0..<6]" using key_events_codes [OF n e] by (simp add: b)
    have "length demo_codes = 6" by (simp add: demo_codes_def)
    with scs show ?thesis using map_nth [of demo_codes] by simp
  qed
  moreover have "demo_codes = concat (map strokes (bytes ''Ls''))"
    by code_simp
  moreover have "set (bytes ''Ls'') \<subseteq> keyboard_chars"
    by (simp add: bytes_def keyboard_chars_def scancode_table_def scancode_table_shift_def)
  moreover have l: "min 127 (length (bytes ''Ls'')) = 2" "take 127 (bytes ''Ls'') = bytes ''Ls''" by (simp_all add: bytes_def)
  ultimately obtain s'' where "read_keys 2 s' = (bytes ''Ls'', s'')"
    using typing_arrives [OF n q, of 6 "bytes ''Ls''" s'] e unfolding l by metis
  then show ?thesis using e \<open>scs = demo_codes\<close> by blast
qed

end
