(* ===== verification/AtaProps.thy ===== *)
theory AtaProps
  imports Ata
begin

text \<open>
  What the ATA driver tells the drive and what it makes of the answers. \<open>busy_until hw p h k\<close>: from the
  history \<open>h\<close> on the status port \<open>p\<close> shows a busy drive \<open>k\<close> times and then a drive that is not busy.
\<close>

abbreviation status_port :: "ata_device \<Rightarrow> u16" where "status_port dev \<equiv> ata_base_port (channel dev) + 7"

definition status_at :: "(port_event list \<Rightarrow> u16 \<Rightarrow> u16) \<Rightarrow> u16 \<Rightarrow> port_event list \<Rightarrow> nat \<Rightarrow> u8" where
  "status_at hw p h j = ucast (hw (h @ replicate j (Inb p)) p)"

definition busy_until :: "(port_event list \<Rightarrow> u16 \<Rightarrow> u16) \<Rightarrow> u16 \<Rightarrow> port_event list \<Rightarrow> nat \<Rightarrow> bool" where
  "busy_until hw p h k \<longleftrightarrow> (\<forall>j < k. status_at hw p h j AND 0x80 \<noteq> 0) \<and> status_at hw p h k AND 0x80 = 0"

definition log :: "'a io_scheme \<Rightarrow> port_event list \<Rightarrow> 'a io_scheme" where
  "log s es = s\<lparr>bus := bus s @ es\<rparr>"

lemma log_simps [simp]: "bus (log s es) = bus s @ es" "hardware (log s es) = hardware s" "log (log s es) fs = log s (es @ fs)"
  "log s [] = s"
  by (simp_all add: log_def)

lemma port_log: "outb p v s = log s [Outb p v]" "outw p w s = log s [Outw p w]" "inb p s = (status_at (hardware s) p (bus s) 0, log s [Inb p])"
  "inw p s = (hardware s (bus s) p, log s [Inw p])"
  by (simp_all add: outb_def outw_def inb_def inw_def log_def status_at_def)

lemma ata_read_status_log: "ata_read_status ch s = (status_at (hardware s) (ata_base_port ch + 7) (bus s) 0, log s [Inb (ata_base_port ch + 7)])"
  by (simp add: ata_read_status_def port_log)

lemma ata_delay_log: "ata_delay_400ns ch s = log s (replicate 4 (Inb (ata_base_port ch + 7)))"
  by (simp add: ata_delay_400ns_def port_log numeral_eq_Suc Let_def)

lemma status_at_Suc: "status_at hw p (h @ [Inb p]) j = status_at hw p h (Suc j)"
  by (simp add: status_at_def)

lemma wait_not_busy_log:
  assumes "busy_until (hardware s) (ata_base_port ch + 7) (bus s) k"
  shows "wait_not_busy ch s = Some (status_at (hardware s) (ata_base_port ch + 7) (bus s) k,
    log s (replicate (Suc k) (Inb (ata_base_port ch + 7))))"
  using assms
proof (induction k arbitrary: s)
  case 0
  then show ?case by (subst wait_not_busy.simps) (simp add: ata_read_status_log busy_until_def)
next
  case (Suc k)
  let ?p = "ata_base_port ch + 7"
  have "busy_until (hardware s) ?p (bus (log s [Inb ?p])) k"
    using Suc.prems by (auto simp: busy_until_def status_at_Suc)
  then have "wait_not_busy ch (log s [Inb ?p]) = Some (status_at (hardware s) ?p (bus s) (Suc k), log s (replicate (Suc (Suc k)) (Inb ?p)))"
    using Suc.IH [of "log s [Inb ?p]"] by (simp add: status_at_Suc)
  moreover have "status_at (hardware s) ?p (bus s) 0 AND 0x80 \<noteq> 0" using Suc.prems by (auto simp: busy_until_def)
  ultimately show ?case by (subst wait_not_busy.simps) (simp add: ata_read_status_log)
qed

lemma wait_not_busy_hangs:
  assumes "\<And>j. status_at (hardware s) (ata_base_port ch + 7) (bus s) j AND 0x80 \<noteq> 0"
  shows "wait_not_busy ch s = None"
proof (rule ccontr)
  assume "wait_not_busy ch s \<noteq> None"
  then obtain r where r: "wait_not_busy ch s = Some r" by blast
  have "\<not> (\<forall>j. status_at (hardware s) (ata_base_port ch + 7) (bus s) j AND 0x80 \<noteq> 0)"
  proof (induction rule: wait_not_busy.raw_induct [OF _ r])
    case (1 rec ch s r)
    show ?case
    proof
      assume a: "\<forall>j. status_at (hardware s) (ata_base_port ch + 7) (bus s) j AND 0x80 \<noteq> 0"
      then have "rec ch (log s [Inb (ata_base_port ch + 7)]) = Some r"
        using 1(2) by (simp add: ata_read_status_log)
      from 1(1) [OF this] a show False by (simp add: status_at_Suc)
    qed
  qed
  then show False using assms by blast
qed

lemma read_words_log:
  "read_words base n s = (map (\<lambda>i. hardware s (bus s @ replicate i (Inw base)) base) [0..<n], log s (replicate n (Inw base)))"
proof (induction n arbitrary: s)
  case (Suc n)
  show ?case
    by (simp add: Suc ata_read_data_def port_log map_upt_Suc del: upt_Suc)
qed simp

lemma fold_outw_log: "fold (outw p) ws s = log s (map (Outw p) ws)"
  by (induction ws arbitrary: s) (simp_all add: port_log)

section \<open>What the drive is told\<close>

definition command_log :: "ata_device \<Rightarrow> u32 \<Rightarrow> u8 \<Rightarrow> port_event list" where
  "command_log dev lba cmd =
     (let base = ata_base_port (channel dev)
      in [Outb (base + 6) (0xE0 OR drive_bits (drive dev) OR ucast (drop_bit 24 lba AND 0x0F))] @ replicate 4 (Inb (base + 7)) @
         [Outb (base + 2) 1, Outb (base + 3) (ucast (lba AND 0xFF)), Outb (base + 4) (ucast (drop_bit 8 lba AND 0xFF)),
          Outb (base + 5) (ucast (drop_bit 16 lba AND 0xFF)), Outb (base + 7) cmd])"

lemma send_command_log: "send_command dev lba cmd s = log s (command_log dev lba cmd)"
  by (simp add: send_command_def command_log_def port_log ata_delay_log Let_def)

text \<open>A register of the drive holds what was written to its port last; the drive takes a 28-bit sector number
  from four of them.\<close>

definition register :: "u16 \<Rightarrow> port_event list \<Rightarrow> u8" where
  "register p h = fold (\<lambda>e v. case e of Outb q x \<Rightarrow> (if q = p then x else v) | _ \<Rightarrow> v) h 0"

definition addressed :: "u16 \<Rightarrow> port_event list \<Rightarrow> u32" where
  "addressed base h =
     push_bit 24 (ucast (register (base + 6) h AND 0x0F)) OR push_bit 16 (ucast (register (base + 5) h)) OR
     push_bit 8 (ucast (register (base + 4) h)) OR ucast (register (base + 3) h)"

definition selected :: "u16 \<Rightarrow> port_event list \<Rightarrow> ata_drive" where
  "selected base h = (if bit (register (base + 6) h) 4 then ATA_SLAVE else ATA_MASTER)"

lemma base_ports: "ata_base_port ch = 0x1F0 \<or> ata_base_port ch = 0x170"
  by (simp add: ata_base_port_def)

lemma register_append_command:
  "register p (h @ command_log dev lba cmd) =
     (let base = ata_base_port (channel dev)
      in if p = base + 7 then cmd else if p = base + 5 then ucast (drop_bit 16 lba AND 0xFF)
         else if p = base + 4 then ucast (drop_bit 8 lba AND 0xFF) else if p = base + 3 then ucast (lba AND 0xFF)
         else if p = base + 2 then 1
         else if p = base + 6 then 0xE0 OR drive_bits (drive dev) OR ucast (drop_bit 24 lba AND 0x0F)
         else register p h)"
  by (simp add: register_def command_log_def Let_def numeral_eq_Suc)

lemma registers_command:
  assumes "base = ata_base_port (channel dev)"
  shows "register (base + 3) (h @ command_log dev lba cmd) = ucast (lba AND 0xFF)"
    "register (base + 4) (h @ command_log dev lba cmd) = ucast (drop_bit 8 lba AND 0xFF)"
    "register (base + 5) (h @ command_log dev lba cmd) = ucast (drop_bit 16 lba AND 0xFF)"
    "register (base + 6) (h @ command_log dev lba cmd) = 0xE0 OR drive_bits (drive dev) OR ucast (drop_bit 24 lba AND 0x0F)"
  unfolding register_append_command Let_def assms by simp_all

lemma drive_head: "(0xE0 OR drive_bits d OR ucast (x AND 0x0F :: u32)) AND 0x0F = (ucast (x AND 0x0F) :: u8)"
  "bit (0xE0 OR drive_bits d OR ucast (x AND 0x0F :: u32)) 4 \<longleftrightarrow> d = ATA_SLAVE"
proof -
  have m: "(0x0F :: u8) = mask 4" "(0x0F :: u32) = mask 4" by (simp_all add: mask_eq_exp_minus_1)
  have e: "5 \<le> n" if "bit (0xE0 :: int) n" for n
  proof -
    have "(0xE0 :: int) = push_bit 5 7" by simp
    then show ?thesis using that by (simp only: bit_simps)
  qed
  have d: "bit (drive_bits d) n \<longleftrightarrow> n = 4 \<and> d = ATA_SLAVE" for n
    by (cases d) (simp_all only: drive_bits_def ata_drive.case bit_simps, auto)
  show "(0xE0 OR drive_bits d OR ucast (x AND 0x0F :: u32)) AND 0x0F = (ucast (x AND 0x0F) :: u8)"
    unfolding m by (rule bit_word_eqI) (auto simp: bit_simps d dest: e)
  show "bit (0xE0 OR drive_bits d OR ucast (x AND 0x0F :: u32)) 4 \<longleftrightarrow> d = ATA_SLAVE"
    unfolding m by (auto simp: bit_simps d dest: e)
qed

lemma low_byte: "ucast (x AND 0xFF :: u32) = (ucast x :: u8)"
proof -
  have m: "(0xFF :: u32) = mask 8" by (simp add: mask_eq_exp_minus_1)
  show ?thesis unfolding m by (auto intro!: bit_word_eqI simp: bit_simps)
qed

lemma lba_parts:
  "push_bit 24 (ucast (take_bit 4 (ucast (drop_bit 24 lba)) :: u8)) OR push_bit 16 (ucast (ucast (drop_bit 16 lba) :: u8)) OR
    push_bit 8 (ucast (ucast (drop_bit 8 lba) :: u8)) OR ucast (ucast lba :: u8) = take_bit 28 (lba :: u32)"
proof (rule bit_word_eqI)
  fix n :: nat
  assume n: "n < LENGTH(32)"
  consider "n < 8" | "8 \<le> n \<and> n < 16" | "16 \<le> n \<and> n < 24" | "24 \<le> n" by linarith
  then show "bit (push_bit 24 (ucast (take_bit 4 (ucast (drop_bit 24 lba)) :: u8)) OR push_bit 16 (ucast (ucast (drop_bit 16 lba) :: u8)) OR
      push_bit 8 (ucast (ucast (drop_bit 8 lba) :: u8)) OR ucast (ucast lba :: u8) :: u32) n = bit (take_bit 28 lba) n"
    using n by cases (auto simp: bit_simps)
qed

lemma addressed_command: "addressed (ata_base_port (channel dev)) (h @ command_log dev lba cmd) = take_bit 28 lba"
proof -
  have m: "(0x0F :: u32) = mask 4" by (simp add: mask_eq_exp_minus_1)
  have "ucast (x AND 0x0F :: u32) = (take_bit 4 (ucast x) :: u8)" for x
    unfolding m by (auto intro!: bit_word_eqI simp: bit_simps)
  then show ?thesis unfolding addressed_def registers_command [OF refl] drive_head low_byte
    by (simp only: lba_parts)
qed

lemma selected_command: "selected (ata_base_port (channel dev)) (h @ command_log dev lba cmd) = drive dev"
  unfolding selected_def registers_command [OF refl] drive_head by (cases "drive dev") simp_all

section \<open>Sector commands\<close>

text \<open>What a status byte with the busy bit clear means: data is requested; no error is reported.\<close>

definition data_ready :: "u8 \<Rightarrow> bool" where
  "data_ready st \<longleftrightarrow> st AND 0x01 = 0 \<and> st AND 0x20 = 0 \<and> st AND 0x08 \<noteq> 0"

definition no_error :: "u8 \<Rightarrow> bool" where
  "no_error st \<longleftrightarrow> st AND 0x01 = 0 \<and> st AND 0x20 = 0"

text \<open>The history when the drive is polled after a command, and when it has left the busy state.\<close>

definition polled :: "ata_device \<Rightarrow> port_event list \<Rightarrow> nat \<Rightarrow> port_event list" where
  "polled dev h k = h @ replicate (4 + k) (Inb (status_port dev))"

lemma ata_poll_log:
  assumes "ch = channel dev" "busy_until (hardware s) (status_port dev) (polled dev (bus s) 0) k"
  shows "ata_poll ch s = Some (data_ready (status_at (hardware s) (status_port dev) (polled dev (bus s) 0) k),
    log s (replicate (5 + k) (Inb (status_port dev))))"
    and "ata_wait_ready ch s = Some (no_error (status_at (hardware s) (status_port dev) (polled dev (bus s) 0) k),
    log s (replicate (5 + k) (Inb (status_port dev))))"
proof -
  let ?p = "status_port dev" and ?s = "log s (replicate 4 (Inb (status_port dev)))"
  have "wait_not_busy ch ?s = Some (status_at (hardware s) ?p (polled dev (bus s) 0) k, log ?s (replicate (Suc k) (Inb ?p)))"
    using wait_not_busy_log [of ?s ch k] assms by (simp add: polled_def)
  moreover have "log ?s (replicate (Suc k) (Inb ?p)) = log s (replicate (5 + k) (Inb ?p))"
    by (simp add: numeral_eq_Suc replicate_app_Cons_same)
  ultimately show "ata_poll ch s = Some (data_ready (status_at (hardware s) ?p (polled dev (bus s) 0) k), log s (replicate (5 + k) (Inb ?p)))"
    "ata_wait_ready ch s = Some (no_error (status_at (hardware s) ?p (polled dev (bus s) 0) k), log s (replicate (5 + k) (Inb ?p)))"
    using assms(1) by (simp_all add: ata_poll_def ata_wait_ready_def ata_delay_log data_ready_def no_error_def Let_def)
qed

text \<open>C16. Reading a sector: the driver selects the drive, gives it the low 28 bits of the sector number and the read
  command, and waits while the drive is busy. When the drive then reports data without an error, the result
  is exactly the 256 words the data port delivers, in order; otherwise the read fails and no data is
  transferred.\<close>

theorem pio_read_sector_transfers:
  assumes "present dev" "lba < sector_count dev"
    and "h = bus s @ command_log dev lba 0x20" "busy_until (hardware s) (status_port dev) (polled dev h 0) k"
  shows "addressed (ata_base_port (channel dev)) h = take_bit 28 lba \<and> selected (ata_base_port (channel dev)) h = drive dev \<and>
    register (status_port dev) h = 0x20 \<and>
    (if data_ready (status_at (hardware s) (status_port dev) (polled dev h 0) k)
     then pio_read_sector (Some dev) lba s = Some (Some (map (\<lambda>i. hardware s (polled dev h (Suc k) @ replicate i (Inw (ata_base_port (channel dev))))
              (ata_base_port (channel dev))) [0..<256]),
            s\<lparr>bus := polled dev h (Suc k) @ replicate 256 (Inw (ata_base_port (channel dev)))\<rparr>)
     else pio_read_sector (Some dev) lba s = Some (None, s\<lparr>bus := polled dev h (Suc k)\<rparr>))"
proof -
  let ?s = "log s (command_log dev lba 0x20)"
  have h: "bus ?s = h" "hardware ?s = hardware s" using assms by simp_all
  have "register (status_port dev) h = 0x20" unfolding assms(3) register_append_command by simp
  moreover have "ata_poll (channel dev) ?s = Some (data_ready (status_at (hardware s) (status_port dev) (polled dev h 0) k),
      log ?s (replicate (5 + k) (Inb (status_port dev))))"
    using ata_poll_log(1) [of "channel dev" dev ?s k] assms(4) h by simp
  moreover have "log ?s (replicate (5 + k) (Inb (status_port dev))) = s\<lparr>bus := polled dev h (Suc k)\<rparr>"
    using assms(3) by (simp add: log_def polled_def)
  ultimately show ?thesis
    using assms(1) assms(2) [folded not_le] unfolding assms(3) addressed_command selected_command
    by (simp add: pio_read_sector_def send_command_log read_words_log split_beta Let_def) (simp add: log_def)
qed

text \<open>A drive that is never busy, always has data, and delivers the same word each time.\<close>

definition demo_drive :: ata_device where
  "demo_drive = \<lparr>present = True, channel = ATA_PRIMARY, drive = ATA_SLAVE, model = [], sector_count = 100\<rparr>"

definition demo_bus :: io where
  "demo_bus = \<lparr>bus = [], hardware = (\<lambda>h p. if p = 0x1F7 then 0x48 else 0x1234)\<rparr>"

lemma demo_status: "status_at (hardware demo_bus) (status_port demo_drive) h k = 0x48"
  by (simp add: status_at_def demo_bus_def demo_drive_def ata_base_port_def)

lemma demo_status_ok: "busy_until (hardware demo_bus) (status_port demo_drive) h 0" "data_ready 0x48" "no_error 0x48"
  by (simp_all add: busy_until_def demo_status data_ready_def no_error_def)

theorem pio_read_sector_transfers_witness:
  "\<exists>s'. pio_read_sector (Some demo_drive) 5 demo_bus = Some (Some (replicate 256 0x1234), s')"
proof -
  have d: "present demo_drive" "5 < sector_count demo_drive" by (simp_all add: demo_drive_def)
  have "map (\<lambda>i. hardware demo_bus (g i) (ata_base_port (channel demo_drive))) [0..<256] = replicate 256 0x1234" for g
    by (simp add: demo_bus_def demo_drive_def ata_base_port_def map_replicate_const)
  then show ?thesis
    using pio_read_sector_transfers [OF d refl demo_status_ok(1)] demo_status_ok(2) by (simp add: demo_status)
qed

lemma pio_write_run:
  assumes "present dev" "lba < sector_count dev" "length ws = 256" "base = ata_base_port (channel dev)"
    and "h = bus s @ command_log dev lba 0x30" "busy_until (hardware s) (status_port dev) (polled dev h 0) k"
    and "h' = polled dev h (Suc k) @ map (Outw base) ws @ [Outb (base + 7) 0xE7]"
    and "busy_until (hardware s) (status_port dev) (polled dev h' 0) k'"
  shows "addressed base h = take_bit 28 lba \<and> selected base h = drive dev \<and> register (status_port dev) h = 0x30 \<and>
    (if data_ready (status_at (hardware s) (status_port dev) (polled dev h 0) k)
     then pio_write_sector (Some dev) lba ws s =
       Some (no_error (status_at (hardware s) (status_port dev) (polled dev h' 0) k'), s\<lparr>bus := polled dev h' (Suc k')\<rparr>)
     else pio_write_sector (Some dev) lba ws s = Some (False, s\<lparr>bus := polled dev h (Suc k)\<rparr>))"
proof -
  let ?s = "log s (command_log dev lba 0x30)"
  have h: "bus ?s = h" "hardware ?s = hardware s" using assms by simp_all
  have r: "register (status_port dev) h = 0x30" unfolding assms(5) register_append_command by simp
  have poll: "ata_poll (channel dev) ?s = Some (data_ready (status_at (hardware s) (status_port dev) (polled dev h 0) k),
      log ?s (replicate (5 + k) (Inb (status_port dev))))"
    using ata_poll_log(1) [of "channel dev" dev ?s k] assms(6) h by simp
  have l: "log ?s (replicate (5 + k) (Inb (status_port dev))) = s\<lparr>bus := polled dev h (Suc k)\<rparr>"
    using assms(5) by (simp add: log_def polled_def)
  let ?s' = "s\<lparr>bus := h'\<rparr>"
  have send: "outb (base + 7) 0xE7 (fold (outw (base + 0)) (take 256 ws) (s\<lparr>bus := polled dev h (Suc k)\<rparr>)) = ?s'"
    using assms(3,7) by (simp add: fold_outw_log port_log) (simp add: log_def)
  have "ata_wait_ready (channel dev) ?s' = Some (no_error (status_at (hardware s) (status_port dev) (polled dev h' 0) k'),
      s\<lparr>bus := polled dev h' (Suc k')\<rparr>)"
    using ata_poll_log(2) [of "channel dev" dev ?s' k'] assms(8) by (simp add: log_def polled_def)
  then show ?thesis
    using assms(1) assms(2) [folded not_le] r poll l send unfolding assms(4,5) addressed_command selected_command
    by (simp add: pio_write_sector_def send_command_log)
qed

text \<open>Writing a sector: after the command and the wait the driver sends exactly the 256 words of the buffer, in order,
  to the addressed sector, then the cache flush, and succeeds if the drive reports no error after it; a drive
  that does not ask for the data gets none.\<close>

theorem pio_write_sector_transfers:
  assumes "present dev" "lba < sector_count dev" "length ws = 256" "base = ata_base_port (channel dev)"
    and "h = bus s @ command_log dev lba 0x30" "busy_until (hardware s) (status_port dev) (polled dev h 0) k"
    and "h' = polled dev h (Suc k) @ map (Outw base) ws @ [Outb (base + 7) 0xE7]"
    and "busy_until (hardware s) (status_port dev) (polled dev h' 0) k'"
  shows "addressed base h = take_bit 28 lba \<and> selected base h = drive dev \<and> register (status_port dev) h = 0x30 \<and>
    (if data_ready (status_at (hardware s) (status_port dev) (polled dev h 0) k)
     then pio_write_sector (Some dev) lba ws s =
       Some (no_error (status_at (hardware s) (status_port dev) (polled dev h' 0) k'), s\<lparr>bus := polled dev h' (Suc k')\<rparr>)
     else pio_write_sector (Some dev) lba ws s = Some (False, s\<lparr>bus := polled dev h (Suc k)\<rparr>))"
  by (rule pio_write_run [OF assms])

theorem pio_write_sector_transfers_witness:
  "\<exists>s'. pio_write_sector (Some demo_drive) 5 (replicate 256 7) demo_bus = Some (True, s')"
proof -
  have d: "present demo_drive" "5 < sector_count demo_drive" "length (replicate 256 7 :: u16 list) = 256"
    by (simp_all add: demo_drive_def)
  show ?thesis
    using pio_write_sector_transfers [OF d refl refl demo_status_ok(1) refl demo_status_ok(1)] demo_status_ok(2,3)
    by (simp add: demo_status)
qed

text \<open>What the waiting loops put on the bus, when they return.\<close>

lemma wait_not_busy_Some:
  assumes "wait_not_busy ch s = Some r"
  shows "\<exists>n. snd r = log s (replicate n (Inb (ata_base_port ch + 7)))"
proof (induction rule: wait_not_busy.raw_induct [OF _ assms])
  case (1 rec ch s r)
  let ?p = "ata_base_port ch + 7"
  show ?case
  proof (cases "status_at (hardware s) ?p (bus s) 0 AND 0x80 = 0")
    case True
    then have "snd r = log s (replicate 1 (Inb ?p))" using 1(2) by (auto simp: ata_read_status_log)
    then show ?thesis by blast
  next
    case False
    then have "rec ch (log s [Inb ?p]) = Some r" using 1(2) by (simp add: ata_read_status_log)
    then obtain n where "snd r = log (log s [Inb ?p]) (replicate n (Inb ?p))" using 1(1) by blast
    then have "snd r = log s (replicate (Suc n) (Inb ?p))" by simp
    then show ?thesis by blast
  qed
qed

lemma wait_data_Some:
  assumes "wait_data ch s = Some r"
  shows "\<exists>es. snd r = log s es"
proof (induction rule: wait_data.raw_induct [OF _ assms])
  case (1 rec ch s r)
  let ?s = "log s [Inb (ata_base_port ch + 7)]"
  show ?case
  proof (cases "\<exists>b. r = (b, ?s)")
    case True
    then show ?thesis by auto
  next
    case False
    then have "rec ch ?s = Some r" using 1(2) by (auto simp: ata_read_status_log Let_def split: if_splits)
    then obtain es where "snd r = log ?s es" using 1(1) by blast
    then show ?thesis by auto
  qed
qed

text \<open>Detection only uses the ports.\<close>

lemma ata_identify_Some:
  assumes "ata_identify ch d buf s = Some (found, buf', s')"
  shows "\<exists>es. s' = log s es"
  using assms
  by (auto simp: ata_identify_def ata_select_drive_def ata_delay_log ata_read_status_log port_log read_words_log Let_def
      split: if_splits bind_splits dest!: wait_not_busy_Some wait_data_Some) (rule exI, rule refl)+

lemma detect_loop_Some: "detect_loop cds i devs buf s = Some (devs', buf', s') \<Longrightarrow> \<exists>es. s' = log s es"
proof (induction cds arbitrary: i devs buf s)
  case (Cons cd cds)
  then obtain dev b1 s1 where d: "detect_device cd (devs ! i) buf s = Some (dev, b1, s1)"
    "detect_loop cds (Suc i) (devs[i := dev]) b1 s1 = Some (devs', buf', s')"
    by (auto split: bind_splits)
  then obtain f b2 where "ata_identify (fst cd) (snd cd) buf s = Some (f, b2, s1)"
    by (auto simp: detect_device_def split_beta Let_def split: bind_splits if_splits)
  then obtain es where "s1 = log s es" using ata_identify_Some by blast
  with Cons.IH [OF d(2)] show ?case by auto
qed (auto intro: exI [of _ "[]"])

lemma ata_poll_events:
  "ata_poll ch s = Some (b, s') \<Longrightarrow> \<exists>n. s' = log s (replicate n (Inb (ata_base_port ch + 7)))"
  "ata_wait_ready ch s = Some (b, s') \<Longrightarrow> \<exists>n. s' = log s (replicate n (Inb (ata_base_port ch + 7)))"
  by (auto simp: ata_poll_def ata_wait_ready_def ata_delay_log Let_def simp flip: replicate_add
      split: bind_splits if_splits dest!: wait_not_busy_Some)

text \<open>Nothing in the driver gives up waiting: on a channel without drives, where every read of the floating bus
  gives 0xFF, \<open>ata_identify\<close> never returns, so the kernel hangs in \<open>ata_detect_devices\<close>.\<close>

theorem ata_identify_hangs:
  assumes "\<And>h. hardware s h (ata_base_port ch + 7) = 0xFF"
  shows "ata_identify ch d buf s = None"
proof -
  have st: "status_at (hardware s) (ata_base_port ch + 7) h j = 0xFF" for h j by (simp add: status_at_def assms)
  have "wait_not_busy ch (log s es) = None" for es
    by (rule wait_not_busy_hangs) (simp add: st)
  then show ?thesis
    by (simp add: ata_identify_def ata_select_drive_def ata_delay_log ata_read_status_log port_log st split_beta Let_def)
qed

theorem ata_identify_hangs_witness:
  "ata_identify ATA_SECONDARY ATA_MASTER [] \<lparr>bus = [], hardware = (\<lambda>h p. if p = 0x177 then 0xFF else 0)\<rparr> = None"
  by (rule ata_identify_hangs) (simp add: ata_base_port_def)

end
