(* ===== verification/AtaDetect.thy ===== *)
theory AtaDetect
  imports AtaProps
begin

text \<open>
  Detection ends when every \<open>IDENTIFY\<close> command is answered. The answer may depend on the history: it is asked for
  only after the command, and only while no other command has been given to the channel. A drive that is not
  there may leave the status at 0, one of another kind (a CD-ROM drive) shows its signature or reports an
  error.
\<close>

section \<open>The answer of a drive\<close>

text \<open>The commands on the bus so far are \<open>IDENTIFY\<close> commands, as they are until detection is over.\<close>

definition only_identify :: "port_event list \<Rightarrow> bool" where
  "only_identify h \<longleftrightarrow> (\<forall>ch v. Outb (ata_base_port ch + 7) v \<in> set h \<longrightarrow> v = 0xEC)"

definition identify_log :: "ata_channel \<Rightarrow> ata_drive \<Rightarrow> port_event list" where
  "identify_log ch d =
     (let base = ata_base_port ch
      in [Outb (base + 6) (0xA0 OR drive_bits d)] @ replicate 8 (Inb (base + 7)) @
         [Outb (base + 2) 0, Outb (base + 3) 0, Outb (base + 4) 0, Outb (base + 5) 0, Outb (base + 7) 0xEC])"

text \<open>After \<open>j\<close> status bytes with neither flag comes one with data and no error, or one with an error.\<close>

definition reports :: "(port_event list \<Rightarrow> u16 \<Rightarrow> u16) \<Rightarrow> u16 \<Rightarrow> port_event list \<Rightarrow> nat \<Rightarrow> bool \<Rightarrow> bool" where
  "reports hw p h j ok \<longleftrightarrow>
     (\<forall>i < j. status_at hw p h i AND 0x01 = 0 \<and> status_at hw p h i AND 0x08 = 0) \<and>
     (if ok then status_at hw p h j AND 0x01 = 0 \<and> status_at hw p h j AND 0x08 \<noteq> 0 else status_at hw p h j AND 0x01 \<noteq> 0)"

text \<open>\<open>fitted\<close> says whether the drive \<open>d\<close> of the channel is there and identifies itself.\<close>

definition drive_answers :: "(port_event list \<Rightarrow> u16 \<Rightarrow> u16) \<Rightarrow> ata_channel \<Rightarrow> ata_drive \<Rightarrow> bool \<Rightarrow> bool" where
  "drive_answers hw ch d fitted \<longleftrightarrow>
     (let base = ata_base_port ch; p = base + 7
      in \<forall>h. only_identify h \<longrightarrow>
        (let h1 = h @ identify_log ch d
         in if status_at hw p h1 0 = 0 then \<not> fitted
            else \<exists>k. busy_until hw p (h1 @ [Inb p]) k \<and>
              (let h2 = h1 @ replicate (k + 2) (Inb p)
               in if status_at hw (base + 4) h2 0 \<noteq> 0 \<or> status_at hw (base + 5) (h2 @ [Inb (base + 4)]) 0 \<noteq> 0 then \<not> fitted
                  else \<exists>j. reports hw p (h2 @ [Inb (base + 4), Inb (base + 5), Outb 0x80 0]) j fitted)))"

lemma only_identify_append [simp]: "only_identify (h @ h') \<longleftrightarrow> only_identify h \<and> only_identify h'"
  by (auto simp: only_identify_def)

lemma only_identify_reads [simp]: "only_identify []" "only_identify (replicate n (Inb p))" "only_identify (replicate n (Inw p))"
  "only_identify (Inb p # h) \<longleftrightarrow> only_identify h"
  by (auto simp: only_identify_def)

lemma only_identify_other: "p \<noteq> 0x1F7 \<Longrightarrow> p \<noteq> 0x177 \<Longrightarrow> only_identify (Outb p v # h) \<longleftrightarrow> only_identify h"
  by (auto simp: only_identify_def ata_base_port_def split: if_splits)

lemma only_identify_map [simp]: "only_identify (map (Outb 0x3F8) cs)"
  by (auto simp: only_identify_def ata_base_port_def split: if_splits)

lemma only_identify_log: "only_identify (identify_log ch d)"
  by (auto simp: only_identify_def identify_log_def ata_base_port_def Let_def split: if_splits)

section \<open>Detection\<close>

lemma wait_data_log:
  assumes "reports (hardware s) (ata_base_port ch + 7) (bus s) j ok"
  shows "wait_data ch s = Some (ok, log s (replicate (Suc j) (Inb (ata_base_port ch + 7))))"
  using assms
proof (induction j arbitrary: s)
  case 0
  then show ?case by (subst wait_data.simps) (auto simp: ata_read_status_log reports_def split: if_splits)
next
  case (Suc j)
  let ?p = "ata_base_port ch + 7"
  have "reports (hardware s) ?p (bus (log s [Inb ?p])) j ok"
    using Suc.prems by (auto simp: reports_def status_at_Suc)
  then have "wait_data ch (log s [Inb ?p]) = Some (ok, log s (replicate (Suc (Suc j)) (Inb ?p)))"
    using Suc.IH [of "log s [Inb ?p]"] by simp
  moreover have "status_at (hardware s) ?p (bus s) 0 AND 0x01 = 0" "status_at (hardware s) ?p (bus s) 0 AND 0x08 = 0"
    using Suc.prems by (auto simp: reports_def)
  ultimately show ?case by (subst wait_data.simps) (simp add: ata_read_status_log)
qed

lemma identify_command: "outb (b + 7) 0xEC (outb (b + 5) 0 (outb (b + 4) 0 (outb (b + 3) 0 (outb (b + 2) 0
    (ata_delay_400ns ch (ata_select_drive ch d s)))))) = log s (identify_log ch d)" if "b = ata_base_port ch"
proof -
  have "replicate 8 (Inb (b + 7)) = replicate 4 (Inb (b + 7)) @ replicate 4 (Inb (b + 7))" by (simp flip: replicate_add)
  then show ?thesis using that by (simp add: identify_log_def ata_select_drive_def ata_delay_log port_log Let_def)
qed

lemma ata_identify_run:
  assumes a: "drive_answers (hardware s) ch d fitted" and q: "only_identify (bus s)"
  shows "\<exists>buf' es. ata_identify ch d buf s = Some (fitted, buf', log s es) \<and> only_identify es"
proof -
  let ?b = "ata_base_port ch" and ?p = "ata_base_port ch + 7" and ?hw = "hardware s"
  let ?c = "identify_log ch d"
  let ?s = "log s (?c @ [Inb ?p])"
  note ans = a [unfolded drive_answers_def Let_def, rule_format, OF q]
  have start: "ata_identify ch d buf s =
     (if status_at ?hw ?p (bus s @ ?c) 0 = 0 then Some (False, buf, ?s)
      else do {
        (_, s) \<leftarrow> wait_not_busy ch ?s;
        let (mid, s) = inb (?b + 4) s;
            (foreign, s) = (if mid \<noteq> 0 then (True, s) else let (high, s) = inb (?b + 5) s in (high \<noteq> 0, s))
        in if foreign then Some (False, buf, s)
           else do {
             (ok, s) \<leftarrow> wait_data ch (outb 0x80 0 s);
             if \<not> ok then Some (False, buf, s)
             else let (ws, s) = read_words ?b 256 s in Some (True, ws, s)
           }
      })"
    unfolding ata_identify_def Let_def identify_command [OF refl] ata_read_status_log log_simps prod.case by (rule refl)
  show ?thesis
  proof (cases "status_at ?hw ?p (bus s @ ?c) 0 = 0")
    case True
    then show ?thesis using ans start only_identify_log by auto
  next
    case False
    then obtain k where k: "busy_until ?hw ?p ((bus s @ ?c) @ [Inb ?p]) k" and rest:
      "if status_at ?hw (?b + 4) ((bus s @ ?c) @ replicate (k + 2) (Inb ?p)) 0 \<noteq> 0 \<or>
          status_at ?hw (?b + 5) (((bus s @ ?c) @ replicate (k + 2) (Inb ?p)) @ [Inb (?b + 4)]) 0 \<noteq> 0 then \<not> fitted
       else \<exists>j. reports ?hw ?p (((bus s @ ?c) @ replicate (k + 2) (Inb ?p)) @ [Inb (?b + 4), Inb (?b + 5), Outb 0x80 0]) j fitted"
      using ans by auto
    let ?e = "?c @ replicate (k + 2) (Inb ?p)"
    have "wait_not_busy ch ?s = Some (status_at ?hw ?p (bus ?s) k, log ?s (replicate (Suc k) (Inb ?p)))"
      using wait_not_busy_log [of ?s ch k] k by simp
    moreover have "log ?s (replicate (Suc k) (Inb ?p)) = log s ?e" by (simp add: replicate_app_Cons_same)
    ultimately have w: "wait_not_busy ch ?s = Some (status_at ?hw ?p (bus ?s) k, log s ?e)" by simp
    let ?mid = "status_at ?hw (?b + 4) (bus s @ ?e) 0" and ?high = "status_at ?hw (?b + 5) ((bus s @ ?e) @ [Inb (?b + 4)]) 0"
    have step: "ata_identify ch d buf s =
       (if ?mid \<noteq> 0 then Some (False, buf, log s (?e @ [Inb (?b + 4)]))
        else if ?high \<noteq> 0 then Some (False, buf, log s (?e @ [Inb (?b + 4), Inb (?b + 5)]))
        else do {
          (ok, s) \<leftarrow> wait_data ch (log s (?e @ [Inb (?b + 4), Inb (?b + 5), Outb 0x80 0]));
          if \<not> ok then Some (False, buf, s)
          else let (ws, s) = read_words ?b 256 s in Some (True, ws, s)
        })"
      using False by (simp add: start w port_log)
    have qe: "only_identify ?e" using only_identify_log by simp
    show ?thesis
    proof (cases "?mid \<noteq> 0 \<or> ?high \<noteq> 0")
      case True
      then have "\<not> fitted" using rest by simp
      then show ?thesis using True qe by (auto simp: step)
    next
      case False
      then obtain j where j: "reports ?hw ?p (bus (log s (?e @ [Inb (?b + 4), Inb (?b + 5), Outb 0x80 0]))) j fitted"
        using rest by auto
      then have "reports (hardware (log s (?e @ [Inb (?b + 4), Inb (?b + 5), Outb 0x80 0]))) ?p
          (bus (log s (?e @ [Inb (?b + 4), Inb (?b + 5), Outb 0x80 0]))) j fitted" by (simp only: log_simps)
      note data = wait_data_log [OF this]
      have qo: "only_identify (?e @ [Inb (?b + 4), Inb (?b + 5), Outb 0x80 0])" using qe by (simp add: only_identify_other)
      then have "only_identify ((?e @ [Inb (?b + 4), Inb (?b + 5), Outb 0x80 0]) @ replicate (Suc j) (Inb ?p) @ replicate n (Inw ?b))" for n
        by (simp only: only_identify_append only_identify_reads simp_thms)
      moreover have "only_identify ((?e @ [Inb (?b + 4), Inb (?b + 5), Outb 0x80 0]) @ replicate (Suc j) (Inb ?p))"
        using qo by (simp only: only_identify_append only_identify_reads simp_thms)
      moreover have "ata_identify ch d buf s =
         (if \<not> fitted then Some (False, buf, log s ((?e @ [Inb (?b + 4), Inb (?b + 5), Outb 0x80 0]) @ replicate (Suc j) (Inb ?p)))
          else Some (True, fst (read_words ?b 256 (log s ((?e @ [Inb (?b + 4), Inb (?b + 5), Outb 0x80 0]) @ replicate (Suc j) (Inb ?p)))),
            log s ((?e @ [Inb (?b + 4), Inb (?b + 5), Outb 0x80 0]) @ replicate (Suc j) (Inb ?p) @ replicate 256 (Inw ?b))))"
        using False unfolding step data by (simp add: read_words_log del: replicate.simps)
      ultimately show ?thesis by (cases fitted) auto
    qed
  qed
qed

lemma detect_loop_run:
  assumes "\<And>ch d. drive_answers (hardware s) ch d (fitted ch d)" "only_identify (bus s)" "length devs = i + length cds"
  shows "\<exists>devs' buf' es. detect_loop cds i devs buf s = Some (devs', buf', log s es) \<and> only_identify es \<and>
    map present devs' = map present (take i devs) @ map (\<lambda>(ch, d). fitted ch d) cds"
  using assms
proof (induction cds arbitrary: i devs buf s)
  case Nil
  then show ?case by (intro exI [of _ devs] exI [of _ buf] exI [of _ "[]"]) simp
next
  case (Cons cd cds)
  obtain ch d where cd: "cd = (ch, d)" by fastforce
  obtain b1 es where e: "ata_identify ch d buf s = Some (fitted ch d, b1, log s es)" "only_identify es"
    using ata_identify_run [OF Cons.prems(1,2)] by blast
  then obtain dev where dev: "detect_device cd (devs ! i) buf s = Some (dev, b1, log s es)" "present dev = fitted ch d"
    by (cases "fitted ch d") (simp_all add: cd detect_device_def ata_parse_identify_def Let_def)
  have n: "i < length devs" using Cons.prems(3) by simp
  have "drive_answers (hardware (log s es)) ch d (fitted ch d)" "only_identify (bus (log s es))" "length (devs[i := dev]) = Suc i + length cds"
    for ch d using Cons.prems e(2) by simp_all
  then obtain devs' buf' fs where r: "detect_loop cds (Suc i) (devs[i := dev]) b1 (log s es) = Some (devs', buf', log (log s es) fs)"
    "only_identify fs" "map present devs' = map present (take (Suc i) (devs[i := dev])) @ map (\<lambda>(ch, d). fitted ch d) cds"
    using Cons.IH by blast
  have "take (Suc i) (devs[i := dev]) = take i devs @ [dev]" using n by (simp add: take_Suc_conv_app_nth)
  then have "map present devs' = map present (take i devs) @ map (\<lambda>(ch, d). fitted ch d) (cd # cds)" using r(3) dev(2) by (simp add: cd)
  then show ?case using dev(1) r(1,2) e(2) by (intro exI [of _ devs'] exI [of _ buf'] exI [of _ "es @ fs"]) simp
qed

text \<open>Which of the four drives are there, in the order of the table.\<close>

definition drive_table :: "(ata_channel \<Rightarrow> ata_drive \<Rightarrow> bool) \<Rightarrow> bool list" where
  "drive_table fitted = [fitted ATA_PRIMARY ATA_MASTER, fitted ATA_PRIMARY ATA_SLAVE, fitted ATA_SECONDARY ATA_MASTER, fitted ATA_SECONDARY ATA_SLAVE]"

lemma ata_detect_run:
  assumes "\<And>ch d. drive_answers (hardware s) ch d (fitted ch d)" "only_identify (bus s)" "length devs = 4"
  obtains devs' buf' es where "ata_detect_devices devs buf s = Some (devs', buf', log s es)" "only_identify es"
    "map present devs' = drive_table fitted"
  using detect_loop_run [where fitted = fitted and i = 0 and devs = devs and buf = buf and s = s and
      cds = "[(ATA_PRIMARY, ATA_MASTER), (ATA_PRIMARY, ATA_SLAVE), (ATA_SECONDARY, ATA_MASTER), (ATA_SECONDARY, ATA_SLAVE)]"] assms
  unfolding ata_detect_devices_def drive_table_def by (auto simp del: detect_loop.simps)

end
