(* ===== verification/BootRoom.thy ===== *)
theory BootRoom
  imports KernThms
begin

text \<open>
  At boot there is room: the heap is empty and a few frames are free, so that \<open>process_init\<close> and
  \<open>scheduler_init\<close> make the kernel process and the idle thread. Only the amount of the heap that has ever been
  used is followed here; the structure of the heap is the subject of the theories below.
\<close>

section \<open>Requests that fit\<close>

definition heap_top :: "heap_t \<Rightarrow> nat" where
  "heap_top h = unat (heap_offset h)"

lemma heap_top_kfree [simp]: "heap_top (kfree p h) = heap_top h"
  by (simp add: heap_top_def kfree_def put_word_def split: option.split)

lemma kmalloc_room:
  assumes "heap_good h" "0 < unat req" "heap_top h + 8 + rounded (unat req) \<le> 0x100000"
  shows "\<exists>b h'. kmalloc req h = Some (Some b, h') \<and> heap_top h' \<le> heap_top h + 8 + rounded (unat req)"
proof -
  have small: "unat req \<le> 0x100000" using assms(3) by (simp add: rounded_def)
  have n: "unat (round_size req) = rounded (unat req)" by (rule unat_round_size [OF small])
  have top: "unat (heap_offset h + HEADER_SIZE + round_size req) = heap_top h + 8 + rounded (unat req)"
    using assms(3) n by (simp add: unat_word_ariths heap_top_def)
  obtain r h' where k: "kmalloc req h = Some (r, h')" using heap.alloc_returns [OF assms(1), of req] assms(2) small by auto
  have nz: "req \<noteq> 0" using assms(2) by auto
  obtain found where f: "find_free_block h (round_size req) 0 = Some found"
    using k nz by (auto simp: kmalloc_def Let_def split: bind_splits)
  show ?thesis
  proof (cases found)
    case None
    then have "\<not> heap_offset h + HEADER_SIZE + round_size req > HEAP_SIZE" using top assms(3) by (simp add: word_less_nat_alt)
    from kmalloc_new [OF nz f [unfolded None] this] show ?thesis using top by (simp add: heap_top_def put_word_def)
  next
    case (Some b)
    from kmalloc_found [OF nz f [unfolded Some]] show ?thesis by (simp add: heap_top_def put_word_def)
  qed
qed

text \<open>Destroying an address space only frees heap blocks.\<close>

lemma free_frame_heap: "free_frame p s = Some s' \<Longrightarrow> heap s' = heap s"
  by (auto simp: free_frame_def split: bind_splits)

lemma free_table_at_heap: "free_table_at t i s = Some s' \<Longrightarrow> heap s' = heap s"
  by (auto simp: free_table_at_def set_table_ptr_def dest!: free_frame_heap split: if_splits bind_splits)

lemma free_tables_top: "free_tables r s = Some s' \<Longrightarrow> heap_top (heap s') = heap_top (heap s)"
  by (auto simp: free_tables_def split: ref.splits)

lemma for_each_heap:
  assumes "for_each f xs s = Some s'" "\<And>x s s'. f x s = Some s' \<Longrightarrow> heap s' = heap s"
  shows "heap s' = heap s"
  using assms(1)
proof (induction xs arbitrary: s)
  case (Cons x xs)
  then obtain s1 where "f x s = Some s1" "for_each f xs s1 = Some s'" by (auto split: bind_splits)
  with Cons.IH assms(2) show ?case by metis
qed simp

lemma address_space_destroy_top:
  assumes "address_space_destroy r s = Some s'"
  shows "heap_top (heap s') = heap_top (heap s)"
  using assms
  by (auto simp: address_space_destroy_def set_tables_def set_directory_def
      dest!: free_frame_heap free_tables_top for_each_heap [OF _ free_table_at_heap]
      split: option.splits ref.splits if_splits bind_splits)

section \<open>The boot processes\<close>

lemma address_space_create_room:
  assumes "pmm_ok (pmm s)" "low_frames 2 (pmm s)" "2 \<le> length (free_list (pmm s))"
    and "heap_good (heap s)" "heap_top (heap s) + 4104 \<le> 0x100000"
  shows "\<exists>as s'. address_space_create lay s = Some (Some (Dyn as), s') \<and> heap_top (heap s') \<le> heap_top (heap s) + 4104"
proof -
  obtain f g fs where fl: "free_list (pmm s) = f # g # fs"
    using assms(3) by (cases "free_list (pmm s)"; cases "tl (free_list (pmm s))") auto
  have low: "f < 1024" "g < 1024" using assms(2) fl by (simp_all add: low_frames_def)
  obtain p1 where p1: "pmm_alloc_frame (pmm s) = Some (Some (frame_addr f), p1)" "free_list p1 = g # fs"
    using pmm_alloc_list [OF assms(1)] fl by auto
  have "pmm_ok p1" by (rule frame_alloc_some(3) [OF assms(1) p1(1)])
  then obtain p2 where p2: "pmm_alloc_frame p1 = Some (Some (frame_addr g), p2)" using pmm_alloc_list [of p1] p1(2) by auto
  have n: "0 < unat (4096 :: u32)" "rounded (unat (4096 :: u32)) = 4096" by (simp_all add: rounded_def)
  then obtain b h where h: "kmalloc 4096 (heap s) = Some (Some b, h)" "heap_top h \<le> heap_top (heap s) + 4104"
    using kmalloc_room [OF assms(4), of 4096] assms(5) by auto
  have "mapped (frame_addr f)" "mapped (frame_addr g)" using mapped_frame low by blast+
  from create_run [OF p1(1) this(1) h(1) p2 this(2), of lay] h(2) show ?thesis by auto
qed

lemma k_alloc_room:
  assumes "heap_good (heap (mm s))" "0 < unat req" "heap_top (heap (mm s)) + 8 + rounded (unat req) \<le> 0x100000"
  shows "\<exists>b h. k_alloc req s = Some (Some b, s\<lparr>mm := (mm s)\<lparr>heap := h\<rparr>\<rparr>) \<and>
    heap_good h \<and> heap_top h \<le> heap_top (heap (mm s)) + 8 + rounded (unat req)"
proof -
  obtain b h where h: "kmalloc req (heap (mm s)) = Some (Some b, h)" "heap_top h \<le> heap_top (heap (mm s)) + 8 + rounded (unat req)"
    using kmalloc_room [OF assms] by blast
  have "unat req \<le> 0x100000" using assms(3) by (simp add: rounded_def)
  then have "heap_good h" using heap.alloc_some [OF assms(1) _ h(1)] assms(2) by simp
  moreover have "k_alloc req s = Some (Some b, s\<lparr>mm := (mm s)\<lparr>heap := h\<rparr>\<rparr>)" using h(1) by (simp add: k_alloc_def lift_heap_def)
  ultimately show ?thesis using h(2) by blast
qed

lemma process_create_room:
  assumes "pmm_ok (pmm (mm s))" "low_frames 2 (pmm (mm s))" "2 \<le> length (free_list (pmm (mm s)))"
    and "heap_good (heap (mm s))" "heap_top (heap (mm s)) + 4168 \<le> 0x100000"
  shows "\<exists>p s'. process_create lay name s = Some (Some p, s') \<and> heap_top (heap (mm s')) \<le> heap_top (heap (mm s)) + 4168"
proof -
  have n: "0 < unat (56 :: u32)" "rounded (unat (56 :: u32)) = 56" by (simp_all add: rounded_def)
  obtain p h where h: "k_alloc 56 s = Some (Some p, s\<lparr>mm := (mm s)\<lparr>heap := h\<rparr>\<rparr>)" "heap_good h" "heap_top h \<le> heap_top (heap (mm s)) + 64"
    using k_alloc_room [OF assms(4) n(1)] assms(5) n(2) by auto
  let ?m = "(mm s)\<lparr>heap := h\<rparr>"
  obtain as m where c: "address_space_create lay ?m = Some (Some (Dyn as), m)" "heap_top (heap m) \<le> heap_top h + 4104"
    using address_space_create_room [of ?m lay] assms h by auto
  obtain s' where s': "process_create lay name s = Some (Some p, s')" "mm s' = m"
    using h(1) c(1) by (cases "process_list_tail s") (auto simp: process_create_def k_create_space_def Let_def upd_process_def)
  then show ?thesis using c(2) h(3) by auto
qed

lemma process_init_room:
  assumes "pmm_ok (pmm (mm s))" "low_frames 2 (pmm (mm s))" "2 \<le> length (free_list (pmm (mm s)))"
    and "heap_good (heap (mm s))" "heap_top (heap (mm s)) + 4168 \<le> 0x100000" "process_init lay name s = Some s1"
  shows "\<exists>p. kernel_process s1 = Some p \<and> heap_top (heap (mm s1)) \<le> heap_top (heap (mm s)) + 4168"
proof -
  let ?s0 = "s\<lparr>next_pid := 1, current_process := None, kernel_process := None\<rparr>"
  obtain p s' where c: "process_create lay (Some name) ?s0 = Some (Some p, s')" "heap_top (heap (mm s')) \<le> heap_top (heap (mm s)) + 4168"
    using process_create_room [of ?s0 lay "Some name"] assms(1-5) by auto
  then show ?thesis using assms(6)
    by (auto simp: process_init_def Let_def k_destroy_space_def upd_process_def dest!: address_space_destroy_top split: if_splits bind_splits)
qed

lemma thread_create_room:
  assumes "heap_good (heap (mm s))" "heap_top (heap (mm s)) + 4184 \<le> 0x100000" "p_state (processes s p) = PROCESS_RUNNING" "entry \<noteq> 0"
  shows "\<exists>a t. thread_create_in_process (Some p) entry name s = Some (Some (Dyn a), t) \<and> kernel_process t = kernel_process s \<and>
    heap_top (heap (mm t)) \<le> heap_top (heap (mm s)) + 4184"
proof -
  have n: "0 < unat (68 :: u32)" "rounded (unat (68 :: u32)) = 72" "0 < unat THREAD_STACK_SIZE" "rounded (unat THREAD_STACK_SIZE) = 4096"
    by (simp_all add: rounded_def)
  obtain a h where h: "k_alloc 68 s = Some (Some a, s\<lparr>mm := (mm s)\<lparr>heap := h\<rparr>\<rparr>)" "heap_good h" "heap_top h \<le> heap_top (heap (mm s)) + 80"
    using k_alloc_room [of s 68] assms(1,2) n(1,2) by auto
  let ?t1 = "s\<lparr>mm := (mm s)\<lparr>heap := h\<rparr>\<rparr>"
  obtain b h2 where h2: "k_alloc THREAD_STACK_SIZE ?t1 = Some (Some b, ?t1\<lparr>mm := (mm ?t1)\<lparr>heap := h2\<rparr>\<rparr>)" "heap_top h2 \<le> heap_top h + 4104"
    using k_alloc_room [of ?t1 THREAD_STACK_SIZE] assms(2) h n(3,4) by auto
  show ?thesis using h(1,3) h2 assms(3,4)
    by (auto simp: thread_create_in_process_def Let_def upd_thread_def upd_process_def)
qed

lemma scheduler_init_room:
  assumes "heap_good (heap (mm s))" "heap_top (heap (mm s)) + 4184 \<le> 0x100000"
    and "current_process s = Some p" "p_state (processes s p) = PROCESS_RUNNING" "entry \<noteq> 0" "scheduler_init entry s = Some s'"
  shows "\<exists>a. idle_thread_instance s' = Some (Dyn a) \<and> kernel_process s' = kernel_process s \<and>
    heap_top (heap (mm s')) \<le> heap_top (heap (mm s)) + 4184"
proof -
  let ?s0 = "s\<lparr>next_tid := 1, current_thread := None, ready_queue_head := None, ready_queue_tail := None,
                terminated_queue_head := None, terminated_queue_tail := None\<rparr>"
  let ?th = "\<lambda>th. th\<lparr>tid := 1, t_state := THREAD_RUNNING, t_process := Some p,
                       kernel_stack := 0, kernel_stack_top := 0, saved_esp := 0, t_frame := 0, t_entry := 0,
                       t_next := None, t_name := (kernel_chars (t_name th))[6 := 0]\<rparr>"
  let ?s1 = "(upd_process p (\<lambda>pr. pr\<lparr>thread_count := thread_count pr + 1\<rparr>)
     ((upd_thread Static ?th ?s0)\<lparr>next_tid := 2\<rparr>))\<lparr>current_thread := Some Static\<rparr>"
  have e: "mm ?s1 = mm s" "p_state (processes ?s1 p) = PROCESS_RUNNING" "kernel_process ?s1 = kernel_process s"
    using assms(4) by (simp_all add: upd_process_def upd_thread_def)
  obtain a t where t: "thread_create_in_process (Some p) entry (Some idle_name) ?s1 = Some (Some (Dyn a), t)"
    "kernel_process t = kernel_process s" "heap_top (heap (mm t)) \<le> heap_top (heap (mm s)) + 4184"
    using thread_create_room [of ?s1, OF _ _ e(2) assms(5)] e(1,3) assms(1,2) by metis
  have "scheduler_init entry s = Some (t\<lparr>idle_thread_instance := Some (Dyn a)\<rparr>)"
    using t(1) assms(3) by (simp add: scheduler_init_def thread_init_def process_current_def Let_def)
  then show ?thesis using t(2,3) assms(6) by simp
qed

end
