(* ===== verification/KernelMainProps.thy ===== *)
theory KernelMainProps
  imports KernelMain MachineProps AtaDetect BootRoom
begin

text \<open>
  The boot sequence and the input loop: booting establishes the invariant of the machine and leaves the
  prompt on the screen; a line that is typed and edited reaches the shell; the commands on lists of files
  apply their operation to every word of the line.
\<close>

section \<open>Output leaves the rest alone\<close>

lemma system_more:
  fixes s :: system
  assumes "console.more s' = console.more s"
  shows "kern s' = kern s" "kbd s' = kbd s" "ticks s' = ticks s" "shift_pressed s' = shift_pressed s" "vol s' = vol s" "disks s' = disks s"
  using assms by (cases s; cases s'; simp)+

lemma machine_inv_more:
  fixes s :: system
  assumes "machine_inv lay (T, s)" "console.more s' = console.more s" "screen_ok (screen s')"
  shows "machine_inv lay (T, s')"
  using assms system_more [OF assms(2)] by (simp add: machine_inv_def)

text \<open>\<open>printed cs s s'\<close>: from \<open>s\<close> to \<open>s'\<close> nothing happens but the output of \<open>cs\<close>.\<close>

definition printed :: "u8 list \<Rightarrow> system \<Rightarrow> system \<Rightarrow> bool" where
  "printed cs s s' \<longleftrightarrow> bus s' = bus s @ map (Outb 0x3F8) cs \<and> hardware s' = hardware s \<and>
     console.more s' = console.more s \<and> screen_ok (screen s')"

lemma printed_trans: "printed cs s s1 \<Longrightarrow> printed ds s1 s2 \<Longrightarrow> printed (cs @ ds) s s2"
  by (simp add: printed_def)

lemma printed_keep:
  assumes "printed cs s s'"
  shows "kern s' = kern s" "kbd s' = kbd s" "ticks s' = ticks s" "vol s' = vol s" "disks s' = disks s" "screen_ok (screen s')"
  using assms system_more [of s' s] by (simp_all add: printed_def)

lemma terminal_write_printed:
  fixes s :: system
  assumes "screen_ok (screen s)"
  shows "\<exists>s'. terminal_write cs s = Some s' \<and> printed cs s s'"
  using assms
proof (induction cs arbitrary: s)
  case (Cons c cs)
  obtain v where v: "vga_putc c (screen s) = Some v" "screen_ok v" using vga_putc_ok Cons.prems by blast
  let ?s = "serial_putc c (s\<lparr>screen := v\<rparr>)"
  have s1: "terminal_putchar c s = Some ?s" using v by (simp add: terminal_putchar_def on_screen_def)
  have "screen ?s = v" by (simp add: serial_putc_def outb_def)
  then have p1: "printed [c] s ?s" using v(2) by (simp add: printed_def serial_putc_def outb_def)
  obtain s2 where "terminal_write cs ?s = Some s2" "printed cs ?s s2"
    using Cons.IH [of ?s] v(2) \<open>screen ?s = v\<close> by auto
  with s1 printed_trans [OF p1] show ?case by fastforce
qed (simp add: printed_def)

lemma terminal_writeIn_printed:
  fixes s :: system
  assumes "screen_ok (screen s)"
  shows "\<exists>s'. terminal_writeIn cs s = Some s' \<and> printed (cs @ [0x0A]) s s'"
  unfolding terminal_writeIn_write by (rule terminal_write_printed [OF assms])

section \<open>The arguments of the file commands\<close>

fun run_all :: "('a \<Rightarrow> 'v \<Rightarrow> (bool \<times> 'v) option) \<Rightarrow> 'a list \<Rightarrow> 'v \<Rightarrow> 'v option" where
  "run_all f [] v = Some v"
| "run_all f (w # ws) v = (case f w v of None \<Rightarrow> None | Some (ok, v) \<Rightarrow> run_all f ws v)"

lemma each_argument_all:
  assumes "screen_ok (screen s)"
  shows "case run_all f (map (take 63) (words args)) (vol s) of
      None \<Rightarrow> each_argument f args s = None
    | Some v \<Rightarrow> \<exists>s'. each_argument f args s = Some s' \<and> vol s' = v \<and> kern s' = kern s \<and> disks s' = disks s \<and>
        kbd s' = kbd s \<and> screen_ok (screen s')"
  using assms
proof (induction "length args" arbitrary: args s rule: less_induct)
  case less
  have z: "(0::nat) < 64" by simp
  show ?case
  proof (cases args rule: get_next_argument_cases [OF z])
    case 1
    then show ?thesis using less.prems by (subst each_argument.simps) simp
  next
    case (2 w ws r)
    then have g: "get_next_argument args 64 = Some (take 63 w, r)" by simp
    show ?thesis
    proof (cases "f (take 63 w) (vol s)")
      case None
      then show ?thesis using 2 g by (subst each_argument.simps) (simp add: on_vol_def)
    next
      case (Some x)
      then obtain ok v where x: "f (take 63 w) (vol s) = Some (ok, v)" by (cases x) simp
      let ?s1 = "s\<lparr>vol := v\<rparr>"
      obtain s3 where s3: "(if ok then Some ?s1
          else do { s2 \<leftarrow> terminal_write (bytes ''Failed: '') ?s1; terminal_writeIn (take 63 w) s2 }) = Some s3"
        "vol s3 = v" "kern s3 = kern s" "disks s3 = disks s" "kbd s3 = kbd s" "screen_ok (screen s3)"
      proof (cases ok)
        case True
        then show thesis using that [of ?s1] less.prems by simp
      next
        case False
        have "screen_ok (screen ?s1)" using less.prems by simp
        then obtain s2 where s2: "terminal_write (bytes ''Failed: '') ?s1 = Some s2" "printed (bytes ''Failed: '') ?s1 s2"
          using terminal_write_printed by blast
        note k2 = printed_keep [OF s2(2)]
        obtain s3 where s3: "terminal_writeIn (take 63 w) s2 = Some s3" "printed (take 63 w @ [0x0A]) s2 s3"
          using terminal_writeIn_printed [OF k2(6)] by blast
        note k3 = printed_keep [OF s3(2)]
        show thesis by (rule that [of s3]) (simp_all add: False s2(1) s3(1) k2 k3)
      qed
      have "each_argument f args s = each_argument f r s3"
        using g x s3(1) by (subst each_argument.simps) (simp add: on_vol_def)
      moreover have "run_all f (map (take 63) (words args)) (vol s) = run_all f (map (take 63) (words r)) (vol s3)"
        using 2 x s3(2) by simp
      ultimately show ?thesis using less.hyps [of r s3] 2(4) s3 by (auto split: option.splits)
    qed
  qed
qed

section \<open>Dispatch\<close>

definition file_commands :: "(string \<times> (disk_t option \<Rightarrow> u8 list \<Rightarrow> fs_state \<Rightarrow> (bool \<times> fs_state) option)) list" where
  "file_commands = [(''touch'', file_create), (''mkdir'', directory_create), (''rm'', file_delete), (''rmdir'', directory_delete)]"

lemma find_file_command:
  assumes "(name, f) \<in> set file_commands"
  obtains usage where "find_command (bytes name) command_table = Some (cmd_each usage f)" "length (bytes name) < 32"
proof -
  have c: "cmd_touch = cmd_each ''Usage: touch <file>'' file_create" "cmd_mkdir = cmd_each ''Usage: mkdir <directory>'' directory_create"
    "cmd_rm = cmd_each ''Usage: rm <file>'' file_delete" "cmd_rmdir = cmd_each ''Usage: rmdir <directory>'' directory_delete"
    by (simp_all add: cmd_touch_def cmd_mkdir_def cmd_rm_def cmd_rmdir_def fun_eq_iff)
  have "find_command (bytes ''touch'') command_table = Some cmd_touch" "find_command (bytes ''mkdir'') command_table = Some cmd_mkdir"
    "find_command (bytes ''rm'') command_table = Some cmd_rm" "find_command (bytes ''rmdir'') command_table = Some cmd_rmdir"
    by (simp_all add: command_table_def bytes_def)
  then show thesis using assms that unfolding c by (auto simp: file_commands_def bytes_def)
qed

lemma shell_execute_run:
  assumes "screen_ok (screen s)" "(name, f) \<in> set file_commands" "words input = bytes name # ws" "ws \<noteq> []"
    and "length input \<le> 223" "disk_get (disks s) 0 = Some d"
  shows "case run_all (f (Some d)) (map (take 63) ws) (vol s) of
      None \<Rightarrow> shell_execute input s = None
    | Some v \<Rightarrow> \<exists>s'. shell_execute input s = Some (Go_On_With s') \<and> vol s' = v \<and> kern s' = kern s \<and> disks s' = disks s \<and>
        kbd s' = kbd s \<and> screen_ok (screen s')"
proof -
  obtain usage where u: "find_command (bytes name) command_table = Some (cmd_each usage f)" "length (bytes name) < 32"
    using find_file_command [OF assms(2)] by blast
  obtain args where sp: "split_command input = (bytes name, args)" "words args = ws"
    using split_command_words [OF assms(3) u(2) assms(5)] by (cases "split_command input") simp
  have ne: "args \<noteq> []" "input \<noteq> []" using sp(2) assms(3,4) by auto
  obtain s1 where s1: "terminal_writeIn (bytes []) s = Some s1" "printed (bytes [] @ [0x0A]) s s1"
    using terminal_writeIn_printed [OF assms(1)] by blast
  note k = printed_keep [OF s1(2)]
  have ex: "shell_execute input s = cmd_each usage f args s1"
    using ne(2) sp(1) u(1) s1(1) by (simp add: shell_execute_def writeln_def)
  have each: "cmd_each usage f args s1 = go_on (each_argument (f (Some d)) args s1)"
    using ne(1) assms(6) k by (simp add: cmd_each_def Let_def)
  show ?thesis
    using each_argument_all [OF k(6), of "f (Some d)" args] unfolding ex each sp(2) k(4)
    by (auto simp: go_on_def k split: option.splits)
qed

section \<open>The input line\<close>

definition edit_line :: "u8 list \<Rightarrow> u8 \<Rightarrow> u8 list" where
  "edit_line l c =
     (if c = 0 then l else if c = 0x08 then butlast l else if length l < 127 then l @ [c] else l)"

definition holds_line :: "line_state \<Rightarrow> u8 list \<Rightarrow> bool" where
  "holds_line ln l \<longleftrightarrow> length (fst ln) = 128 \<and> snd ln = length l \<and> length l \<le> 127 \<and> take (snd ln) (fst ln) = l \<and> 0 \<notin> set l"

text \<open>The characters of a line, one after another, as \<open>main_char\<close> takes them.\<close>

fun main_chars :: "u8 list \<Rightarrow> line_state \<Rightarrow> system \<Rightarrow> (line_state \<times> system) ending option" where
  "main_chars [] ln s = Some (Go_On_With (ln, s))"
| "main_chars (c # cs) ln s =
     (case main_char c ln s of
        Some (Go_On_With (ln, s)) \<Rightarrow> main_chars cs ln s
      | r \<Rightarrow> r)"

lemma main_char_edits:
  assumes "holds_line ln l" "screen_ok (screen s)" "c \<noteq> 0x0A"
  shows "\<exists>ln' s'. main_char c ln s = Some (Go_On_With (ln', s')) \<and> holds_line ln' (edit_line l c) \<and>
    console.more s' = console.more s \<and> screen_ok (screen s')"
proof -
  obtain input index where ln: "ln = (input, index)" by (cases ln)
  have h: "length input = 128" "index = length l" "length l \<le> 127" "take index input = l" "0 \<notin> set l"
    using assms(1) by (auto simp: holds_line_def ln)
  consider "c = 0" | "c = 0x08" "index = 0" | "c = 0x08" "index > 0" | "c \<noteq> 0" "c \<noteq> 0x08" "index < 127"
    | "c \<noteq> 0" "c \<noteq> 0x08" "\<not> index < 127" by blast
  then show ?thesis
  proof cases
    case 1
    then show ?thesis using assms h ln by (intro exI [of _ ln] exI [of _ s]) (simp add: main_char_def edit_line_def holds_line_def)
  next
    case 2
    then show ?thesis using assms h ln by (intro exI [of _ ln] exI [of _ s]) (simp add: main_char_def edit_line_def holds_line_def)
  next
    case 3
    obtain v where v: "vga_backspace (screen s) = Some v" "screen_ok v" using vga_backspace_ok assms(2) by blast
    let ?s = "s\<lparr>screen := v\<rparr>"
    have "take (index - 1) input = butlast l" using h(1,3) h(2,4) [symmetric] by (simp add: butlast_take)
    moreover have "terminal_backspace s = Some ?s" using v by (simp add: terminal_backspace_def on_screen_def)
    moreover have "0 \<notin> set (butlast l)" using h(5) by (auto dest: in_set_butlastD)
    ultimately show ?thesis using 3 h v ln
      by (intro exI [of _ "(input, index - 1)"] exI [of _ ?s]) (simp add: main_char_def edit_line_def holds_line_def)
  next
    case 4
    obtain s' where s': "terminal_write [c] s = Some s'" "printed [c] s s'" using terminal_write_printed [OF assms(2)] by blast
    have "take (Suc index) (input[index := c]) = l @ [c]" using h 4 by (simp add: take_Suc_update)
    then show ?thesis using s' 4 h ln assms(3)
      by (intro exI [of _ "(input[index := c], index + 1)"] exI [of _ s'])
        (simp add: main_char_def edit_line_def holds_line_def printed_def)
  next
    case 5
    then show ?thesis using assms h ln by (intro exI [of _ ln] exI [of _ s]) (simp add: main_char_def edit_line_def holds_line_def)
  qed
qed

lemma main_chars_edit:
  assumes "holds_line ln l" "screen_ok (screen s)" "0x0A \<notin> set cs"
  shows "\<exists>ln' s'. main_chars cs ln s = Some (Go_On_With (ln', s')) \<and> holds_line ln' (foldl edit_line l cs) \<and>
    console.more s' = console.more s \<and> screen_ok (screen s')"
  using assms
proof (induction cs arbitrary: ln l s)
  case (Cons c cs)
  then obtain ln1 s1 where 1: "main_char c ln s = Some (Go_On_With (ln1, s1))" "holds_line ln1 (edit_line l c)"
    "console.more s1 = console.more s" "screen_ok (screen s1)"
    using main_char_edits [of ln l s c] by auto
  with Cons.IH [of ln1 "edit_line l c" s1] Cons.prems show ?case by auto
qed auto

lemma main_char_newline:
  assumes "holds_line ln l"
  shows "main_char 0x0A ln s =
    (case shell_execute l s of
       None \<Rightarrow> None
     | Some (Go_On_With s') \<Rightarrow> map_option (\<lambda>s''. Go_On_With (((fst ln)[length l := 0], 0), s'')) (terminal_prompt s')
     | Some e \<Rightarrow> Some (map_ending (\<lambda>s'. (((fst ln)[length l := 0], length l), s')) e))"
proof -
  obtain input index where ln: "ln = (input, index)" by (cases ln)
  have h: "length input = 128" "index = length l" "length l \<le> 127" "take index input = l" "0 \<notin> set l"
    using assms by (auto simp: holds_line_def ln)
  have "input[index := 0] = l @ 0 # drop (Suc index) input"
    using h upd_conv_take_nth_drop [of index input 0] by simp
  then have "takeWhile (\<lambda>c. c \<noteq> 0) (input[index := 0]) = l" using h(5) by (auto intro: takeWhile_append2 [THEN trans])
  then show ?thesis using h unfolding ln main_char_def
    by (auto simp: Let_def map_option_case split: option.splits ending.splits)
qed

section \<open>Booting\<close>

lemma write_lines_write: "write_lines ls s = terminal_write (concat (map (\<lambda>l. l @ [0x0A]) ls)) s"
proof (induction ls arbitrary: s)
  case (Cons l ls)
  then show ?case by (cases "terminal_write (l @ [0x0A]) s") (simp_all add: terminal_writeIn_write terminal_write_append [of "l @ [0x0A]"] del: append.simps append_assoc)
qed simp

text \<open>The output so far: what has been written since \<open>terminal_init\<close>, on the screen, while the drives have got no
  command but \<open>IDENTIFY\<close>; the rest of the system has changed as described by the caller.\<close>

definition said :: "u8 list \<Rightarrow> booting \<Rightarrow> bool" where
  "said cs b \<longleftrightarrow> on_display 0xF0 cs (sys b) \<and> only_identify (bus (sys b))"

lemma said_with_sys:
  assumes "said cs b"
  shows "\<exists>s'. terminal_write ds (sys b) = Some s' \<and> with_sys (terminal_write ds) b = Some (b\<lparr>sys := s'\<rparr>) \<and>
    said (cs @ ds) (b\<lparr>sys := s'\<rparr>) \<and> console.more s' = console.more (sys b) \<and> hardware s' = hardware (sys b)"
proof -
  have "ready_screen (sys b)" using assms by (auto simp: said_def ready_screen_def)
  then obtain s' where "terminal_write ds (sys b) = Some s'" "wrote ds (sys b) s'" using terminal_write_wrote by blast
  with assms show ?thesis by (auto simp: with_sys_def said_def wrote_def)
qed

lemma said_writeln:
  assumes "said cs b"
  obtains s' where "with_sys (writeln m) b = Some (b\<lparr>sys := s'\<rparr>)" "said (cs @ bytes m @ [0x0A]) (b\<lparr>sys := s'\<rparr>)"
    "console.more s' = console.more (sys b)" "hardware s' = hardware (sys b)"
  using said_with_sys [OF assms, of "bytes m @ [0x0A]"] unfolding writeln_def terminal_writeIn_write by auto

text \<open>Steps that keep what has been said: they do not touch the screen.\<close>

lemma said_ports:
  "said cs b \<Longrightarrow> screen (sys b') = screen (sys b) \<Longrightarrow> bus (sys b') = bus (sys b) @ es \<Longrightarrow> only_identify es \<Longrightarrow> said cs b'"
  by (simp add: said_def on_display_def)

lemma said_same_screen: "said cs b \<Longrightarrow> screen (sys b') = screen (sys b) \<Longrightarrow> bus (sys b') = bus (sys b) \<Longrightarrow> said cs b'"
  by (rule said_ports [where es = "[]"]) simp_all

lemma more_screen: "io.more s' = io.more s \<Longrightarrow> screen (s' :: system) = screen s"
  "io.more s' = io.more s \<Longrightarrow> console.more (s' :: system) = console.more s"
  by (cases s; cases s'; simp)+

definition tables_text :: "u8 list" where
  "tables_text = bytes ''Loading GDT....................... [ OK ]'' @ [0x0A] @ bytes ''Loading IDT....................... [ OK ]'' @ [0x0A]"

lemma boot_tables_run:
  assumes "said cs b"
  obtains b' where "boot_tables pf b = Some b'" "said (cs @ tables_text) b'"
    "console.more (sys b') = console.more (sys b)" "hardware (sys b') = hardware (sys b)" "regions b' = regions b"
    "(gdt b', gdtr b') = gdt_init (pf_gdt_address pf) (gdt b)"
    "(idt b', idtr b') = idt_init (pf_idt_address pf) (pf_isr_stub pf) (pf_irq_stub pf) (idt b)"
proof -
  obtain g gp where g: "gdt_init (pf_gdt_address pf) (gdt b) = (g, gp)" by fastforce
  obtain i ip where i: "idt_init (pf_idt_address pf) (pf_isr_stub pf) (pf_irq_stub pf) (idt b) = (i, ip)" by fastforce
  let ?b1 = "b\<lparr>gdt := g, gdtr := gp\<rparr>"
  have "said cs ?b1" by (rule said_same_screen [OF assms]) simp_all
  then obtain s1 where s1: "with_sys (writeln ''Loading GDT....................... [ OK ]'') ?b1 = Some (?b1\<lparr>sys := s1\<rparr>)"
    "said (cs @ bytes ''Loading GDT....................... [ OK ]'' @ [0x0A]) (?b1\<lparr>sys := s1\<rparr>)"
    "console.more s1 = console.more (sys ?b1)" "hardware s1 = hardware (sys ?b1)" by (rule said_writeln)
  let ?b2 = "b\<lparr>gdt := g, gdtr := gp, sys := s1, idt := i, idtr := ip\<rparr>"
  have "said (cs @ bytes ''Loading GDT....................... [ OK ]'' @ [0x0A]) ?b2"
    by (rule said_same_screen [OF s1(2)]) simp_all
  then obtain s2 where s2: "with_sys (writeln ''Loading IDT....................... [ OK ]'') ?b2 = Some (?b2\<lparr>sys := s2\<rparr>)"
    "said ((cs @ bytes ''Loading GDT....................... [ OK ]'' @ [0x0A]) @ bytes ''Loading IDT....................... [ OK ]'' @ [0x0A]) (?b2\<lparr>sys := s2\<rparr>)"
    "console.more s2 = console.more (sys ?b2)" "hardware s2 = hardware (sys ?b2)" by (rule said_writeln)
  have "boot_tables pf b = Some (?b2\<lparr>sys := s2\<rparr>)"
    using s1(1) s2(1) i by (simp add: boot_tables_def g)
  then show thesis by (rule that) (use s1 s2 g i in \<open>simp_all add: tables_text_def\<close>)
qed

definition devices_text :: "u8 list" where
  "devices_text = bytes ''Initializing PIC.................. [ OK ]'' @ [0x0A] @ bytes ''Initializing Keyboard............. [ OK ]'' @ [0x0A] @
     bytes ''Initializing Timer................ [ OK ]'' @ [0x0A] @ bytes ''Initializing ATA.................. [ OK ]'' @ [0x0A]"

text \<open>One line of the boot sequence: a device is set up, then the line is written.\<close>

lemma said_step:
  assumes "said cs b" "screen (f (sys b)) = screen (sys b)" "hardware (f (sys b)) = hardware (sys b)"
    and "bus (f (sys b)) = bus (sys b) @ es" "only_identify es"
  obtains s' where "with_sys (writeln m) (upd_sys f b) = Some (b\<lparr>sys := s'\<rparr>)" "said (cs @ bytes m @ [0x0A]) (b\<lparr>sys := s'\<rparr>)"
    "console.more s' = console.more (f (sys b))" "hardware s' = hardware (sys b)"
proof -
  have "said cs (upd_sys f b)" by (rule said_ports [OF assms(1), where es = es]) (simp_all add: upd_sys_def assms(2,4,5))
  then obtain s' where s': "with_sys (writeln m) (upd_sys f b) = Some ((upd_sys f b)\<lparr>sys := s'\<rparr>)"
    "said (cs @ bytes m @ [0x0A]) ((upd_sys f b)\<lparr>sys := s'\<rparr>)" "console.more s' = console.more (sys (upd_sys f b))"
    "hardware s' = hardware (sys (upd_sys f b))" by (rule said_writeln)
  moreover have "(upd_sys f b)\<lparr>sys := s'\<rparr> = b\<lparr>sys := s'\<rparr>" by (simp add: upd_sys_def)
  ultimately show thesis using that [of s'] assms(3) by (simp add: upd_sys_def)
qed

lemma said_step_again:
  assumes "said cs (b\<lparr>sys := s\<rparr>)" "screen (f s) = screen s" "hardware (f s) = hardware s" "bus (f s) = bus s @ es" "only_identify es"
  obtains s' where "with_sys (writeln m) (upd_sys f (b\<lparr>sys := s\<rparr>)) = Some (b\<lparr>sys := s'\<rparr>)"
    "said (cs @ bytes m @ [0x0A]) (b\<lparr>sys := s'\<rparr>)" "console.more s' = console.more (f s)" "hardware s' = hardware s"
proof -
  obtain s' where "with_sys (writeln m) (upd_sys f (b\<lparr>sys := s\<rparr>)) = Some (b\<lparr>sys := s\<rparr>\<lparr>sys := s'\<rparr>)"
    "said (cs @ bytes m @ [0x0A]) (b\<lparr>sys := s\<rparr>\<lparr>sys := s'\<rparr>)" "console.more s' = console.more (f (sys (b\<lparr>sys := s\<rparr>)))"
    "hardware s' = hardware (sys (b\<lparr>sys := s\<rparr>))"
    by (rule said_step [OF assms(1), of f es]) (use assms(2-5) in simp_all)
  then show thesis using that [of s'] by simp
qed

lemma timer_init_frame [simp]: "hardware (timer_init s) = hardware s" "io.more (timer_init s) = io.more s"
  by (simp_all add: timer_init_def Let_def)

lemma init_ports:
  obtains es fs where "bus (pic_init s) = bus s @ es" "only_identify es" "bus (timer_init t) = bus t @ fs" "only_identify fs"
proof -
  have "\<exists>es. bus (pic_init s) = bus s @ es \<and> only_identify es"
    by (simp add: pic_init_def Let_def only_identify_other)
  moreover have "\<exists>fs. bus (timer_init t) = bus t @ fs \<and> only_identify fs"
    by (simp add: timer_init_def Let_def only_identify_other)
  ultimately show thesis using that by blast
qed

lemma boot_devices_run:
  assumes "said cs b" "\<And>ch d. drive_answers (hardware (sys b)) ch d (fitted ch d)"
  obtains b' where "boot_devices b = Some b'" "said (cs @ devices_text) b'" "kern (sys b') = kern (sys b)" "vol (sys b') = vol (sys b)"
    "kbd (sys b') = keyboard_init (kbd (sys b))" "disks (sys b') = disk_init (ata_devices b')" "regions b' = regions b"
    "gdt b' = gdt b" "idt b' = idt b" "map present (ata_devices b') = drive_table fitted"
proof -
  have e1: "screen (pic_init (sys b)) = screen (sys b)" "hardware (pic_init (sys b)) = hardware (sys b)"
    by (rule more_screen(1) [OF bus_pic_init(2)], simp)
  obtain es1 where p1: "bus (pic_init (sys b)) = bus (sys b) @ es1" "only_identify es1" by (rule init_ports)
  obtain s1 where s1: "with_sys (writeln ''Initializing PIC.................. [ OK ]'') (upd_sys pic_init b) = Some (b\<lparr>sys := s1\<rparr>)"
    "said (cs @ bytes ''Initializing PIC.................. [ OK ]'' @ [0x0A]) (b\<lparr>sys := s1\<rparr>)"
    "console.more s1 = console.more (pic_init (sys b))" "hardware s1 = hardware (sys b)"
    by (rule said_step [where f = pic_init, OF assms(1) e1 p1])
  note k1 = system_more [OF s1(3) [unfolded more_screen(2) [OF bus_pic_init(2)]]]
  let ?kb = "\<lambda>s :: system. s\<lparr>kbd := keyboard_init (kbd s)\<rparr>"
  have e2: "screen (?kb s1) = screen s1" "hardware (?kb s1) = hardware s1" "bus (?kb s1) = bus s1 @ []" "only_identify []" by simp_all
  obtain s2 where s2: "with_sys (writeln ''Initializing Keyboard............. [ OK ]'') (upd_sys ?kb (b\<lparr>sys := s1\<rparr>)) = Some (b\<lparr>sys := s2\<rparr>)"
    "said ((cs @ bytes ''Initializing PIC.................. [ OK ]'' @ [0x0A]) @ bytes ''Initializing Keyboard............. [ OK ]'' @ [0x0A]) (b\<lparr>sys := s2\<rparr>)"
    "console.more s2 = console.more (?kb s1)" "hardware s2 = hardware s1"
    by (rule said_step_again [where f = ?kb, OF s1(2) e2])
  note k2 = system_more [OF s2(3)]
  have e3: "screen (timer_init s2) = screen s2" "hardware (timer_init s2) = hardware s2"
    by (rule more_screen(1) [OF timer_init_frame(2)], simp)
  obtain es3 where p3: "bus (timer_init s2) = bus s2 @ es3" "only_identify es3" by (rule init_ports)
  obtain s3 where s3: "with_sys (writeln ''Initializing Timer................ [ OK ]'') (upd_sys timer_init (b\<lparr>sys := s2\<rparr>)) = Some (b\<lparr>sys := s3\<rparr>)"
    "said (((cs @ bytes ''Initializing PIC.................. [ OK ]'' @ [0x0A]) @ bytes ''Initializing Keyboard............. [ OK ]'' @ [0x0A]) @
       bytes ''Initializing Timer................ [ OK ]'' @ [0x0A]) (b\<lparr>sys := s3\<rparr>)"
    "console.more s3 = console.more (timer_init s2)" "hardware s3 = hardware s2"
    by (rule said_step_again [where f = timer_init, OF s2(2) e3 p3])
  note k3 = system_more [OF s3(3) [unfolded more_screen(2) [OF timer_init_frame(2)]]]
  let ?b3 = "b\<lparr>sys := s3, ata_devices := fst ata_init, ata_identify_buffer := snd ata_init\<rparr>"
  have "said (((cs @ bytes ''Initializing PIC.................. [ OK ]'' @ [0x0A]) @ bytes ''Initializing Keyboard............. [ OK ]'' @ [0x0A]) @
       bytes ''Initializing Timer................ [ OK ]'' @ [0x0A]) ?b3" by (rule said_same_screen [OF s3(2)]) simp_all
  then obtain s4 where s4: "with_sys (writeln ''Initializing ATA.................. [ OK ]'') ?b3 = Some (?b3\<lparr>sys := s4\<rparr>)"
    "said ((((cs @ bytes ''Initializing PIC.................. [ OK ]'' @ [0x0A]) @ bytes ''Initializing Keyboard............. [ OK ]'' @ [0x0A]) @
       bytes ''Initializing Timer................ [ OK ]'' @ [0x0A]) @ bytes ''Initializing ATA.................. [ OK ]'' @ [0x0A]) (?b3\<lparr>sys := s4\<rparr>)"
    "console.more s4 = console.more (sys ?b3)" "hardware s4 = hardware (sys ?b3)" by (rule said_writeln)
  have "console.more s4 = console.more s3" using s4(3) by simp
  note k4 = system_more [OF this]
  have h4: "hardware s4 = hardware (sys b)" using s1(4) s2(4) s3(4) s4(4) by simp
  have "drive_answers (hardware s4) ch d (fitted ch d)" for ch d unfolding h4 by (rule assms(2))
  moreover have "only_identify (bus s4)" using s4(2) by (simp add: said_def)
  moreover have "length (fst ata_init) = 4" by (simp add: ata_init_def)
  ultimately obtain devs buf es where d: "ata_detect_devices (fst ata_init) (snd ata_init) s4 = Some (devs, buf, log s4 es)"
    "only_identify es" "map present devs = drive_table fitted" by (rule ata_detect_run)
  let ?t = "log s4 es"
  let ?b' = "b\<lparr>sys := ?t\<lparr>disks := disk_init devs\<rparr>, ata_devices := devs, ata_identify_buffer := buf\<rparr>"
  have run: "boot_devices b = Some ?b'"
    using s1(1) s2(1) s3(1) s4(1) d(1) by (simp add: boot_devices_def)
  have "screen (sys ?b') = screen s4" by (simp add: log_def)
  then have "said (cs @ devices_text) ?b'" using said_ports [OF s4(2), of ?b' es] d(2) by (simp add: devices_text_def)
  then show thesis by (rule that [OF run]) (simp_all add: log_def k1 k2 k3 k4 d(3))
qed

definition fs_text :: "bool \<Rightarrow> bool \<Rightarrow> u8 list" where
  "fs_text found mnt =
     bytes (if found then ''ATA Drive......................... [ OK ]'' else ''ATA Drive......................... [FAIL]'') @ [0x0A] @
     bytes (if mnt then ''Mounting filesystem............... [ OK ]'' else ''Mounting filesystem............... [FAIL]'') @ [0x0A]"

lemma boot_filesystem_run:
  assumes "said cs b"
  defines "disk \<equiv> disk_get (disks (sys b)) 0"
  obtains b' where "boot_filesystem b = Some b'"
    "said (cs @ fs_text (disk \<noteq> None) (fst (fs_mount disk (fs_init (vol (sys b)))))) b'"
    "kern (sys b') = kern (sys b)" "kbd (sys b') = kbd (sys b)" "vol (sys b') = snd (fs_mount disk (fs_init (vol (sys b))))"
    "disks (sys b') = disks (sys b)" "regions b' = regions b" "gdt b' = gdt b" "idt b' = idt b" "ata_devices b' = ata_devices b"
proof -
  let ?m1 = "if disk \<noteq> None then ''ATA Drive......................... [ OK ]'' else ''ATA Drive......................... [FAIL]''"
  obtain mnt v where m: "fs_mount disk (fs_init (vol (sys b))) = (mnt, v)" by fastforce
  let ?m2 = "if mnt then ''Mounting filesystem............... [ OK ]'' else ''Mounting filesystem............... [FAIL]''"
  obtain s1 where s1: "with_sys (writeln ?m1) b = Some (b\<lparr>sys := s1\<rparr>)" "said (cs @ bytes ?m1 @ [0x0A]) (b\<lparr>sys := s1\<rparr>)"
    "console.more s1 = console.more (sys b)" "hardware s1 = hardware (sys b)" by (rule said_writeln [OF assms(1), of ?m1])
  note k1 = system_more [OF s1(3)]
  let ?f = "\<lambda>s :: system. s\<lparr>vol := v\<rparr>"
  have e: "screen (?f s1) = screen s1" "hardware (?f s1) = hardware s1" "bus (?f s1) = bus s1 @ []" "only_identify []" by simp_all
  obtain s2 where s2: "with_sys (writeln ?m2) (upd_sys ?f (b\<lparr>sys := s1\<rparr>)) = Some (b\<lparr>sys := s2\<rparr>)"
    "said ((cs @ bytes ?m1 @ [0x0A]) @ bytes ?m2 @ [0x0A]) (b\<lparr>sys := s2\<rparr>)" "console.more s2 = console.more (?f s1)"
    "hardware s2 = hardware s1" by (rule said_step_again [where f = ?f and m = ?m2, OF s1(2) e])
  note k2 = system_more [OF s2(3)]
  have v1: "vol s1 = vol (sys b)" by (rule k1)
  have "boot_filesystem b = Some (b\<lparr>sys := s2\<rparr>)"
    using s1(1) s2(1) unfolding boot_filesystem_def Let_def disk_def [symmetric]
    by (simp add: m v1)
  moreover have "said (cs @ fs_text (disk \<noteq> None) mnt) (b\<lparr>sys := s2\<rparr>)"
    using s2(2) unfolding fs_text_def append_assoc .
  ultimately show thesis by (intro that [of "b\<lparr>sys := s2\<rparr>"]) (simp_all add: m k1 k2)
qed

text \<open>The kernel after \<open>scheduler_init\<close>: the bootstrap thread runs in the kernel process, the idle thread is the only
  other thread, nothing is ready, interrupts are on, little of the heap is used, and the machine is in its invariant.\<close>

definition up_and_running :: "layout \<Rightarrow> system \<Rightarrow> bool" where
  "up_and_running lay s \<longleftrightarrow>
     (\<exists>k a. kernel_process (kern s) = Some k \<and> idle_thread_instance (kern s) = Some (Dyn a) \<and> machine_inv lay ({a}, s) \<and>
        current_thread (kern s) = Some Static \<and> ready (kern s) [] \<and> proc_list (kern s) [k] \<and>
        pid (processes (kern s) k) = 0 \<and> interrupts (kern s)) \<and>
     heap_top (heap (mm (kern s))) \<le> 8352"

lemma kernel_up:
  assumes "vm_ok lay {Static} (mm s)" "current_address_space (mm s) = Some Static"
    and "low_frames 2 (pmm (mm s))" "2 \<le> length (free_list (pmm (mm s)))" "heap_top (heap (mm s)) = 0"
    and "process_list_tail s = None" "idle_entry \<noteq> 0"
  obtains s1 s2 k a where "process_init lay name s = Some s1" "scheduler_init idle_entry s1 = Some s2"
    "kernel_process s2 = Some k" "idle_thread_instance s2 = Some (Dyn a)" "kernel_inv lay ({a}, s2)"
    "current_thread s2 = Some Static" "ready s2 []" "proc_list s2 [k]" "pid (processes s2 k) = 0"
    "heap_top (heap (mm s2)) \<le> 8352"
proof -
  have ok: "pmm_ok (pmm (mm s))" "heap_good (heap (mm s))" using assms(1) by (simp_all add: vm_ok_def)
  obtain s1 where s1: "process_init lay name s = Some s1"
    and run: "\<And>k. kernel_process s1 = Some k \<Longrightarrow> \<exists>s2. scheduler_init idle_entry s1 = Some s2 \<and> (\<forall>i. idle_thread_instance s2 = Some i \<longrightarrow>
        (\<exists>a. i = Dyn a \<and> kernel_inv lay ({a}, s2) \<and> current_thread s2 = Some Static \<and> ready s2 [] \<and>
          proc_list s2 [k] \<and> pid (processes s2 k) = 0))"
    using kernel_init_run [OF assms(1-3,6,7), of name] by blast
  obtain k where k: "kernel_process s1 = Some k" "heap_top (heap (mm s1)) \<le> 4168"
    using process_init_room [OF ok(1) assms(3,4) ok(2) _ s1] assms(5) by auto
  have made: "heap_good (heap (mm s1))" "current_process s1 = Some k" "p_state (processes s1 k) = PROCESS_RUNNING"
    using process_init_ok [OF assms(1-3,6), of name] s1 k(1) by (auto simp: vm_ok_def)
  obtain s2 where s2: "scheduler_init idle_entry s1 = Some s2" "\<And>i. idle_thread_instance s2 = Some i \<Longrightarrow>
        \<exists>a. i = Dyn a \<and> kernel_inv lay ({a}, s2) \<and> current_thread s2 = Some Static \<and> ready s2 [] \<and>
          proc_list s2 [k] \<and> pid (processes s2 k) = 0" using run [OF k(1)] by blast
  obtain a where "idle_thread_instance s2 = Some (Dyn a)" "kernel_process s2 = kernel_process s1" "heap_top (heap (mm s2)) \<le> 8352"
    using scheduler_init_room [OF made(1) _ made(2,3) assms(7) s2(1)] k(2) by auto
  then show thesis using that s1 s2 k(1) by auto
qed

lemma boot_processes_run:
  assumes "said cs b" "vm_ok lay {Static} (mm (kern (sys b)))" "current_address_space (mm (kern (sys b))) = Some Static"
    and "low_frames 2 (pmm (mm (kern (sys b))))" "2 \<le> length (free_list (pmm (mm (kern (sys b)))))" "heap_top (heap (mm (kern (sys b)))) = 0"
    and "process_list_tail (kern (sys b)) = None" "pf_idle_entry pf \<noteq> 0" "pf_layout pf = lay" "ring (kbd (sys b)) []"
  obtains k where "boot_processes pf b = Some (b\<lparr>sys := (sys b)\<lparr>kern := k\<rparr>\<rparr>)" "up_and_running lay ((sys b)\<lparr>kern := k\<rparr>)"
proof -
  obtain s1 s2 p a where r: "process_init lay (pf_kernel_name pf) (kern (sys b)) = Some s1" "scheduler_init (pf_idle_entry pf) s1 = Some s2"
    "kernel_process s2 = Some p" "idle_thread_instance s2 = Some (Dyn a)" "kernel_inv lay ({a}, s2)"
    "current_thread s2 = Some Static" "ready s2 []" "proc_list s2 [p]" "pid (processes s2 p) = 0"
    "heap_top (heap (mm s2)) \<le> 8352" using kernel_up [OF assms(2-8)] by blast
  let ?k = "sti s2"
  have "kernel_inv lay ({a}, ?k)" using kernel_inv_flag [OF r(5)] by (simp add: sti_def cli_def)
  moreover have "screen_ok (screen (sys b))" using assms(1) displays_ok by (auto simp: said_def on_display_def)
  ultimately have "machine_inv lay ({a}, (sys b)\<lparr>kern := ?k\<rparr>)" using assms(10) by (auto simp: machine_inv_def)
  moreover have "ready ?k []" "proc_list ?k [p]" using r(7,8) by (simp_all add: ready_def proc_list_def sti_def)
  ultimately have "up_and_running lay ((sys b)\<lparr>kern := ?k\<rparr>)" using r(3,4,6,9,10) by (auto simp: up_and_running_def sti_def)
  moreover have "boot_processes pf b = Some (b\<lparr>sys := (sys b)\<lparr>kern := ?k\<rparr>\<rparr>)"
    using r(1,2) assms(9) by (simp add: boot_processes_def with_kern_def with_sys_def upd_kern_def upd_sys_def)
  ultimately show thesis by (rule that [rotated])
qed

lemma region_end_highest: "r \<in> set rs \<Longrightarrow> region_end r \<le> highest_end rs"
  by (induction rs) (auto simp: highest_end_def max_def)

text \<open>Frames that are free after the boot: usable memory outside the kernel image and the first page.\<close>

definition boot_frame :: "layout \<Rightarrow> memory_region list \<Rightarrow> nat \<Rightarrow> bool" where
  "boot_frame lay rs f \<longleftrightarrow> f \<noteq> 0 \<and> \<not> (unat (lk_kernel_start lay) div 4096 \<le> f \<and> f < frames_up (unat (lk_kernel_end lay))) \<and>
     (\<exists>r \<in> set rs. region_type r = 1 \<and> touches r f)"

lemma two_low_frames:
  assumes "\<And>f. f < n \<Longrightarrow> P f \<longleftrightarrow> Q f" "\<And>f. Q f \<Longrightarrow> f < n" "2 \<le> length (filter Q [0..<1024])"
  shows "2 \<le> length (filter P [0..<n])" "\<forall>f \<in> set (take 2 (filter P [0..<n])). f < 1024"
proof -
  let ?m = "min n 1024"
  have "filter Q [0..<1024] = filter Q [0..<?m] @ filter Q [?m..<1024]"
    by (simp flip: filter_append upt_add_eq_append [of 0 ?m "1024 - ?m", simplified])
  moreover have "filter Q [?m..<1024] = []" using assms(2) by (fastforce simp: filter_empty_conv min_def split: if_splits)
  ultimately have q: "2 \<le> length (filter Q [0..<?m])" using assms(3) by simp
  have pq: "filter P [0..<?m] = filter Q [0..<?m]" using assms(1) by (intro filter_cong) auto
  have split: "filter P [0..<n] = filter P [0..<?m] @ filter P [?m..<n]"
    by (simp flip: filter_append upt_add_eq_append [of 0 ?m "n - ?m", simplified])
  show "2 \<le> length (filter P [0..<n])" using split pq q by simp
  have "take 2 (filter P [0..<n]) = take 2 (filter P [0..<?m])" using split pq q by simp
  then show "\<forall>f \<in> set (take 2 (filter P [0..<n])). f < 1024" by (auto dest!: in_set_takeD)
qed

lemma boot_memory_run:
  assumes map: "in_ram (pf_ram pf) (mmap_addr mbi) (concat (map entry_bytes es))"
      "\<And>e. e \<in> set es \<Longrightarrow> 20 \<le> unat (entry_size e)"
      "unat (mmap_length mbi) = length (concat (map entry_bytes es))"
      "unat (mmap_addr mbi) + unat (mmap_length mbi) < 2 ^ 32" "length (memory_regions (regions b)) = 32"
    and rs: "rs = take 32 (map region_of es)" "\<And>r. r \<in> set rs \<Longrightarrow> region_end r \<le> 2 ^ 32"
      "unat (lk_kernel_end lay) \<le> highest_end rs" "2 \<le> length (filter (boot_frame lay rs) [0..<1024])"
    and lay: "pf_layout pf = lay" "layout_ok lay"
  obtains b' m where "boot_memory pf mbi b = Some b'" "sys b' = (sys b)\<lparr>kern := (kern (sys b))\<lparr>mm := m\<rparr>\<rparr>" "gdt b' = gdt b" "idt b' = idt b"
    "known_regions (regions b') = rs" "vm_ok lay {Static} m" "current_address_space m = Some Static" "low_frames 2 (pmm m)"
    "2 \<le> length (free_list (pmm m))" "heap_top (heap m) = 0"
proof -
  let ?R = "multiboot_print_memory_map (pf_ram pf) mbi (regions b)"
  have kr: "known_regions ?R = rs" using mmap_parsed [OF map] rs(1) by simp
  have re: "\<forall>r \<in> set (known_regions ?R). region_end r \<le> 2 ^ 32" using rs(2) kr by blast
  have ke: "unat (lk_kernel_end lay) \<le> highest_end (known_regions ?R)" using rs(3) kr by simp
  obtain m where m: "memory_init lay ?R (mm (kern (sys b))) = Some m" "vm_ok lay {Static} m" "current_address_space m = Some Static"
      "unat (total_frames (pmm m)) = frames_up (highest_end rs)" "heap m = heap_init (heap (mm (kern (sys b))))"
      "\<forall>f < unat (total_frames (pmm m)). frame_used (pmm m) f \<longleftrightarrow>
        f = 0 \<or> (unat (lk_kernel_start lay) div 4096 \<le> f \<and> f < frames_up (unat (lk_kernel_end lay))) \<or>
        \<not> (\<exists>r \<in> set rs. region_type r = 1 \<and> touches r f)"
    using memory_init_boot [OF lay(2) re ke, of "mm (kern (sys b))"] unfolding kr by metis
  have bound: "f < unat (total_frames (pmm m))" if q: "boot_frame lay rs f" for f
  proof -
    obtain r where r: "r \<in> set rs" "touches r f" using q unfolding boot_frame_def by blast
    have "region_end r \<le> highest_end rs" using r(1) by (rule region_end_highest)
    then have "frames_up (region_end r) \<le> frames_up (highest_end rs)" by (simp add: frames_up_def div_le_mono)
    then show ?thesis using r(2) m(4) by (simp add: touches_def)
  qed
  have fr: "f < unat (total_frames (pmm m)) \<Longrightarrow> \<not> frame_used (pmm m) f \<longleftrightarrow> boot_frame lay rs f" for f
    using m(6) by (auto simp: boot_frame_def)
  note two = two_low_frames [OF fr bound rs(4)]
  let ?b = "b\<lparr>regions := ?R, sys := (sys b)\<lparr>kern := (kern (sys b))\<lparr>mm := m\<rparr>\<rparr>\<rparr>"
  have top: "heap_top (heap m) = 0" unfolding m(5) heap_top_def heap_init_def by simp
  have "boot_memory pf mbi b = Some ?b"
    using m(1) lay(1) by (simp add: boot_memory_def with_kern_def with_sys_def Let_def)
  then show thesis
    by (rule that) (use two m(2,3) top kr in \<open>simp_all add: low_frames_def free_list_def\<close>)
qed

end
