(* ===== verification/KernelUp.thy ===== *)
theory KernelUp
  imports KernelMainProps FileProps
begin

text \<open>
  The statements about the kernel as a whole: it boots, and a line that is typed is executed.
\<close>

section \<open>Booting\<close>

text \<open>What the kernel finds: the sizes of its static arrays, the empty list of processes and no port access yet; a loader that has left the
  memory map in memory; memory that ends below 4 GiB, holds the kernel image and has two usable frames besides
  it in the first 4 MiB.\<close>

definition cold :: "booting \<Rightarrow> bool" where
  "cold b \<longleftrightarrow> length (vga_buffer (screen (sys b))) = 2000 \<and> length (keyboard_buffer (kbd (sys b))) = 128 \<and>
     length (memory_regions (regions b)) = 32 \<and> process_list_tail (kern (sys b)) = None \<and>
     bus (sys b) = []"

definition loaded :: "platform \<Rightarrow> multiboot_info_t \<Rightarrow> multiboot_memory_map_t list \<Rightarrow> bool" where
  "loaded pf mbi es \<longleftrightarrow> mb_flags mbi AND push_bit 6 1 \<noteq> 0 \<and> in_ram (pf_ram pf) (mmap_addr mbi) (concat (map entry_bytes es)) \<and>
     (\<forall>e \<in> set es. 20 \<le> unat (entry_size e)) \<and> unat (mmap_length mbi) = length (concat (map entry_bytes es)) \<and>
     unat (mmap_addr mbi) + unat (mmap_length mbi) < 2 ^ 32"

definition bootable :: "layout \<Rightarrow> memory_region list \<Rightarrow> bool" where
  "bootable lay rs \<longleftrightarrow> layout_ok lay \<and> (\<forall>r \<in> set rs. region_end r \<le> 2 ^ 32) \<and> unat (lk_kernel_end lay) \<le> highest_end rs \<and>
     2 \<le> length (filter (boot_frame lay rs) [0..<1024])"

definition lines_text :: "u8 list list \<Rightarrow> u8 list" where
  "lines_text ls = concat (map (\<lambda>l. l @ [0x0A]) ls)"

definition boot_text :: "bool \<Rightarrow> bool \<Rightarrow> u8 list" where
  "boot_text found mnt = lines_text banner @ tables_text @ devices_text @ fs_text found mnt @ lines_text ready_lines @ bytes ''> ''"

lemma said_write:
  assumes "said cs b"
  obtains s' where "with_sys (terminal_write ds) b = Some (b\<lparr>sys := s'\<rparr>)" "said (cs @ ds) (b\<lparr>sys := s'\<rparr>)"
    "console.more s' = console.more (sys b)" "hardware s' = hardware (sys b)"
  using said_with_sys [OF assms, of ds] by auto

lemma write_lines_text: "write_lines ls = terminal_write (lines_text ls)"
  by (rule ext) (simp add: write_lines_write lines_text_def)

lemma up_and_running_more:
  assumes "up_and_running lay s" "console.more s' = console.more s" "screen_ok (screen s')"
  shows "up_and_running lay s'"
proof -
  note k = system_more(1) [OF assms(2)]
  show ?thesis using assms(1) machine_inv_more [OF _ assms(2,3)] unfolding up_and_running_def k by metis
qed

lemma said_screen_ok: "said cs b \<Longrightarrow> screen_ok (screen (sys b))"
  using displays_ok by (auto simp: said_def on_display_def)

lemma first_disk:
  assumes "map present devs = drive_table fitted"
  shows "disk_get (disk_init devs) 0 \<noteq> None \<longleftrightarrow> fitted ATA_PRIMARY ATA_MASTER"
proof -
  have "present (devs ! 0) = fitted ATA_PRIMARY ATA_MASTER" "devs \<noteq> []" using assms by (auto simp: drive_table_def)
  then show ?thesis by (simp add: disk_get_def disk_init_def ata_get_device_def)
qed

lemma kernel_boot_run:
  assumes "cold b" "loaded pf mbi es" "rs = take 32 (map region_of es)" "bootable (pf_layout pf) rs" "pf_idle_entry pf \<noteq> 0"
    and "\<And>ch d. drive_answers (hardware (sys b)) ch d (fitted ch d)"
  shows "\<exists>b'. kernel_boot pf 0x2BADB002 mbi b = Some (Go_On_With b') \<and> known_regions (regions b') = rs \<and>
    up_and_running (pf_layout pf) (sys b') \<and>
    map present (ata_devices b') = drive_table fitted \<and> (disk_get (disks (sys b')) 0 \<noteq> None \<longleftrightarrow> fitted ATA_PRIMARY ATA_MASTER) \<and>
    (case fs_mount (disk_get (disks (sys b')) 0) (fs_init (vol (sys b))) of (mnt, v) \<Rightarrow>
       vol (sys b') = v \<and> on_display 0xF0 (boot_text (fitted ATA_PRIMARY ATA_MASTER) mnt) (sys b'))"
proof -
  note c = assms(1) [unfolded cold_def] and l = assms(2) [unfolded loaded_def] and bo = assms(4) [unfolded bootable_def]
  obtain b1 m where b1: "boot_memory pf mbi b = Some b1" "sys b1 = (sys b)\<lparr>kern := (kern (sys b))\<lparr>mm := m\<rparr>\<rparr>"
    "known_regions (regions b1) = rs" "vm_ok (pf_layout pf) {Static} m" "current_address_space m = Some Static" "low_frames 2 (pmm m)"
    "2 \<le> length (free_list (pmm m))" "heap_top (heap m) = 0"
    by (rule boot_memory_run [of pf mbi es b rs "pf_layout pf"]) (use c l bo assms(3) in auto)
  let ?b2 = "upd_sys (\<lambda>s. terminal_init (serial_init s)) b1"
  have v: "length (vga_buffer (screen (serial_init (sys b1)))) = 2000" using c b1(2) by (simp add: serial_init_def outb_def)
  have "bus (sys b1) = []" using c b1(2) by simp
  then have "only_identify (bus (serial_init (sys b1)))" by (simp add: serial_init_def Let_def only_identify_other)
  then have s2: "said [] ?b2" using terminal_init_display [OF v] by (simp add: said_def upd_sys_def terminal_init_def Let_def)
  then obtain s3 where s3: "with_sys (terminal_write (lines_text banner)) ?b2 = Some (?b2\<lparr>sys := s3\<rparr>)" "said ([] @ lines_text banner) (?b2\<lparr>sys := s3\<rparr>)"
    "console.more s3 = console.more (sys ?b2)" "hardware s3 = hardware (sys ?b2)" by (rule said_write)
  let ?b3 = "?b2\<lparr>sys := s3\<rparr>"
  have "console.more s3 = console.more (sys b1)" "hardware s3 = hardware (sys b)"
    using s3(3,4) b1(2) by (simp_all add: upd_sys_def serial_init_def outb_def)
  note k3 = system_more [OF this(1)] this(2)
  obtain b4 where b4: "boot_tables pf ?b3 = Some b4" "said (lines_text banner @ tables_text) b4"
    "console.more (sys b4) = console.more (sys ?b3)" "hardware (sys b4) = hardware (sys ?b3)" "regions b4 = regions ?b3"
    by (rule boot_tables_run [OF s3(2) [unfolded append_Nil]])
  note k4 = system_more [OF b4(3)]
  have "drive_answers (hardware (sys b4)) ch d (fitted ch d)" for ch d using assms(6) b4(4) k3 by simp
  then obtain b5 where b5: "boot_devices b4 = Some b5" "said ((lines_text banner @ tables_text) @ devices_text) b5" "kern (sys b5) = kern (sys b4)"
    "vol (sys b5) = vol (sys b4)" "kbd (sys b5) = keyboard_init (kbd (sys b4))" "disks (sys b5) = disk_init (ata_devices b5)" "regions b5 = regions b4"
    "map present (ata_devices b5) = drive_table fitted"
    by (rule boot_devices_run [OF b4(2)])
  let ?disk = "disk_get (disks (sys b5)) 0" and ?fs = "fs_init (vol (sys b5))"
  obtain b6 where b6: "boot_filesystem b5 = Some b6"
    "said (((lines_text banner @ tables_text) @ devices_text) @ fs_text (?disk \<noteq> None) (fst (fs_mount ?disk ?fs))) b6"
    "kern (sys b6) = kern (sys b5)" "kbd (sys b6) = kbd (sys b5)" "vol (sys b6) = snd (fs_mount ?disk ?fs)"
    "disks (sys b6) = disks (sys b5)" "regions b6 = regions b5"
    "ata_devices b6 = ata_devices b5"
    by (rule boot_filesystem_run [OF b5(2)])
  have kern6: "kern (sys b6) = (kern (sys b))\<lparr>mm := m\<rparr>" using b6(3) b5(3) k4(1) k3(1) b1(2) by simp
  have kbd6: "kbd (sys b6) = keyboard_init (kbd (sys b))" using b6(4) b5(5) k4(2) k3(2) b1(2) by simp
  have ri: "ring (kbd (sys b6)) []" using c unfolding kbd6 by (simp add: ring_init)
  have mem: "vm_ok (pf_layout pf) {Static} (mm (kern (sys b6)))" "current_address_space (mm (kern (sys b6))) = Some Static"
    "low_frames 2 (pmm (mm (kern (sys b6))))" "2 \<le> length (free_list (pmm (mm (kern (sys b6)))))"
    "heap_top (heap (mm (kern (sys b6)))) = 0" "process_list_tail (kern (sys b6)) = None"
    using kern6 b1(4-8) c by simp_all
  obtain k where k: "boot_processes pf b6 = Some (b6\<lparr>sys := (sys b6)\<lparr>kern := k\<rparr>\<rparr>)"
    "up_and_running (pf_layout pf) ((sys b6)\<lparr>kern := k\<rparr>)"
    using boot_processes_run [OF b6(2) mem assms(5) refl ri] by blast
  let ?b7 = "b6\<lparr>sys := (sys b6)\<lparr>kern := k\<rparr>\<rparr>"
  have "said (((lines_text banner @ tables_text) @ devices_text) @ fs_text (?disk \<noteq> None) (fst (fs_mount ?disk ?fs))) ?b7"
    by (rule said_same_screen [OF b6(2)]) simp_all
  from said_write [OF this, of "lines_text ready_lines"] obtain s8 where s8:
    "with_sys (terminal_write (lines_text ready_lines)) ?b7 = Some (?b7\<lparr>sys := s8\<rparr>)"
    "said ((((lines_text banner @ tables_text) @ devices_text) @ fs_text (?disk \<noteq> None) (fst (fs_mount ?disk ?fs))) @ lines_text ready_lines) (?b7\<lparr>sys := s8\<rparr>)"
    "console.more s8 = console.more (sys ?b7)" by blast
  from said_write [OF s8(2), of "bytes ''> ''"] obtain s9 where s9:
    "with_sys (terminal_write (bytes ''> '')) (?b7\<lparr>sys := s8\<rparr>) = Some (?b7\<lparr>sys := s9\<rparr>)"
    "said (((((lines_text banner @ tables_text) @ devices_text) @ fs_text (?disk \<noteq> None) (fst (fs_mount ?disk ?fs))) @ lines_text ready_lines) @ bytes ''> '') (?b7\<lparr>sys := s9\<rparr>)"
    "console.more s9 = console.more s8" by auto
  have pr: "terminal_prompt = terminal_write (bytes ''> '')" by (rule ext) (simp add: terminal_prompt_def)
  have run: "kernel_boot pf 0x2BADB002 mbi b = Some (Go_On_With (?b7\<lparr>sys := s9\<rparr>))"
    using b1(1) s3(1) b4(1) b5(1) b6(1) k(1) s8(1) s9(1) l by (simp add: kernel_boot_def write_lines_text pr)
  have more: "console.more s9 = console.more ((sys b6)\<lparr>kern := k\<rparr>)" using s9(3) s8(3) by simp
  note k9 = system_more [OF more]
  have "screen_ok (screen s9)" using said_screen_ok [OF s9(2)] by simp
  then have up: "up_and_running (pf_layout pf) s9" by (rule up_and_running_more [OF k(2) more])
  have v5: "vol (sys b5) = vol (sys b)" using b5(4) k4(5) k3(5) b1(2) by simp
  have reg: "known_regions (regions ?b7) = rs" using b6(7) b5(7) b4(5) b1(3) by (simp add: upd_sys_def)
  have found: "?disk \<noteq> None \<longleftrightarrow> fitted ATA_PRIMARY ATA_MASTER" unfolding b5(6) by (rule first_disk [OF b5(8)])
  have disp: "on_display 0xF0 (boot_text (?disk \<noteq> None) (fst (fs_mount ?disk ?fs))) s9"
    using s9(2) unfolding said_def boot_text_def append_assoc by simp
  show ?thesis
    by (rule exI [of _ "?b7\<lparr>sys := s9\<rparr>"]) (use run up reg disp found v5 k9(5,6) b6(5,6,8) b5(8) in \<open>simp add: split_beta\<close>)
qed

text \<open>C5. The kernel boots: from cold static data, with the memory map of the boot loader in memory, two usable frames
  below 4 MiB and a machine that answers every \<open>IDENTIFY\<close> command, be it with a status of 0 where no drive is, with
  the signature of another kind of drive, with an error or with data, \<open>kernel_main\<close> reaches its input loop. The
  table of regions then holds the first 32 entries of the map; the bootstrap thread runs in the kernel process
  with only the idle thread besides it, interrupts are on and the invariant of the machine holds; the table of
  drives tells which of the four drives are there; the file system is mounted if the first drive is there and
  holds one; and the screen shows exactly the messages of the boot, which say whether a drive was found and
  mounted, and the prompt.\<close>

theorem kernel_boots:
  assumes "cold b" "loaded pf mbi es" "rs = take 32 (map region_of es)" "bootable (pf_layout pf) rs" "pf_idle_entry pf \<noteq> 0"
    and "\<And>ch d. drive_answers (hardware (sys b)) ch d (fitted ch d)"
  shows "\<exists>b'. kernel_boot pf 0x2BADB002 mbi b = Some (Go_On_With b') \<and> known_regions (regions b') = rs \<and>
    up_and_running (pf_layout pf) (sys b') \<and>
    map present (ata_devices b') = drive_table fitted \<and> (disk_get (disks (sys b')) 0 \<noteq> None \<longleftrightarrow> fitted ATA_PRIMARY ATA_MASTER) \<and>
    (case fs_mount (disk_get (disks (sys b')) 0) (fs_init (vol (sys b))) of (mnt, v) \<Rightarrow>
       vol (sys b') = v \<and> on_display 0xF0 (boot_text (fitted ATA_PRIMARY ATA_MASTER) mnt) (sys b'))"
  by (rule kernel_boot_run [OF assms])

text \<open>A machine with a disk as the master of the primary channel and a CD-ROM drive as the master of the secondary
  one. The status of a selected drive shows data (for the disk) or an error (for the other drive) after an
  \<open>IDENTIFY\<close> command only; a slave that is selected but not there gives 0. The data port delivers the 256 words of
  the identification, with 8192 sectors in words 60 and 61.\<close>

definition demo_ide :: "port_event list \<Rightarrow> u16 \<Rightarrow> u16" where
  "demo_ide h p =
     (if p = 0x1F7 then if bit (register 0x1F6 h) 4 then 0 else if register 0x1F7 h = 0xEC then 0x58 else 0x50
      else if p = 0x177 then if bit (register 0x176 h) 4 then 0 else if register 0x177 h = 0xEC then 0x51 else 0x50
      else if p = 0x174 then 0x14
      else if p = 0x175 then 0xEB
      else if p = 0x1F0 then if length (filter (\<lambda>e. e = Inw 0x1F0) h) mod 256 = 60 then 0x2000 else 0
      else 0)"

lemma register_identify:
  "register (ata_base_port ch + 6) (h @ identify_log ch d) = 0xA0 OR drive_bits d" "register (ata_base_port ch + 7) (h @ identify_log ch d) = 0xEC"
proof -
  have e: "replicate 8 x = [x, x, x, x, x, x, x, x]" for x :: port_event by (simp add: numeral_eq_Suc)
  show "register (ata_base_port ch + 6) (h @ identify_log ch d) = 0xA0 OR drive_bits d"
    "register (ata_base_port ch + 7) (h @ identify_log ch d) = 0xEC"
    by (simp_all add: register_def identify_log_def Let_def e)
qed

lemma select_bit: "bit (0xA0 OR drive_bits d) 4 \<longleftrightarrow> d = ATA_SLAVE"
  by (cases d) (simp_all add: drive_bits_def bit_or_iff)

lemma register_quiet: "(\<And>v. Outb p v \<notin> set es) \<Longrightarrow> register p (h @ es) = register p h"
proof (induction es rule: rev_induct)
  case (snoc e es)
  then show ?case by (cases e) (auto simp: register_def)
qed simp

lemma demo_ide_at:
  assumes "\<And>v. Outb (ata_base_port ch + 6) v \<notin> set es" "\<And>v. Outb (ata_base_port ch + 7) v \<notin> set es"
  shows "status_at demo_ide (ata_base_port ch + 7) (h @ identify_log ch d @ es) 0 =
    (if d = ATA_SLAVE then 0 else case ch of ATA_PRIMARY \<Rightarrow> 0x58 | ATA_SECONDARY \<Rightarrow> 0x51)"
proof -
  have "register (ata_base_port ch + 6) (h @ identify_log ch d @ es) = 0xA0 OR drive_bits d"
    "register (ata_base_port ch + 7) (h @ identify_log ch d @ es) = 0xEC"
    using register_quiet [of "ata_base_port ch + 6" es "h @ identify_log ch d"] register_quiet [of "ata_base_port ch + 7" es "h @ identify_log ch d"]
      assms register_identify [of ch h d] by simp_all
  then show ?thesis by (cases ch) (simp_all add: status_at_def demo_ide_def ata_base_port_def select_bit)
qed

lemma demo_ide_signature: "status_at demo_ide (ata_base_port ch + 4) h 0 = (case ch of ATA_PRIMARY \<Rightarrow> 0 | ATA_SECONDARY \<Rightarrow> 0x14)"
    "status_at demo_ide (ata_base_port ch + 5) h 0 = (case ch of ATA_PRIMARY \<Rightarrow> 0 | ATA_SECONDARY \<Rightarrow> 0xEB)"
  by (cases ch; simp add: status_at_def demo_ide_def ata_base_port_def)+

lemma demo_ide_answers: "drive_answers demo_ide ch d (ch = ATA_PRIMARY \<and> d = ATA_MASTER)"
proof -
  let ?b = "ata_base_port ch" and ?p = "ata_base_port ch + 7"
  have quiet: "Outb (?b + 6) v \<notin> set [Inb ?p, Inb ?p, Inb (?b + 4), Inb (?b + 5), Outb 0x80 0]"
    "Outb (?b + 7) v \<notin> set [Inb ?p, Inb ?p, Inb (?b + 4), Inb (?b + 5), Outb 0x80 0]" for v
    by (cases ch; simp add: ata_base_port_def)+
  note at = demo_ide_at [of ch "[]", simplified] demo_ide_at [of ch "[Inb ?p]", simplified]
    demo_ide_at [OF quiet]
  show ?thesis
  proof (cases d)
    case ATA_SLAVE
    then show ?thesis using at(1) by (simp add: drive_answers_def Let_def)
  next
    case ATA_MASTER
    have two: "replicate (0 + 2) x = [x, x]" for x :: port_event by (simp add: numeral_eq_Suc)
    have busy: "busy_until demo_ide ?p ((h @ identify_log ch d) @ [Inb ?p]) 0" for h
      using ATA_MASTER at(2) [of h d] by (cases ch) (simp_all add: busy_until_def)
    have data: "ch = ATA_PRIMARY \<Longrightarrow>
        reports demo_ide ?p (((h @ identify_log ch d) @ [Inb ?p, Inb ?p]) @ [Inb (?b + 4), Inb (?b + 5), Outb 0x80 0]) 0 True" for h
      using ATA_MASTER at(3) [of h d] by (simp add: reports_def)
    have there: "status_at demo_ide ?p (h @ identify_log ch d) 0 \<noteq> 0" for h
      using ATA_MASTER at(1) [of h d] by (cases ch) simp_all
    have answer: "\<exists>k. busy_until demo_ide ?p ((h @ identify_log ch d) @ [Inb ?p]) k \<and>
        (if status_at demo_ide (?b + 4) ((h @ identify_log ch d) @ replicate (k + 2) (Inb ?p)) 0 \<noteq> 0 \<or>
            status_at demo_ide (?b + 5) (((h @ identify_log ch d) @ replicate (k + 2) (Inb ?p)) @ [Inb (?b + 4)]) 0 \<noteq> 0
         then ch \<noteq> ATA_PRIMARY
         else \<exists>j. reports demo_ide ?p (((h @ identify_log ch d) @ replicate (k + 2) (Inb ?p)) @ [Inb (?b + 4), Inb (?b + 5), Outb 0x80 0]) j (ch = ATA_PRIMARY))" for h
      by (rule exI [of _ 0], unfold two demo_ide_signature, cases ch) (use busy [of h] data [of h] in auto)
    show ?thesis using there answer unfolding drive_answers_def Let_def by (simp only: ATA_MASTER if_False simp_thms)
  qed
qed

definition demo_system :: "keyboard \<Rightarrow> system" where
  "demo_system k = \<lparr>bus = [], hardware = demo_ide,
     screen = \<lparr>vga_buffer = replicate 2000 0, color = 0xF0, cursor_row = 0, cursor_col = 0\<rparr>, kbd = k, ticks = 0, shift_pressed = 0,
     kern = (demo_kernel cold_mem)\<lparr>mm := cold_mem, process_list_tail := None\<rparr>,
     vol = mount_demo demo_fat, disks = [\<lparr>device = Some demo_dev\<rparr>]\<rparr>"

definition demo_platform :: platform where
  "demo_platform = \<lparr>pf_layout = demo_layout, pf_ram = demo_bytes, pf_idle_entry = 1, pf_kernel_name = (\<lambda>_. 0), pf_gdt_address = 0,
     pf_idt_address = 0, pf_isr_stub = (\<lambda>_. 0), pf_irq_stub = (\<lambda>_. 0)\<rparr>"

definition demo_cold :: booting where
  "demo_cold = \<lparr>sys = demo_system \<lparr>keyboard_buffer = replicate 128 0, buffer_head = 7, buffer_tail = 9\<rparr>,
     regions = \<lparr>memory_regions = replicate 32 \<lparr>region_base = 0, region_length = 0, region_type = 0\<rparr>, memory_region_count = 0\<rparr>,
     gdt = [], gdtr = \<lparr>tp_limit = 0, tp_base = 0\<rparr>, idt = [], idtr = \<lparr>tp_limit = 0, tp_base = 0\<rparr>, ata_devices = [], ata_identify_buffer = []\<rparr>"

lemma demo_loaded: "loaded demo_platform demo_info demo_entries"
  using demo_in_ram by (auto simp: loaded_def demo_platform_def demo_entries_def demo_info_def length_entry_bytes)

lemma demo_bootable: "bootable demo_layout (take 32 (map region_of demo_entries))"
proof -
  let ?rs = "take 32 (map region_of demo_entries)"
  have rs: "?rs = [\<lparr>region_base = 0, region_length = 0x9FC00, region_type = 1\<rparr>, \<lparr>region_base = 0x100000, region_length = 0x700000, region_type = 1\<rparr>]"
    by (simp add: demo_entries_def region_of_def)
  have b: "boot_frame demo_layout ?rs 1" "boot_frame demo_layout ?rs 6"
    unfolding rs by (simp_all add: boot_frame_def demo_layout_def frames_up_def touches_def region_end_def)
  have "[0..<1024] = [0..<7] @ [7..<1024]" using upt_add_eq_append [of 0 7 1017] by simp
  moreover have "[0..<7] = [0, 1, 2, 3, 4, 5, 6 :: nat]" by code_simp
  then have "2 \<le> length (filter (boot_frame demo_layout ?rs) [0..<7])" using b by simp
  ultimately have "2 \<le> length (filter (boot_frame demo_layout ?rs) [0..<1024])" by simp
  then show ?thesis using demo_layout_ok unfolding bootable_def
    by (simp add: rs region_end_def highest_end_def demo_layout_def)
qed

theorem kernel_boots_witness:
  "\<exists>b'. kernel_boot demo_platform 0x2BADB002 demo_info demo_cold = Some (Go_On_With b') \<and> up_and_running demo_layout (sys b') \<and>
     map present (ata_devices b') = [True, False, False, False] \<and> disk_get (disks (sys b')) 0 \<noteq> None"
proof -
  have c: "cold demo_cold" by (simp add: cold_def demo_cold_def demo_system_def)
  have d: "drive_answers (hardware (sys demo_cold)) ch d (ch = ATA_PRIMARY \<and> d = ATA_MASTER)" for ch d
    using demo_ide_answers by (simp add: demo_cold_def demo_system_def)
  have p: "pf_layout demo_platform = demo_layout" "pf_idle_entry demo_platform \<noteq> 0" by (simp_all add: demo_platform_def)
  have t: "drive_table (\<lambda>ch d. ch = ATA_PRIMARY \<and> d = ATA_MASTER) = [True, False, False, False]" by (simp add: drive_table_def)
  show ?thesis
    using kernel_boots [OF c demo_loaded refl _ p(2) d, unfolded p(1) t, OF demo_bootable]
    by (elim exE conjE, intro exI conjI) (assumption | simp)+
qed

section \<open>A typed line\<close>

lemma sti_cli [simp]: "sti (cli k) = sti k" "sti (sti k) = sti k"
  by (simp_all add: sti_def cli_def)

lemma getchar_ring:
  fixes s :: system
  assumes "ring (kbd s) (x # xs)"
  obtains s1 where "keyboard_getchar s = (x, s1)" "ring (kbd s1) xs" "kern s1 = sti (kern s)" "vol s1 = vol s" "disks s1 = disks s"
    "screen s1 = screen s"
proof -
  obtain k where k: "keyboard_take (kbd s) = (x, k)" "ring k xs" using keyboard_take_Cons [OF assms] by blast
  have "keyboard_getchar s = (x, s\<lparr>kern := sti (kern s), kbd := k\<rparr>)" using k(1) by (simp add: keyboard_getchar_def Let_def)
  then show thesis by (rule that) (simp_all add: k(2))
qed

lemma main_loop_line:
  assumes "holds_line ln l" "screen_ok (screen s)" "ring (kbd s) (cs @ rest)" "0x0A \<notin> set cs"
  shows "\<exists>ln' s'. main_loop (length cs + n) ln s = main_loop n ln' s' \<and> holds_line ln' (foldl edit_line l cs) \<and>
    ring (kbd s') rest \<and> sti (kern s') = sti (kern s) \<and> vol s' = vol s \<and> disks s' = disks s \<and> screen_ok (screen s')"
  using assms
proof (induction cs arbitrary: ln l s)
  case (Cons c cs)
  from Cons.prems(3) obtain s1 where s1: "keyboard_getchar s = (c, s1)" "ring (kbd s1) (cs @ rest)" "kern s1 = sti (kern s)"
    "vol s1 = vol s" "disks s1 = disks s" "screen s1 = screen s" using getchar_ring [of s c "cs @ rest"] by auto
  obtain ln2 s2 where s2: "main_char c ln s1 = Some (Go_On_With (ln2, s2))" "holds_line ln2 (edit_line l c)"
    "console.more s2 = console.more s1" "screen_ok (screen s2)"
    using main_char_edits [of ln l s1 c] Cons.prems s1(6) by auto
  note k2 = system_more [OF s2(3)]
  have "main_loop (length (c # cs) + n) ln s = main_loop (length cs + n) ln2 s2"
    using s1(1) s2(1) by (simp add: main_iteration_def)
  with Cons.IH [OF s2(2,4)] show ?case using Cons.prems(4) s1 k2 by auto
qed auto

lemma edit_line_length: "length l \<le> 127 \<Longrightarrow> length (foldl edit_line l cs) \<le> 127"
  by (induction cs arbitrary: l) (simp_all add: edit_line_def)


text \<open>The keys \<open>touch FOO.TXX\<close>, backspace, \<open>T\<close> and return on a volume with an empty root directory.\<close>

definition demo_keys :: "u8 list" where
  "demo_keys = bytes ''touch FOO.TXX'' @ [0x08] @ bytes ''T''"

definition demo_keyboard :: keyboard where
  "demo_keyboard = \<lparr>keyboard_buffer = demo_keys @ [0x0A] @ replicate 112 0, buffer_head = 16, buffer_tail = 0\<rparr>"

lemma demo_create: "\<exists>w'. file_create demo_disk (bytes ''FOO.TXT'') (mount_demo demo_fat) = Some (True, w')"
proof -
  have name: "valid_name (bytes ''FOO.TXT'')" "hd (bytes ''FOO.TXT'') \<noteq> 0xE5" "0 \<notin> set (bytes ''FOO.TXT'')"
    "bytes ''FOO.TXT'' \<noteq> dotdot_name" "fields_ok [bytes ''FOO.TXT'']"
    by (simp_all add: valid_name_def base_part_def ext_part_def bytes_def fields_ok_def)
  have start: "start_dir (bytes ''FOO.TXT'') (mount_demo demo_fat) = 2" by (simp add: start_dir_def)
  have dir: "dir_find demo_disk (mount_demo demo_fat) [2] (bytes ''FOO.TXT'') = None"
    "dir_wf (dir_slots demo_disk (mount_demo demo_fat) [2])"
    by (simp_all add: dir_find_def del: replicate.simps)
  have "valid_cluster (fat32_fs (mount_demo demo_fat)) 3 \<and> fat demo_disk (mount_demo demo_fat) 3 = FAT32_CLUSTER_FREE"
    by (simp add: demo_valid)
  then show ?thesis
    using file_create_ok [of demo_disk "mount_demo demo_fat" "bytes ''FOO.TXT''" "bytes ''FOO.TXT''" "[2]"] name start dir demo_dir_chain(1)
    by auto
qed


end
