(* ===== verification/KernDemo.thy ===== *)
theory KernDemo
  imports KernelUp
begin

text \<open>
  A kernel with two processes: on the memory management of the booted machine \<open>process_create\<close> makes a second
  process with an address space of its own, \<open>thread_create_in_process\<close> a thread in it, and the thread is queued.
  The theorems on the operations are applied to it.
\<close>

section \<open>What a yield keeps\<close>

text \<open>\<open>kept_by s s'\<close>: the threads stay in their processes, and the kernel's process and idle thread are the same.\<close>

definition kept_by :: "kstate \<Rightarrow> kstate \<Rightarrow> bool" where
  "kept_by s s' \<longleftrightarrow> process_of s' = process_of s \<and> idle_thread_instance s' = idle_thread_instance s \<and> kernel_process s' = kernel_process s"

lemma k_activate_keeps: "k_activate r s = Some s' \<Longrightarrow> kept_by s s'"
  by (auto simp: k_activate_def kept_by_def process_of_def split: bind_splits)

lemma switch_process_keeps: "switch_process c n s = Some s' \<Longrightarrow> kept_by s s'"
  by (auto simp: switch_process_def process_set_current_def kept_by_def process_of_def fun_eq_iff split: option.splits if_splits
      dest!: k_activate_keeps [unfolded kept_by_def process_of_def])

lemma switch_to_keeps: "switch_to c n s = Some s' \<Longrightarrow> kept_by s s'"
  by (auto simp: switch_to_def Let_def x86_context_switch_def thread_set_current_def set_state_def upd_thread_def fun_eq_iff kept_by_def process_of_def
      dest!: switch_process_keeps [unfolded kept_by_def process_of_def] split: bind_splits)

lemma thread_dequeue_keeps: "thread_dequeue s = (x, s') \<Longrightarrow> kept_by s s'"
  by (auto simp: thread_dequeue_def Let_def kept_by_def process_of_def set_next_def upd_thread_def split: option.splits if_splits)

lemma yield_keeps: "thread_yield s = Some s' \<Longrightarrow> kept_by s s'"
  using same_but_queues_parts [OF enqueue_effect(1)] same_but_queues_parts [OF same_flags(1)]
  by (auto simp: thread_yield_def Let_def kept_by_def dest!: switch_to_keeps [unfolded kept_by_def] thread_dequeue_keeps [unfolded kept_by_def]
      split: option.splits if_splits prod.splits)

section \<open>Two processes\<close>

lemma booted_frames:
  obtains m where "vm_ok demo_layout {Static} m" "current_address_space m = Some Static" "low_frames 2 (pmm m)" "2 \<le> length (free_list (pmm m))"
proof -
  note c = demo_loaded [unfolded loaded_def] and bo = demo_bootable [unfolded bootable_def]
  have l: "length (memory_regions (regions demo_cold)) = 32" by (simp add: demo_cold_def)
  have p: "pf_layout demo_platform = demo_layout" by (simp add: demo_platform_def)
  show ?thesis
    by (rule boot_memory_run [of demo_platform demo_info demo_entries demo_cold "take 32 (map region_of demo_entries)" demo_layout])
      (use c bo l p that in auto)
qed

definition second_kernel :: "kmem \<Rightarrow> (u32 \<times> u32 \<times> kstate) option" where
  "second_kernel m = do {
     (p, k) \<leftarrow> process_create demo_layout None (demo_kernel m);
     (t, k) \<leftarrow> thread_create_in_process p 1 None k;
     case (p, t) of (Some p, Some (Dyn a)) \<Rightarrow> Some (p, a, thread_enqueue t k) | _ \<Rightarrow> None
   }"

lemma two_processes:
  obtains m p a k R where "second_kernel m = Some (p, a, k)"
    "between demo_layout R {a, 72, 4256, 8440} [Dyn 4256, Dyn a] [Dyn 8440] [8, p] k" "running Static {a, 72, 4256, 8440} [Dyn 4256, Dyn a] k"
    "Some p \<noteq> kernel_process k" "\<And>t. t \<in> {Static, Dyn a, Dyn 4256} \<Longrightarrow> process_of k t = Some p \<longleftrightarrow> t = Dyn a"
proof -
  let ?T = "{72, 4256, 8440} :: u32 set"
  obtain m where m: "vm_ok demo_layout {Static} m" "current_address_space m = Some Static" "low_frames 2 (pmm m)"
    "2 \<le> length (free_list (pmm m))" by (rule booted_frames)
  let ?k0 = "demo_kernel m"
  note bc = demo_kernel_ok [OF m(1,2)]
  have f0: "pmm (mm ?k0) = pmm m" "heap_good (heap (mm ?k0))" "heap_top (heap (mm ?k0)) = 12616" "pmm_ok (pmm (mm ?k0))"
    using m(1) demo_blocks_live(1) by (simp_all add: demo_kernel_def heap_top_def demo_blocks_def vm_ok_def)
  obtain p k1 where k1: "process_create demo_layout None ?k0 = Some (Some p, k1)" "heap_top (heap (mm k1)) \<le> 16784"
    using process_create_room [of ?k0 demo_layout None] f0 m(3,4) by auto
  then obtain as where b1: "p \<notin> set [8]" "between demo_layout (insert (Dyn as) {Static}) ?T [Dyn 4256] [Dyn 8440] ([8] @ [p]) k1"
    "running Static ?T [Dyn 4256] k1" "p_state (processes k1 p) = PROCESS_RUNNING" "thread_count (processes k1 p) = 0"
    using process_create_ok [OF bc, of None] f0(1) m(3) by auto
  have me: "members_ok ?T (set ([8] @ [p])) k1" using b1(2) by (simp add: between_def)
  have "finite {t \<in> known ?T. process_of k1 t = Some p}" by (simp add: known_def)
  then have others: "t \<in> known ?T \<Longrightarrow> process_of k1 t \<noteq> Some p" for t
    using me b1(5) unfolding members_ok_def by auto
  have kp: "kernel_process k1 \<noteq> Some p" using me others [of Static] by (simp add: members_ok_def)
  have "heap_good (heap (mm k1))" using b1(2) by (simp add: between_def vm_ok_def)
  then obtain a k2 where k2: "thread_create_in_process (Some p) 1 None k1 = Some (Some (Dyn a), k2)"
    using thread_create_room [of k1 p 1 None] k1(2) b1(4) by auto
  then obtain stack h where b2: "a \<notin> ?T" "k2 = add_thread a p 1 stack None h k1"
    "between demo_layout (insert (Dyn as) {Static}) (insert a ?T) [Dyn 4256] [Dyn 8440] ([8] @ [p]) k2"
    using thread_create_ok [OF b1(2), of p 1 None] b1(4) by auto
  have r2: "running Static (insert a ?T) [Dyn 4256] k2" unfolding b2(2) by (rule add_thread_running [OF b1(3) b2(1)])
  have idle: "idle_wf ?T [Dyn 4256] k1" using b1(2) by (simp add: between_def states_ok_def)
  then have ni: "Some (Dyn a) \<noteq> idle_thread_instance k2" using b2(1) unfolding b2(2) idle_wf_def add_thread_fields by auto
  let ?k = "thread_enqueue (Some (Dyn a)) k2"
  have "between demo_layout (insert (Dyn as) {Static}) (insert a ?T) ([Dyn 4256] @ [Dyn a]) [Dyn 8440] ([8] @ [p]) ?k"
    by (rule enqueue_between [OF b2(3)]) (use b2(1) ni in auto)
  moreover have "running Static (insert a ?T) ([Dyn 4256] @ [Dyn a]) ?k"
    by (rule running_change [OF r2 enqueue_effect(1)]) (simp add: state_of_def enqueue_effect(2))
  moreover have "Some p \<noteq> kernel_process ?k"
    using kp by (simp add: same_but_queues_parts(11) [OF enqueue_effect(1)] b2(2) add_thread_fields)
  moreover have "process_of ?k t = Some p \<longleftrightarrow> t = Dyn a" if "t \<in> {Static, Dyn a, Dyn 4256}" for t
    using that others [of t] b2(1) by (auto simp: same_but_queues_parts(3) [OF enqueue_effect(1)] b2(2) add_thread_views)
  moreover have "second_kernel m = Some (p, a, ?k)" using k1(1) k2 by (simp add: second_kernel_def)
  ultimately show ?thesis using that by simp
qed

section \<open>The operations on it\<close>

lemma not_idle:
  assumes "between lay R T rs ts ps s"
  shows "t \<in> insert Static (set rs) \<Longrightarrow> Some t \<noteq> idle_thread_instance s"
proof -
  have "idle_wf T rs s" using assms by (simp add: between_def states_ok_def)
  then obtain i where "idle_thread_instance s = Some (Dyn i)" "Dyn i \<notin> set rs" unfolding idle_wf_def by blast
  then show "t \<in> insert Static (set rs) \<Longrightarrow> Some t \<noteq> idle_thread_instance s" by auto
qed

text \<open>Two yields go on with the thread of the second process.\<close>

lemma two_processes_yield:
  obtains m p a k k' R where "second_kernel m = Some (p, a, k)"
    "between demo_layout R {a, 72, 4256, 8440} [Dyn 4256, Dyn a] [Dyn 8440] [8, p] k" "running Static {a, 72, 4256, 8440} [Dyn 4256, Dyn a] k"
    "Some p \<noteq> kernel_process k" "\<And>t. t \<in> {Static, Dyn a, Dyn 4256} \<Longrightarrow> process_of k t = Some p \<longleftrightarrow> t = Dyn a"
    "Option.bind (thread_yield k) thread_yield = Some k'"
    "between demo_layout R {a, 72, 4256, 8440} [Static, Dyn 4256] [Dyn 8440] [8, p] k'" "running (Dyn a) {a, 72, 4256, 8440} [Static, Dyn 4256] k'"
    "kept_by k k'"
proof -
  obtain m p a k R where k: "second_kernel m = Some (p, a, k)"
    "between demo_layout R {a, 72, 4256, 8440} [Dyn 4256, Dyn a] [Dyn 8440] [8, p] k" "running Static {a, 72, 4256, 8440} [Dyn 4256, Dyn a] k"
    "Some p \<noteq> kernel_process k" "\<And>t. t \<in> {Static, Dyn a, Dyn 4256} \<Longrightarrow> process_of k t = Some p \<longleftrightarrow> t = Dyn a" by (rule two_processes) blast
  have i: "Some Static \<noteq> idle_thread_instance k" "Some (Dyn 4256) \<noteq> idle_thread_instance k"
    using not_idle [OF k(2)] by simp_all
  obtain k1 where k1: "thread_yield k = Some k1" "between demo_layout R {a, 72, 4256, 8440} [Dyn a, Static] [Dyn 8440] [8, p] k1"
    "running (Dyn 4256) {a, 72, 4256, 8440} [Dyn a, Static] k1" using thread_yield_ok [OF k(2,3)] i(1) by auto
  note kk1 = yield_keeps [OF k1(1)]
  obtain k2 where k2: "thread_yield k1 = Some k2" "between demo_layout R {a, 72, 4256, 8440} [Static, Dyn 4256] [Dyn 8440] [8, p] k2"
    "running (Dyn a) {a, 72, 4256, 8440} [Static, Dyn 4256] k2" using thread_yield_ok [OF k1(2,3)] i(2) kk1 by (auto simp: kept_by_def)
  have "kept_by k k2" using kk1 yield_keeps [OF k2(1)] by (simp add: kept_by_def)
  then show ?thesis using that [OF k(1-4)] k(5) k1(1) k2 by simp
qed

text \<open>The exit of the second process while a thread of the kernel runs, and by its own thread.\<close>

theorem process_exit_terminates_witness:
  "\<exists>m p a k s1 k' s2. second_kernel m = Some (p, a, k) \<and> ready k [Dyn 4256, Dyn a] \<and> terminated k [Dyn 8440] \<and>
     process_exit (Some p) k = Some s1 \<and> ready s1 [Dyn 4256] \<and> terminated s1 [Dyn 8440, Dyn a] \<and> current_thread s1 = Some Static \<and>
     Option.bind (thread_yield k) thread_yield = Some k' \<and> current_thread k' = Some (Dyn a) \<and>
     process_exit (Some p) k' = Some s2 \<and> ready s2 [Dyn 4256] \<and> terminated s2 [Dyn 8440, Dyn a] \<and>
     current_thread s2 = Some Static \<and> place_ok Static s2"
proof -
  obtain m p a k k' R where k: "second_kernel m = Some (p, a, k)"
    "between demo_layout R {a, 72, 4256, 8440} [Dyn 4256, Dyn a] [Dyn 8440] [8, p] k" "running Static {a, 72, 4256, 8440} [Dyn 4256, Dyn a] k"
    "Some p \<noteq> kernel_process k" "\<And>t. t \<in> {Static, Dyn a, Dyn 4256} \<Longrightarrow> process_of k t = Some p \<longleftrightarrow> t = Dyn a"
    "Option.bind (thread_yield k) thread_yield = Some k'"
    "between demo_layout R {a, 72, 4256, 8440} [Static, Dyn 4256] [Dyn 8440] [8, p] k'" "running (Dyn a) {a, 72, 4256, 8440} [Static, Dyn 4256] k'"
    "kept_by k k'" by (rule two_processes_yield) blast
  have ne: "Dyn a \<noteq> Dyn 4256" "Dyn a \<noteq> Static" using k(2) by (auto simp: between_def states_ok_def ready_def queue_of_def)
  have pk: "process_of k' t = process_of k t" for t using k(9) by (simp add: kept_by_def)
  have kp: "Some p \<noteq> kernel_process k'" using k(4,9) by (simp add: kept_by_def)
  have own: "process_of k Static \<noteq> Some p" "process_of k (Dyn 4256) \<noteq> Some p" "process_of k (Dyn a) = Some p" using k(5) ne by auto
  obtain s1 where s1: "process_exit (Some p) k = Some s1" "ready s1 [Dyn 4256]" "terminated s1 [Dyn 8440, Dyn a]" "current_thread s1 = Some Static"
    using process_exit_terminates [OF k(2-4)] own by (auto simp: Let_def)
  obtain s2 where s2: "process_exit (Some p) k' = Some s2" "ready s2 [Dyn 4256]" "terminated s2 [Dyn 8440, Dyn a]" "current_thread s2 = Some Static"
      "place_ok Static s2"
    using process_exit_terminates [OF k(7,8) kp] own unfolding pk by (auto simp: Let_def next_of_queue_def)
  have q: "ready k [Dyn 4256, Dyn a]" "terminated k [Dyn 8440]" using k(2) by (simp_all add: between_def states_ok_def)
  have "current_thread k' = Some (Dyn a)" using k(8) by (simp add: running_def)
  then show ?thesis using k(1,6) q s1 s2 by blast
qed

text \<open>The thread of the second process blocks, ends, and lets its process exit; the kernel goes on with another.\<close>

theorem kernel_operations_return_witness:
  "\<exists>m p a k k' s1 s2 s3. second_kernel m = Some (p, a, k) \<and> Option.bind (thread_yield k) thread_yield = Some k' \<and>
     goes_on {a, 72, 4256, 8440} k' (Dyn a) \<and>
     thread_block k' = Some s1 \<and> goes_on {a, 72, 4256, 8440} s1 Static \<and>
     thread_terminate k' = Some s2 \<and> goes_on {a, 72, 4256, 8440} s2 Static \<and>
     process_exit (Some p) k' = Some s3 \<and> goes_on {a, 72, 4256, 8440} s3 Static \<and>
     (\<exists>e s4. scheduler_schedule 100 k' = Some (e, s4) \<and> goes_on (live_threads {a, 72, 4256, 8440} k') s4 Static) \<and>
     (\<exists>t s5. thread_create_in_process (Some p) 1 None k' = Some (t, s5) \<and> goes_on (with_new {a, 72, 4256, 8440} t) s5 (Dyn a))"
proof -
  obtain m p a k k' R where k: "second_kernel m = Some (p, a, k)"
    "between demo_layout R {a, 72, 4256, 8440} [Dyn 4256, Dyn a] [Dyn 8440] [8, p] k" "running Static {a, 72, 4256, 8440} [Dyn 4256, Dyn a] k"
    "Some p \<noteq> kernel_process k" "\<And>t. t \<in> {Static, Dyn a, Dyn 4256} \<Longrightarrow> process_of k t = Some p \<longleftrightarrow> t = Dyn a"
    "Option.bind (thread_yield k) thread_yield = Some k'"
    "between demo_layout R {a, 72, 4256, 8440} [Static, Dyn 4256] [Dyn 8440] [8, p] k'" "running (Dyn a) {a, 72, 4256, 8440} [Static, Dyn 4256] k'"
    "kept_by k k'" by (rule two_processes_yield) blast
  have ne: "Dyn a \<noteq> Dyn 4256" "Dyn a \<noteq> Static" using k(2) by (auto simp: between_def states_ok_def ready_def queue_of_def)
  have pk: "process_of k' t = process_of k t" for t using k(9) by (simp add: kept_by_def)
  have kp: "Some p \<noteq> kernel_process k'" using k(4,9) by (simp add: kept_by_def)
  have own: "process_of k Static \<noteq> Some p" "process_of k (Dyn 4256) \<noteq> Some p" "process_of k (Dyn a) = Some p" using k(5) ne by auto
  have "Some (Dyn a) \<noteq> idle_thread_instance k" using not_idle [OF k(2)] by simp
  then have ni: "Some (Dyn a) \<noteq> idle_thread_instance k'" using k(9) by (simp add: kept_by_def)
  have here: "goes_on {a, 72, 4256, 8440} k' (Dyn a)" by (rule goes_onI [OF k(7,8)])
  have nx: "next_of_queue k' (Static # rs) = Static" for rs by (simp add: next_of_queue_def)
  note all = kernel_operations_return [OF k(7,8), of p 100 1 None]
  from all obtain s1 where s1: "thread_block k' = Some s1" "goes_on {a, 72, 4256, 8440} s1 Static" using ni nx by auto
  from all obtain s2 where s2: "thread_terminate k' = Some s2" "goes_on {a, 72, 4256, 8440} s2 Static" using ni nx by auto
  from all obtain s3 where s3: "process_exit (Some p) k' = Some s3" "goes_on {a, 72, 4256, 8440} s3 Static"
    using kp own by (auto simp: pk nx)
  from all obtain e s4 where s4: "scheduler_schedule 100 k' = Some (e, s4)" "goes_on (live_threads {a, 72, 4256, 8440} k') s4 Static" using nx by auto
  from all obtain t s5 where s5: "thread_create_in_process (Some p) 1 None k' = Some (t, s5)" "goes_on (with_new {a, 72, 4256, 8440} t) s5 (Dyn a)" by auto
  show ?thesis using k(1,6) here s1 s2 s3 s4 s5 by blast
qed

end
