(* ===== verification/AtaRefine.thy ===== *)
theory AtaRefine
  imports AtaProps
begin

text \<open>
  The port-level driver implements the sector commands of \<open>Disk\<close>. What the events on the bus do to the drives is a
  function of the events, after the ATA documentation: a drive has the registers of its channel, a write
  command for as many sectors as the count register says to the drive and the sector that the other
  registers name, in the addressing mode of bit 6 of the head register, and it stores a sector when its 256th
  word has arrived.
\<close>

section \<open>The drives as the bus drives them\<close>

record ide =
  regs :: "u16 \<Rightarrow> u8"
  pending :: "ata_channel \<Rightarrow> (ata_drive \<times> u32 \<times> nat \<times> u16 list) option"
  stored :: "ata_channel \<times> ata_drive \<Rightarrow> u32 \<Rightarrow> u8 list"

definition reg_drive :: "ata_channel \<Rightarrow> ide \<Rightarrow> ata_drive" where
  "reg_drive ch i = (if bit (regs i (ata_base_port ch + 6)) 4 then ATA_SLAVE else ATA_MASTER)"

definition reg_sector :: "ata_channel \<Rightarrow> ide \<Rightarrow> u32" where
  "reg_sector ch i = (let base = ata_base_port ch in
     push_bit 24 (ucast (regs i (base + 6) AND 0x0F)) OR push_bit 16 (ucast (regs i (base + 5))) OR
     push_bit 8 (ucast (regs i (base + 4))) OR ucast (regs i (base + 3)))"

definition reg_count :: "ata_channel \<Rightarrow> ide \<Rightarrow> nat" where
  "reg_count ch i = (let n = unat (regs i (ata_base_port ch + 2)) in if n = 0 then 256 else n)"

definition take_command :: "ata_channel \<Rightarrow> u8 \<Rightarrow> ide \<Rightarrow> ide" where
  "take_command ch cmd i = i\<lparr>pending := (pending i)(ch :=
     if cmd = 0x30 \<and> bit (regs i (ata_base_port ch + 6)) 6
     then Some (reg_drive ch i, reg_sector ch i, reg_count ch i, []) else None)\<rparr>"

definition take_word :: "ata_channel \<Rightarrow> u16 \<Rightarrow> ide \<Rightarrow> ide" where
  "take_word ch w i =
     (case pending i ch of
        None \<Rightarrow> i
      | Some (d, a, n, ws) \<Rightarrow>
          if length ws < 255 then i\<lparr>pending := (pending i)(ch := Some (d, a, n, ws @ [w]))\<rparr>
          else i\<lparr>stored := (stored i)((ch, d) := (stored i (ch, d))(a := words_bytes (ws @ [w]))),
                 pending := (pending i)(ch := if n \<le> 1 then None else Some (d, a + 1, n - 1, []))\<rparr>)"

fun ide_event :: "port_event \<Rightarrow> ide \<Rightarrow> ide" where
  "ide_event (Outb p v) i =
     (let i = i\<lparr>regs := (regs i)(p := v)\<rparr>
      in if p = ata_base_port ATA_PRIMARY + 7 then take_command ATA_PRIMARY v i
         else if p = ata_base_port ATA_SECONDARY + 7 then take_command ATA_SECONDARY v i else i)"
| "ide_event (Outw p w) i =
     (if p = ata_base_port ATA_PRIMARY then take_word ATA_PRIMARY w i
      else if p = ata_base_port ATA_SECONDARY then take_word ATA_SECONDARY w i else i)"
| "ide_event (Inb p) i = i"
| "ide_event (Inw p) i = i"

definition ide_run :: "port_event list \<Rightarrow> ide \<Rightarrow> ide" where
  "ide_run es i = fold ide_event es i"

lemma ide_run_append: "ide_run (es @ fs) i = ide_run fs (ide_run es i)"
  by (simp add: ide_run_def)

lemma ide_run_reads [simp]: "ide_run (replicate n (Inb p)) i = i"
  by (induction n) (simp_all add: ide_run_def)

lemma ide_run_other: "v \<noteq> 0x30 \<Longrightarrow> stored (ide_run [Outb p v] i) = stored i"
  by (simp add: ide_run_def take_command_def Let_def)

section \<open>A write\<close>

lemma bit_head: "bit (0xE0 OR drive_bits d OR ucast (x AND 0x0F :: u32) :: u8) 6"
proof -
  have "(0xE0 :: u8) = push_bit 5 7" by simp
  moreover have "bit (push_bit 5 7 :: u8) 6" by (simp add: bit_push_bit_iff)
  ultimately show ?thesis by (simp only: bit_or_iff simp_thms)
qed

lemma ide_run_command:
  assumes "i' = ide_run (command_log dev lba 0x30) i"
  shows "stored i' = stored i" "pending i' (channel dev) = Some (drive dev, take_bit 28 lba, 1, [])"
proof -
  let ?r = "(regs i)(ata_base_port (channel dev) + 6 := 0xE0 OR drive_bits (drive dev) OR ucast (drop_bit 24 lba AND 0x0F),
      ata_base_port (channel dev) + 2 := 1, ata_base_port (channel dev) + 3 := ucast (lba AND 0xFF),
      ata_base_port (channel dev) + 4 := ucast (drop_bit 8 lba AND 0xFF), ata_base_port (channel dev) + 5 := ucast (drop_bit 16 lba AND 0xFF),
      ata_base_port (channel dev) + 7 := 0x30)"
  have i': "i' = take_command (channel dev) 0x30 (i\<lparr>regs := ?r\<rparr>)"
    unfolding assms command_log_def Let_def ide_run_append ide_run_reads
    by (cases "channel dev") (simp_all add: ide_run_def ata_base_port_def)
  have m: "(0x0F :: u32) = mask 4" by (simp add: mask_eq_exp_minus_1)
  have h: "ucast (x AND 0x0F :: u32) = (take_bit 4 (ucast x) :: u8)" for x
    unfolding m by (auto intro!: bit_word_eqI simp: bit_simps)
  have "reg_sector (channel dev) (i\<lparr>regs := ?r\<rparr>) = take_bit 28 lba"
    unfolding reg_sector_def Let_def
    by (simp add: drive_head(1) low_byte) (simp only: h lba_parts)
  moreover have "reg_drive (channel dev) (i\<lparr>regs := ?r\<rparr>) = drive dev"
    unfolding reg_drive_def by (simp add: drive_head(2)) (cases "drive dev"; simp)
  moreover have "reg_count (channel dev) (i\<lparr>regs := ?r\<rparr>) = 1" by (simp add: reg_count_def)
  moreover have "bit (?r (ata_base_port (channel dev) + 6)) 6" using bit_head by simp
  ultimately show "stored i' = stored i" "pending i' (channel dev) = Some (drive dev, take_bit 28 lba, 1, [])"
    unfolding i' by (simp_all add: take_command_def)
qed

lemma ide_run_words:
  assumes "pending i ch = Some (d, a, 1, vs)" "length vs + length ws = 256" "ws \<noteq> []"
  shows "stored (ide_run (map (Outw (ata_base_port ch)) ws) i) = (stored i)((ch, d) := (stored i (ch, d))(a := words_bytes (vs @ ws)))"
  using assms
proof (induction ws arbitrary: i vs)
  case (Cons w ws)
  have e: "ide_event (Outw (ata_base_port ch) w) i = take_word ch w i" by (cases ch) (simp_all add: ata_base_port_def)
  show ?case
  proof (cases "ws = []")
    case True
    then show ?thesis using Cons.prems by (simp add: ide_run_def e take_word_def fun_eq_iff del: ide_event.simps)
  next
    case False
    then have "length vs < 255" using Cons.prems(2) by (cases ws) simp_all
    then have t: "pending (take_word ch w i) ch = Some (d, a, 1, vs @ [w])" "stored (take_word ch w i) = stored i"
      using Cons.prems(1) by (simp_all add: take_word_def)
    have "length (vs @ [w]) + length ws = 256" using Cons.prems(2) by simp
    from Cons.IH [OF t(1) this False] have "stored (ide_run (map (Outw (ata_base_port ch)) ws) (take_word ch w i)) =
        (stored i)((ch, d) := (stored i (ch, d))(a := words_bytes ((vs @ [w]) @ ws)))" unfolding t(2) .
    then show ?thesis unfolding ide_run_def list.map fold.simps comp_def e append_assoc append.simps .
  qed
qed simp

text \<open>A write that has been carried out, and one that has not: the events of the driver and what they do to the drives.\<close>

lemma pio_write_events:
  assumes "pio_write_sector (Some dev) lba ws s = Some (b, s')" "length ws = 256" "present dev" "lba < sector_count dev"
  shows "\<exists>es. bus s' = bus s @ es \<and> ((b = False \<and> (\<forall>i. stored (ide_run es i) = stored i)) \<or>
    (\<forall>i. stored (ide_run es i) = (stored i)((channel dev, drive dev) := (stored i (channel dev, drive dev))(take_bit 28 lba := words_bytes ws))))"
proof -
  let ?base = "ata_base_port (channel dev)"
  have nl: "\<not> sector_count dev \<le> lba" using assms(4) by (simp add: not_le)
  obtain ok s1 where s1: "ata_poll (channel dev) (send_command dev lba 0x30 s) = Some (ok, s1)"
    using assms by (auto simp: pio_write_sector_def split: bind_splits if_splits)
  obtain n where n: "s1 = log s (command_log dev lba 0x30 @ replicate n (Inb (?base + 7)))"
    using ata_poll_events(1) [OF s1] by (auto simp: send_command_log)
  show ?thesis
  proof (cases ok)
    case False
    then have "b = False" "s' = s1" using assms nl s1 by (simp_all add: pio_write_sector_def)
    moreover have "stored (ide_run (command_log dev lba 0x30 @ replicate n (Inb (?base + 7))) i) = stored i" for i
      by (simp add: ide_run_append ide_run_command(1) [OF refl])
    ultimately show ?thesis using n by auto
  next
    case True
    then have "ata_wait_ready (channel dev) (outb (?base + 7) 0xE7 (fold (outw ?base) ws s1)) = Some (b, s')"
      using assms nl s1 True by (auto simp: pio_write_sector_def)
    from ata_poll_events(2) [OF this] obtain m where m: "s' = log s (command_log dev lba 0x30 @ replicate n (Inb (?base + 7)) @
        map (Outw ?base) ws @ [Outb (?base + 7) 0xE7] @ replicate m (Inb (?base + 7)))"
      by (auto simp: n fold_outw_log port_log)
    have "stored (ide_run (command_log dev lba 0x30 @ replicate n (Inb (?base + 7)) @ map (Outw ?base) ws @
        [Outb (?base + 7) 0xE7] @ replicate m (Inb (?base + 7))) i) =
      (stored i)((channel dev, drive dev) := (stored i (channel dev, drive dev))(take_bit 28 lba := words_bytes ws))" for i
    proof -
      let ?i = "ide_run (command_log dev lba 0x30) i"
      have "ws \<noteq> []" using assms(2) by auto
      then have "stored (ide_run (map (Outw ?base) ws) ?i) =
          (stored i)((channel dev, drive dev) := (stored i (channel dev, drive dev))(take_bit 28 lba := words_bytes ws))"
        using ide_run_words [of ?i "channel dev" "drive dev" "take_bit 28 lba" "[]" ws] ide_run_command [OF refl] assms(2) by simp
      then show ?thesis by (simp only: ide_run_append ide_run_reads ide_run_other [of "0xE7"]) (simp add: ide_run_other)
    qed
    then show ?thesis using m by auto
  qed
qed

text \<open>C15. The port-level driver implements the disk interface of the file system: a write that returns, whatever the
  drive answers, is a write of the abstract disk with one of its outcomes. It has the same result, and what its
  events on the bus make the drives store - decoded from the registers, the command and the data words that
  they carry - is exactly what the abstract write leaves on the medium: with the outcomes that store, the
  256 words at that sector of that drive of that channel, and otherwise nothing. The drive has at most
  \<open>2 ^ 28\<close> sectors, as many as the 28-bit commands of the driver can name.\<close>

theorem pio_write_refines:
  assumes "pio_write_sector d lba ws s = Some (b, s')" "length ws = 256" "\<And>dev. d = Some dev \<Longrightarrow> sector_count dev \<le> 2 ^ 28"
  shows "\<exists>es oc. bus s' = bus s @ es \<and>
    (\<forall>i (w :: 'b hw_scheme). stored i = medium w \<and> io_script w (io_pos w) = oc \<longrightarrow>
      (case ata_write_sector d lba (words_bytes ws) w of (b', w') \<Rightarrow> b' = b \<and> stored (ide_run es i) = medium w'))"
proof (cases "\<exists>dev. d = Some dev \<and> present dev \<and> lba < sector_count dev")
  case False
  then have "b = False" "s' = s" using assms(1) by (auto simp: pio_write_sector_def not_le split: option.splits if_splits)
  moreover have "ata_write_sector d lba (words_bytes ws) w = (False, w)" for w :: "'b hw_scheme"
    using False by (auto simp: ata_write_sector_def split: option.splits)
  ultimately show ?thesis by (intro exI [of _ "[]"]) (simp add: ide_run_def)
next
  case True
  then obtain dev where d: "d = Some dev" "present dev" "lba < sector_count dev" by blast
  have "lba < 2 ^ 28" using d(3) assms(3) [OF d(1)] by (rule less_le_trans)
  then have "unat lba < 2 ^ 28" by (simp add: word_less_nat_alt)
  then have t: "take_bit 28 lba = lba" by (intro word_unat_eq_iff [THEN iffD2]) (simp only: unsigned_take_bit_eq take_bit_nat_eq_self)
  obtain es where es: "bus s' = bus s @ es" "(b = False \<and> (\<forall>i. stored (ide_run es i) = stored i)) \<or>
      (\<forall>i. stored (ide_run es i) = (stored i)((channel dev, drive dev) := (stored i (channel dev, drive dev))(lba := words_bytes ws)))"
    using pio_write_events [OF assms(1) [unfolded d(1)] assms(2) d(2,3)] unfolding t by blast
  have w: "ata_write_sector d lba (words_bytes ws) w = (case io_script w (io_pos w) of
      Io_Done \<Rightarrow> (True, tick (put_sector dev lba (words_bytes ws) w)) | Io_Fault \<Rightarrow> (False, tick w)
    | Io_Flush_Fault \<Rightarrow> (False, tick (put_sector dev lba (words_bytes ws) w)))" for w :: "'b hw_scheme"
    using d by (simp add: ata_write_sector_def not_le split: io_outcome.split)
  from es(2) show ?thesis
  proof
    assume "b = False \<and> (\<forall>i. stored (ide_run es i) = stored i)"
    then show ?thesis using es(1) by (intro exI [of _ es] exI [of _ Io_Fault]) (simp add: w tick_def)
  next
    assume "\<forall>i. stored (ide_run es i) = (stored i)((channel dev, drive dev) := (stored i (channel dev, drive dev))(lba := words_bytes ws))"
    then show ?thesis using es(1)
      by (intro exI [of _ es] exI [of _ "if b then Io_Done else Io_Flush_Fault"]) (auto simp: w tick_def put_sector_def)
  qed
qed

text \<open>A write of sector 5 of the slave on the primary channel, on a drive that is always ready.\<close>

theorem pio_write_refines_witness:
  "\<exists>s' es. pio_write_sector (Some demo_drive) 5 (replicate 256 7) demo_bus = Some (True, s') \<and> bus s' = es \<and>
     (\<forall>i. stored (ide_run es i) = (stored i)((ATA_PRIMARY, ATA_SLAVE) := (stored i (ATA_PRIMARY, ATA_SLAVE))(5 := words_bytes (replicate 256 7))))"
proof -
  have d: "present demo_drive" "5 < sector_count demo_drive" "length (replicate 256 7 :: u16 list) = 256"
    by (simp_all add: demo_drive_def)
  obtain s' where s': "pio_write_sector (Some demo_drive) 5 (replicate 256 7) demo_bus = Some (True, s')"
    using pio_write_run [OF d refl refl demo_status_ok(1) refl demo_status_ok(1)] demo_status_ok(2,3)
    by (simp add: demo_status)
  have "sector_count dev \<le> 2 ^ 28" if "Some demo_drive = Some dev" for dev using that by (auto simp: demo_drive_def)
  from pio_write_refines [where 'b = unit, OF s' d(3) this] obtain es oc where es: "bus s' = bus demo_bus @ es"
    "\<forall>i (w :: hw). stored i = medium w \<and> io_script w (io_pos w) = oc \<longrightarrow>
      (case ata_write_sector (Some demo_drive) 5 (words_bytes (replicate 256 7)) w of (b', w') \<Rightarrow> b' = True \<and> stored (ide_run es i) = medium w')"
    by blast
  have "stored (ide_run es i) = (stored i)((ATA_PRIMARY, ATA_SLAVE) := (stored i (ATA_PRIMARY, ATA_SLAVE))(5 := words_bytes (replicate 256 7)))" for i
    using es(2) [rule_format, of i "\<lparr>medium = stored i, io_script = (\<lambda>_. oc), io_pos = 0\<rparr>"] d(1,2)
    by (cases oc) (auto simp: ata_write_sector_def put_sector_def tick_def demo_drive_def split: if_splits)
  then show ?thesis using s' es(1) by (auto simp: demo_bus_def)
qed

end
