(* ===== verification/FileWrite.thy ===== *)
theory FileWrite
  imports FileProps
begin

text \<open>
  Writing a file. A write changes the bytes of the cluster chain at its position and appends clusters to
  the chain as long as the volume has free ones; nothing outside the chain changes.
\<close>

section \<open>Writing a cluster\<close>

lemma write_sectors_ok:
  assumes "healthy w" "\<And>k. k < i + n \<Longrightarrow> in_disk disk (s + of_nat k)" "unat s + (i + n) \<le> 2 ^ 32 - 1"
  shows "\<exists>w'. write_sectors disk s 512 i n buf w = (True, w') \<and> healthy w' \<and> fat32_fs w' = fat32_fs w \<and>
    fat_state.more w' = fat_state.more w \<and>
    (\<forall>lba. sec disk w' lba =
       (if unat s + i \<le> unat lba \<and> unat lba < unat s + (i + n) then take 512 (drop ((unat lba - unat s) * 512) buf)
        else sec disk w lba))"
  using assms
proof (induction n arbitrary: i w)
  case 0
  then show ?case by auto
next
  case (Suc n)
  let ?a = "s + of_nat i" and ?b = "take 512 (drop (i * 512) buf)"
  let ?w1 = "tick (set_sec disk ?a ?b w)"
  have a: "in_disk disk ?a" using Suc.prems(2) [of i] by simp
  have ua: "unat ?a = unat s + i"
    using Suc.prems(3) by (subst unat_plus_small) (simp_all add: unat_of_nat)
  obtain w' where w': "write_sectors disk s 512 (Suc i) n buf ?w1 = (True, w')" "healthy w'"
    "fat32_fs w' = fat32_fs w" "fat_state.more w' = fat_state.more w"
    "\<forall>lba. sec disk w' lba = (if unat s + Suc i \<le> unat lba \<and> unat lba < unat s + (Suc i + n)
       then take 512 (drop ((unat lba - unat s) * 512) buf) else sec disk ?w1 lba)"
    using Suc.IH [of ?w1 "Suc i"] Suc.prems by auto
  have run: "write_sectors disk s 512 i (Suc n) buf w = (True, w')"
    using w'(1) a Suc.prems(1) by (simp add: disk_write_ok)
  have "sec disk w' lba = (if unat s + i \<le> unat lba \<and> unat lba < unat s + (i + Suc n)
       then take 512 (drop ((unat lba - unat s) * 512) buf) else sec disk w lba)" for lba
  proof (cases "lba = ?a")
    case True
    then show ?thesis using w'(5) a ua by simp
  next
    case False
    then have "unat lba \<noteq> unat s + i" using ua by (simp add: word_unat_eq_iff)
    then show ?thesis using w'(5) a False by auto
  qed
  then show ?case using run w'(2-4) by blast
qed

text \<open>\<open>only_clusters disk w w' S\<close>: the step from \<open>w\<close> to \<open>w'\<close> changes at most the table entries and the sectors of the
  clusters in \<open>S\<close>.\<close>

definition only_clusters :: "disk_t option \<Rightarrow> 'a fat_state_scheme \<Rightarrow> 'a fat_state_scheme \<Rightarrow> u32 set \<Rightarrow> bool" where
  "only_clusters disk w w' S \<longleftrightarrow> fat_ok disk w' \<and> fat32_fs w' = fat32_fs w \<and> fat_state.more w' = fat_state.more w \<and>
     (\<forall>d. valid_cluster (fat32_fs w) d \<longrightarrow> d \<notin> S \<longrightarrow> fat disk w' d = fat disk w d) \<and>
     (\<forall>lba. first_data_sector (fat32_fs w) \<le> lba \<longrightarrow> (\<forall>x \<in> S. \<not> in_cluster x w lba) \<longrightarrow> sec disk w' lba = sec disk w lba)"

lemma only_clusters_trans:
  assumes "only_clusters disk w w1 S" "only_clusters disk w1 w2 T" "S \<subseteq> U" "T \<subseteq> U"
  shows "only_clusters disk w w2 U"
  using assms in_cluster_same [of w1 w] unfolding only_clusters_def by (metis subsetD)

lemma only_clusters_quiet: "fat_ok disk w \<Longrightarrow> quiet w w' \<Longrightarrow> only_clusters disk w w' S"
  by (simp add: only_clusters_def quiet_fat_ok quiet_fields quiet_fat quiet_sec)

lemma only_clusters_data:
  assumes "only_clusters disk w w' S" "fat_ok disk w" "valid_cluster (fat32_fs w) d" "d \<notin> S" "\<And>x. x \<in> S \<Longrightarrow> valid_cluster (fat32_fs w) x"
  shows "cluster_data disk w' d = cluster_data disk w d"
proof -
  have g: "geometry_ok disk (fat32_fs w)" using assms(2) by (simp add: fat_ok_def)
  have fs: "fat32_fs w' = fat32_fs w" using assms(1) by (simp add: only_clusters_def)
  have "sec disk w' l = sec disk w l" if "l \<in> set (cluster_lbas w d)" for l
  proof -
    note l = cluster_lbas_ok [OF g assms(3) that]
    have "\<not> in_cluster x w l" if "x \<in> S" for x
      using in_cluster_disjoint [OF g assms(3) assms(5) [OF that] l(2)] that assms(4) by blast
    then show ?thesis using assms(1) l(3) by (simp add: only_clusters_def)
  qed
  then have "map (sec disk w') (cluster_lbas w d) = map (sec disk w) (cluster_lbas w d)" by simp
  then show ?thesis by (simp only: cluster_data_def cluster_lbas_cong [OF fs])
qed

lemma sector_slices:
  "length xs = n * k \<Longrightarrow> concat (map (\<lambda>i. take n (drop (i * n) xs)) [0..<k]) = xs"
proof (induction k arbitrary: xs)
  case (Suc k)
  have "map (\<lambda>i. take n (drop (i * n) xs)) [0..<Suc k] = take n xs # map (\<lambda>i. take n (drop (i * n) (drop n xs))) [0..<k]"
    by (simp add: map_upt_Suc add.commute del: upt_Suc)
  then show ?case using Suc.IH [of "drop n xs"] Suc.prems by (simp del: upt_Suc)
qed simp

lemma write_cluster_ok:
  assumes ok: "fat_ok disk w" and v: "valid_cluster (fat32_fs w) c" and len: "cluster_size_of w \<le> length buf"
  shows "\<exists>w'. file_write_cluster disk c buf w = (True, w') \<and> only_clusters disk w w' {c} \<and>
    (\<forall>d. valid_cluster (fat32_fs w) d \<longrightarrow> fat disk w' d = fat disk w d) \<and>
    cluster_data disk w' c = take (cluster_size_of w) buf"
proof -
  let ?s = "fat32_cluster_to_sector c w" and ?n = "unat (sectors_per_cluster (fat32_fs w))"
  have g: "geometry_ok disk (fat32_fs w)" and h: "healthy w" using ok by (auto simp: fat_ok_def)
  have bps: "unat (bytes_per_sector (fat32_fs w)) = 512" using geometry_okD(1) [OF g] by simp
  have room: "unat ?s + ?n \<le> 2 ^ 32 - 1"
  proof -
    obtain dev :: ata_device where "unat (first_data_sector (fat32_fs w)) +
      unat (total_clusters (fat32_fs w)) * ?n \<le> unat (sector_count dev)"
      using geometry_ok_dev [OF g] by blast
    moreover have "unat (sector_count dev) < 2 ^ 32" using unat_u32_less [of "sector_count dev"] by simp
    ultimately show ?thesis using cluster_to_sector_ok(2) [OF g v] by linarith
  qed
  obtain w' where w': "write_sectors disk ?s 512 0 ?n buf w = (True, w')" "healthy w'" "fat32_fs w' = fat32_fs w"
    "fat_state.more w' = fat_state.more w"
    "\<forall>lba. sec disk w' lba = (if unat ?s \<le> unat lba \<and> unat lba < unat ?s + ?n
       then take 512 (drop ((unat lba - unat ?s) * 512) buf) else sec disk w lba)"
    using write_sectors_ok [OF h, of 0 ?n disk ?s buf] cluster_in_disk(1) [OF g v] room by auto
  have sec: "sec disk w' lba = (if in_cluster c w lba then take 512 (drop ((unat lba - unat ?s) * 512) buf) else sec disk w lba)" for lba
    using w'(5) by (simp add: in_cluster_def)
  have "length (take 512 (drop ((unat lba - unat ?s) * 512) buf)) = 512" if "in_cluster c w lba" for lba
  proof -
    have "unat lba - unat ?s + 1 \<le> ?n" using that unfolding in_cluster_def by linarith
    then have "512 * (unat lba - unat ?s + 1) \<le> 512 * ?n" by (rule mult_le_mono2)
    then show ?thesis using len by simp
  qed
  then have "length (sec disk w' lba) = 512" for lba using sec [of lba] ok by (simp add: fat_ok_def medium_wf_def)
  then have ok': "fat_ok disk w'" by (rule fat_ok_data_change [OF ok w'(2,3)])
  have pos: "unat (first_data_sector (fat32_fs w)) \<le> unat ?s"
    using cluster_sector_pos(1) [OF g v] by (simp add: word_le_nat_alt)
  have fat: "fat disk w' d = fat disk w d" if "valid_cluster (fat32_fs w) d" for d
    using w'(5) pos by (intro fat_data_change [OF ok w'(3) that]) (auto simp: word_less_nat_alt)
  have "sec disk w' (?s + of_nat i) = take 512 (drop (i * 512) (take (cluster_size_of w) buf))" if "i < ?n" for i
  proof -
    have u: "unat (?s + of_nat i) = unat ?s + i" using cluster_in_disk(2) [OF g v that] .
    have "512 * (i + 1) \<le> 512 * ?n" using that by (intro mult_le_mono2) simp
    then show ?thesis using w'(5) that u by (simp add: drop_take)
  qed
  then have "map (sec disk w') (cluster_lbas w c) = map (\<lambda>i. take 512 (drop (i * 512) (take (cluster_size_of w) buf))) [0..<?n]"
    by (simp add: cluster_lbas_def)
  then have "cluster_data disk w' c = take (cluster_size_of w) buf"
    using sector_slices [of "take (cluster_size_of w) buf" 512 ?n] len
    by (simp add: cluster_data_def cluster_lbas_cong [OF w'(3)])
  moreover have "file_write_cluster disk c buf w = (True, w')"
    using w'(1) by (simp add: file_write_cluster_def fat_ok_not_None [OF ok] bps)
  ultimately show ?thesis using ok' w'(3,4) fat sec by (auto simp: only_clusters_def)
qed

section \<open>The next cluster of the chain\<close>

definition free_clusters :: "disk_t option \<Rightarrow> 'a fat_state_scheme \<Rightarrow> u32 set" where
  "free_clusters disk w = {d. valid_cluster (fat32_fs w) d \<and> fat disk w d = FAT32_CLUSTER_FREE}"

lemma not_valid_0 [simp]: "\<not> valid_cluster fs 0"
  by (simp add: valid_cluster_def)

lemma chain_not_free: "dir_chain disk w c zs \<Longrightarrow> x \<in> set zs \<Longrightarrow> x \<notin> free_clusters disk w"
  using chain_entry_nonzero [of "fat disk w" "valid_cluster (fat32_fs w)" c zs x]
  by (auto simp: dir_chain_def free_clusters_def)

lemma dir_chain_valid: "dir_chain disk w c zs \<Longrightarrow> x \<in> set zs \<Longrightarrow> valid_cluster (fat32_fs w) x"
  unfolding dir_chain_def by (rule fat_chain_valid)

lemma dir_chain_nonzero: "dir_chain disk w c zs \<Longrightarrow> c \<noteq> 0"
  using fat_chain_hd [of "fat disk w"] fat_chain_valid [of "fat disk w"] not_valid_0
  unfolding dir_chain_def by (metis hd_in_set)

lemma next_existing:
  assumes "fat_ok disk w" "dir_chain disk w c zs" "Suc j < length zs"
  shows "next_or_append disk (zs ! j) w = Some (Some (zs ! Suc j), tick w)"
proof -
  note n = chain_next [OF assms(2) [unfolded dir_chain_def] assms(3)]
  then have lt: "zs ! Suc j < FAT32_CLUSTER_LAST" by metis
  then have "\<not> FAT32_CLUSTER_LAST \<le> zs ! Suc j" "zs ! Suc j \<noteq> FAT32_INVALID_CLUSTER" by (auto simp: not_le)
  then show ?thesis
    using n dir_chain_valid [OF assms(2), of "zs ! j"] assms(3)
    by (simp add: next_or_append_def next_cluster_ok [OF assms(1)])
qed

lemma zero_cluster_data:
  assumes "fat_ok disk w" "valid_cluster (fat32_fs w) d" "fat32_fs w' = fat32_fs w"
    and "\<And>lba. first_data_sector (fat32_fs w) \<le> lba \<Longrightarrow> in_cluster d w lba \<Longrightarrow> sec disk w' lba = replicate 512 0"
  shows "cluster_data disk w' d = replicate (cluster_size_of w) 0"
proof -
  have g: "geometry_ok disk (fat32_fs w)" using assms(1) by (simp add: fat_ok_def)
  have "map (sec disk w') (cluster_lbas w d) = map (\<lambda>_. replicate 512 0) (cluster_lbas w d)"
    using assms(4) cluster_lbas_ok [OF g assms(2)] by simp
  moreover have "concat (map (\<lambda>_. replicate 512 (0 :: u8)) ls) = replicate (512 * length ls) 0" for ls :: "u32 list"
    by (induction ls) (simp_all add: replicate_add)
  ultimately show ?thesis
    by (simp only: cluster_data_def cluster_lbas_cong [OF assms(3)]) (simp add: cluster_lbas_def)
qed

lemma allocate_free:
  assumes ok: "fat_ok disk w" and free: "free_clusters disk w \<noteq> {}"
  shows "\<exists>d w'. fat32_allocate_cluster disk w = (d, w') \<and> d \<noteq> 0 \<and> d \<in> free_clusters disk w \<and>
    fat_ok disk w' \<and> fat32_fs w' = fat32_fs w \<and> fat_state.more w' = fat_state.more w \<and>
    (\<forall>e. valid_cluster (fat32_fs w) e \<longrightarrow> fat disk w' e = (if e = d then FAT32_CLUSTER_EOC else fat disk w e)) \<and>
    (\<forall>lba. first_data_sector (fat32_fs w) \<le> lba \<longrightarrow>
       sec disk w' lba = (if in_cluster d w lba then replicate 512 0 else sec disk w lba))"
  using allocate_cluster_ok [OF ok] free by (elim exE conjE) (auto simp: free_clusters_def split: if_splits)

lemma next_appended:
  assumes ok: "fat_ok disk w" and ch: "dir_chain disk w c zs" and free: "free_clusters disk w \<noteq> {}"
  shows "\<exists>d w'. next_or_append disk (last zs) w = Some (Some d, w') \<and> d \<in> free_clusters disk w \<and>
    dir_chain disk w' c (zs @ [d]) \<and> only_clusters disk w w' {last zs, d} \<and>
    cluster_data disk w' d = replicate (cluster_size_of w) 0 \<and>
    cluster_data disk w' (last zs) = cluster_data disk w (last zs) \<and>
    free_clusters disk w' = free_clusters disk w - {d}"
proof -
  let ?V = "valid_cluster (fat32_fs w)"
  note fc = ch [unfolded dir_chain_def]
  have zs: "zs \<noteq> []" using fat_chain_hd [OF fc] by simp
  have vl: "?V (last zs)" using dir_chain_valid [OF ch] zs by simp
  have eoc: "FAT32_CLUSTER_LAST \<le> fat disk w (last zs)" by (rule fat_chain_last_eoc [OF fc])
  have nx: "fat32_next_cluster disk (last zs) w = (FAT32_INVALID_CLUSTER, tick w)"
    using eoc vl by (simp add: next_cluster_ok [OF ok])
  have okt: "fat_ok disk (tick w)" by (rule quiet_fat_okI [OF quiet_tick ok])
  obtain d w2 where a: "fat32_allocate_cluster disk (tick w) = (d, w2)" "fat_ok disk w2" "fat32_fs w2 = fat32_fs w"
    "fat_state.more w2 = fat_state.more w" "?V d" "fat disk w d = 0"
    "\<forall>e. ?V e \<longrightarrow> fat disk w2 e = (if e = d then FAT32_CLUSTER_EOC else fat disk w e)"
    "\<forall>lba. first_data_sector (fat32_fs w) \<le> lba \<longrightarrow> sec disk w2 lba = (if in_cluster d w lba then replicate 512 0 else sec disk w lba)"
  proof -
    have "free_clusters disk (tick w) \<noteq> {}" using free by (simp add: free_clusters_def)
    from allocate_free [OF okt this] show thesis
      apply (elim exE conjE)
      subgoal for d w2
        by (rule that [of d w2])
          (simp_all add: free_clusters_def in_cluster_same [of "tick w" w] quiet_fat [OF quiet_tick] quiet_sec [OF quiet_tick])
      done
  qed
  have dz: "d \<notin> set zs" using chain_not_free [OF ch] a(5,6) by (auto simp: free_clusters_def)
  then have dl: "d \<noteq> last zs" using zs by auto
  have one: "fat_chain (fat disk w2) (valid_cluster (fat32_fs w2)) (last zs) [last zs]"
    using a(3,7) vl eoc dl by simp
  obtain w3 where b: "fat32_append_cluster disk (last zs) d w2 = Some (True, w3)" "fat_ok disk w3" "fat32_fs w3 = fat32_fs w"
    "fat_state.more w3 = fat_state.more w" "fat_chain (fat disk w3) ?V (last zs) [last zs, d]"
    "\<forall>e. ?V e \<longrightarrow> e \<notin> {d, last zs} \<longrightarrow> fat disk w3 e = fat disk w2 e"
    "\<forall>lba. first_data_sector (fat32_fs w) \<le> lba \<longrightarrow> sec disk w3 lba = (if in_cluster d w lba then replicate 512 0 else sec disk w2 lba)"
    using append_cluster_ok [OF a(2) one, of d] a(3-5) dl in_cluster_same [of w2 w] by auto
  have sec: "sec disk w3 lba = (if in_cluster d w lba then replicate 512 0 else sec disk w lba)"
    if "first_data_sector (fat32_fs w) \<le> lba" for lba using a(8) b(7) that by simp
  have fat: "fat disk w3 e = fat disk w e" if "?V e" "e \<notin> {d, last zs}" for e using a(7) b(6) that by simp
  have ends: "fat disk w3 (last zs) = d" "FAT32_CLUSTER_LAST \<le> fat disk w3 d" "d < FAT32_CLUSTER_LAST" using b(5) by auto
  have only: "only_clusters disk w w3 {last zs, d}"
    using b(2-4) fat sec by (simp add: only_clusters_def)
  have "fat_chain (fat disk w3) ?V c (zs @ [d])"
  proof (rule fat_chain_snoc [OF fc a(5) ends(3,2,1)])
    fix x assume x: "x \<in> set (butlast zs)"
    then have "x \<in> set zs" by (rule in_set_butlastD)
    moreover have "x \<noteq> last zs"
      using fat_chain_distinct [OF fc] x zs by (metis append_butlast_last_id distinct_butlast not_distinct_conv_prefix)
    ultimately show "fat disk w3 x = fat disk w x" using fat dz dir_chain_valid [OF ch] by auto
  qed
  then have "dir_chain disk w3 c (zs @ [d])" by (simp add: dir_chain_def b(3))
  moreover have "cluster_data disk w3 d = replicate (cluster_size_of w) 0"
    by (rule zero_cluster_data [OF ok a(5) b(3)]) (simp add: sec)
  moreover have "cluster_data disk w3 (last zs) = cluster_data disk w (last zs)"
  proof -
    have g: "geometry_ok disk (fat32_fs w)" using ok by (simp add: fat_ok_def)
    have "sec disk w3 l = sec disk w l" if "l \<in> set (cluster_lbas w (last zs))" for l
      using cluster_lbas_ok [OF g vl that] in_cluster_disjoint [OF g a(5) vl, of l] dl sec by auto
    then have "map (sec disk w3) (cluster_lbas w (last zs)) = map (sec disk w) (cluster_lbas w (last zs))" by simp
    then show ?thesis by (simp only: cluster_data_def cluster_lbas_cong [OF b(3)])
  qed
  moreover have "free_clusters disk w3 = free_clusters disk w - {d}"
  proof (rule set_eqI)
    fix e show "e \<in> free_clusters disk w3 \<longleftrightarrow> e \<in> free_clusters disk w - {d}"
      using fat [of e] ends a(5) eoc b(3) dl by (cases "e = d"; cases "e = last zs") (auto simp: free_clusters_def)
  qed
  moreover have "next_or_append disk (last zs) w = Some (Some d, w3)"
    using nx a(1,5) b(1) by (auto simp: next_or_append_def)
  moreover have "d \<in> free_clusters disk w" using a(5,6) by (simp add: free_clusters_def)
  ultimately show ?thesis using only by blast
qed

section \<open>Writing into a cluster of a chain\<close>

lemma put_block_middle:
  "off + length ys \<le> length xs \<Longrightarrow> put_block (as @ xs @ bs) (length as + off) ys = as @ put_block xs off ys @ bs"
  by (simp add: put_block_def)

lemma concat_put_block:
  assumes "distinct zs" "j < length zs" "\<And>x. x \<in> set zs \<Longrightarrow> length (f x) = n" "off + length ys \<le> n"
    and "\<And>x. x \<in> set zs \<Longrightarrow> x \<noteq> zs ! j \<Longrightarrow> g x = f x" "g (zs ! j) = put_block (f (zs ! j)) off ys"
  shows "concat (map g zs) = put_block (concat (map f zs)) (j * n + off) ys"
proof -
  let ?as = "take j zs" and ?z = "zs ! j" and ?bs = "drop (Suc j) zs"
  have zs: "zs = ?as @ ?z # ?bs" using assms(2) by (rule id_take_nth_drop)
  then have "distinct (?as @ ?z # ?bs)" using assms(1) by simp
  then have nz: "?z \<notin> set ?as" "?z \<notin> set ?bs" by simp_all
  have sub: "set ?as \<subseteq> set zs" "set ?bs \<subseteq> set zs" by (rule set_take_subset, rule set_drop_subset)
  have m: "map g ?as = map f ?as" "map g ?bs = map f ?bs"
    using assms(5) nz sub by (auto simp: subset_iff)
  have "length (concat (map f ?as)) = n * length ?as"
    using assms(3) sub by (intro length_concat_const) blast
  then have la: "length (concat (map f ?as)) = j * n" using assms(2) by simp
  have "concat (map g zs) = concat (map f ?as) @ put_block (f ?z) off ys @ concat (map f ?bs)"
    by (subst zs) (simp only: map_append list.map concat_append concat.simps m assms(6))
  also have "\<dots> = put_block (concat (map f ?as) @ f ?z @ concat (map f ?bs)) (j * n + off) ys"
    using put_block_middle [of off ys "f ?z" "concat (map f ?as)" "concat (map f ?bs)"] assms(2,3,4) la by simp
  also have "concat (map f ?as) @ f ?z @ concat (map f ?bs) = concat (map f zs)"
    by (subst (4) zs) (simp only: map_append list.map concat_append concat.simps)
  finally show ?thesis .
qed

lemma file_read_cluster_eq:
  "disk \<noteq> None \<Longrightarrow> file_read_cluster disk c buf w = fat32_read_cluster disk c buf w"
  by (cases disk) (simp_all add: file_read_cluster_def fat32_read_cluster_def)

lemma write_in_chain:
  assumes ok: "fat_ok disk w" and ch: "dir_chain disk w c zs" and j: "j < length zs"
    and cs: "cluster_size_of w \<le> 4096" and fit: "off + length ys \<le> cluster_size_of w"
  shows "\<exists>cb w1 w2. file_read_cluster disk (zs ! j) (replicate 4096 0) w = (Some cb, w1) \<and>
    file_write_cluster disk (zs ! j) (put_block cb off ys) w1 = (True, w2) \<and>
    only_clusters disk w w2 {zs ! j} \<and> dir_chain disk w2 c zs \<and> free_clusters disk w2 = free_clusters disk w \<and>
    chain_data disk w2 zs = put_block (chain_data disk w zs) (j * cluster_size_of w + off) ys"
proof -
  let ?z = "zs ! j" and ?cs = "cluster_size_of w"
  have m: "medium_wf disk w" using ok by (simp add: fat_ok_def)
  have v: "\<And>x. x \<in> set zs \<Longrightarrow> valid_cluster (fat32_fs w) x" using dir_chain_valid [OF ch] .
  have vz: "valid_cluster (fat32_fs w) ?z" using v j by simp
  let ?cb = "cluster_data disk w ?z @ drop ?cs (replicate 4096 0)"
  have ld: "length (cluster_data disk w x) = ?cs" for x using m by simp
  obtain w1 where w1: "fat32_read_cluster disk ?z (replicate 4096 0) w = (Some ?cb, w1)" "quiet w w1"
    using read_cluster_ok [OF ok vz, of "replicate 4096 0"] cs by auto
  have ok1: "fat_ok disk w1" by (rule quiet_fat_okI [OF w1(2) ok])
  have fs1: "fat32_fs w1 = fat32_fs w" by (rule quiet_fields(1) [OF w1(2)])
  have lb: "?cs \<le> length (put_block ?cb off ys)" using fit ld cs by (simp add: put_block_def)
  obtain w2 where w2: "file_write_cluster disk ?z (put_block ?cb off ys) w1 = (True, w2)"
    "only_clusters disk w1 w2 {?z}" "\<forall>d. valid_cluster (fat32_fs w) d \<longrightarrow> fat disk w2 d = fat disk w d"
    "cluster_data disk w2 ?z = take ?cs (put_block ?cb off ys)"
    using write_cluster_ok [OF ok1, of ?z "put_block ?cb off ys"] vz lb fs1 quiet_fat [OF w1(2)] by auto
  have only: "only_clusters disk w w2 {?z}"
    by (rule only_clusters_trans [OF only_clusters_quiet [OF ok w1(2), of "{}"] w2(2)]) simp_all
  then have fs2: "fat32_fs w2 = fat32_fs w" by (simp add: only_clusters_def)
  have "\<And>x. x \<in> set zs \<Longrightarrow> fat disk w2 x = fat disk w x" using w2(3) v by blast
  then have "dir_chain disk w2 c zs"
    using ch fat_chain_cong unfolding dir_chain_def fs2 by metis
  moreover have "free_clusters disk w2 = free_clusters disk w"
    using w2(3) fs2 by (auto simp: free_clusters_def)
  moreover have "chain_data disk w2 zs = put_block (chain_data disk w zs) (j * ?cs + off) ys"
    unfolding chain_data_def
  proof (rule concat_put_block [OF _ j ld fit])
    show "distinct zs" using ch unfolding dir_chain_def by (rule fat_chain_distinct)
    show "cluster_data disk w2 x = cluster_data disk w x" if "x \<in> set zs" "x \<noteq> ?z" for x
      using only_clusters_data [OF only ok v [OF that(1)]] that(2) vz by auto
    show "cluster_data disk w2 ?z = put_block (cluster_data disk w ?z) off ys"
      using w2(4) fit ld [of ?z] by (simp add: put_block_def)
  qed
  moreover have "file_read_cluster disk ?z b w = fat32_read_cluster disk ?z b w" for b
    using fat_ok_not_None [OF ok] by (intro file_read_cluster_eq) simp
  ultimately show ?thesis using w1(1) w2(1) only by (metis (no_types))
qed

section \<open>The write loop\<close>

lemma copy_amount:
  fixes n k p cb t :: u32
  assumes "unat k < unat n" "unat cb = cs" "0 < cs" "off = unat p mod cs"
    and "unat p + (unat n - unat k) < 2 ^ 32"
    and "t = (if n - k > cb - p mod cb then cb - p mod cb else n - k)"
  shows "unat (p mod cb) = off" "off < cs" "unat t = min (unat n - unat k) (cs - off)" "0 < unat t"
    "unat (k + t) = unat k + unat t" "unat (p + t) = unat p + unat t"
proof -
  show off: "unat (p mod cb) = off" using assms(2,4) by (simp add: unat_mod)
  show lt: "off < cs" using assms(3,4) by simp
  have le: "k \<le> n" "p mod cb \<le> cb" using assms(1,2) off lt by (simp_all add: word_le_nat_alt)
  have av: "unat (cb - p mod cb) = cs - off" "unat (n - k) = unat n - unat k"
    using le off assms(2) by (simp_all add: unat_sub)
  show t: "unat t = min (unat n - unat k) (cs - off)"
    unfolding assms(6) by (auto simp: word_less_nat_alt av min_def)
  then show "0 < unat t" using lt assms(1) by simp
  show "unat (k + t) = unat k + unat t"
    using t assms(1) unat_u32_less [of n] by (intro unat_plus_small) simp
  show "unat (p + t) = unat p + unat t" using t assms(5) by (intro unat_plus_small) simp
qed

lemma write_loop_step:
  assumes "k < n"
    and "file_read_cluster (f_disk f) (f_current_cluster f) (replicate 4096 0) w = (Some cb, w1)"
    and "t = (if n - k > cs - f_position f mod cs then cs - f_position f mod cs else n - k)"
    and "file_write_cluster (f_disk f) (f_current_cluster f)
      (put_block cb (unat (f_position f mod cs)) (take (unat t) (drop (unat k) source))) w1 = (True, w2)"
    and "f1 = f\<lparr>f_position := f_position f + t\<rparr>"
  shows "write_loop f source k n cs w =
    (if k + t = n then Some (Write_Done, k + t, f1, w2)
     else do {
       (next, w3) \<leftarrow> next_or_append (f_disk f1) (f_current_cluster f1) w2;
       (case next of
          None \<Rightarrow> Some (Write_Return (sint (k + t)), k + t, f1, w3)
        | Some c \<Rightarrow> write_loop (f1\<lparr>f_current_cluster := c\<rparr>) source (k + t) n cs w3)
     })"
  using assms(1,2,4) unfolding assms(3,5) by (subst write_loop.simps) (simp add: Let_def)

text \<open>The next cluster, whether the chain has one or gets a new one.\<close>

lemma next_step:
  assumes ok: "fat_ok disk w" and ch: "dir_chain disk w c zs" and j: "j < length zs"
    and room: "Suc j < length zs + card (free_clusters disk w)"
  shows "\<exists>es w'. next_or_append disk (zs ! j) w = Some (Some ((zs @ es) ! Suc j), w') \<and>
    Suc j < length (zs @ es) \<and> dir_chain disk w' c (zs @ es) \<and> only_clusters disk w w' (set (zs @ es)) \<and>
    set es \<subseteq> free_clusters disk w \<and> free_clusters disk w' \<subseteq> free_clusters disk w \<and>
    length (zs @ es) + card (free_clusters disk w') = length zs + card (free_clusters disk w) \<and>
    chain_data disk w' (zs @ es) = chain_data disk w zs @ replicate (cluster_size_of w * length es) 0"
proof (cases "Suc j < length zs")
  case True
  have q: "quiet w (tick w)" by (rule quiet_tick)
  show ?thesis
    using next_existing [OF ok ch True] True ch dir_chain_quiet [OF q] only_clusters_quiet [OF ok q]
      chain_data_quiet [OF q] quiet_fields(1) [OF q] quiet_fat [OF q]
    by (intro exI [of _ "[]"] exI [of _ "tick w"]) (simp add: free_clusters_def)
next
  case False
  then have sj: "Suc j = length zs" using j by simp
  have ne: "zs \<noteq> []" using j by auto
  have "j = length zs - 1" using sj by simp
  then have lz: "zs ! j = last zs" "zs \<noteq> []" using ne by (simp_all add: last_conv_nth)
  have "card (free_clusters disk w) \<noteq> 0" using room sj by linarith
  then have "free_clusters disk w \<noteq> {}" by (metis card.empty)
  then obtain d w' where d: "next_or_append disk (last zs) w = Some (Some d, w')" "d \<in> free_clusters disk w"
    "dir_chain disk w' c (zs @ [d])" "only_clusters disk w w' {last zs, d}"
    "cluster_data disk w' d = replicate (cluster_size_of w) 0"
    "cluster_data disk w' (last zs) = cluster_data disk w (last zs)"
    "free_clusters disk w' = free_clusters disk w - {d}"
    using next_appended [OF ok ch] by blast
  have "cluster_data disk w' x = cluster_data disk w x" if "x \<in> set zs" for x
  proof (cases "x = last zs")
    case False
    moreover have "x \<noteq> d" using that d(2) chain_not_free [OF ch] by auto
    moreover have "valid_cluster (fat32_fs w) y" if "y \<in> {last zs, d}" for y
      using that d(2) dir_chain_valid [OF ch] lz(2) by (auto simp: free_clusters_def)
    ultimately show ?thesis
      using only_clusters_data [OF d(4) ok dir_chain_valid [OF ch that]] by blast
  qed (simp add: d(6))
  then have "chain_data disk w' (zs @ [d]) = chain_data disk w zs @ replicate (cluster_size_of w) 0"
    using d(5) by (simp add: chain_data_def cong: map_cong)
  moreover have "only_clusters disk w w' (set (zs @ [d]))"
    by (rule only_clusters_trans [OF d(4) only_clusters_quiet [of disk w' w' "{}"]])
       (use d(4) lz(2) quiet_refl in \<open>auto simp: only_clusters_def\<close>)
  moreover have "Suc (card (free_clusters disk w')) = card (free_clusters disk w)"
    unfolding d(7) using d(2) by (intro card.remove [symmetric]) simp_all
  ultimately show ?thesis
    using d lz sj by (intro exI [of _ "[d]"] exI [of _ w']) (auto simp: nth_append)
qed

lemma put_block_extend:
  "p + length ys \<le> length xs \<Longrightarrow> put_block (put_block xs p ys @ zs) (p + length ys) ys' = put_block (xs @ zs) p (ys @ ys')"
  by (simp add: put_block_def add.commute add.left_commute)

text \<open>
  The loop started in the \<open>j\<close>-th cluster of the chain puts the bytes there, at the offset that the position has
  within a cluster; the chain grows by the clusters it needs, and these are clusters that were free.
\<close>

lemma write_loop_ok:
  fixes f :: file_t
  assumes "fat_ok disk w" "dir_chain disk w c zs" "f_disk f = disk"
    and "cluster_size_of w \<le> 4096" "j < length zs" "f_current_cluster f = zs ! j"
    and "off = unat (f_position f) mod cluster_size_of w"
    and "unat k < unat n" "unat n \<le> length source" "unat (f_position f) + (unat n - unat k) < 2 ^ 32"
    and "j * cluster_size_of w + off + (unat n - unat k) \<le> cluster_size_of w * (length zs + card (free_clusters disk w))"
  shows "\<exists>es w' cur. write_loop f source k n (cluster_bytes w) w =
      Some (Write_Done, n, f\<lparr>f_position := f_position f + (n - k), f_current_cluster := cur\<rparr>, w') \<and>
    dir_chain disk w' c (zs @ es) \<and> set es \<subseteq> free_clusters disk w \<and> only_clusters disk w w' (set (zs @ es)) \<and>
    chain_data disk w' (zs @ es) =
      put_block (chain_data disk w zs @ replicate (cluster_size_of w * length es) 0) (j * cluster_size_of w + off)
        (take (unat n - unat k) (drop (unat k) source))"
  using assms
proof (induction "unat n - unat k" arbitrary: w f k j off zs rule: less_induct)
  case less
  let ?cs = "cluster_size_of w" and ?n = "cluster_bytes w" and ?pos = "f_position f"
  note ok = less.prems(1) and ch = less.prems(2)
  have m: "medium_wf disk w" using ok by (simp add: fat_ok_def)
  have cs: "unat ?n = ?cs" "0 < ?cs" using cluster_bytes_unat [OF ok] by simp_all
  obtain t where teq: "t = (if n - k > ?n - ?pos mod ?n then ?n - ?pos mod ?n else n - k)" by simp
  let ?ys = "take (unat t) (drop (unat k) source)"
  note a = copy_amount [OF less.prems(8) cs less.prems(7,10) teq]
  have ly: "length ?ys = unat t" using a(3) less.prems(8,9) by simp
  have fit: "off + length ?ys \<le> ?cs" using ly a(2,3) by linarith
  obtain cb w1 w2 where w12: "file_read_cluster disk (zs ! j) (replicate 4096 0) w = (Some cb, w1)"
    "file_write_cluster disk (zs ! j) (put_block cb off ?ys) w1 = (True, w2)"
    "only_clusters disk w w2 {zs ! j}" "dir_chain disk w2 c zs" "free_clusters disk w2 = free_clusters disk w"
    "chain_data disk w2 zs = put_block (chain_data disk w zs) (j * ?cs + off) ?ys"
    using write_in_chain [OF ok ch less.prems(5,4) fit] by blast
  have ok2: "fat_ok disk w2" and fs2: "fat32_fs w2 = fat32_fs w" using w12(3) by (simp_all add: only_clusters_def)
  let ?f = "f\<lparr>f_position := ?pos + t\<rparr>"
  have step: "write_loop f source k n ?n w =
    (if k + t = n then Some (Write_Done, k + t, ?f, w2)
     else do {
       (next, w3) \<leftarrow> next_or_append disk (zs ! j) w2;
       (case next of
          None \<Rightarrow> Some (Write_Return (sint (k + t)), k + t, ?f, w3)
        | Some c \<Rightarrow> write_loop (?f\<lparr>f_current_cluster := c\<rparr>) source (k + t) n ?n w3)
     })"
    using write_loop_step [of k n f w cb w1 t ?n source w2 ?f, OF _ _ teq] less.prems(3,6,8) w12(1,2) a(1)
    by (simp only: word_less_nat_alt) simp
  show ?case
  proof (cases "k + t = n")
    case True
    then have tn: "t = n - k" by (metis add_diff_cancel_left')
    then have ut: "unat t = unat n - unat k" using a(5) True by (metis add_diff_cancel_left')
    have "write_loop f source k n ?n w = Some (Write_Done, n, ?f, w2)"
      unfolding step if_P [OF True] by (simp only: True)
    moreover have "?f = f\<lparr>f_position := ?pos + (n - k), f_current_cluster := zs ! j\<rparr>"
      using less.prems(6) by (simp only: tn) simp
    moreover have "only_clusters disk w w2 (set zs)"
      using less.prems(5) by (intro only_clusters_trans [OF w12(3) only_clusters_quiet [OF ok2 quiet_refl, of "{}"]]) simp_all
    ultimately show ?thesis using w12(4,6) ut by (intro exI [of _ "[]"] exI [of _ w2] exI [of _ "zs ! j"]) (simp only: append_Nil2 list.set list.size replicate_0 mult_0_right empty_subsetI simp_thms)
  next
    case False
    have kt: "unat (k + t) < unat n"
      using False a(3,5) less.prems(8) by (simp add: word_unat_eq_iff)
    then have tt: "unat t = ?cs - off" using a(3,5) by simp
    have pm: "unat ?pos + unat t = ?cs * Suc (unat ?pos div ?cs)"
    proof -
      have "unat ?pos = ?cs * (unat ?pos div ?cs) + off"
        using less.prems(7) mult_div_mod_eq [of ?cs "unat ?pos"] by simp
      then show ?thesis using tt a(2) by (simp only: mult_Suc_right)
    qed
    have sum: "Suc j * ?cs + (unat n - unat (k + t)) = j * ?cs + off + (unat n - unat k)"
      using kt tt a(2,5) by simp
    have "Suc j * ?cs < ?cs * (length zs + card (free_clusters disk w))"
      using less.prems(11) sum kt by linarith
    then have "?cs * Suc j < ?cs * (length zs + card (free_clusters disk w2))" by (simp only: w12(5) mult.commute)
    then have sj: "Suc j < length zs + card (free_clusters disk w2)" by (simp only: mult_less_cancel1)
    obtain es w3 where e: "next_or_append disk (zs ! j) w2 = Some (Some ((zs @ es) ! Suc j), w3)"
      "Suc j < length (zs @ es)" "dir_chain disk w3 c (zs @ es)" "only_clusters disk w2 w3 (set (zs @ es))"
      "set es \<subseteq> free_clusters disk w" "free_clusters disk w3 \<subseteq> free_clusters disk w"
      "length (zs @ es) + card (free_clusters disk w3) = length zs + card (free_clusters disk w)"
      "chain_data disk w3 (zs @ es) = chain_data disk w2 zs @ replicate (?cs * length es) 0"
      using next_step [OF ok2 w12(4) less.prems(5) sj] unfolding w12(5) fs2 by blast
    have ok3: "fat_ok disk w3" and fs3: "fat32_fs w3 = fat32_fs w" using e(4) fs2 by (simp_all add: only_clusters_def)
    have cb: "cluster_bytes w3 = ?n" by (simp add: cluster_bytes_def fs3)
    let ?f' = "?f\<lparr>f_current_cluster := (zs @ es) ! Suc j\<rparr>"
    have go: "write_loop f source k n ?n w = write_loop ?f' source (k + t) n (cluster_bytes w3) w3"
      unfolding step cb using e(1) False by simp
    have dec: "unat n - unat (k + t) < unat n - unat k" using kt a(4,5) by simp
    have "\<exists>ds w' cur. write_loop ?f' source (k + t) n (cluster_bytes w3) w3 =
        Some (Write_Done, n, ?f'\<lparr>f_position := f_position ?f' + (n - (k + t)), f_current_cluster := cur\<rparr>, w') \<and>
      dir_chain disk w' c ((zs @ es) @ ds) \<and> set ds \<subseteq> free_clusters disk w3 \<and>
      only_clusters disk w3 w' (set ((zs @ es) @ ds)) \<and>
      chain_data disk w' ((zs @ es) @ ds) =
        put_block (chain_data disk w3 (zs @ es) @ replicate (cluster_size_of w3 * length ds) 0)
          (Suc j * cluster_size_of w3 + 0) (take (unat n - unat (k + t)) (drop (unat (k + t)) source))"
    proof (rule less.hyps [OF dec ok3 e(3) _ _ e(2)])
      show "0 = unat (f_position ?f') mod cluster_size_of w3" using pm a(6) by (simp add: fs3)
      show "unat (f_position ?f') + (unat n - unat (k + t)) < 2 ^ 32"
        using less.prems(10) a(5,6) kt by simp
      show "Suc j * cluster_size_of w3 + 0 + (unat n - unat (k + t)) \<le>
          cluster_size_of w3 * (length (zs @ es) + card (free_clusters disk w3))"
        unfolding e(7) fs3 using less.prems(11) sum by linarith
    qed (use less.prems(3,4,9) kt fs3 in simp_all)
    then obtain ds w' cur where d: "write_loop ?f' source (k + t) n (cluster_bytes w3) w3 =
        Some (Write_Done, n, ?f'\<lparr>f_position := f_position ?f' + (n - (k + t)), f_current_cluster := cur\<rparr>, w')"
      "dir_chain disk w' c (zs @ es @ ds)" "set ds \<subseteq> free_clusters disk w3"
      "only_clusters disk w3 w' (set (zs @ es @ ds))"
      "chain_data disk w' (zs @ es @ ds) =
        put_block (chain_data disk w3 (zs @ es) @ replicate (?cs * length ds) 0) (Suc j * ?cs)
          (take (unat n - unat (k + t)) (drop (unat (k + t)) source))"
      unfolding fs3 append_assoc add_0_right by blast
    let ?rest = "take (unat n - unat (k + t)) (drop (unat (k + t)) source)"
    let ?p = "j * ?cs + off"
    have "?p + length ?ys \<le> length (chain_data disk w zs)"
    proof -
      have "?cs * Suc j \<le> ?cs * length zs" using less.prems(5) by (intro mult_le_mono2) simp
      then show ?thesis using length_chain_data [OF m, of zs] ly tt a(2) by (simp only:) (simp add: algebra_simps)
    qed
    note ext = put_block_extend [OF this, of "replicate (?cs * length es) 0 @ replicate (?cs * length ds) 0" ?rest]
    have "Suc j * ?cs = ?p + length ?ys" using ly tt a(2) by simp
    moreover have "?ys @ ?rest = take (unat n - unat k) (drop (unat k) source)"
    proof -
      have "unat n - unat k = unat t + (unat n - unat (k + t))" using a(5) kt by simp
      then show ?thesis by (simp only: take_add drop_drop a(5) add.commute)
    qed
    moreover have "replicate (?cs * length es) 0 @ replicate (?cs * length ds) 0 = replicate (?cs * length (es @ ds)) (0 :: u8)"
      by (simp only: length_append add_mult_distrib2 replicate_add)
    ultimately have data: "chain_data disk w' (zs @ es @ ds) =
        put_block (chain_data disk w zs @ replicate (?cs * length (es @ ds)) 0) ?p (take (unat n - unat k) (drop (unat k) source))"
      using d(5) ext by (simp only: e(8) w12(6) append_assoc)
    have only: "only_clusters disk w w' (set (zs @ es @ ds))"
      using less.prems(5)
      by (intro only_clusters_trans [OF only_clusters_trans [OF w12(3) e(4), of "set (zs @ es)"] d(4)]) auto
    have "?f'\<lparr>f_position := f_position ?f' + (n - (k + t)), f_current_cluster := cur\<rparr> =
        f\<lparr>f_position := ?pos + (n - k), f_current_cluster := cur\<rparr>" by simp
    then have "write_loop f source k n ?n w =
        Some (Write_Done, n, f\<lparr>f_position := ?pos + (n - k), f_current_cluster := cur\<rparr>, w')"
      unfolding go using d(1) by (simp only:)
    moreover have "set (es @ ds) \<subseteq> free_clusters disk w" using d(3) e(5,6) by auto
    ultimately show ?thesis using data only d(2)
      by (intro exI [of _ "es @ ds"] exI [of _ w'] exI [of _ cur] conjI)
  qed
qed

end
