(* ===== verification/FileStore.thy ===== *)
theory FileStore
  imports FileWrite
begin

text \<open>
  Writing and appending to an open file: the first cluster of an empty file, the bytes in the chain, and the
  directory entry that is stored last. The properties say that what is written is what a later read delivers, and
  that the rest of the volume is as it was.
\<close>

section \<open>Writing an open file\<close>

text \<open>The chain of an open file: a file without clusters has the number 0 in place of the first one.\<close>

definition file_chain :: "disk_t option \<Rightarrow> 'a fat_state_scheme \<Rightarrow> u32 \<Rightarrow> u32 list \<Rightarrow> bool" where
  "file_chain disk w c zs \<longleftrightarrow> (if c = 0 then zs = [] else dir_chain disk w c zs)"

lemma first_cluster_ok:
  assumes ok: "fat_ok disk w" and ch: "file_chain disk w c zs"
    and room: "0 < length zs + card (free_clusters disk w)"
  shows "\<exists>d es w1. (if c = 0 then fat32_allocate_cluster disk w else (c, w)) = (d, w1) \<and> d \<noteq> 0 \<and>
    dir_chain disk w1 d (zs @ es) \<and> fat_ok disk w1 \<and> only_clusters disk w w1 (set es) \<and>
    (zs \<noteq> [] \<longrightarrow> es = [] \<and> c = d) \<and> set es \<subseteq> free_clusters disk w \<and> free_clusters disk w1 \<subseteq> free_clusters disk w \<and>
    length (zs @ es) + card (free_clusters disk w1) = length zs + card (free_clusters disk w) \<and>
    chain_data disk w1 (zs @ es) = chain_data disk w zs @ replicate (cluster_size_of w * length es) 0"
proof (cases "c = 0")
  case False
  then show ?thesis
    using ch ok only_clusters_quiet [OF ok quiet_refl] by (intro exI [of _ c] exI [of _ "[]"] exI [of _ w]) (simp add: file_chain_def)
next
  case True
  then have zs: "zs = []" using ch by (simp add: file_chain_def)
  then have "free_clusters disk w \<noteq> {}" using room by (metis add_0 card.empty less_irrefl list.size(3))
  from allocate_free [OF ok this] obtain d w1 where d: "fat32_allocate_cluster disk w = (d, w1)" "d \<noteq> 0"
    "d \<in> free_clusters disk w" "fat_ok disk w1" "fat32_fs w1 = fat32_fs w" "fat_state.more w1 = fat_state.more w"
    "\<forall>e. valid_cluster (fat32_fs w) e \<longrightarrow> fat disk w1 e = (if e = d then FAT32_CLUSTER_EOC else fat disk w e)"
    "\<forall>lba. first_data_sector (fat32_fs w) \<le> lba \<longrightarrow>
       sec disk w1 lba = (if in_cluster d w lba then replicate 512 0 else sec disk w lba)"
    by (elim exE conjE)
  have v: "valid_cluster (fat32_fs w) d" using d(3) by (simp add: free_clusters_def)
  have "dir_chain disk w1 d [d]" using d(5,7) v by (simp add: dir_chain_def)
  moreover have "only_clusters disk w w1 {d}" using d by (simp add: only_clusters_def)
  moreover have free: "free_clusters disk w1 = free_clusters disk w - {d}"
    using d(5,7) by (auto simp: free_clusters_def split: if_splits)
  moreover have "Suc (card (free_clusters disk w1)) = card (free_clusters disk w)"
    unfolding free using d(3) by (intro card.remove [symmetric]) simp_all
  moreover have "cluster_data disk w1 d = replicate (cluster_size_of w) 0"
    by (rule zero_cluster_data [OF ok v d(5)]) (simp add: d(8))
  ultimately show ?thesis
    using d True zs by (intro exI [of _ d] exI [of _ "[d]"] exI [of _ w1]) (auto simp: chain_data_def)
qed

lemma dir_frame_only:
  assumes "dir_frame disk w w' (dir_lbas w ps)" "fat_ok disk w" "\<forall>x \<in> set ps. valid_cluster (fat32_fs w) x"
  shows "only_clusters disk w w' (set ps)"
proof -
  have g: "geometry_ok disk (fat32_fs w)" using assms(2) by (simp add: fat_ok_def)
  have "sec disk w' l = sec disk w l" if "\<forall>x \<in> set ps. \<not> in_cluster x w l" for l
    using that dir_lbas_mem(3) [OF g assms(3)] assms(1) unfolding dir_frame_def by blast
  then show ?thesis using assms(1) by (simp add: dir_frame_def only_clusters_def)
qed

lemma only_clusters_slots:
  assumes "only_clusters disk w w' S" "fat_ok disk w" "\<forall>x \<in> set ps. valid_cluster (fat32_fs w) x"
    and "\<And>x. x \<in> S \<Longrightarrow> valid_cluster (fat32_fs w) x" "S \<inter> set ps = {}"
  shows "dir_slots disk w' ps = dir_slots disk w ps"
    "fat_chain (fat disk w') (valid_cluster (fat32_fs w)) p ps = fat_chain (fat disk w) (valid_cluster (fat32_fs w)) p ps"
proof -
  have g: "geometry_ok disk (fat32_fs w)" using assms(2) by (simp add: fat_ok_def)
  have fs: "fat32_fs w' = fat32_fs w" using assms(1) by (simp add: only_clusters_def)
  have "sec disk w' l = sec disk w l" if l: "l \<in> set (dir_lbas w ps)" for l
  proof -
    obtain x where x: "x \<in> set ps" "in_cluster x w l" using dir_lbas_mem(3) [OF g assms(3) l] by blast
    then have "\<not> in_cluster y w l" if "y \<in> S" for y
      using in_cluster_disjoint [OF g _ assms(4) [OF that], of x l] assms(3,5) that by blast
    then show ?thesis using assms(1) dir_lbas_mem(2) [OF g assms(3) l] by (simp add: only_clusters_def)
  qed
  then show "dir_slots disk w' ps = dir_slots disk w ps"
    using slots_at_cong dir_lbas_cong [OF fs] by (metis dir_slots_def)
  have "fat disk w' x = fat disk w x" if "x \<in> set ps" for x
    using assms that by (auto simp: only_clusters_def)
  then show "fat_chain (fat disk w') (valid_cluster (fat32_fs w)) p ps = fat_chain (fat disk w) (valid_cluster (fat32_fs w)) p ps"
    by (rule fat_chain_cong)
qed

lemma only_clusters_chain:
  assumes "only_clusters disk w w' S" "fat_ok disk w" "dir_chain disk w c zs" "S \<inter> set zs = {}"
    and "\<And>x. x \<in> S \<Longrightarrow> valid_cluster (fat32_fs w) x"
  shows "dir_chain disk w' c zs" "chain_data disk w' zs = chain_data disk w zs"
proof -
  have fs: "fat32_fs w' = fat32_fs w" using assms(1) by (simp add: only_clusters_def)
  have v: "\<forall>x \<in> set zs. valid_cluster (fat32_fs w) x" using dir_chain_valid [OF assms(3)] by blast
  show "dir_chain disk w' c zs"
    using only_clusters_slots(2) [OF assms(1,2) v assms(5,4)] assms(3) unfolding dir_chain_def fs by blast
  have "cluster_data disk w' x = cluster_data disk w x" if "x \<in> set zs" for x
    using only_clusters_data [OF assms(1,2) _ _ assms(5)] v that assms(4) by blast
  then show "chain_data disk w' zs = chain_data disk w zs" by (simp add: chain_data_def cong: map_cong)
qed

text \<open>
  What a successful write leaves behind: \<open>bs\<close> from position \<open>i\<close> of the chain on, the new entry in the directory
  with the chain \<open>ps\<close>, and nothing else changed but clusters that were free.
\<close>

definition stored ::
  "disk_t option \<Rightarrow> 'a fat_state_scheme \<Rightarrow> 'a fat_state_scheme \<Rightarrow> file_t \<Rightarrow> file_t \<Rightarrow> u32 list \<Rightarrow> u32 list \<Rightarrow> u32 list
    \<Rightarrow> nat \<Rightarrow> u8 list \<Rightarrow> bool" where
  "stored disk w w' f g ps zs es i bs \<longleftrightarrow>
     only_clusters disk w w' (set (zs @ es) \<union> set ps) \<and> set es \<subseteq> free_clusters disk w \<and>
     dir_chain disk w' (f_first_cluster g) (zs @ es) \<and>
     chain_data disk w' (zs @ es) =
       put_block (chain_data disk w zs @ replicate (cluster_size_of w * length es) 0) i bs \<and>
     dir_chain disk w' (f_parent_cluster f) ps \<and> dir_wf (dir_slots disk w' ps) \<and>
     dir_entries (dir_slots disk w' ps) =
       replace_first (\<lambda>e. de_name e = de_name (f_entry f)) [f_entry g] (dir_entries (dir_slots disk w ps)) \<and>
     f_disk g = f_disk f \<and> f_parent_cluster g = f_parent_cluster f \<and>
     de_name (f_entry g) = de_name (f_entry f) \<and> de_attributes (f_entry g) = de_attributes (f_entry f) \<and>
     directory_entry_cluster (f_entry g) = f_first_cluster g \<and> de_file_size (f_entry g) = f_size g"

lemma set_entry_cluster_fields [simp]:
  "de_name (directory_set_entry_cluster e c) = de_name e"
  "de_attributes (directory_set_entry_cluster e c) = de_attributes e"
  by (simp_all add: directory_set_entry_cluster_def)

lemma entry_cluster_size [simp]:
  "directory_entry_cluster (e\<lparr>de_file_size := n\<rparr>) = directory_entry_cluster e"
  by (simp add: directory_entry_cluster_def)

lemma write_internal_step:
  assumes "(if f_first_cluster f = 0 then fat32_allocate_cluster (f_disk f) w else (f_first_cluster f, w)) = (d, w1)" "d \<noteq> 0"
    and "f1 = (if f_first_cluster f = 0
       then f\<lparr>f_first_cluster := d, f_current_cluster := d, f_entry := directory_set_entry_cluster (f_entry f) d\<rparr> else f)"
    and "\<not> cluster_bytes w > 4096"
    and "write_loop f1 source 0 n (cluster_bytes w) w1 = Some (Write_Done, n, f2, w2)"
    and "f3 = (if f_position f2 > f_size f2 then f2\<lparr>f_size := f_position f2\<rparr> else f2)"
    and "g = f3\<lparr>f_entry := (f_entry f3)\<lparr>de_file_size := f_size f3\<rparr>\<rparr>"
    and "directory_update_entry (f_disk g) (f_parent_cluster g) (f_entry g) w2 = Some (True, w3)"
  shows "file_write_internal f source n w = Some (sint n, g, w3)"
proof -
  have nz: "(d = 0) = False" "(cluster_bytes w > 4096) = False" using assms(2,4) by simp_all
  show ?thesis
    unfolding file_write_internal_def Let_def assms(1) prod.case nz if_False assms(3) [symmetric] assms(5) bind.bind_lunit
      write_stop.case assms(6) [symmetric] assms(7) [symmetric] assms(8)
    by simp
qed

lemma file_write_internal_ok:
  fixes f :: file_t
  assumes ok: "fat_ok disk w" and dk: "f_disk f = disk" and cs: "cluster_size_of w \<le> 4096"
    and par: "dir_chain disk w (f_parent_cluster f) ps" "dir_wf (dir_slots disk w ps)"
      "\<exists>e \<in> set (dir_entries (dir_slots disk w ps)). de_name e = de_name (f_entry f)"
    and ent: "entry_wf (f_entry f)" "directory_entry_cluster (f_entry f) = f_first_cluster f"
    and ch: "file_chain disk w (f_first_cluster f) zs" "set zs \<inter> set ps = {}"
    and pos: "zs = [] \<longrightarrow> j = 0" "zs \<noteq> [] \<longrightarrow> j < length zs \<and> f_current_cluster f = zs ! j"
      "off = unat (f_position f) mod cluster_size_of w"
    and n: "0 < unat n" "unat n \<le> length source" "unat (f_position f) + unat n < 2 ^ 32"
      "j * cluster_size_of w + off + unat n \<le> cluster_size_of w * (length zs + card (free_clusters disk w))"
  shows "\<exists>es w' g. file_write_internal f source n w = Some (sint n, g, w') \<and>
    f_position g = f_position f + n \<and> f_size g = max (f_size f) (f_position f + n) \<and>
    stored disk w w' f g ps zs es (j * cluster_size_of w + off) (take (unat n) source)"
proof -
  let ?cs = "cluster_size_of w" and ?c = "f_first_cluster f" and ?p = "f_parent_cluster f"
  have "0 < ?cs * (length zs + card (free_clusters disk w))" using n(1,4) by linarith
  then have room: "0 < length zs + card (free_clusters disk w)" by (metis mult_0_right not_gr_zero)
  obtain d es1 w1 where a: "(if ?c = 0 then fat32_allocate_cluster disk w else (?c, w)) = (d, w1)" "d \<noteq> 0"
    "dir_chain disk w1 d (zs @ es1)" "fat_ok disk w1" "only_clusters disk w w1 (set es1)"
    "zs \<noteq> [] \<longrightarrow> es1 = [] \<and> ?c = d" "set es1 \<subseteq> free_clusters disk w" "free_clusters disk w1 \<subseteq> free_clusters disk w"
    "length (zs @ es1) + card (free_clusters disk w1) = length zs + card (free_clusters disk w)"
    "chain_data disk w1 (zs @ es1) = chain_data disk w zs @ replicate (?cs * length es1) 0"
    using first_cluster_ok [OF ok ch(1) room] by blast
  have fs1: "fat32_fs w1 = fat32_fs w" using a(5) by (simp add: only_clusters_def)
  have cb: "cluster_bytes w1 = cluster_bytes w" by (simp add: cluster_bytes_def fs1)
  obtain f1 where f1d: "f1 = (if ?c = 0
    then f\<lparr>f_first_cluster := d, f_current_cluster := d, f_entry := directory_set_entry_cluster (f_entry f) d\<rparr> else f)"
    by simp
  have cz: "?c = 0 \<longleftrightarrow> zs = []"
    using ch(1) fat_chain_hd by (auto simp: file_chain_def dir_chain_def split: if_splits)
  have f1: "f_disk f1 = disk" "f_position f1 = f_position f" "f_first_cluster f1 = d" "f_size f1 = f_size f"
    "f_parent_cluster f1 = ?p" "de_name (f_entry f1) = de_name (f_entry f)"
    "de_attributes (f_entry f1) = de_attributes (f_entry f)" "directory_entry_cluster (f_entry f1) = d"
    using dk a(6) cz ent(2) by (auto simp: f1d)
  have jl: "j < length (zs @ es1)" "f_current_cluster f1 = (zs @ es1) ! j"
  proof -
    have "hd (zs @ es1) = d" "zs @ es1 \<noteq> []" using fat_chain_hd a(3) unfolding dir_chain_def by blast+
    then show "j < length (zs @ es1)" "f_current_cluster f1 = (zs @ es1) ! j"
      using pos(1,2) cz a(6) by (auto simp: f1d hd_conv_nth nth_append)
  qed
  have "\<exists>es w' cur. write_loop f1 source 0 n (cluster_bytes w1) w1 =
      Some (Write_Done, n, f1\<lparr>f_position := f_position f1 + (n - 0), f_current_cluster := cur\<rparr>, w') \<and>
    dir_chain disk w' d ((zs @ es1) @ es) \<and> set es \<subseteq> free_clusters disk w1 \<and>
    only_clusters disk w1 w' (set ((zs @ es1) @ es)) \<and>
    chain_data disk w' ((zs @ es1) @ es) =
      put_block (chain_data disk w1 (zs @ es1) @ replicate (cluster_size_of w1 * length es) 0)
        (j * cluster_size_of w1 + off) (take (unat n - unat (0 :: u32)) (drop (unat (0 :: u32)) source))"
  proof (rule write_loop_ok [OF a(4,3) f1(1) _ jl])
    show "j * cluster_size_of w1 + off + (unat n - unat (0 :: u32)) \<le>
        cluster_size_of w1 * (length (zs @ es1) + card (free_clusters disk w1))"
      unfolding a(9) fs1 using n(4) by simp
  qed (use cs n pos(3) fs1 f1(2) in simp_all)
  then obtain es2 w2 cur where b: "write_loop f1 source 0 n (cluster_bytes w) w1 =
      Some (Write_Done, n, f1\<lparr>f_position := f_position f + n, f_current_cluster := cur\<rparr>, w2)"
    "dir_chain disk w2 d (zs @ es1 @ es2)" "set es2 \<subseteq> free_clusters disk w1"
    "only_clusters disk w1 w2 (set (zs @ es1 @ es2))"
    "chain_data disk w2 (zs @ es1 @ es2) =
      put_block (chain_data disk w1 (zs @ es1) @ replicate (?cs * length es2) 0) (j * ?cs + off) (take (unat n) source)"
    unfolding fs1 cb append_assoc diff_zero unat_0 drop_0 f1(2) by blast
  let ?es = "es1 @ es2"
  have es: "set ?es \<subseteq> free_clusters disk w" using a(7,8) b(3) by auto
  have data: "chain_data disk w2 (zs @ ?es) =
      put_block (chain_data disk w zs @ replicate (?cs * length ?es) 0) (j * ?cs + off) (take (unat n) source)"
    by (simp only: b(5) a(10) append_assoc length_append add_mult_distrib2 replicate_add)
  have only2: "only_clusters disk w w2 (set (zs @ ?es))"
    by (rule only_clusters_trans [OF a(5) b(4)]) auto
  have S: "valid_cluster (fat32_fs w) x \<and> x \<notin> set ps" if "x \<in> set (zs @ ?es)" for x
  proof (cases "x \<in> set zs")
    case True
    then have "valid_cluster (fat32_fs w) x"
      using ch(1) dir_chain_valid by (auto simp: file_chain_def split: if_splits)
    then show ?thesis using True ch(2) by blast
  next
    case False
    then have "x \<in> free_clusters disk w" using that es by auto
    then show ?thesis using chain_not_free [OF par(1)] by (auto simp: free_clusters_def)
  qed
  have vp: "\<forall>x \<in> set ps. valid_cluster (fat32_fs w) x" using dir_chain_valid [OF par(1)] by blast
  have ok2: "fat_ok disk w2" and fs2: "fat32_fs w2 = fat32_fs w" using only2 by (simp_all add: only_clusters_def)
  have disj: "set (zs @ ?es) \<inter> set ps = {}" using S by blast
  note keep = only_clusters_slots [OF only2 ok vp _ disj]
  have slots2: "dir_slots disk w2 ps = dir_slots disk w ps" by (rule keep(1)) (use S in blast)
  have par2: "fat_chain (fat disk w2) (valid_cluster (fat32_fs w2)) ?p ps"
    unfolding fs2 using keep(2) S par(1) unfolding dir_chain_def by blast
  let ?f2 = "f1\<lparr>f_position := f_position f + n, f_current_cluster := cur\<rparr>"
  obtain f3 where f3d: "f3 = (if f_position ?f2 > f_size ?f2 then ?f2\<lparr>f_size := f_position ?f2\<rparr> else ?f2)" by simp
  obtain g where gd: "g = f3\<lparr>f_entry := (f_entry f3)\<lparr>de_file_size := f_size f3\<rparr>\<rparr>" by simp
  have g: "f_disk g = disk" "f_parent_cluster g = ?p" "f_first_cluster g = d" "f_position g = f_position f + n"
    "f_size g = max (f_size f) (f_position f + n)" "de_name (f_entry g) = de_name (f_entry f)"
    "de_attributes (f_entry g) = de_attributes (f_entry f)" "directory_entry_cluster (f_entry g) = d"
    "de_file_size (f_entry g) = f_size g"
    using f1 by (simp_all add: gd f3d max_def order_less_imp_le)
  have wf: "entry_wf (f_entry g)" using ent(1) g(6,7) by (simp add: entry_wf_def)
  obtain w3 where u: "directory_update_entry disk ?p (f_entry g) w2 = Some (True, w3)"
    "dir_frame disk w2 w3 (dir_lbas w2 ps)" "dir_wf (dir_slots disk w3 ps)"
    "dir_entries (dir_slots disk w3 ps) =
       replace_first (\<lambda>e. de_name e = de_name (f_entry f)) [f_entry g] (dir_entries (dir_slots disk w ps))"
    using update_entry_ok [OF ok2 par2 _ wf] par(2,3) unfolding slots2 g(6) by auto
  have only3: "only_clusters disk w2 w3 (set ps)"
    using dir_frame_only [OF u(2) ok2] vp fs2 by simp
  have fs3: "fat32_fs w3 = fat32_fs w" using only3 fs2 by (simp add: only_clusters_def)
  have "dir_chain disk w3 d (zs @ ?es)" "chain_data disk w3 (zs @ ?es) = chain_data disk w2 (zs @ ?es)"
    using only_clusters_chain [OF only3 ok2 b(2)] disj vp fs2 by auto
  moreover have "dir_chain disk w3 ?p ps"
    using dir_frame_chain [OF u(2)] par2 unfolding dir_chain_def fs2 fs3 by blast
  moreover have "only_clusters disk w w3 (set (zs @ ?es) \<union> set ps)"
    by (rule only_clusters_trans [OF only2 only3]) auto
  ultimately have st: "stored disk w w3 f g ps zs ?es (j * ?cs + off) (take (unat n) source)"
    unfolding stored_def using es data u(3,4) g dk by simp
  have "file_write_internal f source n w = Some (sint n, g, w3)"
  proof -
    have "\<not> cluster_bytes w > 4096"
      using cs cluster_bytes_unat(1) [OF ok] by (simp add: word_less_nat_alt)
    then show ?thesis
      using write_internal_step [OF a(1) [folded dk] a(2) f1d _ b(1) f3d gd] u(1) by (simp only: g(1,2) simp_thms)
  qed
  then show ?thesis using st g(4,5) by blast
qed

lemma replace_first_twice:
  "P a \<Longrightarrow> replace_first P [b] (replace_first P [a] xs) = replace_first P [b] xs"
  by (induction xs) auto

lemma replace_first_some: "(\<exists>x \<in> set xs. P x) \<Longrightarrow> a \<in> set (replace_first P [a] xs)"
  by (induction xs) auto

text \<open>The update of the entry that \<open>file_write\<close> makes before it writes.\<close>

lemma stored_after_update:
  assumes "stored disk w1 w' f1 g ps zs es i bs" "dir_frame disk w w1 (dir_lbas w ps)" "fat_ok disk w"
    and "dir_chain disk w (f_parent_cluster f) ps" "dir_entries (dir_slots disk w1 ps) =
      replace_first (\<lambda>e. de_name e = de_name (f_entry f)) [e1] (dir_entries (dir_slots disk w ps))"
    and "de_name e1 = de_name (f_entry f)" "de_name (f_entry f1) = de_name (f_entry f)" "f_disk f1 = f_disk f"
      "de_attributes (f_entry f1) = de_attributes (f_entry f)" "f_parent_cluster f1 = f_parent_cluster f"
    and "free_clusters disk w1 = free_clusters disk w" "chain_data disk w1 zs = chain_data disk w zs"
  shows "stored disk w w' f g ps zs es i bs"
proof -
  have fs: "fat32_fs w1 = fat32_fs w" using assms(2) by (simp add: dir_frame_def)
  have vp: "\<forall>x \<in> set ps. valid_cluster (fat32_fs w) x" using dir_chain_valid [OF assms(4)] by blast
  have o1: "only_clusters disk w1 w' (set (zs @ es) \<union> set ps)" using assms(1) by (simp add: stored_def)
  have "only_clusters disk w w' (set (zs @ es) \<union> set ps)"
    by (rule only_clusters_trans [OF dir_frame_only [OF assms(2,3) vp] o1]) auto
  then show ?thesis
    using assms(1,5-12) replace_first_twice [of "\<lambda>e. de_name e = de_name (f_entry f)" e1] fs
    by (simp add: stored_def)
qed

lemma file_write_ok:
  fixes f :: file_t
  assumes ok: "fat_ok disk w" and dk: "f_disk f = disk" and cs: "cluster_size_of w \<le> 4096"
    and par: "dir_chain disk w (f_parent_cluster f) ps" "dir_wf (dir_slots disk w ps)"
      "\<exists>e \<in> set (dir_entries (dir_slots disk w ps)). de_name e = de_name (f_entry f)"
    and ent: "entry_wf (f_entry f)" "directory_entry_cluster (f_entry f) = f_first_cluster f"
    and ch: "file_chain disk w (f_first_cluster f) zs" "set zs \<inter> set ps = {}"
    and n: "0 < unat n" "unat n \<le> length source"
      "unat n \<le> cluster_size_of w * (length zs + card (free_clusters disk w))"
  shows "\<exists>es w' g. file_write f source n w = Some (sint n, g, w') \<and> f_position g = n \<and> f_size g = n \<and>
    stored disk w w' f g ps zs es 0 (take (unat n) source)"
proof -
  let ?p = "f_parent_cluster f"
  obtain f1 where f1: "f1 = f\<lparr>f_position := 0, f_size := 0, f_current_cluster := f_first_cluster f,
    f_entry := (f_entry f)\<lparr>de_file_size := 0\<rparr>\<rparr>" by simp
  note par' = par(1) [unfolded dir_chain_def]
  have vp: "\<forall>x \<in> set ps. valid_cluster (fat32_fs w) x" using dir_chain_valid [OF par(1)] by blast
  have wf: "entry_wf (f_entry f1)" using ent(1) by (simp add: f1 entry_wf_def)
  obtain w1 where u: "directory_update_entry disk ?p (f_entry f1) w = Some (True, w1)"
    "dir_frame disk w w1 (dir_lbas w ps)" "dir_wf (dir_slots disk w1 ps)"
    "dir_entries (dir_slots disk w1 ps) =
       replace_first (\<lambda>e. de_name e = de_name (f_entry f)) [f_entry f1] (dir_entries (dir_slots disk w ps))"
    using update_entry_ok [OF ok par' par(2) wf] par(3) by (auto simp: f1)
  have only: "only_clusters disk w w1 (set ps)" by (rule dir_frame_only [OF u(2) ok vp])
  have ok1: "fat_ok disk w1" and fs1: "fat32_fs w1 = fat32_fs w" using only by (simp_all add: only_clusters_def)
  have free: "free_clusters disk w1 = free_clusters disk w"
    using u(2) by (auto simp: dir_frame_def free_clusters_def)
  have ch1: "file_chain disk w1 (f_first_cluster f1) zs" "chain_data disk w1 zs = chain_data disk w zs"
  proof -
    have "set ps \<inter> set zs = {}" using ch(2) by blast
    note keep = only_clusters_chain [OF only ok _ this]
    show "file_chain disk w1 (f_first_cluster f1) zs" "chain_data disk w1 zs = chain_data disk w zs"
      using keep [of "f_first_cluster f"] ch(1) vp
      by (cases "f_first_cluster f = 0"; simp add: f1 file_chain_def chain_data_def)+
  qed
  have cur: "zs \<noteq> [] \<longrightarrow> 0 < length zs \<and> f_current_cluster f1 = zs ! 0"
    using ch(1) fat_chain_hd [of "fat disk w" _ "f_first_cluster f" zs]
    by (auto simp: f1 file_chain_def dir_chain_def simp flip: hd_conv_nth split: if_splits)
  have "\<exists>es w' g. file_write_internal f1 source n w1 = Some (sint n, g, w') \<and>
    f_position g = f_position f1 + n \<and> f_size g = max (f_size f1) (f_position f1 + n) \<and>
    stored disk w1 w' f1 g ps zs es (0 * cluster_size_of w1 + 0) (take (unat n) source)"
  proof (rule file_write_internal_ok [OF ok1 _ _ _ u(3) _ wf _ ch1(1) ch(2) _ cur])
    show "dir_chain disk w1 (f_parent_cluster f1) ps"
      using dir_frame_chain [OF u(2)] par' by (simp add: dir_chain_def fs1 f1)
    show "\<exists>e \<in> set (dir_entries (dir_slots disk w1 ps)). de_name e = de_name (f_entry f1)"
      using replace_first_some [OF par(3), of "f_entry f1"] u(4) by auto
    show "0 * cluster_size_of w1 + 0 + unat n \<le> cluster_size_of w1 * (length zs + card (free_clusters disk w1))"
      unfolding free fs1 using n(3) by simp
  qed (use dk cs ent(2) n(1,2) fs1 unat_u32_less [of n] in \<open>simp_all add: f1\<close>)
  then obtain es w' g where r: "file_write_internal f1 source n w1 = Some (sint n, g, w')" "f_position g = n"
    "f_size g = n" "stored disk w1 w' f1 g ps zs es 0 (take (unat n) source)"
    by (auto simp: f1 max_def)
  have "stored disk w w' f g ps zs es 0 (take (unat n) source)"
    by (rule stored_after_update [OF r(4) u(2) ok par(1) u(4) _ _ _ _ _ free ch1(2)]) (simp_all add: f1)
  moreover have "file_write f source n w = Some (sint n, g, w')"
    using u(1) r(1) dk by (simp add: file_write_def f1)
  ultimately show ?thesis using r(2,3) by blast
qed

section \<open>Appending\<close>

lemma chain_last_file:
  assumes ok: "fat_ok disk w" and ch: "file_chain disk w c zs"
  shows "\<exists>w1 cur. chain_last disk c w = Some (cur, w1) \<and> (zs \<noteq> [] \<longrightarrow> cur = zs ! (length zs - 1)) \<and>
    same_data disk w w1 \<and> fat disk w1 = fat disk w"
proof (cases "c = 0")
  case True
  then show ?thesis
    using ch same_data_refl [OF ok] by (subst chain_last.simps) (simp add: next_cluster_ok [OF ok] file_chain_def)
next
  case False
  then have ch': "fat_chain (fat disk w) (valid_cluster (fat32_fs w)) c zs"
    using ch by (simp add: file_chain_def dir_chain_def)
  then have "zs \<noteq> []" using fat_chain_hd by blast
  then show ?thesis using chain_last_ok [OF ok ch'] by (auto simp: last_conv_nth)
qed

lemma same_data_only: "same_data disk w w1 \<Longrightarrow> fat disk w1 = fat disk w \<Longrightarrow> only_clusters disk w w1 {}"
  by (simp add: same_data_def only_clusters_def)

text \<open>The bytes go to the place that the old size has in the last cluster.\<close>

lemma file_append_ok:
  fixes f :: file_t
  assumes ok: "fat_ok disk w" and dk: "f_disk f = disk" and cs: "cluster_size_of w \<le> 4096"
    and par: "dir_chain disk w (f_parent_cluster f) ps" "dir_wf (dir_slots disk w ps)"
      "\<exists>e \<in> set (dir_entries (dir_slots disk w ps)). de_name e = de_name (f_entry f)"
    and ent: "entry_wf (f_entry f)" "directory_entry_cluster (f_entry f) = f_first_cluster f"
    and ch: "file_chain disk w (f_first_cluster f) zs" "set zs \<inter> set ps = {}"
    and off: "off = unat (f_size f) mod cluster_size_of w"
    and n: "0 < unat n" "unat n \<le> length source" "unat (f_size f) + unat n < 2 ^ 32"
      "(length zs - 1) * cluster_size_of w + off + unat n \<le> cluster_size_of w * (length zs + card (free_clusters disk w))"
  shows "\<exists>es w' g. file_append f source n w = Some (sint n, g, w') \<and> f_size g = f_size f + n \<and>
    stored disk w w' f g ps zs es ((length zs - 1) * cluster_size_of w + off) (take (unat n) source)"
proof -
  obtain w1 cur where l: "chain_last disk (f_first_cluster f) w = Some (cur, w1)"
    "zs \<noteq> [] \<longrightarrow> cur = zs ! (length zs - 1)" "same_data disk w w1" "fat disk w1 = fat disk w"
    using chain_last_file [OF ok ch(1)] by blast
  have only: "only_clusters disk w w1 {}" by (rule same_data_only [OF l(3,4)])
  have ok1: "fat_ok disk w1" and fs1: "fat32_fs w1 = fat32_fs w" using l(3) by (simp_all add: same_data_def)
  have free: "free_clusters disk w1 = free_clusters disk w" by (simp add: free_clusters_def fs1 l(4))
  have chains: "dir_chain disk w1 c xs = dir_chain disk w c xs" for c xs by (simp add: dir_chain_def fs1 l(4))
  have data: "chain_data disk w1 zs = chain_data disk w zs"
    using only_clusters_chain(2) [OF only ok, of "f_first_cluster f" zs] ch(1)
    by (auto simp: file_chain_def chain_data_def split: if_splits)
  have vp: "\<forall>x \<in> set ps. valid_cluster (fat32_fs w) x" using dir_chain_valid [OF par(1)] by blast
  have slots: "dir_slots disk w1 ps = dir_slots disk w ps"
    using only_clusters_slots(1) [OF only ok vp] by simp
  let ?f = "f\<lparr>f_position := f_size f, f_current_cluster := cur\<rparr>"
  have size: "unat (f_size f + n) = unat (f_size f) + unat n" using n(3) by (intro unat_plus_small) simp
  have "\<exists>es w' g. file_write_internal ?f source n w1 = Some (sint n, g, w') \<and>
    f_position g = f_position ?f + n \<and> f_size g = max (f_size ?f) (f_position ?f + n) \<and>
    stored disk w1 w' ?f g ps zs es ((length zs - 1) * cluster_size_of w1 + off) (take (unat n) source)"
    by (rule file_write_internal_ok [OF ok1 _ _ _ _ _ _ _ _ ch(2)])
      (use dk cs par ent ch(1) off n l(2) slots in \<open>simp_all add: chains file_chain_def fs1 free\<close>)
  then obtain es w' g where r: "file_write_internal ?f source n w1 = Some (sint n, g, w')"
    "f_size g = max (f_size f) (f_size f + n)"
    "stored disk w1 w' ?f g ps zs es ((length zs - 1) * cluster_size_of w + off) (take (unat n) source)"
    unfolding fs1 by auto
  have "only_clusters disk w1 w' (set (zs @ es) \<union> set ps)" using r(3) by (simp add: stored_def)
  then have "only_clusters disk w w' (set (zs @ es) \<union> set ps)"
    by (rule only_clusters_trans [OF only]) auto
  then have "stored disk w w' f g ps zs es ((length zs - 1) * cluster_size_of w + off) (take (unat n) source)"
    using r(3) by (simp add: stored_def free data fs1 slots)
  moreover have "file_append f source n w = Some (sint n, g, w')"
    using l(1) r(1) dk by (simp add: file_append_def)
  moreover have "f_size g = f_size f + n" using r(2) size by (simp add: max_def word_le_nat_alt)
  ultimately show ?thesis by blast
qed

section \<open>Properties\<close>

lemma put_block_start: "take (length ys) (put_block xs 0 ys) = ys"
  by (simp add: put_block_def)

lemma stored_chain:
  assumes "stored disk w w' f g ps zs es i bs" "fat_ok disk w" "dir_chain disk w c ys"
    and "set ys \<inter> (set zs \<union> set ps) = {}" "file_chain disk w d zs" "dir_chain disk w p ps"
  shows "dir_chain disk w' c ys \<and> chain_data disk w' ys = chain_data disk w ys"
proof -
  have o1: "only_clusters disk w w' (set (zs @ es) \<union> set ps)" and es: "set es \<subseteq> free_clusters disk w"
    using assms(1) by (simp_all add: stored_def)
  have "(set (zs @ es) \<union> set ps) \<inter> set ys = {}"
    using assms(4) es chain_not_free [OF assms(3)] by auto
  moreover have "valid_cluster (fat32_fs w) x" if "x \<in> set (zs @ es) \<union> set ps" for x
    using that es assms(5,6) dir_chain_valid
    by (auto simp: free_clusters_def file_chain_def split: if_splits)
  ultimately show ?thesis using only_clusters_chain [OF o1 assms(2,3)] by blast
qed

lemma stored_reads_back:
  fixes f :: file_t
  assumes st: "stored disk w w' f g ps zs es 0 bs" and dk: "f_disk f = disk"
    and sz: "unat (f_size g) = length bs" "bs \<noteq> []" and cs: "cluster_size_of w \<le> 4096"
    and n: "f_size g \<le> m" "length bs \<le> length dest"
  shows "\<exists>h h' w''. file_open disk (f_parent_cluster f) (f_entry g) = Some h \<and>
    file_read h dest m w' = Some (sint (f_size g), h', bs @ drop (length bs) dest, w'') \<and> quiet w' w''"
proof -
  let ?zs = "zs @ es" and ?c = "f_first_cluster g"
  have ok: "fat_ok disk w'" and fs: "fat32_fs w' = fat32_fs w"
    using st by (simp_all add: stored_def only_clusters_def)
  have ch: "dir_chain disk w' ?c ?zs" and data: "take (length bs) (chain_data disk w' ?zs) = bs"
    using st by (simp_all only: stored_def put_block_start)
  have len: "length bs \<le> length (chain_data disk w' ?zs)" using data by (metis length_take min.cobounded1)
  let ?h = "\<lparr>f_disk = disk, f_first_cluster = ?c, f_current_cluster = ?c, f_size = f_size g,
    f_position = 0, f_parent_cluster = f_parent_cluster f, f_entry = f_entry g\<rparr>"
  have h: "file_open disk (f_parent_cluster f) (f_entry g) = Some ?h"
    using st fat_ok_not_None [OF ok] by (simp add: file_open_def stored_def)
  have pos: "0 < unat (f_size g)" using sz by simp
  have c0: "?c = ?zs ! 0"
    using fat_chain_hd [of "fat disk w'" "valid_cluster (fat32_fs w')" ?c ?zs] ch by (metis dir_chain_def hd_conv_nth)
  have "0 < f_size g" "0 < m"
    using pos n(1) by (auto simp: word_less_nat_alt word_le_nat_alt)
  then have "\<exists>w'' cur. file_read ?h dest m w' =
    Some (sint (f_size g), ?h\<lparr>f_position := f_position ?h + f_size g, f_current_cluster := cur\<rparr>,
      take (unat (f_size g)) (drop (unat (f_position ?h)) (chain_data disk w' ?zs)) @ drop (unat (f_size g)) dest, w'') \<and>
    quiet w' w'' \<and> cur = ?zs ! ((unat (f_position ?h) + unat (f_size g) - 1) div cluster_size_of w')"
    using cs n len sz(1) c0 fs
    by (intro file_read_ok [OF ok ch]) (auto simp: not_less)
  then show ?thesis using h data sz(1) by auto
qed

lemma entries_wf:
  assumes "dir_wf ss" "e \<in> set (dir_entries ss)"
  shows "entry_wf e"
proof -
  obtain s where s: "s \<in> set (takeWhile (\<lambda>s. s ! 0 \<noteq> 0) ss)" "live_slot s" "e = decode_dirent s"
    using assms(2) by (auto simp: dir_entries_def visible_def)
  then have "s \<in> set ss" "s ! 0 \<noteq> 0" by (auto dest: set_takeWhileD)
  then show ?thesis
    using s(2,3) assms(1) by (auto simp: dir_wf_def entry_wf_def plain_slot_def live_slot_def decode_dirent_def)
qed

text \<open>C28. Writing a file: \<open>file_write\<close> on the entry of a file with the clusters \<open>zs\<close>, of at most 4096 bytes each, with room for the bytes in them
  and the free ones, writes them all. The directory then holds the new entry in the place of the old one, opening that
  entry and reading gives exactly the bytes written, and every other chain of clusters and its data are unchanged.\<close>

theorem file_write_reads_back:
  assumes "fat_ok disk w" "cluster_size_of w \<le> 4096"
    and "dir_chain disk w p ps" "dir_wf (dir_slots disk w ps)" "e \<in> set (dir_entries (dir_slots disk w ps))"
    and "file_open disk p e = Some f" "file_chain disk w (directory_entry_cluster e) zs" "set zs \<inter> set ps = {}"
    and "0 < n" "unat n \<le> length source" "unat n \<le> cluster_size_of w * (length zs + card (free_clusters disk w))"
    and "n \<le> m" "unat n \<le> length dest"
  shows "\<exists>w' g h h' w''. file_write f source n w = Some (sint n, g, w') \<and>
    dir_entries (dir_slots disk w' ps) =
      replace_first (\<lambda>x. de_name x = de_name e) [f_entry g] (dir_entries (dir_slots disk w ps)) \<and>
    de_name (f_entry g) = de_name e \<and> de_file_size (f_entry g) = n \<and>
    file_open disk p (f_entry g) = Some h \<and>
    file_read h dest m w' = Some (sint n, h', take (unat n) source @ drop (unat n) dest, w'') \<and>
    (\<forall>c ys. dir_chain disk w c ys \<and> set ys \<inter> (set zs \<union> set ps) = {} \<longrightarrow>
       dir_chain disk w' c ys \<and> chain_data disk w' ys = chain_data disk w ys)"
proof -
  have f: "f_disk f = disk" "f_parent_cluster f = p" "f_entry f = e" "f_first_cluster f = directory_entry_cluster e"
    using assms(6) by (auto simp: file_open_def split: if_splits)
  have n: "0 < unat n" using assms(9) by (simp add: word_less_nat_alt)
  obtain es w' g where r: "file_write f source n w = Some (sint n, g, w')" "f_size g = n"
    "stored disk w w' f g ps zs es 0 (take (unat n) source)"
  proof -
    have "\<exists>x \<in> set (dir_entries (dir_slots disk w ps)). de_name x = de_name (f_entry f)" using assms(5) f(3) by blast
    then have "\<exists>es w' g. file_write f source n w = Some (sint n, g, w') \<and> f_position g = n \<and> f_size g = n \<and>
        stored disk w w' f g ps zs es 0 (take (unat n) source)"
      by (intro file_write_ok [OF assms(1) f(1) assms(2) _ assms(4) _ _ _ _ assms(8) n assms(10,11)])
        (simp_all add: f assms(3,5,7) entries_wf [OF assms(4,5)])
    then show thesis using that by blast
  qed
  have b: "unat (f_size g) = length (take (unat n) source)" "take (unat n) source \<noteq> []" using r(2) assms(10) n by auto
  obtain h h' w'' where h: "file_open disk p (f_entry g) = Some h"
    "file_read h dest m w' = Some (sint n, h', take (unat n) source @ drop (unat n) dest, w'')"
    using stored_reads_back [OF r(3) f(1) b assms(2), of m dest] assms(10,12,13) r(2) f(2) by auto
  have "dir_entries (dir_slots disk w' ps) =
      replace_first (\<lambda>x. de_name x = de_name e) [f_entry g] (dir_entries (dir_slots disk w ps))"
    "de_name (f_entry g) = de_name e" "de_file_size (f_entry g) = n"
    using r(2,3) f(3) by (simp_all add: stored_def)
  then show ?thesis
    using r(1) h stored_chain [OF r(3) assms(1) _ _ assms(7,3)] by blast
qed

text \<open>The demonstration volume with one entry in its root directory.\<close>

definition demo_with :: "dirent \<Rightarrow> fat_state" where
  "demo_with e = set_slot demo_disk (dir_lbas demo_fat [2]) 0 (encode_dirent e) demo_fat"

lemma demo_with_ok:
  assumes e: "entry_wf e"
  shows "fat_ok demo_disk (demo_with e)" "fat32_fs (demo_with e) = demo_fs"
    "valid_cluster demo_fs c \<Longrightarrow> fat demo_disk (demo_with e) c = fat demo_disk demo_fat c"
    "dir_chain demo_disk (demo_with e) 2 [2]" "dir_wf (dir_slots demo_disk (demo_with e) [2])"
    "dir_entries (dir_slots demo_disk (demo_with e) [2]) = [e]"
    "cluster_size_of (demo_with e) = 512" "3 \<le> card (free_clusters demo_disk (demo_with e))"
proof -
  note l = entry_slot [OF e]
  have fr: "dir_frame demo_disk demo_fat (demo_with e) (dir_lbas demo_fat [2])"
    unfolding demo_with_def
    by (rule set_slot_frame) (simp_all add: l demo_valid del: demo_lbas replicate.simps)
  then show "fat_ok demo_disk (demo_with e)" and fs: "fat32_fs (demo_with e) = demo_fs" by (simp_all add: dir_frame_def)
  have same: "valid_cluster demo_fs c \<Longrightarrow> fat demo_disk (demo_with e) c = fat demo_disk demo_fat c" for c
    using fr by (simp add: dir_frame_def)
  then show "valid_cluster demo_fs c \<Longrightarrow> fat demo_disk (demo_with e) c = fat demo_disk demo_fat c" .
  show "dir_chain demo_disk (demo_with e) 2 [2]"
    using dir_frame_chain [OF fr, of 2 "[2]"] demo_root_chain by (simp only: demo_fs_of fs dir_chain_def)
  have sl: "dir_slots demo_disk (demo_with e) [2] = (replicate 16 zero_slot)[0 := encode_dirent e]"
    using set_slot_slots [OF demo_ok demo_root_chain', of 0 "encode_dirent e"] l(1)
    unfolding demo_with_def by (simp del: demo_lbas replicate.simps)
  have hit: "first_hit (create_body e) (replicate 16 zero_slot) = Some (0, Store (encode_dirent e))"
    by (simp add: numeral_eq_Suc create_body_def)
  show "dir_wf (dir_slots demo_disk (demo_with e) [2])"
    "dir_entries (dir_slots demo_disk (demo_with e) [2]) = [e]"
    using create_hit [OF demo_slots_wf(1) e] hit unfolding sl by auto
  show "cluster_size_of (demo_with e) = 512" by (simp add: fs) (simp add: demo_fs_def)
  have "{3, 5, 7} \<subseteq> free_clusters demo_disk (demo_with e)"
    using same by (simp add: free_clusters_def demo_valid fs)
  then have "card {3, 5, 7 :: u32} \<le> card (free_clusters demo_disk (demo_with e))" by (intro card_mono) simp_all
  then show "3 \<le> card (free_clusters demo_disk (demo_with e))" by simp
qed

theorem file_write_reads_back_witness:
  "\<exists>f w' g h h' w''. file_open demo_disk 2 demo_entry = Some f \<and>
    file_write f (replicate 600 7) 600 (demo_with demo_entry) = Some (600, g, w') \<and>
    file_open demo_disk 2 (f_entry g) = Some h \<and>
    file_read h (replicate 700 0) 700 w' = Some (600, h', replicate 600 7 @ replicate 100 0, w'')"
proof -
  note d = demo_with_ok [OF demo_entry_wf]
  have c0: "directory_entry_cluster demo_entry = 0" by (simp add: demo_entry_def directory_entry_cluster_def)
  obtain f where f: "file_open demo_disk 2 demo_entry = Some f" by (simp add: file_open_def demo_disk_def)
  have "600 \<le> 512 * card (free_clusters demo_disk (demo_with demo_entry))" using d(8) by linarith
  then show ?thesis
    using file_write_reads_back [OF d(1) _ d(4,5) _ f, of "[]" 600 "replicate 600 7" 700 "replicate 700 0"] f c0 d(6,7)
    by (auto simp: file_chain_def simp del: replicate.simps)
qed

lemma append_place:
  fixes s cs k :: nat
  assumes "0 < cs" "k = (s + cs - 1) div cs"
  shows "(k - 1) * cs + s mod cs = (if s \<noteq> 0 \<and> s mod cs = 0 then s - cs else s)" "s \<le> cs * k"
proof -
  let ?q = "s div cs" and ?r = "s mod cs"
  have s: "s = ?q * cs + ?r" by simp
  have r: "?r < cs" using assms(1) by simp
  have k: "k = ?q + (?r + (cs - 1)) div cs"
  proof -
    have "s + cs - 1 = ?q * cs + (?r + (cs - 1))" using s assms(1) by linarith
    moreover have "cs \<noteq> 0" using assms(1) by simp
    moreover have "(?q * cs + (?r + (cs - 1))) div cs = ?q + (?r + (cs - 1)) div cs"
      using assms(1) by (intro div_mult_self3) simp
    ultimately show ?thesis unfolding assms(2) by (simp only:)
  qed
  have "(?r + (cs - 1)) div cs = (if ?r = 0 then 0 else 1)"
  proof (cases "?r = 0")
    case False
    then have "?r + (cs - 1) = (?r - 1) + cs" using assms(1) by simp
    moreover have "((?r - 1) + cs) div cs = Suc ((?r - 1) div cs)" using assms(1) by (intro div_add_self2 [THEN trans]) simp_all
    moreover have "(?r - 1) div cs = 0" using r by (intro div_less) simp
    ultimately show ?thesis using False by (simp only: if_False One_nat_def)
  qed (use assms(1) in simp)
  then have k': "k = (if ?r = 0 then ?q else Suc ?q)" using k by simp
  show "(k - 1) * cs + s mod cs = (if s \<noteq> 0 \<and> s mod cs = 0 then s - cs else s)"
    using k' s by (auto simp: diff_mult_distrib)
  show "s \<le> cs * k"
  proof -
    have "x * cs + y \<le> cs * (if y = 0 then x else Suc x)" if "y < cs" for x y :: nat
      using that by (simp add: mult.commute)
    from this [OF r, of ?q] show ?thesis unfolding k' by (simp only: s [symmetric])
  qed
qed

text \<open>C35. Appending to a file whose size fills its chain up to the last cluster: the bytes are stored and the size grows by
  their number, but they follow the old ones only when the last cluster has room. At a positive size that is a multiple
  of the cluster size they overwrite the last cluster from its start, the new size counts both.\<close>

theorem file_append_place:
  assumes "fat_ok disk w" "cluster_size_of w \<le> 4096"
    and "dir_chain disk w p ps" "dir_wf (dir_slots disk w ps)" "e \<in> set (dir_entries (dir_slots disk w ps))"
    and "file_open disk p e = Some f" "file_chain disk w (directory_entry_cluster e) zs" "set zs \<inter> set ps = {}"
    and "s = unat (de_file_size e)" "length zs = (s + cluster_size_of w - 1) div cluster_size_of w"
    and "0 < n" "unat n \<le> length source" "s + unat n < 2 ^ 32"
      "s + unat n \<le> cluster_size_of w * (length zs + card (free_clusters disk w))"
    and "i = (if s \<noteq> 0 \<and> s mod cluster_size_of w = 0 then s - cluster_size_of w else s)"
  shows "\<exists>w' g es. file_append f source n w = Some (sint n, g, w') \<and>
    dir_entries (dir_slots disk w' ps) =
      replace_first (\<lambda>x. de_name x = de_name e) [f_entry g] (dir_entries (dir_slots disk w ps)) \<and>
    de_file_size (f_entry g) = de_file_size e + n \<and>
    dir_chain disk w' (directory_entry_cluster (f_entry g)) (zs @ es) \<and>
    take (i + unat n) (chain_data disk w' (zs @ es)) = take i (chain_data disk w zs) @ take (unat n) source"
proof -
  let ?cs = "cluster_size_of w"
  have f: "f_disk f = disk" "f_parent_cluster f = p" "f_entry f = e" "f_first_cluster f = directory_entry_cluster e"
    "f_size f = de_file_size e"
    using assms(6) by (auto simp: file_open_def split: if_splits)
  have cs: "0 < ?cs" by (rule cluster_bytes_unat(2) [OF assms(1)])
  note place = append_place [OF cs assms(10)]
  have i: "(length zs - 1) * ?cs + s mod ?cs = i" unfolding assms(15) by (rule place(1))
  have ile: "i \<le> s" using assms(15) by simp
  have m: "medium_wf disk w" using assms(1) by (simp add: fat_ok_def)
  have il: "i \<le> length (chain_data disk w zs)"
    unfolding length_chain_data [OF m] using ile place(2) by linarith
  have n: "0 < unat n" using assms(11) by (simp add: word_less_nat_alt)
  have "\<exists>x \<in> set (dir_entries (dir_slots disk w ps)). de_name x = de_name (f_entry f)" using assms(5) f(3) by blast
  then have "\<exists>es w' g. file_append f source n w = Some (sint n, g, w') \<and> f_size g = f_size f + n \<and>
      stored disk w w' f g ps zs es ((length zs - 1) * ?cs + s mod ?cs) (take (unat n) source)"
    by (intro file_append_ok [OF assms(1) f(1) assms(2) _ assms(4) _ _ _ _ assms(8) _ n assms(12)])
      (use ile i assms(9,13,14) in \<open>simp_all add: f assms(3,5,7) entries_wf [OF assms(4,5)] del: mult_Suc_right\<close>)
  then obtain es w' g where r: "file_append f source n w = Some (sint n, g, w')" "f_size g = de_file_size e + n"
    "stored disk w w' f g ps zs es i (take (unat n) source)"
    unfolding i f by blast
  have "take (i + unat n) (chain_data disk w' (zs @ es)) = take i (chain_data disk w zs) @ take (unat n) source"
    using r(3) il assms(12) by (simp add: stored_def put_block_def)
  then show ?thesis using r f(3) by (auto simp: stored_def)
qed

definition demo_long_entry :: dirent where
  "demo_long_entry = (directory_set_entry_cluster demo_entry 4)\<lparr>de_file_size := 1024\<rparr>"

theorem file_append_place_witness:
  "\<exists>f g w' es. file_open demo_disk 2 demo_long_entry = Some f \<and>
    file_append f [1, 2, 3] 3 (demo_with demo_long_entry) = Some (3, g, w') \<and> de_file_size (f_entry g) = 1027 \<and>
    take 515 (chain_data demo_disk w' ([4, 6] @ es)) =
      take 512 (chain_data demo_disk (demo_with demo_long_entry) [4, 6]) @ [1, 2, 3]"
proof -
  have e: "entry_wf demo_long_entry" "directory_entry_cluster demo_long_entry = 4" "de_file_size demo_long_entry = 1024"
    using demo_entry_wf by (simp_all add: demo_long_entry_def entry_wf_def)
  note d = demo_with_ok [OF e(1)]
  obtain f where f: "file_open demo_disk 2 demo_long_entry = Some f" by (simp add: file_open_def demo_disk_def)
  have ch: "file_chain demo_disk (demo_with demo_long_entry) 4 [4, 6]"
    using d(3) by (simp add: file_chain_def dir_chain_def d(2) demo_valid)
  have "1027 \<le> 512 * (2 + card (free_clusters demo_disk (demo_with demo_long_entry)))" using d(8) by (simp add: distrib_left)
  then show ?thesis
    using file_append_place [OF d(1) _ d(4,5) _ f, of "[4, 6]" 1024 3 "[1, 2, 3]" 512] f e(2,3) ch d(6,7)
    by (auto simp del: replicate.simps)
qed

end
