(* ===== verification/ShellFiles.thy ===== *)
theory ShellFiles
  imports FileStore KernelUp
begin

text \<open>
  Files from the shell: what \<open>echo text > name\<close> stores in a new file is what \<open>cat name\<close> shows. The lemmas put the
  operations on directories, paths and files together in the order in which the two commands call them.
\<close>

section \<open>A new file, written and read\<close>

lemma stored_quiet:
  assumes "stored disk w w' f g ps zs es i bs" "quiet w' w''"
  shows "stored disk w w'' f g ps zs es i bs"
proof -
  have o1: "only_clusters disk w w' (set (zs @ es) \<union> set ps)" using assms(1) by (simp add: stored_def)
  then have ok: "fat_ok disk w'" by (simp add: only_clusters_def)
  have "only_clusters disk w w'' (set (zs @ es) \<union> set ps)"
    by (rule only_clusters_trans [OF o1 only_clusters_quiet [OF ok assms(2), of "{}"]]) auto
  then show ?thesis
    using assms(1) dir_chain_quiet [OF assms(2)] chain_data_quiet [OF assms(2)] dir_slots_quiet [OF assms(2)]
    by (simp add: stored_def)
qed

lemma find_replaced:
  "find Q xs = Some a \<Longrightarrow> P a \<Longrightarrow> (\<And>x. P x \<Longrightarrow> Q x) \<Longrightarrow> Q b \<Longrightarrow> find Q (replace_first P [b] xs) = Some b"
  by (induction xs) (auto split: if_splits)

lemma created_room:
  assumes "created disk w w' c xs ys e" "fat_ok disk w"
    and ch: "fat_chain (fat disk w) (valid_cluster (fat32_fs w)) c xs"
  shows "card (free_clusters disk w) \<le> Suc (card (free_clusters disk w'))"
proof -
  have fs: "fat32_fs w' = fat32_fs w" using assms(1) by (simp add: created_def)
  obtain D where D: "set ys \<subseteq> set xs \<union> D" "card D \<le> 1" "finite D"
  proof -
    from assms(1) consider "ys = xs" | d where "ys = xs @ [d]" by (auto simp: created_def)
    then show thesis
    proof cases
      case 1
      then show thesis using that [of "{}"] by simp
    next
      case (2 d)
      then show thesis using that [of "{d}"] by simp
    qed
  qed
  have "x \<notin> set xs" if "x \<in> free_clusters disk w" for x
    using chain_not_free [of disk w c xs x] ch that by (auto simp: dir_chain_def)
  then have "free_clusters disk w - D \<subseteq> free_clusters disk w'"
    using assms(1) D(1) by (auto simp: free_clusters_def created_def fs)
  then have "card (free_clusters disk w - D) \<le> card (free_clusters disk w')" by (intro card_mono) simp_all
  then show ?thesis using diff_card_le_card_Diff [OF D(3), of "free_clusters disk w"] D(2) by linarith
qed

lemma new_file_write:
  fixes w :: "'a fs_state_scheme"
  assumes ok: "fat_ok disk w" and path: "0 \<notin> set path" "fields_ok (path_fields path)"
    "norm_fields path = [leaf]" "leaf \<noteq> dotdot_name"
    and dir: "dir_chain disk w (start_dir path w) xs" "dir_wf (dir_slots disk w xs)"
    and new: "dir_find disk w xs leaf = None"
    and name: "valid_name leaf" "hd leaf \<noteq> 0xE5" "0 \<notin> set leaf" "0x20 \<notin> set leaf" "map to_upper leaf = leaf"
    and cs: "cluster_size_of w \<le> 4096"
    and n: "0 < n" "unat n \<le> length source" "cluster_size_of w + unat n \<le> cluster_size_of w * card (free_clusters disk w)"
  shows "\<exists>w1 w2 w3 f g es ys. file_create disk path w = Some (True, w1) \<and>
    path_lookup disk path w1 = Some (\<lparr>lk_entry = Some (file_entry leaf), lk_parent = Some (start_dir path w),
      lk_leaf = Some leaf\<rparr>, w2) \<and> file_open disk (start_dir path w) (file_entry leaf) = Some f \<and>
    file_write f source n w2 = Some (sint n, g, w3) \<and> stored disk w2 w3 f g ys [] es 0 (take (unat n) source) \<and>
    f_disk f = disk \<and> f_parent_cluster f = start_dir path w \<and> f_size g = n \<and> fat_state.more w3 = fat_state.more w \<and>
    fat32_fs w3 = fat32_fs w \<and> dir_find disk w3 ys leaf = Some (f_entry g) \<and> \<not> is_directory (f_entry g)"
proof -
  let ?c = "start_dir path w" and ?e = "file_entry leaf"
  note ch = dir(1) [unfolded dir_chain_def]
  have cs0: "0 < cluster_size_of w" by (rule cluster_bytes_unat(2) [OF ok])
  have "0 < card (free_clusters disk w)"
    using n(3) cs0 by (metis add_is_0 gr0I le_zero_eq mult_0_right less_numeral_extra(3))
  then have "free_clusters disk w \<noteq> {}" by (metis card.empty less_irrefl)
  then have "\<exists>d. valid_cluster (fat32_fs w) d \<and> fat disk w d = FAT32_CLUSTER_FREE" by (auto simp: free_clusters_def)
  then obtain w1 ys where w1: "file_create disk path w = Some (True, w1)" "created disk w w1 ?c xs ys ?e"
    using file_create_ok [OF ok path dir new name(1-3)] by auto
  note c1 = created_found [OF w1(2) new name(1,4,5)]
  obtain w2 where w2: "path_lookup disk path w1 =
      Some (\<lparr>lk_entry = Some ?e, lk_parent = Some ?c, lk_leaf = Some leaf\<rparr>, w2)" "quiet w1 w2"
    using lookup_found [OF c1(1) path c1(3,5)] c1(2) by auto
  have fs: "fat32_fs w1 = fat32_fs w" "fat32_fs w2 = fat32_fs w" "fat_state.more w1 = fat_state.more w"
    using w1(2) quiet_fields(1) [OF w2(2)] by (simp_all add: created_def)
  obtain f where f: "file_open disk ?c ?e = Some f" using fat_ok_not_None [OF ok] by (simp add: file_open_def)
  have ff: "f_disk f = disk" "f_parent_cluster f = ?c" "f_entry f = ?e" "f_first_cluster f = 0"
    using f file_entry_fields(1) [of leaf] by (auto simp: file_open_def split: if_splits)
  have ok2: "fat_ok disk w2" by (rule quiet_fat_okI [OF w2(2) c1(1)])
  have slots: "dir_slots disk w2 ys = dir_slots disk w1 ys" by (rule dir_slots_quiet [OF w2(2)])
  have ent: "?e \<in> set (dir_entries (dir_slots disk w2 ys))"
    using c1(5) by (auto simp: dir_find_def slots find_Some_iff)
  have free: "free_clusters disk w2 = free_clusters disk w1"
    by (simp add: free_clusters_def fs quiet_fat [OF w2(2)])
  have room: "unat n \<le> cluster_size_of w * (length ([] :: u32 list) + card (free_clusters disk w2))"
  proof -
    have "cluster_size_of w * card (free_clusters disk w) \<le> cluster_size_of w * Suc (card (free_clusters disk w1))"
      using created_room [OF w1(2) ok ch] by (rule mult_le_mono2)
    then show ?thesis using n(3) by (simp only: free mult_Suc_right list.size add_0)
  qed
  have n0: "0 < unat n" using n(1) by (simp add: word_less_nat_alt)
  have "\<exists>es w3 g. file_write f source n w2 = Some (sint n, g, w3) \<and> f_position g = n \<and> f_size g = n \<and>
      stored disk w2 w3 f g ys [] es 0 (take (unat n) source)"
  proof (rule file_write_ok [OF ok2 ff(1)])
    show "dir_chain disk w2 (f_parent_cluster f) ys" using c1(2,3) dir_chain_quiet [OF w2(2)] by (simp add: ff)
    show "dir_wf (dir_slots disk w2 ys)" using w1(2) by (simp add: slots created_def)
    show "\<exists>e \<in> set (dir_entries (dir_slots disk w2 ys)). de_name e = de_name (f_entry f)"
      unfolding ff(3) using ent by blast
    show "unat n \<le> cluster_size_of w2 * (length ([] :: u32 list) + card (free_clusters disk w2))" using room by (simp add: fs)
  qed (use cs n0 n(2) file_entry_wf [OF name(1-3)] file_entry_fields(1) in \<open>simp_all add: ff file_chain_def fs\<close>)
  then obtain es w3 g where w3: "file_write f source n w2 = Some (sint n, g, w3)" "f_size g = n"
    "stored disk w2 w3 f g ys [] es 0 (take (unat n) source)" by blast
  have st: "dir_entries (dir_slots disk w3 ys) = replace_first (\<lambda>x. de_name x = de_name ?e) [f_entry g] (dir_entries (dir_slots disk w2 ys))"
    "de_name (f_entry g) = de_name ?e" "de_attributes (f_entry g) = de_attributes ?e"
    "fat_state.more w3 = fat_state.more w2" "fat32_fs w3 = fat32_fs w2"
    using w3(3) ff(3) by (simp_all add: stored_def only_clusters_def)
  have nm: "directory_get_name x = leaf" if "de_name x = de_name ?e" for x using get_name_cong [OF that] c1(4) by simp
  have "dir_find disk w3 ys leaf = Some (f_entry g)"
    unfolding dir_find_def st(1)
  proof (rule find_replaced)
    show "find (\<lambda>e. str_eq (directory_get_name e) leaf) (dir_entries (dir_slots disk w2 ys)) = Some ?e"
      using c1(5) by (simp add: dir_find_def slots)
  qed (use nm st(2) in \<open>simp_all add: str_eq_refl\<close>)
  moreover have "\<not> is_directory (f_entry g)" using st(3) file_entry_fields(3) [of leaf] by (simp add: is_directory_def)
  moreover have "fat_state.more w3 = fat_state.more w" using st(4) fs(3) quiet_fields [OF w2(2)] by simp
  ultimately show ?thesis using w1(1) w2(1) f w3 ff(1,2) st(5) fs(2) by auto
qed

section \<open>The commands\<close>

lemma parse_redirect_short: "parse_redirect args = Some (a, txt, name) \<Longrightarrow> length txt \<le> 255"
  by (auto simp: parse_redirect_def Let_def split: if_splits)

lemma system_parts:
  fixes s s' :: system
  assumes "console.more s' = console.more s"
  shows "vol s' = vol s" "disks s' = disks s"
  using assms by (cases s; cases s'; simp)+

lemma vol_display [simp]:
  fixes s :: system
  shows "on_display col cs (s\<lparr>vol := v\<rparr>) = on_display col cs s"
  by (simp add: on_display_def)

lemma display_write:
  fixes s :: system
  assumes "on_display col cs s"
  obtains s' where "terminal_write ds s = Some s'" "on_display col (cs @ ds) s'" "vol s' = vol s" "disks s' = disks s"
proof -
  have "ready_screen s" using assms by (auto simp: ready_screen_def)
  then obtain s' where "terminal_write ds s = Some s'" "wrote ds s s'" using terminal_write_wrote by blast
  then show thesis
    using that [of s'] assms system_parts [of s' s] unfolding wrote_def by blast
qed

lemma writeln_empty: "writeln '''' s = terminal_write [0x0A] s"
  by (simp add: writeln_def terminal_writeIn_write bytes_def)

lemma cat_run:
  fixes s :: system
  assumes "disk_get (disks s) 0 = Some d" "path \<noteq> []"
    and "path_lookup (Some d) path (vol s) = Some (\<lparr>lk_entry = Some e, lk_parent = Some c, lk_leaf = l\<rparr>, w4)" "\<not> is_directory e"
    and "file_open (Some d) c e = Some h"
    and "file_read h (replicate 513 0) 512 w4 = Some (int (length txt), h', txt @ rest, w5)" "0 \<notin> set txt"
    and "on_display col cs s"
  shows "\<exists>s'. cmd_cat path s = Some (Go_On_With s') \<and> vol s' = w5 \<and> on_display col (cs @ [0x0A] @ txt @ [0x0A]) s'"
proof -
  let ?s = "s\<lparr>vol := w5\<rparr>"
  obtain s1 where s1: "terminal_write [0x0A] ?s = Some s1" "on_display col (cs @ [0x0A]) s1" "vol s1 = w5"
    by (rule display_write [of col cs ?s "[0x0A]"]) (use assms(8) in auto)
  obtain s2 where s2: "terminal_write txt s1 = Some s2" "on_display col ((cs @ [0x0A]) @ txt) s2" "vol s2 = vol s1"
    by (rule display_write [OF s1(2)])
  obtain s3 where s3: "terminal_write [0x0A] s2 = Some s3" "on_display col (((cs @ [0x0A]) @ txt) @ [0x0A]) s3" "vol s3 = vol s2"
    by (rule display_write [OF s2(2)])
  have tw: "takeWhile (\<lambda>c. c \<noteq> 0) txt = txt" using assms(7) by (simp add: takeWhile_eq_all_conv) metis
  have "cmd_cat path s = go_on (do { s \<leftarrow> writeln '''' ?s; s \<leftarrow> terminal_write txt s; writeln '''' s })"
    using assms(1-6) by (simp add: tw cmd_cat_def Let_def on_vol_def is_directory_def lookup_parent_def)
  also have "\<dots> = Some (Go_On_With s3)" by (simp only: writeln_empty s1(1) s2(1) s3(1) go_on_def bind.bind_lunit option.map)
  finally show ?thesis using s1(3) s2(3) s3(2,3) by auto
qed

lemma echo_run:
  fixes s :: system
  assumes "disk_get (disks s) 0 = Some d" "parse_redirect args = Some (False, txt, path)" "path \<noteq> []"
    and "path_lookup (Some d) path (vol s) = Some (\<lparr>lk_entry = None, lk_parent = p, lk_leaf = l\<rparr>, w0)"
    and "file_create (Some d) path w0 = Some (True, w1)"
    and "path_lookup (Some d) path w1 = Some (\<lparr>lk_entry = Some e, lk_parent = Some c, lk_leaf = l'\<rparr>, w2)" "\<not> is_directory e"
    and "file_open (Some d) c e = Some f" "file_write f txt (of_nat (length txt)) w2 = Some (n, g, w3)" "0 \<le> n"
  shows "cmd_echo args s = Some (Go_On_With (s\<lparr>vol := w3\<rparr>))"
proof -
  have "echo_target (Some d) path s = Some (Inr \<lparr>lk_entry = Some e, lk_parent = Some c, lk_leaf = l'\<rparr>, s\<lparr>vol := w2\<rparr>)"
    using assms(4-6) by (simp add: echo_target_def on_vol_def)
  moreover have "write_text False f txt (s\<lparr>vol := w2\<rparr>) = Some (n, s\<lparr>vol := w3\<rparr>)"
    using assms(9) by (simp add: write_text_def on_vol_def)
  ultimately show ?thesis
    using assms(1-3,7,8,10) by (simp add: cmd_echo_def Let_def is_directory_def lookup_parent_def go_on_def)
qed

lemma execute_run:
  fixes s :: system
  assumes "split_command line = (bytes name, args)" "(name, handler) \<in> {(''echo'', cmd_echo), (''cat'', cmd_cat)}"
    and "on_display col cs s"
  obtains s1 where "shell_execute line s = handler args s1" "on_display col (cs @ [0x0A]) s1" "vol s1 = vol s" "disks s1 = disks s"
proof -
  obtain s1 where s1: "terminal_write [0x0A] s = Some s1" "on_display col (cs @ [0x0A]) s1" "vol s1 = vol s" "disks s1 = disks s"
    by (rule display_write [OF assms(3)])
  have "line \<noteq> []" using assms(1,2) by (auto simp: split_command_def copy_word_take bytes_def)
  moreover have "find_command (bytes name) command_table = Some handler"
  proof -
    have "find_command (bytes ''echo'') command_table = Some cmd_echo" "find_command (bytes ''cat'') command_table = Some cmd_cat"
      by (simp_all add: command_table_def bytes_def)
    then show ?thesis using assms(2) by blast
  qed
  ultimately have "shell_execute line s = handler args s1"
    using assms(1) s1(1) by (simp add: shell_execute_def writeln_empty)
  then show thesis using that s1(2-4) by blast
qed

section \<open>Two lines of the shell\<close>

text \<open>C7. What \<open>echo\<close> writes to a new file is what \<open>cat\<close> shows: with the volume mounted, an unused name of
  upper-case letters, clusters of at most 4096 bytes and one free cluster more than the text needs, the line \<open>echo text > name\<close> creates the file
  and stores the text, and the line \<open>cat name\<close> writes exactly this text, between its newlines, to the screen.\<close>

theorem echo_then_cat:
  fixes s :: system
  assumes "disk_get (disks s) 0 = Some d" "fat_ok (Some d) (vol s)" "cluster_size_of (vol s) \<le> 4096"
    and "split_command line = (bytes ''echo'', args)" "parse_redirect args = Some (False, txt, path)"
    and "split_command line' = (bytes ''cat'', path)"
    and "txt \<noteq> []" "0 \<notin> set txt" "path \<noteq> []" "0 \<notin> set path" "fields_ok (path_fields path)"
    and "norm_fields path = [leaf]" "leaf \<noteq> dotdot_name"
    and "dir_chain (Some d) (vol s) (start_dir path (vol s)) xs" "dir_wf (dir_slots (Some d) (vol s) xs)"
    and "dir_find (Some d) (vol s) xs leaf = None"
    and "valid_name leaf" "hd leaf \<noteq> 0xE5" "0 \<notin> set leaf" "0x20 \<notin> set leaf" "map to_upper leaf = leaf"
    and "cluster_size_of (vol s) + length txt \<le> cluster_size_of (vol s) * card (free_clusters (Some d) (vol s))"
    and "on_display col shown s"
  shows "\<exists>s1 s2. shell_execute line s = Some (Go_On_With s1) \<and> shell_execute line' s1 = Some (Go_On_With s2) \<and>
    on_display col (shown @ [0x0A, 0x0A, 0x0A] @ txt @ [0x0A]) s2"
proof -
  let ?D = "Some d" and ?n = "of_nat (length txt) :: u32"
  have short: "length txt \<le> 255" by (rule parse_redirect_short [OF assms(5)])
  have n: "unat ?n = length txt" "sint ?n = int (length txt)" "0 < ?n" "?n \<le> 512"
  proof -
    show u: "unat ?n = length txt" using short by (simp add: unat_of_nat)
    show "sint ?n = int (length txt)" using short by (simp add: signed_of_nat signed_take_bit_int_eq_self)
    show "0 < ?n" "?n \<le> 512" using u assms(7) short by (simp_all add: word_less_nat_alt word_le_nat_alt)
  qed
  obtain t where t: "shell_execute line s = cmd_echo args t" "on_display col (shown @ [0x0A]) t" "vol t = vol s" "disks t = disks s"
    by (rule execute_run [OF assms(4) _ assms(23), of cmd_echo]) simp_all
  obtain w0 where w0: "path_lookup ?D path (vol s) =
      Some (\<lparr>lk_entry = None, lk_parent = Some (start_dir path (vol s)), lk_leaf = Some leaf\<rparr>, w0)" "quiet (vol s) w0"
    using lookup_found [OF assms(2,10-14,16)] by blast
  note q = quiet_fields [OF w0(2)] quiet_fat [OF w0(2)] dir_slots_quiet [OF w0(2)] dir_chain_quiet [OF w0(2)]
  have start: "start_dir path w0 = start_dir path (vol s)"
    using more_filesystem [OF q(2)] by (simp add: start_dir_def fs_current_directory_def q(1))
  have find: "dir_find ?D w0 xs leaf = None" using assms(16) by (simp add: dir_find_def q)
  have free: "free_clusters ?D w0 = free_clusters ?D (vol s)" by (simp add: free_clusters_def q)
  have "\<exists>w1 w2 w3 f g es ys. file_create ?D path w0 = Some (True, w1) \<and>
    path_lookup ?D path w1 = Some (\<lparr>lk_entry = Some (file_entry leaf), lk_parent = Some (start_dir path w0),
      lk_leaf = Some leaf\<rparr>, w2) \<and> file_open ?D (start_dir path w0) (file_entry leaf) = Some f \<and>
    file_write f txt ?n w2 = Some (sint ?n, g, w3) \<and> stored ?D w2 w3 f g ys [] es 0 (take (unat ?n) txt) \<and>
    f_disk f = ?D \<and> f_parent_cluster f = start_dir path w0 \<and> f_size g = ?n \<and> fat_state.more w3 = fat_state.more w0 \<and>
    fat32_fs w3 = fat32_fs w0 \<and> dir_find ?D w3 ys leaf = Some (f_entry g) \<and> \<not> is_directory (f_entry g)"
    by (rule new_file_write [OF quiet_fat_okI [OF w0(2) assms(2)] assms(10-13) _ _ find assms(17-21)])
      (use assms(3,14,15,22) n in \<open>simp_all add: start q free\<close>)
  then obtain w1 w2 w3 f g es ys where w: "file_create ?D path w0 = Some (True, w1)"
    "path_lookup ?D path w1 = Some (\<lparr>lk_entry = Some (file_entry leaf), lk_parent = Some (start_dir path w0),
      lk_leaf = Some leaf\<rparr>, w2)" "file_open ?D (start_dir path w0) (file_entry leaf) = Some f"
    "file_write f txt ?n w2 = Some (sint ?n, g, w3)" "stored ?D w2 w3 f g ys [] es 0 txt"
    "f_disk f = ?D" "f_parent_cluster f = start_dir path w0" "f_size g = ?n" "fat_state.more w3 = fat_state.more w0"
    "fat32_fs w3 = fat32_fs w0" "dir_find ?D w3 ys leaf = Some (f_entry g)" "\<not> is_directory (f_entry g)"
    unfolding n(1) take_all [OF order_refl] by blast
  have echo: "shell_execute line s = Some (Go_On_With (t\<lparr>vol := w3\<rparr>))"
    unfolding t(1)
    by (rule echo_run [OF _ assms(5,9) _ w(1,2) _ w(3,4)]) (use assms(1) w0(1) t(3,4) n(2) file_entry_fields(3) in simp_all)
  obtain u where u: "shell_execute line' (t\<lparr>vol := w3\<rparr>) = cmd_cat path u" "on_display col ((shown @ [0x0A]) @ [0x0A]) u"
    "vol u = w3" "disks u = disks s"
    by (rule execute_run [OF assms(6), of cmd_cat col "shown @ [0x0A]" "t\<lparr>vol := w3\<rparr>"]) (use t(2,4) in auto)
  have ok3: "fat_ok ?D w3" and ch3: "dir_chain ?D w3 (start_dir path w0) ys"
    using w(5,7) by (simp_all add: stored_def only_clusters_def)
  have start3: "start_dir path w3 = start_dir path w0"
    using more_filesystem [OF w(9)] by (simp add: start_dir_def fs_current_directory_def w(10))
  obtain w4 where w4: "path_lookup ?D path w3 =
      Some (\<lparr>lk_entry = Some (f_entry g), lk_parent = Some (start_dir path w0), lk_leaf = Some leaf\<rparr>, w4)" "quiet w3 w4"
    using lookup_found [OF ok3 assms(10-13) _ w(11)] ch3 start3 by auto
  have "cluster_size_of w2 \<le> 4096" using w(5,10) q assms(3) by (simp add: stored_def only_clusters_def)
  from stored_reads_back [OF stored_quiet [OF w(5) w4(2)] w(6) _ assms(7) this, of 512 "replicate 513 0"]
  obtain h h' w5 where h: "file_open ?D (start_dir path w0) (f_entry g) = Some h"
    "file_read h (replicate 513 0) 512 w4 = Some (int (length txt), h', txt @ drop (length txt) (replicate 513 0), w5)"
    using w(7,8) n short by auto
  have "disk_get (disks u) 0 = Some d" "path_lookup ?D path (vol u) = Some (\<lparr>lk_entry = Some (f_entry g),
      lk_parent = Some (start_dir path w0), lk_leaf = Some leaf\<rparr>, w4)"
    using assms(1) u(3,4) w4(1) by simp_all
  from cat_run [OF this(1) assms(9) this(2) w(12) h assms(8) u(2)] obtain s2 where "cmd_cat path u = Some (Go_On_With s2)"
    "on_display col (((shown @ [0x0A]) @ [0x0A]) @ [0x0A] @ txt @ [0x0A]) s2" by blast
  then show ?thesis using echo u(1) by auto
qed

theorem echo_then_cat_witness:
  "\<exists>s1 s2. shell_execute (bytes ''echo hello > FOO.TXT'') (terminal_init (demo_system demo_keyboard)) = Some (Go_On_With s1) \<and>
    shell_execute (bytes ''cat FOO.TXT'') s1 = Some (Go_On_With s2) \<and>
    on_display 0xF0 ([0x0A, 0x0A, 0x0A] @ bytes ''hello'' @ [0x0A]) s2"
proof -
  let ?s = "terminal_init (demo_system demo_keyboard)" and ?f = "bytes ''FOO.TXT''" and ?d = "\<lparr>device = Some demo_dev\<rparr> :: disk_t"
  have v: "vol ?s = mount_demo demo_fat" "disk_get (disks ?s) 0 = Some ?d"
    using system_parts [of ?s "demo_system demo_keyboard"]
    by (simp_all add: terminal_init_def vga_set_color_def vga_clear_def demo_system_def disk_get_def demo_dev_def)
  have disp: "on_display 0xF0 [] ?s" by (rule terminal_init_display) (simp add: demo_system_def)
  have name: "valid_name ?f" "hd ?f \<noteq> 0xE5" "0 \<notin> set ?f" "0x20 \<notin> set ?f" "map to_upper ?f = ?f"
    "?f \<noteq> dotdot_name" "fields_ok [?f]" "?f \<noteq> []"
    by (simp_all add: valid_name_def base_part_def ext_part_def bytes_def to_upper_def fields_ok_def)
  have path: "fields_ok (path_fields ?f)" "norm_fields ?f = [?f]" using name(7) by simp_all
  have sp: "split_command (bytes ''echo hello > FOO.TXT'') = (bytes ''echo'', bytes ''hello > FOO.TXT'')"
    "split_command (bytes ''cat FOO.TXT'') = (bytes ''cat'', ?f)"
    by (simp_all add: split_command_def copy_word_take bytes_def)
  have pr: "parse_redirect (bytes ''hello > FOO.TXT'') = Some (False, bytes ''hello'', ?f)"
  proof -
    have "drop_trailing xs 6 = (if xs ! 5 = space then drop_trailing xs 5 else 6)"
      "drop_trailing xs 5 = (if xs ! 4 = space then drop_trailing xs 4 else 5)" for xs
      using drop_trailing.simps(2) [of xs 5] drop_trailing.simps(2) [of xs 4] by simp_all
    then show ?thesis by (simp add: parse_redirect_def bytes_def)
  qed
  have start: "start_dir ?f (mount_demo demo_fat) = 2" by (simp add: start_dir_def)
  have dir: "dir_find demo_disk (mount_demo demo_fat) [2] ?f = None" "dir_wf (dir_slots demo_disk (mount_demo demo_fat) [2])"
    by (simp_all add: dir_find_def del: replicate.simps)
  have cs: "cluster_size_of (mount_demo demo_fat) = 512" by simp (simp add: demo_fs_def)
  have "{3, 5, 7} \<subseteq> free_clusters demo_disk (mount_demo demo_fat)"
    by (simp add: free_clusters_def demo_valid)
  then have "card {3, 5, 7 :: u32} \<le> card (free_clusters demo_disk (mount_demo demo_fat))" by (intro card_mono) simp_all
  then have "517 \<le> 512 * card (free_clusters demo_disk (mount_demo demo_fat))" by simp
  then show ?thesis
    using echo_then_cat [OF v(2) _ _ sp(1) pr sp(2) _ _ name(8,3) path name(6), of "[2]" "0xF0" "[]"] name dir start cs disp demo_dir_chain(1)
    by (simp add: v(1) demo_disk_def [symmetric] bytes_def del: replicate.simps)
qed

end
