(* ===== verification/ShellSafe.thy ===== *)
theory ShellSafe
  imports KernelUp
begin

text \<open>
  What every command of the shell leaves alone. A command may print, use the volume and stop the machine; the
  keyboard, the kernel behind the shell and the list of disks stay as they are, and the cursor stays on the screen, so
  that the input loop can go on after any line. The rules for \<open>safe\<close> follow the structure of the commands.
\<close>

section \<open>Steps that keep the system\<close>

definition kept :: "system \<Rightarrow> system \<Rightarrow> bool" where
  "kept s s' \<longleftrightarrow> screen_ok (screen s') \<and> kern s' = kern s \<and> kbd s' = kbd s \<and> ticks s' = ticks s \<and>
     shift_pressed s' = shift_pressed s \<and> disks s' = disks s"

definition safe :: "system \<Rightarrow> system option \<Rightarrow> bool" where
  "safe s r \<longleftrightarrow> (\<forall>s'. r = Some s' \<longrightarrow> kept s s')"

definition safe_with :: "system \<Rightarrow> ('r \<times> system) option \<Rightarrow> bool" where
  "safe_with s r \<longleftrightarrow> (\<forall>x s'. r = Some (x, s') \<longrightarrow> kept s s')"

named_theorems safe_intros

lemma kept_refl: "screen_ok (screen s) \<Longrightarrow> kept s s"
  by (simp add: kept_def)

lemma kept_trans: "kept s s1 \<Longrightarrow> kept s1 s2 \<Longrightarrow> kept s s2"
  by (simp add: kept_def)

lemma safe_Some [safe_intros]: "kept s s' \<Longrightarrow> safe s (Some s')"
  by (simp add: safe_def)

lemma safe_with_Some [safe_intros]: "kept s s' \<Longrightarrow> safe_with s (Some (x, s'))"
  by (simp add: safe_with_def)

lemma safe_bind [safe_intros]: "safe s r \<Longrightarrow> (\<And>s'. kept s s' \<Longrightarrow> safe s (f s')) \<Longrightarrow> safe s (r \<bind> f)"
  by (cases r) (simp_all add: safe_def)

lemma safe_bind_with [safe_intros]:
  "safe_with s r \<Longrightarrow> (\<And>x s'. kept s s' \<Longrightarrow> safe s (f x s')) \<Longrightarrow> safe s (r \<bind> (\<lambda>(x, s'). f x s'))"
  by (cases r) (auto simp: safe_def safe_with_def)

lemma safe_with_bind [safe_intros]:
  "safe_with s r \<Longrightarrow> (\<And>x s'. kept s s' \<Longrightarrow> safe_with s (f x s')) \<Longrightarrow> safe_with s (r \<bind> (\<lambda>(x, s'). f x s'))"
  by (cases r) (auto simp: safe_with_def)

lemma safe_if [safe_intros]: "(c \<Longrightarrow> safe s a) \<Longrightarrow> (\<not> c \<Longrightarrow> safe s b) \<Longrightarrow> safe s (if c then a else b)"
  by simp

lemma safe_with_if [safe_intros]:
  "(c \<Longrightarrow> safe_with s a) \<Longrightarrow> (\<not> c \<Longrightarrow> safe_with s b) \<Longrightarrow> safe_with s (if c then a else b)"
  by simp

lemma safe_case_option [safe_intros]:
  "safe s a \<Longrightarrow> (\<And>x. safe s (b x)) \<Longrightarrow> safe s (case r of None \<Rightarrow> a | Some x \<Rightarrow> b x)"
  by (cases r) simp_all

lemma safe_case_sum [safe_intros]:
  "(\<And>x. safe s (a x)) \<Longrightarrow> (\<And>x. safe s (b x)) \<Longrightarrow> safe s (case r of Inl x \<Rightarrow> a x | Inr x \<Rightarrow> b x)"
  by (cases r) simp_all

lemma safe_case_prod [safe_intros]: "(\<And>x y. safe s (f x y)) \<Longrightarrow> safe s (case r of (x, y) \<Rightarrow> f x y)"
  by (cases r) simp

lemma safe_case_prod_at [safe_intros]: "(\<And>x y. safe s (f x y t)) \<Longrightarrow> safe s ((case r of (x, y) \<Rightarrow> f x y) t)"
  by (cases r) simp

lemma safe_write [safe_intros]:
  assumes "kept s s1"
  shows "safe s (terminal_write cs s1)"
proof -
  obtain s2 where s2: "terminal_write cs s1 = Some s2" "printed cs s1 s2"
    using terminal_write_printed assms unfolding kept_def by blast
  note k = printed_keep [OF s2(2)] system_more [of s2 s1]
  have "console.more s2 = console.more s1" using s2(2) by (simp add: printed_def)
  then show ?thesis using assms s2(1) k by (simp add: safe_def kept_def)
qed

lemma safe_writeIn [safe_intros]: "kept s s1 \<Longrightarrow> safe s (terminal_writeIn cs s1)"
  unfolding terminal_writeIn_write by (rule safe_write)

lemma safe_writeln [safe_intros]: "kept s s1 \<Longrightarrow> safe s (writeln cs s1)"
  unfolding writeln_def by (rule safe_writeIn)

lemma safe_hex [safe_intros]: "kept s s1 \<Longrightarrow> safe s (terminal_write_hex v s1)"
  unfolding terminal_write_hex_write by (rule safe_write)

lemma safe_uint32 [safe_intros]: "kept s s1 \<Longrightarrow> safe s (write_uint32 v s1)"
  unfolding write_uint32_def by (intro safe_intros)

lemma safe_lines [safe_intros]: "kept s s1 \<Longrightarrow> safe s (write_lines ls s1)"
  unfolding write_lines_text by (rule safe_write)

lemma safe_on_vol [safe_intros]: "kept s s1 \<Longrightarrow> safe_with s (on_vol f s1)"
  by (auto simp: on_vol_def safe_with_def kept_def split: bind_splits)

lemma safe_each_argument [safe_intros]:
  assumes "kept s s1"
  shows "safe s (each_argument f args s1)"
  using assms
proof (induction f args s1 rule: each_argument.induct)
  case (1 f args s1)
  show ?case
  proof (cases "get_next_argument args 64")
    case None
    then show ?thesis using "1.prems" by (subst each_argument.simps) (simp add: safe_Some)
  next
    case (Some x)
    obtain name rest where x: "x = (name, rest)" by (cases x)
    note g = Some [unfolded x]
    show ?thesis
    proof (cases "on_vol (f name) s1")
      case None
      then show ?thesis using g by (subst each_argument.simps) (simp add: safe_def)
    next
      case (Some y)
      obtain ok s2 where y: "y = (ok, s2)" by (cases y)
      note v = Some [unfolded y]
      have k2: "kept s s2" using safe_on_vol [OF "1.prems", of "f name"] v by (simp add: safe_with_def)
      let ?r = "if ok then Some s2 else do { s2 \<leftarrow> terminal_write (bytes ''Failed: '') s2; terminal_writeIn name s2 }"
      have r: "safe s ?r" using k2 by (intro safe_intros)
      show ?thesis
      proof (cases ?r)
        case None
        then show ?thesis using g v by (subst each_argument.simps) (simp add: safe_def)
      next
        case (Some s3)
        then have "kept s s3" using r by (simp add: safe_def)
        from "1.IH" [OF g refl v refl Some this]
        show ?thesis using g v Some by (subst each_argument.simps) simp
      qed
    qed
  qed
qed

lemma ls_loop_kept:
  assumes "ls_loop dir s1 = Some s'"
  shows "kept s s1 \<longrightarrow> kept s s'"
proof (induction rule: ls_loop.raw_induct [OF _ assms])
  case (1 loop dir s1 s')
  have "safe s (case on_vol (\<lambda>v. do { (e, dir, v) \<leftarrow> directory_next dir v; Some ((e, dir), v) }) s1 of
      None \<Rightarrow> None
    | Some ((entry, dir), s) \<Rightarrow>
        (case entry of None \<Rightarrow> Some s
         | Some e \<Rightarrow> (case terminal_writeIn (directory_get_name e) s of None \<Rightarrow> None | Some s \<Rightarrow> loop dir s)))"
    if k: "kept s s1"
  proof (cases "on_vol (\<lambda>v. do { (e, dir, v) \<leftarrow> directory_next dir v; Some ((e, dir), v) }) s1")
    case (Some x)
    obtain entry dir' s2 where x: "x = ((entry, dir'), s2)" by (cases x) auto
    have "safe_with s (on_vol (\<lambda>v. do { (e, dir, v) \<leftarrow> directory_next dir v; Some ((e, dir), v) }) s1)"
      by (rule safe_on_vol [OF k])
    then have k2: "kept s s2" using Some x by (simp add: safe_with_def)
    show ?thesis
    proof (cases entry)
      case (Some e)
      show ?thesis
      proof (cases "terminal_writeIn (directory_get_name e) s2")
        case (Some s3)
        then have "kept s s3" using safe_writeIn [OF k2] unfolding safe_def by blast
        then have "safe s (loop dir' s3)" using 1(1) by (auto simp: safe_def)
        then show ?thesis using Some \<open>entry = Some e\<close> \<open>on_vol _ s1 = Some x\<close> x by simp
      qed (use Some \<open>on_vol _ s1 = Some x\<close> x in \<open>simp add: safe_def\<close>)
    qed (use Some x k2 in \<open>simp add: safe_Some\<close>)
  qed (simp add: safe_def)
  then show ?case using 1(2) by (auto simp: safe_def)
qed

lemma safe_ls_loop [safe_intros]: "kept s s1 \<Longrightarrow> safe s (ls_loop dir s1)"
  using ls_loop_kept by (auto simp: safe_def)

section \<open>The commands\<close>

text \<open>What may become of the system: it goes on as it was but for the volume and the screen (\<open>uptime\<close> turns interrupts on
  when it has read the clock), or it stops with interrupts off, or an exception or a reset ends it.\<close>

definition good_ending :: "system \<Rightarrow> system ending \<Rightarrow> bool" where
  "good_ending s e \<longleftrightarrow> (case e of
       Go_On_With s' \<Rightarrow> kept s s' \<or> kept (s\<lparr>kern := sti (kern s)\<rparr>) s'
     | Stop s' \<Rightarrow> kept (s\<lparr>kern := cli (kern s)\<rparr>) s'
     | Trap n s' \<Rightarrow> n \<in> {0, 14} \<and> kept s s'
     | Reset s' \<Rightarrow> kept (s\<lparr>kern := cli (kern s)\<rparr>) s')"

definition good_command :: "command \<Rightarrow> bool" where
  "good_command handler \<longleftrightarrow> (\<forall>args s e. screen_ok (screen s) \<longrightarrow> handler args s = Some e \<longrightarrow> good_ending s e)"

lemma good_go_on:
  assumes "\<And>args s. screen_ok (screen s) \<Longrightarrow> handler args s = go_on (r args s)" "\<And>args s. kept s s \<Longrightarrow> safe s (r args s)"
  shows "good_command handler"
  using assms kept_refl by (auto simp: good_command_def good_ending_def go_on_def safe_def)

lemma good_text_commands:
  "good_command cmd_help" "good_command cmd_about" "good_command cmd_pwd"
proof -
  show "good_command cmd_help" by (rule good_go_on [OF cmd_help_def]) (intro safe_intros)
  show "good_command cmd_about" by (rule good_go_on [OF cmd_about_def]) (intro safe_intros)
  show "good_command cmd_pwd" by (rule good_go_on [OF cmd_pwd_def]) (intro safe_intros)
qed

lemma good_each: "good_command (cmd_each usage f)"
  by (rule good_go_on [OF cmd_each_def]) (simp only: Let_def, intro safe_intros)

lemma good_file_commands:
  "good_command cmd_touch" "good_command cmd_mkdir" "good_command cmd_rm" "good_command cmd_rmdir"
  "good_command cmd_ls" "good_command cmd_cat" "good_command cmd_cp" "good_command cmd_mv" "good_command cmd_cd" "good_command cmd_echo"
proof -
  have e: "cmd_touch = cmd_each ''Usage: touch <file>'' file_create" "cmd_mkdir = cmd_each ''Usage: mkdir <directory>'' directory_create"
    "cmd_rm = cmd_each ''Usage: rm <file>'' file_delete" "cmd_rmdir = cmd_each ''Usage: rmdir <directory>'' directory_delete"
    by (simp_all add: cmd_touch_def cmd_mkdir_def cmd_rm_def cmd_rmdir_def fun_eq_iff)
  show "good_command cmd_touch" "good_command cmd_mkdir" "good_command cmd_rm" "good_command cmd_rmdir"
    unfolding e by (rule good_each)+
  show "good_command cmd_ls"
    by (rule good_go_on [OF cmd_ls_def]) (simp only: Let_def ls_directory_def, intro safe_intros)
  show "good_command cmd_cat"
    by (rule good_go_on [OF cmd_cat_def]) (simp only: Let_def, intro safe_intros)
  show "good_command cmd_cp"
    by (rule good_go_on [OF cmd_cp_def]) (simp only: Let_def, intro safe_intros)
  show "good_command cmd_mv"
    by (rule good_go_on [OF cmd_mv_def]) (simp only: Let_def, intro safe_intros)
  show "good_command cmd_cd"
    by (rule good_go_on [OF cmd_cd_def]) (simp only: Let_def, intro safe_intros)
  show "good_command cmd_echo"
    by (rule good_go_on [OF cmd_echo_def]) (simp only: Let_def echo_target_def write_text_def, intro safe_intros)
qed

lemma kept_cli: "kept s s' \<Longrightarrow> kept (s\<lparr>kern := cli (kern s)\<rparr>) (s'\<lparr>kern := cli (kern s')\<rparr>)"
  by (simp add: kept_def)

lemma good_machine_commands:
  "good_command cmd_clear" "good_command cmd_uptime" "good_command cmd_reboot" "good_command cmd_shutdown"
  "good_command cmd_exception" "good_command cmd_pagefault"
proof -
  show "good_command cmd_clear"
    by (auto simp: good_command_def good_ending_def cmd_clear_def terminal_clear_def kept_def vga_clear_ok screen_ok_def
        intro!: vga_clear_ok [unfolded screen_ok_def])
  show "good_command cmd_uptime"
  proof (unfold good_command_def, intro allI impI)
    fix args s e assume s: "screen_ok (screen s)" and e: "cmd_uptime args s = Some e"
    let ?s = "s\<lparr>kern := sti (kern s)\<rparr>"
    have "kept ?s ?s" using s by (simp add: kept_def)
    then have "safe ?s (do { s \<leftarrow> write_uint32 (ticks s div 100) ?s; writeln '' seconds'' s })" by (intro safe_intros)
    then show "good_ending s e"
      using e by (auto simp: cmd_uptime_def timer_ticks_def Let_def go_on_def good_ending_def safe_def)
  qed
  show "good_command cmd_reboot"
  proof (unfold good_command_def, intro allI impI)
    fix args s e assume s: "screen_ok (screen s)" and e: "cmd_reboot args s = Some e"
    have "safe s (writeln ''Rebooting...'' s)" by (intro safe_intros kept_refl s)
    then show "good_ending s e"
      using e kept_cli by (auto simp: cmd_reboot_def reboot_system_def good_ending_def safe_def split: bind_splits)
  qed
  show "good_command cmd_shutdown"
  proof (unfold good_command_def, intro allI impI)
    fix args s e assume s: "screen_ok (screen s)" and e: "cmd_shutdown args s = Some e"
    have "safe s (writeln ''Shutting down...'' s)" by (intro safe_intros kept_refl s)
    moreover have "kept s (outw p v s')" if "kept s s'" for p v s' using that by (simp add: kept_def outw_def)
    ultimately show "good_ending s e"
      using e kept_cli by (auto simp: cmd_shutdown_def shutdown_system_def halt_forever_def good_ending_def safe_def split: bind_splits)
  qed
  show "good_command cmd_exception" "good_command cmd_pagefault"
    by (auto simp: good_command_def good_ending_def cmd_exception_def cmd_pagefault_def trigger_divide_error_def
        trigger_page_fault_def kept_refl)
qed

lemma find_command_mem: "find_command w table = Some handler \<Longrightarrow> handler \<in> snd ` set table"
  by (induction table) (auto split: if_splits)

lemma good_table: "handler \<in> snd ` set command_table \<Longrightarrow> good_command handler"
  using good_text_commands good_file_commands good_machine_commands by (auto simp: command_table_def)

text \<open>C8. Whatever line is executed, with whatever arguments, contents of the disk and outcomes of its commands: when
  \<open>shell_execute\<close> goes on, the cursor is on the screen and the keyboard, the clock, the handles of the disks and the kernel behind
  the shell are as they were (interrupts may have been turned on); it stops or resets the machine only with interrupts
  off, and the exceptions it raises are 0 and 14.\<close>

theorem shell_execute_keeps:
  assumes "screen_ok (screen s)" "shell_execute input s = Some e"
  shows "good_ending s e"
proof (cases "input = []")
  case True
  have "safe s (writeln [] s)" by (intro safe_intros kept_refl assms(1))
  then show ?thesis using assms(2) True by (auto simp: shell_execute_def go_on_def good_ending_def safe_def)
next
  case False
  obtain w args where w: "split_command input = (w, args)" by fastforce
  have safe0: "safe s (writeln [] s)" by (intro safe_intros kept_refl assms(1))
  obtain s1 where s1: "writeln [] s = Some s1" using assms(2) False w by (auto simp: shell_execute_def split: bind_splits)
  then have k: "kept s s1" using safe0 by (simp add: safe_def)
  show ?thesis
  proof (cases "find_command w command_table")
    case None
    have "safe s (do {
        s \<leftarrow> terminal_write (bytes ''Unknown command: '') s1;
        s \<leftarrow> terminal_writeIn input s;
        s \<leftarrow> writeln [] s;
        s \<leftarrow> terminal_writeIn (bytes ''Type '' @ [0x22] @ bytes ''help'' @ [0x22] @ bytes '' for a list of available commands.'') s;
        writeln [] s })"
      by (intro safe_intros k)
    then show ?thesis using assms(2) False w s1 None
      by (auto simp: shell_execute_def go_on_def good_ending_def safe_def)
  next
    case (Some handler)
    then have "handler args s1 = Some e" using assms(2) False w s1 by (simp add: shell_execute_def)
    moreover have "good_command handler" using good_table find_command_mem [OF Some] .
    moreover have "screen_ok (screen s1)" using k by (simp add: kept_def)
    ultimately have "good_ending s1 e" by (simp add: good_command_def)
    then show ?thesis using k by (auto simp: good_ending_def kept_def split: ending.splits)
  qed
qed

theorem shell_execute_keeps_witness:
  "\<exists>s1. shell_execute (bytes ''pagefault'') (demo_system demo_keyboard) = Some (Trap 14 s1) \<and>
    kept (demo_system demo_keyboard) s1"
proof -
  let ?s = "demo_system demo_keyboard" and ?l = "bytes ''pagefault''"
  have s: "screen_ok (screen ?s)" by (simp add: screen_ok_def demo_system_def)
  then obtain s1 where s1: "writeln [] ?s = Some s1"
    using terminal_writeIn_printed [of ?s "bytes []"] by (auto simp: writeln_def)
  have "split_command ?l = (?l, [])" by (simp add: split_command_def copy_word_take bytes_def)
  moreover have "find_command ?l command_table = Some cmd_pagefault" by (simp add: command_table_def bytes_def)
  moreover have "?l \<noteq> []" by (simp add: bytes_def)
  ultimately have r: "shell_execute ?l ?s = Some (Trap 14 s1)"
    using s1 by (simp add: shell_execute_def cmd_pagefault_def trigger_page_fault_def)
  show ?thesis using r shell_execute_keeps [OF s r] by (simp add: good_ending_def)
qed

end
