(* ===== verification/ChainAlloc.thy ===== *)
theory ChainAlloc
  imports FileWrite HeapProps
begin

text \<open>
  \<open>fat32_allocate_cluster_chain\<close> of \<open>kernel/fs/fat32.c\<close>: it allocates the clusters one by one, links each to the one
  before, notes their numbers in an array on the kernel heap, and when an allocation or a link fails sets all of them
  free again. It has both states, the volume and the heap. A store into the array that leaves \<open>kernel_heap\<close> has no value
  (the size \<open>cluster_count * 4\<close> is a 32-bit product).
\<close>

section \<open>The function\<close>

definition heap_store :: "u32 \<Rightarrow> u32 \<Rightarrow> heap_t \<Rightarrow> heap_t option" where
  "heap_store addr v h = (if addr \<le> HEAP_SIZE - 4 then Some (put_word addr v h) else None)"

text \<open>The loop, for the clusters that are still to be allocated: the first cluster of the chain, or \<open>None\<close> for
  \<open>goto rollback\<close>, and the number of the clusters in the array.\<close>

fun chain_loop ::
  "disk_t option \<Rightarrow> u32 \<Rightarrow> nat \<Rightarrow> u32 \<Rightarrow> u32 \<Rightarrow> u32 \<Rightarrow> heap_t \<Rightarrow> 'a fat_state_scheme
   \<Rightarrow> (u32 option \<times> u32 \<times> heap_t \<times> 'a fat_state_scheme) option" where
  "chain_loop disk allocated 0 cnt first previous h w = Some (Some first, cnt, h, w)"
| "chain_loop disk allocated (Suc n) cnt first previous h w =
     (case fat32_allocate_cluster disk w of
        (new, w1) \<Rightarrow>
          if new = 0 then Some (None, cnt, h, w1)
          else do {
            h1 \<leftarrow> heap_store (allocated + 4 * cnt) new h;
            (linked, w2) \<leftarrow> Some (if previous \<noteq> 0 then fat32_write_fat_entry disk previous new w1 else (True, w1));
            if \<not> linked then Some (None, cnt + 1, h1, w2)
            else chain_loop disk allocated n (cnt + 1) (if first = 0 then new else first) new h1 w2
          })"

fun rollback :: "disk_t option \<Rightarrow> u32 \<Rightarrow> u32 \<Rightarrow> nat \<Rightarrow> heap_t \<Rightarrow> 'a fat_state_scheme \<Rightarrow> 'a fat_state_scheme" where
  "rollback disk allocated i 0 h w = w"
| "rollback disk allocated i (Suc n) h w =
     rollback disk allocated (i + 1) n h
       (snd (fat32_write_fat_entry disk (heap_words h (allocated + 4 * i)) FAT32_CLUSTER_FREE w))"

definition fat32_allocate_cluster_chain ::
  "disk_t option \<Rightarrow> u32 \<Rightarrow> heap_t \<Rightarrow> 'a fat_state_scheme \<Rightarrow> (u32 \<times> heap_t \<times> 'a fat_state_scheme) option" where
  "fat32_allocate_cluster_chain disk cluster_count h w =
     (if cluster_count = 0 then Some (0, h, w)
      else do {
        (p, h1) \<leftarrow> kmalloc (cluster_count * 4) h;
        (case p of
           None \<Rightarrow> Some (0, h1, w)
         | Some allocated \<Rightarrow> do {
             (r, cnt, h2, w1) \<leftarrow> chain_loop disk allocated (unat cluster_count) 0 0 0 h1 w;
             (case r of
                Some first \<Rightarrow> Some (first, kfree (Some allocated) h2, w1)
              | None \<Rightarrow> Some (0, kfree (Some allocated) h2, rollback disk allocated 0 (unat cnt) h2 w1))
           })
      })"

section \<open>The heap keeps its blocks\<close>

lemma blocks_from_cong:
  assumes "blocks_from h a bs" "heap_offset h' = heap_offset h"
    and "\<And>off sz fr. (off, sz, fr) \<in> set bs \<Longrightarrow> heap_words h' (of_nat off) = heap_words h (of_nat off) \<and>
      heap_words h' (of_nat off + 4) = heap_words h (of_nat off + 4)"
  shows "blocks_from h' a bs"
  using assms
proof (induction h a bs rule: blocks_from.induct)
  case (2 h a off sz fr bs)
  have "heap_words h' (of_nat a) = heap_words h (of_nat a)" "heap_words h' (of_nat a + 4) = heap_words h (of_nat a + 4)"
    using "2.prems"(1) "2.prems"(3) [of off sz fr] by simp_all
  moreover have "blocks_from h' (a + 8 + sz) bs" using 2 by auto
  ultimately show ?case using "2.prems"(1,2) by (simp add: block_size_def block_free_def)
qed simp

text \<open>The array of \<open>n\<close> words at \<open>p\<close> and the words around it.\<close>

definition array_at :: "u32 \<Rightarrow> nat \<Rightarrow> u32 set" where
  "array_at p n = (\<lambda>i. p + 4 * of_nat i) ` {..<n}"

lemma heap_ok_array:
  assumes ok: "heap_ok h bs" and b: "(off, sz, False) \<in> set bs" and n: "4 * n \<le> sz"
    and h': "heap_offset h' = heap_offset h" "\<And>a. a \<notin> array_at (payload off) n \<Longrightarrow> heap_words h' a = heap_words h a"
  shows "heap_ok h' bs"
proof -
  have bf: "blocks_from h 0 bs" and small: "unat (heap_offset h) \<le> 0x100000" using ok by (simp_all add: heap_ok_def)
  note m = blocks_from_mem [OF bf b]
  have "of_nat o2 \<notin> array_at (payload off) n \<and> of_nat o2 + 4 \<notin> array_at (payload off) n" if o2: "(o2, s2, f2) \<in> set bs" for o2 s2 f2
  proof -
    note m2 = blocks_from_mem [OF bf o2]
    have d: "o2 \<le> off \<or> off + 8 + sz \<le> o2"
      using blocks_from_disjoint [OF bf b o2] by auto
    have pay: "payload off + 4 * of_nat i = of_nat (off + 8 + 4 * i)" for i :: nat
      by (simp add: payload_def)
    have ne: "of_nat x \<noteq> (of_nat (off + 8 + 4 * i) :: u32)" if "i < n" "x < off + 8 \<or> off + 8 + sz \<le> x" "x \<le> 0x100000" for x i
    proof -
      have "x \<noteq> off + 8 + 4 * i" using that n by auto
      then show ?thesis using word_offset_eq [of x 0 "off + 8 + 4 * i" 0] that n m small by simp
    qed
    have o4: "o2 + 4 < off + 8 \<or> off + 8 + sz \<le> o2 + 4" "o2 < off + 8 \<or> off + 8 + sz \<le> o2" using d by auto
    have "of_nat o2 \<noteq> payload off + 4 * of_nat i \<and> of_nat o2 + 4 \<noteq> payload off + 4 * of_nat i" if "i < n" for i
      using ne [OF that o4(2)] ne [OF that o4(1)] m2 small unfolding pay by simp
    then show ?thesis by (auto simp: array_at_def)
  qed
  then have "blocks_from h' 0 bs" using h' by (intro blocks_from_cong [OF bf]) auto
  then show ?thesis using ok h'(1) by (simp add: heap_ok_def)
qed

section \<open>The loop\<close>

definition chain_or_empty :: "disk_t option \<Rightarrow> 'a fat_state_scheme \<Rightarrow> u32 list \<Rightarrow> bool" where
  "chain_or_empty disk w zs \<longleftrightarrow> zs = [] \<or> dir_chain disk w (hd zs) zs"

definition in_array :: "heap_t \<Rightarrow> u32 \<Rightarrow> u32 list \<Rightarrow> bool" where
  "in_array h p zs \<longleftrightarrow> (\<forall>i < length zs. heap_words h (p + 4 * of_nat i) = zs ! i)"

abbreviation first_of :: "u32 list \<Rightarrow> u32" where "first_of zs \<equiv> (if zs = [] then 0 else hd zs)"
abbreviation last_of :: "u32 list \<Rightarrow> u32" where "last_of zs \<equiv> (if zs = [] then 0 else last zs)"

lemma other_cluster_data:
  assumes "fat_ok disk w" "valid_cluster (fat32_fs w) d" "valid_cluster (fat32_fs w) x" "x \<noteq> d" "fat32_fs w' = fat32_fs w"
    and "\<And>lba. first_data_sector (fat32_fs w) \<le> lba \<Longrightarrow> \<not> in_cluster d w lba \<Longrightarrow> sec disk w' lba = sec disk w lba"
  shows "cluster_data disk w' x = cluster_data disk w x"
proof -
  have g: "geometry_ok disk (fat32_fs w)" using assms(1) by (simp add: fat_ok_def)
  have "sec disk w' l = sec disk w l" if "l \<in> set (cluster_lbas w x)" for l
    using cluster_lbas_ok [OF g assms(3) that] in_cluster_disjoint [OF g assms(2,3), of l] assms(4,6) by blast
  then have "map (sec disk w') (cluster_lbas w x) = map (sec disk w) (cluster_lbas w x)" by simp
  then show ?thesis by (simp only: cluster_data_def cluster_lbas_cong [OF assms(5)])
qed

text \<open>Linking a fresh cluster to the end of the chain.\<close>

lemma link_fresh:
  assumes ok: "fat_ok disk w" and ch: "chain_or_empty disk w zs" and free: "free_clusters disk w \<noteq> {}"
  shows "\<exists>d w1 w2. fat32_allocate_cluster disk w = (d, w1) \<and> d \<noteq> 0 \<and> d \<in> free_clusters disk w \<and>
    (if last_of zs \<noteq> 0 then fat32_write_fat_entry disk (last_of zs) d w1 else (True, w1)) = (True, w2) \<and>
    dir_chain disk w2 (hd (zs @ [d])) (zs @ [d]) \<and> only_clusters disk w w2 (set (zs @ [d])) \<and>
    cluster_data disk w2 d = replicate (cluster_size_of w) 0 \<and>
    (\<forall>x. valid_cluster (fat32_fs w) x \<longrightarrow> x \<noteq> d \<longrightarrow> cluster_data disk w2 x = cluster_data disk w x) \<and>
    free_clusters disk w2 = free_clusters disk w - {d}"
proof -
  let ?V = "valid_cluster (fat32_fs w)"
  from allocate_free [OF ok free] obtain d w1 where d: "fat32_allocate_cluster disk w = (d, w1)" "d \<noteq> 0"
    "d \<in> free_clusters disk w" "fat_ok disk w1" "fat32_fs w1 = fat32_fs w" "fat_state.more w1 = fat_state.more w"
    "\<forall>e. ?V e \<longrightarrow> fat disk w1 e = (if e = d then FAT32_CLUSTER_EOC else fat disk w e)"
    "\<forall>lba. first_data_sector (fat32_fs w) \<le> lba \<longrightarrow>
       sec disk w1 lba = (if in_cluster d w lba then replicate 512 0 else sec disk w lba)"
    by (elim exE conjE)
  have v: "?V d" "fat disk w d = 0" using d(3) by (simp_all add: free_clusters_def)
  have lt: "d < FAT32_CLUSTER_LAST"
    using v(1) ok by (auto simp: valid_cluster_def fat_ok_def geometry_ok_def word_less_nat_alt)
  show ?thesis
  proof (cases "zs = []")
    case True
    have "dir_chain disk w1 d [d]" using d(5,7) v by (simp add: dir_chain_def)
    moreover have "only_clusters disk w w1 {d}" using d by (simp add: only_clusters_def)
    moreover have "cluster_data disk w1 d = replicate (cluster_size_of w) 0"
      by (rule zero_cluster_data [OF ok v(1) d(5)]) (simp add: d(8))
    moreover have "\<forall>x. ?V x \<longrightarrow> x \<noteq> d \<longrightarrow> cluster_data disk w1 x = cluster_data disk w x"
      using d(8) by (intro allI impI other_cluster_data [OF ok v(1) _ _ d(5)]) auto
    moreover have "free_clusters disk w1 = free_clusters disk w - {d}"
      using d(5,7) by (auto simp: free_clusters_def split: if_splits)
    ultimately show ?thesis using True d(1-3) by auto
  next
    case False
    let ?l = "last zs"
    let ?w2 = "fat_put disk ?l d w1"
    have ch': "dir_chain disk w (hd zs) zs" using ch False by (simp add: chain_or_empty_def)
    note fc = ch' [unfolded dir_chain_def]
    have vl: "?V ?l" using dir_chain_valid [OF ch'] False by simp
    have l0: "?l \<noteq> 0" using vl by auto
    have dz: "d \<notin> set zs" using chain_not_free [OF ch'] d(3) by blast
    then have dl: "d \<noteq> ?l" using False by auto
    have vl1: "valid_cluster (fat32_fs w1) ?l" using vl d(5) by simp
    have ok2: "fat_ok disk ?w2" by (rule table.put_ok [OF d(4) vl1])
    have fs2: "fat32_fs ?w2 = fat32_fs w" "fat_state.more ?w2 = fat_state.more w" using d(5,6) by simp_all
    have "d < 2 ^ 28" using lt by (auto intro: less_trans)
    then have "d AND mask 28 = d" by (simp add: less_mask_eq)
    then have "d AND 0x0FFFFFFF = d" by (simp add: mask_eq_exp_minus_1)
    then have fat2: "fat disk ?w2 e = (if e = ?l then d else if e = d then FAT32_CLUSTER_EOC else fat disk w e)" if "?V e" for e
      using that table.put_entry [OF d(4) vl1, of e] d(5,7) by simp
    have sec2: "sec disk ?w2 lba = (if in_cluster d w lba then replicate 512 0 else sec disk w lba)"
      if "first_data_sector (fat32_fs w) \<le> lba" for lba
      using that sec_fat_put_data [OF d(4) vl1] d(5,8) by simp
    have "fat_chain (fat disk ?w2) ?V (hd zs) (zs @ [d])"
    proof (rule fat_chain_snoc [OF fc v(1) lt])
      show "FAT32_CLUSTER_LAST \<le> fat disk ?w2 d" "fat disk ?w2 ?l = d" using fat2 v(1) vl dl by simp_all
      fix x assume x: "x \<in> set (butlast zs)"
      then have "x \<in> set zs" by (rule in_set_butlastD)
      moreover have "x \<noteq> ?l"
        using fat_chain_distinct [OF fc] x False by (metis append_butlast_last_id distinct_butlast not_distinct_conv_prefix)
      ultimately show "fat disk ?w2 x = fat disk w x" using fat2 dz dir_chain_valid [OF ch'] by auto
    qed
    then have "dir_chain disk ?w2 (hd (zs @ [d])) (zs @ [d])" using False by (simp add: dir_chain_def d(5))
    moreover have "only_clusters disk w ?w2 (set (zs @ [d]))"
      using ok2 fs2 fat2 sec2 False by (auto simp: only_clusters_def)
    moreover have "cluster_data disk ?w2 d = replicate (cluster_size_of w) 0"
      by (rule zero_cluster_data [OF ok v(1) fs2(1)]) (simp add: sec2)
    moreover have "\<forall>x. ?V x \<longrightarrow> x \<noteq> d \<longrightarrow> cluster_data disk ?w2 x = cluster_data disk w x"
      using sec2 by (intro allI impI other_cluster_data [OF ok v(1) _ _ fs2(1)]) auto
    moreover have "free_clusters disk ?w2 = free_clusters disk w - {d}"
    proof (rule set_eqI)
      fix e show "e \<in> free_clusters disk ?w2 \<longleftrightarrow> e \<in> free_clusters disk w - {d}"
        using fat2 [of e] chain_not_free [OF ch', of ?l] False d(2) fs2(1)
        by (cases "e = d"; cases "e = ?l") (auto simp: free_clusters_def)
    qed
    moreover have "fat32_write_fat_entry disk ?l d w1 = (True, ?w2)" by (rule write_fat_put [OF d(4) vl1])
    ultimately show ?thesis using d(1-3) l0 False by (intro exI [of _ d] exI [of _ w1] exI [of _ ?w2]) simp
  qed
qed

lemma chain_loop_step:
  assumes "fat32_allocate_cluster disk w = (d, w1)" "d \<noteq> 0" "heap_store (allocated + 4 * cnt) d h = Some h1"
    and "(if previous \<noteq> 0 then fat32_write_fat_entry disk previous d w1 else (True, w1)) = (True, w2)"
  shows "chain_loop disk allocated (Suc n) cnt first previous h w =
    chain_loop disk allocated n (cnt + 1) (if first = 0 then d else first) d h1 w2"
  using assms by simp

lemma slot_address:
  assumes "unat p + 4 * n \<le> 0x100000" "i < n"
  shows "p + 4 * of_nat i \<le> HEAP_SIZE - 4" "j < n \<Longrightarrow> p + 4 * of_nat i = (p + 4 * of_nat j :: u32) \<longleftrightarrow> i = j"
proof -
  have u: "unat (p + 4 * of_nat k) = unat p + 4 * k" if "k < n" for k
  proof -
    have "4 * k < 2 ^ 32" using that assms(1) by simp
    then have "unat (4 * of_nat k :: u32) = 4 * k" by (simp add: unat_word_ariths unat_of_nat)
    then show ?thesis using that assms(1) by (subst unat_plus_small) simp_all
  qed
  show "p + 4 * of_nat i \<le> HEAP_SIZE - 4" using u [OF assms(2)] assms by (simp add: word_le_nat_alt)
  show "p + 4 * of_nat i = (p + 4 * of_nat j :: u32) \<longleftrightarrow> i = j" if "j < n"
    using u [OF assms(2)] u [OF that] by (metis add_left_cancel mult_left_cancel zero_neq_numeral)
qed

lemma in_array_snoc:
  assumes "in_array h p zs" "unat p + 4 * Suc (length zs) \<le> 0x100000"
  shows "in_array (put_word (p + 4 * of_nat (length zs)) d h) p (zs @ [d])"
proof -
  have "heap_words (put_word (p + 4 * of_nat (length zs)) d h) (p + 4 * of_nat i) = (zs @ [d]) ! i"
    if "i < Suc (length zs)" for i
    using that assms(1) slot_address(2) [OF assms(2) that, of "length zs"]
    by (auto simp: in_array_def put_word_def nth_append less_Suc_eq)
  then show ?thesis by (simp add: in_array_def)
qed

lemma chain_loop_ok:
  assumes "fat_ok disk w" "chain_or_empty disk w zs" "in_array h p zs" "unat p + 4 * (length zs + n) \<le> 0x100000"
  shows "\<exists>es h' w'. chain_loop disk p n (of_nat (length zs)) (first_of zs) (last_of zs) h w =
      Some (if length es = n then Some (first_of (zs @ es)) else None, of_nat (length (zs @ es)), h', w') \<and>
    length es = min n (card (free_clusters disk w)) \<and> set es \<subseteq> free_clusters disk w \<and>
    chain_or_empty disk w' (zs @ es) \<and> only_clusters disk w w' (set (zs @ es)) \<and>
    (\<forall>x. valid_cluster (fat32_fs w) x \<longrightarrow> cluster_data disk w' x =
       (if x \<in> set es then replicate (cluster_size_of w) 0 else cluster_data disk w x)) \<and>
    in_array h' p (zs @ es) \<and> heap_offset h' = heap_offset h \<and>
    (\<forall>a. a \<notin> array_at p (length zs + n) \<longrightarrow> heap_words h' a = heap_words h a)"
  using assms
proof (induction n arbitrary: zs h w)
  case 0
  then show ?case
    by (intro exI [of _ "[]"] exI [of _ h] exI [of _ w]) (auto intro: only_clusters_quiet)
next
  case (Suc n)
  note ok = Suc.prems(1)
  show ?case
  proof (cases "free_clusters disk w = {}")
    case True
    obtain w1 where w1: "fat32_allocate_cluster disk w = (0, w1)" "quiet w w1"
    proof -
      obtain c w1 where c: "fat32_allocate_cluster disk w = (c, w1)"
        "if c = 0 then (\<forall>d. valid_cluster (fat32_fs w) d \<longrightarrow> fat disk w d \<noteq> 0) \<and> quiet w w1
         else valid_cluster (fat32_fs w) c \<and> fat disk w c = 0"
        using allocate_cluster_ok [OF ok] by (elim exE conjE) (metis (no_types, lifting))
      then have "c = 0" using True by (auto simp: free_clusters_def split: if_splits)
      then show thesis using that [of w1] c by simp
    qed
    then show ?thesis
      using True Suc.prems dir_chain_quiet [OF w1(2)] only_clusters_quiet [OF ok w1(2)] cluster_data_quiet [OF w1(2)]
      by (intro exI [of _ "[]"] exI [of _ h] exI [of _ w1]) (auto simp: chain_or_empty_def)
  next
    case False
    obtain d w1 w2 where l: "fat32_allocate_cluster disk w = (d, w1)" "d \<noteq> 0" "d \<in> free_clusters disk w"
      "(if last_of zs \<noteq> 0 then fat32_write_fat_entry disk (last_of zs) d w1 else (True, w1)) = (True, w2)"
      "dir_chain disk w2 (hd (zs @ [d])) (zs @ [d])" "only_clusters disk w w2 (set (zs @ [d]))"
      "cluster_data disk w2 d = replicate (cluster_size_of w) 0"
      "\<forall>x. valid_cluster (fat32_fs w) x \<longrightarrow> x \<noteq> d \<longrightarrow> cluster_data disk w2 x = cluster_data disk w x"
      "free_clusters disk w2 = free_clusters disk w - {d}"
      using link_fresh [OF ok Suc.prems(2) False] by blast
    have ok2: "fat_ok disk w2" and fs2: "fat32_fs w2 = fat32_fs w" using l(6) by (simp_all add: only_clusters_def)
    let ?a = "p + 4 * of_nat (length zs)"
    let ?h = "put_word ?a d h"
    have st: "heap_store ?a d h = Some ?h"
      using slot_address(1) [OF Suc.prems(4), of "length zs"] by (simp add: heap_store_def)
    have arr: "in_array ?h p (zs @ [d])" by (rule in_array_snoc) (use Suc.prems(3,4) in simp_all)
    have "\<exists>es h' w'. chain_loop disk p n (of_nat (length (zs @ [d]))) (first_of (zs @ [d])) (last_of (zs @ [d])) ?h w2 =
        Some (if length es = n then Some (first_of ((zs @ [d]) @ es)) else None, of_nat (length ((zs @ [d]) @ es)), h', w') \<and>
      length es = min n (card (free_clusters disk w2)) \<and> set es \<subseteq> free_clusters disk w2 \<and>
      chain_or_empty disk w' ((zs @ [d]) @ es) \<and> only_clusters disk w2 w' (set ((zs @ [d]) @ es)) \<and>
      (\<forall>x. valid_cluster (fat32_fs w2) x \<longrightarrow> cluster_data disk w' x =
         (if x \<in> set es then replicate (cluster_size_of w2) 0 else cluster_data disk w2 x)) \<and>
      in_array h' p ((zs @ [d]) @ es) \<and> heap_offset h' = heap_offset ?h \<and>
      (\<forall>a. a \<notin> array_at p (length (zs @ [d]) + n) \<longrightarrow> heap_words h' a = heap_words ?h a)"
      by (rule Suc.IH [OF ok2 _ arr]) (use l(5) Suc.prems(4) in \<open>simp_all add: chain_or_empty_def\<close>)
    then obtain es h' w' where i: "chain_loop disk p n (of_nat (length (zs @ [d]))) (first_of (zs @ [d])) (last_of (zs @ [d])) ?h w2 =
        Some (if length es = n then Some (first_of (zs @ d # es)) else None, of_nat (length (zs @ d # es)), h', w')"
      "length es = min n (card (free_clusters disk w2))" "set es \<subseteq> free_clusters disk w2"
      "chain_or_empty disk w' (zs @ d # es)" "only_clusters disk w2 w' (set (zs @ d # es))"
      "\<forall>x. valid_cluster (fat32_fs w) x \<longrightarrow> cluster_data disk w' x =
         (if x \<in> set es then replicate (cluster_size_of w) 0 else cluster_data disk w2 x)"
      "in_array h' p (zs @ d # es)" "heap_offset h' = heap_offset h"
      "\<forall>a. a \<notin> array_at p (length zs + Suc n) \<longrightarrow> heap_words h' a = heap_words ?h a"
    proof -
      have eqs: "(zs @ [d]) @ es = zs @ d # es" "length (zs @ [d]) + n = length zs + Suc n" "heap_offset ?h = heap_offset h" for es
        by (simp_all add: put_word_def)
      show thesis using \<open>\<exists>es h' w'. _\<close> that unfolding fs2 eqs by blast
    qed
    have "chain_loop disk p (Suc n) (of_nat (length zs)) (first_of zs) (last_of zs) h w =
        Some (if length (d # es) = Suc n then Some (first_of (zs @ d # es)) else None, of_nat (length (zs @ d # es)), h', w')"
    proof -
      have f: "(if first_of zs = 0 then d else first_of zs) = first_of (zs @ [d])"
        using Suc.prems(2) dir_chain_nonzero by (auto simp: chain_or_empty_def)
      have c: "(of_nat (length zs) + 1 :: u32) = of_nat (length (zs @ [d]))" "last_of (zs @ [d]) = d" by simp_all
      have len: "(length (d # es) = Suc n) = (length es = n)" by simp
      show ?thesis unfolding chain_loop_step [OF l(1,2) st l(4)] f c(1) len using i(1) unfolding c(2) .
    qed
    moreover have "length (d # es) = min (Suc n) (card (free_clusters disk w))"
    proof -
      have "card (free_clusters disk w) = Suc (card (free_clusters disk w2))"
        unfolding l(9) using l(3) by (intro card.remove) simp_all
      then show ?thesis using i(2) by simp
    qed
    moreover have "only_clusters disk w w' (set (zs @ d # es))"
      by (rule only_clusters_trans [OF l(6) i(5)]) auto
    moreover have "\<forall>x. valid_cluster (fat32_fs w) x \<longrightarrow> cluster_data disk w' x =
         (if x \<in> set (d # es) then replicate (cluster_size_of w) 0 else cluster_data disk w x)"
      using i(6) l(7,8) by simp
    moreover have "\<forall>a. a \<notin> array_at p (length zs + Suc n) \<longrightarrow> heap_words h' a = heap_words h a"
      using i(9) by (auto simp: put_word_def array_at_def)
    moreover have "set (d # es) \<subseteq> free_clusters disk w" using i(3) l(3,9) by auto
    ultimately show ?thesis using i(4,7,8)
      by (intro exI [of _ "d # es"] exI [of _ h'] exI [of _ w'] conjI)
  qed
qed

section \<open>Giving up\<close>

lemma rollback_ok:
  assumes "fat_ok disk w" "\<forall>x \<in> set xs. valid_cluster (fat32_fs w) x"
    and "\<And>k. k < length xs \<Longrightarrow> heap_words h (p + 4 * (i + of_nat k)) = xs ! k"
  shows "same_data disk w (rollback disk p i (length xs) h w) \<and>
    (\<forall>e. valid_cluster (fat32_fs w) e \<longrightarrow>
       fat disk (rollback disk p i (length xs) h w) e = (if e \<in> set xs then FAT32_CLUSTER_FREE else fat disk w e))"
  using assms
proof (induction xs arbitrary: w i)
  case Nil
  then show ?case by (simp add: same_data_refl)
next
  case (Cons x xs)
  have x: "heap_words h (p + 4 * i) = x" using Cons.prems(3) [of 0] by simp
  have v: "valid_cluster (fat32_fs w) x" using Cons.prems(2) by simp
  let ?w = "fat_put disk x 0 w"
  have ok: "fat_ok disk ?w" by (rule table.put_ok [OF Cons.prems(1) v])
  have "heap_words h (p + 4 * (i + 1 + of_nat k)) = xs ! k" if "k < length xs" for k
    using Cons.prems(3) [of "Suc k"] that by (simp add: add.assoc)
  note ih = Cons.IH [OF ok _ this]
  have "rollback disk p i (length (x # xs)) h w = rollback disk p (i + 1) (length xs) h ?w"
    by (simp add: x write_fat_put [OF Cons.prems(1) v])
  then show ?case
    using ih Cons.prems(2) table.put_entry [OF Cons.prems(1) v] sec_fat_put_data [OF Cons.prems(1) v]
    by (simp add: same_data_def)
qed

lemma same_data_cluster:
  assumes "fat_ok disk w" "same_data disk w w'" "valid_cluster (fat32_fs w) x"
  shows "cluster_data disk w' x = cluster_data disk w x"
proof -
  have g: "geometry_ok disk (fat32_fs w)" using assms(1) by (simp add: fat_ok_def)
  have fs: "fat32_fs w' = fat32_fs w" using assms(2) by (simp add: same_data_def)
  have "map (sec disk w') (cluster_lbas w x) = map (sec disk w) (cluster_lbas w x)"
    using cluster_lbas_ok [OF g assms(3)] assms(2) by (simp add: same_data_def)
  then show ?thesis by (simp only: cluster_data_def cluster_lbas_cong [OF fs])
qed

section \<open>The allocated chain\<close>

definition heap_serves :: "nat \<Rightarrow> block list \<Rightarrow> bool" where
  "heap_serves n bs \<longleftrightarrow> fst (alloc_blocks (rounded n) bs) \<noteq> None"

text \<open>C36. Allocating a chain of clusters, whose list takes at most \<open>0x100000\<close> bytes, is all or nothing: when the heap has room for the list of cluster numbers and
  the volume has as many free clusters as asked for, the result is the first cluster of a chain of exactly that many
  zeroed clusters, all of them free before, and no other cluster has changed; otherwise the result is 0 and every
  entry of the table is as before. In both cases the heap is well-formed and has the same blocks in use.\<close>

theorem allocate_cluster_chain_all_or_nothing:
  assumes "fat_ok disk w" "heap_ok h bs" "0 < n" "4 * unat n \<le> 0x100000"
  shows "\<exists>r h' w' bs'. fat32_allocate_cluster_chain disk n h w = Some (r, h', w') \<and> heap_ok h' bs' \<and> used bs' = used bs \<and>
    (if heap_serves (4 * unat n) bs \<and> unat n \<le> card (free_clusters disk w)
     then (\<exists>zs. dir_chain disk w' r zs \<and> length zs = unat n \<and> set zs \<subseteq> free_clusters disk w \<and>
       only_clusters disk w w' (set zs) \<and> chain_data disk w' zs = replicate (cluster_size_of w * unat n) 0)
     else r = 0 \<and> (\<forall>d. valid_cluster (fat32_fs w) d \<longrightarrow> fat disk w' d = fat disk w d \<and>
       (fat disk w d \<noteq> FAT32_CLUSTER_FREE \<longrightarrow> cluster_data disk w' d = cluster_data disk w d)))"
proof -
  have un: "unat (n * 4) = 4 * unat n" using assms(4) by (simp add: unat_word_ariths)
  have n0: "n \<noteq> 0" "0 < unat n" using assms(3) by (auto simp: word_less_nat_alt)
  obtain got bs1 where spec: "alloc_blocks (rounded (4 * unat n)) bs = (got, bs1)" by fastforce
  obtain h1 where h1: "kmalloc (n * 4) h = Some (map_option payload got, h1)" "heap_ok h1 bs1"
    using kmalloc_refines [OF assms(2), of "n * 4"] spec un assms(4) n0(2) by auto
  show ?thesis
  proof (cases got)
    case None
    then have "bs1 = bs" using spec by (auto simp: alloc_blocks_def split: option.splits if_splits)
    moreover have "fat32_allocate_cluster_chain disk n h w = Some (0, h1, w)"
      using h1(1) None n0(1) by (simp add: fat32_allocate_cluster_chain_def)
    ultimately show ?thesis using h1(2) spec None
      by (intro exI [of _ 0] exI [of _ h1] exI [of _ w] exI [of _ bs]) (simp add: heap_serves_def)
  next
    case (Some off)
    note u = alloc_blocks_used [OF assms(2) spec [unfolded Some]]
    obtain sz where sz: "rounded (4 * unat n) \<le> sz" "(off, sz, False) \<in> set bs1" using u by blast
    have big: "4 * unat n \<le> sz" using sz(1) by (simp add: rounded_def)
    let ?p = "payload off"
    have p: "unat ?p = off + 8" using u by (simp add: payload_def unat_word_ariths unat_of_nat)
    have room: "unat ?p + 4 * (length ([] :: u32 list) + unat n) \<le> 0x100000"
      using heap_block_range [OF h1(2) sz(2)] p big by simp
    have "\<exists>es h' w'. chain_loop disk ?p (unat n) (of_nat (length ([] :: u32 list))) (first_of []) (last_of []) h1 w =
        Some (if length es = unat n then Some (first_of ([] @ es)) else None, of_nat (length ([] @ es)), h', w') \<and>
      length es = min (unat n) (card (free_clusters disk w)) \<and> set es \<subseteq> free_clusters disk w \<and>
      chain_or_empty disk w' ([] @ es) \<and> only_clusters disk w w' (set ([] @ es)) \<and>
      (\<forall>x. valid_cluster (fat32_fs w) x \<longrightarrow> cluster_data disk w' x =
         (if x \<in> set es then replicate (cluster_size_of w) 0 else cluster_data disk w x)) \<and>
      in_array h' ?p ([] @ es) \<and> heap_offset h' = heap_offset h1 \<and>
      (\<forall>a. a \<notin> array_at ?p (length ([] :: u32 list) + unat n) \<longrightarrow> heap_words h' a = heap_words h1 a)"
      by (rule chain_loop_ok [OF assms(1) _ _ room]) (simp_all add: chain_or_empty_def in_array_def)
    then obtain es h2 w2 where l: "chain_loop disk ?p (unat n) 0 0 0 h1 w =
        Some (if length es = unat n then Some (first_of es) else None, of_nat (length es), h2, w2)"
      "length es = min (unat n) (card (free_clusters disk w))" "set es \<subseteq> free_clusters disk w"
      "chain_or_empty disk w2 es" "only_clusters disk w w2 (set es)"
      "\<forall>x. valid_cluster (fat32_fs w) x \<longrightarrow> cluster_data disk w2 x =
         (if x \<in> set es then replicate (cluster_size_of w) 0 else cluster_data disk w x)"
      "in_array h2 ?p es" "heap_offset h2 = heap_offset h1"
      "\<forall>a. a \<notin> array_at ?p (unat n) \<longrightarrow> heap_words h2 a = heap_words h1 a"
      by auto
    have h2: "heap_ok h2 bs1" by (rule heap_ok_array [OF h1(2) sz(2) big l(8)]) (use l(9) in blast)
    have h3: "heap_ok (kfree (Some ?p) h2) (set_free off True bs1)" by (rule kfree_refines [OF h2 sz(2)])
    have used: "used (set_free off True bs1) = used bs" using u by (simp add: used_set_free_True)
    have serves: "heap_serves (4 * unat n) bs" using spec Some by (simp add: heap_serves_def)
    show ?thesis
    proof (cases "length es = unat n")
      case True
      then have ne: "es \<noteq> []" using n0(2) by auto
      have run: "fat32_allocate_cluster_chain disk n h w = Some (hd es, kfree (Some ?p) h2, w2)"
        using h1(1) Some n0(1) l(1) True ne by (simp add: fat32_allocate_cluster_chain_def)
      have "cluster_data disk w2 x = replicate (cluster_size_of w) 0" if "x \<in> set es" for x
      proof -
        have "valid_cluster (fat32_fs w) x" using l(3) that by (auto simp: free_clusters_def)
        then show ?thesis using l(6) that by simp
      qed
      then have "chain_data disk w2 es = concat (map (\<lambda>_. replicate (cluster_size_of w) 0) es)"
        by (simp add: chain_data_def cong: map_cong)
      also have "\<dots> = replicate (cluster_size_of w * unat n) 0"
        unfolding True [symmetric] by (induction es) (simp_all add: replicate_add)
      finally have zero: "chain_data disk w2 es = replicate (cluster_size_of w * unat n) 0" .
      have "unat n \<le> card (free_clusters disk w)" using l(2) True by simp
      then show ?thesis using run h3 used serves True l(3,4,5) ne zero
        by (intro exI [of _ "hd es"] exI [of _ "kfree (Some ?p) h2"] exI [of _ w2] exI [of _ "set_free off True bs1"])
          (auto simp: chain_or_empty_def)
    next
      case False
      let ?w = "rollback disk ?p 0 (length es) h2 w2"
      have ok2: "fat_ok disk w2" and fs2: "fat32_fs w2 = fat32_fs w" using l(5) by (simp_all add: only_clusters_def)
      have v: "\<forall>x \<in> set es. valid_cluster (fat32_fs w2) x" using l(3) by (auto simp: free_clusters_def fs2)
      have "length es < 2 ^ 32" using l(2) unat_u32_less [of n] by simp
      then have len: "unat (of_nat (length es) :: u32) = length es" by (simp add: unat_of_nat)
      have run: "fat32_allocate_cluster_chain disk n h w = Some (0, kfree (Some ?p) h2, ?w)"
        using h1(1) Some n0(1) l(1) False len by (simp add: fat32_allocate_cluster_chain_def)
      have rb: "same_data disk w2 ?w \<and> (\<forall>e. valid_cluster (fat32_fs w2) e \<longrightarrow>
          fat disk ?w e = (if e \<in> set es then FAT32_CLUSTER_FREE else fat disk w2 e))"
        by (rule rollback_ok [OF ok2 v]) (use l(7) in \<open>simp add: in_array_def\<close>)
      have same: "fat disk ?w d = fat disk w d" if "valid_cluster (fat32_fs w) d" for d
        using rb that l(3,5) by (auto simp: fs2 free_clusters_def only_clusters_def)
      have data: "cluster_data disk ?w d = cluster_data disk w d"
        if "valid_cluster (fat32_fs w) d" "fat disk w d \<noteq> FAT32_CLUSTER_FREE" for d
      proof -
        have "d \<notin> set es" using l(3) that by (auto simp: free_clusters_def)
        then have "cluster_data disk w2 d = cluster_data disk w d" using l(6) that(1) by simp
        moreover have "cluster_data disk ?w d = cluster_data disk w2 d"
          using same_data_cluster [OF ok2] rb that(1) fs2 by simp
        ultimately show ?thesis by simp
      qed
      have "\<not> unat n \<le> card (free_clusters disk w)" using l(2) False by simp
      then show ?thesis using run h3 used same data
        by (intro exI [of _ 0] exI [of _ "kfree (Some ?p) h2"] exI [of _ ?w] exI [of _ "set_free off True bs1"]) auto
    qed
  qed
qed

theorem allocate_cluster_chain_all_or_nothing_witness:
  "(\<exists>r h' w' zs. fat32_allocate_cluster_chain demo_disk 3 demo_heap demo_fat = Some (r, h', w') \<and>
      dir_chain demo_disk w' r zs \<and> length zs = 3) \<and>
   (\<exists>h' w'. fat32_allocate_cluster_chain demo_disk 9 demo_heap demo_fat = Some (0, h', w') \<and> fat demo_disk w' 4 = 6)"
proof -
  note t = allocate_cluster_chain_all_or_nothing [OF demo_ok demo_heap_ok]
  have s: "heap_serves 12 [(0, 16, True), (24, 32, False)]" by (simp add: heap_serves_def alloc_blocks_def rounded_def)
  have "{3, 5, 7} \<subseteq> free_clusters demo_disk demo_fat" by (simp add: free_clusters_def demo_valid)
  then have "card {3, 5, 7 :: u32} \<le> card (free_clusters demo_disk demo_fat)" by (intro card_mono) simp_all
  then have c3: "3 \<le> card (free_clusters demo_disk demo_fat)" by simp
  have "free_clusters demo_disk demo_fat \<subseteq> of_nat ` {2..<10}"
  proof
    fix c assume "c \<in> free_clusters demo_disk demo_fat"
    then have "2 \<le> unat c" "unat c < 10" by (simp_all add: free_clusters_def demo_valid)
    then show "c \<in> of_nat ` {2..<10}" by (intro image_eqI [of _ _ "unat c"]) simp_all
  qed
  then have "card (free_clusters demo_disk demo_fat) \<le> card (of_nat ` {2..<10} :: u32 set)" by (intro card_mono) simp_all
  also have "\<dots> \<le> 8" using card_image_le [of "{2..<10 :: nat}" "of_nat :: nat \<Rightarrow> u32"] by simp
  finally have c9: "\<not> 9 \<le> card (free_clusters demo_disk demo_fat)" by simp
  show ?thesis using t [of 3] t [of 9] s c3 c9 by (fastforce simp: demo_valid)
qed

end
