(* ===== verification/SelfTests.thy ===== *)
theory SelfTests
  imports KernelUp
begin

text \<open>
  Self tests of the kernel as programs over the modelled operations: \<open>protected_resource_test\<close> of
  \<open>kernel/process/protected_resource_test.c\<close>, and the test of blocking in \<open>kernel/process/thread.c\<close>
  with the statements of its two threads, which run interleaved with timer ticks. The booted kernel passes
  both.
\<close>

section \<open>Protected resources\<close>

definition on_kernel :: "(kstate \<Rightarrow> kstate option) \<Rightarrow> system \<Rightarrow> system option" where
  "on_kernel f s = do { k \<leftarrow> f (kern s); Some (s\<lparr>kern := k\<rparr>) }"

definition free_frames_now :: "system \<Rightarrow> u32 option" where
  "free_frames_now s = pmm_free_frames (pmm (mm (kern s)))"

definition protected_threads :: "system \<Rightarrow> system option" where
  "protected_threads s =
     (let bootstrap = thread_current (kern s); idle = thread_idle (kern s)
      in do {
        s \<leftarrow> on_kernel (thread_destroy bootstrap) s;
        s \<leftarrow> on_kernel (thread_destroy idle) s;
        if thread_current (kern s) \<noteq> bootstrap then writeln ''Bootstrap thread protection: FAILED.'' s
        else if thread_idle (kern s) \<noteq> idle then writeln ''Idle thread protection: FAILED.'' s
        else do {
          s \<leftarrow> writeln ''Kernel process protection: OK.'' s;
          s \<leftarrow> writeln ''Kernel address-space protection: OK.'' s;
          s \<leftarrow> writeln ''Kernel PMM protection: OK.'' s;
          s \<leftarrow> writeln ''Bootstrap thread protection: OK.'' s;
          s \<leftarrow> terminal_writeIn (bytes ''Idle thread protection: OK.'' @ [0x0A]) s;
          s \<leftarrow> writeln ''==============================================='' s;
          s \<leftarrow> writeln ''        PROTECTED RESOURCE TEST: PASSED'' s;
          writeln ''==============================================='' s
        }
      })"

definition protected_space :: "ref option \<Rightarrow> u32 \<Rightarrow> system \<Rightarrow> system option" where
  "protected_space kspace before s = do {
     s \<leftarrow> on_kernel (k_destroy_space kspace) s;
     found \<leftarrow> process_find 0 (kern s);
     if found = None then writeln ''Protected resource test: kernel process disappeared.'' s
     else if address_space_current (mm (kern s)) \<noteq> kspace
     then writeln ''Protected resource test: kernel address space destroyed.'' s
     else do {
       after \<leftarrow> free_frames_now s;
       if after \<noteq> before then writeln ''Protected resource test: kernel address space destruction changed PMM.'' s
       else protected_threads s
     }
   }"

definition protected_exit :: "u32 \<Rightarrow> ref option \<Rightarrow> u32 \<Rightarrow> system \<Rightarrow> system option" where
  "protected_exit p kspace before s = do {
     s \<leftarrow> on_kernel (process_exit (Some p)) s;
     if p_state (processes (kern s) p) \<noteq> PROCESS_RUNNING
     then writeln ''Protected resource test: kernel process was terminated.'' s
     else if address_space_current (mm (kern s)) \<noteq> kspace
     then writeln ''Protected resource test: address space changed.'' s
     else do {
       after \<leftarrow> free_frames_now s;
       if after \<noteq> before then writeln ''Protected resource test: kernel exit changed PMM.'' s
       else protected_space kspace before s
     }
   }"

definition protected_destroy :: "u32 \<Rightarrow> ref option \<Rightarrow> u32 \<Rightarrow> system \<Rightarrow> system option" where
  "protected_destroy p kspace before s = do {
     s \<leftarrow> on_kernel (process_destroy (Some p)) s;
     if process_current (kern s) \<noteq> Some p
     then writeln ''Protected resource test: current kernel process changed.'' s
     else if p_state (processes (kern s) p) \<noteq> PROCESS_RUNNING
     then writeln ''Protected resource test: kernel process state changed.'' s
     else if p_address_space (processes (kern s) p) \<noteq> kspace
     then writeln ''Protected resource test: kernel address space changed.'' s
     else do {
       found \<leftarrow> process_find 0 (kern s);
       if found \<noteq> Some p
       then writeln ''Protected resource test: kernel process missing from process list.'' s
       else if p_address_space (processes (kern s) p) \<noteq> kspace
       then writeln ''Protected resource test: kernel address space changed.'' s
       else do {
         after \<leftarrow> free_frames_now s;
         if after \<noteq> before then writeln ''Protected resource test: kernel destruction changed PMM.'' s
         else protected_exit p kspace before s
       }
     }
   }"

definition protected_resource_test :: "system \<Rightarrow> system option" where
  "protected_resource_test s = do {
     s \<leftarrow> writeln ''Protected resource test started.'' s;
     found \<leftarrow> process_find 0 (kern s);
     (case found of
        None \<Rightarrow> writeln ''Protected resources test: kernel process NOT FOUND.'' s
      | Some p \<Rightarrow>
          let kspace = p_address_space (processes (kern s) p)
          in if kspace = None then writeln ''Protected resources test: kernel address space missing.'' s
             else do {
               before \<leftarrow> free_frames_now s;
               protected_destroy p kspace before s
             })
   }"

definition passed_lines :: "u8 list list" where
  "passed_lines = map bytes [''Kernel process protection: OK.'', ''Kernel address-space protection: OK.'',
     ''Kernel PMM protection: OK.'', ''Bootstrap thread protection: OK.''] @ [bytes ''Idle thread protection: OK.'' @ [0x0A]] @
     map bytes [''==============================================='', ''        PROTECTED RESOURCE TEST: PASSED'',
       ''==============================================='']"

lemma write_lines_fun:
  "write_lines (l # ls) = (\<lambda>s :: system. do { s \<leftarrow> terminal_writeIn l s; write_lines ls s })" "write_lines [] = (Some :: system \<Rightarrow> _)"
  by (rule ext, simp)+

lemma write_lines_printed:
  fixes s :: system
  assumes "screen_ok (screen s)"
  shows "\<exists>s'. write_lines ls s = Some s' \<and> printed (lines_text ls) s s'"
  unfolding write_lines_text by (rule terminal_write_printed [OF assms])

text \<open>The kernel's own resources: what \<open>up_and_running\<close> says of them.\<close>

lemma find_head: "proc_list k (p # ps) \<Longrightarrow> pid (processes k p) = n \<Longrightarrow> process_find n k = Some (Some p)"
  by (simp add: proc_list_def queue_of_def process_find_def find_process.simps)

lemma kernel_resources:
  assumes "up_and_running lay s"
  obtains R ts k a where "kernel_process (kern s) = Some k" "idle_thread_instance (kern s) = Some (Dyn a)"
    "current_process (kern s) = Some k" "p_state (processes (kern s) k) = PROCESS_RUNNING" "space_of (kern s) k = Some Static"
    "current_address_space (mm (kern s)) = Some Static" "process_find 0 (kern s) = Some (Some k)"
    "between lay R {a} [] ts [k] (kern s)" "running Static {a} [] (kern s)" "screen_ok (screen s)"
proof -
  obtain k a where u: "kernel_process (kern s) = Some k" "idle_thread_instance (kern s) = Some (Dyn a)" "machine_inv lay ({a}, s)"
    "current_thread (kern s) = Some Static" "ready (kern s) []" "proc_list (kern s) [k]" "pid (processes (kern s) k) = 0"
    using assms by (auto simp: up_and_running_def)
  have "kernel_inv lay ({a}, kern s)" using u(3) by (simp add: machine_inv_def)
  then obtain R rs ts ps c where b: "between lay R {a} rs ts ps (kern s)" "running c {a} rs (kern s)" by (rule kernel_invE)
  have "ready (kern s) rs" "proc_list (kern s) ps" using b(1) by (simp_all only: between_def states_ok_def)
  then have e: "rs = []" "ps = [k]" using u(5) proc_list_unique [OF u(6)] by (auto simp: ready_def queue_of_def)
  have c: "c = Static" using b(2) u(4) by (simp add: running_def)
  have s: "space_of (kern s) k = Some Static" "p_state (processes (kern s) k) = PROCESS_RUNNING"
    using b(1) u(1) unfolding e by (simp_all add: between_def spaces_ok_def)
  have "process_of (kern s) Static = Some k" using b(1) u(1) by (simp add: between_def members_ok_def)
  then have "current_process (kern s) = Some k" "current_address_space (mm (kern s)) = Some Static"
    using b(2) s(1) unfolding c by (auto simp: running_def place_ok_def)
  then show thesis
    using that [of k a R ts] u s b find_head [OF u(6,7)] unfolding e c by (simp add: machine_inv_def)
qed

lemma on_kernel_same: "f (kern s) = Some (kern s) \<Longrightarrow> on_kernel f s = Some s"
  by (simp add: on_kernel_def)

lemma protected_threads_passes:
  assumes "idle_thread_instance (kern s) \<noteq> None"
  shows "protected_threads s = write_lines passed_lines s"
proof -
  have "thread_destroy (thread_current (kern s)) (kern s) = Some (kern s)" "thread_destroy (thread_idle (kern s)) (kern s) = Some (kern s)"
    by (simp_all add: thread_destroy_def thread_current_def thread_idle_def split: option.splits)
  then have "on_kernel (thread_destroy (thread_current (kern s))) s = Some s" "on_kernel (thread_destroy (thread_idle (kern s))) s = Some s"
    by (simp_all add: on_kernel_def)
  then show ?thesis
    unfolding passed_lines_def list.map append.simps write_lines_fun by (simp add: protected_threads_def Let_def writeln_def [abs_def])
qed

lemma protected_passes:
  assumes "kernel_process (kern s) = Some k" "idle_thread_instance (kern s) \<noteq> None" "current_process (kern s) = Some k"
    "p_state (processes (kern s) k) = PROCESS_RUNNING" "p_address_space (processes (kern s) k) = Some Static"
    "current_address_space (mm (kern s)) = Some Static" "process_find 0 (kern s) = Some (Some k)" "free_frames_now s = Some n"
  shows "protected_space (Some Static) n s = write_lines passed_lines s" "protected_exit k (Some Static) n s = write_lines passed_lines s"
    "protected_destroy k (Some Static) n s = write_lines passed_lines s"
proof -
  have d: "k_destroy_space (Some Static) (kern s) = Some (kern s)" by (simp add: k_destroy_space_def address_space_destroy_def)
  show 1: "protected_space (Some Static) n s = write_lines passed_lines s"
    using assms by (simp add: protected_space_def on_kernel_same [of "k_destroy_space (Some Static)", OF d] address_space_current_def protected_threads_passes)
  have e: "process_exit (Some k) (kern s) = Some (kern s)" using assms(1) by (simp add: process_exit_def)
  show 2: "protected_exit k (Some Static) n s = write_lines passed_lines s"
    using assms 1 by (simp add: protected_exit_def on_kernel_same [of "process_exit (Some k)", OF e] address_space_current_def)
  have d: "process_destroy (Some k) (kern s) = Some (kern s)" using assms(1) by (simp add: process_destroy_def)
  show "protected_destroy k (Some Static) n s = write_lines passed_lines s"
    using assms 2 by (simp add: protected_destroy_def on_kernel_same [of "process_destroy (Some k)", OF d] process_current_def)
qed

text \<open>C10. The kernel passes its own test of protected resources: after the boot, \<open>protected_resource_test\<close>, which tries
  to destroy and to exit the kernel process and to destroy its address space, the bootstrap and the idle thread,
  returns, leaves everything but the output as it was - the invariant of the machine included - and prints
  that each protection holds and that the test has passed.\<close>

theorem protected_resource_test_passes:
  assumes "up_and_running lay s"
  shows "\<exists>s'. protected_resource_test s = Some s' \<and> console.more s' = console.more s \<and> up_and_running lay s' \<and>
    printed (lines_text (bytes ''Protected resource test started.'' # passed_lines)) s s'"
proof -
  from assms obtain R ts k a where k: "kernel_process (kern s) = Some k" "idle_thread_instance (kern s) = Some (Dyn a)"
    "current_process (kern s) = Some k" "p_state (processes (kern s) k) = PROCESS_RUNNING" "space_of (kern s) k = Some Static"
    "current_address_space (mm (kern s)) = Some Static" "process_find 0 (kern s) = Some (Some k)"
    "between lay R {a} [] ts [k] (kern s)" "running Static {a} [] (kern s)" "screen_ok (screen s)" by (rule kernel_resources)
  have "pmm_ok (pmm (mm (kern s)))" using k(8) by (simp add: between_def vm_ok_def)
  then obtain n where n: "free_frames_now s = Some n" unfolding free_frames_now_def using pmm_free_frames_ok by (auto simp: pmm_ok_def)
  obtain s1 where s1: "writeln ''Protected resource test started.'' s = Some s1"
    "printed (bytes ''Protected resource test started.'' @ [0x0A]) s s1"
    using terminal_writeIn_printed [OF k(10)] unfolding writeln_def by blast
  have m1: "kern s1 = kern s" "screen_ok (screen s1)" using printed_keep [OF s1(2)] by auto
  obtain s2 where s2: "write_lines passed_lines s1 = Some s2" "printed (lines_text passed_lines) s1 s2"
    using write_lines_printed [OF m1(2)] by blast
  have "protected_destroy k (Some Static) n s1 = Some s2"
    unfolding s2(1) [symmetric] by (rule protected_passes(3)) (use k n m1 in \<open>auto simp: space_of_def free_frames_now_def\<close>)
  then have run: "protected_resource_test s = Some s2"
    using s1(1) k(5,7) m1(1) n by (simp add: protected_resource_test_def space_of_def free_frames_now_def)
  have p: "printed (lines_text (bytes ''Protected resource test started.'' # passed_lines)) s s2"
    using printed_trans [OF s1(2) s2(2)] by (simp add: lines_text_def)
  then have "console.more s2 = console.more s" "screen_ok (screen s2)" by (simp_all add: printed_def)
  then show ?thesis using run p up_and_running_more [OF assms] by blast
qed

lemma demo_boots: "\<exists>b'. kernel_boot demo_platform 0x2BADB002 demo_info demo_cold = Some (Go_On_With b') \<and> up_and_running demo_layout (sys b')"
proof -
  have c: "cold demo_cold" by (simp add: cold_def demo_cold_def demo_system_def)
  have d: "drive_answers (hardware (sys demo_cold)) ch d (ch = ATA_PRIMARY \<and> d = ATA_MASTER)" for ch d
    using demo_ide_answers by (simp add: demo_cold_def demo_system_def)
  have p: "pf_layout demo_platform = demo_layout" "pf_idle_entry demo_platform \<noteq> 0" by (simp_all add: demo_platform_def)
  show ?thesis
    using kernel_boot_run [OF c demo_loaded refl _ p(2) d, unfolded p(1), OF demo_bootable]
    by (elim exE conjE, intro exI conjI) assumption+
qed

theorem protected_resource_test_passes_witness:
  "\<exists>b' s'. kernel_boot demo_platform 0x2BADB002 demo_info demo_cold = Some (Go_On_With b') \<and>
     protected_resource_test (sys b') = Some s' \<and> kern s' = kern (sys b')"
proof -
  obtain b' where b: "kernel_boot demo_platform 0x2BADB002 demo_info demo_cold = Some (Go_On_With b')"
    "up_and_running demo_layout (sys b')" using demo_boots by blast
  obtain s' where "protected_resource_test (sys b') = Some s'" "console.more s' = console.more (sys b')"
    using protected_resource_test_passes [OF b(2)] by blast
  then show ?thesis using b(1) system_more(1) by blast
qed

section \<open>The test of blocking\<close>

text \<open>
  \<open>thread_blocking_test_start\<close> creates two threads and queues them. Where a thread stands in the code of the test
  is its \<open>place\<close>: the number of the next statement of \<open>blocking_thread\<close> or \<open>blocking_test_controller\<close>, or
  \<open>Elsewhere\<close> for code that is not of the test. A thread that has been switched away from goes on at its place
  when it runs again. \<open>be\<close> and \<open>ce\<close> are the addresses of the two functions.
\<close>

datatype place = Blocking nat | Controller nat | Elsewhere

record blocking_test =
  host :: system
  places :: "ref \<Rightarrow> place"
  blocking_test_target :: "ref option"
  blocking_test_resumed :: u32
  blocking_test_paused :: u32
  blocking_test_complete :: u32
  blocking_test_passed :: u32

definition c_string :: "string \<Rightarrow> nat \<Rightarrow> u8" where
  "c_string str i = (if i < length (bytes str) then bytes str ! i else 0)"

definition on_host :: "(system \<Rightarrow> system option) \<Rightarrow> blocking_test \<Rightarrow> blocking_test option" where
  "on_host f w = do { s \<leftarrow> f (host w); Some (w\<lparr>host := s\<rparr>) }"

definition in_kernel :: "(kstate \<Rightarrow> kstate option) \<Rightarrow> blocking_test \<Rightarrow> blocking_test option" where
  "in_kernel f = on_host (on_kernel f)"

definition destroy_made :: "ref option \<Rightarrow> kstate \<Rightarrow> kstate option" where
  "destroy_made t k = (if t \<noteq> None then thread_destroy t k else Some k)"

definition thread_blocking_test_start :: "u32 \<Rightarrow> u32 \<Rightarrow> blocking_test \<Rightarrow> blocking_test option" where
  "thread_blocking_test_start be ce w =
     (let w = w\<lparr>blocking_test_target := None, blocking_test_resumed := 0, blocking_test_paused := 0,
                blocking_test_complete := 0, blocking_test_passed := 0\<rparr>
      in do {
        (blocked, k) \<leftarrow> thread_create be (Some (c_string ''Blocked'')) (kern (host w));
        (controller, k) \<leftarrow> thread_create ce (Some (c_string ''Controller'')) k;
        let w = w\<lparr>host := (host w)\<lparr>kern := k\<rparr>\<rparr>
        in case (blocked, controller) of
             (Some b, Some c) \<Rightarrow>
               let w = w\<lparr>places := (places w)(b := Blocking 0, c := Controller 0), blocking_test_target := blocked\<rparr>
               in do {
                 w \<leftarrow> in_kernel (\<lambda>k. Some (thread_enqueue controller (thread_enqueue blocked k))) w;
                 on_host (writeln ''Blocking test threads queued.'') w
               }
           | _ \<Rightarrow> do {
               w \<leftarrow> in_kernel (destroy_made blocked) w;
               w \<leftarrow> in_kernel (destroy_made controller) w;
               on_host (writeln ''Blocking test: thread creation failed.'') w
             }
      })"

definition blocking_thread :: "nat \<Rightarrow> blocking_test \<Rightarrow> (nat \<times> blocking_test) option" where
  "blocking_thread n w =
     (if n = 0 then map_option (Pair 1) (on_host (writeln ''Blocking thread started.'') w)
      else if n = 1 then map_option (Pair 2) (in_kernel thread_block w)
      else if n = 2 then map_option (Pair 3) (on_host (writeln ''Blocking thread resumed.'') w)
      else if n = 3 then Some (4, w\<lparr>blocking_test_resumed := 1\<rparr>)
      else if n = 4 then map_option (Pair 5) (in_kernel thread_terminate w)
      else map_option (Pair n) (in_kernel thread_yield w))"

definition blocking_test_controller :: "nat \<Rightarrow> blocking_test \<Rightarrow> (nat \<times> blocking_test) option" where
  "blocking_test_controller n w =
     (if n = 0 then map_option (Pair 1) (on_host (writeln ''Controller thread started.'') w)
      else if n = 1
      then if blocking_test_target w = None then map_option (Pair 1) (in_kernel thread_yield w) else Some (2, w)
      else if n = 2
      then (case blocking_test_target w of
              None \<Rightarrow> None
            | Some t \<Rightarrow> if t_state (threads (kern (host w)) t) \<noteq> THREAD_BLOCKED
                       then map_option (Pair 2) (in_kernel thread_yield w) else Some (3, w))
      else if n = 3 then map_option (Pair 4) (on_host (writeln ''Unblocking thread.'') w)
      else if n = 4 then map_option (Pair 5) (in_kernel (\<lambda>k. Some (thread_unblock (blocking_test_target w) k)) w)
      else if n = 5 then Some (6, w\<lparr>blocking_test_paused := 1\<rparr>)
      else if n = 6 then Some (7, w\<lparr>blocking_test_target := None\<rparr>)
      else if n = 7
      then if blocking_test_resumed w = 0 then map_option (Pair 7) (in_kernel thread_yield w) else Some (8, w)
      else if n = 8 then map_option (Pair 9) (in_kernel thread_terminate w)
      else map_option (Pair n) (in_kernel thread_yield w))"

text \<open>One round of the endless loops of the other threads of the file: the two that \<open>thread_test_start\<close> creates, and
  the idle thread, which halts until the next interrupt.\<close>

definition first_thread :: "system \<Rightarrow> system option" where
  "first_thread s = writeln ''Thread 1 is running.'' s"

definition second_thread :: "system \<Rightarrow> system option" where
  "second_thread s = writeln ''Thread 2 is running.'' s"

definition idle_thread :: "system \<Rightarrow> system option" where
  "idle_thread s = Some s"

text \<open>The running thread executes its next statement, or the timer ticks.\<close>

datatype move = Go | Tick u32

definition go_thread :: "blocking_test \<Rightarrow> blocking_test option" where
  "go_thread w =
     (case thread_current (kern (host w)) of
        None \<Rightarrow> Some w
      | Some t \<Rightarrow>
          (case places w t of
             Blocking n \<Rightarrow> do { (n, w) \<leftarrow> blocking_thread n w; Some (w\<lparr>places := (places w)(t := Blocking n)\<rparr>) }
           | Controller n \<Rightarrow> do { (n, w) \<leftarrow> blocking_test_controller n w; Some (w\<lparr>places := (places w)(t := Controller n)\<rparr>) }
           | Elsewhere \<Rightarrow> Some w))"

fun make_move :: "move \<Rightarrow> blocking_test \<Rightarrow> blocking_test option" where
  "make_move Go w = go_thread w"
| "make_move (Tick r) w = in_kernel (\<lambda>k. map_option snd (scheduler_schedule r k)) w"

fun moves :: "move list \<Rightarrow> blocking_test \<Rightarrow> blocking_test option" where
  "moves [] w = Some w"
| "moves (m # ms) w = do { w \<leftarrow> make_move m w; moves ms w }"

text \<open>The kernel with the one process \<open>k\<close> and the idle thread \<open>i\<close>, while the thread \<open>c\<close> runs; and with it the output so far.\<close>

definition stage :: "layout \<Rightarrow> ref set \<Rightarrow> u32 set \<Rightarrow> u32 \<Rightarrow> ref \<Rightarrow> ref \<Rightarrow> ref list \<Rightarrow> ref list \<Rightarrow> kstate \<Rightarrow> bool" where
  "stage lay R T k i c rs ts s \<longleftrightarrow> between lay R T rs ts [k] s \<and> running c T rs s \<and> idle_thread_instance s = Some i"

lemma stageD:
  assumes "stage lay R T k i c rs ts s"
  shows "between lay R T rs ts [k] s" "running c T rs s" "idle_thread_instance s = Some i" "current_thread s = Some c"
  using assms by (simp_all add: stage_def running_def)

lemma switch_to_effect:
  assumes "switch_to c n s = Some s'"
  shows "idle_thread_instance s' = idle_thread_instance s" "state_of s' t = (if t = n then THREAD_RUNNING else state_of s t)"
  using assms
  by (auto simp: switch_to_def switch_process_def k_activate_def process_set_current_def thread_set_current_def set_state_def
      upd_thread_def x86_context_switch_def state_of_def Let_def bind_eq_Some_conv split: option.splits if_splits)

lemma dequeue_idle: "thread_dequeue s = (x, s') \<Longrightarrow> idle_thread_instance s' = idle_thread_instance s"
  using same_but_queues_parts(10) [OF dequeue_effect(1), of s] by simp

lemma dequeue_state: "thread_dequeue s = (x, s') \<Longrightarrow> state_of s' t = state_of s t"
  using dequeue_effect(2) [of s t] by (simp add: state_of_def)

lemma enqueue_idle: "idle_thread_instance (thread_enqueue (Some t) s) = idle_thread_instance s"
  "idle_thread_instance (thread_enqueue_terminated (Some t) s) = idle_thread_instance s"
  by (rule same_but_queues_parts(10) [OF enqueue_effect(1)] same_but_queues_parts(10) [OF enqueue_terminated_effect(1)])+

lemma flag_idle [simp]: "idle_thread_instance (cli s) = idle_thread_instance s" "idle_thread_instance (sti s) = idle_thread_instance s"
  "idle_thread_instance (set_state t st s) = idle_thread_instance s"
  by (simp_all add: cli_def sti_def set_state_def upd_thread_def)

lemma stage_block:
  assumes "stage lay R T k i c (n # rs) ts s" "c \<noteq> i"
  obtains s' where "thread_block s = Some s'" "stage lay R T k i n rs ts s'" "state_of s' c = THREAD_BLOCKED"
proof -
  note d = stageD [OF assms(1)]
  have n: "c \<noteq> n" using running_ok(1) [OF d(1,2)] by auto
  have nx: "next_of_queue s (n # rs) = n" by (simp add: next_of_queue_def)
  obtain s' where s': "thread_block s = Some s'" "between lay R T rs ts [k] s'" "running n T rs s'"
    using thread_block_ok [OF d(1,2)] assms(2) d(3) unfolding nx by auto
  obtain x s1 where s1: "thread_dequeue (set_state c THREAD_BLOCKED (cli s)) = (x, s1)" by force
  have sw: "switch_to c (the (if x = None then thread_idle s1 else x)) s1 = Some s'"
    using s'(1) d(3,4) dequeue_idle [OF s1] s1
    by (auto simp: thread_block_def thread_current_def thread_idle_def Let_def split: option.splits if_splits)
  have "idle_thread_instance s' = Some i" using switch_to_effect(1) [OF sw] dequeue_idle [OF s1] d(3) by simp
  moreover have "state_of s' c = THREAD_BLOCKED"
  proof -
    have "state_of s1 c = THREAD_BLOCKED" using dequeue_state [OF s1, of c] by (simp add: state_of_def set_state_def upd_thread_def)
    moreover have "current_thread s' = Some (the (if x = None then thread_idle s1 else x))"
      using sw by (auto simp: switch_to_def x86_context_switch_def thread_set_current_def upd_thread_def Let_def bind_eq_Some_conv)
    then have "the (if x = None then thread_idle s1 else x) = n" using s'(3) by (simp add: running_def)
    ultimately show ?thesis using switch_to_effect(2) [OF sw, of c] n by simp
  qed
  ultimately show thesis using s' that by (simp add: stage_def)
qed

lemma stage_yield:
  assumes "stage lay R T k i c (n # rs) ts s" "c \<noteq> i"
  obtains s' where "thread_yield s = Some s'" "stage lay R T k i n (rs @ [c]) ts s'"
proof -
  note d = stageD [OF assms(1)]
  obtain s' where s': "thread_yield s = Some s'" "between lay R T (rs @ [c]) ts [k] s'" "running n T (rs @ [c]) s'"
    using thread_yield_ok [OF d(1,2)] assms(2) d(3) by auto
  obtain x s1 where s1: "thread_dequeue s = (x, s1)" by force
  have "idle_thread_instance s' = Some i"
  proof (cases x)
    case None
    then show ?thesis using s'(1) d(3,4) assms(2) s1 dequeue_idle [OF s1]
      by (auto simp: thread_yield_def thread_current_def thread_idle_def split: if_splits)
  next
    case (Some m)
    then obtain s2 where "switch_to c m s2 = Some s'" "idle_thread_instance s2 = idle_thread_instance s1"
      using s'(1) d(3,4) assms(2) s1 enqueue_idle
      by (auto simp: thread_yield_def thread_current_def thread_idle_def Let_def split: if_splits)
    then show ?thesis using switch_to_effect(1) dequeue_idle [OF s1] d(3) by simp
  qed
  then show thesis using s' that by (simp add: stage_def)
qed

lemma stage_terminate:
  assumes "stage lay R T k i c (n # rs) ts s" "c \<noteq> i" "c \<noteq> Static"
  obtains s' where "thread_terminate s = Some s'" "stage lay R T k i n rs (ts @ [c]) s'"
proof -
  note d = stageD [OF assms(1)]
  have nx: "next_of_queue s (n # rs) = n" by (simp add: next_of_queue_def)
  obtain s' where s': "thread_terminate s = Some s'" "between lay R T rs (ts @ [c]) [k] s'" "running n T rs s'"
    using thread_terminate_ok [OF d(1,2)] assms(2,3) d(3) unfolding nx by auto
  obtain x s1 where s1: "thread_dequeue (thread_enqueue_terminated (Some c) (cli s)) = (x, s1)" by force
  have id1: "idle_thread_instance s1 = Some i" using dequeue_idle [OF s1] d(3) by (simp add: enqueue_idle)
  have st: "t_state (threads s c) = THREAD_RUNNING" using d(2) by (simp add: running_def state_of_def)
  have "switch_to c (the (if x = None then thread_idle s1 else x)) s1 = Some s'"
    using s'(1) d(3,4) id1 s1 st assms(2,3)
    by (auto simp: thread_terminate_def thread_current_def thread_idle_def Let_def split: option.splits if_splits)
  then have "idle_thread_instance s' = Some i" using switch_to_effect(1) id1 by simp
  then show thesis using s' that by (simp add: stage_def)
qed

lemma stage_unblock:
  assumes "stage lay R T k i c rs ts s" "t \<in> known T" "state_of s t = THREAD_BLOCKED"
  shows "stage lay R T k i c (rs @ [t]) ts (thread_unblock (Some t) s)"
proof -
  note d = stageD [OF assms(1)]
  have p: "process_of s t = Some k" using d(1) assms(2) by (auto simp: between_def members_ok_def)
  have r: "p_state (processes s k) = PROCESS_RUNNING" using d(1) by (simp add: between_def spaces_ok_def)
  have "idle_thread_instance (thread_unblock (Some t) s) = Some i"
    using d(3) by (auto simp: thread_unblock_def Let_def enqueue_idle split: option.splits)
  then show ?thesis using thread_unblock_ok [OF d(1,2) assms(2,3) p] r by (simp add: stage_def)
qed

lemma stage_tick:
  assumes "stage lay R T k i c (n # rs) [] s" "c \<noteq> i"
  obtains e s' where "scheduler_schedule r s = Some (e, s')" "stage lay R T k i n (rs @ [c]) [] s'"
proof -
  note d = stageD [OF assms(1)]
  have nx: "next_of_queue s (n # rs) = n" "queue_after s c (n # rs) = rs @ [c]" "without T [] = T"
    using d(3) assms(2) by (simp_all add: next_of_queue_def queue_after_def without_def)
  have "kernel_process s = Some k" using d(1) by (simp add: between_def spaces_ok_def)
  then have nd: "\<not> dead s T n p" if "p \<in> set [k]" for p using that by (simp add: dead_def)
  have e: "{the (space_of s p) |p. p \<in> set [k] \<and> dead s T n p} = {}" "filter (\<lambda>p. \<not> dead s T n p) [k] = [k]"
    using nd by auto
  obtain x s' where "scheduler_schedule r s = Some (x, s')" "between lay R T (rs @ [c]) [] [k] s'" "running n T (rs @ [c]) s'"
    "idle_thread_instance s' = idle_thread_instance s"
    using scheduler_schedule_ok [OF d(1,2), of r] unfolding nx e by auto
  then show thesis using that d(3) by (simp add: stage_def)
qed

text \<open>The kernel is in \<open>S\<close>, \<open>out\<close> has been printed since \<open>s0\<close>, the threads \<open>b\<close> and \<open>d\<close> are at their places, and the variables of
  the test have their values.\<close>

definition scene :: "(kstate \<Rightarrow> bool) \<Rightarrow> system \<Rightarrow> u8 list \<Rightarrow> ref \<Rightarrow> ref \<Rightarrow> nat \<Rightarrow> nat \<Rightarrow> ref option \<Rightarrow> u32 \<Rightarrow> u32 \<Rightarrow> blocking_test \<Rightarrow> bool" where
  "scene S s0 out b d pb pd tg re pa w \<longleftrightarrow> S (kern (host w)) \<and> screen_ok (screen (host w)) \<and>
     bus (host w) = bus s0 @ map (Outb 0x3F8) out \<and> places w b = Blocking pb \<and> places w d = Controller pd \<and>
     blocking_test_target w = tg \<and> blocking_test_resumed w = re \<and> blocking_test_paused w = pa"

definition line :: "string \<Rightarrow> u8 list" where
  "line m = bytes m @ [0x0A]"

lemma scene_write:
  assumes "scene S s0 out b d pb pd tg re pa w"
  obtains w' where "on_host (writeln m) w = Some w'" "scene S s0 (out @ line m) b d pb pd tg re pa w'"
proof -
  have "screen_ok (screen (host w))" using assms by (simp add: scene_def)
  then obtain s' where s': "writeln m (host w) = Some s'" "printed (line m) (host w) s'"
    using terminal_writeIn_printed unfolding writeln_def line_def by blast
  have "scene S s0 (out @ line m) b d pb pd tg re pa (w\<lparr>host := s'\<rparr>)"
    using assms s'(2) printed_keep(1,6) [OF s'(2)] by (simp add: scene_def printed_def)
  then show thesis using that s'(1) by (simp add: on_host_def)
qed

lemma scene_kernel:
  assumes "scene S s0 out b d pb pd tg re pa w" "f (kern (host w)) = Some k" "S' k"
  obtains w' where "in_kernel f w = Some w'" "scene S' s0 out b d pb pd tg re pa w'"
proof -
  have "in_kernel f w = Some (w\<lparr>host := (host w)\<lparr>kern := k\<rparr>\<rparr>)" using assms(2) by (simp add: in_kernel_def on_host_def on_kernel_def)
  moreover have "scene S' s0 out b d pb pd tg re pa (w\<lparr>host := (host w)\<lparr>kern := k\<rparr>\<rparr>)" using assms(1,3) by (simp add: scene_def)
  ultimately show thesis by (rule that)
qed

lemma sceneD:
  assumes "scene S s0 out b d pb pd tg re pa w"
  shows "S (kern (host w))" "blocking_test_target w = tg" "blocking_test_resumed w = re"
  using assms by (simp_all add: scene_def)

lemma go_blocked:
  assumes "scene S s0 out b d pb pd tg re pa w" "current_thread (kern (host w)) = Some b" "b \<noteq> d"
    and "blocking_thread pb w = Some (n, w1)" "scene S' s0 out' b d pb pd tg' re' pa' w1"
  obtains w' where "\<And>ms. moves (Go # ms) w = moves ms w'" "scene S' s0 out' b d n pd tg' re' pa' w'"
proof -
  have "go_thread w = Some (w1\<lparr>places := (places w1)(b := Blocking n)\<rparr>)"
    using assms(1,2,4) by (simp add: go_thread_def thread_current_def scene_def)
  then show thesis using that assms(3,5) by (simp add: scene_def)
qed

lemma go_controller:
  assumes "scene S s0 out b d pb pd tg re pa w" "current_thread (kern (host w)) = Some d" "b \<noteq> d"
    and "blocking_test_controller pd w = Some (n, w1)" "scene S' s0 out' b d pb pd tg' re' pa' w1"
  obtains w' where "\<And>ms. moves (Go # ms) w = moves ms w'" "scene S' s0 out' b d pb n tg' re' pa' w'"
proof -
  have "go_thread w = Some (w1\<lparr>places := (places w1)(d := Controller n)\<rparr>)"
    using assms(1,2,4) by (simp add: go_thread_def thread_current_def scene_def)
  then show thesis using that assms(3,5) by (simp add: scene_def)
qed

text \<open>The blocked thread starts and blocks; the controller finds it blocked and unblocks it, waits, and lets it run.\<close>

lemma act_block:
  assumes s: "scene (stage lay R T k i b (n # rs) ts) s0 out b d 0 pd tg re pa w" and ne: "b \<noteq> d" "b \<noteq> i"
  obtains w' where "\<And>ms. moves (Go # Go # ms) w = moves ms w'"
    "scene (\<lambda>s. stage lay R T k i n rs ts s \<and> state_of s b = THREAD_BLOCKED) s0 (out @ line ''Blocking thread started.'') b d 2 pd tg re pa w'"
proof -
  obtain v1 where "on_host (writeln ''Blocking thread started.'') w = Some v1"
    and v1: "scene (stage lay R T k i b (n # rs) ts) s0 (out @ line ''Blocking thread started.'') b d 0 pd tg re pa v1"
    using scene_write [OF s] by blast
  then have "blocking_thread 0 w = Some (1, v1)" by (simp add: blocking_thread_def)
  from go_blocked [OF s stageD(4) [OF sceneD(1) [OF s]] ne(1) this v1] obtain w1 where m1: "\<And>ms. moves (Go # ms) w = moves ms w1"
    and w1: "scene (stage lay R T k i b (n # rs) ts) s0 (out @ line ''Blocking thread started.'') b d 1 pd tg re pa w1" by blast
  obtain s' where "thread_block (kern (host w1)) = Some s'" "stage lay R T k i n rs ts s'" "state_of s' b = THREAD_BLOCKED"
    using stage_block [OF sceneD(1) [OF w1] ne(2)] by blast
  then obtain v2 where "in_kernel thread_block w1 = Some v2"
    and v2: "scene (\<lambda>s. stage lay R T k i n rs ts s \<and> state_of s b = THREAD_BLOCKED) s0 (out @ line ''Blocking thread started.'') b d 1 pd tg re pa v2"
    using scene_kernel [OF w1, of thread_block s' "\<lambda>s. stage lay R T k i n rs ts s \<and> state_of s b = THREAD_BLOCKED"] by blast
  then have "blocking_thread 1 w1 = Some (2, v2)" by (simp add: blocking_thread_def)
  from go_blocked [OF w1 stageD(4) [OF sceneD(1) [OF w1]] ne(1) this v2] obtain w2 where m2: "\<And>ms. moves (Go # ms) w1 = moves ms w2"
    and w2: "scene (\<lambda>s. stage lay R T k i n rs ts s \<and> state_of s b = THREAD_BLOCKED) s0 (out @ line ''Blocking thread started.'') b d 2 pd tg re pa w2" by blast
  show thesis by (rule that [OF _ w2]) (simp only: m1 m2)
qed

lemma act_unblock:
  assumes s: "scene (\<lambda>s. stage lay R T k i d rs ts s \<and> state_of s b = THREAD_BLOCKED) s0 out b d pb 0 (Some b) re pa w"
    and ne: "b \<noteq> d" and b: "b \<in> known T"
  obtains w' where "\<And>ms. moves (replicate 7 Go @ ms) w = moves ms w'"
    "scene (stage lay R T k i d (rs @ [b]) ts) s0 (out @ line ''Controller thread started.'' @ line ''Unblocking thread.'') b d pb 7 None re 1 w'"
proof -
  let ?S = "\<lambda>s. stage lay R T k i d rs ts s \<and> state_of s b = THREAD_BLOCKED" and ?S' = "stage lay R T k i d (rs @ [b]) ts"
  let ?o = "out @ line ''Controller thread started.''" and ?o' = "out @ line ''Controller thread started.'' @ line ''Unblocking thread.''"
  have cur: "current_thread (kern (host w)) = Some d" if "scene ?S s0 out b d pb n tg re pa w" for w out n tg re pa
    using sceneD(1) [OF that] stageD(4) by blast
  have cur': "current_thread (kern (host w)) = Some d" if "scene ?S' s0 out b d pb n tg re pa w" for w out n tg re pa
    using sceneD(1) [OF that] by (rule stageD(4))
  obtain v1 where "on_host (writeln ''Controller thread started.'') w = Some v1" and v1: "scene ?S s0 ?o b d pb 0 (Some b) re pa v1"
    using scene_write [OF s] by blast
  then have "blocking_test_controller 0 w = Some (1, v1)" by (simp add: blocking_test_controller_def)
  from go_controller [OF s cur [OF s] ne this v1] obtain w1 where m1: "\<And>ms. moves (Go # ms) w = moves ms w1"
    and w1: "scene ?S s0 ?o b d pb 1 (Some b) re pa w1" by blast
  have "blocking_test_controller 1 w1 = Some (2, w1)" using sceneD(2) [OF w1] by (simp add: blocking_test_controller_def)
  from go_controller [OF w1 cur [OF w1] ne this w1] obtain w2 where m2: "\<And>ms. moves (Go # ms) w1 = moves ms w2"
    and w2: "scene ?S s0 ?o b d pb 2 (Some b) re pa w2" by blast
  have "blocking_test_controller 2 w2 = Some (3, w2)"
    using sceneD(1,2) [OF w2] by (simp add: blocking_test_controller_def state_of_def)
  from go_controller [OF w2 cur [OF w2] ne this w2] obtain w3 where m3: "\<And>ms. moves (Go # ms) w2 = moves ms w3"
    and w3: "scene ?S s0 ?o b d pb 3 (Some b) re pa w3" by blast
  obtain v4 where "on_host (writeln ''Unblocking thread.'') w3 = Some v4" and v4: "scene ?S s0 ?o' b d pb 3 (Some b) re pa v4"
    using scene_write [OF w3] unfolding append_assoc by blast
  then have "blocking_test_controller 3 w3 = Some (4, v4)" by (simp add: blocking_test_controller_def)
  from go_controller [OF w3 cur [OF w3] ne this v4] obtain w4 where m4: "\<And>ms. moves (Go # ms) w3 = moves ms w4"
    and w4: "scene ?S s0 ?o' b d pb 4 (Some b) re pa w4" by blast
  have "?S' (thread_unblock (Some b) (kern (host w4)))" using sceneD(1) [OF w4] stage_unblock b by blast
  then obtain v5 where "in_kernel (\<lambda>k. Some (thread_unblock (Some b) k)) w4 = Some v5" and v5: "scene ?S' s0 ?o' b d pb 4 (Some b) re pa v5"
    using scene_kernel [OF w4, of "\<lambda>k. Some (thread_unblock (Some b) k)" _ ?S'] by blast
  then have "blocking_test_controller 4 w4 = Some (5, v5)" using sceneD(2) [OF w4] by (simp add: blocking_test_controller_def)
  from go_controller [OF w4 cur [OF w4] ne this v5] obtain w5 where m5: "\<And>ms. moves (Go # ms) w4 = moves ms w5"
    and w5: "scene ?S' s0 ?o' b d pb 5 (Some b) re pa w5" by blast
  have "blocking_test_controller 5 w5 = Some (6, w5\<lparr>blocking_test_paused := 1\<rparr>)"
    "scene ?S' s0 ?o' b d pb 5 (Some b) re 1 (w5\<lparr>blocking_test_paused := 1\<rparr>)"
    using w5 by (simp_all add: blocking_test_controller_def scene_def)
  from go_controller [OF w5 cur' [OF w5] ne this] obtain w6 where m6: "\<And>ms. moves (Go # ms) w5 = moves ms w6"
    and w6: "scene ?S' s0 ?o' b d pb 6 (Some b) re 1 w6" by blast
  have "blocking_test_controller 6 w6 = Some (7, w6\<lparr>blocking_test_target := None\<rparr>)"
    "scene ?S' s0 ?o' b d pb 6 None re 1 (w6\<lparr>blocking_test_target := None\<rparr>)"
    using w6 by (simp_all add: blocking_test_controller_def scene_def)
  from go_controller [OF w6 cur' [OF w6] ne this] obtain w7 where m7: "\<And>ms. moves (Go # ms) w6 = moves ms w7"
    and w7: "scene ?S' s0 ?o' b d pb 7 None re 1 w7" by blast
  have "replicate 7 Go = [Go, Go, Go, Go, Go, Go, Go]" by (simp add: numeral_eq_Suc)
  then have "moves (replicate 7 Go @ ms) w = moves ms w7" for ms by (simp only: append.simps m1 m2 m3 m4 m5 m6 m7)
  then show thesis using that w7 by blast
qed

lemma act_wait:
  assumes s: "scene (stage lay R T k i d (n # rs) ts) s0 out b d pb 7 tg 0 pa w" and ne: "b \<noteq> d" "d \<noteq> i"
  obtains w' where "\<And>ms. moves (Go # ms) w = moves ms w'" "scene (stage lay R T k i n (rs @ [d]) ts) s0 out b d pb 7 tg 0 pa w'"
proof -
  obtain s' where "thread_yield (kern (host w)) = Some s'" "stage lay R T k i n (rs @ [d]) ts s'"
    using stage_yield [OF sceneD(1) [OF s] ne(2)] by blast
  then obtain v where "in_kernel thread_yield w = Some v" and v: "scene (stage lay R T k i n (rs @ [d]) ts) s0 out b d pb 7 tg 0 pa v"
    using scene_kernel [OF s, of thread_yield s'] by blast
  then have "blocking_test_controller 7 w = Some (7, v)" using sceneD(3) [OF s] by (simp add: blocking_test_controller_def)
  from go_controller [OF s stageD(4) [OF sceneD(1) [OF s]] ne(1) this v] show thesis using that by blast
qed

lemma act_tick:
  assumes s: "scene (stage lay R T k i c (n # rs) []) s0 out b d pb pd tg re pa w" and ne: "c \<noteq> i"
  obtains w' where "\<And>ms. moves (Tick r # ms) w = moves ms w'" "scene (stage lay R T k i n (rs @ [c]) []) s0 out b d pb pd tg re pa w'"
proof -
  obtain e s' where "map_option snd (scheduler_schedule r (kern (host w))) = Some s'" "stage lay R T k i n (rs @ [c]) [] s'"
    using stage_tick [OF sceneD(1) [OF s] ne, of r] by (metis option.map(2) snd_conv)
  then obtain w' where "make_move (Tick r) w = Some w'" "scene (stage lay R T k i n (rs @ [c]) []) s0 out b d pb pd tg re pa w'"
    using scene_kernel [OF s, of "\<lambda>k. map_option snd (scheduler_schedule r k)" s'] by auto
  then show thesis using that by simp
qed

lemma act_resume:
  assumes s: "scene (stage lay R T k i b (n # rs) ts) s0 out b d 2 pd tg re pa w" and ne: "b \<noteq> d" "b \<noteq> i" "b \<noteq> Static"
  obtains w' where "\<And>ms. moves (Go # Go # Go # ms) w = moves ms w'"
    "scene (stage lay R T k i n rs (ts @ [b])) s0 (out @ line ''Blocking thread resumed.'') b d 5 pd tg 1 pa w'"
proof -
  let ?S = "stage lay R T k i b (n # rs) ts" and ?S' = "stage lay R T k i n rs (ts @ [b])" and ?o = "out @ line ''Blocking thread resumed.''"
  obtain v1 where "on_host (writeln ''Blocking thread resumed.'') w = Some v1" and v1: "scene ?S s0 ?o b d 2 pd tg re pa v1"
    using scene_write [OF s] by blast
  then have "blocking_thread 2 w = Some (3, v1)" by (simp add: blocking_thread_def)
  from go_blocked [OF s stageD(4) [OF sceneD(1) [OF s]] ne(1) this v1] obtain w1 where m1: "\<And>ms. moves (Go # ms) w = moves ms w1"
    and w1: "scene ?S s0 ?o b d 3 pd tg re pa w1" by blast
  have "blocking_thread 3 w1 = Some (4, w1\<lparr>blocking_test_resumed := 1\<rparr>)"
    "scene ?S s0 ?o b d 3 pd tg 1 pa (w1\<lparr>blocking_test_resumed := 1\<rparr>)"
    using w1 by (simp_all add: blocking_thread_def scene_def)
  from go_blocked [OF w1 stageD(4) [OF sceneD(1) [OF w1]] ne(1) this] obtain w2 where m2: "\<And>ms. moves (Go # ms) w1 = moves ms w2"
    and w2: "scene ?S s0 ?o b d 4 pd tg 1 pa w2" by blast
  obtain s' where "thread_terminate (kern (host w2)) = Some s'" "?S' s'" using stage_terminate [OF sceneD(1) [OF w2] ne(2,3)] by blast
  then obtain v3 where "in_kernel thread_terminate w2 = Some v3" and v3: "scene ?S' s0 ?o b d 4 pd tg 1 pa v3"
    using scene_kernel [OF w2, of thread_terminate s'] by blast
  then have "blocking_thread 4 w2 = Some (5, v3)" by (simp add: blocking_thread_def)
  from go_blocked [OF w2 stageD(4) [OF sceneD(1) [OF w2]] ne(1) this v3] obtain w3 where m3: "\<And>ms. moves (Go # ms) w2 = moves ms w3"
    and w3: "scene ?S' s0 ?o b d 5 pd tg 1 pa w3" by blast
  show thesis by (rule that [OF _ w3]) (simp only: m1 m2 m3)
qed

lemma act_end:
  assumes s: "scene (stage lay R T k i d (n # rs) ts) s0 out b d pb 7 tg 1 pa w" and ne: "b \<noteq> d" "d \<noteq> i" "d \<noteq> Static"
  obtains w' where "\<And>ms. moves (Go # Go # ms) w = moves ms w'" "scene (stage lay R T k i n rs (ts @ [d])) s0 out b d pb 9 tg 1 pa w'"
proof -
  let ?S = "stage lay R T k i d (n # rs) ts" and ?S' = "stage lay R T k i n rs (ts @ [d])"
  have "blocking_test_controller 7 w = Some (8, w)" using sceneD(3) [OF s] by (simp add: blocking_test_controller_def)
  from go_controller [OF s stageD(4) [OF sceneD(1) [OF s]] ne(1) this s] obtain w1 where m1: "\<And>ms. moves (Go # ms) w = moves ms w1"
    and w1: "scene ?S s0 out b d pb 8 tg 1 pa w1" by blast
  obtain s' where "thread_terminate (kern (host w1)) = Some s'" "?S' s'" using stage_terminate [OF sceneD(1) [OF w1] ne(2,3)] by blast
  then obtain v2 where "in_kernel thread_terminate w1 = Some v2" and v2: "scene ?S' s0 out b d pb 8 tg 1 pa v2"
    using scene_kernel [OF w1, of thread_terminate s'] by blast
  then have "blocking_test_controller 8 w1 = Some (9, v2)" by (simp add: blocking_test_controller_def)
  from go_controller [OF w1 stageD(4) [OF sceneD(1) [OF w1]] ne(1) this v2] obtain w2 where m2: "\<And>ms. moves (Go # ms) w1 = moves ms w2"
    and w2: "scene ?S' s0 out b d pb 9 tg 1 pa w2" by blast
  show thesis by (rule that [OF _ w2]) (simp only: m1 m2)
qed

text \<open>The start: both threads exist and wait in the ready queue.\<close>

lemma stage_create:
  assumes "stage lay R T k i Static rs ts s" "entry \<noteq> 0" "thread_create entry name s = Some (Some t, s')"
  obtains a where "t = Dyn a" "a \<notin> T" "stage lay R (insert a T) k i Static rs ts s'"
proof -
  note d = stageD [OF assms(1)]
  have k: "k \<in> set [k]" "p_state (processes s k) = PROCESS_RUNNING" using d(1) by (simp_all add: between_def spaces_ok_def)
  have "process_of s Static = Some k" using d(1) by (simp add: between_def members_ok_def spaces_ok_def)
  then have "current_process s = Some k" using d(2) by (auto simp: running_def place_ok_def)
  then have c: "thread_create_in_process (Some k) entry name s = Some (Some t, s')"
    using assms(3) by (simp add: thread_create_def process_current_def)
  obtain a stack h where a: "t = Dyn a" "a \<notin> T" "s' = add_thread a k entry stack name h s" "between lay R (insert a T) rs ts [k] s'"
    using thread_create_ok [OF d(1) k assms(2), of name] c by auto
  moreover have "running Static (insert a T) rs s'" using add_thread_running [OF d(2) a(2)] a(3) by simp
  ultimately show thesis using that d(3) by (simp add: stage_def add_thread_fields)
qed

lemma stage_enqueue:
  assumes "stage lay R T k i c rs ts s" "a \<in> T" "Dyn a \<notin> set rs" "Dyn a \<notin> set ts" "Dyn a \<noteq> i" "c \<noteq> Dyn a"
  shows "stage lay R T k i c (rs @ [Dyn a]) ts (thread_enqueue (Some (Dyn a)) s)"
proof -
  note d = stageD [OF assms(1)]
  have "between lay R T (rs @ [Dyn a]) ts [k] (thread_enqueue (Some (Dyn a)) s)"
    by (rule enqueue_between [OF d(1)]) (use assms d(3) in auto)
  moreover have "running c T (rs @ [Dyn a]) (thread_enqueue (Some (Dyn a)) s)"
    by (rule running_change [OF d(2) enqueue_effect(1)]) (use assms(6) in \<open>simp add: state_of_def enqueue_effect\<close>)
  ultimately show ?thesis using d(3) by (simp add: stage_def enqueue_idle)
qed

lemma stage_booted:
  assumes "up_and_running lay s"
  obtains R k a where "stage lay R {a} k (Dyn a) Static [] [] (kern s)" "screen_ok (screen s)"
proof -
  obtain R ts k a where u: "idle_thread_instance (kern s) = Some (Dyn a)" "between lay R {a} [] ts [k] (kern s)"
    "running Static {a} [] (kern s)" "screen_ok (screen s)" by (rule kernel_resources [OF assms])
  have st: "set ts = {t \<in> known {a}. state_of (kern s) t = THREAD_TERMINATED}" "state_of (kern s) Static \<noteq> THREAD_TERMINATED"
    and idle: "idle_wf {a} [] (kern s)" using states_of_between [OF u(2)] unfolding states_ok_def by blast+
  have "state_of (kern s) (Dyn a) \<noteq> THREAD_TERMINATED" using idle u(1) by (auto simp: idle_wf_def)
  then have "\<not> (t \<in> known {a} \<and> state_of (kern s) t = THREAD_TERMINATED)" for t using st(2) by (auto simp: known_def)
  then have "set ts = {}" unfolding st(1) by blast
  then have "ts = []" by simp
  then show thesis using that u by (simp add: stage_def)
qed

lemma blocking_test_started:
  assumes up: "up_and_running lay (host w)" and e: "be \<noteq> 0" "ce \<noteq> 0"
    and run: "thread_blocking_test_start be ce w = Some v" "blocking_test_target v \<noteq> None"
  obtains R T k i b d where "b \<noteq> d" "b \<noteq> i" "d \<noteq> i" "b \<noteq> Static" "d \<noteq> Static" "i \<noteq> Static" "b \<in> known T"
    "scene (stage lay R T k i Static [b, d] []) (host w) (line ''Blocking test threads queued.'') b d 0 0 (Some b) 0 0 v"
proof -
  obtain R k a where st: "stage lay R {a} k (Dyn a) Static [] [] (kern (host w))" and sc: "screen_ok (screen (host w))"
    by (rule stage_booted [OF up])
  let ?w0 = "w\<lparr>blocking_test_target := None, blocking_test_resumed := 0, blocking_test_paused := 0,
      blocking_test_complete := 0, blocking_test_passed := 0\<rparr>"
  obtain t1 k1 t2 k2 where c: "thread_create be (Some (c_string ''Blocked'')) (kern (host w)) = Some (t1, k1)"
    "thread_create ce (Some (c_string ''Controller'')) k1 = Some (t2, k2)"
    using run(1) by (auto simp: thread_blocking_test_start_def Let_def bind_eq_Some_conv)
  have "t1 \<noteq> None \<and> t2 \<noteq> None"
    using run by (auto simp: thread_blocking_test_start_def Let_def c on_host_def in_kernel_def bind_eq_Some_conv split: option.splits)
  then obtain b d where t: "t1 = Some b" "t2 = Some d" by blast
  obtain x where x: "b = Dyn x" "x \<notin> {a}" "stage lay R {x, a} k (Dyn a) Static [] [] k1"
    using stage_create [OF st e(1) c(1) [unfolded t]] by blast
  obtain y where y: "d = Dyn y" "y \<notin> {x, a}" "stage lay R {y, x, a} k (Dyn a) Static [] [] k2"
    using stage_create [OF x(3) e(2) c(2) [unfolded t]] by blast
  have xy: "b \<noteq> d" using x(1) y(1,2) by auto
  let ?k3 = "thread_enqueue t2 (thread_enqueue t1 k2)"
  have "stage lay R {y, x, a} k (Dyn a) Static ([] @ [b]) [] (thread_enqueue t1 k2)"
    unfolding t x(1) by (rule stage_enqueue [OF y(3)]) (use x y in auto)
  then have "stage lay R {y, x, a} k (Dyn a) Static (([] @ [b]) @ [d]) [] ?k3"
    unfolding t y(1) by (rule stage_enqueue) (use x y in auto)
  then have k3: "stage lay R {y, x, a} k (Dyn a) Static [b, d] [] ?k3" by simp
  let ?w1 = "?w0\<lparr>host := (host w)\<lparr>kern := ?k3\<rparr>, places := (places w)(b := Blocking 0, d := Controller 0), blocking_test_target := Some b\<rparr>"
  have sw: "scene (stage lay R {y, x, a} k (Dyn a) Static [b, d] []) (host w) [] b d 0 0 (Some b) 0 0 ?w1"
    using k3 sc xy by (simp add: scene_def)
  have go: "thread_blocking_test_start be ce w = on_host (writeln ''Blocking test threads queued.'') ?w1"
    using c t by (simp add: thread_blocking_test_start_def Let_def in_kernel_def on_host_def on_kernel_def)
  obtain v' where "on_host (writeln ''Blocking test threads queued.'') ?w1 = Some v'"
    "scene (stage lay R {y, x, a} k (Dyn a) Static [b, d] []) (host w) ([] @ line ''Blocking test threads queued.'') b d 0 0 (Some b) 0 0 v'"
    by (rule scene_write [OF sw])
  then have "scene (stage lay R {y, x, a} k (Dyn a) Static [b, d] []) (host w) (line ''Blocking test threads queued.'') b d 0 0 (Some b) 0 0 v"
    using go run(1) by simp
  then show thesis by (rule that [rotated 7]) (use x y in \<open>auto simp: known_def\<close>)
qed

lemma stage_process:
  assumes "stage lay R T k i Static rs ts s"
  shows "current_process s = Some k" "p_state (processes s k) = PROCESS_RUNNING" "heap_good (heap (mm s))"
proof -
  note d = stageD [OF assms]
  have "process_of s Static = Some k" using d(1) by (simp add: between_def members_ok_def spaces_ok_def)
  then show "current_process s = Some k" using d(2) by (auto simp: running_def place_ok_def)
  show "p_state (processes s k) = PROCESS_RUNNING" "heap_good (heap (mm s))"
    using d(1) by (simp_all add: between_def spaces_ok_def vm_ok_def)
qed

lemma stage_create_room:
  assumes "stage lay R T k i Static rs ts s" "entry \<noteq> 0" "heap_top (heap (mm s)) + 4184 \<le> 0x100000"
  shows "\<exists>t s'. thread_create entry name s = Some (Some t, s') \<and> heap_top (heap (mm s')) \<le> heap_top (heap (mm s)) + 4184"
  using thread_create_room [OF stage_process(3) [OF assms(1)] assms(3) stage_process(2) [OF assms(1)] assms(2), of name]
    stage_process(1) [OF assms(1)] by (auto simp: thread_create_def process_current_def)

lemma blocking_test_starts:
  assumes up: "up_and_running lay (host w)" and e: "be \<noteq> 0" "ce \<noteq> 0"
  obtains v where "thread_blocking_test_start be ce w = Some v" "blocking_test_target v \<noteq> None"
proof -
  obtain R k a where st: "stage lay R {a} k (Dyn a) Static [] [] (kern (host w))" and sc: "screen_ok (screen (host w))"
    by (rule stage_booted [OF up])
  have top: "heap_top (heap (mm (kern (host w)))) \<le> 8352" using up by (simp add: up_and_running_def)
  obtain t1 k1 where k1: "thread_create be (Some (c_string ''Blocked'')) (kern (host w)) = Some (Some t1, k1)"
    "heap_top (heap (mm k1)) \<le> 12536" using stage_create_room [OF st e(1), of "Some (c_string ''Blocked'')"] top by fastforce
  obtain x where x: "stage lay R {x, a} k (Dyn a) Static [] [] k1" using stage_create [OF st e(1) k1(1)] by blast
  obtain t2 k2 where k2: "thread_create ce (Some (c_string ''Controller'')) k1 = Some (Some t2, k2)"
    using stage_create_room [OF x e(2), of "Some (c_string ''Controller'')"] k1(2) by fastforce
  let ?w1 = "w\<lparr>host := (host w)\<lparr>kern := thread_enqueue (Some t2) (thread_enqueue (Some t1) k2)\<rparr>, places := (places w)(t1 := Blocking 0, t2 := Controller 0),
      blocking_test_target := Some t1, blocking_test_resumed := 0, blocking_test_paused := 0, blocking_test_complete := 0, blocking_test_passed := 0\<rparr>"
  obtain s' where "writeln ''Blocking test threads queued.'' (host ?w1) = Some s'"
    using terminal_writeIn_printed [of "host ?w1"] sc unfolding writeln_def by auto
  then have "thread_blocking_test_start be ce w = Some (?w1\<lparr>host := s'\<rparr>)"
    using k1(1) k2 by (simp add: thread_blocking_test_start_def Let_def in_kernel_def on_host_def on_kernel_def)
  then show thesis by (rule that) simp
qed

text \<open>C9. The booted kernel passes its own test of blocking: \<open>thread_blocking_test_start\<close> creates and
  queues its two threads; after a timer tick the blocked thread runs until it blocks, the controller finds it blocked,
  unblocks it and gives way; after the next tick, which reaches the unblocked thread, it resumes behind
  \<open>thread_block\<close> and terminates, whereupon the controller sees that it has resumed and terminates as well. In the
  end the bootstrap thread runs, nothing is ready, exactly the two threads of the test wait to be reaped, the
  variables say that the test has resumed, and the four messages have been printed in this order.\<close>

theorem blocking_test_completes:
  assumes "up_and_running lay (host w)" "be \<noteq> 0" "ce \<noteq> 0"
  shows "\<exists>v b d w'. thread_blocking_test_start be ce w = Some v \<and> blocking_test_target v = Some b \<and>
    moves (Tick r # replicate 10 Go @ Tick r' # replicate 5 Go) v = Some w' \<and>
    current_thread (kern (host w')) = Some Static \<and> ready (kern (host w')) [] \<and> terminated (kern (host w')) [b, d] \<and>
    blocking_test_target w' = None \<and> blocking_test_paused w' = 1 \<and> blocking_test_resumed w' = 1 \<and>
    bus (host w') = bus (host w) @ map (Outb 0x3F8) (line ''Blocking test threads queued.'' @ line ''Blocking thread started.'' @
      line ''Controller thread started.'' @ line ''Unblocking thread.'' @ line ''Blocking thread resumed.'')"
proof -
  obtain v where start: "thread_blocking_test_start be ce w = Some v" "blocking_test_target v \<noteq> None"
    by (rule blocking_test_starts [OF assms])
  with assms obtain R T k i b d where ne: "b \<noteq> d" "b \<noteq> i" "d \<noteq> i" "b \<noteq> Static" "d \<noteq> Static" "i \<noteq> Static" "b \<in> known T"
    and v: "scene (stage lay R T k i Static [b, d] []) (host w) (line ''Blocking test threads queued.'') b d 0 0 (Some b) 0 0 v"
    by (rule blocking_test_started)
  obtain w1 where m1: "\<And>ms. moves (Tick r # ms) v = moves ms w1"
    and w1: "scene (stage lay R T k i b [d, Static] []) (host w) (line ''Blocking test threads queued.'') b d 0 0 (Some b) 0 0 w1"
    using act_tick [OF v, of r] ne(6) by auto
  from act_block [OF w1 ne(1,2)] obtain w2 where m2: "\<And>ms. moves (Go # Go # ms) w1 = moves ms w2"
    and w2: "scene (\<lambda>s. stage lay R T k i d [Static] [] s \<and> state_of s b = THREAD_BLOCKED) (host w)
      (line ''Blocking test threads queued.'' @ line ''Blocking thread started.'') b d 2 0 (Some b) 0 0 w2" by auto
  from act_unblock [OF w2 ne(1,7)] obtain w3 where m3: "\<And>ms. moves (replicate 7 Go @ ms) w2 = moves ms w3"
    and w3: "scene (stage lay R T k i d [Static, b] []) (host w) (line ''Blocking test threads queued.'' @ line ''Blocking thread started.'' @
      line ''Controller thread started.'' @ line ''Unblocking thread.'') b d 2 7 None 0 1 w3" by auto
  from act_wait [OF w3 ne(1,3)] obtain w4 where m4: "\<And>ms. moves (Go # ms) w3 = moves ms w4"
    and w4: "scene (stage lay R T k i Static [b, d] []) (host w) (line ''Blocking test threads queued.'' @ line ''Blocking thread started.'' @
      line ''Controller thread started.'' @ line ''Unblocking thread.'') b d 2 7 None 0 1 w4" by auto
  from act_tick [OF w4, of r'] ne(6) obtain w5 where m5: "\<And>ms. moves (Tick r' # ms) w4 = moves ms w5"
    and w5: "scene (stage lay R T k i b [d, Static] []) (host w) (line ''Blocking test threads queued.'' @ line ''Blocking thread started.'' @
      line ''Controller thread started.'' @ line ''Unblocking thread.'') b d 2 7 None 0 1 w5" by auto
  from act_resume [OF w5 ne(1,2,4)] obtain w6 where m6: "\<And>ms. moves (Go # Go # Go # ms) w5 = moves ms w6"
    and w6: "scene (stage lay R T k i d [Static] [b]) (host w) (line ''Blocking test threads queued.'' @ line ''Blocking thread started.'' @
      line ''Controller thread started.'' @ line ''Unblocking thread.'' @ line ''Blocking thread resumed.'') b d 5 7 None 1 1 w6" by auto
  from act_end [OF w6 ne(1,3,5)] obtain w7 where m7: "\<And>ms. moves (Go # Go # ms) w6 = moves ms w7"
    and w7: "scene (stage lay R T k i Static [] [b, d]) (host w) (line ''Blocking test threads queued.'' @ line ''Blocking thread started.'' @
      line ''Controller thread started.'' @ line ''Unblocking thread.'' @ line ''Blocking thread resumed.'') b d 5 9 None 1 1 w7" by auto
  have l: "replicate 10 Go = Go # Go # replicate 7 Go @ [Go]" "replicate 5 Go = [Go, Go, Go] @ [Go, Go]" by (simp_all add: numeral_eq_Suc)
  have run: "moves (Tick r # replicate 10 Go @ Tick r' # replicate 5 Go) v = Some w7"
    unfolding l append.simps append_assoc m1 m2 m3 m4 m5 m6 m7 by simp
  note e = stageD [OF sceneD(1) [OF w7]]
  have "ready (kern (host w7)) []" "terminated (kern (host w7)) [b, d]" using states_of_between [OF e(1)] by (simp_all only: states_ok_def)
  then show ?thesis using run e(4) w7 start(1) sceneD(2) [OF v] by (auto simp: scene_def)
qed

theorem blocking_test_completes_witness:
  "\<exists>b' w v w'. kernel_boot demo_platform 0x2BADB002 demo_info demo_cold = Some (Go_On_With b') \<and> host w = sys b' \<and>
     thread_blocking_test_start 1 2 w = Some v \<and> moves (Tick 0 # replicate 10 Go @ Tick 0 # replicate 5 Go) v = Some w' \<and>
     blocking_test_resumed w' = 1"
proof -
  obtain b' where b: "kernel_boot demo_platform 0x2BADB002 demo_info demo_cold = Some (Go_On_With b')"
    "up_and_running demo_layout (sys b')" using demo_boots by blast
  let ?w = "\<lparr>host = sys b', places = (\<lambda>_. Elsewhere), blocking_test_target = None, blocking_test_resumed = 0,
      blocking_test_paused = 0, blocking_test_complete = 0, blocking_test_passed = 0\<rparr>"
  have "up_and_running demo_layout (host ?w)" using b(2) by simp
  then obtain v w' where "thread_blocking_test_start 1 2 ?w = Some v"
    "moves (Tick 0 # replicate 10 Go @ Tick 0 # replicate 5 Go) v = Some w'" "blocking_test_resumed w' = 1"
    using blocking_test_completes [of demo_layout ?w 1 2 0 0] by auto
  moreover have "host ?w = sys b'" by simp
  ultimately show ?thesis using b(1) by blast
qed

end
